(* ===== verification/VR_Money.thy ===== *)
theory VR_Money
  imports VR_Prelude
begin

text \<open>
  Money arithmetic and house risk controls: \<open>src/common/money.ts\<close>, \<open>src/common/bet-status.ts\<close>
  and \<open>src/game/risk.service.ts\<close>.

  Amounts are BigInt minor units, modelled as \<open>int\<close>. A multiplier is a JavaScript number that the
  code keeps at two decimals (\<open>Decimal(10,2)\<close> columns); it is a rational here, and the wider model
  carries it as the integer number of hundredths \<open>c\<close>, read as \<open>mult_of c\<close>. Rational arithmetic is
  exact where the code multiplies doubles: for two-decimal values up to the engine's ceiling the
  product \<open>mult * 100\<close> is within half a unit of the integer, so \<open>Math.round\<close> gives that integer in
  both.
\<close>

section \<open>Payout arithmetic\<close>

definition math_round :: "rat \<Rightarrow> int" where
  "math_round x = \<lfloor>x + 1 / 2\<rfloor>"

definition mult_of :: "int \<Rightarrow> rat" where
  "mult_of c = of_int c / 100"

definition minorUnitsToString :: "int \<Rightarrow> string" where
  "minorUnitsToString v = bigint_to_string v"

fun pad_start :: "nat \<Rightarrow> char \<Rightarrow> string \<Rightarrow> string" where
  "pad_start n c s = replicate (n - length s) c @ s"

definition rtpRatioString :: "int \<Rightarrow> int \<Rightarrow> string" where
  "rtpRatioString won wagered =
     (if wagered \<le> 0 then ''0''
      else let scaled = bigint_div (won * 10000) wagered;
               intPart = bigint_div scaled 10000;
               frac = pad_start 4 CHR ''0'' (bigint_to_string (bigint_mod scaled 10000))
           in bigint_to_string intPart @ ''.'' @ frac)"

definition floorPayout :: "int \<Rightarrow> rat \<Rightarrow> int" where
  "floorPayout stakeMinor mult =
     (let multCents = math_round (mult * 100) in bigint_div (stakeMinor * multCents) 100)"

lemma math_round_of_int [simp]: "math_round (of_int c) = c"
  unfolding math_round_def by linarith

lemma floorPayout_cents: "floorPayout s (mult_of c) = bigint_div (s * c) 100"
  by (simp add: floorPayout_def mult_of_def)

lemma floorPayout_div: "0 \<le> s \<Longrightarrow> 0 \<le> c \<Longrightarrow> floorPayout s (mult_of c) = s * c div 100"
  by (simp add: floorPayout_cents bigint_div_nonneg)

lemma div_100_bounds: "100 * (n div 100) \<le> n \<and> n < 100 * (n div 100 + 1)" for n :: int
  by presburger

lemma floorPayout_ge_stake: "0 \<le> s \<Longrightarrow> 100 \<le> c \<Longrightarrow> s \<le> floorPayout s (mult_of c)"
proof -
  assume s: "0 \<le> s" and c: "100 \<le> c"
  have "s * 100 \<le> s * c" using s c by (simp add: mult_left_mono)
  then have "s * 100 div 100 \<le> s * c div 100" by (rule zdiv_mono1) simp
  with s c show ?thesis by (simp add: floorPayout_div)
qed

lemma floorPayout_mono:
  "0 \<le> s \<Longrightarrow> 0 \<le> c \<Longrightarrow> c \<le> d \<Longrightarrow> floorPayout s (mult_of c) \<le> floorPayout s (mult_of d)"
  by (simp add: floorPayout_div mult_left_mono zdiv_mono1)

section \<open>Bet statuses\<close>

datatype bet_status =
    Reserving | Cancelling | Active | Cashed_out | Busted | Cancelled
  | Payout_pending | Voiding | Voided

definition WAGERED_STATUSES :: "bet_status list" where
  "WAGERED_STATUSES = [Active, Cashed_out, Busted, Payout_pending]"

definition WON_STATUSES :: "bet_status list" where
  "WON_STATUSES = [Cashed_out, Payout_pending]"

definition isWageredStatus :: "bet_status \<Rightarrow> bool" where
  "isWageredStatus s \<longleftrightarrow> s \<in> set WAGERED_STATUSES"

definition isWonStatus :: "bet_status \<Rightarrow> bool" where
  "isWonStatus s \<longleftrightarrow> s \<in> set WON_STATUSES"

lemma isWageredStatus_simps [simp]:
  "\<not> isWageredStatus Reserving" "\<not> isWageredStatus Cancelling" "isWageredStatus Active"
  "isWageredStatus Cashed_out" "isWageredStatus Busted" "\<not> isWageredStatus Cancelled"
  "isWageredStatus Payout_pending" "\<not> isWageredStatus Voiding" "\<not> isWageredStatus Voided"
  by (simp_all add: isWageredStatus_def WAGERED_STATUSES_def)

lemma isWonStatus_simps [simp]:
  "\<not> isWonStatus Reserving" "\<not> isWonStatus Cancelling" "\<not> isWonStatus Active"
  "isWonStatus Cashed_out" "\<not> isWonStatus Busted" "\<not> isWonStatus Cancelled"
  "isWonStatus Payout_pending" "\<not> isWonStatus Voiding" "\<not> isWonStatus Voided"
  by (simp_all add: isWonStatus_def WON_STATUSES_def)

section \<open>Risk service\<close>

record risk_limits =
  rl_minBet :: int
  rl_maxBet :: int
  rl_maxWinPerBet :: int
  rl_maxMultiplier :: int
  rl_maxRoundExposure :: int

record per_bet_limits =
  pb_minBet :: int
  pb_maxBet :: int
  pb_maxWinPerBet :: int

text \<open>\<open>envBig(name, def)\<close>: the variable's value if it is a non-empty digit string.\<close>

definition envBig :: "string option \<Rightarrow> int \<Rightarrow> int" where
  "envBig v d =
     (case v of
        None \<Rightarrow> d
      | Some s \<Rightarrow> if s = [] then d
                  else (case digits_value 0 s of Some n \<Rightarrow> int n | None \<Rightarrow> d))"

definition default_limits :: risk_limits where
  "default_limits =
     \<lparr>rl_minBet = 1, rl_maxBet = 1000000, rl_maxWinPerBet = 100000000,
      rl_maxMultiplier = 1000000, rl_maxRoundExposure = 10000000000\<rparr>"

text \<open>
  The per-currency override replaces the global window when it is passed. The result
  \<open>{ ok: true } | { ok: false, reason }\<close> is a sum, with the reason on the left.
\<close>

definition checkBetAmount :: "risk_limits \<Rightarrow> int \<Rightarrow> per_bet_limits option \<Rightarrow> string + unit" where
  "checkBetAmount rl amount limits =
     (let (lo, hi) = (case limits of None \<Rightarrow> (rl_minBet rl, rl_maxBet rl)
                                   | Some l \<Rightarrow> (pb_minBet l, pb_maxBet l))
      in if amount < lo \<or> amount > hi then Inl ''invalid_amount'' else Inr ())"

definition potentialPayout :: "risk_limits \<Rightarrow> int \<Rightarrow> int" where
  "potentialPayout rl amount =
     (let uncapped = amount * rl_maxMultiplier rl
      in if uncapped < rl_maxWinPerBet rl then uncapped else rl_maxWinPerBet rl)"

definition checkRoundExposure :: "risk_limits \<Rightarrow> int \<Rightarrow> int \<Rightarrow> string + int" where
  "checkRoundExposure rl currentExposure amount =
     (let newExposure = currentExposure + potentialPayout rl amount
      in if newExposure > rl_maxRoundExposure rl then Inl ''round_exposure_cap''
         else Inr newExposure)"

definition capPayout :: "risk_limits \<Rightarrow> int \<Rightarrow> int option \<Rightarrow> int" where
  "capPayout rl payout maxWinPerBet =
     (let m = (case maxWinPerBet of None \<Rightarrow> rl_maxWinPerBet rl | Some m \<Rightarrow> m);
          cap = (if m < rl_maxWinPerBet rl then m else rl_maxWinPerBet rl)
      in if payout > cap then cap else payout)"

lemma capPayout_le: "capPayout rl p m \<le> p" "capPayout rl p m \<le> rl_maxWinPerBet rl"
  by (auto simp: capPayout_def Let_def split: option.splits)

lemma capPayout_le_own: "capPayout rl p (Some m) \<le> m"
  by (auto simp: capPayout_def Let_def)

lemma capPayout_pos:
  "0 < p \<Longrightarrow> 0 < rl_maxWinPerBet rl \<Longrightarrow> (\<And>x. m = Some x \<Longrightarrow> 0 < x) \<Longrightarrow> 0 < capPayout rl p m"
  by (auto simp: capPayout_def Let_def split: option.splits)

lemma checkRoundExposure_Inr:
  "checkRoundExposure rl e a = Inr n \<longleftrightarrow>
     n = e + potentialPayout rl a \<and> n \<le> rl_maxRoundExposure rl"
  by (auto simp: checkRoundExposure_def Let_def)

section \<open>Properties\<close>

text \<open>
  \<open>floorPayout\<close> is the exact integer floor of stake times a two-decimal multiplier: for a
  non-negative stake and a multiplier of \<open>c\<close> hundredths the paid amount never exceeds the exact
  product and is short of it by less than one minor unit, at any magnitude of the stake.
\<close>

theorem floorPayout_exact_floor:
  assumes "0 \<le> s" and "0 \<le> c"
  shows "100 * floorPayout s (mult_of c) \<le> s * c \<and> s * c < 100 * (floorPayout s (mult_of c) + 1)"
  unfolding floorPayout_div [OF assms] by (rule div_100_bounds)

theorem floorPayout_exact_floor_witness:
  "100 * floorPayout 100 (mult_of 114) \<le> 100 * 114 \<and>
   100 * 114 < 100 * (floorPayout 100 (mult_of 114) + 1) \<and> floorPayout 100 (mult_of 114) = 114"
  using floorPayout_exact_floor [of 100 114] by (simp add: floorPayout_div)

text \<open>
  The worst-case figure the round-exposure breaker reserves for a bet bounds whatever the
  cash-out path can pay for it, whatever cap is stamped on the bet, as long as the multiplier paid
  is within the configured \<open>maxMultiplier\<close>.
\<close>

theorem potentialPayout_bounds_payout:
  assumes "0 \<le> amount" and "0 \<le> c" and "c \<le> 100 * rl_maxMultiplier rl"
  shows "capPayout rl (floorPayout amount (mult_of c)) m \<le> potentialPayout rl amount"
proof -
  have "amount * c \<le> amount * (100 * rl_maxMultiplier rl)"
    using assms by (intro mult_left_mono) auto
  then have "amount * c div 100 \<le> amount * (100 * rl_maxMultiplier rl) div 100"
    by (rule zdiv_mono1) simp
  also have "\<dots> = amount * rl_maxMultiplier rl"
    by (metis mult.left_commute nonzero_mult_div_cancel_left zero_neq_numeral)
  finally have "floorPayout amount (mult_of c) \<le> amount * rl_maxMultiplier rl"
    using assms by (simp add: floorPayout_div)
  moreover have "capPayout rl (floorPayout amount (mult_of c)) m \<le> floorPayout amount (mult_of c)"
    and "capPayout rl (floorPayout amount (mult_of c)) m \<le> rl_maxWinPerBet rl"
    by (rule capPayout_le)+
  ultimately show ?thesis by (auto simp: potentialPayout_def Let_def)
qed

theorem potentialPayout_bounds_payout_witness:
  "capPayout default_limits (floorPayout 1000 (mult_of 100000000)) (Some 5000) = 5000 \<and>
   capPayout default_limits (floorPayout 1000 (mult_of 100000000)) (Some 5000)
     \<le> potentialPayout default_limits 1000"
  using potentialPayout_bounds_payout [of 1000 100000000 default_limits "Some 5000"]
  by (simp add: default_limits_def capPayout_def Let_def floorPayout_div)

end
