(* ===== verification/VR_Fairness.thy ===== *)
theory VR_Fairness
  imports VR_Money
begin

text \<open>
  The provably-fair outcome: \<open>src/fairness/crash.ts\<close> (crash multiplier from an HMAC) and
  \<open>src/fairness/seed-chain.ts\<close> (the pre-committed hash chain of seeds).

  SHA-256 and HMAC-SHA-256 come from \<open>node:crypto\<close>; they are the parameters \<open>sha\<close> (hex text to hex
  text) and \<open>hmac\<close> (hex key and message to hex text). The random last seed of a chain is the
  argument \<open>rnd\<close>. A crash multiplier is counted in hundredths by \<open>crash_cents\<close>.
\<close>

section \<open>Crash multiplier\<close>

definition E_entropy :: int where
  "E_entropy = 2 ^ 52"

definition FACTOR :: int where
  "FACTOR = math_round (100 * (1 - 3 / 100))"

definition MAX_CENTS :: int where
  "MAX_CENTS = 100000000"

definition hex_digit :: "char \<Rightarrow> nat option" where
  "hex_digit c =
     (let n = (of_char c :: nat)
      in if 48 \<le> n \<and> n \<le> 57 then Some (n - 48)
         else if 97 \<le> n \<and> n \<le> 102 then Some (n - 87)
         else if 65 \<le> n \<and> n \<le> 70 then Some (n - 55) else None)"

fun hex_value :: "nat \<Rightarrow> string \<Rightarrow> nat option" where
  "hex_value acc [] = Some acc"
| "hex_value acc (c # cs) =
     (case hex_digit c of None \<Rightarrow> None | Some d \<Rightarrow> hex_value (16 * acc + d) cs)"

text \<open>The 52-bit draw \<open>h\<close> to hundredths: floor division, then the two clamps in source order.\<close>

definition crash_cents :: "int \<Rightarrow> int" where
  "crash_cents h =
     (let cents = bigint_div (FACTOR * (E_entropy + 1)) (h + 1);
          cents = (if cents < 100 then 100 else cents);
          cents = (if cents > MAX_CENTS then MAX_CENTS else cents)
      in cents)"

text \<open>\<open>BigInt("0x")\<close> and a non-hex digit throw: the result is then \<open>None\<close>.\<close>

definition crashFromHmacHex :: "string \<Rightarrow> rat option" where
  "crashFromHmacHex hex =
     (let d = take 13 hex
      in if d = [] then None
         else map_option (\<lambda>h. mult_of (crash_cents (int h))) (hex_value 0 d))"

definition computeCrash :: "(string \<Rightarrow> string \<Rightarrow> string) \<Rightarrow> string \<Rightarrow> string \<Rightarrow> rat option" where
  "computeCrash hmac seedHex salt = crashFromHmacHex (hmac seedHex salt)"

lemma FACTOR_97 [simp]: "FACTOR = 97"
proof -
  have "100 * (1 - 3 / 100) = (of_int 97 :: rat)" by simp
  then show ?thesis unfolding FACTOR_def by (simp only: math_round_of_int)
qed

lemma crash_cents_eq:
  "0 \<le> h \<Longrightarrow> crash_cents h = min MAX_CENTS (max 100 (97 * (E_entropy + 1) div (h + 1)))"
  by (auto simp: crash_cents_def Let_def bigint_div_nonneg E_entropy_def MAX_CENTS_def
      min_def max_def)

lemma crash_cents_bounds: "100 \<le> crash_cents h \<and> crash_cents h \<le> MAX_CENTS"
  by (auto simp: crash_cents_def Let_def MAX_CENTS_def)

lemma crash_cents_antimono: "0 \<le> h \<Longrightarrow> h \<le> h' \<Longrightarrow> crash_cents h' \<le> crash_cents h"
proof -
  assume h: "0 \<le> h" "h \<le> h'"
  have "97 * (E_entropy + 1) div (h' + 1) \<le> 97 * (E_entropy + 1) div (h + 1)"
    using h by (intro zdiv_mono2) (auto simp: E_entropy_def)
  with h show ?thesis by (auto simp: crash_cents_eq)
qed

lemma le_div_iff: "0 < m \<Longrightarrow> k \<le> n div m \<longleftrightarrow> k * m \<le> n" for k m n :: int
proof
  assume m: "0 < m" and k: "k \<le> n div m"
  have "k * m \<le> n div m * m" using m k by simp
  also have "\<dots> \<le> n" using m by (simp add: minus_mod_eq_div_mult [symmetric])
  finally show "k * m \<le> n" .
next
  assume m: "0 < m" and k: "k * m \<le> n"
  have "k * m div m \<le> n div m" using m k by (intro zdiv_mono1)
  with m show "k \<le> n div m" by simp
qed

lemma crash_cents_ge_iff:
  assumes "0 \<le> h" and "100 < k" and "k \<le> MAX_CENTS"
  shows "k \<le> crash_cents h \<longleftrightarrow> h < 97 * (E_entropy + 1) div k"
proof -
  have "k \<le> crash_cents h \<longleftrightarrow> k \<le> 97 * (E_entropy + 1) div (h + 1)"
    using assms by (auto simp: crash_cents_eq)
  also have "\<dots> \<longleftrightarrow> k * (h + 1) \<le> 97 * (E_entropy + 1)"
    using assms by (simp add: le_div_iff)
  also have "\<dots> \<longleftrightarrow> h + 1 \<le> 97 * (E_entropy + 1) div k"
    using assms by (simp add: le_div_iff mult.commute)
  finally show ?thesis by linarith
qed

section \<open>Seed chain\<close>

text \<open>The loop \<open>for (i = length - 2; i >= 0; i--) chain[i] = sha256Hex(chain[i + 1])\<close>.\<close>

fun fill_chain :: "(string \<Rightarrow> string) \<Rightarrow> nat \<Rightarrow> string \<Rightarrow> string list \<Rightarrow> string list" where
  "fill_chain sha 0 x xs = x # xs"
| "fill_chain sha (Suc n) x xs = fill_chain sha n (sha x) (x # xs)"

definition generateSeedChain ::
  "(string \<Rightarrow> string) \<Rightarrow> string \<Rightarrow> nat \<Rightarrow> string + string list" where
  "generateSeedChain sha rnd len =
     (if len < 2 then Inl ''chain length must be >= 2''
      else Inr (fill_chain sha (len - 1) rnd []))"

definition verifyChainLink :: "(string \<Rightarrow> string) \<Rightarrow> string \<Rightarrow> string \<Rightarrow> bool" where
  "verifyChainLink sha seed prevSeed \<longleftrightarrow> sha seed = prevSeed"

lemma length_fill_chain: "length (fill_chain sha n x xs) = n + 1 + length xs"
  by (induction sha n x xs rule: fill_chain.induct) auto

lemma fill_chain_append: "fill_chain sha n x xs = fill_chain sha n x [] @ xs"
proof (induction n arbitrary: x xs)
  case 0
  then show ?case by simp
next
  case (Suc n)
  have "fill_chain sha (Suc n) x xs = fill_chain sha n (sha x) [] @ (x # xs)"
    using Suc.IH [of "sha x" "x # xs"] by simp
  moreover have "fill_chain sha (Suc n) x [] = fill_chain sha n (sha x) [] @ [x]"
    using Suc.IH [of "sha x" "[x]"] by simp
  ultimately show ?case by simp
qed

lemma fill_chain_nth: "i \<le> n \<Longrightarrow> fill_chain sha n x [] ! i = (sha ^^ (n - i)) x"
proof (induction n arbitrary: x)
  case 0
  then show ?case by simp
next
  case (Suc n)
  have e: "fill_chain sha (Suc n) x [] = fill_chain sha n (sha x) [] @ [x]"
    using fill_chain_append [of sha n "sha x" "[x]"] by simp
  show ?case
  proof (cases "i = Suc n")
    case True
    then show ?thesis by (simp add: e nth_append length_fill_chain del: fill_chain.simps)
  next
    case False
    with Suc.prems have "i \<le> n" by simp
    then have "fill_chain sha (Suc n) x [] ! i = (sha ^^ (n - i)) (sha x)"
      by (simp add: e nth_append length_fill_chain Suc.IH del: fill_chain.simps)
    also have "\<dots> = (sha ^^ (Suc n - i)) x"
      using \<open>i \<le> n\<close> by (simp add: Suc_diff_le funpow_swap1)
    finally show ?thesis .
  qed
qed

lemma generateSeedChain_nth:
  assumes "generateSeedChain sha rnd len = Inr chain" and "i < len"
  shows "chain ! i = (sha ^^ (len - 1 - i)) rnd"
  using assms by (auto simp: generateSeedChain_def fill_chain_nth split: if_splits)

lemma generateSeedChain_length:
  "generateSeedChain sha rnd len = Inr chain \<Longrightarrow> length chain = len \<and> 2 \<le> len"
  by (auto simp: generateSeedChain_def length_fill_chain split: if_splits)

lemma generateSeedChain_link:
  assumes "generateSeedChain sha rnd len = Inr chain" and "Suc i < len"
  shows "verifyChainLink sha (chain ! Suc i) (chain ! i)"
proof -
  have "len - 1 - i = Suc (len - 1 - Suc i)" using assms by simp
  then show ?thesis
    using assms by (simp add: verifyChainLink_def generateSeedChain_nth)
qed

section \<open>Properties\<close>

text \<open>
  C3. The crash distribution is the advertised \<open>0.97 / x\<close>: out of the \<open>2^52\<close> equally likely draws,
  exactly \<open>floor(97 * (2^52 + 1) / k)\<close> produce a crash multiplier of at least \<open>k\<close> hundredths, for every
  target above 1.00x up to the engine ceiling. A player who always cashes out at \<open>k/100\<close> thus gets
  back at most 97 percent of the stake plus a term of order \<open>2^-52\<close>.
\<close>

theorem crash_distribution:
  assumes "100 < k" and "k \<le> MAX_CENTS"
  shows "card {h::nat. h < 2 ^ 52 \<and> k \<le> crash_cents (int h)} = nat (97 * (2 ^ 52 + 1) div k)"
proof -
  let ?n = "97 * (2 ^ 52 + 1) div k :: int"
  have n0: "0 \<le> ?n" using assms by (simp add: pos_imp_zdiv_nonneg_iff)
  have "97 * (2 ^ 52 + 1) div k \<le> 97 * (2 ^ 52 + 1) div (101::int)"
    using assms by (intro zdiv_mono2) auto
  also have "\<dots> \<le> 2 ^ 52" by simp
  finally have n1: "?n \<le> 2 ^ 52" .
  have "{h::nat. h < 2 ^ 52 \<and> k \<le> crash_cents (int h)} = {h. h < nat ?n}"
  proof (rule Collect_cong)
    fix h :: nat
    have "k \<le> crash_cents (int h) \<longleftrightarrow> int h < ?n"
      using crash_cents_ge_iff [of "int h" k] assms by (simp add: E_entropy_def)
    moreover have "int h < ?n \<Longrightarrow> h < 2 ^ 52"
    proof -
      assume "int h < ?n"
      with n1 have "int h < int (2 ^ 52)" by simp
      then show "h < 2 ^ 52" by (simp only: of_nat_less_iff)
    qed
    moreover have "int h < ?n \<longleftrightarrow> h < nat ?n" by linarith
    ultimately show "(h < 2 ^ 52 \<and> k \<le> crash_cents (int h)) = (h < nat ?n)" by blast
  qed
  then show ?thesis by simp
qed

theorem crash_distribution_witness:
  "card {h::nat. h < 2 ^ 52 \<and> 200 \<le> crash_cents (int h)} = nat (97 * (2 ^ 52 + 1) div 200)"
  using crash_distribution [of 200] by (simp add: MAX_CENTS_def)

text \<open>
  Every digest yields a multiplier between 1.00x and 1,000,000x, whatever the HMAC returns, and
  a larger draw never crashes later.
\<close>

theorem computeCrash_range:
  assumes "computeCrash hmac seed salt = Some m"
  shows "\<exists>c. m = mult_of c \<and> 100 \<le> c \<and> c \<le> MAX_CENTS"
  using assms crash_cents_bounds
  by (auto simp: computeCrash_def crashFromHmacHex_def Let_def split: if_splits)

theorem computeCrash_range_witness:
  "computeCrash (\<lambda>k m. ''8000000000000abc'') ''00'' ''s'' = Some (mult_of 193) \<and>
   (\<exists>c. mult_of 193 = mult_of c \<and> 100 \<le> c \<and> c \<le> MAX_CENTS)"
proof -
  have e: "computeCrash (\<lambda>k m. ''8000000000000abc'') ''00'' ''s'' = Some (mult_of 193)"
    by (simp add: computeCrash_def crashFromHmacHex_def hex_digit_def Let_def crash_cents_eq
        E_entropy_def MAX_CENTS_def)
  then show ?thesis using computeCrash_range [OF e] by blast
qed

text \<open>
  The seed chain is verifiable end to end: a generated chain has the requested length, each
  consumed seed hashes to its predecessor, and hashing the seed of round \<open>k\<close> \<open>k\<close> times gives the
  public commit \<open>chain[0]\<close>. With a collision-free hash, no other seed passes the link check against
  the revealed predecessor, so the operator cannot substitute a seed after the commit.
\<close>

theorem seed_chain_verifiable_and_binding:
  assumes gen: "generateSeedChain sha rnd len = Inr chain" and k: "k < len" and inj: "inj sha"
  shows "length chain = len \<and> (sha ^^ k) (chain ! k) = chain ! 0 \<and>
    (0 < k \<longrightarrow> (\<forall>s. verifyChainLink sha s (chain ! (k - 1)) \<longleftrightarrow> s = chain ! k))"
proof (intro conjI impI allI)
  show "length chain = len" using generateSeedChain_length [OF gen] by simp
  have "(sha ^^ k) (chain ! k) = (sha ^^ (k + (len - 1 - k))) rnd"
    using generateSeedChain_nth [OF gen k] by (simp add: funpow_add)
  also have "\<dots> = chain ! 0"
    using generateSeedChain_nth [OF gen, of 0] k by simp
  finally show "(sha ^^ k) (chain ! k) = chain ! 0" .
  fix s assume "0 < k"
  then have "sha (chain ! k) = chain ! (k - 1)"
    using generateSeedChain_link [OF gen, of "k - 1"] k by (simp add: verifyChainLink_def)
  then show "verifyChainLink sha s (chain ! (k - 1)) \<longleftrightarrow> s = chain ! k"
    using inj by (metis verifyChainLink_def injD)
qed

theorem seed_chain_witness:
  "generateSeedChain (\<lambda>s. CHR ''a'' # s) ''r'' 3 = Inr [''aar'', ''ar'', ''r''] \<and>
   ((\<lambda>s. CHR ''a'' # s) ^^ 2) ([''aar'', ''ar'', ''r''] ! 2) = [''aar'', ''ar'', ''r''] ! 0"
proof -
  have e: "generateSeedChain (\<lambda>s. CHR ''a'' # s) ''r'' 3 = Inr [''aar'', ''ar'', ''r'']"
    by (simp add: generateSeedChain_def numeral_3_eq_3)
  have "inj (\<lambda>s. CHR ''a'' # s)" by (simp add: inj_def)
  from seed_chain_verifiable_and_binding [OF e _ this, of 2] e show ?thesis by simp
qed

text \<open>
  The round-exposure breaker under-reserves when \<open>RISK_MAX_MULTIPLIER\<close> is set below the engine
  ceiling. The crash multiplier is capped at 1,000,000x only, so a draw exists at which a bet of 100
  units under a 10,000x limit pays ten times what was reserved for it.
\<close>

theorem potentialPayout_underreserves:
  "let rl = default_limits\<lparr>rl_maxMultiplier := 10000\<rparr>;
       m = the (crashFromHmacHex ''0000000000fff00'')
   in crashFromHmacHex ''0000000000fff00'' = Some (mult_of MAX_CENTS) \<and>
      potentialPayout rl 100 = 1000000 \<and>
      capPayout rl (floorPayout 100 (mult_of 10000000)) None > potentialPayout rl 100"
  by (simp add: Let_def crashFromHmacHex_def hex_digit_def crash_cents_eq E_entropy_def
      MAX_CENTS_def default_limits_def potentialPayout_def capPayout_def floorPayout_div)

end
