(* ===== verification/VR_World.thy ===== *)
theory VR_World
  imports VR_Fairness
begin

text \<open>
  The data model (\<open>prisma/schema.prisma\<close>) as one record \<open>world\<close>: each table is a list of row records
  in insertion order, so \<open>orderBy createdAt asc\<close> is list order. The type parameter \<open>'o\<close> is the state
  of the operator's own wallet, which lives outside this program and is only reached through the
  operator API.

  Row ids that PostgreSQL generates for ledger rows are insertion numbers (\<open>lt_id\<close>); bet, round, user,
  wallet and session ids are UUID text. Times are epoch milliseconds. Multipliers and crash points are
  hundredths. A transaction id on a bet is either a ledger row id or the operator's own text.

  The second half names the idempotency keys the services build with template strings, and proves that
  keys of different purposes or different bets never collide as long as ids contain no colon, which
  UUIDs do not.
\<close>

section \<open>Rows\<close>

datatype phase = Waiting | Betting | Running | Crashed | Settling | Completed

datatype panel = PanelA | PanelB

datatype ledger_type =
  Deposit | Withdrawal | Bet_debit | Payout_credit | Refund | Adjustment

datatype txid = Ledger_id nat | Operator_tx string

record ledger_ref =
  refType :: "string option"
  refId :: "uid option"

record ledger_row =
  lt_id :: nat
  lt_wallet :: uid
  lt_type :: ledger_type
  lt_amount :: int
  lt_balanceAfter :: int
  lt_refType :: "string option"
  lt_refId :: "uid option"
  lt_key :: string

record wallet =
  w_id :: uid
  w_userId :: uid
  w_currency :: string
  w_balance :: int

record user =
  u_id :: uid
  u_username :: string
  u_isGuest :: bool
  u_anonymizedAt :: "int option"

record profile =
  p_userId :: uid
  p_displayName :: string
  p_totalLoot :: int
  p_biggestMultiplier :: int

record bet =
  b_id :: uid
  b_roundId :: uid
  b_userId :: uid
  b_walletId :: uid
  b_panel :: panel
  b_amount :: int
  b_autoCashout :: "int option"
  b_status :: bet_status
  b_cashoutMult :: "int option"
  b_payout :: int
  b_demo :: bool
  b_operatorId :: "uid option"
  b_currency :: string
  b_maxWinPerBet :: "int option"
  b_debitTxId :: "txid option"
  b_payoutTxId :: "txid option"
  b_createdAt :: int
  b_settledAt :: "int option"

record round =
  r_id :: uid
  r_seedId :: uid
  r_crashPoint :: int
  r_status :: phase
  r_phaseEndsAt :: "int option"
  r_startedAt :: "int option"
  r_crashedAt :: "int option"
  r_settledAt :: "int option"

record game_session =
  s_id :: uid
  s_operatorId :: uid
  s_playerId :: string
  s_currency :: string
  s_walletId :: uid
  s_demo :: bool
  s_locale :: string
  s_launchJti :: string
  s_createdAt :: int
  s_revokedAt :: "int option"
  s_rcDueAt :: "int option"
  s_rcPendingAt :: "int option"
  s_rcLastAckAt :: "int option"

datatype rollback_status = RPending | RDraining | RConfirmed

record rollback_row =
  rb_operatorId :: uid
  rb_playerId :: string
  rb_currency :: string
  rb_transactionId :: string
  rb_dedupeKey :: string
  rb_reason :: string
  rb_betId :: "uid option"
  rb_amount :: "int option"
  rb_status :: rollback_status
  rb_attempts :: nat
  rb_leaseUntil :: "int option"

record 'o world =
  db_wallets :: "wallet list"
  db_ledger :: "ledger_row list"
  db_bets :: "bet list"
  db_rounds :: "round list"
  db_users :: "user list"
  db_profiles :: "profile list"
  db_sessions :: "game_session list"
  db_rollbacks :: "rollback_row list"
  operator_state :: 'o

section \<open>Exceptions\<close>

text \<open>The operator API's error categories and the exceptions the wallet layer throws.\<close>

datatype op_error = OperatorInsufficientFunds | OperatorTimeout | OperatorError string

datatype exn =
    Amount_must_be_positive
  | Amount_must_not_be_negative
  | Insufficient_balance
  | Record_not_found
  | Payout_pending_exn
  | Wallet_unavailable
  | Wallet_error
  | TxId_too_long
  | Unknown_provider_type
  | Undefined_thrown
  | Op_exn op_error

record wallet_tx =
  tx_id :: txid
  tx_balanceAfter :: int

section \<open>Lookups\<close>

definition find_wallet :: "'o world \<Rightarrow> uid \<Rightarrow> wallet option" where
  "find_wallet w i = find (\<lambda>x. w_id x = i) (db_wallets w)"

definition find_key :: "'o world \<Rightarrow> string \<Rightarrow> ledger_row option" where
  "find_key w k = find (\<lambda>l. lt_key l = k) (db_ledger w)"

definition find_bet :: "'o world \<Rightarrow> uid \<Rightarrow> bet option" where
  "find_bet w i = find (\<lambda>b. b_id b = i) (db_bets w)"

definition find_slot :: "'o world \<Rightarrow> uid \<Rightarrow> uid \<Rightarrow> panel \<Rightarrow> bet option" where
  "find_slot w r u p =
     find (\<lambda>b. b_roundId b = r \<and> b_userId b = u \<and> b_panel b = p) (db_bets w)"

definition find_round :: "'o world \<Rightarrow> uid \<Rightarrow> round option" where
  "find_round w i = find (\<lambda>r. r_id r = i) (db_rounds w)"

definition has_key :: "'o world \<Rightarrow> string \<Rightarrow> bool" where
  "has_key w k \<longleftrightarrow> k \<in> lt_key ` set (db_ledger w)"

lemma find_key_None_iff: "find_key w k = None \<longleftrightarrow> \<not> has_key w k"
  by (auto simp: find_key_def has_key_def find_None_iff)

lemma find_key_SomeD: "find_key w k = Some l \<Longrightarrow> l \<in> set (db_ledger w) \<and> lt_key l = k"
  unfolding find_key_def by (drule find_SomeD) simp

lemma find_key_Some_has_key: "find_key w k = Some l \<Longrightarrow> has_key w k"
  using find_key_SomeD by (fastforce simp: has_key_def)

lemma find_wallet_SomeD: "find_wallet w i = Some x \<Longrightarrow> x \<in> set (db_wallets w) \<and> w_id x = i"
  unfolding find_wallet_def by (drule find_SomeD) simp

lemma find_bet_SomeD: "find_bet w i = Some b \<Longrightarrow> b \<in> set (db_bets w) \<and> b_id b = i"
  unfolding find_bet_def by (drule find_SomeD) simp

lemma find_slot_SomeD:
  "find_slot w r u p = Some b \<Longrightarrow>
     b \<in> set (db_bets w) \<and> b_roundId b = r \<and> b_userId b = u \<and> b_panel b = p"
  unfolding find_slot_def by (drule find_SomeD) simp

lemma find_round_SomeD: "find_round w i = Some r \<Longrightarrow> r \<in> set (db_rounds w) \<and> r_id r = i"
  unfolding find_round_def by (drule find_SomeD) simp

section \<open>Updates of the bet table\<close>

text \<open>
  \<open>bet_cas w i s f\<close> is \<open>bet.updateMany({ where: { id: i, status: s }, data })\<close>: the new world and the
  returned count. \<open>bet_set w i f\<close> is \<open>bet.update({ where: { id: i }, data })\<close>.
\<close>

definition bet_cas :: "'o world \<Rightarrow> uid \<Rightarrow> bet_status \<Rightarrow> (bet \<Rightarrow> bet) \<Rightarrow> nat \<times> 'o world" where
  "bet_cas w i s f =
     (let P = (\<lambda>b. b_id b = i \<and> b_status b = s)
      in (count_where P (db_bets w), w\<lparr>db_bets := update_where P f (db_bets w)\<rparr>))"

definition bet_set :: "'o world \<Rightarrow> uid \<Rightarrow> (bet \<Rightarrow> bet) \<Rightarrow> 'o world" where
  "bet_set w i f = w\<lparr>db_bets := update_where (\<lambda>b. b_id b = i) f (db_bets w)\<rparr>"

definition bet_delete :: "'o world \<Rightarrow> uid \<Rightarrow> 'o world" where
  "bet_delete w i = w\<lparr>db_bets := delete_where (\<lambda>b. b_id b = i) (db_bets w)\<rparr>"

section \<open>Idempotency keys\<close>

definition panel_name :: "panel \<Rightarrow> string" where
  "panel_name p = (case p of PanelA \<Rightarrow> ''A'' | PanelB \<Rightarrow> ''B'')"

definition debitKey :: "uid \<Rightarrow> uid \<Rightarrow> panel \<Rightarrow> string" where
  "debitKey r u p = ''bet:'' @ r @ '':'' @ u @ '':'' @ panel_name p @ '':debit''"

definition payoutKey :: "uid \<Rightarrow> string" where
  "payoutKey b = ''bet:'' @ b @ '':payout''"

definition refundKey :: "uid \<Rightarrow> string" where
  "refundKey b = ''bet:'' @ b @ '':refund''"

definition restartRefundKey :: "uid \<Rightarrow> string" where
  "restartRefundKey b = ''bet:'' @ b @ '':restart_refund''"

definition voidReclaimKey :: "uid \<Rightarrow> string" where
  "voidReclaimKey b = ''bet:'' @ b @ '':void_reclaim''"

definition voidRefundKey :: "uid \<Rightarrow> string" where
  "voidRefundKey b = ''bet:'' @ b @ '':void_refund''"

definition bet_debitKey :: "bet \<Rightarrow> string" where
  "bet_debitKey b = debitKey (b_roundId b) (b_userId b) (b_panel b)"

definition bet_ref :: "uid \<Rightarrow> ledger_ref" where
  "bet_ref b = \<lparr>refType = Some ''bet'', refId = Some b\<rparr>"

definition colon_free :: "string \<Rightarrow> bool" where
  "colon_free s \<longleftrightarrow> CHR '':'' \<notin> set s"

lemma colon_free_panel [simp]: "CHR '':'' \<notin> set (panel_name p)"
  by (cases p) (simp_all add: panel_name_def)

lemma split_three:
  "CHR '':'' \<notin> set i \<Longrightarrow> CHR '':'' \<notin> set t \<Longrightarrow>
   split_on CHR '':'' (''bet:'' @ i @ CHR '':'' # t) = [''bet'', i, t]"
  by (simp add: split_on_append split_on_no_sep)

lemma split_debitKey:
  "colon_free r \<Longrightarrow> colon_free u \<Longrightarrow>
   split_on CHR '':'' (debitKey r u p) = [''bet'', r, u, panel_name p, ''debit'']"
  by (simp add: debitKey_def colon_free_def split_on_append split_on_no_sep)

lemma split_bet_keys:
  assumes "colon_free i"
  shows "split_on CHR '':'' (payoutKey i) = [''bet'', i, ''payout'']"
    and "split_on CHR '':'' (refundKey i) = [''bet'', i, ''refund'']"
    and "split_on CHR '':'' (restartRefundKey i) = [''bet'', i, ''restart_refund'']"
    and "split_on CHR '':'' (voidReclaimKey i) = [''bet'', i, ''void_reclaim'']"
    and "split_on CHR '':'' (voidRefundKey i) = [''bet'', i, ''void_refund'']"
  using assms
  by (simp_all add: payoutKey_def refundKey_def restartRefundKey_def voidReclaimKey_def
      voidRefundKey_def colon_free_def split_on_append)

lemma panel_name_inj: "panel_name p = panel_name q \<longleftrightarrow> p = q"
  by (cases p; cases q) (simp_all add: panel_name_def)

lemma debitKey_inj:
  assumes "colon_free r" "colon_free u" "colon_free r'" "colon_free u'"
  shows "debitKey r u p = debitKey r' u' p' \<longleftrightarrow> r = r' \<and> u = u' \<and> p = p'"
proof
  assume "debitKey r u p = debitKey r' u' p'"
  then have "[''bet'', r, u, panel_name p, ''debit''] = [''bet'', r', u', panel_name p', ''debit'']"
    by (metis assms split_debitKey)
  then show "r = r' \<and> u = u' \<and> p = p'" by (simp add: panel_name_inj)
qed simp

text \<open>The five per-bet keys carry the bet id and the purpose, so equal keys agree on both.\<close>

datatype key_kind = KPayout | KRefund | KRestart | KVoidReclaim | KVoidRefund

definition kind_key :: "key_kind \<Rightarrow> uid \<Rightarrow> string" where
  "kind_key k i = (case k of KPayout \<Rightarrow> payoutKey i | KRefund \<Rightarrow> refundKey i
     | KRestart \<Rightarrow> restartRefundKey i | KVoidReclaim \<Rightarrow> voidReclaimKey i
     | KVoidRefund \<Rightarrow> voidRefundKey i)"

lemma kind_key_inj:
  assumes "colon_free i" "colon_free j"
  shows "kind_key k i = kind_key m j \<longleftrightarrow> k = m \<and> i = j"
proof
  assume e: "kind_key k i = kind_key m j"
  then have "split_on CHR '':'' (kind_key k i) = split_on CHR '':'' (kind_key m j)" by simp
  then show "k = m \<and> i = j"
    using assms by (cases k; cases m) (simp_all add: kind_key_def split_bet_keys)
qed simp

lemma kind_key_not_debitKey:
  assumes "colon_free i" "colon_free r" "colon_free u"
  shows "kind_key k i \<noteq> debitKey r u p"
proof
  assume "kind_key k i = debitKey r u p"
  then have "length (split_on CHR '':'' (kind_key k i)) = length (split_on CHR '':'' (debitKey r u p))"
    by simp
  then show False
    using assms by (cases k) (simp_all add: kind_key_def split_bet_keys split_debitKey)
qed

end
