(* ===== verification/VR_Ledger.thy ===== *)
theory VR_Ledger
  imports VR_World
begin

text \<open>
  The internal ledger, \<open>src/wallet/ledger.service.ts\<close>: append-only rows, one per money movement, with
  \<open>wallets.balance\<close> as the cached total.

  \<open>ledger_record\<close> and \<open>ledger_resetTo\<close> take two environment functions: \<open>env1\<close> is what other
  transactions commit between the unlocked fast-path lookup and the row lock, \<open>env2\<close> what they commit
  on other wallets between the locked re-check and this transaction's insert. The second is how the
  unique-violation backstop (Prisma code P2002) is reached. With both the identity the function is the
  uncontended call. An exception rolls the transaction back, so it returns the world it started from.

  \<open>ledger_inv\<close> is what every reachable book satisfies: unique keys, no negative balance, each wallet's
  rows form a running total, and the newest row's \<open>balanceAfter\<close> is the cached balance.
\<close>

section \<open>Operations\<close>

definition ref_type_of :: "ledger_ref option \<Rightarrow> string option" where
  "ref_type_of r = (case r of None \<Rightarrow> None | Some x \<Rightarrow> refType x)"

definition ref_id_of :: "ledger_ref option \<Rightarrow> uid option" where
  "ref_id_of r = (case r of None \<Rightarrow> None | Some x \<Rightarrow> refId x)"

definition mk_row ::
  "'o world \<Rightarrow> uid \<Rightarrow> ledger_type \<Rightarrow> int \<Rightarrow> int \<Rightarrow> ledger_ref option \<Rightarrow> string \<Rightarrow> ledger_row" where
  "mk_row w walletId t amount after ref key =
     \<lparr>lt_id = length (db_ledger w), lt_wallet = walletId, lt_type = t, lt_amount = amount,
      lt_balanceAfter = after, lt_refType = ref_type_of ref, lt_refId = ref_id_of ref, lt_key = key\<rparr>"

definition set_balance :: "uid \<Rightarrow> int \<Rightarrow> 'o world \<Rightarrow> 'o world" where
  "set_balance walletId v w =
     w\<lparr>db_wallets := update_where (\<lambda>x. w_id x = walletId) (\<lambda>x. x\<lparr>w_balance := v\<rparr>) (db_wallets w)\<rparr>"

definition append_row :: "ledger_row \<Rightarrow> 'o world \<Rightarrow> 'o world" where
  "append_row r w = w\<lparr>db_ledger := db_ledger w @ [r]\<rparr>"

text \<open>The insert of a row, with the P2002 backstop: a key taken meanwhile returns the row found.\<close>

definition ledger_insert ::
  "('o world \<Rightarrow> 'o world) \<Rightarrow> 'o world \<Rightarrow> uid \<Rightarrow> ledger_type \<Rightarrow> int \<Rightarrow> int \<Rightarrow> ledger_ref option \<Rightarrow>
   string \<Rightarrow> (exn + ledger_row) \<times> 'o world" where
  "ledger_insert env2 w walletId t amount after ref key =
     (let w2 = env2 w in
      case find_key w2 key of
        Some row \<Rightarrow> (Inr row, w2)
      | None \<Rightarrow>
          let row = mk_row w2 walletId t amount after ref key
          in (Inr row, append_row row (set_balance walletId after w2)))"

definition ledger_record ::
  "('o world \<Rightarrow> 'o world) \<Rightarrow> ('o world \<Rightarrow> 'o world) \<Rightarrow> 'o world \<Rightarrow> uid \<Rightarrow> int \<Rightarrow> ledger_type \<Rightarrow>
   string \<Rightarrow> ledger_ref option \<Rightarrow> (exn + ledger_row) \<times> 'o world" where
  "ledger_record env1 env2 w walletId signedAmount t key ref =
     (case find_key w key of
        Some existing \<Rightarrow> (Inr existing, w)
      | None \<Rightarrow>
          let w1 = env1 w in
          case find_key w1 key of
            Some dup \<Rightarrow> (Inr dup, w1)
          | None \<Rightarrow>
              (case find_wallet w1 walletId of
                 None \<Rightarrow> (Inl Record_not_found, w1)
               | Some wal \<Rightarrow>
                   let balanceAfter = w_balance wal + signedAmount
                   in if balanceAfter < 0 then (Inl Insufficient_balance, w1)
                      else ledger_insert env2 w1 walletId t signedAmount balanceAfter ref key))"

text \<open>\<open>resetTo\<close> returns \<open>null\<close> (\<open>None\<close>) when the wallet already is at the target.\<close>

definition ledger_resetTo ::
  "('o world \<Rightarrow> 'o world) \<Rightarrow> ('o world \<Rightarrow> 'o world) \<Rightarrow> 'o world \<Rightarrow> uid \<Rightarrow> int \<Rightarrow> string \<Rightarrow>
   ledger_ref option \<Rightarrow> (exn + ledger_row option) \<times> 'o world" where
  "ledger_resetTo env1 env2 w walletId target key ref =
     (if target < 0 then (Inl Amount_must_not_be_negative, w)
      else case find_key w key of
        Some existing \<Rightarrow> (Inr (Some existing), w)
      | None \<Rightarrow>
          let w1 = env1 w in
          case find_key w1 key of
            Some dup \<Rightarrow> (Inr (Some dup), w1)
          | None \<Rightarrow>
              (case find_wallet w1 walletId of
                 None \<Rightarrow> (Inl Record_not_found, w1)
               | Some wal \<Rightarrow>
                   let delta = target - w_balance wal
                   in if delta = 0 then (Inr None, w1)
                      else (case ledger_insert env2 w1 walletId Adjustment delta target ref key of
                              (Inl e, w2) \<Rightarrow> (Inl e, w2)
                            | (Inr row, w2) \<Rightarrow> (Inr (Some row), w2))))"

definition row_tx :: "ledger_row \<Rightarrow> wallet_tx" where
  "row_tx l = \<lparr>tx_id = Ledger_id (lt_id l), tx_balanceAfter = lt_balanceAfter l\<rparr>"

definition map_res :: "('a \<Rightarrow> 'b) \<Rightarrow> (exn + 'a) \<times> 'w \<Rightarrow> (exn + 'b) \<times> 'w" where
  "map_res f r = (case r of (Inl e, w) \<Rightarrow> (Inl e, w) | (Inr x, w) \<Rightarrow> (Inr (f x), w))"

definition ledger_debit ::
  "uid \<Rightarrow> int \<Rightarrow> ledger_type \<Rightarrow> string \<Rightarrow> ledger_ref option \<Rightarrow> 'o world \<Rightarrow>
   (exn + wallet_tx) \<times> 'o world" where
  "ledger_debit walletId amount t key ref w =
     (if amount \<le> 0 then (Inl Amount_must_be_positive, w)
      else map_res row_tx (ledger_record id id w walletId (- amount) t key ref))"

definition ledger_credit ::
  "uid \<Rightarrow> int \<Rightarrow> ledger_type \<Rightarrow> string \<Rightarrow> ledger_ref option \<Rightarrow> 'o world \<Rightarrow>
   (exn + wallet_tx) \<times> 'o world" where
  "ledger_credit walletId amount t key ref w =
     (if amount \<le> 0 then (Inl Amount_must_be_positive, w)
      else map_res row_tx (ledger_record id id w walletId amount t key ref))"

definition ledger_getBalance :: "uid \<Rightarrow> 'o world \<Rightarrow> (exn + int) \<times> 'o world" where
  "ledger_getBalance walletId w =
     (case find_wallet w walletId of None \<Rightarrow> (Inl Record_not_found, w)
                                   | Some x \<Rightarrow> (Inr (w_balance x), w))"

text \<open>The internal ledger has nothing ambiguous to compensate: \<open>rollback\<close> is a no-op.\<close>

definition ledger_rollback ::
  "uid \<Rightarrow> string \<Rightarrow> ledger_ref option \<Rightarrow> 'o world \<Rightarrow> (exn + unit) \<times> 'o world" where
  "ledger_rollback walletId key ref w = (Inr (), w)"

datatype direction = DirDebit | DirCredit

record reverse_params =
  rv_originalKey :: string
  rv_reverseKey :: string
  rv_amount :: int
  rv_originalDirection :: direction
  rv_type :: ledger_type
  rv_ref :: "ledger_ref option"
  rv_intent :: "string option"

definition ledger_reverse ::
  "uid \<Rightarrow> reverse_params \<Rightarrow> 'o world \<Rightarrow> (exn + unit) \<times> 'o world" where
  "ledger_reverse walletId p w =
     (case rv_originalDirection p of
        DirDebit \<Rightarrow>
          map_res (\<lambda>_. ()) (ledger_credit walletId (rv_amount p) (rv_type p) (rv_reverseKey p) (rv_ref p) w)
      | DirCredit \<Rightarrow>
          map_res (\<lambda>_. ()) (ledger_debit walletId (rv_amount p) (rv_type p) (rv_reverseKey p) (rv_ref p) w))"

section \<open>Well-formed books\<close>

definition wallet_rows :: "uid \<Rightarrow> ledger_row list \<Rightarrow> ledger_row list" where
  "wallet_rows i ls = filter (\<lambda>l. lt_wallet l = i) ls"

text \<open>Each row's \<open>balanceAfter\<close> is the previous one's plus the signed amount.\<close>

fun running :: "ledger_row list \<Rightarrow> bool" where
  "running [] = True"
| "running [l] = True"
| "running (l # m # ls) =
     (lt_balanceAfter m = lt_balanceAfter l + lt_amount m \<and> running (m # ls))"

definition wallet_books :: "ledger_row list \<Rightarrow> wallet \<Rightarrow> bool" where
  "wallet_books ls x \<longleftrightarrow>
     0 \<le> w_balance x \<and> running (wallet_rows (w_id x) ls) \<and>
     (wallet_rows (w_id x) ls \<noteq> [] \<longrightarrow>
        lt_balanceAfter (last (wallet_rows (w_id x) ls)) = w_balance x)"

definition ledger_inv :: "'o world \<Rightarrow> bool" where
  "ledger_inv w \<longleftrightarrow>
     distinct (map w_id (db_wallets w)) \<and> distinct (map lt_key (db_ledger w)) \<and>
     (\<forall>x \<in> set (db_wallets w). wallet_books (db_ledger w) x)"

lemma running_snoc:
  "running (ls @ [m]) \<longleftrightarrow>
     running ls \<and> (ls \<noteq> [] \<longrightarrow> lt_balanceAfter m = lt_balanceAfter (last ls) + lt_amount m)"
  by (induction ls rule: running.induct) auto

lemma running_total:
  "running ls \<Longrightarrow> ls \<noteq> [] \<Longrightarrow>
   lt_balanceAfter (last ls) =
     lt_balanceAfter (hd ls) - lt_amount (hd ls) + sum_list (map lt_amount ls)"
  by (induction ls rule: running.induct) auto

lemma wallet_rows_append [simp]: "wallet_rows i (ls @ ms) = wallet_rows i ls @ wallet_rows i ms"
  by (simp add: wallet_rows_def)

text \<open>The effect of a committed row on the invariant: the one step every operation takes.\<close>

lemma ledger_inv_insert:
  assumes inv: "ledger_inv w" and key: "\<not> has_key w key"
    and wal: "find_wallet w i = Some x" and after: "after = w_balance x + amount" "0 \<le> after"
  shows "ledger_inv (append_row (mk_row w' i t amount after ref key) (set_balance i after w))"
proof -
  let ?r = "mk_row w' i t amount after ref key"
  from wal have x: "x \<in> set (db_wallets w)" "w_id x = i" using find_wallet_SomeD by auto
  have books: "wallet_books (db_ledger w) y" if "y \<in> set (db_wallets w)" for y
    using inv that by (simp add: ledger_inv_def)
  have "wallet_books (db_ledger w @ [?r]) (if w_id y = i then y\<lparr>w_balance := after\<rparr> else y)"
    if y: "y \<in> set (db_wallets w)" for y
  proof (cases "w_id y = i")
    case True
    then have "y = x" using inv y x distinct_key_eq by (fastforce simp: ledger_inv_def)
    then show ?thesis
      using books [OF y] x after
      by (auto simp: wallet_books_def mk_row_def running_snoc wallet_rows_def)
  next
    case False
    then show ?thesis
      using books [OF y] by (auto simp: wallet_books_def mk_row_def wallet_rows_def)
  qed
  moreover have "distinct (map w_id (update_where (\<lambda>x. w_id x = i) (\<lambda>x. x\<lparr>w_balance := after\<rparr>) (db_wallets w)))"
    using inv by (simp add: ledger_inv_def)
  moreover have "distinct (map lt_key (db_ledger w @ [?r]))"
    using inv key by (auto simp: ledger_inv_def has_key_def mk_row_def)
  ultimately show ?thesis
    by (simp add: ledger_inv_def append_row_def set_balance_def Ball_update_where)
qed

lemma append_row_simps [simp]:
  "db_ledger (append_row r w) = db_ledger w @ [r]" "db_wallets (append_row r w) = db_wallets w"
  "db_bets (append_row r w) = db_bets w" "db_rounds (append_row r w) = db_rounds w"
  "db_users (append_row r w) = db_users w" "db_profiles (append_row r w) = db_profiles w"
  "db_sessions (append_row r w) = db_sessions w" "db_rollbacks (append_row r w) = db_rollbacks w"
  "operator_state (append_row r w) = operator_state w"
  by (simp_all add: append_row_def)

lemma set_balance_simps [simp]:
  "db_ledger (set_balance i v w) = db_ledger w" "db_bets (set_balance i v w) = db_bets w"
  "db_rounds (set_balance i v w) = db_rounds w" "db_users (set_balance i v w) = db_users w"
  "db_profiles (set_balance i v w) = db_profiles w"
  "db_sessions (set_balance i v w) = db_sessions w"
  "db_rollbacks (set_balance i v w) = db_rollbacks w"
  "operator_state (set_balance i v w) = operator_state w"
  "map w_id (db_wallets (set_balance i v w)) = map w_id (db_wallets w)"
  by (simp_all add: set_balance_def)

lemma mk_row_simps [simp]:
  "lt_key (mk_row w i t a f ref k) = k" "lt_amount (mk_row w i t a f ref k) = a"
  "lt_type (mk_row w i t a f ref k) = t" "lt_wallet (mk_row w i t a f ref k) = i"
  "lt_balanceAfter (mk_row w i t a f ref k) = f"
  "lt_refType (mk_row w i t a f ref k) = ref_type_of ref"
  "lt_refId (mk_row w i t a f ref k) = ref_id_of ref"
  by (simp_all add: mk_row_def)

lemma find_key_mem:
  "ledger_inv w \<Longrightarrow> l \<in> set (db_ledger w) \<Longrightarrow> find_key w (lt_key l) = Some l"
  by (auto simp: find_key_def ledger_inv_def intro: find_distinct)

lemma map_res_simps [simp]: "map_res f (Inl e, w) = (Inl e, w)" "map_res f (Inr x, w) = (Inr (f x), w)"
  by (simp_all add: map_res_def)

lemma map_res_world [simp]: "snd (map_res f r) = snd r"
  by (auto simp: map_res_def split: prod.splits sum.splits)

text \<open>The uncontended call, by cases: retry, missing wallet, overdraft, committed row.\<close>

lemma ledger_record_seq:
  "ledger_record id id w i a t key ref =
     (case find_key w key of
        Some row \<Rightarrow> (Inr row, w)
      | None \<Rightarrow> (case find_wallet w i of
          None \<Rightarrow> (Inl Record_not_found, w)
        | Some x \<Rightarrow>
            if w_balance x + a < 0 then (Inl Insufficient_balance, w)
            else let row = mk_row w i t a (w_balance x + a) ref key
                 in (Inr row, append_row row (set_balance i (w_balance x + a) w))))"
  by (auto simp: ledger_record_def ledger_insert_def Let_def split: option.splits)

text \<open>What a well-behaved environment may do: keep the books well-formed and delete no row.\<close>

definition env_ok :: "('o world \<Rightarrow> 'o world) \<Rightarrow> bool" where
  "env_ok env \<longleftrightarrow>
     (\<forall>w. ledger_inv w \<longrightarrow> ledger_inv (env w) \<and> set (db_ledger w) \<subseteq> set (db_ledger (env w)))"

text \<open>What it may do while this transaction holds the row lock: the same, on other wallets.\<close>

definition env_locked :: "uid \<Rightarrow> ('o world \<Rightarrow> 'o world) \<Rightarrow> bool" where
  "env_locked i env \<longleftrightarrow> env_ok env \<and> (\<forall>w. find_wallet (env w) i = find_wallet w i)"

lemma env_ok_id [simp]: "env_ok id"
  by (simp add: env_ok_def)

lemma env_locked_id [simp]: "env_locked i id"
  by (simp add: env_locked_def)

lemma ledger_insert_inv:
  assumes "ledger_inv w" and "env_locked i env2" and "find_wallet w i = Some x"
    and "after = w_balance x + a" and "0 \<le> after"
    and res: "ledger_insert env2 w i t a after ref key = (r, w')"
  shows "ledger_inv w' \<and> (\<exists>row. r = Inr row \<and> row \<in> set (db_ledger w') \<and> lt_key row = key)"
proof (cases "find_key (env2 w) key")
  case None
  have i2: "ledger_inv (env2 w)" "find_wallet (env2 w) i = Some x"
    using assms by (auto simp: env_locked_def env_ok_def)
  from None have "\<not> has_key (env2 w) key" by (simp add: find_key_None_iff)
  from ledger_inv_insert [OF i2(1) this i2(2) assms(4,5)] None res show ?thesis
    by (auto simp: ledger_insert_def Let_def)
next
  case (Some row)
  then show ?thesis
    using res assms find_key_SomeD [OF Some]
    by (auto simp: ledger_insert_def env_locked_def env_ok_def)
qed

lemma ledger_record_sound:
  assumes inv: "ledger_inv w" and e1: "env_ok env1" and e2: "env_locked i env2"
    and res: "ledger_record env1 env2 w i a t key ref = (r, w')"
  shows "ledger_inv w' \<and>
    (\<forall>row. r = Inr row \<longrightarrow> row \<in> set (db_ledger w') \<and> lt_key row = key)"
proof -
  have inv1: "ledger_inv (env1 w)" using inv e1 by (simp add: env_ok_def)
  show ?thesis
  proof (cases "find_key w key")
    case (Some l)
    then show ?thesis using res inv find_key_SomeD [OF Some] by (auto simp: ledger_record_def)
  next
    case n: None
    show ?thesis
    proof (cases "find_key (env1 w) key")
      case (Some l)
      then show ?thesis
        using n res inv1 find_key_SomeD [OF Some] by (auto simp: ledger_record_def Let_def)
    next
      case None
      show ?thesis
      proof (cases "find_wallet (env1 w) i")
        case x: (Some x)
        show ?thesis
        proof (cases "w_balance x + a < 0")
          case False
          with n None x res
          have "ledger_insert env2 (env1 w) i t a (w_balance x + a) ref key = (r, w')"
            by (simp add: ledger_record_def Let_def)
          from ledger_insert_inv [OF inv1 e2 x refl _ this] False show ?thesis by auto
        qed (use n None x res inv1 in \<open>auto simp: ledger_record_def Let_def\<close>)
      qed (use n None res inv1 in \<open>auto simp: ledger_record_def Let_def\<close>)
    qed
  qed
qed

section \<open>Runs of the ledger\<close>

datatype ledger_op =
    LDebit uid int ledger_type string "ledger_ref option"
  | LCredit uid int ledger_type string "ledger_ref option"
  | LReverse uid reverse_params
  | LReset uid int string "ledger_ref option"

fun ledger_step :: "ledger_op \<Rightarrow> 'o world \<Rightarrow> 'o world" where
  "ledger_step (LDebit i a t k r) w = snd (ledger_debit i a t k r w)"
| "ledger_step (LCredit i a t k r) w = snd (ledger_credit i a t k r w)"
| "ledger_step (LReverse i p) w = snd (ledger_reverse i p w)"
| "ledger_step (LReset i v k r) w = snd (ledger_resetTo id id w i v k r)"

definition ledger_run :: "ledger_op list \<Rightarrow> 'o world \<Rightarrow> 'o world" where
  "ledger_run ops w = fold ledger_step ops w"

text \<open>The cached balance is the opening balance plus the journal, for every wallet.\<close>

definition books_total :: "(uid \<Rightarrow> int) \<Rightarrow> 'o world \<Rightarrow> bool" where
  "books_total opening w \<longleftrightarrow>
     (\<forall>x \<in> set (db_wallets w).
        w_balance x = opening (w_id x) + sum_where (\<lambda>l. lt_wallet l = w_id x) lt_amount (db_ledger w))"

definition ledger_good :: "(uid \<Rightarrow> int) \<Rightarrow> 'o world \<Rightarrow> bool" where
  "ledger_good opening w \<longleftrightarrow> ledger_inv w \<and> books_total opening w"

lemma ledger_good_commit:
  assumes g: "ledger_good opening w" and k: "\<not> has_key w key"
    and x: "find_wallet w i = Some x" and a: "after = w_balance x + a" "0 \<le> after"
  shows "ledger_good opening (append_row (mk_row w i t a after ref key) (set_balance i after w))"
proof -
  have "w_balance y + a = after" if "y \<in> set (db_wallets w)" "w_id y = i" for y
    using g that a find_wallet_SomeD [OF x] distinct_key_eq [of w_id "db_wallets w" y x]
    by (simp add: ledger_good_def ledger_inv_def)
  then have "books_total opening (append_row (mk_row w i t a after ref key) (set_balance i after w))"
    using g unfolding ledger_good_def books_total_def
    by (auto simp: append_row_def set_balance_def Ball_update_where add.assoc [symmetric])
  with ledger_inv_insert [OF _ k x a] g show ?thesis by (simp add: ledger_good_def)
qed

lemma ledger_record_good:
  "ledger_good opening w \<Longrightarrow> ledger_good opening (snd (ledger_record id id w i a t key ref))"
  by (auto simp: ledger_record_seq Let_def find_key_None_iff intro!: ledger_good_commit
      split: option.splits)

lemma ledger_resetTo_seq:
  "ledger_resetTo id id w i v key ref =
     (if v < 0 then (Inl Amount_must_not_be_negative, w)
      else case find_key w key of
        Some row \<Rightarrow> (Inr (Some row), w)
      | None \<Rightarrow> (case find_wallet w i of
          None \<Rightarrow> (Inl Record_not_found, w)
        | Some x \<Rightarrow>
            if v = w_balance x then (Inr None, w)
            else let row = mk_row w i Adjustment (v - w_balance x) v ref key
                 in (Inr (Some row), append_row row (set_balance i v w))))"
  by (auto simp: ledger_resetTo_def ledger_insert_def Let_def split: option.splits)

lemma ledger_resetTo_good:
  "ledger_good opening w \<Longrightarrow> ledger_good opening (snd (ledger_resetTo id id w i v key ref))"
  by (auto simp: ledger_resetTo_seq Let_def find_key_None_iff intro!: ledger_good_commit
      split: option.splits)

lemma ledger_step_good: "ledger_good opening w \<Longrightarrow> ledger_good opening (ledger_step oper w)"
  by (cases oper)
    (auto simp: ledger_debit_def ledger_credit_def ledger_reverse_def ledger_record_good
      ledger_resetTo_good split: direction.splits)

lemma ledger_run_good: "ledger_good opening w \<Longrightarrow> ledger_good opening (ledger_run ops w)"
  unfolding ledger_run_def by (induction ops arbitrary: w) (auto simp: ledger_step_good)

section \<open>Properties\<close>

text \<open>
  C1. A money movement is applied exactly once under any interleaving: whatever other transactions
  commit before the row lock and, on other wallets, while it is held, the call leaves well-formed
  books with every earlier row still present, and when it succeeds the row it returns is in the
  journal and is the only row with its idempotency key.
\<close>

theorem ledger_record_exactly_once:
  assumes inv: "ledger_inv w" and e1: "env_ok env1" and e2: "env_locked i env2"
    and res: "ledger_record env1 env2 w i a t key ref = (r, w')"
  shows "ledger_inv w' \<and>
    (\<forall>row. r = Inr row \<longrightarrow> {l \<in> set (db_ledger w'). lt_key l = key} = {row})"
proof -
  from ledger_record_sound [OF assms]
  have w': "ledger_inv w'" and "\<And>row. r = Inr row \<Longrightarrow> row \<in> set (db_ledger w') \<and> lt_key row = key"
    by blast+
  moreover have "l = m" if "l \<in> set (db_ledger w')" "m \<in> set (db_ledger w')" "lt_key l = lt_key m" for l m
    using w' that by (intro distinct_key_eq [of lt_key]) (simp_all add: ledger_inv_def)
  ultimately show ?thesis by blast
qed

text \<open>
  A retry with the same idempotency key never moves money again: once a call has returned a row,
  any later call with that key returns the same row and changes nothing, whatever amount, type,
  wallet or reference it carries.
\<close>

theorem ledger_record_retry_noop:
  assumes inv: "ledger_inv w"
    and res: "ledger_record id id w i a t key ref = (Inr row, w')"
  shows "ledger_record env1 env2 w' j b u key ref' = (Inr row, w')"
proof -
  have "ledger_inv w' \<and> row \<in> set (db_ledger w') \<and> lt_key row = key"
    using ledger_record_sound [OF inv env_ok_id env_locked_id res] by auto
  then have "find_key w' key = Some row" using find_key_mem by auto
  then show ?thesis by (simp add: ledger_record_def)
qed

text \<open>
  The journal explains every balance. Starting from an empty journal and non-negative balances,
  after any sequence of debits, credits, reversals and demo resets (failed ones included) each
  wallet's cached balance is its opening balance plus the sum of its journal rows, it is not
  negative, and it equals the \<open>balanceAfter\<close> of the wallet's newest row. This is check 2 of the
  reconciliation script.
\<close>

theorem ledger_run_reconciles:
  assumes "distinct (map w_id (db_wallets w))" and "db_ledger w = []"
    and "\<forall>x \<in> set (db_wallets w). 0 \<le> w_balance x \<and> w_balance x = opening (w_id x)"
    and x: "x \<in> set (db_wallets (ledger_run ops w))"
  shows "w_balance x = opening (w_id x)
           + sum_where (\<lambda>l. lt_wallet l = w_id x) lt_amount (db_ledger (ledger_run ops w))
    \<and> 0 \<le> w_balance x
    \<and> (wallet_rows (w_id x) (db_ledger (ledger_run ops w)) \<noteq> [] \<longrightarrow>
        lt_balanceAfter (last (wallet_rows (w_id x) (db_ledger (ledger_run ops w)))) = w_balance x)"
proof -
  have "ledger_good opening w"
    using assms(1-3)
    by (auto simp: ledger_good_def ledger_inv_def books_total_def wallet_books_def wallet_rows_def)
  then have "ledger_good opening (ledger_run ops w)" by (rule ledger_run_good)
  then have "wallet_books (db_ledger (ledger_run ops w)) x"
    and "w_balance x = opening (w_id x)
           + sum_where (\<lambda>l. lt_wallet l = w_id x) lt_amount (db_ledger (ledger_run ops w))"
    using x unfolding ledger_good_def ledger_inv_def books_total_def by blast+
  then show ?thesis unfolding wallet_books_def by blast
qed

section \<open>Witnesses\<close>

definition one_wallet :: "unit world" where
  "one_wallet =
     \<lparr>db_wallets = [\<lparr>w_id = ''w1'', w_userId = ''u1'', w_currency = ''EUR'', w_balance = 1000\<rparr>],
      db_ledger = [], db_bets = [], db_rounds = [], db_users = [], db_profiles = [],
      db_sessions = [], db_rollbacks = [], operator_state = ()\<rparr>"

lemma one_wallet_inv: "ledger_inv one_wallet"
  by (simp add: one_wallet_def ledger_inv_def wallet_books_def wallet_rows_def)

theorem ledger_record_exactly_once_witness:
  "\<exists>row w'. ledger_record id id one_wallet ''w1'' (- 100) Bet_debit ''k'' None = (Inr row, w') \<and>
     {l \<in> set (db_ledger w'). lt_key l = ''k''} = {row} \<and> lt_balanceAfter row = 900"
proof -
  obtain row w' where e: "ledger_record id id one_wallet ''w1'' (- 100) Bet_debit ''k'' None = (Inr row, w')"
    and b: "lt_balanceAfter row = 900"
    by (simp add: ledger_record_seq one_wallet_def find_key_def find_wallet_def Let_def)
  from ledger_record_exactly_once [OF one_wallet_inv env_ok_id env_locked_id e] e b show ?thesis
    by blast
qed

theorem ledger_record_retry_noop_witness:
  "\<exists>row w'. ledger_record id id one_wallet ''w1'' (- 100) Bet_debit ''k'' None = (Inr row, w') \<and>
     ledger_record id id w' ''w1'' 77 Refund ''k'' None = (Inr row, w')"
proof -
  obtain row w' where e: "ledger_record id id one_wallet ''w1'' (- 100) Bet_debit ''k'' None = (Inr row, w')"
    by (simp add: ledger_record_seq one_wallet_def find_key_def find_wallet_def Let_def)
  from ledger_record_retry_noop [OF one_wallet_inv e] e show ?thesis by blast
qed

theorem ledger_run_reconciles_witness:
  "\<exists>x \<in> set (db_wallets (ledger_run [LDebit ''w1'' 300 Bet_debit ''k'' None,
       LDebit ''w1'' 900 Bet_debit ''m'' None] one_wallet)).
     w_balance x = 700 \<and> 0 \<le> w_balance x"
proof -
  let ?ops = "[LDebit ''w1'' 300 Bet_debit ''k'' None, LDebit ''w1'' 900 Bet_debit ''m'' None]"
  let ?x = "\<lparr>w_id = ''w1'', w_userId = ''u1'', w_currency = ''EUR'', w_balance = 700\<rparr>"
  have x: "?x \<in> set (db_wallets (ledger_run ?ops one_wallet))"
    by (simp add: ledger_run_def ledger_debit_def ledger_record_seq one_wallet_def find_key_def
        find_wallet_def Let_def set_balance_def append_row_def)
  have "0 \<le> w_balance ?x"
    using ledger_run_reconciles [of one_wallet "\<lambda>_. 1000" ?x ?ops] x
    by (simp add: one_wallet_def)
  with x show ?thesis by (intro bexI [of _ ?x]) simp_all
qed

end
