(* ===== verification/VR_Rollback.thy ===== *)
theory VR_Rollback
  imports VR_Ledger
begin

text \<open>
  The operator-wallet API types (\<open>src/wallet/operator-wallet.types.ts\<close>) and the durable rollback
  outbox (\<open>src/wallet/wallet-rollback.service.ts\<close>).

  The operator is code outside this repository: it is the record \<open>operator_api\<close> of functions over its
  own state \<open>'o\<close>. Each call returns an error category or a response, and the operator's next state
  (an error may or may not have changed it, which is what makes a timeout ambiguous).

  A row of the outbox is identified by operator id and \<open>dedupeKey\<close>, its unique key. \<open>rb_claim\<close> takes
  an environment \<open>env\<close>: what other nodes commit between its read and its compare-and-swap. \<open>now\<close> is
  \<open>Date.now()\<close>. The service is best-effort: \<open>store_faults\<close> says which of its writes fail; a failed
  write leaves the table as it was and is never rethrown. Log lines are not modelled.
\<close>

section \<open>Operator API\<close>

record op_request =
  rq_playerId :: string
  rq_currency :: string
  rq_amount :: string
  rq_transactionId :: string
  rq_roundId :: string
  rq_betId :: string

record op_rollback_request =
  rr_playerId :: string
  rr_currency :: string
  rr_transactionId :: string
  rr_roundId :: string
  rr_betId :: string

record op_response =
  rs_operatorTxId :: string
  rs_balance :: string

record 'o operator_api =
  op_balance :: "uid \<Rightarrow> string \<Rightarrow> string \<Rightarrow> 'o \<Rightarrow> (op_error + string) \<times> 'o"
  op_bet :: "uid \<Rightarrow> op_request \<Rightarrow> 'o \<Rightarrow> (op_error + op_response) \<times> 'o"
  op_win :: "uid \<Rightarrow> op_request \<Rightarrow> 'o \<Rightarrow> (op_error + op_response) \<times> 'o"
  op_rollback :: "uid \<Rightarrow> op_rollback_request \<Rightarrow> 'o \<Rightarrow> (op_error + op_response) \<times> 'o"

section \<open>Outbox operations\<close>

record rollback_claim =
  rc_operatorId :: uid
  rc_playerId :: string
  rc_currency :: string
  rc_transactionId :: string
  rc_reason :: string
  rc_betId :: "uid option"
  rc_amount :: "int option"

definition dedupeKeyOf :: "uid option \<Rightarrow> string \<Rightarrow> string \<Rightarrow> string" where
  "dedupeKeyOf betId transactionId reason =
     (case betId of None \<Rightarrow> transactionId | Some b \<Rightarrow> b) @ ''#'' @ reason"

definition DRAIN_LEASE_MS :: int where
  "DRAIN_LEASE_MS = 60000"

definition is_rb :: "uid \<Rightarrow> string \<Rightarrow> rollback_row \<Rightarrow> bool" where
  "is_rb oid dk r \<longleftrightarrow> rb_operatorId r = oid \<and> rb_dedupeKey r = dk"

definition find_rb :: "'o world \<Rightarrow> uid \<Rightarrow> string \<Rightarrow> rollback_row option" where
  "find_rb w oid dk = find (is_rb oid dk) (db_rollbacks w)"

definition hasLiveLease :: "int \<Rightarrow> rollback_status \<Rightarrow> int option \<Rightarrow> bool" where
  "hasLiveLease now status lease \<longleftrightarrow>
     status = RDraining \<and> (case lease of None \<Rightarrow> False | Some t \<Rightarrow> t > now)"

definition rb_update ::
  "(rollback_row \<Rightarrow> bool) \<Rightarrow> (rollback_row \<Rightarrow> rollback_row) \<Rightarrow> 'o world \<Rightarrow> 'o world" where
  "rb_update P f w = w\<lparr>db_rollbacks := update_where P f (db_rollbacks w)\<rparr>"

definition acquireLease ::
  "int \<Rightarrow> uid \<Rightarrow> string \<Rightarrow> rollback_status \<Rightarrow> int option \<Rightarrow> 'o world \<Rightarrow> bool \<times> 'o world" where
  "acquireLease now oid dk status lease w =
     (let P = (\<lambda>r. is_rb oid dk r \<and> rb_status r = status \<and>
                   (status = RDraining \<longrightarrow> rb_leaseUntil r = lease))
      in (count_where P (db_rollbacks w) = 1,
          rb_update P (\<lambda>r. r\<lparr>rb_status := RDraining, rb_leaseUntil := Some (now + DRAIN_LEASE_MS)\<rparr>) w))"

definition bumpAttempts :: "uid \<Rightarrow> string \<Rightarrow> 'o world \<Rightarrow> 'o world" where
  "bumpAttempts oid dk w = rb_update (is_rb oid dk) (\<lambda>r. r\<lparr>rb_attempts := rb_attempts r + 1\<rparr>) w"

record store_faults =
  sf_claim :: bool
  sf_confirm :: bool
  sf_record :: bool
  sf_lease :: bool
  sf_release :: bool

definition no_faults :: store_faults where
  "no_faults = \<lparr>sf_claim = False, sf_confirm = False, sf_record = False, sf_lease = False, sf_release = False\<rparr>"

lemma no_faults_simps [simp]:
  "\<not> sf_claim no_faults" "\<not> sf_confirm no_faults" "\<not> sf_record no_faults"
  "\<not> sf_lease no_faults" "\<not> sf_release no_faults"
  by (simp_all add: no_faults_def)

record claim_result =
  cr_alreadyConfirmed :: bool
  cr_inFlight :: bool

definition seen_result :: "rollback_row option \<Rightarrow> claim_result" where
  "seen_result r =
     (let c = (case r of None \<Rightarrow> False | Some x \<Rightarrow> rb_status x = RConfirmed)
      in \<lparr>cr_alreadyConfirmed = c, cr_inFlight = \<not> c\<rparr>)"

definition rb_claim ::
  "store_faults \<Rightarrow> ('o world \<Rightarrow> 'o world) \<Rightarrow> int \<Rightarrow> rollback_claim \<Rightarrow> 'o world \<Rightarrow>
   claim_result \<times> 'o world" where
  "rb_claim sf env now c w =
     (let oid = rc_operatorId c;
          dk = dedupeKeyOf (rc_betId c) (rc_transactionId c) (rc_reason c);
          own = \<lparr>cr_alreadyConfirmed = False, cr_inFlight = False\<rparr>
      in if sf_claim sf then (own, w)
         else case find_rb w oid dk of
           Some existing \<Rightarrow>
             if rb_status existing = RConfirmed
             then (\<lparr>cr_alreadyConfirmed = True, cr_inFlight = False\<rparr>, w)
             else if hasLiveLease now (rb_status existing) (rb_leaseUntil existing)
             then (\<lparr>cr_alreadyConfirmed = False, cr_inFlight = True\<rparr>, bumpAttempts oid dk w)
             else (case acquireLease now oid dk (rb_status existing) (rb_leaseUntil existing) (env w) of
                     (True, w2) \<Rightarrow> (own, w2)
                   | (False, w2) \<Rightarrow> (seen_result (find_rb w2 oid dk), bumpAttempts oid dk w2))
         | None \<Rightarrow>
             let w1 = env w in
             case find_rb w1 oid dk of
               Some row \<Rightarrow> (seen_result (Some row), w1)
             | None \<Rightarrow>
                 (own, w1\<lparr>db_rollbacks := db_rollbacks w1 @
                   [\<lparr>rb_operatorId = oid, rb_playerId = rc_playerId c, rb_currency = rc_currency c,
                     rb_transactionId = rc_transactionId c, rb_dedupeKey = dk,
                     rb_reason = rc_reason c, rb_betId = rc_betId c, rb_amount = rc_amount c,
                     rb_status = RDraining, rb_attempts = 0,
                     rb_leaseUntil = Some (now + DRAIN_LEASE_MS)\<rparr>]\<rparr>))"

definition rb_confirm :: "store_faults \<Rightarrow> uid \<Rightarrow> string \<Rightarrow> 'o world \<Rightarrow> 'o world" where
  "rb_confirm sf oid dk w =
     (if sf_confirm sf then w
      else rb_update (is_rb oid dk) (\<lambda>r. r\<lparr>rb_status := RConfirmed, rb_leaseUntil := None\<rparr>) w)"

definition rb_recordEmitFailure :: "store_faults \<Rightarrow> uid \<Rightarrow> string \<Rightarrow> 'o world \<Rightarrow> 'o world" where
  "rb_recordEmitFailure sf oid dk w =
     (if sf_record sf then w
      else rb_update (is_rb oid dk) (\<lambda>r. r\<lparr>rb_status := RPending, rb_leaseUntil := None\<rparr>) w)"

text \<open>The drain's scan: pending, or draining with an expired or missing lease.\<close>

definition rb_owed :: "int \<Rightarrow> rollback_row \<Rightarrow> bool" where
  "rb_owed now r \<longleftrightarrow>
     rb_status r = RPending \<or>
     (rb_status r = RDraining \<and> (case rb_leaseUntil r of None \<Rightarrow> True | Some t \<Rightarrow> t < now))"

definition rb_request :: "rollback_row \<Rightarrow> op_rollback_request" where
  "rb_request r =
     \<lparr>rr_playerId = rb_playerId r, rr_currency = rb_currency r,
      rr_transactionId = rb_transactionId r, rr_roundId = [],
      rr_betId = (case rb_betId r of None \<Rightarrow> [] | Some b \<Rightarrow> b)\<rparr>"

text \<open>One iteration of the drain loop, on a row as the scan read it: the compare-and-swap, then, only for the
  caller that took the lease, the call to the operator and the confirmation or the release.\<close>

definition drain_claim :: "store_faults \<Rightarrow> int \<Rightarrow> rollback_row \<Rightarrow> 'o world \<Rightarrow> bool \<times> 'o world" where
  "drain_claim sf now r w =
     (if sf_lease sf then (False, w)
      else acquireLease now (rb_operatorId r) (rb_dedupeKey r) (rb_status r) (rb_leaseUntil r) w)"

definition drain_emit ::
  "store_faults \<Rightarrow> 'o operator_api \<Rightarrow> rollback_row \<Rightarrow> nat \<times> 'o world \<Rightarrow> nat \<times> 'o world" where
  "drain_emit sf api r st =
     (case st of (confirmed, w) \<Rightarrow>
       let oid = rb_operatorId r; dk = rb_dedupeKey r in
       case op_rollback api oid (rb_request r) (operator_state w) of
         (Inr _, o') \<Rightarrow> (confirmed + 1, rb_confirm sf oid dk (w\<lparr>operator_state := o'\<rparr>))
       | (Inl _, o') \<Rightarrow>
           (confirmed,
            if sf_release sf then w\<lparr>operator_state := o'\<rparr>
            else rb_update (is_rb oid dk)
              (\<lambda>x. x\<lparr>rb_attempts := rb_attempts r + 1, rb_status := RPending, rb_leaseUntil := None\<rparr>)
              (w\<lparr>operator_state := o'\<rparr>)))"

definition drain_row ::
  "store_faults \<Rightarrow> int \<Rightarrow> 'o operator_api \<Rightarrow> rollback_row \<Rightarrow> nat \<times> 'o world \<Rightarrow> nat \<times> 'o world" where
  "drain_row sf now api r st =
     (case st of (confirmed, w) \<Rightarrow>
       case drain_claim sf now r w of
         (False, w1) \<Rightarrow> (confirmed, w1)
       | (True, w1) \<Rightarrow> drain_emit sf api r (confirmed, w1))"

definition drainPending ::
  "store_faults \<Rightarrow> int \<Rightarrow> 'o operator_api option \<Rightarrow> nat \<Rightarrow> 'o world \<Rightarrow> nat \<times> 'o world" where
  "drainPending sf now operator limit w =
     (case operator of
        None \<Rightarrow> (0, w)
      | Some api \<Rightarrow>
          fold (drain_row sf now api) (take limit (filter (rb_owed now) (db_rollbacks w))) (0, w))"

definition countPending :: "'o world \<Rightarrow> nat" where
  "countPending w = count_where (\<lambda>r. rb_status r = RPending \<or> rb_status r = RDraining) (db_rollbacks w)"

section \<open>Frame and identity of rows\<close>

text \<open>What the wallet layer may touch: everything but the game tables.\<close>

definition game_same :: "'o world \<Rightarrow> 'o world \<Rightarrow> bool" where
  "game_same w w' \<longleftrightarrow>
     db_bets w' = db_bets w \<and> db_rounds w' = db_rounds w \<and> db_users w' = db_users w \<and>
     db_profiles w' = db_profiles w \<and> db_sessions w' = db_sessions w"

text \<open>What the outbox may touch: only its own table.\<close>

definition only_rollbacks :: "'o world \<Rightarrow> 'o world \<Rightarrow> bool" where
  "only_rollbacks w w' \<longleftrightarrow> w' = w\<lparr>db_rollbacks := db_rollbacks w'\<rparr>"

lemma game_same_refl [simp]: "game_same w w"
  by (simp add: game_same_def)

lemma game_same_trans: "game_same a b \<Longrightarrow> game_same b c \<Longrightarrow> game_same a c"
  by (simp add: game_same_def)

lemma rb_update_simps [simp]:
  "db_rollbacks (rb_update P f w) = update_where P f (db_rollbacks w)"
  "db_wallets (rb_update P f w) = db_wallets w" "db_ledger (rb_update P f w) = db_ledger w"
  "db_bets (rb_update P f w) = db_bets w" "db_rounds (rb_update P f w) = db_rounds w"
  "db_users (rb_update P f w) = db_users w" "db_profiles (rb_update P f w) = db_profiles w"
  "db_sessions (rb_update P f w) = db_sessions w"
  "operator_state (rb_update P f w) = operator_state w"
  by (simp_all add: rb_update_def)

lemma rb_update_frame [simp]: "game_same w (rb_update P f w)"
  by (simp add: game_same_def)

lemmas rb_defs = bumpAttempts_def rb_confirm_def rb_recordEmitFailure_def acquireLease_def

end
