(* ===== verification/VR_Wallet.thy ===== *)
theory VR_Wallet
  imports VR_Rollback
begin

text \<open>
  The wallet interface (\<open>src/wallet/wallet-provider.ts\<close>), the router between play money and real
  money (\<open>src/wallet/wallet-router.ts\<close>), the two session lookups it rests on
  (\<open>isDemoWallet\<close> and \<open>resolver\<close> of \<open>src/operator/game-session.service.ts\<close>) and the choice of
  provider (\<open>src/wallet/wallet.module.ts\<close>).

  A provider is a record of its five operations over the world; the game services take it as an
  argument, as the code injects it. The locales state what its clients rely on: \<open>wallet_frame\<close> (no
  operation touches the game tables), \<open>play_money\<close> (nor the operator and the outbox) and \<open>real_money\<close>
  (nor the internal ledger). \<open>money_router\<close> combines the last two.
\<close>

section \<open>The interface\<close>

record 'o wallet_provider =
  wp_debit :: "uid \<Rightarrow> int \<Rightarrow> ledger_type \<Rightarrow> string \<Rightarrow> ledger_ref option \<Rightarrow> 'o world \<Rightarrow>
     (exn + wallet_tx) \<times> 'o world"
  wp_credit :: "uid \<Rightarrow> int \<Rightarrow> ledger_type \<Rightarrow> string \<Rightarrow> ledger_ref option \<Rightarrow> 'o world \<Rightarrow>
     (exn + wallet_tx) \<times> 'o world"
  wp_rollback :: "uid \<Rightarrow> string \<Rightarrow> ledger_ref option \<Rightarrow> 'o world \<Rightarrow> (exn + unit) \<times> 'o world"
  wp_reverse :: "uid \<Rightarrow> reverse_params \<Rightarrow> 'o world \<Rightarrow> (exn + unit) \<times> 'o world"
  wp_getBalance :: "uid \<Rightarrow> 'o world \<Rightarrow> (exn + int) \<times> 'o world"

definition ledgerProvider :: "'o wallet_provider" where
  "ledgerProvider =
     \<lparr>wp_debit = ledger_debit, wp_credit = ledger_credit, wp_rollback = ledger_rollback,
      wp_reverse = ledger_reverse, wp_getBalance = ledger_getBalance\<rparr>"

section \<open>Session lookups\<close>

text \<open>
  \<open>findFirst\<close> without an order may return any session of the wallet; the list search returns the
  oldest. \<open>resolver\<close> asks for the newest, which is the last in insertion order.
\<close>

definition username_of_wallet :: "'o world \<Rightarrow> uid \<Rightarrow> string" where
  "username_of_wallet w walletId =
     (case find_wallet w walletId of
        None \<Rightarrow> []
      | Some x \<Rightarrow> (case find (\<lambda>u. u_id u = w_userId x) (db_users w) of None \<Rightarrow> [] | Some u \<Rightarrow> u_username u))"

definition isDemoWallet :: "'o world \<Rightarrow> uid \<Rightarrow> bool" where
  "isDemoWallet w walletId =
     (case find (\<lambda>s. s_walletId s = walletId) (db_sessions w) of
        Some s \<Rightarrow> s_demo s
      | None \<Rightarrow>
          let name = username_of_wallet w walletId;
              isRealOperatorWallet = starts_with name ''op:'' \<and> \<not> ends_with name '':demo''
          in \<not> isRealOperatorWallet)"

record op_session =
  os_operatorId :: uid
  os_playerId :: string
  os_currency :: string
  os_roundId :: "string option"

definition resolver :: "'o world \<Rightarrow> uid \<Rightarrow> exn + op_session" where
  "resolver w walletId =
     (case find (\<lambda>s. s_walletId s = walletId) (rev (db_sessions w)) of
        None \<Rightarrow> Inl Record_not_found
      | Some s \<Rightarrow> Inr \<lparr>os_operatorId = s_operatorId s, os_playerId = s_playerId s,
                        os_currency = s_currency s, os_roundId = None\<rparr>)"

section \<open>The router\<close>

text \<open>A lookup that throws is the left of \<open>isDemo\<close>: the money move is then not attempted.\<close>

definition pick ::
  "'o wallet_provider \<Rightarrow> 'o wallet_provider \<Rightarrow> ('o world \<Rightarrow> uid \<Rightarrow> exn + bool) \<Rightarrow> uid \<Rightarrow> 'o world \<Rightarrow>
   exn + 'o wallet_provider" where
  "pick ledger operator isDemo walletId w =
     (case isDemo w walletId of Inl e \<Rightarrow> Inl e | Inr d \<Rightarrow> Inr (if d then ledger else operator))"

definition WalletRouter ::
  "'o wallet_provider \<Rightarrow> 'o wallet_provider \<Rightarrow> ('o world \<Rightarrow> uid \<Rightarrow> exn + bool) \<Rightarrow>
   'o wallet_provider" where
  "WalletRouter ledger operator isDemo =
     \<lparr>wp_debit = (\<lambda>i a t k r w. case pick ledger operator isDemo i w of
         Inl e \<Rightarrow> (Inl e, w) | Inr p \<Rightarrow> wp_debit p i a t k r w),
      wp_credit = (\<lambda>i a t k r w. case pick ledger operator isDemo i w of
         Inl e \<Rightarrow> (Inl e, w) | Inr p \<Rightarrow> wp_credit p i a t k r w),
      wp_rollback = (\<lambda>i k r w. case pick ledger operator isDemo i w of
         Inl e \<Rightarrow> (Inl e, w) | Inr p \<Rightarrow> wp_rollback p i k r w),
      wp_reverse = (\<lambda>i ps w. case pick ledger operator isDemo i w of
         Inl e \<Rightarrow> (Inl e, w) | Inr p \<Rightarrow> wp_reverse p i ps w),
      wp_getBalance = (\<lambda>i w. case pick ledger operator isDemo i w of
         Inl e \<Rightarrow> (Inl e, w) | Inr p \<Rightarrow> wp_getBalance p i w)\<rparr>"

text \<open>The provider factory: \<open>type\<close> is the variable \<open>WALLET_PROVIDER_TYPE\<close>, unset is internal.\<close>

definition wallet_factory ::
  "string option \<Rightarrow> 'o wallet_provider \<Rightarrow> 'o wallet_provider \<Rightarrow> exn + 'o wallet_provider" where
  "wallet_factory ty ledger operatorWallet =
     (let t = (case ty of None \<Rightarrow> ''internal'' | Some s \<Rightarrow> s)
      in if t = ''internal'' then Inr ledger
         else if t = ''operator''
         then Inr (WalletRouter ledger operatorWallet (\<lambda>w i. Inr (isDemoWallet w i)))
         else Inl Unknown_provider_type)"

section \<open>Calls\<close>

text \<open>A call of the interface as data, so that a law can be stated once for all operations.\<close>

datatype wallet_call =
    WDebit int ledger_type string "ledger_ref option"
  | WCredit int ledger_type string "ledger_ref option"
  | WRollback string "ledger_ref option"
  | WReverse reverse_params
  | WBalance

fun wallet_exec :: "'o wallet_provider \<Rightarrow> uid \<Rightarrow> wallet_call \<Rightarrow> 'o world \<Rightarrow> 'o world" where
  "wallet_exec p i (WDebit a t k r) w = snd (wp_debit p i a t k r w)"
| "wallet_exec p i (WCredit a t k r) w = snd (wp_credit p i a t k r w)"
| "wallet_exec p i (WRollback k r) w = snd (wp_rollback p i k r w)"
| "wallet_exec p i (WReverse ps) w = snd (wp_reverse p i ps w)"
| "wallet_exec p i WBalance w = snd (wp_getBalance p i w)"

text \<open>Two frames: what play money never touches, and what real money never touches.\<close>

definition operator_same :: "'o world \<Rightarrow> 'o world \<Rightarrow> bool" where
  "operator_same w w' \<longleftrightarrow>
     operator_state w' = operator_state w \<and> db_rollbacks w' = db_rollbacks w"

definition ledger_same :: "'o world \<Rightarrow> 'o world \<Rightarrow> bool" where
  "ledger_same w w' \<longleftrightarrow> db_ledger w' = db_ledger w \<and> db_wallets w' = db_wallets w"

lemma operator_same_refl [simp]: "operator_same w w"
  by (simp add: operator_same_def)

lemma ledger_same_refl [simp]: "ledger_same w w"
  by (simp add: ledger_same_def)

lemma ledger_same_trans: "ledger_same a b \<Longrightarrow> ledger_same b c \<Longrightarrow> ledger_same a c"
  by (simp add: ledger_same_def)

section \<open>The interface's laws\<close>

locale wallet_frame =
  fixes provider :: "'o wallet_provider"
  assumes exec_frame: "game_same w (wallet_exec provider i c w)"
begin

lemma debit_frame: "wp_debit provider i a t k r w = (x, w') \<Longrightarrow> game_same w w'"
  using exec_frame [of w i "WDebit a t k r"] by simp

lemma credit_frame: "wp_credit provider i a t k r w = (x, w') \<Longrightarrow> game_same w w'"
  using exec_frame [of w i "WCredit a t k r"] by simp

lemma reverse_frame: "wp_reverse provider i ps w = (x, w') \<Longrightarrow> game_same w w'"
  using exec_frame [of w i "WReverse ps"] by simp

end

locale play_money = wallet_frame +
  assumes exec_operator_same: "operator_same w (wallet_exec provider i c w)"

locale real_money = wallet_frame +
  assumes exec_ledger_same: "ledger_same w (wallet_exec provider i c w)"

locale money_router =
  play: play_money ledger + real: real_money operatorW
  for ledger :: "'o wallet_provider" and operatorW :: "'o wallet_provider" +
  fixes isDemo :: "'o world \<Rightarrow> uid \<Rightarrow> exn + bool"
begin

lemma route:
  "wallet_exec (WalletRouter ledger operatorW isDemo) i c w =
     (case isDemo w i of Inl e \<Rightarrow> w
      | Inr d \<Rightarrow> wallet_exec (if d then ledger else operatorW) i c w)"
  by (cases c) (auto simp: WalletRouter_def pick_def split: sum.splits)

lemma router_frame: "game_same w (wallet_exec (WalletRouter ledger operatorW isDemo) i c w)"
  by (simp add: route play.exec_frame real.exec_frame split: sum.splits)

lemma router_isolation:
  "case isDemo w i of
     Inl e \<Rightarrow> wallet_exec (WalletRouter ledger operatorW isDemo) i c w = w
   | Inr True \<Rightarrow> operator_same w (wallet_exec (WalletRouter ledger operatorW isDemo) i c w)
   | Inr False \<Rightarrow> ledger_same w (wallet_exec (WalletRouter ledger operatorW isDemo) i c w)"
  by (simp add: route play.exec_operator_same real.exec_ledger_same split: sum.splits bool.splits)

end

section \<open>The internal ledger provides play money\<close>

lemma ledger_insert_id:
  "game_same w (snd (ledger_insert id w i t a f ref k))"
  "operator_same w (snd (ledger_insert id w i t a f ref k))"
  by (simp_all add: ledger_insert_def game_same_def operator_same_def Let_def split: option.splits)

lemma ledger_record_frame:
  "game_same w (snd (ledger_record id id w i a t k ref))"
  "operator_same w (snd (ledger_record id id w i a t k ref))"
  by (simp_all add: ledger_record_seq game_same_def operator_same_def Let_def split: option.splits)

lemma ledger_credit_frame:
  "game_same w (snd (ledger_credit i a t k ref w))" "operator_same w (snd (ledger_credit i a t k ref w))"
  by (simp_all add: ledger_credit_def ledger_record_frame)

lemma ledger_debit_frame:
  "game_same w (snd (ledger_debit i a t k ref w))" "operator_same w (snd (ledger_debit i a t k ref w))"
  by (simp_all add: ledger_debit_def ledger_record_frame)

lemma ledger_exec_frame:
  "game_same w (wallet_exec ledgerProvider i c w)" "operator_same w (wallet_exec ledgerProvider i c w)"
  by (cases c; simp add: ledgerProvider_def ledger_rollback_def ledger_reverse_def
      ledger_getBalance_def ledger_credit_frame ledger_debit_frame split: direction.splits option.splits)+

interpretation lp: play_money ledgerProvider
  by unfold_locales (simp_all add: ledger_exec_frame)

end
