(* ===== verification/VR_Bets.thy ===== *)
theory VR_Bets
  imports VR_Wallet
begin

text \<open>
  The bet service, \<open>src/game/bets.service.ts\<close>: every operation that moves a bet between statuses and
  the money that goes with it.

  Each handler takes a context \<open>bets_ctx\<close>: the wallet provider, the risk limits, the public engine
  state it reads (on a follower node a cached and possibly stale view), the live multiplier in
  hundredths, the clock, and \<open>bc_race\<close>: what other requests commit between the handler's read of the
  bet and its compare-and-swap. The round row and the bet row are read from the world. Failures of a
  single database write are the \<open>place_faults\<close> of \<open>placeBet\<close>, the handler that recovers from them;
  elsewhere a failing write throws to the caller with nothing further done. Metrics, log lines and the
  audit record are not modelled; amounts shown to the player are exact here and \<open>Number\<close> in the source.
\<close>

section \<open>Contexts, arguments and results\<close>

record engine_view =
  ev_roundId :: uid
  ev_phase :: phase

record 'o bets_ctx =
  bc_wallet :: "'o wallet_provider"
  bc_risk :: risk_limits
  bc_state :: "engine_view option"
  bc_mult :: int
  bc_now :: int
  bc_race :: "'o world \<Rightarrow> 'o world"

record effective_rg =
  rg_realityCheckIntervalSec :: "int option"
  rg_maxSessionSec :: "int option"
  rg_enforceRealityCheck :: bool
  rg_maxSessionLoss :: "int option"
  rg_maxSessionWager :: "int option"

record rg_context =
  rgc_rg :: "effective_rg option"
  rgc_pending :: bool
  rgc_startedAt :: "int option"

record place_args =
  pa_userId :: uid
  pa_panel :: panel
  pa_amount :: rat
  pa_autoCashout :: "int option"
  pa_walletId :: "uid option"
  pa_limits :: "per_bet_limits option"
  pa_demo :: bool
  pa_rgCtx :: "rg_context option"
  pa_operatorId :: "uid option"

record bet_result =
  br_ok :: bool
  br_reason :: "string option"
  br_panel :: panel
  br_balance :: "int option"
  br_betId :: "uid option"
  br_currency :: "string option"

definition bet_reject :: "string \<Rightarrow> panel \<Rightarrow> bet_result" where
  "bet_reject reason p =
     \<lparr>br_ok = False, br_reason = Some reason, br_panel = p, br_balance = None, br_betId = None,
      br_currency = None\<rparr>"

definition in_phase :: "'o bets_ctx \<Rightarrow> phase \<Rightarrow> uid option" where
  "in_phase ctx ph =
     (case bc_state ctx of None \<Rightarrow> None
      | Some s \<Rightarrow> if ev_phase s = ph then Some (ev_roundId s) else None)"

section \<open>Wallet resolution and session totals\<close>

datatype wallet_error = WalletOwnershipError | WalletNotFound

definition resolve_wallet :: "'o world \<Rightarrow> uid \<Rightarrow> uid option \<Rightarrow> wallet_error + wallet" where
  "resolve_wallet w userId walletId =
     (case walletId of
        Some i \<Rightarrow> (case find_wallet w i of
            None \<Rightarrow> Inl WalletNotFound
          | Some x \<Rightarrow> if w_userId x \<noteq> userId then Inl WalletOwnershipError else Inr x)
      | None \<Rightarrow> (case find (\<lambda>x. w_userId x = userId) (db_wallets w) of
            None \<Rightarrow> Inl WalletNotFound | Some x \<Rightarrow> Inr x))"

record accounting =
  ac_wagered :: int
  ac_won :: int
  ac_net :: int

definition sessionAccounting :: "'o world \<Rightarrow> uid \<Rightarrow> int \<Rightarrow> accounting" where
  "sessionAccounting w walletId since =
     (let bets = filter (\<lambda>b. b_walletId b = walletId \<and> since \<le> b_createdAt b) (db_bets w);
          wagered = sum_where (\<lambda>b. isWageredStatus (b_status b)) b_amount bets;
          won = sum_where (\<lambda>b. isWonStatus (b_status b)) b_payout bets
      in \<lparr>ac_wagered = wagered, ac_won = won, ac_net = wagered - won\<rparr>)"

section \<open>Placing a bet\<close>

text \<open>The session's limits in force; \<open>sessionStartedAt\<close> of 0 is falsy and switches them off.\<close>

definition active_rg :: "place_args \<Rightarrow> (effective_rg \<times> int) option" where
  "active_rg a =
     (if pa_demo a then None
      else case pa_rgCtx a of None \<Rightarrow> None
      | Some c \<Rightarrow> (case (rgc_rg c, rgc_startedAt c) of
          (Some rg, Some t) \<Rightarrow> if t = 0 then None else Some (rg, t)
        | _ \<Rightarrow> None))"

definition rg_pending :: "place_args \<Rightarrow> bool" where
  "rg_pending a = (case pa_rgCtx a of None \<Rightarrow> False | Some c \<Rightarrow> rgc_pending c)"

definition rg_precheck :: "int \<Rightarrow> place_args \<Rightarrow> string option" where
  "rg_precheck now a =
     (case active_rg a of
        None \<Rightarrow> None
      | Some (rg, started) \<Rightarrow>
          if rg_enforceRealityCheck rg \<and> rg_pending a then Some ''reality_check_pending''
          else (case rg_maxSessionSec rg of
                  None \<Rightarrow> None
                | Some s \<Rightarrow> if now \<ge> started + s * 1000 then Some ''session_time_limit'' else None))"

text \<open>The reads under the per-round lock: the exposure of the round in one currency, and what a
  session has already reserved in it.\<close>

definition round_bets :: "'o world \<Rightarrow> uid \<Rightarrow> bet list" where
  "round_bets w roundId =
     filter (\<lambda>b. b_roundId b = roundId \<and> (b_status b = Active \<or> b_status b = Reserving)) (db_bets w)"

definition round_exposure :: "risk_limits \<Rightarrow> 'o world \<Rightarrow> uid \<Rightarrow> string \<Rightarrow> int" where
  "round_exposure rl w roundId ccy =
     sum_where (\<lambda>b. b_currency b = ccy) (\<lambda>b. potentialPayout rl (b_amount b)) (round_bets w roundId)"

definition session_reserved :: "'o world \<Rightarrow> uid \<Rightarrow> uid \<Rightarrow> int" where
  "session_reserved w roundId walletId =
     sum_where (\<lambda>b. b_walletId b = walletId \<and> b_status b = Reserving) b_amount (round_bets w roundId)"

definition rg_money_check :: "'o world \<Rightarrow> uid \<Rightarrow> uid \<Rightarrow> int \<Rightarrow> (effective_rg \<times> int) option \<Rightarrow> string option" where
  "rg_money_check w roundId walletId amt rgo =
     (case rgo of
        None \<Rightarrow> None
      | Some (rg, started) \<Rightarrow>
          if rg_maxSessionLoss rg = None \<and> rg_maxSessionWager rg = None then None
          else
            let acc = sessionAccounting w walletId started;
                reserved = session_reserved w roundId walletId
            in if (case rg_maxSessionWager rg of None \<Rightarrow> False
                   | Some m \<Rightarrow> ac_wagered acc + reserved + amt > m) then Some ''session_wager_limit''
               else if (case rg_maxSessionLoss rg of None \<Rightarrow> False
                        | Some m \<Rightarrow> ac_net acc + reserved + amt > m) then Some ''session_loss_limit''
               else None)"

definition new_bet ::
  "int \<Rightarrow> place_args \<Rightarrow> uid \<Rightarrow> uid \<Rightarrow> wallet \<Rightarrow> int \<Rightarrow> bet" where
  "new_bet now a betId roundId wal amt =
     \<lparr>b_id = betId, b_roundId = roundId, b_userId = pa_userId a, b_walletId = w_id wal,
      b_panel = pa_panel a, b_amount = amt, b_autoCashout = pa_autoCashout a, b_status = Reserving,
      b_cashoutMult = None, b_payout = 0, b_demo = pa_demo a, b_operatorId = pa_operatorId a,
      b_currency = to_upper (w_currency wal),
      b_maxWinPerBet = map_option pb_maxWinPerBet (pa_limits a), b_debitTxId = None,
      b_payoutTxId = None, b_createdAt = now, b_settledAt = None\<rparr>"

text \<open>
  Phase 1, one transaction under the round's advisory lock. The insert fails on the unique
  (round, user, panel) and on the foreign key of the round; \<open>fails\<close> is any other database failure.
\<close>

definition place_reserve ::
  "bool \<Rightarrow> risk_limits \<Rightarrow> int \<Rightarrow> place_args \<Rightarrow> uid \<Rightarrow> uid \<Rightarrow> wallet \<Rightarrow> int \<Rightarrow> 'o world \<Rightarrow>
   (string + unit) \<times> 'o world" where
  "place_reserve fails rl now a betId roundId wal amt w =
     (case checkRoundExposure rl (round_exposure rl w roundId (to_upper (w_currency wal))) amt of
        Inl reason \<Rightarrow> (Inl reason, w)
      | Inr _ \<Rightarrow>
          (case rg_money_check w roundId (w_id wal) amt (active_rg a) of
             Some reason \<Rightarrow> (Inl reason, w)
           | None \<Rightarrow>
               if fails then (Inl ''bet_failed'', w)
               else if find_slot w roundId (pa_userId a) (pa_panel a) \<noteq> None then (Inl ''already_bet'', w)
               else if find_round w roundId = None then (Inl ''bet_failed'', w)
               else (Inr (), w\<lparr>db_bets := db_bets w @ [new_bet now a betId roundId wal amt]\<rparr>)))"

record place_faults =
  pf_reserve :: bool
  pf_delete :: bool
  pf_flip :: "nat \<Rightarrow> bool"
  pf_stamp :: bool

definition no_place_faults :: place_faults where
  "no_place_faults = \<lparr>pf_reserve = False, pf_delete = False, pf_flip = (\<lambda>_. False), pf_stamp = False\<rparr>"

text \<open>Phase 2: the debit, outside the lock. Its failure releases the reservation.\<close>

definition debit_reason :: "exn \<Rightarrow> string" where
  "debit_reason e = (if e = Insufficient_balance then ''insufficient_balance'' else ''bet_failed'')"

definition place_debit ::
  "place_faults \<Rightarrow> 'o wallet_provider \<Rightarrow> uid \<Rightarrow> panel \<Rightarrow> uid \<Rightarrow> uid \<Rightarrow> uid \<Rightarrow> int \<Rightarrow> 'o world \<Rightarrow>
   (string + wallet_tx) \<times> 'o world" where
  "place_debit f p userId panel betId roundId walletId amt w =
     (case wp_debit p walletId amt Bet_debit (debitKey roundId userId panel) (Some (bet_ref betId)) w of
        (Inr tx, w1) \<Rightarrow> (Inr tx, w1)
      | (Inl e, w1) \<Rightarrow> (Inl (debit_reason e), if pf_delete f then w1 else bet_delete w1 betId))"

text \<open>The flip to active: three attempts, then the transaction id is stamped for recovery.\<close>

fun place_flip ::
  "nat \<Rightarrow> place_faults \<Rightarrow> uid \<Rightarrow> wallet_tx \<Rightarrow> 'o world \<Rightarrow> bool \<times> 'o world" where
  "place_flip 0 f betId tx w = (False, w)"
| "place_flip (Suc left) f betId tx w =
     (if pf_flip f (3 - left)
      then if left = 0
           then (False, if pf_stamp f then w
                        else snd (bet_cas w betId Reserving (\<lambda>b. b\<lparr>b_debitTxId := Some (tx_id tx)\<rparr>)))
           else place_flip left f betId tx w
      else (case bet_cas w betId Reserving
                   (\<lambda>b. b\<lparr>b_status := Active, b_debitTxId := Some (tx_id tx)\<rparr>) of
              (n, w1) \<Rightarrow> (n \<noteq> 0, w1)))"

definition placeBet ::
  "place_faults \<Rightarrow> 'o bets_ctx \<Rightarrow> place_args \<Rightarrow> uid \<Rightarrow> 'o world \<Rightarrow> bet_result \<times> 'o world" where
  "placeBet f ctx a betId w =
     (let rej = (\<lambda>r. bet_reject r (pa_panel a))
      in case in_phase ctx Betting of
        None \<Rightarrow> (rej ''betting_closed'', w)
      | Some roundId \<Rightarrow>
          let amt = \<lfloor>pa_amount a\<rfloor>
          in case checkBetAmount (bc_risk ctx) amt (pa_limits a) of
            Inl reason \<Rightarrow> (rej reason, w)
          | Inr _ \<Rightarrow>
              (case rg_precheck (bc_now ctx) a of
                 Some reason \<Rightarrow> (rej reason, w)
               | None \<Rightarrow>
                   if (case find_slot w roundId (pa_userId a) (pa_panel a) of
                         None \<Rightarrow> False | Some b \<Rightarrow> b_status b \<noteq> Reserving)
                   then (rej ''already_bet'', w)
                   else case resolve_wallet w (pa_userId a) (pa_walletId a) of
                     Inl _ \<Rightarrow> (rej ''bet_failed'', w)
                   | Inr wal \<Rightarrow>
                       (case place_reserve (pf_reserve f) (bc_risk ctx) (bc_now ctx) a betId roundId wal amt w of
                          (Inl reason, w1) \<Rightarrow> (rej reason, w1)
                        | (Inr _, w1) \<Rightarrow>
                            (case place_debit f (bc_wallet ctx) (pa_userId a) (pa_panel a) betId roundId
                                    (w_id wal) amt w1 of
                               (Inl reason, w2) \<Rightarrow> (rej reason, w2)
                             | (Inr tx, w2) \<Rightarrow>
                                 (case place_flip 3 f betId tx w2 of
                                    (False, w3) \<Rightarrow> (rej ''bet_failed'', w3)
                                  | (True, w3) \<Rightarrow>
                                      (\<lparr>br_ok = True, br_reason = None, br_panel = pa_panel a,
                                        br_balance = Some (tx_balanceAfter tx), br_betId = Some betId,
                                        br_currency = Some (w_currency wal)\<rparr>, w3))))))"

section \<open>Cancelling a bet\<close>

definition wallet_currency :: "'o world \<Rightarrow> uid \<Rightarrow> string option" where
  "wallet_currency w i = map_option w_currency (find_wallet w i)"

definition cancelBet :: "'o bets_ctx \<Rightarrow> uid \<Rightarrow> panel \<Rightarrow> 'o world \<Rightarrow> (exn + bet_result) \<times> 'o world" where
  "cancelBet ctx userId panel w =
     (case in_phase ctx Betting of
        None \<Rightarrow> (Inr (bet_reject ''betting_closed'' panel), w)
      | Some roundId \<Rightarrow>
          (case find_slot w roundId userId panel of
             None \<Rightarrow> (Inr (bet_reject ''no_active_bet'' panel), w)
           | Some bet \<Rightarrow>
               if b_status bet \<noteq> Active then (Inr (bet_reject ''no_active_bet'' panel), w)
               else case bet_cas (bc_race ctx w) (b_id bet) Active
                           (\<lambda>b. b\<lparr>b_status := Cancelled, b_settledAt := Some (bc_now ctx)\<rparr>) of
                 (n, w1) \<Rightarrow>
                   if n = 0 then (Inr (bet_reject ''no_active_bet'' panel), w1)
                   else (case wp_credit (bc_wallet ctx) (b_walletId bet) (b_amount bet) Refund
                                (refundKey (b_id bet)) (Some (bet_ref (b_id bet))) w1 of
                           (Inl e, w2) \<Rightarrow> (Inl e, w2)
                         | (Inr tx, w2) \<Rightarrow>
                             (Inr \<lparr>br_ok = True, br_reason = None, br_panel = panel,
                                   br_balance = Some (tx_balanceAfter tx), br_betId = None,
                                   br_currency = wallet_currency w (b_walletId bet)\<rparr>, w2))))"

section \<open>Cashing out\<close>

record cashout_result =
  co_ok :: bool
  co_reason :: "string option"
  co_userId :: uid
  co_panel :: panel
  co_multiplier :: "int option"
  co_payout :: "int option"
  co_balance :: "int option"
  co_currency :: "string option"
  co_pending :: bool

definition cashout_reject :: "string \<Rightarrow> uid \<Rightarrow> panel \<Rightarrow> cashout_result" where
  "cashout_reject reason u p =
     \<lparr>co_ok = False, co_reason = Some reason, co_userId = u, co_panel = p, co_multiplier = None,
      co_payout = None, co_balance = None, co_currency = None, co_pending = False\<rparr>"

definition add_loot :: "uid \<Rightarrow> int \<Rightarrow> int \<Rightarrow> 'o world \<Rightarrow> 'o world" where
  "add_loot userId payout mult w =
     w\<lparr>db_profiles := update_where (\<lambda>p. p_userId p = userId)
         (\<lambda>p. p\<lparr>p_totalLoot := p_totalLoot p + payout,
                 p_biggestMultiplier := max (p_biggestMultiplier p) mult\<rparr>) (db_profiles w)\<rparr>"

text \<open>Paying a claimed win: on any failure of the credit the bet becomes \<open>payout_pending\<close>.\<close>

definition pay_claimed ::
  "'o bets_ctx \<Rightarrow> bet \<Rightarrow> int \<Rightarrow> int \<Rightarrow> string option \<Rightarrow> 'o world \<Rightarrow> cashout_result \<times> 'o world" where
  "pay_claimed ctx bet mult payout ccy w =
     (let res = (\<lambda>bal pend. \<lparr>co_ok = True, co_reason = None, co_userId = b_userId bet,
                  co_panel = b_panel bet, co_multiplier = Some mult, co_payout = Some payout,
                  co_balance = bal, co_currency = ccy, co_pending = pend\<rparr>)
      in case wp_credit (bc_wallet ctx) (b_walletId bet) payout Payout_credit (payoutKey (b_id bet))
                (Some (bet_ref (b_id bet))) w of
           (Inl _, w1) \<Rightarrow> (res None True, bet_set w1 (b_id bet) (\<lambda>b. b\<lparr>b_status := Payout_pending\<rparr>))
         | (Inr tx, w1) \<Rightarrow>
             (res (Some (tx_balanceAfter tx)) False,
              add_loot (b_userId bet) payout mult
                (bet_set w1 (b_id bet) (\<lambda>b. b\<lparr>b_payoutTxId := Some (tx_id tx)\<rparr>))))"

definition cashout_payout :: "risk_limits \<Rightarrow> bet \<Rightarrow> int \<Rightarrow> int" where
  "cashout_payout rl bet mult =
     capPayout rl (floorPayout (b_amount bet) (mult_of mult)) (b_maxWinPerBet bet)"

definition cashOut ::
  "'o bets_ctx \<Rightarrow> uid \<Rightarrow> panel \<Rightarrow> int option \<Rightarrow> 'o world \<Rightarrow> (exn + cashout_result) \<times> 'o world" where
  "cashOut ctx userId panel atMultiplier w =
     (case in_phase ctx Running of
        None \<Rightarrow> (Inr (cashout_reject ''too_late'' userId panel), w)
      | Some roundId \<Rightarrow>
          let mult = (case atMultiplier of None \<Rightarrow> bc_mult ctx | Some m \<Rightarrow> m)
          in case find_slot w roundId userId panel of
            None \<Rightarrow> (Inr (cashout_reject ''no_active_bet'' userId panel), w)
          | Some bet \<Rightarrow>
              if b_status bet \<noteq> Active then (Inr (cashout_reject ''no_active_bet'' userId panel), w)
              else case find_round w (b_roundId bet) of
                None \<Rightarrow> (Inl Record_not_found, w)
              | Some rnd \<Rightarrow>
                  if r_status rnd \<noteq> Running \<or> mult \<ge> r_crashPoint rnd
                  then (Inr (cashout_reject ''too_late'' userId panel), w)
                  else
                    let payout = cashout_payout (bc_risk ctx) bet mult
                    in case bet_cas (bc_race ctx w) (b_id bet) Active
                              (\<lambda>b. b\<lparr>b_status := Cashed_out, b_cashoutMult := Some mult,
                                     b_payout := payout, b_settledAt := Some (bc_now ctx)\<rparr>) of
                      (n, w1) \<Rightarrow>
                        if n = 0 then (Inr (cashout_reject ''no_active_bet'' userId panel), w1)
                        else (case pay_claimed ctx bet mult payout (wallet_currency w (b_walletId bet)) w1 of
                                (r, w2) \<Rightarrow> (Inr r, w2)))"

definition auto_due :: "'o world \<Rightarrow> uid \<Rightarrow> int \<Rightarrow> bet list" where
  "auto_due w roundId multiplier =
     filter (\<lambda>b. b_roundId b = roundId \<and> b_status b = Active \<and>
                 (case b_autoCashout b of None \<Rightarrow> False | Some m \<Rightarrow> m \<le> multiplier)) (db_bets w)"

definition auto_step ::
  "'o bets_ctx \<Rightarrow> bet \<Rightarrow> cashout_result list \<times> 'o world \<Rightarrow> cashout_result list \<times> 'o world" where
  "auto_step ctx b st =
     (case st of (rs, w) \<Rightarrow>
       (case cashOut ctx (b_userId b) (b_panel b) (b_autoCashout b) w of
          (Inl _, w1) \<Rightarrow> (rs, w1)
        | (Inr r, w1) \<Rightarrow> (if co_ok r then rs @ [r] else rs, w1)))"

definition evaluateAutoCashouts ::
  "'o bets_ctx \<Rightarrow> int \<Rightarrow> 'o world \<Rightarrow> cashout_result list \<times> 'o world" where
  "evaluateAutoCashouts ctx multiplier w =
     (case in_phase ctx Running of
        None \<Rightarrow> ([], w)
      | Some roundId \<Rightarrow> fold (auto_step ctx) (auto_due w roundId multiplier) ([], w))"

definition settleRound :: "int \<Rightarrow> uid \<Rightarrow> 'o world \<Rightarrow> (uid \<times> panel) list \<times> 'o world" where
  "settleRound now roundId w =
     (let P = (\<lambda>b. b_roundId b = roundId \<and> b_status b = Active);
          active = filter P (db_bets w)
      in if active = [] then ([], w)
         else (map (\<lambda>b. (b_userId b, b_panel b)) active,
               w\<lparr>db_bets := update_where P (\<lambda>b. b\<lparr>b_status := Busted, b_settledAt := Some now\<rparr>) (db_bets w)\<rparr>))"

end
