(* ===== verification/VR_Voids.thy ===== *)
theory VR_Voids
  imports VR_Bets
begin

text \<open>
  The second half of the bet service: the operator's void of a settled bet, and the sweeps that finish
  interrupted voids and owed payouts. A sweep reads its rows once and then works through that list;
  an exception of one bet is caught and leaves the world as the failing call left it.
\<close>

section \<open>Voiding a settled bet\<close>

record void_result =
  vr_betId :: uid
  vr_status :: string
  vr_reversed :: bool
  vr_refundedStake :: string
  vr_reclaimedPayout :: string

datatype void_error =
  Bet_not_found | Bet_not_settled | Bet_transient | Bet_state_changed | Void_exn exn

definition void_reclaim_params :: "bet \<Rightarrow> reverse_params" where
  "void_reclaim_params b =
     \<lparr>rv_originalKey = payoutKey (b_id b), rv_reverseKey = voidReclaimKey (b_id b),
      rv_amount = b_payout b, rv_originalDirection = DirCredit, rv_type = Payout_credit,
      rv_ref = Some (bet_ref (b_id b)), rv_intent = None\<rparr>"

definition void_refund_params :: "bet \<Rightarrow> reverse_params" where
  "void_refund_params b =
     \<lparr>rv_originalKey = bet_debitKey b, rv_reverseKey = voidRefundKey (b_id b),
      rv_amount = b_amount b, rv_originalDirection = DirDebit, rv_type = Refund,
      rv_ref = Some (bet_ref (b_id b)), rv_intent = None\<rparr>"

text \<open>The payout is reclaimed first; if that throws, nothing was refunded.\<close>

definition performVoidReversals :: "'o wallet_provider \<Rightarrow> bet \<Rightarrow> 'o world \<Rightarrow> (exn + unit) \<times> 'o world" where
  "performVoidReversals p b w =
     (if b_payout b > 0
      then (case wp_reverse p (b_walletId b) (void_reclaim_params b) w of
              (Inl e, w1) \<Rightarrow> (Inl e, w1)
            | (Inr _, w1) \<Rightarrow> wp_reverse p (b_walletId b) (void_refund_params b) w1)
      else wp_reverse p (b_walletId b) (void_refund_params b) w)"

definition void_finish :: "uid \<Rightarrow> 'o world \<Rightarrow> nat \<times> 'o world" where
  "void_finish i w = bet_cas w i Voiding (\<lambda>b. b\<lparr>b_status := Voided\<rparr>)"

definition voidBet ::
  "'o bets_ctx \<Rightarrow> uid \<Rightarrow> uid \<Rightarrow> 'o world \<Rightarrow> (void_error + void_result) \<times> 'o world" where
  "voidBet ctx operatorId betId w =
     (case find_bet w betId of
        None \<Rightarrow> (Inl Bet_not_found, w)
      | Some bet \<Rightarrow>
          let res = (\<lambda>st rev reclaimed. \<lparr>vr_betId = betId, vr_status = st, vr_reversed = rev,
                       vr_refundedStake = bigint_to_string (b_amount bet), vr_reclaimedPayout = reclaimed\<rparr>);
              finish = (\<lambda>v. case performVoidReversals (bc_wallet ctx) bet v of
                  (Inl e, v1) \<Rightarrow> (Inl (Void_exn e), v1)
                | (Inr _, v1) \<Rightarrow>
                    (Inr (res ''voided'' True (if b_payout bet > 0 then bigint_to_string (b_payout bet) else ''0'')),
                     snd (void_finish betId v1)))
          in if b_operatorId bet \<noteq> Some operatorId then (Inl Bet_not_found, w)
             else (case b_status bet of
                 Voided \<Rightarrow> (Inr (res ''voided'' False (bigint_to_string (b_payout bet))), w)
               | Cancelled \<Rightarrow> (Inr (res ''cancelled'' False ''0''), w)
               | Active \<Rightarrow> (Inl Bet_not_settled, w)
               | Reserving \<Rightarrow> (Inl Bet_transient, w)
               | Cancelling \<Rightarrow> (Inl Bet_transient, w)
               | Payout_pending \<Rightarrow> (Inl Bet_transient, w)
               | Voiding \<Rightarrow> finish w
               | _ \<Rightarrow>
                   (case bet_cas (bc_race ctx w) betId (b_status bet) (\<lambda>b. b\<lparr>b_status := Voiding\<rparr>) of
                      (n, w1) \<Rightarrow> if n = 0 then (Inl Bet_state_changed, w1) else finish w1)))"

section \<open>The sweeps\<close>

definition void_step :: "'o wallet_provider \<Rightarrow> bet \<Rightarrow> nat \<times> 'o world \<Rightarrow> nat \<times> 'o world" where
  "void_step p b st =
     (case st of (finalized, w) \<Rightarrow>
       (case performVoidReversals p b w of
          (Inl _, w1) \<Rightarrow> (finalized, w1)
        | (Inr _, w1) \<Rightarrow> (case void_finish (b_id b) w1 of
            (n, w2) \<Rightarrow> (if n > 0 then finalized + 1 else finalized, w2))))"

definition reconcileVoidingBets :: "'o wallet_provider \<Rightarrow> nat \<Rightarrow> 'o world \<Rightarrow> nat \<times> 'o world" where
  "reconcileVoidingBets p limit w =
     fold (void_step p) (take limit (filter (\<lambda>b. b_status b = Voiding) (db_bets w))) (0, w)"

definition pending_step :: "'o wallet_provider \<Rightarrow> bet \<Rightarrow> nat \<times> 'o world \<Rightarrow> nat \<times> 'o world" where
  "pending_step p b st =
     (case st of (recovered, w) \<Rightarrow>
       (case wp_credit p (b_walletId b) (b_payout b) Payout_credit (payoutKey (b_id b))
               (Some (bet_ref (b_id b))) w of
          (Inl _, w1) \<Rightarrow> (recovered, w1)
        | (Inr tx, w1) \<Rightarrow>
            (case bet_cas w1 (b_id b) Payout_pending
                    (\<lambda>x. x\<lparr>b_status := Cashed_out, b_payoutTxId := Some (tx_id tx)\<rparr>) of
               (n, w2) \<Rightarrow>
                 if n = 0 then (recovered, w2)
                 else (recovered + 1,
                       add_loot (b_userId b) (b_payout b)
                         (case b_cashoutMult b of None \<Rightarrow> 100 | Some m \<Rightarrow> m) w2))))"

definition reconcilePendingPayouts :: "'o wallet_provider \<Rightarrow> nat \<Rightarrow> 'o world \<Rightarrow> nat \<times> 'o world" where
  "reconcilePendingPayouts p limit w =
     fold (pending_step p) (take limit (filter (\<lambda>b. b_status b = Payout_pending) (db_bets w))) (0, w)"

definition countPendingPayouts :: "'o world \<Rightarrow> nat" where
  "countPendingPayouts w = count_where (\<lambda>b. b_status b = Payout_pending) (db_bets w)"

text \<open>
  The two backlog gauges: the count and the age in seconds of the oldest row. PostgreSQL sorts missing
  times last, and a missing time counts as age 0.
\<close>

fun earliest :: "(bet \<Rightarrow> int option) \<Rightarrow> bet list \<Rightarrow> int option" where
  "earliest f [] = None"
| "earliest f (b # bs) =
     (case (f b, earliest f bs) of
        (None, r) \<Rightarrow> r | (Some t, None) \<Rightarrow> Some t | (Some t, Some u) \<Rightarrow> Some (min t u))"

definition age_seconds :: "int \<Rightarrow> int option \<Rightarrow> int" where
  "age_seconds now t = (case t of None \<Rightarrow> 0 | Some u \<Rightarrow> max 0 ((now - u) div 1000))"

definition reportPendingBacklog :: "int \<Rightarrow> 'o world \<Rightarrow> nat \<times> int" where
  "reportPendingBacklog now w =
     (let pending = filter (\<lambda>b. b_status b = Payout_pending) (db_bets w)
      in if pending = [] then (0, 0)
         else (length pending, age_seconds now (earliest b_settledAt pending)))"

definition reportReservingBacklog :: "int \<Rightarrow> 'o world \<Rightarrow> nat \<times> int" where
  "reportReservingBacklog now w =
     (let slots = filter (\<lambda>b. b_status b = Reserving \<or> b_status b = Cancelling) (db_bets w)
      in if slots = [] then (0, 0)
         else (length slots, age_seconds now (earliest (\<lambda>b. Some (b_createdAt b)) slots)))"

end
