(* ===== verification/VR_Recovery.thy ===== *)
theory VR_Recovery
  imports VR_Voids
begin

text \<open>
  The money recovery of the engine, \<open>src/game/game-engine.service.ts\<close>: refunding the open bets of a
  round that cannot be resumed, settling a stale extra round, reclaiming stranded reservations and
  finishing refunds a crash interrupted. The clock and the age gates are arguments; revealing the seed
  is not modelled (it touches no money and no round row).
\<close>

definition restart_params :: "bet \<Rightarrow> reverse_params" where
  "restart_params b =
     \<lparr>rv_originalKey = bet_debitKey b, rv_reverseKey = restartRefundKey (b_id b),
      rv_amount = b_amount b, rv_originalDirection = DirDebit, rv_type = Refund,
      rv_ref = Some (bet_ref (b_id b)), rv_intent = Some ''restart_refund''\<rparr>"

definition set_cancelled :: "int \<Rightarrow> bet \<Rightarrow> bet" where
  "set_cancelled now b = b\<lparr>b_status := Cancelled, b_settledAt := Some now\<rparr>"

definition round_set :: "uid \<Rightarrow> (round \<Rightarrow> round) \<Rightarrow> 'o world \<Rightarrow> 'o world" where
  "round_set i f w = w\<lparr>db_rounds := update_where (\<lambda>r. r_id r = i) f (db_rounds w)\<rparr>"

section \<open>Closing a round that cannot be resumed\<close>

definition close_bet :: "'o wallet_provider \<Rightarrow> int \<Rightarrow> bet \<Rightarrow> 'o world \<Rightarrow> 'o world" where
  "close_bet p now b w =
     (case wp_reverse p (b_walletId b) (restart_params b) w of
        (Inl _, w1) \<Rightarrow> w1
      | (Inr _, w1) \<Rightarrow> bet_set w1 (b_id b) (set_cancelled now))"

definition closeAndRefundRound :: "'o wallet_provider \<Rightarrow> int \<Rightarrow> uid \<Rightarrow> 'o world \<Rightarrow> 'o world" where
  "closeAndRefundRound p now roundId w =
     round_set roundId (\<lambda>r. r\<lparr>r_status := Completed, r_settledAt := Some now\<rparr>)
       (fold (close_bet p now)
          (filter (\<lambda>b. b_roundId b = roundId \<and> b_status b = Active) (db_bets w)) w)"

text \<open>
  An older open round found beside the one to resume: refunded before its outcome, settled after it.
  The \<open>settle\<close> event runs \<open>settleRound\<close>.
\<close>

definition closeStaleExtra :: "'o wallet_provider \<Rightarrow> int \<Rightarrow> round \<Rightarrow> 'o world \<Rightarrow> 'o world" where
  "closeStaleExtra p now r w =
     (if r_status r = Running \<or> r_status r = Crashed \<or> r_status r = Settling
      then
        let w1 = w\<lparr>db_rounds := update_where (\<lambda>x. r_id x = r_id r \<and> r_crashedAt x = None)
                    (\<lambda>x. x\<lparr>r_crashedAt := Some now\<rparr>) (db_rounds w)\<rparr>;
            w2 = (if r_crashedAt r = None then w1 else w)
        in round_set (r_id r) (\<lambda>x. x\<lparr>r_status := Completed, r_settledAt := Some now\<rparr>)
             (snd (settleRound now (r_id r) w2))
      else closeAndRefundRound p now (r_id r) w)"

section \<open>Stranded reservations\<close>

definition release_slot ::
  "'o wallet_provider \<Rightarrow> int \<Rightarrow> bet \<Rightarrow> nat \<times> 'o world \<Rightarrow> nat \<times> 'o world" where
  "release_slot p now b st =
     (case st of (recovered, w) \<Rightarrow>
       (case wp_rollback p (b_walletId b) (bet_debitKey b) (Some (bet_ref (b_id b))) w of
          (Inl _, w1) \<Rightarrow> (recovered, w1)
        | (Inr _, w1) \<Rightarrow>
            (case find_key w1 (bet_debitKey b) of
               None \<Rightarrow> (recovered + 1, bet_delete w1 (b_id b))
             | Some _ \<Rightarrow>
                 (case wp_credit p (b_walletId b) (b_amount b) Refund (restartRefundKey (b_id b))
                         (Some (bet_ref (b_id b))) w1 of
                    (Inl _, w2) \<Rightarrow> (recovered, w2)
                  | (Inr _, w2) \<Rightarrow> (recovered + 1, bet_set w2 (b_id b) (set_cancelled now))))))"

definition recover_slot ::
  "'o wallet_provider \<Rightarrow> ('o world \<Rightarrow> 'o world) \<Rightarrow> int \<Rightarrow> bet \<Rightarrow> nat \<times> 'o world \<Rightarrow> nat \<times> 'o world" where
  "recover_slot p race now b st =
     (case st of (recovered, w) \<Rightarrow>
       if b_status b = Reserving
       then (case bet_cas (race w) (b_id b) Reserving (\<lambda>x. x\<lparr>b_status := Cancelling\<rparr>) of
               (n, w1) \<Rightarrow> if n = 0 then (recovered, w1) else release_slot p now b (recovered, w1))
       else release_slot p now b (recovered, w))"

definition stale_slots :: "int \<Rightarrow> int \<Rightarrow> 'o world \<Rightarrow> bet list" where
  "stale_slots now olderThanMs w =
     filter (\<lambda>b. (b_status b = Reserving \<or> b_status b = Cancelling) \<and>
                 (olderThanMs > 0 \<longrightarrow> b_createdAt b < now - olderThanMs)) (db_bets w)"

definition recoverReservingBets ::
  "'o wallet_provider \<Rightarrow> ('o world \<Rightarrow> 'o world) \<Rightarrow> int \<Rightarrow> int \<Rightarrow> 'o world \<Rightarrow> nat \<times> 'o world" where
  "recoverReservingBets p race now olderThanMs w =
     fold (recover_slot p race now) (stale_slots now olderThanMs w) (0, w)"

section \<open>Refunds a crash interrupted\<close>

definition stranded_active :: "int \<Rightarrow> 'o world \<Rightarrow> bet list" where
  "stranded_active cutoff w =
     take 100 (filter (\<lambda>b. b_status b = Active \<and>
       (case find_round w (b_roundId b) of None \<Rightarrow> False
        | Some r \<Rightarrow> r_status r = Completed \<and> r_crashedAt r = None \<and>
                   (case r_settledAt r of None \<Rightarrow> False | Some t \<Rightarrow> t < cutoff))) (db_bets w))"

definition heal_active :: "'o wallet_provider \<Rightarrow> int \<Rightarrow> bet \<Rightarrow> nat \<times> 'o world \<Rightarrow> nat \<times> 'o world" where
  "heal_active p now b st =
     (case st of (healed, w) \<Rightarrow>
       (case wp_reverse p (b_walletId b) (restart_params b) w of
          (Inl _, w1) \<Rightarrow> (healed, w1)
        | (Inr _, w1) \<Rightarrow> (case bet_cas w1 (b_id b) Active (set_cancelled now) of
            (n, w2) \<Rightarrow> (if n > 0 then healed + 1 else healed, w2))))"

definition recoverStrandedActiveBets ::
  "'o wallet_provider \<Rightarrow> int \<Rightarrow> int \<Rightarrow> 'o world \<Rightarrow> nat \<times> 'o world" where
  "recoverStrandedActiveBets p now olderThanMs w =
     fold (heal_active p now) (stranded_active (now - olderThanMs) w) (0, w)"

section \<open>Boot recovery\<close>

definition OPEN_PHASES :: "phase list" where
  "OPEN_PHASES = [Waiting, Betting, Running, Crashed, Settling]"

definition recoverInterruptedRounds ::
  "'o wallet_provider \<Rightarrow> ('o world \<Rightarrow> 'o world) \<Rightarrow> int \<Rightarrow> 'o world \<Rightarrow> 'o world" where
  "recoverInterruptedRounds p race now w =
     (let w1 = snd (recoverReservingBets p race now 0 w);
          w2 = snd (recoverStrandedActiveBets p now 0 w1)
      in fold (\<lambda>r. closeAndRefundRound p now (r_id r))
           (filter (\<lambda>r. r_status r \<in> set OPEN_PHASES) (db_rounds w2)) w2)"

end
