(* ===== verification/VR_Books.thy ===== *)
theory VR_Books
  imports VR_Recovery
begin

text \<open>
  The books of the internal mode: which ledger rows a bet of each status has, and the steps that keep
  it so. Every bet has six idempotency keys; \<open>present w b\<close> is the set of those that are in the
  journal, \<open>legal\<close> says which sets a status allows, and \<open>books_ok\<close> adds what each such row contains.
  Handlers change the books by three moves only: a row is committed for a bet, a bet row is updated,
  a bet row appears or goes; the lemmas here are about these moves.
\<close>

section \<open>Keys of a bet\<close>

datatype book_key = KD | KK key_kind

definition bkey :: "bet \<Rightarrow> book_key \<Rightarrow> string" where
  "bkey b k = (case k of KD \<Rightarrow> bet_debitKey b | KK m \<Rightarrow> kind_key m (b_id b))"

definition btype :: "book_key \<Rightarrow> ledger_type" where
  "btype k = (case k of KD \<Rightarrow> Bet_debit | KK KPayout \<Rightarrow> Payout_credit | KK KVoidReclaim \<Rightarrow> Payout_credit
     | KK _ \<Rightarrow> Refund)"

definition bamount :: "bet \<Rightarrow> book_key \<Rightarrow> int" where
  "bamount b k = (case k of KD \<Rightarrow> - b_amount b | KK KPayout \<Rightarrow> b_payout b
     | KK KVoidReclaim \<Rightarrow> - b_payout b | KK _ \<Rightarrow> b_amount b)"

definition present :: "'o world \<Rightarrow> bet \<Rightarrow> book_key set" where
  "present w b = {k. has_key w (bkey b k)}"

text \<open>What a bet of a status has in the journal, and what its payout is.\<close>

definition legal :: "bet_status \<Rightarrow> int \<Rightarrow> book_key set \<Rightarrow> bool" where
  "legal s p K = (case s of
     Reserving \<Rightarrow> p = 0 \<and> K \<subseteq> {KD}
   | Cancelling \<Rightarrow> p = 0 \<and> (K = {} \<or> K = {KD} \<or> K = {KD, KK KRestart})
   | Active \<Rightarrow> p = 0 \<and> K = {KD}
   | Busted \<Rightarrow> p = 0 \<and> K = {KD}
   | Payout_pending \<Rightarrow> K = {KD}
   | Cashed_out \<Rightarrow> 0 < p \<and> K = {KD, KK KPayout}
   | Cancelled \<Rightarrow> p = 0 \<and> (K = {KD, KK KRefund} \<or> K = {KD, KK KRestart})
   | Voiding \<Rightarrow>
       if 0 < p then K = {KD, KK KPayout} \<or> K = {KD, KK KPayout, KK KVoidReclaim} \<or>
                     K = {KD, KK KPayout, KK KVoidReclaim, KK KVoidRefund}
       else p = 0 \<and> (K = {KD} \<or> K = {KD, KK KVoidRefund})
   | Voided \<Rightarrow>
       if 0 < p then K = {KD, KK KPayout, KK KVoidReclaim, KK KVoidRefund}
       else p = 0 \<and> K = {KD, KK KVoidRefund})"

definition row_of :: "bet \<Rightarrow> book_key \<Rightarrow> ledger_row \<Rightarrow> bool" where
  "row_of b k l \<longleftrightarrow> lt_key l = bkey b k \<and> lt_type l = btype k \<and> lt_amount l = bamount b k \<and>
     lt_wallet l = b_walletId b \<and> lt_refType l = Some ''bet'' \<and> lt_refId l = Some (b_id b)"

text \<open>A row that has nothing to do with bets: guest funding, a demo reset.\<close>

definition foreign_row :: "ledger_row \<Rightarrow> bool" where
  "foreign_row l \<longleftrightarrow> lt_refType l \<noteq> Some ''bet'' \<and> \<not> starts_with (lt_key l) ''bet:''"

definition slot :: "bet \<Rightarrow> uid \<times> uid \<times> panel" where
  "slot b = (b_roundId b, b_userId b, b_panel b)"

definition wf_bet :: "'o world \<Rightarrow> bet \<Rightarrow> bool" where
  "wf_bet w b \<longleftrightarrow> colon_free (b_id b) \<and> colon_free (b_roundId b) \<and> colon_free (b_userId b) \<and>
     0 < b_amount b \<and> b_walletId b \<in> w_id ` set (db_wallets w)"

definition struct_ok :: "'o world \<Rightarrow> bool" where
  "struct_ok w \<longleftrightarrow> ledger_inv w \<and> distinct (map b_id (db_bets w)) \<and> distinct (map slot (db_bets w)) \<and>
     (\<forall>b \<in> set (db_bets w). wf_bet w b) \<and>
     (\<forall>l \<in> set (db_ledger w). foreign_row l \<or> (\<exists>b \<in> set (db_bets w). \<exists>k. row_of b k l))"

definition legal_bet :: "'o world \<Rightarrow> bet \<Rightarrow> bool" where
  "legal_bet w b \<longleftrightarrow> legal (b_status b) (b_payout b) (present w b) \<and>
     (b_status b = Cashed_out \<longrightarrow> b_payoutTxId b \<noteq> None)"

definition books_ok :: "'o world \<Rightarrow> bool" where
  "books_ok w \<longleftrightarrow> struct_ok w \<and> (\<forall>b \<in> set (db_bets w). legal_bet w b)"

section \<open>Keys of different bets differ\<close>

lemma bkey_prefix: "starts_with (bkey b k) ''bet:''"
  by (cases k; simp add: bkey_def bet_debitKey_def debitKey_def kind_key_def payoutKey_def refundKey_def
      restartRefundKey_def voidReclaimKey_def voidRefundKey_def starts_with_def split: key_kind.splits)

lemma bkey_eq:
  assumes "wf_bet w b" and "wf_bet w' c"
  shows "bkey b k = bkey c m \<longleftrightarrow> k = m \<and> (case k of KD \<Rightarrow> slot b = slot c | KK _ \<Rightarrow> b_id b = b_id c)"
proof -
  have b: "colon_free (b_id b)" "colon_free (b_roundId b)" "colon_free (b_userId b)"
    and c: "colon_free (b_id c)" "colon_free (b_roundId c)" "colon_free (b_userId c)"
    using assms by (simp_all add: wf_bet_def)
  show ?thesis
  proof (cases k)
    case KD
    then show ?thesis
      using debitKey_inj [OF b(2,3) c(2,3)] kind_key_not_debitKey [OF c(1) b(2,3)]
      by (cases m) (simp_all add: bkey_def bet_debitKey_def slot_def, metis)
  next
    case (KK n)
    then show ?thesis
      using kind_key_inj [OF b(1) c(1)] kind_key_not_debitKey [OF b(1) c(2,3)]
      by (cases m) (simp_all add: bkey_def bet_debitKey_def)
  qed
qed

lemma struct_bet:
  assumes "struct_ok w" and "b \<in> set (db_bets w)"
  shows "wf_bet w b" and "find_bet w (b_id b) = Some b"
    and "c \<in> set (db_bets w) \<Longrightarrow> b_id c = b_id b \<longleftrightarrow> c = b"
    and "c \<in> set (db_bets w) \<Longrightarrow> slot c = slot b \<longleftrightarrow> c = b"
  using assms unfolding struct_ok_def find_bet_def
  by (auto intro: find_distinct dest: distinct_key_eq)

lemma bkey_unique:
  assumes s: "struct_ok w" and b: "b \<in> set (db_bets w)" and c: "c \<in> set (db_bets w)"
  shows "bkey b k = bkey c m \<longleftrightarrow> b = c \<and> k = m"
proof -
  have "b_id b = b_id c \<longleftrightarrow> b = c" and "slot b = slot c \<longleftrightarrow> b = c"
    using struct_bet(3,4) [OF s c b] by blast+
  then have "(case k of KD \<Rightarrow> slot b = slot c | KK _ \<Rightarrow> b_id b = b_id c) \<longleftrightarrow> b = c"
    by (cases k) simp_all
  then show ?thesis
    unfolding bkey_eq [OF struct_bet(1) [OF s b] struct_bet(1) [OF s c]] by blast
qed

text \<open>Every present key of a bet has exactly its row.\<close>

lemma present_row:
  assumes s: "struct_ok w" and b: "b \<in> set (db_bets w)"
  shows "k \<in> present w b \<longleftrightarrow> (\<exists>l \<in> set (db_ledger w). row_of b k l)"
proof
  assume "k \<in> present w b"
  then obtain l where l: "l \<in> set (db_ledger w)" "lt_key l = bkey b k"
    by (auto simp: present_def has_key_def)
  then have "\<not> foreign_row l" using bkey_prefix by (simp add: foreign_row_def)
  then obtain c m where c: "c \<in> set (db_bets w)" "row_of c m l" using s l by (auto simp: struct_ok_def)
  with l have "bkey b k = bkey c m" by (simp add: row_of_def)
  then have "row_of b k l" using bkey_unique [OF s b c(1)] c(2) by simp
  with l(1) show "\<exists>l \<in> set (db_ledger w). row_of b k l" by blast
next
  assume "\<exists>l \<in> set (db_ledger w). row_of b k l"
  then obtain l where "l \<in> set (db_ledger w)" "lt_key l = bkey b k" by (auto simp: row_of_def)
  then show "k \<in> present w b" by (metis CollectI has_key_def image_eqI present_def)
qed

section \<open>A row is committed for a bet\<close>

definition book_row :: "bet \<Rightarrow> book_key \<Rightarrow> wallet \<Rightarrow> 'o world \<Rightarrow> 'o world" where
  "book_row b k x w =
     append_row (mk_row w (b_walletId b) (btype k) (bamount b k) (w_balance x + bamount b k)
         (Some (bet_ref (b_id b))) (bkey b k))
       (set_balance (b_walletId b) (w_balance x + bamount b k) w)"

lemma book_row_simps [simp]:
  "db_bets (book_row b k x w) = db_bets w" "db_rounds (book_row b k x w) = db_rounds w"
  "db_sessions (book_row b k x w) = db_sessions w" "db_users (book_row b k x w) = db_users w"
  "w_id ` set (db_wallets (book_row b k x w)) = w_id ` set (db_wallets w)"
  by (simp_all add: book_row_def) (metis set_balance_simps(9) set_map)

lemma has_key_book_row: "has_key (book_row b k x w) key \<longleftrightarrow> has_key w key \<or> key = bkey b k"
  by (auto simp: book_row_def has_key_def)

lemma present_book_row:
  assumes "struct_ok w" and "b \<in> set (db_bets w)" and "c \<in> set (db_bets w)"
  shows "present (book_row b k x w) c = (if c = b then insert k (present w b) else present w c)"
  using bkey_unique [OF assms(1,3,2)] by (auto simp: present_def has_key_book_row)

lemma struct_book_row:
  assumes s: "struct_ok w" and b: "b \<in> set (db_bets w)" and k: "k \<notin> present w b"
    and x: "find_wallet w (b_walletId b) = Some x" and pos: "0 \<le> w_balance x + bamount b k"
  shows "struct_ok (book_row b k x w)"
proof -
  have "ledger_inv (book_row b k x w)"
    unfolding book_row_def using s k x pos
    by (intro ledger_inv_insert) (auto simp: struct_ok_def present_def)
  moreover have "wf_bet (book_row b k x w) c" if "c \<in> set (db_bets w)" for c
    using s that by (simp add: struct_ok_def wf_bet_def)
  moreover have "row_of b k (mk_row w (b_walletId b) (btype k) (bamount b k) (w_balance x + bamount b k)
      (Some (bet_ref (b_id b))) (bkey b k))"
    by (simp add: row_of_def bet_ref_def ref_type_of_def ref_id_of_def)
  then have "foreign_row l \<or> (\<exists>b \<in> set (db_bets w). \<exists>k. row_of b k l)"
    if "l \<in> set (db_ledger (book_row b k x w))" for l
    using s that b by (auto simp: struct_ok_def book_row_def)
  ultimately show ?thesis using s by (simp add: struct_ok_def)
qed

section \<open>A bet row is updated\<close>

text \<open>What an update may change: anything but the identity, the stake, and a payout already booked.\<close>

definition keeps :: "book_key set \<Rightarrow> bet \<Rightarrow> bet \<Rightarrow> bool" where
  "keeps K b c \<longleftrightarrow> b_id c = b_id b \<and> slot c = slot b \<and> b_walletId c = b_walletId b \<and>
     b_amount c = b_amount b \<and> (KK KPayout \<in> K \<or> KK KVoidReclaim \<in> K \<longrightarrow> b_payout c = b_payout b)"

lemma keeps_bkey: "keeps K b c \<Longrightarrow> bkey c k = bkey b k"
  by (cases k) (auto simp: keeps_def bkey_def slot_def bet_debitKey_def)

lemma keeps_row: "keeps K b c \<Longrightarrow> k \<in> K \<Longrightarrow> row_of c k l \<longleftrightarrow> row_of b k l"
  using keeps_bkey [of K b c k]
  by (auto simp: keeps_def row_of_def bamount_def split: book_key.splits key_kind.splits)

lemma bet_set_simps [simp]:
  "db_ledger (bet_set w i f) = db_ledger w" "db_wallets (bet_set w i f) = db_wallets w"
  "db_rounds (bet_set w i f) = db_rounds w" "has_key (bet_set w i f) key = has_key w key"
  "present (bet_set w i f) c = present w c" "find_key (bet_set w i f) = find_key w"
  "find_wallet (bet_set w i f) = find_wallet w" "db_sessions (bet_set w i f) = db_sessions w"
  by (auto simp: bet_set_def has_key_def present_def find_key_def find_wallet_def)

lemma ledger_inv_cong:
  "db_ledger w' = db_ledger w \<Longrightarrow> db_wallets w' = db_wallets w \<Longrightarrow> ledger_inv w' = ledger_inv w"
  by (simp add: ledger_inv_def)

lemma struct_bets_cong:
  "db_ledger w' = db_ledger w \<Longrightarrow> db_wallets w' = db_wallets w \<Longrightarrow> db_bets w' = db_bets w \<Longrightarrow>
   struct_ok w' = struct_ok w"
  by (simp add: struct_ok_def wf_bet_def ledger_inv_cong [of w' w])

lemma books_cong:
  "db_ledger w' = db_ledger w \<Longrightarrow> db_wallets w' = db_wallets w \<Longrightarrow> db_bets w' = db_bets w \<Longrightarrow>
   books_ok w' = books_ok w"
  by (simp add: books_ok_def struct_bets_cong [of w' w] legal_bet_def present_def has_key_def)

text \<open>Any bulk update of the bet table that keeps what the journal knows of each bet.\<close>

lemma struct_update:
  assumes s: "struct_ok w" and kp: "\<And>b. b \<in> set (db_bets w) \<Longrightarrow> P b \<Longrightarrow> keeps (present w b) b (f b)"
  shows "struct_ok (w\<lparr>db_bets := update_where P f (db_bets w)\<rparr>)"
proof -
  let ?w = "w\<lparr>db_bets := update_where P f (db_bets w)\<rparr>"
  let ?g = "\<lambda>x. if P x then f x else x"
  have bets: "db_bets ?w = map ?g (db_bets w)" by (simp add: update_where_def)
  have ids: "map b_id (map ?g (db_bets w)) = map b_id (db_bets w)" "map slot (map ?g (db_bets w)) = map slot (db_bets w)"
    using kp by (auto simp: keeps_def)
  have wf: "wf_bet ?w (?g c)" if "c \<in> set (db_bets w)" for c
    using struct_bet(1) [OF s that] kp [OF that] by (auto simp: wf_bet_def keeps_def slot_def)
  have rows: "foreign_row l \<or> (\<exists>c \<in> set (map ?g (db_bets w)). \<exists>k. row_of c k l)"
    if l: "l \<in> set (db_ledger w)" for l
  proof (cases "foreign_row l")
    case False
    then obtain c k where c: "c \<in> set (db_bets w)" "row_of c k l" using s l by (auto simp: struct_ok_def)
    then have "k \<in> present w c" using l by (auto simp: present_row [OF s c(1)])
    then have "row_of (?g c) k l" using c keeps_row [OF kp [OF c(1)]] by auto
    with c(1) show ?thesis by auto
  qed simp
  have inv: "ledger_inv ?w" using s ledger_inv_cong [of ?w w] by (simp add: struct_ok_def)
  show ?thesis
    unfolding struct_ok_def bets ids
  proof (intro conjI ballI)
    show "distinct (map b_id (db_bets w))" "distinct (map slot (db_bets w))"
      using s by (simp_all add: struct_ok_def)
    show "wf_bet ?w c" if "c \<in> set (map ?g (db_bets w))" for c
      using that wf by (auto simp only: set_map)
    show "foreign_row l \<or> (\<exists>c \<in> set (map ?g (db_bets w)). \<exists>k. row_of c k l)"
      if "l \<in> set (db_ledger ?w)" for l
      using rows [of l] that by simp
  qed (rule inv)
qed

lemma struct_bet_set:
  assumes s: "struct_ok w" and b: "b \<in> set (db_bets w)" and kp: "keeps (present w b) b (f b)"
  shows "struct_ok (bet_set w (b_id b) f)"
  unfolding bet_set_def using struct_bet(3) [OF s b] kp by (intro struct_update [OF s]) auto

text \<open>All bets but the one with id \<open>i\<close> are in order.\<close>

definition books_but :: "uid \<Rightarrow> 'o world \<Rightarrow> bool" where
  "books_but i w \<longleftrightarrow> struct_ok w \<and> (\<forall>c \<in> set (db_bets w). b_id c \<noteq> i \<longrightarrow> legal_bet w c)"

lemma books_but_I: "books_ok w \<Longrightarrow> books_but i w"
  by (simp add: books_ok_def books_but_def)

lemma but_done:
  "books_but (b_id b) w \<Longrightarrow> b \<in> set (db_bets w) \<Longrightarrow> legal_bet w b \<Longrightarrow> books_ok w"
  unfolding books_but_def books_ok_def by (metis struct_bet(3))

lemma in_bet_set: "b \<in> set (db_bets w) \<Longrightarrow> f b \<in> set (db_bets (bet_set w (b_id b) f))"
  by (auto simp: bet_set_def table_simps intro!: image_eqI [of _ _ b])

lemma others_bet_set:
  "c \<in> set (db_bets w) \<Longrightarrow> b_id c \<noteq> i \<Longrightarrow> c \<in> set (db_bets (bet_set w i f))"
  by (auto simp: bet_set_def table_simps intro!: image_eqI [of _ _ c])

lemma but_set:
  assumes w: "books_but (b_id b) w" and b: "b \<in> set (db_bets w)" and kp: "keeps (present w b) b (f b)"
  shows "books_but (b_id b) (bet_set w (b_id b) f)"
    and "present (bet_set w (b_id b) f) (f b) = present w b"
proof -
  have s: "struct_ok w" using w by (simp add: books_but_def)
  show "present (bet_set w (b_id b) f) (f b) = present w b"
    using keeps_bkey [OF kp] by (simp add: present_def)
  have "legal_bet (bet_set w (b_id b) f) c"
    if c: "c \<in> set (db_bets (bet_set w (b_id b) f))" "b_id c \<noteq> b_id b" for c
  proof -
    from c(1) obtain d where d: "d \<in> set (db_bets w)" "c = (if b_id d = b_id b then f d else d)"
      by (auto simp: bet_set_def table_simps)
    have "b_id d \<noteq> b_id b" using d c(2) struct_bet(3) [OF s b d(1)] kp by (auto simp: keeps_def)
    with d w show ?thesis by (simp add: books_but_def legal_bet_def)
  qed
  with struct_bet_set [where f = f, OF s b kp] show "books_but (b_id b) (bet_set w (b_id b) f)"
    by (simp add: books_but_def)
qed

lemma books_bet_set:
  assumes w: "books_but (b_id b) w" and b: "b \<in> set (db_bets w)" and kp: "keeps (present w b) b (f b)"
    and new: "legal (b_status (f b)) (b_payout (f b)) (present w b)"
      "b_status (f b) = Cashed_out \<longrightarrow> b_payoutTxId (f b) \<noteq> None"
  shows "books_ok (bet_set w (b_id b) f)"
proof -
  have "b_id (f b) = b_id b" using kp by (simp add: keeps_def)
  with but_set [where f = f, OF w b kp] in_bet_set [OF b, of f] new show ?thesis
    by (intro but_done [of "f b"]) (simp_all only: legal_bet_def)
qed

text \<open>The compare-and-swap is an update of the bet when it finds the status it expects.\<close>

lemma bet_cas_eq:
  assumes s: "struct_ok w" and b: "b \<in> set (db_bets w)"
  shows "bet_cas w (b_id b) st f = (if b_status b = st then (1, bet_set w (b_id b) f) else (0, w))"
proof (cases "b_status b = st")
  case True
  let ?P = "\<lambda>x. b_id x = b_id b \<and> b_status x = st"
  have "count_where ?P (db_bets w) = 1"
    using s b True struct_bet(3) [OF s b] by (intro count_where_one [of b_id _ b]) (auto simp: struct_ok_def)
  moreover have "update_where ?P f (db_bets w) = update_where (\<lambda>x. b_id x = b_id b) f (db_bets w)"
    using struct_bet(3) [OF s b] True by (intro update_where_cong) auto
  ultimately show ?thesis using True by (simp add: bet_cas_def bet_set_def Let_def)
next
  case False
  then have z: "count_where (\<lambda>x. b_id x = b_id b \<and> b_status x = st) (db_bets w) = 0"
    using struct_bet(3) [OF s b] by (auto simp: count_where_0_iff)
  with update_where_none [OF z, of f] False show ?thesis by (simp add: bet_cas_def Let_def)
qed

section \<open>A bet row appears or goes\<close>

lemma struct_insert:
  assumes s: "struct_ok w" and b: "wf_bet w b" and id: "b_id b \<notin> b_id ` set (db_bets w)"
    and sl: "slot b \<notin> slot ` set (db_bets w)"
  shows "struct_ok (w\<lparr>db_bets := db_bets w @ [b]\<rparr>)" and "present w b = {}"
proof -
  show "struct_ok (w\<lparr>db_bets := db_bets w @ [b]\<rparr>)"
    using s b id sl by (auto simp: struct_ok_def wf_bet_def ledger_inv_def)
  have False if k: "k \<in> present w b" for k
  proof -
    from k obtain l where l: "l \<in> set (db_ledger w)" "lt_key l = bkey b k"
      by (auto simp: present_def has_key_def)
    then have "\<not> foreign_row l" using bkey_prefix by (simp add: foreign_row_def)
    then obtain c m where c: "c \<in> set (db_bets w)" "row_of c m l" using s l by (auto simp: struct_ok_def)
    with l have "bkey b k = bkey c m" by (simp add: row_of_def)
    with bkey_eq [OF b struct_bet(1) [OF s c(1)]] id sl c(1) show False
      by (cases k) auto
  qed
  then show "present w b = {}" by blast
qed

lemma struct_delete:
  assumes s: "struct_ok w" and b: "b \<in> set (db_bets w)" and none: "present w b = {}"
  shows "struct_ok (bet_delete w (b_id b))"
proof -
  have "foreign_row l \<or> (\<exists>c \<in> set (db_bets (bet_delete w (b_id b))). \<exists>k. row_of c k l)"
    if l: "l \<in> set (db_ledger w)" for l
  proof (cases "foreign_row l")
    case False
    then obtain c k where c: "c \<in> set (db_bets w)" "row_of c k l" using s l by (auto simp: struct_ok_def)
    then have "c \<noteq> b" using none l present_row [OF s b] by auto
    then show ?thesis using c struct_bet(3) [OF s b c(1)] by (auto simp: bet_delete_def table_simps)
  qed simp
  then show ?thesis
    using s by (auto simp: struct_ok_def bet_delete_def wf_bet_def ledger_inv_def table_simps
        intro: distinct_map_delete_where)
qed

section \<open>What a committed movement adds\<close>

definition adds :: "'o world \<Rightarrow> bet \<Rightarrow> book_key \<Rightarrow> 'o world \<Rightarrow> bool" where
  "adds w b k w' \<longleftrightarrow> struct_ok w' \<and> db_bets w' = db_bets w \<and> db_rounds w' = db_rounds w \<and>
     (\<forall>c \<in> set (db_bets w). present w' c = (if c = b then insert k (present w b) else present w c))"

lemma adds_present: "adds w b k w' \<Longrightarrow> b \<in> set (db_bets w) \<Longrightarrow> present w' b = insert k (present w b)"
  by (simp add: adds_def)

lemma but_adds:
  assumes w: "books_but (b_id b) w" and a: "adds w b k w'"
  shows "books_but (b_id b) w'"
proof -
  have "legal_bet w' c" if "c \<in> set (db_bets w)" "b_id c \<noteq> b_id b" for c
    using w a that by (auto simp: books_but_def adds_def legal_bet_def)
  with w a show ?thesis by (simp add: books_but_def adds_def)
qed

lemma bet_wallet:
  "struct_ok w \<Longrightarrow> b \<in> set (db_bets w) \<Longrightarrow> \<exists>x. find_wallet w (b_walletId b) = Some x \<and> 0 \<le> w_balance x"
proof -
  assume s: "struct_ok w" and "b \<in> set (db_bets w)"
  then obtain x where x: "x \<in> set (db_wallets w)" "w_id x = b_walletId b"
    using struct_bet(1) [OF s, of b] by (auto simp: wf_bet_def)
  have "find_wallet w (w_id x) = Some x"
    using s x(1) unfolding find_wallet_def struct_ok_def ledger_inv_def by (intro find_distinct) auto
  moreover have "0 \<le> w_balance x" using s x by (simp add: struct_ok_def ledger_inv_def wallet_books_def)
  ultimately show ?thesis using x by auto
qed

lemma adds_refl: "struct_ok w \<Longrightarrow> k \<in> present w b \<Longrightarrow> adds w b k w"
  by (auto simp: adds_def)

lemma adds_book_row:
  "struct_ok w \<Longrightarrow> b \<in> set (db_bets w) \<Longrightarrow> k \<notin> present w b \<Longrightarrow> find_wallet w (b_walletId b) = Some x \<Longrightarrow>
   0 \<le> w_balance x + bamount b k \<Longrightarrow> adds w b k (book_row b k x w)"
  unfolding adds_def using struct_book_row present_book_row by (auto simp: present_book_row)

text \<open>A ledger movement for a key of a bet: applied, applied before, or not covered by the balance.\<close>

lemma record_adds:
  assumes s: "struct_ok w" and b: "b \<in> set (db_bets w)"
  shows "(\<exists>row w'. ledger_record id id w (b_walletId b) (bamount b k) (btype k) (bkey b k)
            (Some (bet_ref (b_id b))) = (Inr row, w') \<and> adds w b k w') \<or>
    bamount b k < 0 \<and> k \<notin> present w b \<and>
      ledger_record id id w (b_walletId b) (bamount b k) (btype k) (bkey b k)
            (Some (bet_ref (b_id b))) = (Inl Insufficient_balance, w)"
proof (cases "find_key w (bkey b k)")
  case (Some row)
  then have "k \<in> present w b" using find_key_Some_has_key by (auto simp: present_def)
  with Some s show ?thesis by (auto simp: ledger_record_seq intro: adds_refl)
next
  case None
  then have k: "k \<notin> present w b" by (simp add: present_def find_key_None_iff)
  obtain x where x: "find_wallet w (b_walletId b) = Some x" "0 \<le> w_balance x" using bet_wallet [OF s b] by blast
  show ?thesis
  proof (cases "w_balance x + bamount b k < 0")
    case True
    with None x k show ?thesis by (simp add: ledger_record_seq)
  next
    case False
    with adds_book_row [OF s b k x(1)] None x(1) show ?thesis
      by (simp add: ledger_record_seq book_row_def Let_def)
  qed
qed

lemma credit_adds:
  assumes s: "struct_ok w" and b: "b \<in> set (db_bets w)" and pos: "0 < bamount b k"
  obtains tx w' where "ledger_credit (b_walletId b) (bamount b k) (btype k) (bkey b k)
      (Some (bet_ref (b_id b))) w = (Inr tx, w')" and "adds w b k w'"
  using record_adds [OF s b, of k] pos by (auto simp: ledger_credit_def)

lemma debit_adds:
  assumes s: "struct_ok w" and b: "b \<in> set (db_bets w)" and neg: "bamount b k < 0"
  shows "(\<exists>tx w'. ledger_debit (b_walletId b) (- bamount b k) (btype k) (bkey b k)
            (Some (bet_ref (b_id b))) w = (Inr tx, w') \<and> adds w b k w') \<or>
    k \<notin> present w b \<and> ledger_debit (b_walletId b) (- bamount b k) (btype k) (bkey b k)
            (Some (bet_ref (b_id b))) w = (Inl Insufficient_balance, w)"
  using record_adds [OF s b, of k] neg by (auto simp: ledger_debit_def)

end
