(* ===== verification/VR_BookOps.thy ===== *)
theory VR_BookOps
  imports VR_Books
begin

text \<open>
  Every handler of the bet service and of the recovery keeps the books of the internal mode: each
  section takes one handler over \<open>ledgerProvider\<close> and shows that \<open>books_ok\<close> is preserved on every
  branch. The handlers that compare-and-swap tolerate other requests in between (\<open>race_ok\<close>).
\<close>

section \<open>What may happen in between\<close>

definition same_core :: "bet \<Rightarrow> bet \<Rightarrow> bool" where
  "same_core b c \<longleftrightarrow> b_id c = b_id b \<and> slot c = slot b \<and> b_walletId c = b_walletId b \<and>
     b_amount c = b_amount b \<and> b_maxWinPerBet c = b_maxWinPerBet b \<and>
     (b_status c = b_status b \<longrightarrow> b_payout c = b_payout b)"

lemma same_core_refl [simp]: "same_core b b"
  by (simp add: same_core_def)

definition race_ok :: "('o world \<Rightarrow> 'o world) \<Rightarrow> bool" where
  "race_ok race \<longleftrightarrow> (\<forall>w. books_ok w \<longrightarrow> books_ok (race w) \<and>
     (\<forall>b \<in> set (db_bets w). \<forall>c \<in> set (db_bets (race w)). b_id c = b_id b \<longrightarrow> same_core b c))"

lemma race_ok_id [simp]: "race_ok id"
  unfolding race_ok_def
proof (intro allI impI conjI ballI)
  fix w :: "'a world" and b c
  assume w: "books_ok w" "b \<in> set (db_bets w)" "c \<in> set (db_bets (id w))" "b_id c = b_id b"
  have "struct_ok w" using w(1) by (simp add: books_ok_def)
  then have "c = b" using struct_bet(3) w by fastforce
  then show "same_core b c" by simp
qed simp

lemma lp_simps [simp]:
  "wp_debit ledgerProvider = ledger_debit" "wp_credit ledgerProvider = ledger_credit"
  "wp_reverse ledgerProvider = ledger_reverse" "wp_rollback ledgerProvider = ledger_rollback"
  by (simp_all add: ledgerProvider_def)

lemma find_slot_bet:
  "find_slot w r u p = Some b \<Longrightarrow> b \<in> set (db_bets w) \<and> slot b = (r, u, p)"
  by (drule find_slot_SomeD) (simp add: slot_def)

text \<open>The compare-and-swap after a race, on a bet read before it.\<close>

lemma cas_after_race:
  assumes w: "books_ok w" and r: "race_ok race" and b: "b \<in> set (db_bets w)" "b_status b = st"
    and c: "bet_cas (race w) (b_id b) st f = (n, w1)" and n: "n \<noteq> 0"
  obtains c where "c \<in> set (db_bets (race w))" and "same_core b c" and "b_status c = st"
    and "b_payout c = b_payout b" and "books_ok (race w)" and "w1 = bet_set (race w) (b_id c) f"
proof -
  have ok: "books_ok (race w)" using r w by (simp add: race_ok_def)
  then have s: "struct_ok (race w)" by (simp add: books_ok_def)
  have "count_where (\<lambda>x. b_id x = b_id b \<and> b_status x = st) (db_bets (race w)) \<noteq> 0"
    using c n by (auto simp: bet_cas_def Let_def)
  then obtain x where x: "x \<in> set (db_bets (race w))" "b_id x = b_id b" "b_status x = st"
    unfolding count_where_0_iff by blast
  have core: "same_core b x" using r w b(1) x by (simp add: race_ok_def)
  have "w1 = bet_set (race w) (b_id x) f"
    using bet_cas_eq [OF s x(1), of st f] c x by simp
  with that [OF x(1) core x(3) _ ok] core x(3) b(2) show thesis by (simp add: same_core_def)
qed

lemma cas_after_race_lost:
  assumes w: "books_ok w" and r: "race_ok race"
    and c: "bet_cas (race w) i st f = (0, w1)"
  shows "books_ok w1"
proof -
  have "update_where P f bs = bs" if "count_where P bs = 0" for P and bs :: "bet list"
    using update_where_none [OF that] .
  then have "db_bets w1 = db_bets (race w) \<and> db_ledger w1 = db_ledger (race w) \<and> db_wallets w1 = db_wallets (race w)"
    using c by (auto simp: bet_cas_def Let_def)
  moreover have "books_ok (race w)" using w r by (simp add: race_ok_def)
  ultimately show ?thesis using books_cong by metis
qed

section \<open>Cancelling\<close>

lemma cancel_books:
  assumes w: "books_ok w" and r: "race_ok (bc_race ctx)" and p: "bc_wallet ctx = ledgerProvider"
  shows "books_ok (snd (cancelBet ctx u pn w))"
proof (cases "in_phase ctx Betting")
  case (Some rid)
  show ?thesis
  proof (cases "find_slot w rid u pn")
    case bs: (Some b)
    show ?thesis
    proof (cases "b_status b = Active")
      case act: True
      let ?f = "\<lambda>b. b\<lparr>b_status := Cancelled, b_settledAt := Some (bc_now ctx)\<rparr>"
      have b: "b \<in> set (db_bets w)" using find_slot_bet [OF bs] by simp
      obtain n w1 where c: "bet_cas (bc_race ctx w) (b_id b) Active ?f = (n, w1)" by fastforce
      show ?thesis
      proof (cases "n = 0")
        case True
        with cas_after_race_lost [OF w r] c have "books_ok w1" by blast
        with Some bs act c True show ?thesis by (simp add: cancelBet_def)
      next
        case False
        from cas_after_race [OF w r b act c False] obtain x where x: "x \<in> set (db_bets (bc_race ctx w))"
          "same_core b x" "b_status x = Active" "books_ok (bc_race ctx w)"
          and w1: "w1 = bet_set (bc_race ctx w) (b_id x) ?f" by blast
        have px: "present (bc_race ctx w) x = {KD}" "b_payout x = 0"
          using x(1,3,4) by (auto simp: books_ok_def legal_bet_def legal_def)
        have kp: "keeps (present (bc_race ctx w) x) x (?f x)" by (simp add: keeps_def slot_def)
        note st = but_set [where f = ?f, OF books_but_I [OF x(4)] x(1) kp]
        have fx: "?f x \<in> set (db_bets w1)" unfolding w1 by (rule in_bet_set [OF x(1)])
        have s1: "struct_ok w1" using st(1) by (simp add: w1 books_but_def)
        have "0 < bamount (?f x) (KK KRefund)"
          using struct_bet(1) [OF s1 fx] by (simp add: bamount_def wf_bet_def)
        from credit_adds [OF s1 fx this] obtain tx w2 where
          cr: "ledger_credit (b_walletId b) (b_amount b) Refund (refundKey (b_id b)) (Some (bet_ref (b_id b))) w1 = (Inr tx, w2)"
          and a: "adds w1 (?f x) (KK KRefund) w2"
          using x(2) by (auto simp: bamount_def btype_def bkey_def kind_key_def same_core_def)
        have "books_but (b_id (?f x)) w2" using but_adds [OF _ a] st(1) by (simp add: w1)
        moreover have "?f x \<in> set (db_bets w2)" using a fx by (simp add: adds_def)
        moreover have "legal_bet w2 (?f x)"
          using adds_present [OF a fx] st(2) px by (auto simp: w1 legal_bet_def legal_def)
        ultimately have "books_ok w2" by (rule but_done)
        with Some bs act c False cr p show ?thesis by (simp add: cancelBet_def)
      qed
    qed (use Some bs w in \<open>simp add: cancelBet_def\<close>)
  qed (use Some w in \<open>simp add: cancelBet_def\<close>)
qed (use w in \<open>simp add: cancelBet_def\<close>)

section \<open>Cashing out\<close>

lemma books_profiles [simp]: "books_ok (add_loot u p m w) = books_ok w"
  by (rule books_cong) (simp_all add: add_loot_def)

text \<open>Paying a claimed win: it ends as \<open>cashed_out\<close> with its row, or as \<open>payout_pending\<close> without.\<close>

lemma pay_claimed_books:
  assumes w: "books_but (b_id y) w" and y: "y \<in> set (db_bets w)" "b_status y = Cashed_out"
    "present w y = {KD}" "b_payout y = pay"
    and b: "b_id b = b_id y" "b_walletId b = b_walletId y" and p: "bc_wallet ctx = ledgerProvider"
  shows "books_ok (snd (pay_claimed ctx b mult pay ccy w))"
proof (cases "0 < pay")
  case True
  have s: "struct_ok w" using w by (simp add: books_but_def)
  have "0 < bamount y (KK KPayout)" using True y(4) by (simp add: bamount_def)
  from credit_adds [OF s y(1) this] obtain tx w2 where
    cr: "ledger_credit (b_walletId y) pay Payout_credit (payoutKey (b_id y)) (Some (bet_ref (b_id y))) w = (Inr tx, w2)"
    and a: "adds w y (KK KPayout) w2"
    using y(4) by (auto simp: bamount_def btype_def bkey_def kind_key_def)
  let ?f = "\<lambda>b. b\<lparr>b_payoutTxId := Some (tx_id tx)\<rparr>"
  have y2: "y \<in> set (db_bets w2)" using a y(1) by (simp add: adds_def)
  have "books_ok (bet_set w2 (b_id y) ?f)"
    by (rule books_bet_set [OF but_adds [OF w a] y2])
      (use adds_present [OF a y(1)] y True in \<open>auto simp: keeps_def slot_def legal_def\<close>)
  with cr b p show ?thesis by (simp add: pay_claimed_def Let_def)
next
  case False
  then have cr: "ledger_credit (b_walletId y) pay Payout_credit (payoutKey (b_id y)) (Some (bet_ref (b_id y))) w
      = (Inl Amount_must_be_positive, w)" by (simp add: ledger_credit_def)
  have "books_ok (bet_set w (b_id y) (\<lambda>b. b\<lparr>b_status := Payout_pending\<rparr>))"
    by (rule books_bet_set [OF w y(1)]) (use y in \<open>auto simp: keeps_def slot_def legal_def\<close>)
  with cr b p show ?thesis by (simp add: pay_claimed_def Let_def)
qed

lemma cashout_books:
  assumes w: "books_ok w" and r: "race_ok (bc_race ctx)" and p: "bc_wallet ctx = ledgerProvider"
  shows "books_ok (snd (cashOut ctx u pn am w))"
proof (cases "in_phase ctx Running")
  case ph: (Some rid)
  define mult where "mult = (case am of None \<Rightarrow> bc_mult ctx | Some m \<Rightarrow> m)"
  show ?thesis
  proof (cases "find_slot w rid u pn")
    case bs: (Some b)
    show ?thesis
    proof (cases "b_status b = Active \<and> (\<exists>rd. find_round w (b_roundId b) = Some rd \<and>
        r_status rd = Running \<and> mult < r_crashPoint rd)")
      case True
      then obtain rd where act: "b_status b = Active" and rd: "find_round w (b_roundId b) = Some rd"
        "r_status rd = Running" "mult < r_crashPoint rd" by blast
      define pay where "pay = cashout_payout (bc_risk ctx) b mult"
      let ?f = "\<lambda>b. b\<lparr>b_status := Cashed_out, b_cashoutMult := Some mult, b_payout := pay,
          b_settledAt := Some (bc_now ctx)\<rparr>"
      have b: "b \<in> set (db_bets w)" using find_slot_bet [OF bs] by simp
      obtain n w1 where c: "bet_cas (bc_race ctx w) (b_id b) Active ?f = (n, w1)" by fastforce
      have res: "snd (cashOut ctx u pn am w) = (if n = 0 then w1
          else snd (pay_claimed ctx b mult pay (wallet_currency w (b_walletId b)) w1))"
        using ph bs act rd c
        by (simp add: cashOut_def Let_def mult_def [symmetric] pay_def [symmetric] split: prod.splits)
      show ?thesis
      proof (cases "n = 0")
        case True
        with cas_after_race_lost [OF w r] c res show ?thesis by simp
      next
        case False
        from cas_after_race [OF w r b act c False] obtain x where x: "x \<in> set (db_bets (bc_race ctx w))"
          "same_core b x" "b_status x = Active" "books_ok (bc_race ctx w)"
          and w1: "w1 = bet_set (bc_race ctx w) (b_id x) ?f" by blast
        have px: "present (bc_race ctx w) x = {KD}"
          using x(1,3,4) by (auto simp: books_ok_def legal_bet_def legal_def)
        have kp: "keeps (present (bc_race ctx w) x) x (?f x)" by (simp add: keeps_def slot_def px)
        note st = but_set [where f = ?f, OF books_but_I [OF x(4)] x(1) kp]
        have "books_ok (snd (pay_claimed ctx b mult pay (wallet_currency w (b_walletId b)) w1))"
          unfolding w1
          by (rule pay_claimed_books [where y = "?f x", OF _ in_bet_set [where f = ?f, OF x(1)]])
            (use st px x(2) p in \<open>simp_all add: same_core_def\<close>)
        with False res show ?thesis by simp
      qed
    qed (use ph bs w in \<open>auto simp: cashOut_def mult_def [symmetric] Let_def split: option.splits\<close>)
  qed (use ph w in \<open>simp add: cashOut_def Let_def\<close>)
qed (use w in \<open>simp add: cashOut_def\<close>)

lemma auto_books:
  assumes w: "books_ok w" and r: "race_ok (bc_race ctx)" and p: "bc_wallet ctx = ledgerProvider"
  shows "books_ok (snd (evaluateAutoCashouts ctx m w))"
proof -
  have "books_ok (snd (fold (auto_step ctx) bs (rs, v)))" if "books_ok v" for bs rs v
    using that
  proof (induction bs arbitrary: rs v)
    case (Cons b bs)
    obtain x v' where c: "cashOut ctx (b_userId b) (b_panel b) (b_autoCashout b) v = (x, v')" by fastforce
    have "books_ok v'" using cashout_books [OF Cons.prems r p] c by (metis snd_conv)
    moreover have "\<exists>rs'. auto_step ctx b (rs, v) = (rs', v')"
      using c by (simp add: auto_step_def split: sum.splits)
    ultimately show ?case using Cons.IH by (metis comp_def fold_simps(2))
  qed simp
  with w show ?thesis by (simp add: evaluateAutoCashouts_def split: option.splits)
qed

section \<open>Settling\<close>

lemma settle_books:
  assumes w: "books_ok w"
  shows "books_ok (snd (settleRound now rid w))"
proof -
  let ?P = "\<lambda>b. b_roundId b = rid \<and> b_status b = Active"
  let ?f = "\<lambda>b. b\<lparr>b_status := Busted, b_settledAt := Some now\<rparr>"
  let ?w = "w\<lparr>db_bets := update_where ?P ?f (db_bets w)\<rparr>"
  have kp: "keeps K b (?f b)" for K b by (simp add: keeps_def slot_def)
  have "struct_ok ?w" using w kp by (intro struct_update) (simp_all add: books_ok_def)
  moreover have "legal_bet ?w (if ?P b then ?f b else b)" if "b \<in> set (db_bets w)" for b
  proof -
    have "legal_bet w b" using w that by (simp add: books_ok_def)
    moreover have "present ?w (?f b) = present w b" "present ?w b = present w b"
      using keeps_bkey [OF kp] by (simp_all add: present_def has_key_def)
    ultimately have "?P b \<Longrightarrow> legal_bet ?w (?f b)" "legal_bet ?w b"
      by (simp_all add: legal_bet_def legal_def)
    then show ?thesis by presburger
  qed
  moreover have db: "db_bets ?w = update_where ?P ?f (db_bets w)" by simp
  ultimately have "books_ok ?w" unfolding books_ok_def db Ball_update_where by blast
  with w show ?thesis by (auto simp: settleRound_def Let_def)
qed

section \<open>Voiding\<close>

text \<open>One reversal leg of a void: a row for the key, or the player's balance does not cover it.\<close>

lemma reverse_adds:
  assumes s: "struct_ok w" and b: "b \<in> set (db_bets w)"
  shows "0 < b_payout b \<Longrightarrow>
      (\<exists>w'. ledger_reverse (b_walletId b) (void_reclaim_params b) w = (Inr (), w') \<and> adds w b (KK KVoidReclaim) w') \<or>
      ledger_reverse (b_walletId b) (void_reclaim_params b) w = (Inl Insufficient_balance, w)"
    and "\<exists>w'. ledger_reverse (b_walletId b) (void_refund_params b) w = (Inr (), w') \<and> adds w b (KK KVoidRefund) w'"
    and "\<exists>w'. ledger_reverse (b_walletId b) (restart_params b) w = (Inr (), w') \<and> adds w b (KK KRestart) w'"
proof -
  show "0 < b_payout b \<Longrightarrow>
      (\<exists>w'. ledger_reverse (b_walletId b) (void_reclaim_params b) w = (Inr (), w') \<and> adds w b (KK KVoidReclaim) w') \<or>
      ledger_reverse (b_walletId b) (void_reclaim_params b) w = (Inl Insufficient_balance, w)"
    using debit_adds [OF s b, of "KK KVoidReclaim"]
    by (auto simp: ledger_reverse_def void_reclaim_params_def bamount_def btype_def bkey_def kind_key_def)
  have pos: "0 < b_amount b" using struct_bet(1) [OF s b] by (simp add: wf_bet_def)
  then have c: "0 < bamount b (KK KVoidRefund)" "0 < bamount b (KK KRestart)" by (simp_all add: bamount_def)
  from credit_adds [OF s b c(1)] obtain tx w' where
    "ledger_credit (b_walletId b) (b_amount b) Refund (bkey b (KK KVoidRefund)) (Some (bet_ref (b_id b))) w = (Inr tx, w')"
    and a: "adds w b (KK KVoidRefund) w'" by (auto simp: bamount_def btype_def)
  then have "ledger_reverse (b_walletId b) (void_refund_params b) w = (Inr (), w')"
    by (simp add: ledger_reverse_def void_refund_params_def bkey_def kind_key_def)
  with a show "\<exists>w'. ledger_reverse (b_walletId b) (void_refund_params b) w = (Inr (), w') \<and> adds w b (KK KVoidRefund) w'"
    by blast
  from credit_adds [OF s b c(2)] obtain tx w' where
    "ledger_credit (b_walletId b) (b_amount b) Refund (bkey b (KK KRestart)) (Some (bet_ref (b_id b))) w = (Inr tx, w')"
    and a: "adds w b (KK KRestart) w'" by (auto simp: bamount_def btype_def)
  then have "ledger_reverse (b_walletId b) (restart_params b) w = (Inr (), w')"
    by (simp add: ledger_reverse_def restart_params_def bkey_def kind_key_def)
  with a show "\<exists>w'. ledger_reverse (b_walletId b) (restart_params b) w = (Inr (), w') \<and> adds w b (KK KRestart) w'"
    by blast
qed

text \<open>The refund leg and the final flip, once the payout is reclaimed or there is none.\<close>

lemma void_refund_leg:
  assumes w: "books_but (b_id b) w" and b: "b \<in> set (db_bets w)" "b_status b = Voiding"
    and k: "0 < b_payout b \<longrightarrow> present w b \<subseteq> {KD, KK KPayout, KK KVoidReclaim, KK KVoidRefund} \<and>
        {KD, KK KPayout, KK KVoidReclaim} \<subseteq> present w b"
      "\<not> 0 < b_payout b \<longrightarrow> b_payout b = 0 \<and> present w b \<subseteq> {KD, KK KVoidRefund} \<and> KD \<in> present w b"
  obtains w' where "ledger_reverse (b_walletId b) (void_refund_params b) w = (Inr (), w')"
    and "books_ok w'" and "db_bets w' = db_bets w"
    and "books_ok (bet_set w' (b_id b) (\<lambda>b. b\<lparr>b_status := Voided\<rparr>))"
proof -
  have s: "struct_ok w" using w by (simp add: books_but_def)
  from reverse_adds(2) [OF s b(1)] obtain w' where
    r: "ledger_reverse (b_walletId b) (void_refund_params b) w = (Inr (), w')" and a: "adds w b (KK KVoidRefund) w'"
    by blast
  have b': "b \<in> set (db_bets w')" and db: "db_bets w' = db_bets w" using a b(1) by (simp_all add: adds_def)
  have pr: "present w' b = insert (KK KVoidRefund) (present w b)" by (rule adds_present [OF a b(1)])
  have full: "present w' b = (if 0 < b_payout b then {KD, KK KPayout, KK KVoidReclaim, KK KVoidRefund}
      else {KD, KK KVoidRefund})"
    using k pr by auto
  note but = but_adds [OF w a]
  have "books_ok w'" using full k b(2) by (intro but_done [OF but b']) (simp add: legal_bet_def legal_def)
  moreover have "books_ok (bet_set w' (b_id b) (\<lambda>b. b\<lparr>b_status := Voided\<rparr>))"
    by (rule books_bet_set [OF but b']) (use full k in \<open>auto simp: keeps_def slot_def legal_def\<close>)
  ultimately show thesis using that r db by blast
qed

text \<open>Both legs, for a bet in \<open>voiding\<close>.\<close>

lemma void_legs:
  assumes w: "books_ok w" and b: "b \<in> set (db_bets w)" "b_status b = Voiding"
    and res: "performVoidReversals ledgerProvider b w = (x, w')"
  shows "books_ok w' \<and> db_bets w' = db_bets w \<and>
    (x = Inr () \<longrightarrow> books_ok (bet_set w' (b_id b) (\<lambda>b. b\<lparr>b_status := Voided\<rparr>)))"
proof -
  have s: "struct_ok w" and lg: "legal Voiding (b_payout b) (present w b)"
    using w b by (auto simp: books_ok_def legal_bet_def)
  show ?thesis
  proof (cases "0 < b_payout b")
    case True
    from reverse_adds(1) [OF s b(1) True] show ?thesis
    proof (elim disjE exE conjE)
      fix w1
      assume r: "ledger_reverse (b_walletId b) (void_reclaim_params b) w = (Inr (), w1)"
        and a: "adds w b (KK KVoidReclaim) w1"
      have b1: "b \<in> set (db_bets w1)" and db: "db_bets w1 = db_bets w" using a b(1) by (simp_all add: adds_def)
      have "present w1 b = insert (KK KVoidReclaim) (present w b)" by (rule adds_present [OF a b(1)])
      then have k: "present w1 b \<subseteq> {KD, KK KPayout, KK KVoidReclaim, KK KVoidRefund} \<and>
          {KD, KK KPayout, KK KVoidReclaim} \<subseteq> present w1 b"
        using lg True by (auto simp: legal_def)
      from void_refund_leg [OF but_adds [OF books_but_I [OF w] a] b1 b(2)] True k obtain w2 where
        "ledger_reverse (b_walletId b) (void_refund_params b) w1 = (Inr (), w2)" "books_ok w2"
        "db_bets w2 = db_bets w1" "books_ok (bet_set w2 (b_id b) (\<lambda>b. b\<lparr>b_status := Voided\<rparr>))"
        by metis
      with res r True db show ?thesis by (simp add: performVoidReversals_def)
    qed (use res True w in \<open>auto simp: performVoidReversals_def\<close>)
  next
    case False
    have k: "b_payout b = 0 \<and> present w b \<subseteq> {KD, KK KVoidRefund} \<and> KD \<in> present w b"
      using lg False by (auto simp: legal_def)
    from void_refund_leg [OF books_but_I [OF w] b] False k obtain w2 where
      "ledger_reverse (b_walletId b) (void_refund_params b) w = (Inr (), w2)" "books_ok w2"
      "db_bets w2 = db_bets w" "books_ok (bet_set w2 (b_id b) (\<lambda>b. b\<lparr>b_status := Voided\<rparr>))"
      by metis
    with res False show ?thesis by (simp add: performVoidReversals_def)
  qed
qed

lemma void_finish_books:
  assumes w: "books_ok w" and b: "b \<in> set (db_bets w)" "b_status b = Voiding"
    and res: "performVoidReversals ledgerProvider b w = (Inr (), w1)"
  shows "void_finish (b_id b) w1 = (1, bet_set w1 (b_id b) (\<lambda>b. b\<lparr>b_status := Voided\<rparr>)) \<and>
    books_ok (bet_set w1 (b_id b) (\<lambda>b. b\<lparr>b_status := Voided\<rparr>)) \<and> db_bets w1 = db_bets w"
proof -
  note l = void_legs [OF w b res]
  then have "struct_ok w1" "b \<in> set (db_bets w1)" using b by (simp_all add: books_ok_def)
  from bet_cas_eq [OF this] b(2) l show ?thesis by (simp add: void_finish_def)
qed

text \<open>A void claimed by the compare-and-swap, or resumed.\<close>

lemma void_run_books:
  assumes w: "books_ok w" and b: "b \<in> set (db_bets w)" "b_status b = Voiding"
  shows "books_ok (snd (performVoidReversals ledgerProvider b w))"
    and "fst (performVoidReversals ledgerProvider b w) = Inr () \<Longrightarrow>
      books_ok (snd (void_finish (b_id b) (snd (performVoidReversals ledgerProvider b w))))"
  using void_legs [OF w b, OF prod.collapse [symmetric]]
    void_finish_books [OF w b, of "snd (performVoidReversals ledgerProvider b w)"]
  by (auto simp: prod_eq_iff)

lemma perform_core:
  assumes "same_core b c" "b_payout c = b_payout b"
  shows "performVoidReversals p b w = performVoidReversals p c w"
proof -
  have d: "bet_debitKey c = bet_debitKey b" using assms by (auto simp: same_core_def slot_def bet_debitKey_def)
  have "void_reclaim_params b = void_reclaim_params c" "void_refund_params b = void_refund_params c"
    "b_walletId b = b_walletId c" "b_payout b = b_payout c"
    using assms d by (simp_all add: same_core_def void_reclaim_params_def void_refund_params_def)
  then show ?thesis unfolding performVoidReversals_def by presburger
qed

lemma void_books:
  assumes w: "books_ok w" and r: "race_ok (bc_race ctx)" and p: "bc_wallet ctx = ledgerProvider"
  shows "books_ok (snd (voidBet ctx oid i w))"
proof (cases "find_bet w i")
  case bs: (Some b)
  have b: "b \<in> set (db_bets w)" "b_id b = i" using find_bet_SomeD [OF bs] by auto
  let ?fin = "\<lambda>v. case performVoidReversals ledgerProvider b v of
      (Inl e, v1) \<Rightarrow> v1 | (Inr _, v1) \<Rightarrow> snd (void_finish i v1)"
  have fin: "books_ok (?fin v)"
    if "books_ok v" "c \<in> set (db_bets v)" "b_status c = Voiding" "same_core b c" "b_payout c = b_payout b" for v c
  proof -
    have e: "performVoidReversals ledgerProvider b v = performVoidReversals ledgerProvider c v"
      by (rule perform_core) (use that(4,5) in simp_all)
    have i: "b_id c = i" using that(4) b(2) by (simp add: same_core_def)
    obtain y v1 where y: "performVoidReversals ledgerProvider c v = (y, v1)" by fastforce
    show ?thesis
      using void_run_books [OF that(1-3)] unfolding e y i by (cases y) simp_all
  qed
  consider "b_operatorId b \<noteq> Some oid" | "b_operatorId b = Some oid" "b_status b = Voiding"
    | "b_operatorId b = Some oid" "b_status b = Busted \<or> b_status b = Cashed_out"
    | "b_operatorId b = Some oid" "b_status b \<notin> {Voiding, Busted, Cashed_out}" by blast
  then show ?thesis
  proof cases
    case 1
    with bs w show ?thesis by (simp add: voidBet_def Let_def)
  next
    case 2
    then have "snd (voidBet ctx oid i w) = ?fin w"
      using bs p by (simp add: voidBet_def Let_def split: prod.splits sum.splits)
    with fin [OF w b(1) 2(2)] show ?thesis by simp
  next
    case 3
    obtain n w1 where c: "bet_cas (bc_race ctx w) (b_id b) (b_status b) (\<lambda>b. b\<lparr>b_status := Voiding\<rparr>) = (n, w1)"
      by fastforce
    have res: "snd (voidBet ctx oid i w) = (if n = 0 then w1 else ?fin w1)"
      using bs p 3 c b(2) by (auto simp: voidBet_def Let_def split: prod.splits sum.splits)
    show ?thesis
    proof (cases "n = 0")
      case True
      with cas_after_race_lost [OF w r] c res show ?thesis by simp
    next
      case False
      let ?f = "\<lambda>b. b\<lparr>b_status := Voiding\<rparr>"
      from cas_after_race [OF w r b(1) refl c False] obtain x where x: "x \<in> set (db_bets (bc_race ctx w))"
        "same_core b x" "b_status x = b_status b" "b_payout x = b_payout b" "books_ok (bc_race ctx w)"
        and w1: "w1 = bet_set (bc_race ctx w) (b_id x) ?f" by blast
      have "legal (b_status x) (b_payout x) (present (bc_race ctx w) x)"
        using x(1,5) by (simp add: books_ok_def legal_bet_def)
      then have lg: "legal Voiding (b_payout x) (present (bc_race ctx w) x)"
        using 3(2) x(3) by (auto simp: legal_def)
      have "books_ok w1"
        unfolding w1 by (rule books_bet_set [OF books_but_I [OF x(5)] x(1)])
          (use lg in \<open>simp_all add: keeps_def slot_def\<close>)
      moreover have "?f x \<in> set (db_bets w1)" unfolding w1 by (rule in_bet_set [OF x(1)])
      moreover have "same_core b (?f x)" using x(2,4) by (auto simp: same_core_def slot_def)
      ultimately have "books_ok (?fin w1)" using x(4) by (intro fin [of w1 "?f x"]) simp_all
      with res False show ?thesis by simp
    qed
  next
    case 4
    with bs w show ?thesis by (cases "b_status b") (simp_all add: voidBet_def Let_def)
  qed
qed (use w in \<open>simp add: voidBet_def\<close>)

end
