(* ===== verification/VR_BookSweeps.thy ===== *)
theory VR_BookSweeps
  imports VR_BookOps
begin

text \<open>
  The sweeps keep the books: each works through a list of bets it read once, and a step for one bet
  leaves the rows of the others as they were.
\<close>

section \<open>Sweeps\<close>

text \<open>A sweep works through distinct rows it read once; each step leaves the other bets as they were.\<close>

definition others_kept :: "'o world \<Rightarrow> uid \<Rightarrow> 'o world \<Rightarrow> bool" where
  "others_kept w i w' \<longleftrightarrow> (\<forall>c \<in> set (db_bets w). b_id c \<noteq> i \<longrightarrow> c \<in> set (db_bets w'))"

lemma others_kept_simps [simp]:
  "others_kept w i w" "others_kept w i (bet_set w i f)" "others_kept w i (bet_delete w i)"
  by (simp_all add: others_kept_def others_bet_set bet_delete_def table_simps)

lemma others_cas: "others_kept w i (snd (bet_cas w i s f))"
proof -
  have "c \<in> set (update_where P f bs)" if "c \<in> set bs" "\<not> P c" for c P and bs :: "bet list"
    using that by (force simp: update_where_def)
  then show ?thesis by (simp add: others_kept_def bet_cas_def Let_def)
qed

lemma others_kept_bets: "db_bets w1 = db_bets w \<Longrightarrow> others_kept w1 i w2 \<Longrightarrow> others_kept w i w2"
  by (simp add: others_kept_def)

lemma fold_books:
  assumes step: "\<And>b s w. books_ok w \<Longrightarrow> b \<in> set (db_bets w) \<Longrightarrow> P b \<Longrightarrow>
      books_ok (snd (step b (s, w))) \<and> others_kept w (b_id b) (snd (step b (s, w)))"
    and "books_ok w" and "set bs \<subseteq> set (db_bets w)" and "distinct (map b_id bs)" and "\<forall>b \<in> set bs. P b"
  shows "books_ok (snd (fold step bs (s, w)))"
  using assms(2-)
proof (induction bs arbitrary: s w)
  case (Cons b bs)
  obtain s1 w1 where e: "step b (s, w) = (s1, w1)" by fastforce
  have k: "books_ok w1" "others_kept w (b_id b) w1" using step [of w b s] Cons.prems e by auto
  have "set bs \<subseteq> set (db_bets w1)"
  proof
    fix x assume x: "x \<in> set bs"
    then have "b_id x \<in> set (map b_id bs)" by simp
    then have "b_id x \<noteq> b_id b" using Cons.prems(3) by (metis distinct.simps(2) list.simps(9))
    with x k(2) Cons.prems(2) show "x \<in> set (db_bets w1)" unfolding others_kept_def by (meson list.set_intros(2) subset_iff)
  qed
  with Cons.IH [OF k(1)] Cons.prems e show ?case by simp
qed simp

lemma scan_bets:
  assumes "books_ok w"
  shows "set (take n (filter P (db_bets w))) \<subseteq> set (db_bets w)"
    and "distinct (map b_id (take n (filter P (db_bets w))))"
    and "\<forall>b \<in> set (take n (filter P (db_bets w))). P b"
    and "set (filter P (db_bets w)) \<subseteq> set (db_bets w)" and "distinct (map b_id (filter P (db_bets w)))"
    and "\<forall>b \<in> set (filter P (db_bets w)). P b"
proof -
  show d: "distinct (map b_id (filter P (db_bets w)))"
    using assms by (auto simp: books_ok_def struct_ok_def distinct_map intro: inj_on_subset)
  then show "distinct (map b_id (take n (filter P (db_bets w))))" by (simp add: take_map [symmetric])
qed (auto dest: in_set_takeD)

lemma void_step_world:
  "snd (void_step p b (s, w)) = (case performVoidReversals p b w of
     (Inl e, w1) \<Rightarrow> w1 | (Inr _, w1) \<Rightarrow> snd (void_finish (b_id b) w1))"
proof -
  obtain x w1 where "performVoidReversals p b w = (x, w1)" by fastforce
  then show ?thesis by (cases x; cases "void_finish (b_id b) w1") (simp_all add: void_step_def)
qed

lemma void_step_books:
  assumes v: "books_ok v" "b \<in> set (db_bets v)" "b_status b = Voiding"
  shows "books_ok (snd (void_step ledgerProvider b (s, v))) \<and>
    others_kept v (b_id b) (snd (void_step ledgerProvider b (s, v)))"
proof -
  obtain x v1 where r: "performVoidReversals ledgerProvider b v = (x, v1)" by fastforce
  have l: "books_ok v1" "db_bets v1 = db_bets v" using void_legs [OF v r] by simp_all
  show ?thesis
  proof (cases x)
    case (Inl e)
    with r l show ?thesis by (simp add: void_step_world others_kept_def)
  next
    case (Inr u)
    then have r': "performVoidReversals ledgerProvider b v = (Inr (), v1)" using r by simp
    note f = void_finish_books [OF v r']
    have "snd (void_step ledgerProvider b (s, v)) = bet_set v1 (b_id b) (\<lambda>b. b\<lparr>b_status := Voided\<rparr>)"
      using f r' by (simp add: void_step_world)
    with f others_kept_bets [OF l(2)] show ?thesis by simp
  qed
qed

lemma voiding_sweep_books:
  assumes w: "books_ok w"
  shows "books_ok (snd (reconcileVoidingBets ledgerProvider limit w))"
  unfolding reconcileVoidingBets_def
  by (rule fold_books [where P = "\<lambda>b. b_status b = Voiding", OF void_step_books w scan_bets(1-3) [OF w]])

lemma add_loot_bets: "db_bets (add_loot u p m w) = db_bets w"
  by (simp add: add_loot_def)

lemma pending_step_books:
  assumes v: "books_ok v" "b \<in> set (db_bets v)" "b_status b = Payout_pending"
  shows "books_ok (snd (pending_step ledgerProvider b (s, v))) \<and>
    others_kept v (b_id b) (snd (pending_step ledgerProvider b (s, v)))"
proof (cases "0 < b_payout b")
  case True
  have s: "struct_ok v" using v(1) by (simp add: books_ok_def)
  have lg: "legal Payout_pending (b_payout b) (present v b)"
    using v by (metis books_ok_def legal_bet_def)
  have pos: "0 < bamount b (KK KPayout)" using True by (simp add: bamount_def)
  from credit_adds [OF s v(2) pos] obtain tx v1 where
    cr: "ledger_credit (b_walletId b) (b_payout b) Payout_credit (payoutKey (b_id b)) (Some (bet_ref (b_id b))) v = (Inr tx, v1)"
    and a: "adds v b (KK KPayout) v1"
    by (auto simp: bamount_def btype_def bkey_def kind_key_def)
  let ?f = "\<lambda>x. x\<lparr>b_status := Cashed_out, b_payoutTxId := Some (tx_id tx)\<rparr>"
  have b1: "b \<in> set (db_bets v1)" "db_bets v1 = db_bets v" "struct_ok v1" using a v(2) by (simp_all add: adds_def)
  have pr: "present v1 b = {KD, KK KPayout}" using adds_present [OF a v(2)] lg by (auto simp: legal_def)
  have ok: "books_ok (bet_set v1 (b_id b) ?f)"
    by (rule books_bet_set [OF but_adds [OF books_but_I [OF v(1)] a] b1(1)])
      (simp_all add: pr keeps_def slot_def legal_def True)
  have cas: "bet_cas v1 (b_id b) Payout_pending ?f = (1, bet_set v1 (b_id b) ?f)"
    using bet_cas_eq [OF b1(3,1), of Payout_pending ?f] v(3) by simp
  have "snd (pending_step ledgerProvider b (s, v)) =
      add_loot (b_userId b) (b_payout b) (case b_cashoutMult b of None \<Rightarrow> 100 | Some m \<Rightarrow> m) (bet_set v1 (b_id b) ?f)"
    by (simp add: pending_step_def cr cas)
  then have "snd (pending_step ledgerProvider b (s, v)) = add_loot (b_userId b) (b_payout b)
      (case b_cashoutMult b of None \<Rightarrow> 100 | Some m \<Rightarrow> m) (bet_set v1 (b_id b) ?f)" .
  moreover have "others_kept v (b_id b) (bet_set v1 (b_id b) ?f)"
    using others_kept_bets [OF b1(2)] by simp
  then have "others_kept v (b_id b) (add_loot u p m (bet_set v1 (b_id b) ?f))" for u p m
    by (simp only: others_kept_def add_loot_bets)
  ultimately show ?thesis using ok by (simp only: books_profiles simp_thms)
next
  case False
  then have "snd (pending_step ledgerProvider b (s, v)) = v"
    by (simp add: pending_step_def ledger_credit_def)
  with v show ?thesis by simp
qed

lemma pending_sweep_books:
  assumes w: "books_ok w"
  shows "books_ok (snd (reconcilePendingPayouts ledgerProvider limit w))"
  unfolding reconcilePendingPayouts_def
  by (rule fold_books [where P = "\<lambda>b. b_status b = Payout_pending", OF pending_step_books w scan_bets(1-3) [OF w]])

end
