(* ===== verification/VR_BookRecovery.thy ===== *)
theory VR_BookRecovery
  imports VR_BookSweeps
begin

text \<open>
  The recovery of the engine and the placing of a bet keep the books: a stranded reservation is
  released or refunded, the open bets of a closed round are refunded, and a bet that is placed ends
  active with its stake in the journal, or leaves nothing behind but a reservation.
\<close>

section \<open>Releasing a reservation\<close>

lemma restart_adds:
  assumes w: "books_ok w" and b: "b \<in> set (db_bets w)"
  obtains tx w' where "ledger_credit (b_walletId b) (b_amount b) Refund (restartRefundKey (b_id b))
      (Some (bet_ref (b_id b))) w = (Inr tx, w')" and "adds w b (KK KRestart) w'"
proof -
  have s: "struct_ok w" using w by (simp add: books_ok_def)
  then have pos: "0 < bamount b (KK KRestart)" using struct_bet(1) [OF s b] by (simp add: wf_bet_def bamount_def)
  from credit_adds [OF s b pos] that show thesis
    by (auto simp: bamount_def btype_def bkey_def kind_key_def)
qed

text \<open>A refund row on an active or cancelling bet with a debit, followed by the final status.\<close>

lemma restart_cancel:
  assumes w: "books_ok w" and b: "b \<in> set (db_bets w)" and a: "adds w b (KK KRestart) w'"
    and p: "b_payout b = 0" and k: "present w b = {KD} \<or> present w b = {KD, KK KRestart}"
  shows "books_ok (bet_set w' (b_id b) (set_cancelled now))"
    and "others_kept w (b_id b) (bet_set w' (b_id b) (set_cancelled now))"
proof -
  have b': "b \<in> set (db_bets w')" "db_bets w' = db_bets w" using a b by (simp_all add: adds_def)
  have "present w' b = {KD, KK KRestart}" using adds_present [OF a b] k by auto
  then show "books_ok (bet_set w' (b_id b) (set_cancelled now))"
    by (intro books_bet_set [OF but_adds [OF books_but_I [OF w] a] b'(1)])
      (simp_all add: p keeps_def slot_def legal_def set_cancelled_def)
  show "others_kept w (b_id b) (bet_set w' (b_id b) (set_cancelled now))"
    using others_kept_bets [OF b'(2)] by simp
qed

lemma KD_present: "KD \<in> present w b \<longleftrightarrow> find_key w (bet_debitKey b) \<noteq> None"
  using find_key_None_iff [of w "bet_debitKey b"] by (auto simp: present_def bkey_def)

lemma release_unpaid_books:
  assumes w: "books_ok w" and b: "b \<in> set (db_bets w)" and none: "present w b = {}"
  shows "books_ok (bet_delete w (b_id b))"
proof -
  have "legal_bet (bet_delete w (b_id b)) c" if "c \<in> set (db_bets (bet_delete w (b_id b)))" for c
  proof -
    have "c \<in> set (db_bets w)" using that by (auto simp: bet_delete_def table_simps)
    moreover have "present (bet_delete w (b_id b)) c = present w c"
      by (simp add: present_def has_key_def bet_delete_def)
    ultimately show ?thesis using w by (simp add: books_ok_def legal_bet_def)
  qed
  then show ?thesis using struct_delete [OF _ b none] w by (simp add: books_ok_def)
qed

lemma release_books:
  assumes w: "books_ok w" and b: "b \<in> set (db_bets w)" "b_status b = Cancelling"
  shows "books_ok (snd (release_slot ledgerProvider now b (n, w))) \<and>
    others_kept w (b_id b) (snd (release_slot ledgerProvider now b (n, w)))"
proof -
  have s: "struct_ok w" using w by (simp add: books_ok_def)
  have lg: "legal Cancelling (b_payout b) (present w b)" using w b by (metis books_ok_def legal_bet_def)
  show ?thesis
  proof (cases "find_key w (bet_debitKey b)")
    case None
    then have "KD \<notin> present w b" by (simp add: KD_present)
    then have none: "present w b = {}" using lg by (auto simp: legal_def)
    have "books_ok (bet_delete w (b_id b))" by (rule release_unpaid_books [OF w b(1) none])
    moreover have "snd (release_slot ledgerProvider now b (n, w)) = bet_delete w (b_id b)"
      by (simp add: release_slot_def ledger_rollback_def None)
    ultimately show ?thesis by simp
  next
    case (Some row)
    then have "KD \<in> present w b" by (simp add: KD_present)
    then have k: "b_payout b = 0" "present w b = {KD} \<or> present w b = {KD, KK KRestart}"
      using lg by (auto simp: legal_def)
    from restart_adds [OF w b(1)] obtain tx w' where
      cr: "ledger_credit (b_walletId b) (b_amount b) Refund (restartRefundKey (b_id b)) (Some (bet_ref (b_id b))) w = (Inr tx, w')"
      and a: "adds w b (KK KRestart) w'" by blast
    have "snd (release_slot ledgerProvider now b (n, w)) = bet_set w' (b_id b) (set_cancelled now)"
      by (simp add: release_slot_def ledger_rollback_def Some cr)
    with restart_cancel [OF w b(1) a k] show ?thesis by simp
  qed
qed

lemma same_release: "b_id c = b_id b \<Longrightarrow> slot c = slot b \<Longrightarrow> b_walletId c = b_walletId b \<Longrightarrow>
    b_amount c = b_amount b \<Longrightarrow> release_slot p now b st = release_slot p now c st"
proof -
  assume a: "b_id c = b_id b" "slot c = slot b" "b_walletId c = b_walletId b" "b_amount c = b_amount b"
  then have "bet_debitKey c = bet_debitKey b" by (simp add: slot_def bet_debitKey_def)
  then show ?thesis by (simp only: release_slot_def a)
qed

lemma recover_slot_books:
  assumes w: "books_ok w" and b: "b \<in> set (db_bets w)" "b_status b = Reserving \<or> b_status b = Cancelling"
  shows "books_ok (snd (recover_slot ledgerProvider id now b (n, w))) \<and>
    others_kept w (b_id b) (snd (recover_slot ledgerProvider id now b (n, w)))"
proof (cases "b_status b = Reserving")
  case True
  let ?f = "\<lambda>x. x\<lparr>b_status := Cancelling\<rparr>"
  let ?w = "bet_set w (b_id b) ?f"
  have s: "struct_ok w" using w by (simp add: books_ok_def)
  have lg: "legal Reserving (b_payout b) (present w b)" using w b True by (metis books_ok_def legal_bet_def)
  have w1: "books_ok ?w"
    by (rule books_bet_set [OF books_but_I [OF w] b(1)]) (use lg in \<open>auto simp: keeps_def slot_def legal_def\<close>)
  have cas: "bet_cas w (b_id b) Reserving ?f = (1, ?w)" using bet_cas_eq [OF s b(1), of Reserving ?f] True by simp
  have e: "snd (recover_slot ledgerProvider id now b (n, w)) = snd (release_slot ledgerProvider now (?f b) (n, ?w))"
  proof -
    have "release_slot ledgerProvider now b (n, ?w) = release_slot ledgerProvider now (?f b) (n, ?w)"
      by (rule same_release) (simp_all add: slot_def)
    moreover have "recover_slot ledgerProvider id now b (n, w) = release_slot ledgerProvider now b (n, ?w)"
      by (simp add: recover_slot_def True cas)
    ultimately show ?thesis by argo
  qed
  have r: "books_ok (snd (release_slot ledgerProvider now (?f b) (n, ?w)))"
    "others_kept ?w (b_id b) (snd (release_slot ledgerProvider now (?f b) (n, ?w)))"
    using release_books [OF w1 in_bet_set [where f = ?f, OF b(1)]] by simp_all
  have "others_kept w (b_id b) ?w" by simp
  then show ?thesis using r by (simp add: e others_kept_def)
next
  case False
  then show ?thesis using release_books [OF w b(1)] b(2) by (simp add: recover_slot_def)
qed

lemma recover_reserving_books:
  assumes w: "books_ok w"
  shows "books_ok (snd (recoverReservingBets ledgerProvider id now olderThanMs w))"
  unfolding recoverReservingBets_def stale_slots_def
  by (rule fold_books [where P = "\<lambda>b. (b_status b = Reserving \<or> b_status b = Cancelling) \<and>
        (olderThanMs > 0 \<longrightarrow> b_createdAt b < now - olderThanMs)", OF recover_slot_books w scan_bets(4-6) [OF w]]) auto

section \<open>Refunding active bets\<close>

lemma restart_reverse: "ledger_reverse (b_walletId b) (restart_params b) w =
    map_res (\<lambda>_. ()) (ledger_credit (b_walletId b) (b_amount b) Refund (restartRefundKey (b_id b))
      (Some (bet_ref (b_id b))) w)"
  by (simp add: ledger_reverse_def restart_params_def)

lemma active_present:
  "books_ok w \<Longrightarrow> b \<in> set (db_bets w) \<Longrightarrow> b_status b = Active \<Longrightarrow> b_payout b = 0 \<and> present w b = {KD}"
  by (auto simp: books_ok_def legal_bet_def legal_def)

lemma heal_books:
  assumes w: "books_ok w" and b: "b \<in> set (db_bets w)" "b_status b = Active"
  shows "books_ok (snd (heal_active ledgerProvider now b (n, w))) \<and>
    others_kept w (b_id b) (snd (heal_active ledgerProvider now b (n, w)))"
    and "books_ok (close_bet ledgerProvider now b w) \<and> others_kept w (b_id b) (close_bet ledgerProvider now b w)"
proof -
  note k = active_present [OF w b]
  from restart_adds [OF w b(1)] obtain tx w' where
    cr: "ledger_credit (b_walletId b) (b_amount b) Refund (restartRefundKey (b_id b)) (Some (bet_ref (b_id b))) w = (Inr tx, w')"
    and a: "adds w b (KK KRestart) w'" by blast
  have b': "b \<in> set (db_bets w')" "struct_ok w'" using a b(1) by (simp_all add: adds_def)
  have "snd (heal_active ledgerProvider now b (n, w)) = bet_set w' (b_id b) (set_cancelled now)"
    using bet_cas_eq [OF b'(2,1), of Active "set_cancelled now"] b(2)
    by (simp add: heal_active_def restart_reverse cr)
  moreover have "close_bet ledgerProvider now b w = bet_set w' (b_id b) (set_cancelled now)"
    by (simp add: close_bet_def restart_reverse cr)
  ultimately show "books_ok (snd (heal_active ledgerProvider now b (n, w))) \<and>
      others_kept w (b_id b) (snd (heal_active ledgerProvider now b (n, w)))"
    and "books_ok (close_bet ledgerProvider now b w) \<and> others_kept w (b_id b) (close_bet ledgerProvider now b w)"
    using restart_cancel [OF w b(1) a] k by simp_all
qed

lemma stranded_books:
  assumes w: "books_ok w"
  shows "books_ok (snd (recoverStrandedActiveBets ledgerProvider now olderThanMs w))"
  unfolding recoverStrandedActiveBets_def stranded_active_def
  by (rule fold_books [OF _ w scan_bets(1-3) [OF w]]) (use heal_books(1) in blast)

lemma books_rounds [simp]: "books_ok (w\<lparr>db_rounds := rs\<rparr>) = books_ok w"
  by (rule books_cong) simp_all

lemma books_round_set [simp]: "books_ok (round_set i f w) = books_ok w"
  by (simp add: round_set_def)

lemma close_round_books:
  assumes w: "books_ok w"
  shows "books_ok (closeAndRefundRound ledgerProvider now roundId w)"
proof -
  have "books_ok (fold (close_bet ledgerProvider now) bs v)"
    if "books_ok v" "set bs \<subseteq> set (db_bets v)" "distinct (map b_id bs)" "\<forall>b \<in> set bs. b_status b = Active"
    for bs and v :: "'a world"
  proof -
    have "snd (fold (\<lambda>b (s, w). (s, close_bet ledgerProvider now b w)) bs ((), v)) =
        fold (close_bet ledgerProvider now) bs v"
      by (induction bs arbitrary: v) simp_all
    moreover have "books_ok (snd (fold (\<lambda>b (s, w). (s, close_bet ledgerProvider now b w)) bs ((), v)))"
      by (rule fold_books [where P = "\<lambda>b. b_status b = Active", OF _ that]) (use heal_books(2) in simp)
    ultimately show ?thesis by simp
  qed
  from this [OF w scan_bets(4,5) [OF w]] show ?thesis by (simp add: closeAndRefundRound_def)
qed

lemma stale_extra_books: "books_ok w \<Longrightarrow> books_ok (closeStaleExtra ledgerProvider now r w)"
  by (simp add: closeStaleExtra_def Let_def settle_books close_round_books)

lemma interrupted_books:
  assumes w: "books_ok w"
  shows "books_ok (recoverInterruptedRounds ledgerProvider id now w)"
proof -
  have "books_ok (fold (\<lambda>r. closeAndRefundRound ledgerProvider now (r_id r)) rs v)" if "books_ok v" for rs v
    using that by (induction rs arbitrary: v) (simp_all add: close_round_books)
  from this [OF stranded_books [OF recover_reserving_books [OF w]]] show ?thesis
    unfolding recoverInterruptedRounds_def Let_def .
qed

end
