(* ===== verification/VR_Game.thy ===== *)
theory VR_Game
  imports VR_Recovery
begin

text \<open>
  Runs of the money side of the game: every handler of the bet service, every sweep and every recovery
  action is one \<open>game_op\<close>, and \<open>game_steps p w v\<close> says that requests served with wallet provider \<open>p\<close>
  may take the database from \<open>w\<close> to \<open>v\<close>. Handlers that compare-and-swap a row they read earlier take
  what happened in between as \<open>bc_race\<close>; a run lets that be any run of its own, which does not give
  an id that is in the table at its start to a new bet. The writes of the engine to the round table are arbitrary here.
\<close>

datatype 'o game_op =
    Place place_faults "'o bets_ctx" place_args uid
  | Cancel "'o bets_ctx" uid panel
  | Cash_out "'o bets_ctx" uid panel "int option"
  | Auto "'o bets_ctx" int
  | Settle int uid
  | Void "'o bets_ctx" uid uid
  | Sweep_voiding nat
  | Sweep_payouts nat
  | Sweep_reserving int int
  | Sweep_active int int
  | Close_round int uid
  | Close_stale int round
  | Boot int
  | Demo_reset uid int string
  | Rounds "round list \<Rightarrow> round list"

text \<open>A new session in play money puts the wallet back to its bankroll, always on the ledger.\<close>

definition demo_reset :: "uid \<Rightarrow> int \<Rightarrow> string \<Rightarrow> 'o world \<Rightarrow> 'o world" where
  "demo_reset walletId target sessionId w =
     snd (ledger_resetTo id id w walletId target (''demo:reset:'' @ sessionId)
       (Some \<lparr>refType = Some ''demo_reset'', refId = Some walletId\<rparr>))"

fun game_do :: "'o wallet_provider \<Rightarrow> 'o game_op \<Rightarrow> 'o world \<Rightarrow> 'o world" where
  "game_do p (Place f ctx a i) w = snd (placeBet f (ctx\<lparr>bc_wallet := p\<rparr>) a i w)"
| "game_do p (Cancel ctx u pn) w = snd (cancelBet (ctx\<lparr>bc_wallet := p\<rparr>) u pn w)"
| "game_do p (Cash_out ctx u pn m) w = snd (cashOut (ctx\<lparr>bc_wallet := p\<rparr>) u pn m w)"
| "game_do p (Auto ctx m) w = snd (evaluateAutoCashouts (ctx\<lparr>bc_wallet := p\<rparr>) m w)"
| "game_do p (Settle now r) w = snd (settleRound now r w)"
| "game_do p (Void ctx oid i) w = snd (voidBet (ctx\<lparr>bc_wallet := p\<rparr>) oid i w)"
| "game_do p (Sweep_voiding n) w = snd (reconcileVoidingBets p n w)"
| "game_do p (Sweep_payouts n) w = snd (reconcilePendingPayouts p n w)"
| "game_do p (Sweep_reserving now ms) w = snd (recoverReservingBets p id now ms w)"
| "game_do p (Sweep_active now ms) w = snd (recoverStrandedActiveBets p now ms w)"
| "game_do p (Close_round now r) w = closeAndRefundRound p now r w"
| "game_do p (Close_stale now r) w = closeStaleExtra p now r w"
| "game_do p (Boot now) w = recoverInterruptedRounds p id now w"
| "game_do p (Demo_reset i t s) w = demo_reset i t s w"
| "game_do p (Rounds f) w = w\<lparr>db_rounds := f (db_rounds w)\<rparr>"

fun op_race :: "'o game_op \<Rightarrow> 'o world \<Rightarrow> 'o world" where
  "op_race (Cancel ctx u pn) = bc_race ctx"
| "op_race (Cash_out ctx u pn m) = bc_race ctx"
| "op_race (Auto ctx m) = bc_race ctx"
| "op_race (Void ctx oid i) = bc_race ctx"
| "op_race _ = id"

text \<open>
  What is asked of a request: a new bet has one of the free ids \<open>N\<close>, not in use yet, ids contain no
  colon, and the configured minimum stakes are positive.
\<close>

definition bet_ids :: "'o world \<Rightarrow> uid set" where
  "bet_ids w = b_id ` set (db_bets w)"

definition place_ok :: "'o bets_ctx \<Rightarrow> place_args \<Rightarrow> uid \<Rightarrow> bool" where
  "place_ok ctx a i \<longleftrightarrow> colon_free i \<and> colon_free (pa_userId a) \<and>
     (case bc_state ctx of None \<Rightarrow> True | Some v \<Rightarrow> colon_free (ev_roundId v)) \<and>
     0 < rl_minBet (bc_risk ctx) \<and> (case pa_limits a of None \<Rightarrow> True | Some l \<Rightarrow> 0 < pb_minBet l)"

fun op_ok :: "uid set \<Rightarrow> 'o game_op \<Rightarrow> 'o world \<Rightarrow> bool" where
  "op_ok N (Place f ctx a i) v \<longleftrightarrow> i \<in> N \<and> i \<notin> bet_ids v \<and> place_ok ctx a i"
| "op_ok N _ v \<longleftrightarrow> True"

inductive game_steps :: "'o wallet_provider \<Rightarrow> uid set \<Rightarrow> 'o world \<Rightarrow> 'o world \<Rightarrow> bool" for p where
  stop: "game_steps p N w w"
| step: "game_steps p N w v \<Longrightarrow> op_ok N op v \<Longrightarrow>
    (\<forall>u. game_steps p (N - bet_ids u) u (op_race op u)) \<Longrightarrow> game_steps p N w (game_do p op v)"

text \<open>A quiet operation has nothing happening in between.\<close>

lemma quiet_step: "game_steps p N w v \<Longrightarrow> op_ok N op v \<Longrightarrow> op_race op = id \<Longrightarrow> game_steps p N w (game_do p op v)"
  by (rule game_steps.step) (simp_all add: game_steps.stop)

end
