(* ===== verification/VR_Lifecycle.thy ===== *)
theory VR_Lifecycle
  imports VR_Game
begin

text \<open>
  The life of a bet row. \<open>next_status\<close> is the graph of the status changes the handlers make, \<open>evolves\<close>
  says that every bet of a later database either descends from a bet of the earlier one along that
  graph, with its identity, stake and limits unchanged and a settled payout fixed, or has one of the
  ids \<open>N\<close> that were free to be given to new bets. Every
  operation of a run evolves N the bets, whatever the wallet answers, as long as the wallet keeps to its
  frame, that is, does not touch the game's own tables.
\<close>

section \<open>The status graph\<close>

fun next_status :: "bet_status \<Rightarrow> bet_status list" where
  "next_status Reserving = [Active, Cancelling]"
| "next_status Cancelling = [Cancelled]"
| "next_status Active = [Cashed_out, Busted, Cancelled]"
| "next_status Cashed_out = [Payout_pending, Voiding]"
| "next_status Payout_pending = [Cashed_out]"
| "next_status Busted = [Voiding]"
| "next_status Voiding = [Voided]"
| "next_status Voided = []"
| "next_status Cancelled = []"

fun advances :: "bet_status \<Rightarrow> bet_status \<Rightarrow> bool" where
  "advances Reserving t = True"
| "advances Cancelling t = (t \<in> {Cancelling, Cancelled})"
| "advances Active t = (t \<notin> {Reserving, Cancelling})"
| "advances Cashed_out t = (t \<in> {Cashed_out, Payout_pending, Voiding, Voided})"
| "advances Payout_pending t = (t \<in> {Cashed_out, Payout_pending, Voiding, Voided})"
| "advances Busted t = (t \<in> {Busted, Voiding, Voided})"
| "advances Voiding t = (t \<in> {Voiding, Voided})"
| "advances Voided t = (t = Voided)"
| "advances Cancelled t = (t = Cancelled)"

lemma advances_refl [simp]: "advances s s"
  by (cases s) simp_all

lemma advances_trans: "advances s t \<Longrightarrow> advances t u \<Longrightarrow> advances s u"
  by (cases s; cases t; simp; cases u; simp)

text \<open>Still at stake: no outcome was booked on the bet row.\<close>

definition undecided :: "bet_status \<Rightarrow> bool" where
  "undecided s \<longleftrightarrow> s \<in> {Reserving, Cancelling, Active}"

lemma undecided_back: "advances s t \<Longrightarrow> undecided t \<Longrightarrow> undecided s"
  by (cases s; cases t) (simp_all add: undecided_def)

definition same_ident :: "bet \<Rightarrow> bet \<Rightarrow> bool" where
  "same_ident b c \<longleftrightarrow> b_id c = b_id b \<and> b_roundId c = b_roundId b \<and> b_userId c = b_userId b \<and>
     b_walletId c = b_walletId b \<and> b_panel c = b_panel b \<and> b_amount c = b_amount b \<and>
     b_autoCashout c = b_autoCashout b \<and> b_demo c = b_demo b \<and> b_operatorId c = b_operatorId b \<and>
     b_currency c = b_currency b \<and> b_maxWinPerBet c = b_maxWinPerBet b \<and> b_createdAt c = b_createdAt b"

definition evolve :: "bet \<Rightarrow> bet \<Rightarrow> bool" where
  "evolve b c \<longleftrightarrow> same_ident b c \<and> advances (b_status b) (b_status c) \<and>
     (undecided (b_status b) \<and> \<not> undecided (b_status c) \<or> b_payout c = b_payout b)"

lemma evolve_refl [simp]: "evolve b b"
  by (simp add: evolve_def same_ident_def)

lemma evolve_trans: "evolve b c \<Longrightarrow> evolve c d \<Longrightarrow> evolve b d"
  unfolding evolve_def same_ident_def
  by (elim conjE, intro conjI) (simp_all, metis advances_trans, metis undecided_back)

lemma evolve_id: "evolve b c \<Longrightarrow> b_id c = b_id b"
  by (simp add: evolve_def same_ident_def)

section \<open>Databases\<close>

definition bets_distinct :: "'o world \<Rightarrow> bool" where
  "bets_distinct w \<longleftrightarrow> distinct (map b_id (db_bets w))"

definition evolves :: "uid set \<Rightarrow> 'o world \<Rightarrow> 'o world \<Rightarrow> bool" where
  "evolves N w w' \<longleftrightarrow> bets_distinct w' \<and>
     (\<forall>c \<in> set (db_bets w'). b_id c \<in> N \<or> (\<exists>b \<in> set (db_bets w). evolve b c))"

lemma evolves_refl: "bets_distinct w \<Longrightarrow> evolves N w w"
  unfolding evolves_def by (meson evolve_refl)

lemma evolves_trans: "evolves N w v \<Longrightarrow> evolves N v u \<Longrightarrow> evolves N w u"
  unfolding evolves_def by (metis evolve_trans evolve_id)

lemma evolves_subset: "evolves M w v \<Longrightarrow> M \<subseteq> N \<Longrightarrow> evolves N w v"
  unfolding evolves_def by blast

lemma evolves_mono: "evolves {} w v \<Longrightarrow> evolves N w v"
  by (rule evolves_subset [OF _ empty_subsetI])

lemma evolves_distinct: "evolves N w w' \<Longrightarrow> bets_distinct w'"
  by (simp add: evolves_def)

lemma bets_distinct_eq:
  "bets_distinct w \<Longrightarrow> b \<in> set (db_bets w) \<Longrightarrow> c \<in> set (db_bets w) \<Longrightarrow> b_id b = b_id c \<Longrightarrow> b = c"
  unfolding bets_distinct_def by (metis distinct_key_eq)

lemma evolves_bets: "bets_distinct w \<Longrightarrow> db_bets w' = db_bets w \<Longrightarrow> evolves N w w'"
  unfolding evolves_def bets_distinct_def by (metis evolve_refl)

lemma evolves_same: "bets_distinct w \<Longrightarrow> game_same w w' \<Longrightarrow> evolves N w w'"
  by (rule evolves_bets) (simp_all add: game_same_def)

text \<open>The descendant of a bet, by its id.\<close>

lemma evolves_find:
  "evolves N w w' \<Longrightarrow> bets_distinct w \<Longrightarrow> b_id b \<notin> N \<Longrightarrow> b \<in> set (db_bets w) \<Longrightarrow> c \<in> set (db_bets w') \<Longrightarrow>
   b_id c = b_id b \<Longrightarrow> evolve b c"
  unfolding evolves_def by (metis bets_distinct_eq evolve_id)

lemma evolves_update:
  assumes d: "bets_distinct w" and up: "\<And>b. b \<in> set (db_bets w) \<Longrightarrow> P b \<Longrightarrow> evolve b (f b)"
    and db: "db_bets w' = update_where P f (db_bets w)"
  shows "evolves N w w'"
proof -
  have e: "evolve b (if P b then f b else b)" if "b \<in> set (db_bets w)" for b using up that by simp
  then have "map b_id (db_bets w') = map b_id (db_bets w)"
    unfolding db update_where_def using evolve_id by (simp add: map_eq_conv)
  then have "bets_distinct w'" using d by (simp add: bets_distinct_def)
  moreover have "\<exists>b \<in> set (db_bets w). evolve b c" if c: "c \<in> set (db_bets w')" for c
  proof -
    from c obtain b where "b \<in> set (db_bets w)" "c = (if P b then f b else b)"
      unfolding db update_where_def by auto
    with e show ?thesis by blast
  qed
  ultimately show ?thesis by (simp add: evolves_def)
qed

lemma evolves_cas:
  assumes d: "bets_distinct w" and f: "\<And>b. b_status b = st \<Longrightarrow> evolve b (f b)"
    and c: "bet_cas w i st f = (n, w')"
  shows "evolves N w w'"
  by (rule evolves_update [OF d, where P = "\<lambda>b. b_id b = i \<and> b_status b = st" and f = f])
    (use f c in \<open>auto simp: bet_cas_def Let_def\<close>)

lemma evolves_set:
  assumes d: "bets_distinct w" and f: "\<And>b. b \<in> set (db_bets w) \<Longrightarrow> b_id b = i \<Longrightarrow> evolve b (f b)"
  shows "evolves N w (bet_set w i f)"
  by (rule evolves_update [OF d, where P = "\<lambda>b. b_id b = i" and f = f]) (use f in \<open>auto simp: bet_set_def\<close>)

lemma evolves_delete:
  assumes d: "bets_distinct w"
  shows "evolves N w (bet_delete w i)"
proof -
  have "set (db_bets (bet_delete w i)) \<subseteq> set (db_bets w)"
    by (simp add: bet_delete_def delete_where_subset)
  moreover have "bets_distinct (bet_delete w i)"
    using d by (simp add: bets_distinct_def bet_delete_def distinct_map_delete_where)
  ultimately show ?thesis unfolding evolves_def by (meson evolve_refl subset_iff)
qed

text \<open>After a compare-and-swap that hit, the bet with that id carries the update.\<close>

lemma cas_status:
  assumes d: "bets_distinct w" and f: "\<And>b. b_id (f b) = b_id b" and c: "bet_cas w i st f = (n, w')" "n \<noteq> 0"
    and x: "x \<in> set (db_bets w')" "b_id x = i"
  shows "\<exists>b \<in> set (db_bets w). b_id b = i \<and> b_status b = st \<and> x = f b"
proof -
  let ?P = "\<lambda>b. b_id b = i \<and> b_status b = st"
  have w': "db_bets w' = update_where ?P f (db_bets w)" "count_where ?P (db_bets w) = n"
    using c by (auto simp: bet_cas_def Let_def)
  then have "count_where ?P (db_bets w) \<noteq> 0" using c(2) by simp
  then obtain b where b: "b \<in> set (db_bets w)" "?P b" unfolding count_where_0_iff by blast
  from x(1) obtain y where y: "y \<in> set (db_bets w)" "x = (if ?P y then f y else y)"
    unfolding w'(1) update_where_def by auto
  have "b_id y = i" using x(2) y(2) f [of y] by (cases "?P y") simp_all
  then have "y = b" using bets_distinct_eq [OF d y(1) b(1)] b(2) by simp
  with b y(2) have "x = f b" by simp
  with b show ?thesis by blast
qed

section \<open>The handlers\<close>

definition race_evolves :: "uid set \<Rightarrow> ('o world \<Rightarrow> 'o world) \<Rightarrow> bool" where
  "race_evolves N race \<longleftrightarrow> (\<forall>w. bets_distinct w \<longrightarrow> evolves N w (race w))"

lemma race_evolves_id [simp]: "race_evolves N id"
  by (simp add: race_evolves_def evolves_refl)

lemmas evolve_simps = evolve_def same_ident_def undecided_def

lemma settle_evolves: "bets_distinct w \<Longrightarrow> evolves N w (snd (settleRound now r w))"
proof -
  assume d: "bets_distinct w"
  let ?P = "\<lambda>b. b_roundId b = r \<and> b_status b = Active"
  have "evolves N w (w\<lparr>db_bets := update_where ?P (\<lambda>b. b\<lparr>b_status := Busted, b_settledAt := Some now\<rparr>) (db_bets w)\<rparr>)"
    by (rule evolves_update [OF d]) (auto simp: evolve_simps)
  with d show ?thesis by (auto simp: settleRound_def Let_def evolves_refl)
qed

lemma loot_evolves: "bets_distinct w \<Longrightarrow> evolves N w (add_loot u p m w)"
  by (rule evolves_bets) (simp_all add: add_loot_def)


context wallet_frame
begin

lemma debit_evolves: "bets_distinct w \<Longrightarrow> wp_debit provider i a t k r w = (x, w') \<Longrightarrow> evolves N w w'"
  using evolves_same [OF _ debit_frame] .

lemma credit_evolves: "bets_distinct w \<Longrightarrow> wp_credit provider i a t k r w = (x, w') \<Longrightarrow> evolves N w w'"
  using evolves_same [OF _ credit_frame] .

lemma reverse_evolves: "bets_distinct w \<Longrightarrow> wp_reverse provider i ps w = (x, w') \<Longrightarrow> evolves N w w'"
  using evolves_same [OF _ reverse_frame] .

lemma rollback_frame: "wp_rollback provider i k r w = (x, w') \<Longrightarrow> game_same w w'"
  using exec_frame [of w i "WRollback k r"] by simp

lemma rollback_evolves: "bets_distinct w \<Longrightarrow> wp_rollback provider i k r w = (x, w') \<Longrightarrow> evolves N w w'"
  using evolves_same [OF _ rollback_frame] .

lemma cancel_evolves:
  assumes d: "bets_distinct w" and r: "race_evolves N (bc_race ctx)" and p: "bc_wallet ctx = provider"
  shows "evolves N w (snd (cancelBet ctx u pn w))"
proof (cases "in_phase ctx Betting")
  case ph: (Some rid)
  show ?thesis
  proof (cases "find_slot w rid u pn")
    case bs: (Some b)
    let ?f = "\<lambda>b. b\<lparr>b_status := Cancelled, b_settledAt := Some (bc_now ctx)\<rparr>"
    have e0: "evolves N w (bc_race ctx w)" using r d by (simp add: race_evolves_def)
    obtain n w1 where c: "bet_cas (bc_race ctx w) (b_id b) Active ?f = (n, w1)" by fastforce
    have e1: "evolves N w w1"
      by (rule evolves_trans [OF e0 evolves_cas [OF evolves_distinct [OF e0] _ c]]) (simp add: evolve_simps)
    obtain x w2 where cr: "wp_credit provider (b_walletId b) (b_amount b) Refund
        (refundKey (b_id b)) (Some (bet_ref (b_id b))) w1 = (x, w2)" by fastforce
    have e2: "evolves N w w2" by (rule evolves_trans [OF e1 credit_evolves [OF evolves_distinct [OF e1] cr]])
    show ?thesis
      using ph bs c cr p e1 e2 evolves_refl [OF d] by (cases x) (simp_all add: cancelBet_def)
  qed (use ph evolves_refl [OF d] in \<open>simp add: cancelBet_def\<close>)
qed (use evolves_refl [OF d] in \<open>simp add: cancelBet_def\<close>)

text \<open>Paying a claim: every row with that id has status \<open>cashed_out\<close>.\<close>

lemma pay_evolves:
  assumes d: "bets_distinct w" and p: "bc_wallet ctx = provider"
    and st: "\<And>c. c \<in> set (db_bets w) \<Longrightarrow> b_id c = b_id b \<Longrightarrow> b_status c = Cashed_out"
  shows "evolves N w (snd (pay_claimed ctx b mult pay ccy w))"
proof -
  obtain x w1 where cr: "wp_credit provider (b_walletId b) pay Payout_credit (payoutKey (b_id b))
      (Some (bet_ref (b_id b))) w = (x, w1)" by fastforce
  have e1: "evolves N w w1" by (rule credit_evolves [OF d cr])
  have b1: "db_bets w1 = db_bets w" using credit_frame [OF cr] by (simp add: game_same_def)
  have e2: "evolves N w (bet_set w1 (b_id b) f)"
    if f: "\<And>c. b_status c = Cashed_out \<Longrightarrow> evolve c (f c)" for f
    by (rule evolves_trans [OF e1 evolves_set [OF evolves_distinct [OF e1]]]) (use st b1 f in metis)
  show ?thesis
  proof (cases x)
    case (Inl e)
    with e2 [of "\<lambda>b. b\<lparr>b_status := Payout_pending\<rparr>"] cr p show ?thesis
      by (simp add: pay_claimed_def evolve_simps)
  next
    case (Inr tx)
    have "evolves N w (bet_set w1 (b_id b) (\<lambda>b. b\<lparr>b_payoutTxId := Some (tx_id tx)\<rparr>))"
      by (rule e2) (simp add: evolve_simps)
    from evolves_trans [OF this loot_evolves [OF evolves_distinct [OF this]]] Inr cr p show ?thesis
      by (simp add: pay_claimed_def)
  qed
qed

lemma cashout_evolves:
  assumes d: "bets_distinct w" and r: "race_evolves N (bc_race ctx)" and p: "bc_wallet ctx = provider"
  shows "evolves N w (snd (cashOut ctx u pn am w))"
proof (cases "in_phase ctx Running")
  case ph: (Some rid)
  define mult where "mult = (case am of None \<Rightarrow> bc_mult ctx | Some m \<Rightarrow> m)"
  show ?thesis
  proof (cases "find_slot w rid u pn")
    case bs: (Some b)
    show ?thesis
    proof (cases "b_status b = Active \<and> (\<exists>rd. find_round w (b_roundId b) = Some rd \<and>
        r_status rd = Running \<and> mult < r_crashPoint rd)")
      case True
      then obtain rd where act: "b_status b = Active" and rd: "find_round w (b_roundId b) = Some rd"
        "r_status rd = Running" "mult < r_crashPoint rd" by blast
      define pay where "pay = cashout_payout (bc_risk ctx) b mult"
      let ?f = "\<lambda>b. b\<lparr>b_status := Cashed_out, b_cashoutMult := Some mult, b_payout := pay,
          b_settledAt := Some (bc_now ctx)\<rparr>"
      have e0: "evolves N w (bc_race ctx w)" using r d by (simp add: race_evolves_def)
      obtain n w1 where c: "bet_cas (bc_race ctx w) (b_id b) Active ?f = (n, w1)" by fastforce
      have e1: "evolves N w w1"
        by (rule evolves_trans [OF e0 evolves_cas [OF evolves_distinct [OF e0] _ c]]) (simp add: evolve_simps)
      have res: "snd (cashOut ctx u pn am w) = (if n = 0 then w1
          else snd (pay_claimed ctx b mult pay (wallet_currency w (b_walletId b)) w1))"
        using ph bs act rd c
        by (simp add: cashOut_def Let_def mult_def [symmetric] pay_def [symmetric] split: prod.splits)
      show ?thesis
      proof (cases "n = 0")
        case False
        have st: "b_status x = Cashed_out" if "x \<in> set (db_bets w1)" "b_id x = b_id b" for x
          using cas_status [OF evolves_distinct [OF e0] _ c False that] by auto
        have "evolves N w1 (snd (pay_claimed ctx b mult pay (wallet_currency w (b_walletId b)) w1))"
          by (rule pay_evolves [OF evolves_distinct [OF e1] p st])
        from evolves_trans [OF e1 this] False res show ?thesis by simp
      qed (use res e1 in simp)
    next
      case False
      then have "snd (cashOut ctx u pn am w) = w"
        using ph bs by (auto simp: cashOut_def mult_def [symmetric] Let_def split: option.splits)
      with evolves_refl [OF d] show ?thesis by simp
    qed
  qed (use ph evolves_refl [OF d] in \<open>simp add: cashOut_def Let_def\<close>)
qed (use evolves_refl [OF d] in \<open>simp add: cashOut_def\<close>)

end

end
