(* ===== verification/VR_Operator.thy ===== *)
theory VR_Operator
  imports VR_Wallet
begin

text \<open>
  The wallet provider over an operator's own wallet, \<open>src/wallet/seamless-operator-wallet.ts\<close>.

  \<open>seam_cfg\<close> holds its constructor arguments: the operator client, the session resolver, the number
  of attempts, and the durable rollback store, absent in a bare construction. With a store go the
  faults of its writes, the clock and what other nodes do to the outbox between a claim's read and its
  write. The locale \<open>operator_contract\<close> states the behaviour the integration contract
  (\<open>operator-wallet.types.ts\<close>) asks of an operator; failures other than a clean refusal may or may not
  have applied the move.
\<close>

section \<open>Configuration\<close>

record 'o store_cfg =
  st_faults :: store_faults
  st_race :: "'o world \<Rightarrow> 'o world"
  st_now :: int

record 'o seam_cfg =
  se_api :: "'o operator_api"
  se_resolve :: "'o world \<Rightarrow> uid \<Rightarrow> exn + op_session"
  se_maxRetries :: nat
  se_store :: "'o store_cfg option"

definition MAX_OUTBOUND_TX_ID_LEN :: nat where
  "MAX_OUTBOUND_TX_ID_LEN = 200"

definition assertTxIdLength :: "string \<Rightarrow> bool" where
  "assertTxIdLength t \<longleftrightarrow> length t \<le> MAX_OUTBOUND_TX_ID_LEN"

definition opt_text :: "string option \<Rightarrow> string" where
  "opt_text s = (case s of None \<Rightarrow> [] | Some x \<Rightarrow> x)"

section \<open>Rollbacks\<close>

definition emit_rollback ::
  "'o seam_cfg \<Rightarrow> op_session \<Rightarrow> string \<Rightarrow> ledger_ref option \<Rightarrow> 'o world \<Rightarrow>
   (op_error + op_response) \<times> 'o world" where
  "emit_rollback cfg s txId ref w =
     (case op_rollback (se_api cfg) (os_operatorId s)
             \<lparr>rr_playerId = os_playerId s, rr_currency = os_currency s, rr_transactionId = txId,
              rr_roundId = opt_text (os_roundId s), rr_betId = opt_text (ref_id_of ref)\<rparr>
             (operator_state w) of
        (r, o') \<Rightarrow> (r, w\<lparr>operator_state := o'\<rparr>))"

definition seam_claim ::
  "op_session \<Rightarrow> string \<Rightarrow> ledger_ref option \<Rightarrow> string \<Rightarrow> int option \<Rightarrow> rollback_claim" where
  "seam_claim s txId ref reason amount =
     \<lparr>rc_operatorId = os_operatorId s, rc_playerId = os_playerId s, rc_currency = os_currency s,
      rc_transactionId = txId, rc_reason = reason, rc_betId = ref_id_of ref, rc_amount = amount\<rparr>"

definition rollbackOnce ::
  "'o seam_cfg \<Rightarrow> op_session \<Rightarrow> string \<Rightarrow> ledger_ref option \<Rightarrow> string \<Rightarrow> bool \<Rightarrow> int option \<Rightarrow> 'o world \<Rightarrow>
   (exn + unit) \<times> 'o world" where
  "rollbackOnce cfg s txId ref reason propagate amount w =
     (if \<not> assertTxIdLength txId then (Inl TxId_too_long, w)
      else case se_store cfg of
        None \<Rightarrow>
          (case emit_rollback cfg s txId ref w of
             (Inr _, w1) \<Rightarrow> (Inr (), w1)
           | (Inl e, w1) \<Rightarrow> (if propagate then Inl (Op_exn e) else Inr (), w1))
      | Some st \<Rightarrow>
          let dk = dedupeKeyOf (ref_id_of ref) txId reason;
              oid = os_operatorId s
          in case rb_claim (st_faults st) (st_race st) (st_now st)
                    (seam_claim s txId ref reason amount) w of
               (c, w1) \<Rightarrow>
                 if cr_alreadyConfirmed c \<or> cr_inFlight c then (Inr (), w1)
                 else (case emit_rollback cfg s txId ref w1 of
                         (Inr _, w2) \<Rightarrow> (Inr (), rb_confirm (st_faults st) oid dk w2)
                       | (Inl e, w2) \<Rightarrow>
                           (if propagate then Inl (Op_exn e) else Inr (),
                            rb_recordEmitFailure (st_faults st) oid dk w2)))"

definition safeRollback ::
  "'o seam_cfg \<Rightarrow> op_session \<Rightarrow> string \<Rightarrow> ledger_ref option \<Rightarrow> string \<Rightarrow> 'o world \<Rightarrow> 'o world" where
  "safeRollback cfg s txId ref reason w = snd (rollbackOnce cfg s txId ref reason False None w)"

section \<open>Money moves\<close>

datatype move_kind = MBet | MWin

definition call_operator ::
  "'o seam_cfg \<Rightarrow> move_kind \<Rightarrow> uid \<Rightarrow> op_request \<Rightarrow> 'o world \<Rightarrow> (op_error + op_response) \<times> 'o world" where
  "call_operator cfg kind oid req w =
     (case (case kind of MBet \<Rightarrow> op_bet (se_api cfg) oid req (operator_state w)
                       | MWin \<Rightarrow> op_win (se_api cfg) oid req (operator_state w)) of
        (r, o') \<Rightarrow> (r, w\<lparr>operator_state := o'\<rparr>))"

text \<open>A response whose balance is not a BigInt makes \<open>BigInt(res.balance)\<close> throw inside the \<open>try\<close>.\<close>

definition parse_response :: "(op_error + op_response) \<Rightarrow> op_error + wallet_tx" where
  "parse_response r =
     (case r of
        Inl e \<Rightarrow> Inl e
      | Inr res \<Rightarrow>
          (case string_to_bigint (rs_balance res) of
             None \<Rightarrow> Inl (OperatorError ''SyntaxError'')
           | Some b \<Rightarrow> Inr \<lparr>tx_id = Operator_tx (rs_operatorTxId res), tx_balanceAfter = b\<rparr>))"

text \<open>The retry loop; the first argument counts the attempts left.\<close>

fun move_loop ::
  "nat \<Rightarrow> 'o seam_cfg \<Rightarrow> move_kind \<Rightarrow> op_session \<Rightarrow> op_request \<Rightarrow> ledger_ref option \<Rightarrow> 'o world \<Rightarrow>
   (exn + wallet_tx) \<times> 'o world" where
  "move_loop 0 cfg kind s req ref w = (Inl Undefined_thrown, w)"
| "move_loop (Suc n) cfg kind s req ref w =
     (case call_operator cfg kind (os_operatorId s) req w of
        (r, w1) \<Rightarrow>
          (case parse_response r of
             Inr t \<Rightarrow> (Inr t, w1)
           | Inl e \<Rightarrow>
               if kind = MWin
               then if n = 0 then (Inl Payout_pending_exn, w1) else move_loop n cfg kind s req ref w1
               else (case e of
                       OperatorInsufficientFunds \<Rightarrow> (Inl Insufficient_balance, w1)
                     | OperatorTimeout \<Rightarrow>
                         (Inl Wallet_unavailable,
                          safeRollback cfg s (rq_transactionId req) ref ''ambiguous_debit'' w1)
                     | OperatorError _ \<Rightarrow>
                         if n = 0
                         then (Inl Wallet_error,
                               safeRollback cfg s (rq_transactionId req) ref ''transient_debit'' w1)
                         else move_loop n cfg kind s req ref w1)))"

definition move_request :: "op_session \<Rightarrow> int \<Rightarrow> string \<Rightarrow> ledger_ref option \<Rightarrow> op_request" where
  "move_request s amount txId ref =
     \<lparr>rq_playerId = os_playerId s, rq_currency = os_currency s, rq_amount = bigint_to_string amount,
      rq_transactionId = txId, rq_roundId = opt_text (os_roundId s), rq_betId = opt_text (ref_id_of ref)\<rparr>"

definition seam_move ::
  "'o seam_cfg \<Rightarrow> move_kind \<Rightarrow> op_session \<Rightarrow> int \<Rightarrow> string \<Rightarrow> ledger_ref option \<Rightarrow> 'o world \<Rightarrow>
   (exn + wallet_tx) \<times> 'o world" where
  "seam_move cfg kind s amount txId ref w =
     (if \<not> assertTxIdLength txId then (Inl TxId_too_long, w)
      else move_loop (se_maxRetries cfg) cfg kind s (move_request s amount txId ref) ref w)"

section \<open>The provider\<close>

definition seam_debit ::
  "'o seam_cfg \<Rightarrow> uid \<Rightarrow> int \<Rightarrow> ledger_type \<Rightarrow> string \<Rightarrow> ledger_ref option \<Rightarrow> 'o world \<Rightarrow>
   (exn + wallet_tx) \<times> 'o world" where
  "seam_debit cfg walletId amount t key ref w =
     (case se_resolve cfg w walletId of
        Inl e \<Rightarrow> (Inl e, w) | Inr s \<Rightarrow> seam_move cfg MBet s amount key ref w)"

definition seam_credit ::
  "'o seam_cfg \<Rightarrow> uid \<Rightarrow> int \<Rightarrow> ledger_type \<Rightarrow> string \<Rightarrow> ledger_ref option \<Rightarrow> 'o world \<Rightarrow>
   (exn + wallet_tx) \<times> 'o world" where
  "seam_credit cfg walletId amount t key ref w =
     (case se_resolve cfg w walletId of
        Inl e \<Rightarrow> (Inl e, w) | Inr s \<Rightarrow> seam_move cfg MWin s amount key ref w)"

definition seam_rollback ::
  "'o seam_cfg \<Rightarrow> uid \<Rightarrow> string \<Rightarrow> ledger_ref option \<Rightarrow> 'o world \<Rightarrow> (exn + unit) \<times> 'o world" where
  "seam_rollback cfg walletId key ref w =
     (case se_resolve cfg w walletId of
        Inl e \<Rightarrow> (Inl e, w) | Inr s \<Rightarrow> rollbackOnce cfg s key ref ''ambiguous_debit'' False None w)"

definition reverse_reason :: "reverse_params \<Rightarrow> string" where
  "reverse_reason p =
     (case rv_intent p of
        Some i \<Rightarrow> i
      | None \<Rightarrow> (case rv_originalDirection p of DirCredit \<Rightarrow> ''void_reclaim'' | DirDebit \<Rightarrow> ''void_refund''))"

definition seam_reverse ::
  "'o seam_cfg \<Rightarrow> uid \<Rightarrow> reverse_params \<Rightarrow> 'o world \<Rightarrow> (exn + unit) \<times> 'o world" where
  "seam_reverse cfg walletId p w =
     (case se_resolve cfg w walletId of
        Inl e \<Rightarrow> (Inl e, w)
      | Inr s \<Rightarrow> rollbackOnce cfg s (rv_originalKey p) (rv_ref p) (reverse_reason p) True
                   (Some (rv_amount p)) w)"

definition seam_getBalance :: "'o seam_cfg \<Rightarrow> uid \<Rightarrow> 'o world \<Rightarrow> (exn + int) \<times> 'o world" where
  "seam_getBalance cfg walletId w =
     (case se_resolve cfg w walletId of
        Inl e \<Rightarrow> (Inl e, w)
      | Inr s \<Rightarrow>
          (case op_balance (se_api cfg) (os_operatorId s) (os_playerId s) (os_currency s) (operator_state w) of
             (Inl e, o') \<Rightarrow> (Inl (Op_exn e), w\<lparr>operator_state := o'\<rparr>)
           | (Inr bal, o') \<Rightarrow>
               (case string_to_bigint bal of
                  None \<Rightarrow> Inl (Op_exn (OperatorError ''SyntaxError''))
                | Some b \<Rightarrow> Inr b, w\<lparr>operator_state := o'\<rparr>)))"

definition SeamlessOperatorWallet :: "'o seam_cfg \<Rightarrow> 'o wallet_provider" where
  "SeamlessOperatorWallet cfg =
     \<lparr>wp_debit = seam_debit cfg, wp_credit = seam_credit cfg, wp_rollback = seam_rollback cfg,
      wp_reverse = seam_reverse cfg, wp_getBalance = seam_getBalance cfg\<rparr>"

section \<open>The operator's contract\<close>

text \<open>
  \<open>applied o oid tx\<close> is the signed effect transaction \<open>tx\<close> currently has on the player's balance at
  operator \<open>oid\<close>: nothing when it never applied or was rolled back.
\<close>

definition settle :: "int \<Rightarrow> int option \<Rightarrow> int option" where
  "settle a x = (case x of None \<Rightarrow> Some a | Some d \<Rightarrow> Some d)"

lemma settle_simps [simp]: "settle a None = Some a" "settle a (Some d) = Some d"
  "settle a (settle b x) = settle b x" "settle a x \<noteq> None"
  by (simp_all add: settle_def split: option.splits)

locale operator_contract =
  fixes api :: "'o operator_api" and applied :: "'o \<Rightarrow> uid \<Rightarrow> string \<Rightarrow> int option"
  assumes bet_ok:
      "\<lbrakk>op_bet api oid req s = (Inr r, s'); string_to_bigint (rq_amount req) = Some a\<rbrakk> \<Longrightarrow>
       applied s' oid (rq_transactionId req) = settle (- a) (applied s oid (rq_transactionId req))"
    and bet_refused:
      "op_bet api oid req s = (Inl OperatorInsufficientFunds, s') \<Longrightarrow>
       applied s oid (rq_transactionId req) = None \<and> applied s' oid (rq_transactionId req) = None"
    and bet_fails:
      "\<lbrakk>op_bet api oid req s = (Inl e, s'); string_to_bigint (rq_amount req) = Some a\<rbrakk> \<Longrightarrow>
       applied s' oid (rq_transactionId req) \<in>
         {applied s oid (rq_transactionId req), settle (- a) (applied s oid (rq_transactionId req))}"
    and win_ok:
      "\<lbrakk>op_win api oid req s = (Inr r, s'); string_to_bigint (rq_amount req) = Some a\<rbrakk> \<Longrightarrow>
       applied s' oid (rq_transactionId req) = settle a (applied s oid (rq_transactionId req))"
    and win_fails:
      "\<lbrakk>op_win api oid req s = (Inl e, s'); string_to_bigint (rq_amount req) = Some a\<rbrakk> \<Longrightarrow>
       applied s' oid (rq_transactionId req) \<in>
         {applied s oid (rq_transactionId req), settle a (applied s oid (rq_transactionId req))}"
    and rollback_ok:
      "op_rollback api oid rr s = (Inr r, s') \<Longrightarrow> applied s' oid (rr_transactionId rr) = None"
    and rollback_fails:
      "op_rollback api oid rr s = (Inl e, s') \<Longrightarrow>
       applied s' oid (rr_transactionId rr) \<in> {applied s oid (rr_transactionId rr), None}"
    and rollback_others:
      "\<lbrakk>op_rollback api oid rr s = (x, s'); applied s oid' tx = None\<rbrakk> \<Longrightarrow> applied s' oid' tx = None"
    and move_others:
      "\<lbrakk>op_bet api oid req s = (x, s') \<or> op_win api oid req s = (x, s'); tx \<noteq> rq_transactionId req\<rbrakk> \<Longrightarrow>
       applied s' oid tx = applied s oid tx"

section \<open>Effect of the outbox on its table\<close>

text \<open>A rollback is owed for a transaction when the outbox holds an unconfirmed row for it.\<close>

definition owed_row :: "'o world \<Rightarrow> uid \<Rightarrow> string \<Rightarrow> bool" where
  "owed_row w oid tx \<longleftrightarrow>
     (\<exists>r \<in> set (db_rollbacks w). rb_operatorId r = oid \<and> rb_transactionId r = tx \<and> rb_status r = RPending)"

definition race_keeps :: "('o world \<Rightarrow> 'o world) \<Rightarrow> uid \<Rightarrow> string \<Rightarrow> bool" where
  "race_keeps env oid dk \<longleftrightarrow>
     (\<forall>w. find_rb (env w) oid dk = find_rb w oid dk \<and> operator_state (env w) = operator_state w)"

lemma find_rb_SomeD:
  "find_rb w oid dk = Some r \<Longrightarrow> r \<in> set (db_rollbacks w) \<and> rb_operatorId r = oid \<and> rb_dedupeKey r = dk"
  unfolding find_rb_def by (drule find_SomeD) (simp add: is_rb_def)

lemma find_rb_None: "find_rb w oid dk = None \<Longrightarrow> r \<in> set (db_rollbacks w) \<Longrightarrow> \<not> is_rb oid dk r"
  unfolding find_rb_def by (rule find_NoneD)

lemma emit_rollback_frame:
  "emit_rollback cfg s txId ref w = (r, w') \<Longrightarrow> w' = w\<lparr>operator_state := operator_state w'\<rparr>"
  by (auto simp: emit_rollback_def split: prod.splits)

text \<open>A first claim inserts the row already leased, and the caller owns the emit.\<close>

lemma rb_claim_fresh:
  assumes "\<not> sf_claim sf" and "find_rb w (rc_operatorId c) dk = None"
    and "dk = dedupeKeyOf (rc_betId c) (rc_transactionId c) (rc_reason c)"
    and "race_keeps env (rc_operatorId c) dk"
    and "rb_claim sf env now c w = (r, w')"
  shows "\<not> cr_alreadyConfirmed r \<and> \<not> cr_inFlight r \<and> operator_state w' = operator_state w \<and>
    (\<exists>x \<in> set (db_rollbacks w'). is_rb (rc_operatorId c) dk x \<and>
        rb_transactionId x = rc_transactionId c)"
  using assms by (auto simp: rb_claim_def race_keeps_def Let_def is_rb_def)

context operator_contract
begin

lemma emit_ok:
  assumes "se_api cfg = api" and "emit_rollback cfg s txId ref w = (Inr r, w')"
  shows "applied (operator_state w') (os_operatorId s) txId = None"
proof -
  obtain s' where "op_rollback api (os_operatorId s)
      \<lparr>rr_playerId = os_playerId s, rr_currency = os_currency s, rr_transactionId = txId,
       rr_roundId = opt_text (os_roundId s), rr_betId = opt_text (ref_id_of ref)\<rparr> (operator_state w)
      = (Inr r, s')" and "w' = w\<lparr>operator_state := s'\<rparr>"
    using assms(2) unfolding emit_rollback_def assms(1) by (auto split: prod.splits)
  from rollback_ok [OF this(1)] this(2) show ?thesis by simp
qed

text \<open>A compensation with a working store ends with the transaction undone or its rollback owed.\<close>

lemma rollbackOnce_settles:
  assumes api: "se_api cfg = api" and len: "assertTxIdLength txId"
    and st: "se_store cfg = Some st" "st_faults st = no_faults"
    and dk: "dk = dedupeKeyOf (ref_id_of ref) txId reason"
    and fresh: "find_rb w (os_operatorId s) dk = None" "race_keeps (st_race st) (os_operatorId s) dk"
    and res: "rollbackOnce cfg s txId ref reason p amt w = (x, w')"
  shows "applied (operator_state w') (os_operatorId s) txId = None \<or> owed_row w' (os_operatorId s) txId"
proof -
  let ?oid = "os_operatorId s"
  obtain c w1 where c: "rb_claim no_faults (st_race st) (st_now st) (seam_claim s txId ref reason amt) w = (c, w1)"
    by fastforce
  obtain r w2 where e: "emit_rollback cfg s txId ref w1 = (r, w2)" by fastforce
  have own: "\<not> cr_alreadyConfirmed c \<and> \<not> cr_inFlight c"
    and row: "\<exists>x \<in> set (db_rollbacks w1). is_rb ?oid dk x \<and> rb_transactionId x = txId"
    using rb_claim_fresh [OF _ _ _ _ c] fresh dk by (auto simp: no_faults_def seam_claim_def)
  have fr: "w2 = w1\<lparr>operator_state := operator_state w2\<rparr>" by (rule emit_rollback_frame [OF e])
  show ?thesis
  proof (cases r)
    case (Inr resp)
    with e api have "applied (operator_state w2) ?oid txId = None" using emit_ok by blast
    moreover have "w' = rb_confirm no_faults ?oid dk w2"
      using res len st c e own Inr dk by (simp add: rollbackOnce_def Let_def)
    ultimately show ?thesis by (simp add: rb_confirm_def no_faults_def)
  next
    case (Inl err)
    have "w' = rb_recordEmitFailure no_faults ?oid dk w2"
      using res len st c e own Inl dk by (simp add: rollbackOnce_def Let_def)
    moreover have "db_rollbacks w2 = db_rollbacks w1" by (subst fr) simp
    ultimately have w': "db_rollbacks w' = update_where (is_rb ?oid dk)
        (\<lambda>r. r\<lparr>rb_status := RPending, rb_leaseUntil := None\<rparr>) (db_rollbacks w1)"
      by (simp add: rb_recordEmitFailure_def)
    from row obtain x where x: "x \<in> set (db_rollbacks w1)" "is_rb ?oid dk x" "rb_transactionId x = txId"
      by blast
    then have "x\<lparr>rb_status := RPending, rb_leaseUntil := None\<rparr> \<in> set (db_rollbacks w')"
      unfolding w' set_update_where by (intro image_eqI [of _ _ x]) simp_all
    with x have "owed_row w' ?oid txId"
      unfolding owed_row_def
      by (intro bexI [of _ "x\<lparr>rb_status := RPending, rb_leaseUntil := None\<rparr>"]) (simp_all add: is_rb_def)
    then show ?thesis by blast
  qed
qed

lemma call_bet:
  assumes "se_api cfg = api" and "call_operator cfg MBet oid req w = (r, w')"
  shows "op_bet api oid req (operator_state w) = (r, operator_state w')"
    and "w' = w\<lparr>operator_state := operator_state w'\<rparr>"
  using assms by (auto simp: call_operator_def split: prod.splits)

lemma call_win:
  assumes "se_api cfg = api" and "call_operator cfg MWin oid req w = (r, w')"
  shows "op_win api oid req (operator_state w) = (r, operator_state w')"
    and "w' = w\<lparr>operator_state := operator_state w'\<rparr>"
  using assms by (auto simp: call_operator_def split: prod.splits)

text \<open>A debit: accepted and applied once, or refused, or compensated.\<close>

lemma bet_loop_settles:
  assumes api: "se_api cfg = api" and amt: "string_to_bigint (rq_amount req) = Some a"
    and len: "assertTxIdLength (rq_transactionId req)"
    and st: "se_store cfg = Some st" "st_faults st = no_faults"
    and fresh: "\<And>reason. find_rb w (os_operatorId s) (dedupeKeyOf (ref_id_of ref) (rq_transactionId req) reason) = None"
      "\<And>reason. race_keeps (st_race st) (os_operatorId s) (dedupeKeyOf (ref_id_of ref) (rq_transactionId req) reason)"
    and res: "move_loop n cfg MBet s req ref w = (x, w')" and n: "0 < n"
  shows "case x of
      Inr t \<Rightarrow> applied (operator_state w') (os_operatorId s) (rq_transactionId req)
        = settle (- a) (applied (operator_state w) (os_operatorId s) (rq_transactionId req))
    | Inl e \<Rightarrow> applied (operator_state w') (os_operatorId s) (rq_transactionId req) = None
        \<or> owed_row w' (os_operatorId s) (rq_transactionId req)"
  using fresh(1) res n
proof (induction n arbitrary: w)
  case (Suc n)
  let ?oid = "os_operatorId s" and ?tx = "rq_transactionId req"
  obtain r w1 where c: "call_operator cfg MBet ?oid req w = (r, w1)" by fastforce
  have op: "op_bet api ?oid req (operator_state w) = (r, operator_state w1)"
    and w1: "w1 = w\<lparr>operator_state := operator_state w1\<rparr>"
    using call_bet [OF api c] .
  have rb1: "find_rb w1 ?oid dk = find_rb w ?oid dk" for dk by (subst w1) (simp add: find_rb_def)
  have fresh1: "find_rb w1 ?oid (dedupeKeyOf (ref_id_of ref) ?tx reason) = None" for reason
    using Suc.prems(1) rb1 by simp
  have comp: "applied (operator_state w2) ?oid ?tx = None \<or> owed_row w2 ?oid ?tx"
    if "w2 = safeRollback cfg s ?tx ref reason w1" for reason w2
    using rollbackOnce_settles [OF api len st refl fresh1 fresh(2)] that
    unfolding safeRollback_def by (metis prod.collapse)
  have step: "applied (operator_state w1) ?oid ?tx \<in>
      {applied (operator_state w) ?oid ?tx, settle (- a) (applied (operator_state w) ?oid ?tx)}"
    using op bet_ok [OF _ amt] bet_fails [OF _ amt] by (cases r) auto
  show ?case
  proof (cases "parse_response r")
    case (Inr t)
    then have "\<exists>resp. r = Inr resp" by (cases r) (auto simp: parse_response_def)
    with op bet_ok [OF _ amt]
    have "applied (operator_state w1) ?oid ?tx = settle (- a) (applied (operator_state w) ?oid ?tx)"
      by blast
    moreover have "x = Inr t" "w' = w1" using Suc.prems(2) c Inr by simp_all
    ultimately show ?thesis by simp
  next
    case (Inl e)
    show ?thesis
    proof (cases e)
      case OperatorInsufficientFunds
      with Inl have "r = Inl OperatorInsufficientFunds"
        by (cases r) (auto simp: parse_response_def split: option.splits)
      with op have "applied (operator_state w1) ?oid ?tx = None" using bet_refused by blast
      moreover have "x = Inl Insufficient_balance" "w' = w1"
        using Suc.prems(2) c Inl OperatorInsufficientFunds by simp_all
      ultimately show ?thesis by simp
    next
      case OperatorTimeout
      then have "x = Inl Wallet_unavailable" "w' = safeRollback cfg s ?tx ref ''ambiguous_debit'' w1"
        using Suc.prems(2) c Inl by simp_all
      with comp show ?thesis by simp
    next
      case (OperatorError m)
      show ?thesis
      proof (cases "n = 0")
        case True
        then have "x = Inl Wallet_error" "w' = safeRollback cfg s ?tx ref ''transient_debit'' w1"
          using Suc.prems(2) c Inl OperatorError by simp_all
        with comp show ?thesis by simp
      next
        case False
        then have "move_loop n cfg MBet s req ref w1 = (x, w')"
          using Suc.prems(2) c Inl OperatorError by simp
        from Suc.IH [OF fresh1 this] False step show ?thesis by (cases x) auto
      qed
    qed
  qed
qed simp

text \<open>A credit is never undone, and is applied at most once however often it is re-issued.\<close>

lemma win_loop_settles:
  assumes api: "se_api cfg = api" and amt: "string_to_bigint (rq_amount req) = Some a"
    and res: "move_loop n cfg MWin s req ref w = (x, w')"
  shows "w' = w\<lparr>operator_state := operator_state w'\<rparr> \<and>
    applied (operator_state w') (os_operatorId s) (rq_transactionId req) \<in>
      {applied (operator_state w) (os_operatorId s) (rq_transactionId req),
       settle a (applied (operator_state w) (os_operatorId s) (rq_transactionId req))} \<and>
    (\<forall>t. x = Inr t \<longrightarrow> applied (operator_state w') (os_operatorId s) (rq_transactionId req)
       = settle a (applied (operator_state w) (os_operatorId s) (rq_transactionId req)))"
  using res
proof (induction n arbitrary: w)
  case (Suc n)
  let ?oid = "os_operatorId s" and ?tx = "rq_transactionId req"
  obtain r w1 where c: "call_operator cfg MWin ?oid req w = (r, w1)" by fastforce
  have op: "op_win api ?oid req (operator_state w) = (r, operator_state w1)"
    and w1: "w1 = w\<lparr>operator_state := operator_state w1\<rparr>"
    using call_win [OF api c] .
  have step: "applied (operator_state w1) ?oid ?tx \<in>
      {applied (operator_state w) ?oid ?tx, settle a (applied (operator_state w) ?oid ?tx)}"
    using op win_ok [OF _ amt] win_fails [OF _ amt] by (cases r) auto
  show ?case
  proof (cases "parse_response r")
    case (Inr t)
    then have "\<exists>resp. r = Inr resp" by (cases r) (auto simp: parse_response_def)
    with op win_ok [OF _ amt]
    have "applied (operator_state w1) ?oid ?tx = settle a (applied (operator_state w) ?oid ?tx)"
      by blast
    moreover have "x = Inr t" "w' = w1" using Suc.prems c Inr by simp_all
    ultimately show ?thesis using w1 by simp
  next
    case (Inl e)
    show ?thesis
    proof (cases "n = 0")
      case True
      then have "x = Inl Payout_pending_exn" "w' = w1" using Suc.prems c Inl by simp_all
      with step w1 show ?thesis by simp
    next
      case False
      then have "move_loop n cfg MWin s req ref w1 = (x, w')" using Suc.prems c Inl by simp
      note ih = Suc.IH [OF this]
      have "w' = w\<lparr>operator_state := operator_state w'\<rparr>"
        by (subst conjunct1 [OF ih], subst w1) simp
      moreover from ih step
      have "applied (operator_state w') ?oid ?tx \<in>
          {applied (operator_state w) ?oid ?tx, settle a (applied (operator_state w) ?oid ?tx)}"
        by (auto simp: settle_simps)
      moreover from ih step
      have "\<forall>t. x = Inr t \<longrightarrow> applied (operator_state w') ?oid ?tx
          = settle a (applied (operator_state w) ?oid ?tx)"
        by (auto simp: settle_simps)
      ultimately show ?thesis by blast
    qed
  qed
qed auto

end

section \<open>The provider never touches the game or the internal ledger\<close>

definition race_frame :: "('o world \<Rightarrow> 'o world) \<Rightarrow> bool" where
  "race_frame env \<longleftrightarrow> (\<forall>w. game_same w (env w) \<and> ledger_same w (env w))"

definition store_frame :: "'o seam_cfg \<Rightarrow> bool" where
  "store_frame cfg \<longleftrightarrow> (case se_store cfg of None \<Rightarrow> True | Some st \<Rightarrow> race_frame (st_race st))"

text \<open>What a call of the operator leaves alone: everything but the operator and the outbox.\<close>

definition outside_same :: "'o world \<Rightarrow> 'o world \<Rightarrow> bool" where
  "outside_same w w' \<longleftrightarrow> game_same w w' \<and> ledger_same w w'"

lemma outside_same_refl [simp]: "outside_same w w"
  by (simp add: outside_same_def)

lemma outside_same_trans: "outside_same a b \<Longrightarrow> outside_same b c \<Longrightarrow> outside_same a c"
  unfolding outside_same_def using game_same_trans ledger_same_trans by blast

lemma outside_same_updates [simp]:
  "outside_same w (w\<lparr>operator_state := o'\<rparr>)" "outside_same w (w\<lparr>db_rollbacks := rs\<rparr>)"
  "outside_same w (rb_update P f w)"
  by (simp_all add: outside_same_def game_same_def ledger_same_def)

lemma rb_confirm_outside [simp]: "outside_same w (rb_confirm sf oid dk w)"
  by (simp add: rb_confirm_def)

lemma rb_record_outside [simp]: "outside_same w (rb_recordEmitFailure sf oid dk w)"
  by (simp add: rb_recordEmitFailure_def)

lemma acquireLease_outside: "acquireLease now oid dk s l w = (b, w') \<Longrightarrow> outside_same w w'"
  by (auto simp: acquireLease_def Let_def)

lemma rb_claim_outside:
  assumes "race_frame env" and "rb_claim sf env now c w = (r, w')"
  shows "outside_same w w'"
proof -
  have e: "outside_same w (env w)" using assms(1) by (simp add: race_frame_def outside_same_def)
  have b: "outside_same w (bumpAttempts oid dk v)" if "outside_same w v" for oid dk v
    using that outside_same_trans outside_same_updates(3) unfolding bumpAttempts_def by blast
  have n: "outside_same w (env w\<lparr>db_rollbacks := rs\<rparr>)" for rs
    using e outside_same_trans outside_same_updates(2) by blast
  have a: "outside_same w v" if "acquireLease now oid dk s l (env w) = (q, v)" for oid dk s l q v
    using e acquireLease_outside [OF that] outside_same_trans by blast
  show ?thesis
    using assms(2) unfolding rb_claim_def Let_def
    by (auto split: option.splits if_splits prod.splits bool.splits intro: b a e n)
qed

lemma emit_outside: "emit_rollback cfg s txId ref w = (r, w') \<Longrightarrow> outside_same w w'"
  by (drule emit_rollback_frame) (metis outside_same_updates(1))

lemma rollbackOnce_store:
  assumes "se_store cfg = Some st" and "assertTxIdLength txId"
    and "rb_claim (st_faults st) (st_race st) (st_now st) (seam_claim s txId ref reason amt) w = (c, w1)"
    and "emit_rollback cfg s txId ref w1 = (r, w2)"
  shows "snd (rollbackOnce cfg s txId ref reason p amt w) =
    (if cr_alreadyConfirmed c \<or> cr_inFlight c then w1
     else (case r of
        Inr _ \<Rightarrow> rb_confirm (st_faults st) (os_operatorId s) (dedupeKeyOf (ref_id_of ref) txId reason) w2
      | Inl _ \<Rightarrow> rb_recordEmitFailure (st_faults st) (os_operatorId s)
                  (dedupeKeyOf (ref_id_of ref) txId reason) w2))"
  using assms by (simp add: rollbackOnce_def split: sum.splits)

lemma rollbackOnce_outside:
  assumes "store_frame cfg" and "rollbackOnce cfg s txId ref reason p amt w = (x, w')"
  shows "outside_same w w'"
proof (cases "se_store cfg")
  case None
  then show ?thesis
    using assms(2) emit_outside unfolding rollbackOnce_def
    by (auto split: if_splits prod.splits sum.splits)
next
  case (Some st)
  then have rf: "race_frame (st_race st)" using assms(1) by (simp add: store_frame_def)
  obtain c w1 where c: "rb_claim (st_faults st) (st_race st) (st_now st) (seam_claim s txId ref reason amt) w = (c, w1)"
    by fastforce
  obtain r w2 where e: "emit_rollback cfg s txId ref w1 = (r, w2)" by fastforce
  have o1: "outside_same w w1" by (rule rb_claim_outside [OF rf c])
  have o2: "outside_same w w2" using o1 emit_outside [OF e] outside_same_trans by blast
  have "outside_same w (rb_confirm sf oid dk w2)" "outside_same w (rb_recordEmitFailure sf oid dk w2)"
    for sf oid dk using o2 outside_same_trans rb_confirm_outside rb_record_outside by blast+
  then have "outside_same w (snd (rollbackOnce cfg s txId ref reason p amt w))"
    if "assertTxIdLength txId"
    using o1 by (simp add: rollbackOnce_store [OF Some that c e] split: sum.splits)
  moreover have "snd (rollbackOnce cfg s txId ref reason p amt w) = w" if "\<not> assertTxIdLength txId"
    using that by (simp add: rollbackOnce_def)
  ultimately show ?thesis using assms(2) by (metis outside_same_refl snd_conv)
qed

lemma safeRollback_outside: "store_frame cfg \<Longrightarrow> outside_same w (safeRollback cfg s txId ref reason w)"
  unfolding safeRollback_def by (metis rollbackOnce_outside prod.collapse)

lemma call_operator_outside: "call_operator cfg k oid req w = (r, w') \<Longrightarrow> outside_same w w'"
  by (auto simp: call_operator_def split: prod.splits)

lemma move_loop_outside:
  "store_frame cfg \<Longrightarrow> move_loop n cfg k s req ref w = (x, w') \<Longrightarrow> outside_same w w'"
proof (induction n arbitrary: w)
  case (Suc n)
  obtain r w1 where c: "call_operator cfg k (os_operatorId s) req w = (r, w1)" by fastforce
  note o1 = call_operator_outside [OF c]
  have sr: "outside_same w (safeRollback cfg s t ref reason w1)" for t reason
    using o1 safeRollback_outside [OF Suc.prems(1)] outside_same_trans by blast
  have ih: "outside_same w w'" if "move_loop n cfg k s req ref w1 = (x, w')"
    using Suc.IH [OF Suc.prems(1) that] o1 outside_same_trans by blast
  show ?case
    using Suc.prems(2) c o1 sr ih
    by (auto split: sum.splits if_splits op_error.splits)
qed simp

lemma seam_exec_outside:
  assumes "store_frame cfg"
  shows "outside_same w (wallet_exec (SeamlessOperatorWallet cfg) i c w)"
proof -
  have m: "outside_same w (snd (seam_move cfg k s a t r w))" for k s a t r
    using move_loop_outside [OF assms, OF prod.collapse [symmetric]] by (simp add: seam_move_def)
  have o: "outside_same w (snd (rollbackOnce cfg s t r reason p amt w))" for s t r reason p amt
    by (rule rollbackOnce_outside [OF assms prod.collapse [symmetric]])
  show ?thesis
    by (cases c) (simp_all add: SeamlessOperatorWallet_def seam_debit_def seam_credit_def
        seam_rollback_def seam_reverse_def seam_getBalance_def m o split: sum.splits prod.splits)
qed

lemma seam_real_money: "store_frame cfg \<Longrightarrow> real_money (SeamlessOperatorWallet cfg)"
  using seam_exec_outside by unfold_locales (auto simp: outside_same_def)

end
