(* ===== verification/VR_Drain.thy ===== *)
theory VR_Drain
  imports VR_Operator
begin

text \<open>
  What the rollback outbox guarantees: one owner per owed rollback, no row lost by a drain, and the
  operator's book after it. Rows are identified by \<open>rb_key\<close>, the table's unique constraint.
\<close>

section \<open>Row identity\<close>

definition rb_key :: "rollback_row \<Rightarrow> uid \<times> string" where
  "rb_key r = (rb_operatorId r, rb_dedupeKey r)"

definition outbox_wf :: "'o world \<Rightarrow> bool" where
  "outbox_wf w \<longleftrightarrow> distinct (map rb_key (db_rollbacks w))"

lemma is_rb_key: "is_rb oid dk x \<longleftrightarrow> rb_key x = (oid, dk)"
  by (simp add: is_rb_def rb_key_def)

lemma outbox_same_row:
  "outbox_wf w \<Longrightarrow> r \<in> set (db_rollbacks w) \<Longrightarrow> x \<in> set (db_rollbacks w) \<Longrightarrow>
   is_rb (rb_operatorId r) (rb_dedupeKey r) x \<longleftrightarrow> x = r"
  unfolding outbox_wf_def is_rb_key by (metis distinct_key_eq rb_key_def)

lemma find_rb_Some_iff:
  assumes "outbox_wf w"
  shows "find_rb w oid dk = Some r \<longleftrightarrow> r \<in> set (db_rollbacks w) \<and> is_rb oid dk r"
proof
  assume "r \<in> set (db_rollbacks w) \<and> is_rb oid dk r"
  then have r: "r \<in> set (db_rollbacks w)" "rb_key r = (oid, dk)" by (auto simp: is_rb_key)
  have "find (\<lambda>y. rb_key y = rb_key r) (db_rollbacks w) = Some r"
    using assms r(1) unfolding outbox_wf_def by (rule find_distinct)
  moreover have "is_rb oid dk = (\<lambda>y. rb_key y = (oid, dk))" by (rule ext) (rule is_rb_key)
  ultimately show "find_rb w oid dk = Some r" using r(2) by (simp add: find_rb_def)
qed (auto dest: find_rb_SomeD simp: is_rb_def)

section \<open>Claims\<close>

text \<open>A successful compare-and-swap turns exactly the row it read into a leased one.\<close>

lemma acquireLease_eq:
  assumes wf: "outbox_wf w" and r: "r \<in> set (db_rollbacks w)"
  shows "acquireLease now (rb_operatorId r) (rb_dedupeKey r) s l w =
    (if rb_status r = s \<and> (s = RDraining \<longrightarrow> rb_leaseUntil r = l)
     then (True, rb_update (is_rb (rb_operatorId r) (rb_dedupeKey r))
             (\<lambda>x. x\<lparr>rb_status := RDraining, rb_leaseUntil := Some (now + DRAIN_LEASE_MS)\<rparr>) w)
     else (False, w))"
proof -
  let ?P = "\<lambda>x. is_rb (rb_operatorId r) (rb_dedupeKey r) x \<and> rb_status x = s \<and>
      (s = RDraining \<longrightarrow> rb_leaseUntil x = l)"
  let ?f = "\<lambda>x. x\<lparr>rb_status := RDraining, rb_leaseUntil := Some (now + DRAIN_LEASE_MS)\<rparr>"
  note same = outbox_same_row [OF wf r]
  show ?thesis
  proof (cases "rb_status r = s \<and> (s = RDraining \<longrightarrow> rb_leaseUntil r = l)")
    case True
    have "?P y \<longleftrightarrow> rb_key y = rb_key r" if "y \<in> set (db_rollbacks w)" for y
      using True same [OF that] by (metis is_rb_key rb_key_def)
    then have "count_where ?P (db_rollbacks w) = 1"
      using wf r unfolding outbox_wf_def by (intro count_where_one [of rb_key _ r])
    moreover have "update_where ?P ?f (db_rollbacks w)
        = update_where (is_rb (rb_operatorId r) (rb_dedupeKey r)) ?f (db_rollbacks w)"
      using same True by (intro update_where_cong) auto
    ultimately show ?thesis using True by (simp add: acquireLease_def Let_def rb_update_def)
  next
    case False
    then have z: "count_where ?P (db_rollbacks w) = 0" using same by (auto simp: count_where_0_iff)
    with update_where_none [OF z, of ?f] have "update_where ?P ?f (db_rollbacks w) = db_rollbacks w"
      by blast
    with z False show ?thesis by (simp add: acquireLease_def Let_def rb_update_def)
  qed
qed

definition owns :: "claim_result \<Rightarrow> bool" where
  "owns r \<longleftrightarrow> \<not> cr_alreadyConfirmed r \<and> \<not> cr_inFlight r"

text \<open>After a claim that owns the emit, the row is there and leased until the claim's deadline.\<close>

lemma rb_claim_owns_leases:
  assumes wf: "outbox_wf w" and own: "owns r"
    and cl: "rb_claim no_faults id now c w = (r, w')"
    and dk: "dk = dedupeKeyOf (rc_betId c) (rc_transactionId c) (rc_reason c)"
  shows "outbox_wf w' \<and> (\<exists>x. find_rb w' (rc_operatorId c) dk = Some x \<and> rb_status x = RDraining \<and>
     rb_leaseUntil x = Some (now + DRAIN_LEASE_MS)) \<and>
    (\<forall>x. find_rb w (rc_operatorId c) dk = Some x \<longrightarrow> rb_status x \<noteq> RConfirmed \<and>
       (rb_status x = RDraining \<longrightarrow> (case rb_leaseUntil x of None \<Rightarrow> True | Some t \<Rightarrow> t \<le> now)))"
proof (cases "find_rb w (rc_operatorId c) dk")
  case None
  then have w': "w' = w\<lparr>db_rollbacks := db_rollbacks w @
      [\<lparr>rb_operatorId = rc_operatorId c, rb_playerId = rc_playerId c, rb_currency = rc_currency c,
        rb_transactionId = rc_transactionId c, rb_dedupeKey = dk, rb_reason = rc_reason c,
        rb_betId = rc_betId c, rb_amount = rc_amount c, rb_status = RDraining, rb_attempts = 0,
        rb_leaseUntil = Some (now + DRAIN_LEASE_MS)\<rparr>]\<rparr>"
    using cl dk by (simp add: rb_claim_def Let_def)
  have "rb_key y \<noteq> (rc_operatorId c, dk)" if "y \<in> set (db_rollbacks w)" for y
    using find_rb_None [OF None that] by (simp add: is_rb_key)
  then have "(rc_operatorId c, dk) \<notin> rb_key ` set (db_rollbacks w)" by (metis imageE)
  with wf have wf': "outbox_wf w'" by (simp add: outbox_wf_def w' rb_key_def)
  define x where "x = last (db_rollbacks w')"
  have "x \<in> set (db_rollbacks w')" "is_rb (rc_operatorId c) dk x" "rb_status x = RDraining"
    "rb_leaseUntil x = Some (now + DRAIN_LEASE_MS)"
    by (simp_all add: x_def w' is_rb_def)
  with wf' None show ?thesis by (auto simp: find_rb_Some_iff)
next
  case (Some x)
  let ?f = "\<lambda>x. x\<lparr>rb_status := RDraining, rb_leaseUntil := Some (now + DRAIN_LEASE_MS)\<rparr>"
  have x: "x \<in> set (db_rollbacks w)" "rb_operatorId x = rc_operatorId c" "rb_dedupeKey x = dk"
    using find_rb_SomeD [OF Some] by auto
  have nc: "rb_status x \<noteq> RConfirmed" and nl: "\<not> hasLiveLease now (rb_status x) (rb_leaseUntil x)"
    using cl Some own dk by (auto simp: rb_claim_def Let_def owns_def split: if_splits)
  have "w' = rb_update (is_rb (rc_operatorId c) dk) ?f w"
    using cl Some nc nl dk acquireLease_eq [OF wf x(1), of now "rb_status x" "rb_leaseUntil x"] x
    by (simp add: rb_claim_def Let_def)
  then have db: "db_rollbacks w' = update_where (is_rb (rc_operatorId c) dk) ?f (db_rollbacks w)" by simp
  have "map rb_key (update_where (is_rb (rc_operatorId c) dk) ?f (db_rollbacks w)) = map rb_key (db_rollbacks w)"
    by (intro map_update_where) (simp add: rb_key_def)
  with wf db have wf': "outbox_wf w'" by (simp add: outbox_wf_def)
  have "?f x \<in> set (db_rollbacks w')"
    unfolding db set_update_where using x by (intro image_eqI [of _ _ x]) (auto simp: is_rb_def)
  then have "find_rb w' (rc_operatorId c) dk = Some (?f x)"
    using wf' x by (simp add: find_rb_Some_iff is_rb_def)
  with wf' nc nl Some show ?thesis by (auto simp: hasLiveLease_def split: option.splits)
qed

section \<open>The drain\<close>

definition confirmed_row :: "rollback_row \<Rightarrow> rollback_row" where
  "confirmed_row r = r\<lparr>rb_status := RConfirmed, rb_leaseUntil := None\<rparr>"

definition failed_row :: "rollback_row \<Rightarrow> rollback_row" where
  "failed_row r = r\<lparr>rb_attempts := rb_attempts r + 1, rb_status := RPending, rb_leaseUntil := None\<rparr>"

lemma rb_key_rows [simp]: "rb_key (confirmed_row r) = rb_key r" "rb_key (failed_row r) = rb_key r"
  by (simp_all add: confirmed_row_def failed_row_def rb_key_def)

lemma drain_row_eq:
  assumes wf: "outbox_wf w" and r: "r \<in> set (db_rollbacks w)"
    and op: "op_rollback api (rb_operatorId r) (rb_request r) (operator_state w) = (x, s')"
  shows "drain_row no_faults now api r (n, w) =
    (n + (case x of Inr _ \<Rightarrow> 1 | Inl _ \<Rightarrow> 0),
     w\<lparr>operator_state := s',
       db_rollbacks := map (\<lambda>y. if y = r then (case x of Inr _ \<Rightarrow> confirmed_row r | Inl _ \<Rightarrow> failed_row r)
                                else y) (db_rollbacks w)\<rparr>)"
proof -
  let ?P = "is_rb (rb_operatorId r) (rb_dedupeKey r)"
  let ?f = "\<lambda>x. x\<lparr>rb_status := RDraining, rb_leaseUntil := Some (now + DRAIN_LEASE_MS)\<rparr>"
  have keep: "?P (?f y)" if "?P y" for y using that by (simp add: is_rb_def)
  have upd: "update_where ?P g (db_rollbacks w) = map (\<lambda>y. if y = r then g r else y) (db_rollbacks w)" for g
    using outbox_same_row [OF wf r] by (simp add: update_where_def)
  have fuse: "update_where ?P g (update_where ?P ?f (db_rollbacks w)) =
      map (\<lambda>y. if y = r then g (?f r) else y) (db_rollbacks w)" for g
    using update_where_fuse [of ?P ?f g "db_rollbacks w", OF keep] upd [of "\<lambda>x. g (?f x)"] by metis
  show ?thesis
    using acquireLease_eq [OF wf r, of now "rb_status r" "rb_leaseUntil r"] op
    by (cases x)
      (simp_all add: drain_row_def drain_claim_def drain_emit_def Let_def rb_confirm_def rb_update_def fuse confirmed_row_def failed_row_def)
qed

text \<open>The whole scan: the acknowledged rows are confirmed, the others stay owed, none is touched twice.\<close>

definition after_drain :: "rollback_row set \<Rightarrow> rollback_row set \<Rightarrow> rollback_row \<Rightarrow> rollback_row" where
  "after_drain ok scanned x =
     (if x \<in> ok then confirmed_row x else if x \<in> scanned then failed_row x else x)"

lemma rb_key_after [simp]: "rb_key (after_drain ok sc x) = rb_key x"
  by (simp add: after_drain_def)

text \<open>The operator is up, and stays up: every rollback it is sent from now on is acknowledged.\<close>

definition operator_up :: "'o operator_api \<Rightarrow> ('o \<Rightarrow> bool) \<Rightarrow> bool" where
  "operator_up api up \<longleftrightarrow>
     (\<forall>oid rr s. up s \<longrightarrow> (\<exists>a s'. op_rollback api oid rr s = (Inr a, s') \<and> up s'))"

lemma after_drain_cases:
  assumes "ok \<subseteq> sc" and "\<And>y. y \<in> sc \<Longrightarrow> rb_owed now y"
  shows "rb_transactionId (after_drain ok sc x) = rb_transactionId x \<and>
    (after_drain ok sc x = x \<or> rb_owed now x \<and> rb_status (after_drain ok sc x) = RPending \<or>
     rb_owed now x \<and> rb_status (after_drain ok sc x) = RConfirmed \<and> x \<in> ok)"
  using assms by (auto simp: after_drain_def confirmed_row_def failed_row_def)

lemma after_drain_empty [simp]: "after_drain {} {} = (\<lambda>x. x)"
  by (rule ext) (simp add: after_drain_def)

lemma drain_fold:
  assumes "outbox_wf w" and "set rows \<subseteq> set (db_rollbacks w)" and "distinct (map rb_key rows)"
    and "fold (drain_row no_faults now api) rows (n, w) = (n', w')"
  shows "\<exists>ok \<subseteq> set rows. n' = n + card ok \<and>
     db_rollbacks w' = map (after_drain ok (set rows)) (db_rollbacks w) \<and>
     (operator_contract api applied \<longrightarrow>
        (\<forall>oid tx. applied (operator_state w) oid tx = None \<longrightarrow> applied (operator_state w') oid tx = None) \<and>
        (\<forall>r \<in> ok. applied (operator_state w') (rb_operatorId r) (rb_transactionId r) = None)) \<and>
     (operator_up api up \<and> up (operator_state w) \<longrightarrow> ok = set rows)"
  using assms
proof (induction rows arbitrary: n w)
  case (Cons r rows)
  obtain x s' where op: "op_rollback api (rb_operatorId r) (rb_request r) (operator_state w) = (x, s')"
    by fastforce
  define ok1 where "ok1 = (case x of Inr _ \<Rightarrow> {r} | Inl _ \<Rightarrow> {})"
  define r1 where "r1 = (case x of Inr _ \<Rightarrow> confirmed_row r | Inl _ \<Rightarrow> failed_row r)"
  define w1 where "w1 = w\<lparr>operator_state := s', db_rollbacks := map (\<lambda>y. if y = r then r1 else y) (db_rollbacks w)\<rparr>"
  have r: "r \<in> set (db_rollbacks w)" using Cons.prems by simp
  have k1: "rb_key r1 = rb_key r" by (simp add: r1_def split: sum.splits)
  have "drain_row no_faults now api r (n, w) = (n + card ok1, w1)"
    using drain_row_eq [OF Cons.prems(1) r op]
    by (simp add: ok1_def r1_def w1_def split: sum.splits)
  then have f: "fold (drain_row no_faults now api) rows (n + card ok1, w1) = (n', w')"
    using Cons.prems(4) by simp
  have "map rb_key (db_rollbacks w1) = map rb_key (db_rollbacks w)" by (simp add: w1_def k1)
  then have wf1: "outbox_wf w1" using Cons.prems(1) by (simp add: outbox_wf_def)
  have nr: "r \<notin> set rows" "r1 \<notin> set rows" using Cons.prems(3) k1 by (auto, metis image_eqI)
  then have sub: "set rows \<subseteq> set (db_rollbacks w1)" using Cons.prems(2) by (auto simp: w1_def)
  have dist: "distinct (map rb_key rows)" using Cons.prems(3) by simp
  from Cons.IH [OF wf1 sub dist f] obtain ok where ok: "ok \<subseteq> set rows"
    "n' = n + card ok1 + card ok" "db_rollbacks w' = map (after_drain ok (set rows)) (db_rollbacks w1)"
    "operator_contract api applied \<longrightarrow>
        (\<forall>oid tx. applied (operator_state w1) oid tx = None \<longrightarrow> applied (operator_state w') oid tx = None) \<and>
        (\<forall>r \<in> ok. applied (operator_state w') (rb_operatorId r) (rb_transactionId r) = None)"
    "operator_up api up \<and> up (operator_state w1) \<longrightarrow> ok = set rows"
    by blast
  have disj: "ok1 \<inter> ok = {}" "finite ok" "finite ok1" "r1 \<notin> ok"
    using ok(1) nr finite_subset by (auto simp: ok1_def split: sum.splits)
  have "db_rollbacks w' = map (after_drain (ok1 \<union> ok) (set (r # rows))) (db_rollbacks w)"
    unfolding ok(3) using nr disj ok(1)
    by (auto simp: w1_def after_drain_def ok1_def r1_def split: sum.splits)
  moreover have "operator_contract api applied \<longrightarrow>
        (\<forall>oid tx. applied (operator_state w) oid tx = None \<longrightarrow> applied (operator_state w') oid tx = None) \<and>
        (\<forall>r \<in> ok1 \<union> ok. applied (operator_state w') (rb_operatorId r) (rb_transactionId r) = None)"
  proof
    assume c: "operator_contract api applied"
    have mono: "applied (operator_state w) oid tx = None \<Longrightarrow> applied (operator_state w1) oid tx = None" for oid tx
      using operator_contract.rollback_others [OF c op] by (simp add: w1_def)
    have "applied (operator_state w1) (rb_operatorId r) (rb_transactionId r) = None" if "ok1 = {r}"
      using operator_contract.rollback_ok [OF c, of "rb_operatorId r" "rb_request r"] op that
      by (auto simp: ok1_def w1_def rb_request_def split: sum.splits)
    then show "(\<forall>oid tx. applied (operator_state w) oid tx = None \<longrightarrow> applied (operator_state w') oid tx = None) \<and>
        (\<forall>r \<in> ok1 \<union> ok. applied (operator_state w') (rb_operatorId r) (rb_transactionId r) = None)"
      using ok(4) c mono by (auto simp: ok1_def split: sum.splits)
  qed
  moreover have "operator_up api up \<and> up (operator_state w) \<longrightarrow> ok1 \<union> ok = set (r # rows)"
  proof
    assume u: "operator_up api up \<and> up (operator_state w)"
    then obtain a where "x = Inr a" "up s'" using op unfolding operator_up_def by (metis prod.inject)
    with ok(5) u show "ok1 \<union> ok = set (r # rows)" by (simp add: ok1_def w1_def)
  qed
  moreover have "n' = n + card (ok1 \<union> ok)" using ok(2) disj by (simp add: card_Un_disjoint)
  moreover have "ok1 \<union> ok \<subseteq> set (r # rows)" using ok(1) by (auto simp: ok1_def split: sum.splits)
  ultimately show ?case by blast
qed (auto intro!: exI [of _ "{}"])

text \<open>The scan of a drain: distinct rows of the table, all owed.\<close>

lemma scan_rows:
  assumes "outbox_wf w" and "rows = take limit (filter (rb_owed now) (db_rollbacks w))"
  shows "set rows \<subseteq> set (db_rollbacks w)" and "distinct (map rb_key rows)"
    and "r \<in> set rows \<Longrightarrow> rb_owed now r"
proof -
  show "set rows \<subseteq> set (db_rollbacks w)" and "r \<in> set rows \<Longrightarrow> rb_owed now r"
    using assms(2) by (auto dest: in_set_takeD)
  have "distinct (map rb_key (filter (rb_owed now) (db_rollbacks w)))"
    using assms(1) by (auto simp: outbox_wf_def distinct_map intro: inj_on_subset)
  then show "distinct (map rb_key rows)" by (simp add: assms(2) take_map [symmetric])
qed

lemma drain_result:
  assumes wf: "outbox_wf w" and dr: "drainPending no_faults now (Some api) limit w = (n, w')"
  obtains ok where "ok \<subseteq> set (take limit (filter (rb_owed now) (db_rollbacks w)))" and "n = card ok"
    and "db_rollbacks w' =
      map (after_drain ok (set (take limit (filter (rb_owed now) (db_rollbacks w))))) (db_rollbacks w)"
    and "operator_contract api applied \<Longrightarrow>
      \<forall>r \<in> ok. applied (operator_state w') (rb_operatorId r) (rb_transactionId r) = None"
    and "operator_up api up \<Longrightarrow> up (operator_state w) \<Longrightarrow>
      ok = set (take limit (filter (rb_owed now) (db_rollbacks w)))"
proof -
  have f: "fold (drain_row no_faults now api) (take limit (filter (rb_owed now) (db_rollbacks w))) (0, w)
      = (n, w')"
    using dr by (simp add: drainPending_def)
  from drain_fold [OF wf scan_rows(1) [OF wf refl] scan_rows(2) [OF wf refl] f, where applied = applied and up = up]
  obtain ok where ok: "ok \<subseteq> set (take limit (filter (rb_owed now) (db_rollbacks w)))" "n = 0 + card ok"
    "db_rollbacks w' =
      map (after_drain ok (set (take limit (filter (rb_owed now) (db_rollbacks w))))) (db_rollbacks w)"
    "operator_contract api applied \<longrightarrow>
      (\<forall>r \<in> ok. applied (operator_state w') (rb_operatorId r) (rb_transactionId r) = None)"
    "operator_up api up \<and> up (operator_state w) \<longrightarrow>
      ok = set (take limit (filter (rb_owed now) (db_rollbacks w)))"
    by blast
  show thesis
  proof (rule that [OF ok(1) _ ok(3)])
    show "n = card ok" using ok(2) by simp
  qed (use ok(4,5) in blast)+
qed

section \<open>Properties\<close>

text \<open>The two kinds of caller that can emit an owed rollback, each at its time: a live path with its claim,
  and a sweep with a row that its scan read.\<close>

datatype claimant = Live int rollback_claim | Sweep int rollback_row

fun claimant_time :: "claimant \<Rightarrow> int" where
  "claimant_time (Live t c) = t"
| "claimant_time (Sweep t r) = t"

fun claimant_key :: "claimant \<Rightarrow> uid \<times> string" where
  "claimant_key (Live t c) = (rc_operatorId c, dedupeKeyOf (rc_betId c) (rc_transactionId c) (rc_reason c))"
| "claimant_key (Sweep t r) = rb_key r"

fun has_scanned :: "'o world \<Rightarrow> claimant \<Rightarrow> bool" where
  "has_scanned w (Live t c) = True"
| "has_scanned w (Sweep t r) = (r \<in> set (filter (rb_owed t) (db_rollbacks w)))"

text \<open>Reading in \<open>w\<close> and claiming after other nodes have committed \<open>env\<close>: whether the caller may emit.\<close>

fun try_claim :: "('o world \<Rightarrow> 'o world) \<Rightarrow> 'o world \<Rightarrow> claimant \<Rightarrow> bool \<times> 'o world" where
  "try_claim env w (Live t c) = map_prod owns id (rb_claim no_faults env t c w)"
| "try_claim env w (Sweep t r) = drain_claim no_faults t r (env w)"

lemma try_claim_leases:
  assumes wf: "outbox_wf w" and b: "has_scanned w B" "try_claim id w B = (True, wB)" and key: "claimant_key B = (oid, dk)"
  shows "outbox_wf wB \<and> (\<exists>x. find_rb wB oid dk = Some x \<and> rb_status x = RDraining \<and>
     rb_leaseUntil x = Some (claimant_time B + DRAIN_LEASE_MS)) \<and>
    (\<forall>x. find_rb w oid dk = Some x \<longrightarrow> rb_status x \<noteq> RConfirmed \<and>
       (rb_status x = RDraining \<longrightarrow> (case rb_leaseUntil x of None \<Rightarrow> True | Some t \<Rightarrow> t \<le> claimant_time B)))"
proof (cases B)
  case (Live t c)
  then obtain r where "rb_claim no_faults id t c w = (r, wB)" "owns r" using b(2) by (cases "rb_claim no_faults id t c w") auto
  then show ?thesis using rb_claim_owns_leases [OF wf] key Live by force
next
  case (Sweep t r)
  let ?f = "\<lambda>x. x\<lparr>rb_status := RDraining, rb_leaseUntil := Some (t + DRAIN_LEASE_MS)\<rparr>"
  have r: "r \<in> set (db_rollbacks w)" "rb_owed t r" "rb_operatorId r = oid" "rb_dedupeKey r = dk"
    using b(1) key Sweep by (auto simp: rb_key_def)
  have "wB = rb_update (is_rb oid dk) ?f w"
    using b(2) Sweep acquireLease_eq [OF wf r(1), of t "rb_status r" "rb_leaseUntil r"] r(3,4)
    by (simp add: drain_claim_def)
  then have db: "db_rollbacks wB = update_where (is_rb oid dk) ?f (db_rollbacks w)" by simp
  have "map rb_key (update_where (is_rb oid dk) ?f (db_rollbacks w)) = map rb_key (db_rollbacks w)"
    by (intro map_update_where) (simp add: rb_key_def)
  with wf db have wf': "outbox_wf wB" by (simp add: outbox_wf_def)
  have "?f r \<in> set (db_rollbacks wB)"
    unfolding db set_update_where using r by (intro image_eqI [of _ _ r]) (auto simp: is_rb_def)
  then have "find_rb wB oid dk = Some (?f r)" using wf' r(3,4) by (simp add: find_rb_Some_iff is_rb_def)
  moreover have "x = r" if "find_rb w oid dk = Some x" for x
    using find_rb_SomeD [OF that] outbox_same_row [OF wf r(1)] r(3,4) by (auto simp: is_rb_def)
  ultimately show ?thesis using wf' r(2) Sweep by (auto simp: rb_owed_def split: option.splits)
qed

lemma sweep_loses:
  assumes wf: "outbox_wf wB" and x: "find_rb wB (rb_operatorId r) (rb_dedupeKey r) = Some x" "rb_status x = RDraining"
    and l: "rb_status r = RDraining \<Longrightarrow> rb_leaseUntil r \<noteq> rb_leaseUntil x"
  shows "drain_claim no_faults t r wB = (False, wB)"
proof -
  have "rb_operatorId x = rb_operatorId r" "rb_dedupeKey x = rb_dedupeKey r" "x \<in> set (db_rollbacks wB)"
    using find_rb_SomeD [OF x(1)] by auto
  then show ?thesis
    using acquireLease_eq [OF wf, of x t "rb_status r" "rb_leaseUntil r"] x(2) l by (auto simp: drain_claim_def)
qed

text \<open>
  C8. An owed rollback has one emitter. Let two callers want the same reversal, each a live path or a sweep of
  the drain, and let B's claim succeed, their writes going through. If A had read the outbox before, its own
  compare-and-swap fails, whichever of the two it is, so a sweep that had scanned the row does nothing with
  it, whatever the operator; and while B's lease is live no later claim of a live path succeeds and no
  later scan takes the row.
\<close>

theorem rb_claim_exclusive:
  assumes wf: "outbox_wf w" and same: "claimant_key A = claimant_key B"
    and b: "has_scanned w B" "try_claim id w B = (True, wB)"
  shows "(has_scanned w A \<longrightarrow> \<not> fst (try_claim (\<lambda>_. wB) w A)) \<and>
    (\<forall>r t api n. A = Sweep t r \<longrightarrow> has_scanned w A \<longrightarrow> drain_row no_faults t api r (n, wB) = (n, wB)) \<and>
    (claimant_time A < claimant_time B + DRAIN_LEASE_MS \<longrightarrow> \<not> (has_scanned wB A \<and> fst (try_claim id wB A)))"
proof -
  obtain oid dk where key: "claimant_key B = (oid, dk)" by fastforce
  from try_claim_leases [OF wf b key] obtain x where wfB: "outbox_wf wB"
    and x: "find_rb wB oid dk = Some x" "rb_status x = RDraining" "rb_leaseUntil x = Some (claimant_time B + DRAIN_LEASE_MS)"
    and old: "\<And>y. find_rb w oid dk = Some y \<Longrightarrow> rb_status y \<noteq> RConfirmed \<and>
      (rb_status y = RDraining \<longrightarrow> (case rb_leaseUntil y of None \<Rightarrow> True | Some t \<Rightarrow> t \<le> claimant_time B))"
    by blast
  have sweep: "drain_claim no_faults t r wB = (False, wB)" if "A = Sweep t r" "has_scanned w A" for t r
  proof (rule sweep_loses [OF wfB])
    have r: "r \<in> set (db_rollbacks w)" "rb_operatorId r = oid" "rb_dedupeKey r = dk"
      using that same key by (auto simp: rb_key_def)
    then show "find_rb wB (rb_operatorId r) (rb_dedupeKey r) = Some x" using x by simp
    have "find_rb w oid dk = Some r" using r wf by (simp add: find_rb_Some_iff is_rb_def)
    from old [OF this] show "rb_leaseUntil r \<noteq> rb_leaseUntil x" if "rb_status r = RDraining"
      using that x(3) by (auto simp: DRAIN_LEASE_MS_def split: option.splits)
  qed (rule x(2))
  have live: "\<not> owns (fst (rb_claim no_faults (\<lambda>_. wB) t c w))" if "A = Live t c" for t c
  proof (cases "find_rb w oid dk")
    case None
    then show ?thesis using x that same key by (auto simp: rb_claim_def Let_def owns_def seen_result_def)
  next
    case (Some y)
    have k: "rc_operatorId c = oid" "dedupeKeyOf (rc_betId c) (rc_transactionId c) (rc_reason c) = dk"
      using that same key by auto
    have "rb_operatorId x = oid" "rb_dedupeKey x = dk" "x \<in> set (db_rollbacks wB)" using find_rb_SomeD [OF x(1)] by auto
    with acquireLease_eq [OF wfB, of x t "rb_status y" "rb_leaseUntil y"] x old [OF Some]
    have "acquireLease t oid dk (rb_status y) (rb_leaseUntil y) wB = (False, wB)"
      by (auto simp: DRAIN_LEASE_MS_def split: option.splits if_splits)
    with Some x old [OF Some] k show ?thesis by (simp add: rb_claim_def Let_def owns_def seen_result_def)
  qed
  have late: "\<not> (has_scanned wB A \<and> fst (try_claim id wB A))" if "claimant_time A < claimant_time B + DRAIN_LEASE_MS"
  proof (cases A)
    case (Live t c)
    then show ?thesis using x that same key by (auto simp: rb_claim_def Let_def owns_def hasLiveLease_def)
  next
    case (Sweep t r)
    then have "has_scanned wB A \<Longrightarrow> r = x"
      using x(1) wfB same key distinct_key_eq [of rb_key "db_rollbacks wB" r x]
      by (auto simp: find_rb_Some_iff is_rb_key outbox_wf_def)
    then show ?thesis using Sweep x that by (auto simp: rb_owed_def)
  qed
  show ?thesis using sweep live late by (cases A) (auto simp: drain_row_def fst_map_prod)
qed

text \<open>
  A drain abandons nothing. Every row of the outbox is still there afterwards, in the same order
  and about the same reversal; a row the scan did not take is untouched; a row it took is either
  confirmed or pending again; and the returned number is the number of rows newly confirmed. When the
  operator keeps its contract, a newly confirmed row's transaction has no effect left at the operator.
\<close>

theorem drain_abandons_nothing:
  assumes wf: "outbox_wf w" and dr: "drainPending no_faults now (Some api) limit w = (n, w')"
    and api: "operator_contract api applied"
  shows "length (db_rollbacks w') = length (db_rollbacks w) \<and>
    (\<forall>i < length (db_rollbacks w).
       let r = db_rollbacks w ! i; r' = db_rollbacks w' ! i in
       rb_key r' = rb_key r \<and> rb_transactionId r' = rb_transactionId r \<and>
       (r' = r \<or> rb_owed now r \<and> rb_status r' = RPending \<or>
        rb_owed now r \<and> rb_status r' = RConfirmed \<and>
          applied (operator_state w') (rb_operatorId r) (rb_transactionId r) = None))"
proof -
  obtain ok where ok: "ok \<subseteq> set (take limit (filter (rb_owed now) (db_rollbacks w)))"
    "db_rollbacks w' =
      map (after_drain ok (set (take limit (filter (rb_owed now) (db_rollbacks w))))) (db_rollbacks w)"
    "\<forall>r \<in> ok. applied (operator_state w') (rb_operatorId r) (rb_transactionId r) = None"
    using drain_result [OF wf dr, where applied = applied] api by metis
  have scan: "r \<in> set (take limit (filter (rb_owed now) (db_rollbacks w))) \<Longrightarrow> rb_owed now r" for r
    by (rule scan_rows(3) [OF wf refl])
  show ?thesis
  proof (intro conjI allI impI)
    fix i assume i: "i < length (db_rollbacks w)"
    let ?r = "db_rollbacks w ! i" and ?r' = "db_rollbacks w' ! i"
    have e: "?r' = after_drain ok (set (take limit (filter (rb_owed now) (db_rollbacks w)))) ?r"
      using i by (simp add: ok(2))
    have "rb_key ?r' = rb_key ?r" by (simp add: e)
    moreover have "rb_transactionId ?r' = rb_transactionId ?r \<and> (?r' = ?r \<or>
        rb_owed now ?r \<and> rb_status ?r' = RPending \<or> rb_owed now ?r \<and> rb_status ?r' = RConfirmed \<and> ?r \<in> ok)"
      unfolding e by (rule after_drain_cases [OF ok(1) scan])
    ultimately show "let r = ?r; r' = ?r' in
       rb_key r' = rb_key r \<and> rb_transactionId r' = rb_transactionId r \<and>
       (r' = r \<or> rb_owed now r \<and> rb_status r' = RPending \<or>
        rb_owed now r \<and> rb_status r' = RConfirmed \<and>
          applied (operator_state w') (rb_operatorId r) (rb_transactionId r) = None)"
      using ok(3) unfolding Let_def by blast
  qed (simp add: ok(2))
qed

text \<open>
  When the operator answers again, one drain clears the backlog that fits its limit: every row it
  scanned is confirmed, their number is returned, and nothing the scan looks for is left. Rows beyond
  the limit are those left over.
\<close>

theorem drain_clears:
  assumes wf: "outbox_wf w" and dr: "drainPending no_faults now (Some api) limit w = (n, w')"
    and up: "operator_up api up" "up (operator_state w)"
    and fits: "count_where (rb_owed now) (db_rollbacks w) \<le> limit"
  shows "n = count_where (rb_owed now) (db_rollbacks w) \<and>
    (\<forall>r \<in> set (db_rollbacks w'). \<not> rb_owed now r)"
proof -
  have all: "take limit (filter (rb_owed now) (db_rollbacks w)) = filter (rb_owed now) (db_rollbacks w)"
    using fits by (simp add: count_where_def)
  obtain ok where ok: "n = card ok" "ok = set (filter (rb_owed now) (db_rollbacks w))"
    "db_rollbacks w' = map (after_drain ok (set (filter (rb_owed now) (db_rollbacks w)))) (db_rollbacks w)"
    using drain_result [OF wf dr, where up = up] up all by metis
  have "distinct (filter (rb_owed now) (db_rollbacks w))"
    using wf by (simp add: outbox_wf_def distinct_map)
  then have "n = count_where (rb_owed now) (db_rollbacks w)"
    using distinct_card [of "filter (rb_owed now) (db_rollbacks w)"] ok(1,2) unfolding count_where_def
    by metis
  moreover have "\<not> rb_owed now r" if "r \<in> set (db_rollbacks w')" for r
    using that unfolding ok(3) ok(2)
    by (auto simp: after_drain_def confirmed_row_def rb_owed_def split: if_splits)
  ultimately show ?thesis by blast
qed

end
