(* ===== verification/VR_Http.thy ===== *)
theory VR_Http
  imports VR_Drain
begin

text \<open>
  The HTTP client of the operator wallet (\<open>src/wallet/http-operator-wallet.ts\<close>) and the reference
  operator of the load tests (\<open>load/operator-wallet-stub.ts\<close>) behind an unreliable network.

  The client is a function of its endpoint resolver and of a transport: what one \<open>fetch\<close> does, given
  the URL, the Bearer token and the body. The transport's state is the state \<open>'o\<close> of the world
  outside. \<open>faulty_stub\<close> is such a transport: a script of network events decides for each request
  whether it is delivered, lost on the way, answered too late, refused or answered by a gateway.

  The stub keeps, per transaction id, the answer it gave and the signed delta; the source keeps them
  in the two maps \<open>applied\<close> and \<open>deltas\<close>, which it always writes and deletes together, and they are
  one map of pairs here. Its request counters are not modelled.
\<close>

section \<open>The client\<close>

record endpoint =
  ep_walletApiUrl :: string
  ep_walletApiKey :: "string option"

datatype wire_body = WireBalance string string | WireMove op_request | WireRollback op_rollback_request

record http_response =
  hr_status :: nat
  hr_json :: bool
  hr_operatorTxId :: string
  hr_balance :: string
  hr_error :: "string option"

datatype fetch_outcome = FetchAborted | FetchFailed | Fetched http_response

type_synonym 'o transport =
  "string \<Rightarrow> string option \<Rightarrow> wire_body \<Rightarrow> 'o \<Rightarrow> fetch_outcome \<times> 'o"

definition joinUrl :: "string \<Rightarrow> string \<Rightarrow> string" where
  "joinUrl base path =
     rev (dropWhile (\<lambda>c. c = CHR ''/'') (rev base)) @ ''/'' @ dropWhile (\<lambda>c. c = CHR ''/'') path"

definition bearer :: "endpoint \<Rightarrow> string option" where
  "bearer ep =
     (case ep_walletApiKey ep of None \<Rightarrow> None
      | Some k \<Rightarrow> if k = [] then None else Some (''Bearer '' @ k))"

definition resp_ok :: "http_response \<Rightarrow> bool" where
  "resp_ok r \<longleftrightarrow> 200 \<le> hr_status r \<and> hr_status r \<le> 299"

definition safeErrorCode :: "http_response \<Rightarrow> string option" where
  "safeErrorCode r = (if hr_json r then hr_error r else None)"

definition classify_response :: "http_response \<Rightarrow> op_error + http_response" where
  "classify_response r =
     (if resp_ok r
      then if hr_json r then Inr r else Inl (OperatorError ''operator_bad_response'')
      else if hr_status r = 402 \<or> hr_status r = 409 \<or> safeErrorCode r = Some ''insufficient_funds''
      then Inl OperatorInsufficientFunds
      else if hr_status r = 408 \<or> hr_status r = 504 then Inl OperatorTimeout
      else Inl (OperatorError (''operator_http_'' @ nat_to_string (hr_status r))))"

text \<open>An endpoint lookup that throws is an error of no special category for the caller.\<close>

definition http_post ::
  "(uid \<Rightarrow> endpoint option) \<Rightarrow> 'o transport \<Rightarrow> uid \<Rightarrow> string \<Rightarrow> wire_body \<Rightarrow> 'o \<Rightarrow>
   (op_error + http_response) \<times> 'o" where
  "http_post resolve net oid path body s =
     (case resolve oid of
        None \<Rightarrow> (Inl (OperatorError ''No Operator found''), s)
      | Some ep \<Rightarrow>
          if ep_walletApiUrl ep = [] then (Inl (OperatorError ''operator_wallet_not_configured''), s)
          else (case net (joinUrl (ep_walletApiUrl ep) path) (bearer ep) body s of
                  (FetchAborted, s') \<Rightarrow> (Inl OperatorTimeout, s')
                | (FetchFailed, s') \<Rightarrow> (Inl (OperatorError ''operator_network_error''), s')
                | (Fetched r, s') \<Rightarrow> (classify_response r, s')))"

definition http_move ::
  "(uid \<Rightarrow> endpoint option) \<Rightarrow> 'o transport \<Rightarrow> uid \<Rightarrow> string \<Rightarrow> wire_body \<Rightarrow> 'o \<Rightarrow>
   (op_error + op_response) \<times> 'o" where
  "http_move resolve net oid path body s =
     (case http_post resolve net oid path body s of
        (Inl e, s') \<Rightarrow> (Inl e, s')
      | (Inr r, s') \<Rightarrow> (Inr \<lparr>rs_operatorTxId = hr_operatorTxId r, rs_balance = hr_balance r\<rparr>, s'))"

definition HttpOperatorWalletApi :: "(uid \<Rightarrow> endpoint option) \<Rightarrow> 'o transport \<Rightarrow> 'o operator_api" where
  "HttpOperatorWalletApi resolve net =
     \<lparr>op_balance = (\<lambda>oid player ccy s.
         case http_post resolve net oid ''balance'' (WireBalance player ccy) s of
           (Inl e, s') \<Rightarrow> (Inl e, s') | (Inr r, s') \<Rightarrow> (Inr (hr_balance r), s')),
      op_bet = (\<lambda>oid req. http_move resolve net oid ''bet'' (WireMove req)),
      op_win = (\<lambda>oid req. http_move resolve net oid ''win'' (WireMove req)),
      op_rollback = (\<lambda>oid rr. http_move resolve net oid ''rollback'' (WireRollback rr))\<rparr>"

text \<open>
  \<open>cachedEndpointResolver\<close>: the cache is a map from operator id to the endpoint and its expiry. The
  fetcher may fail, which leaves the cache alone.
\<close>

type_synonym endpoint_cache = "uid \<Rightarrow> (endpoint \<times> int) option"

definition cachedEndpoint ::
  "(uid \<Rightarrow> endpoint option) \<Rightarrow> int \<Rightarrow> int \<Rightarrow> uid \<Rightarrow> endpoint_cache \<Rightarrow> endpoint option \<times> endpoint_cache" where
  "cachedEndpoint fetcher ttlMs now oid cache =
     (case cache oid of
        Some (ep, expiry) \<Rightarrow>
          if expiry > now then (Some ep, cache)
          else (case fetcher oid of None \<Rightarrow> (None, cache)
                | Some ep' \<Rightarrow> (Some ep', cache(oid \<mapsto> (ep', now + ttlMs))))
      | None \<Rightarrow> (case fetcher oid of None \<Rightarrow> (None, cache)
                | Some ep' \<Rightarrow> (Some ep', cache(oid \<mapsto> (ep', now + ttlMs)))))"

section \<open>The reference operator\<close>

record book_entry =
  be_bet :: int
  be_win :: int
  be_rollback :: int
  be_player :: string
  be_currency :: string

record stub_state =
  sb_balances :: "string \<Rightarrow> int option"
  sb_applied :: "string \<Rightarrow> (op_response \<times> int) option"
  sb_book :: "string \<Rightarrow> book_entry option"
  sb_seq :: nat

record stub_config =
  sc_origin :: string
  sc_key :: string
  sc_start :: int

definition stub_key :: "string \<Rightarrow> string \<Rightarrow> string" where
  "stub_key playerId currency = playerId @ '':'' @ currency"

definition stub_balance :: "stub_config \<Rightarrow> stub_state \<Rightarrow> string \<Rightarrow> int" where
  "stub_balance c s k = (case sb_balances s k of None \<Rightarrow> sc_start c | Some b \<Rightarrow> b)"

definition stub_bookEntry :: "stub_state \<Rightarrow> string \<Rightarrow> string \<Rightarrow> string \<Rightarrow> book_entry" where
  "stub_bookEntry s betId player ccy =
     (case sb_book s betId of Some e \<Rightarrow> e
      | None \<Rightarrow> \<lparr>be_bet = 0, be_win = 0, be_rollback = 0, be_player = player, be_currency = ccy\<rparr>)"

definition stub_opTx :: "nat \<Rightarrow> string" where
  "stub_opTx n = ''op-'' @ nat_to_string n"

definition stub_apply ::
  "stub_config \<Rightarrow> string \<Rightarrow> string \<Rightarrow> string \<Rightarrow> int \<Rightarrow> stub_state \<Rightarrow> op_response option \<times> stub_state" where
  "stub_apply c txId playerId currency delta s =
     (case sb_applied s txId of
        Some (res, _) \<Rightarrow> (Some res, s)
      | None \<Rightarrow>
          let k = stub_key playerId currency;
              after = stub_balance c s k + delta
          in if after < 0 then (None, s)
             else let res = \<lparr>rs_operatorTxId = stub_opTx (sb_seq s + 1), rs_balance = bigint_to_string after\<rparr>
                  in (Some res, s\<lparr>sb_balances := (sb_balances s)(k \<mapsto> after), sb_seq := sb_seq s + 1,
                                  sb_applied := (sb_applied s)(txId \<mapsto> (res, delta))\<rparr>))"

definition json_ok :: "op_response \<Rightarrow> http_response" where
  "json_ok r = \<lparr>hr_status = 200, hr_json = True, hr_operatorTxId = rs_operatorTxId r,
                hr_balance = rs_balance r, hr_error = None\<rparr>"

definition json_error :: "nat \<Rightarrow> string \<Rightarrow> http_response" where
  "json_error status e = \<lparr>hr_status = status, hr_json = True, hr_operatorTxId = [], hr_balance = [],
                          hr_error = Some e\<rparr>"

text \<open>The two money moves: \<open>/bet\<close> debits and \<open>/win\<close> credits. A body amount that is no BigInt throws.\<close>

definition stub_move ::
  "stub_config \<Rightarrow> move_kind \<Rightarrow> op_request \<Rightarrow> stub_state \<Rightarrow> http_response \<times> stub_state" where
  "stub_move c kind req s =
     (case string_to_bigint (rq_amount req) of
        None \<Rightarrow> (json_error 500 ''SyntaxError'', s)
      | Some amount \<Rightarrow>
          let fresh = sb_applied s (rq_transactionId req) = None in
          case stub_apply c (rq_transactionId req) (rq_playerId req) (rq_currency req)
                 (case kind of MBet \<Rightarrow> - amount | MWin \<Rightarrow> amount) s of
            (None, s1) \<Rightarrow> (json_error 402 ''insufficient_funds'', s1)
          | (Some r, s1) \<Rightarrow>
              if fresh \<and> rq_betId req \<noteq> []
              then let e = stub_bookEntry s1 (rq_betId req) (rq_playerId req) (rq_currency req);
                       e' = (case kind of MBet \<Rightarrow> e\<lparr>be_bet := be_bet e + amount\<rparr>
                                        | MWin \<Rightarrow> e\<lparr>be_win := be_win e + amount\<rparr>)
                   in (json_ok r, s1\<lparr>sb_book := (sb_book s1)(rq_betId req \<mapsto> e')\<rparr>)
              else (json_ok r, s1))"

definition stub_rollback ::
  "stub_config \<Rightarrow> op_rollback_request \<Rightarrow> stub_state \<Rightarrow> http_response \<times> stub_state" where
  "stub_rollback c rr s =
     (let k = stub_key (rr_playerId rr) (rr_currency rr);
          s1 = (case sb_applied s (rr_transactionId rr) of
                  None \<Rightarrow> s
                | Some (_, delta) \<Rightarrow>
                    let s0 = s\<lparr>sb_balances := (sb_balances s)(k \<mapsto> stub_balance c s k - delta),
                               sb_applied := (sb_applied s)(rr_transactionId rr := None)\<rparr>
                    in case sb_book s0 (rr_betId rr) of
                         None \<Rightarrow> s0
                       | Some e \<Rightarrow>
                           if rr_betId rr = [] then s0
                           else s0\<lparr>sb_book := (sb_book s0)(rr_betId rr \<mapsto>
                                     e\<lparr>be_rollback := be_rollback e - delta\<rparr>)\<rparr>)
      in (json_ok \<lparr>rs_operatorTxId = stub_opTx (sb_seq s1 + 1),
                   rs_balance = bigint_to_string (stub_balance c s1 k)\<rparr>,
          s1\<lparr>sb_seq := sb_seq s1 + 1\<rparr>))"

text \<open>The server: authentication, then the path. \<open>origin\<close> is where it listens.\<close>

definition stub_path :: "stub_config \<Rightarrow> string \<Rightarrow> string option" where
  "stub_path c url =
     (if starts_with url (sc_origin c @ ''/'')
      then Some (dropWhile (\<lambda>ch. ch = CHR ''/'') (drop (length (sc_origin c) + 1) url)) else None)"

definition stub_fetch ::
  "stub_config \<Rightarrow> string \<Rightarrow> string option \<Rightarrow> wire_body \<Rightarrow> stub_state \<Rightarrow> http_response \<times> stub_state" where
  "stub_fetch c path auth body s =
     (if auth \<noteq> Some (''Bearer '' @ sc_key c) then (json_error 401 ''unauthorized'', s)
      else case body of
        WireBalance player ccy \<Rightarrow>
          if path = ''balance''
          then (json_ok \<lparr>rs_operatorTxId = [],
                  rs_balance = bigint_to_string (stub_balance c s (stub_key player ccy))\<rparr>, s)
          else (json_error 404 (''unknown_path_'' @ path), s)
      | WireMove req \<Rightarrow>
          if path = ''bet'' then stub_move c MBet req s
          else if path = ''win'' then stub_move c MWin req s
          else (json_error 404 (''unknown_path_'' @ path), s)
      | WireRollback rr \<Rightarrow>
          if path = ''rollback'' then stub_rollback c rr s
          else (json_error 404 (''unknown_path_'' @ path), s))"

section \<open>The network\<close>

datatype net_event =
    NetDeliver | NetRefused | NetLostRequest | NetLostResponse | NetGateway bool nat

type_synonym net_state = "stub_state \<times> net_event list"

definition gateway_status :: "nat \<Rightarrow> nat" where
  "gateway_status n = (if n = 0 then 504 else if n = 1 then 502 else 500)"

definition gateway_page :: "nat \<Rightarrow> http_response" where
  "gateway_page n = \<lparr>hr_status = gateway_status n, hr_json = False, hr_operatorTxId = [],
                     hr_balance = [], hr_error = None\<rparr>"

definition faulty_stub :: "stub_config \<Rightarrow> net_state transport" where
  "faulty_stub c url auth body st =
     (case st of (s, evs) \<Rightarrow>
       let ev = (case evs of [] \<Rightarrow> NetDeliver | e # _ \<Rightarrow> e); rest = tl evs in
       case stub_path c url of
         None \<Rightarrow> (FetchFailed, (s, rest))
       | Some path \<Rightarrow>
           (case stub_fetch c path auth body s of (r, s') \<Rightarrow>
             (case ev of
                NetDeliver \<Rightarrow> (Fetched r, (s', rest))
              | NetRefused \<Rightarrow> (FetchFailed, (s, rest))
              | NetLostRequest \<Rightarrow> (FetchAborted, (s, rest))
              | NetLostResponse \<Rightarrow> (FetchAborted, (s', rest))
              | NetGateway handled n \<Rightarrow> (Fetched (gateway_page n), (if handled then s' else s, rest)))))"

section \<open>The reference operator keeps the contract on any network\<close>

definition stub_applied :: "net_state \<Rightarrow> uid \<Rightarrow> string \<Rightarrow> int option" where
  "stub_applied st oid tx = map_option snd (sb_applied (fst st) tx)"

lemma classify_simps [simp]:
  "classify_response (json_ok r) = Inr (json_ok r)"
  "classify_response (json_error 402 e) = Inl OperatorInsufficientFunds"
  "classify_response (json_error 401 ''unauthorized'') = Inl (OperatorError (''operator_http_'' @ nat_to_string 401))"
  "classify_response (json_error 404 (''unknown_path_'' @ p)) = Inl (OperatorError (''operator_http_'' @ nat_to_string 404))"
  "classify_response (json_error 500 ''SyntaxError'') = Inl (OperatorError (''operator_http_'' @ nat_to_string 500))"
  by (simp_all add: classify_response_def json_ok_def json_error_def resp_ok_def safeErrorCode_def)

lemma fetch_rejects:
  "auth \<noteq> Some (''Bearer '' @ sc_key c) \<Longrightarrow>
     stub_fetch c p auth body s = (json_error 401 ''unauthorized'', s)"
  "auth = Some (''Bearer '' @ sc_key c) \<Longrightarrow> p \<noteq> ''bet'' \<Longrightarrow> p \<noteq> ''win'' \<Longrightarrow>
     stub_fetch c p auth (WireMove req) s = (json_error 404 (''unknown_path_'' @ p), s)"
  "auth = Some (''Bearer '' @ sc_key c) \<Longrightarrow> p \<noteq> ''rollback'' \<Longrightarrow>
     stub_fetch c p auth (WireRollback rr) s = (json_error 404 (''unknown_path_'' @ p), s)"
  unfolding stub_fetch_def by (simp_all only: if_True if_False wire_body.case not_True_eq_False simp_thms)

lemma fetch_accepts:
  "auth = Some (''Bearer '' @ sc_key c) \<Longrightarrow>
     stub_fetch c ''bet'' auth (WireMove req) s = stub_move c MBet req s"
  "auth = Some (''Bearer '' @ sc_key c) \<Longrightarrow>
     stub_fetch c ''win'' auth (WireMove req) s = stub_move c MWin req s"
  "auth = Some (''Bearer '' @ sc_key c) \<Longrightarrow>
     stub_fetch c ''rollback'' auth (WireRollback rr) s = stub_rollback c rr s"
  unfolding stub_fetch_def by simp_all

lemma classify_gateway: "\<exists>e. classify_response (gateway_page n) = Inl e \<and> e \<noteq> OperatorInsufficientFunds"
  by (simp add: classify_response_def gateway_page_def gateway_status_def resp_ok_def safeErrorCode_def)

text \<open>The path the stub sees ends as the client's path ends, so a bet never arrives as a win.\<close>

lemma stub_path_last:
  assumes "stub_path c (joinUrl base path) = Some p" and "p \<noteq> []"
    and "path \<noteq> []" and "CHR ''/'' \<notin> set path"
  shows "last p = last path"
proof -
  let ?u = "joinUrl base path" and ?r = "drop (length (sc_origin c) + 1) (joinUrl base path)"
  have np: "dropWhile (\<lambda>ch. ch = CHR ''/'') path = path" using assms(4) by (cases path) auto
  have p: "p = dropWhile (\<lambda>ch. ch = CHR ''/'') ?r" using assms(1) by (simp add: stub_path_def split: if_splits)
  have "last ?u = last path" using assms(3) np by (simp add: joinUrl_def)
  moreover have "last ?r = last ?u" using p assms(2) by (intro last_drop) (metis drop_all dropWhile.simps(1) not_less)
  moreover have "last p = last ?r" using p assms(2) by (metis last_appendR takeWhile_dropWhile_id)
  ultimately show ?thesis by simp
qed

lemma post_cases:
  assumes "http_post resolve (faulty_stub c) oid path body (s, evs) = (x, (s', evs'))"
  shows "(s' = s \<and> (\<exists>e. x = Inl e \<and> e \<noteq> OperatorInsufficientFunds)) \<or>
    (\<exists>base auth p. stub_path c (joinUrl base path) = Some p \<and> s' = snd (stub_fetch c p auth body s) \<and>
       (x = classify_response (fst (stub_fetch c p auth body s)) \<or>
        (\<exists>e. x = Inl e \<and> e \<noteq> OperatorInsufficientFunds)))"
proof (cases "resolve oid")
  case (Some ep)
  show ?thesis
  proof (cases "ep_walletApiUrl ep = [] \<or> stub_path c (joinUrl (ep_walletApiUrl ep) path) = None")
    case True
    with Some assms show ?thesis
      by (auto simp: http_post_def faulty_stub_def Let_def split: if_splits)
  next
    case False
    then obtain p where p: "stub_path c (joinUrl (ep_walletApiUrl ep) path) = Some p" by blast
    obtain r s1 where f: "stub_fetch c p (bearer ep) body s = (r, s1)" by fastforce
    define ev where "ev = (case evs of [] \<Rightarrow> NetDeliver | e # _ \<Rightarrow> e)"
    have "(s' = s \<and> (\<exists>e. x = Inl e \<and> e \<noteq> OperatorInsufficientFunds)) \<or>
       s' = s1 \<and> (x = classify_response r \<or> (\<exists>e. x = Inl e \<and> e \<noteq> OperatorInsufficientFunds))"
      using assms Some False p f ev_def [symmetric] classify_gateway
      by (cases ev) (auto simp: http_post_def faulty_stub_def Let_def)
    with p f show ?thesis by (metis fst_conv snd_conv)
  qed
qed (use assms in \<open>auto simp: http_post_def\<close>)

lemma stub_move_effect:
  assumes "stub_move c kind req s = (r, s')"
  shows "tx \<noteq> rq_transactionId req \<Longrightarrow> sb_applied s' tx = sb_applied s tx"
    and "case string_to_bigint (rq_amount req) of
        None \<Rightarrow> s' = s \<and> r = json_error 500 ''SyntaxError''
      | Some a \<Rightarrow> r = json_error 402 ''insufficient_funds'' \<and> s' = s \<and> sb_applied s (rq_transactionId req) = None
          \<or> (\<exists>q. r = json_ok q) \<and> map_option snd (sb_applied s' (rq_transactionId req)) =
              settle (case kind of MBet \<Rightarrow> - a | MWin \<Rightarrow> a)
                (map_option snd (sb_applied s (rq_transactionId req)))"
  using assms
  by (auto simp: stub_move_def stub_apply_def Let_def settle_def split: option.splits if_splits)

definition kind_path :: "move_kind \<Rightarrow> string" where
  "kind_path k = (case k of MBet \<Rightarrow> ''bet'' | MWin \<Rightarrow> ''win'')"

lemma fetch_move:
  assumes "stub_path c (joinUrl base (kind_path k)) = Some p"
  shows "stub_fetch c p auth (WireMove req) s = stub_move c k req s \<or>
    snd (stub_fetch c p auth (WireMove req) s) = s \<and>
      (\<exists>m. classify_response (fst (stub_fetch c p auth (WireMove req) s)) = Inl (OperatorError m))"
proof -
  have "p = kind_path k" if "p = ''bet'' \<or> p = ''win''"
    using stub_path_last [OF assms] that by (cases k) (auto simp: kind_path_def)
  then consider "p = kind_path k" | "p \<noteq> ''bet''" "p \<noteq> ''win''" by blast
  then show ?thesis
  proof cases
    case 1
    then show ?thesis
      by (cases "auth = Some (''Bearer '' @ sc_key c)"; cases k)
        (simp_all only: fetch_accepts fetch_rejects(1) kind_path_def move_kind.case simp_thms
          classify_simps fst_conv snd_conv, blast+)
  next
    case 2
    then show ?thesis
      by (cases "auth = Some (''Bearer '' @ sc_key c)")
        (simp_all only: fetch_rejects classify_simps fst_conv snd_conv simp_thms, blast+)
  qed
qed

text \<open>One money move over the network: nothing happened, or the stub handled it.\<close>

lemma http_move_cases:
  assumes "http_move resolve (faulty_stub c) oid (kind_path k) (WireMove req) st = (x, st')"
  shows "(fst st' = fst st \<and> (\<exists>e. x = Inl e \<and> e \<noteq> OperatorInsufficientFunds)) \<or>
    fst st' = snd (stub_move c k req (fst st)) \<and>
      ((\<exists>q y. fst (stub_move c k req (fst st)) = json_ok q \<and> x = Inr y) \<or>
       (x = Inl OperatorInsufficientFunds \<and>
          classify_response (fst (stub_move c k req (fst st))) = Inl OperatorInsufficientFunds) \<or>
       (\<exists>e. x = Inl e \<and> e \<noteq> OperatorInsufficientFunds))"
proof -
  obtain s evs s' evs' where st: "st = (s, evs)" "st' = (s', evs')" by (metis prod.collapse)
  obtain y where y: "http_post resolve (faulty_stub c) oid (kind_path k) (WireMove req) (s, evs) = (y, (s', evs'))"
    and x: "x = (case y of Inl e \<Rightarrow> Inl e | Inr r \<Rightarrow> Inr \<lparr>rs_operatorTxId = hr_operatorTxId r, rs_balance = hr_balance r\<rparr>)"
    using assms st by (auto simp: http_move_def split: prod.splits sum.splits)
  obtain r s1 where m: "stub_move c k req s = (r, s1)" by fastforce
  have r: "(\<exists>q. r = json_ok q) \<or> (\<exists>e. classify_response r = Inl e)"
    using stub_move_effect(2) [OF m] by (auto split: option.splits)
  from post_cases [OF y] show ?thesis
  proof (elim disjE exE conjE)
    fix base auth p
    assume "stub_path c (joinUrl base (kind_path k)) = Some p" "s' = snd (stub_fetch c p auth (WireMove req) s)"
      "y = classify_response (fst (stub_fetch c p auth (WireMove req) s))"
    with fetch_move [of c base k p auth req s] x m r st show ?thesis by auto
  next
    fix base auth p e
    assume "stub_path c (joinUrl base (kind_path k)) = Some p" "s' = snd (stub_fetch c p auth (WireMove req) s)"
      "y = Inl e" "e \<noteq> OperatorInsufficientFunds"
    with fetch_move [of c base k p auth req s] x m st show ?thesis by auto
  qed (use x st in auto)
qed

lemma stub_rollback_effect:
  "sb_applied (snd (stub_rollback c rr s)) tx =
     (if tx = rr_transactionId rr then None else sb_applied s tx)"
  "\<exists>q. fst (stub_rollback c rr s) = json_ok q"
  by (auto simp: stub_rollback_def Let_def split: option.splits)

lemma http_rollback_cases:
  assumes "http_move resolve (faulty_stub c) oid ''rollback'' (WireRollback rr) st = (x, st')"
  shows "(fst st' = fst st \<and> (\<exists>e. x = Inl e)) \<or> fst st' = snd (stub_rollback c rr (fst st))"
proof -
  obtain s evs s' evs' where st: "st = (s, evs)" "st' = (s', evs')" by (metis prod.collapse)
  obtain y where y: "http_post resolve (faulty_stub c) oid ''rollback'' (WireRollback rr) (s, evs) = (y, (s', evs'))"
    and x: "x = (case y of Inl e \<Rightarrow> Inl e | Inr r \<Rightarrow> Inr \<lparr>rs_operatorTxId = hr_operatorTxId r, rs_balance = hr_balance r\<rparr>)"
    using assms st by (auto simp: http_move_def split: prod.splits sum.splits)
  have f: "stub_fetch c p auth (WireRollback rr) s = stub_rollback c rr s \<or>
      snd (stub_fetch c p auth (WireRollback rr) s) = s \<and>
      (\<exists>e. classify_response (fst (stub_fetch c p auth (WireRollback rr) s)) = Inl e)" for p auth
    by (cases "auth = Some (''Bearer '' @ sc_key c)"; cases "p = ''rollback''")
      (simp_all only: fetch_accepts fetch_rejects classify_simps fst_conv snd_conv simp_thms, blast+)
  from post_cases [OF y] show ?thesis
  proof (elim disjE exE conjE)
    fix base auth p
    assume "s' = snd (stub_fetch c p auth (WireRollback rr) s)"
      "y = classify_response (fst (stub_fetch c p auth (WireRollback rr) s))"
    with f [of p auth] x st show ?thesis by auto
  next
    fix base auth p e
    assume "s' = snd (stub_fetch c p auth (WireRollback rr) s)" "y = Inl e"
    with f [of p auth] x st show ?thesis by auto
  qed (use x st in auto)
qed

text \<open>The effect of a money move on the stub's book, whatever the network did.\<close>

lemma http_move_effect:
  assumes m: "http_move resolve (faulty_stub c) oid (kind_path k) (WireMove req) st = (x, st')"
    and a: "string_to_bigint (rq_amount req) = Some a"
    and t: "old = stub_applied st o1 (rq_transactionId req)" "new = stub_applied st' o2 (rq_transactionId req)"
      "d = (case k of MBet \<Rightarrow> - a | MWin \<Rightarrow> a)"
  shows "case x of Inr r \<Rightarrow> new = settle d old
    | Inl e \<Rightarrow> new \<in> {old, settle d old} \<and> (e = OperatorInsufficientFunds \<longrightarrow> old = None \<and> new = None)"
proof -
  obtain r s1 where s: "stub_move c k req (fst st) = (r, s1)" by fastforce
  from stub_move_effect(2) [OF s] a
  have "r = json_error 402 ''insufficient_funds'' \<and> s1 = fst st \<and> sb_applied (fst st) (rq_transactionId req) = None
     \<or> (\<exists>q. r = json_ok q) \<and> map_option snd (sb_applied s1 (rq_transactionId req)) = settle d old"
    by (simp add: t stub_applied_def)
  moreover have "json_error 402 e \<noteq> json_ok q" for e q by (simp add: json_error_def json_ok_def)
  ultimately show ?thesis
    using http_move_cases [OF m] s t(1,2) by (auto simp: stub_applied_def)
qed

lemma http_refused_unknown:
  assumes m: "http_move resolve (faulty_stub c) oid (kind_path k) (WireMove req) st
      = (Inl OperatorInsufficientFunds, st')"
  shows "stub_applied st oid (rq_transactionId req) = None \<and> stub_applied st' oid (rq_transactionId req) = None"
proof -
  obtain r s1 where s: "stub_move c k req (fst st) = (r, s1)" by fastforce
  from http_move_cases [OF m] s have "fst st' = s1" "classify_response r = Inl OperatorInsufficientFunds"
    by auto
  with stub_move_effect(2) [OF s] show ?thesis
    by (auto simp: stub_applied_def split: option.splits)
qed

lemma http_move_others:
  assumes m: "http_move resolve (faulty_stub c) oid (kind_path k) (WireMove req) st = (x, st')"
    and "tx \<noteq> rq_transactionId req"
  shows "stub_applied st' o1 tx = stub_applied st o1 tx"
proof -
  obtain r s1 where s: "stub_move c k req (fst st) = (r, s1)" by fastforce
  then show ?thesis
    using http_move_cases [OF m] stub_move_effect(1) [OF s assms(2)] by (auto simp: stub_applied_def)
qed

lemma http_api_simps:
  "op_bet (HttpOperatorWalletApi resolve net) oid req = http_move resolve net oid (kind_path MBet) (WireMove req)"
  "op_win (HttpOperatorWalletApi resolve net) oid req = http_move resolve net oid (kind_path MWin) (WireMove req)"
  "op_rollback (HttpOperatorWalletApi resolve net) oid rr = http_move resolve net oid ''rollback'' (WireRollback rr)"
  by (simp_all add: HttpOperatorWalletApi_def kind_path_def)

lemma stub_contract: "operator_contract (HttpOperatorWalletApi resolve (faulty_stub c)) stub_applied"
proof (unfold_locales, unfold http_api_simps)
  fix oid req s r s' a
  assume "http_move resolve (faulty_stub c) oid (kind_path MBet) (WireMove req) s = (Inr r, s')"
    "string_to_bigint (rq_amount req) = Some a"
  from http_move_effect [OF this refl refl refl]
  show "stub_applied s' oid (rq_transactionId req) = settle (- a) (stub_applied s oid (rq_transactionId req))"
    by simp
next
  fix oid req s e s' a
  assume "http_move resolve (faulty_stub c) oid (kind_path MBet) (WireMove req) s = (Inl e, s')"
    "string_to_bigint (rq_amount req) = Some a"
  from http_move_effect [OF this refl refl refl]
  show "stub_applied s' oid (rq_transactionId req) \<in> {stub_applied s oid (rq_transactionId req),
      settle (- a) (stub_applied s oid (rq_transactionId req))}"
    by simp
next
  fix oid req s r s' a
  assume "http_move resolve (faulty_stub c) oid (kind_path MWin) (WireMove req) s = (Inr r, s')"
    "string_to_bigint (rq_amount req) = Some a"
  from http_move_effect [OF this refl refl refl]
  show "stub_applied s' oid (rq_transactionId req) = settle a (stub_applied s oid (rq_transactionId req))"
    by simp
next
  fix oid req s e s' a
  assume "http_move resolve (faulty_stub c) oid (kind_path MWin) (WireMove req) s = (Inl e, s')"
    "string_to_bigint (rq_amount req) = Some a"
  from http_move_effect [OF this refl refl refl]
  show "stub_applied s' oid (rq_transactionId req) \<in> {stub_applied s oid (rq_transactionId req),
      settle a (stub_applied s oid (rq_transactionId req))}"
    by simp
next
  fix oid rr s r s'
  assume "http_move resolve (faulty_stub c) oid ''rollback'' (WireRollback rr) s = (Inr r, s')"
  from http_rollback_cases [OF this] show "stub_applied s' oid (rr_transactionId rr) = None"
    by (auto simp: stub_applied_def stub_rollback_effect)
next
  fix oid rr s e s'
  assume "http_move resolve (faulty_stub c) oid ''rollback'' (WireRollback rr) s = (Inl e, s')"
  from http_rollback_cases [OF this]
  show "stub_applied s' oid (rr_transactionId rr) \<in> {stub_applied s oid (rr_transactionId rr), None}"
    by (auto simp: stub_applied_def stub_rollback_effect)
next
  fix oid rr s x s' oid' tx
  assume "http_move resolve (faulty_stub c) oid ''rollback'' (WireRollback rr) s = (x, s')"
    "stub_applied s oid' tx = None"
  with http_rollback_cases [OF this(1)] show "stub_applied s' oid' tx = None"
    by (auto simp: stub_applied_def stub_rollback_effect)
qed (use http_refused_unknown http_move_others in blast)+

interpretation stub: operator_contract "HttpOperatorWalletApi resolve (faulty_stub c)" stub_applied
  for resolve c by (rule stub_contract)

end
