(* ===== verification/VR_Seamless.thy ===== *)
theory VR_Seamless
  imports VR_Http
begin

text \<open>
  The operator wallet as the application wires it (\<open>src/wallet/wallet.module.ts\<close>) and what it promises
  the game: a rejected bet is never silently charged, a won payout is never clawed back and is paid at
  most once, and play money never reaches an operator.
\<close>

section \<open>The wiring\<close>

text \<open>\<open>new SeamlessOperatorWallet(operatorApi, sessions.resolver(), {}, rollbacks)\<close>: three attempts.\<close>

definition operatorWallet_cfg ::
  "'o operator_api \<Rightarrow> store_faults \<Rightarrow> int \<Rightarrow> 'o seam_cfg" where
  "operatorWallet_cfg api sf now =
     \<lparr>se_api = api, se_resolve = resolver, se_maxRetries = 3,
      se_store = Some \<lparr>st_faults = sf, st_race = id, st_now = now\<rparr>\<rparr>"

definition walletProvider ::
  "string option \<Rightarrow> 'o operator_api \<Rightarrow> store_faults \<Rightarrow> int \<Rightarrow> exn + 'o wallet_provider" where
  "walletProvider ty api sf now =
     wallet_factory ty ledgerProvider (SeamlessOperatorWallet (operatorWallet_cfg api sf now))"

lemma operatorWallet_frame [simp]: "store_frame (operatorWallet_cfg api sf now)"
  by (simp add: store_frame_def operatorWallet_cfg_def race_frame_def)

interpretation ow: real_money "SeamlessOperatorWallet (operatorWallet_cfg api sf now)" for api sf now
  by (rule seam_real_money) simp

interpretation router: money_router ledgerProvider "SeamlessOperatorWallet (operatorWallet_cfg api sf now)"
  "\<lambda>w i. Inr (isDemoWallet w i)" for api sf now
  by unfold_locales

lemma race_keeps_id [simp]: "race_keeps id oid dk"
  by (simp add: race_keeps_def)

lemma move_request_amount [simp]: "string_to_bigint (rq_amount (move_request s a k r)) = Some a"
  by (simp add: move_request_def)

lemma move_request_tx [simp]: "rq_transactionId (move_request s a k r) = k"
  by (simp add: move_request_def)

section \<open>Properties\<close>

text \<open>
  C5. A debit that fails does not charge the player, or the refund it owes is on record. With any
  operator that keeps its contract, whatever it answers and however the calls fail: when the debit
  reports success the stake is applied at the operator exactly once under the idempotency key, and
  when it throws, either the key has no effect left at the operator or the outbox holds a pending
  rollback for it, which the periodic drain re-issues.
\<close>

theorem failed_debit_compensated:
  assumes api: "operator_contract (se_api cfg) applied"
    and st: "se_store cfg = Some st" "st_faults st = no_faults" "0 < se_maxRetries cfg"
    and s: "se_resolve cfg w walletId = Inr s" and len: "length key \<le> 200"
    and fresh: "\<forall>reason. find_rb w (os_operatorId s) (dedupeKeyOf (ref_id_of ref) key reason) = None"
    and race: "\<forall>reason. race_keeps (st_race st) (os_operatorId s) (dedupeKeyOf (ref_id_of ref) key reason)"
    and res: "seam_debit cfg walletId amount t key ref w = (x, w')"
  shows "case x of
      Inr _ \<Rightarrow> applied (operator_state w') (os_operatorId s) key
        = settle (- amount) (applied (operator_state w) (os_operatorId s) key)
    | Inl _ \<Rightarrow> applied (operator_state w') (os_operatorId s) key = None
        \<or> owed_row w' (os_operatorId s) key"
proof -
  have l: "assertTxIdLength key" using len by (simp add: assertTxIdLength_def MAX_OUTBOUND_TX_ID_LEN_def)
  have "move_loop (se_maxRetries cfg) cfg MBet s (move_request s amount key ref) ref w = (x, w')"
    using res s l by (simp add: seam_debit_def seam_move_def)
  from operator_contract.bet_loop_settles [OF api refl _ _ st(1,2) _ _ this st(3)] l fresh race
  show ?thesis by (simp split: sum.splits)
qed

text \<open>
  C6. A won payout is never clawed back and never paid twice. However often the credit of one payout
  key is issued, by the cash-out or by the reconciler, and however each call ends: the operator's book
  shows either what it showed before or the payout applied once; a call that reports success leaves
  it applied; a call that fails reports \<open>payout_pending\<close>; and no rollback is ever recorded or emitted.
\<close>

theorem credit_pays_at_most_once:
  assumes api: "operator_contract (se_api cfg) applied" and n: "0 < se_maxRetries cfg"
    and s: "\<forall>v. db_sessions v = db_sessions w \<longrightarrow> se_resolve cfg v walletId = Inr s"
    and len: "length key \<le> 200"
    and before: "v = ((\<lambda>u. snd (seam_credit cfg walletId amount t key ref u)) ^^ k) w"
    and call: "seam_credit cfg walletId amount t key ref v = (x, w')"
  shows "applied (operator_state w') (os_operatorId s) key \<in>
      {applied (operator_state w) (os_operatorId s) key,
       settle amount (applied (operator_state w) (os_operatorId s) key)} \<and>
    (case x of
       Inr _ \<Rightarrow> applied (operator_state w') (os_operatorId s) key
         = settle amount (applied (operator_state w) (os_operatorId s) key)
     | Inl e \<Rightarrow> e = Payout_pending_exn) \<and>
    db_rollbacks w' = db_rollbacks w"
proof -
  have l: "assertTxIdLength key" using len by (simp add: assertTxIdLength_def MAX_OUTBOUND_TX_ID_LEN_def)
  let ?ap = "\<lambda>u. applied (operator_state u) (os_operatorId s) key"
  have step: "db_sessions u' = db_sessions w \<and> db_rollbacks u' = db_rollbacks u \<and>
      ?ap u' \<in> {?ap u, settle amount (?ap u)} \<and> (\<forall>t. y = Inr t \<longrightarrow> ?ap u' = settle amount (?ap u)) \<and>
      (\<forall>e. y = Inl e \<longrightarrow> e = Payout_pending_exn)"
    if u: "db_sessions u = db_sessions w" and c: "seam_credit cfg walletId amount t key ref u = (y, u')" for u y u'
  proof -
    have m: "move_loop (se_maxRetries cfg) cfg MWin s (move_request s amount key ref) ref u = (y, u')"
      using c s u l by (simp add: seam_credit_def seam_move_def)
    have pend: "move_loop k cfg MWin s q ref v = (Inl e, v') \<Longrightarrow> 0 < k \<Longrightarrow> e = Payout_pending_exn" for k q v v' e
      by (induction k arbitrary: v) (auto split: prod.splits sum.splits if_splits)
    have "u' = u\<lparr>operator_state := operator_state u'\<rparr>"
      using operator_contract.win_loop_settles [OF api refl move_request_amount m] by blast
    then have "db_sessions u' = db_sessions u" "db_rollbacks u' = db_rollbacks u"
      by (metis (no_types) world.select_convs world.update_convs(9) world.surjective)+
    then show ?thesis
      using operator_contract.win_loop_settles [OF api refl move_request_amount m] u pend m n by auto
  qed
  have "db_sessions v = db_sessions w \<and> db_rollbacks v = db_rollbacks w \<and>
      ?ap v \<in> {?ap w, settle amount (?ap w)}"
    unfolding before
  proof (induction k)
    case (Suc k)
    then show ?case
      using step [OF _ prod.collapse [symmetric]] by (auto; metis settle_simps(3))
  qed simp
  then show ?thesis using step [OF _ call] by (cases x) auto
qed

text \<open>
  C7. Play money and real money never mix. For the wallet provider the application builds, in either
  mode, no call touches the game's tables; with the internal provider, and for a demo wallet in
  operator mode, no call reaches an operator or writes an owed rollback; and for a real wallet in
  operator mode no call writes the internal ledger or changes an internal balance.
\<close>

theorem demo_real_isolation:
  assumes p: "walletProvider ty api sf now = Inr p"
  shows "game_same w (wallet_exec p walletId call w) \<and>
    (ty = None \<or> ty = Some ''internal'' \<or> isDemoWallet w walletId \<longrightarrow>
       operator_same w (wallet_exec p walletId call w)) \<and>
    (ty = Some ''operator'' \<and> \<not> isDemoWallet w walletId \<longrightarrow>
       ledger_same w (wallet_exec p walletId call w))"
proof (cases "ty = Some ''operator''")
  case True
  then have "p = WalletRouter ledgerProvider (SeamlessOperatorWallet (operatorWallet_cfg api sf now))
      (\<lambda>w i. Inr (isDemoWallet w i))"
    using p by (simp add: walletProvider_def wallet_factory_def)
  with True show ?thesis
    using router.router_isolation [where w = w and i = walletId and api = api and sf = sf and now = now and c = call]
      router.router_frame [where w = w and i = walletId and api = api and sf = sf and now = now and c = call]
    by (auto split: bool.splits)
next
  case False
  then have "p = ledgerProvider" and "ty = None \<or> ty = Some ''internal''"
    using p by (auto simp: walletProvider_def wallet_factory_def Let_def split: option.splits if_splits)
  with False show ?thesis using lp.exec_frame lp.exec_operator_same by blast
qed

section \<open>Witnesses\<close>

definition net_api :: "net_state operator_api" where
  "net_api = HttpOperatorWalletApi
     (\<lambda>_. Some \<lparr>ep_walletApiUrl = ''http://op/'', ep_walletApiKey = Some ''key''\<rparr>)
     (faulty_stub \<lparr>sc_origin = ''http://op'', sc_key = ''key'', sc_start = 1000\<rparr>)"

definition net_world :: "net_event list \<Rightarrow> net_state world" where
  "net_world evs =
     \<lparr>db_wallets = [], db_ledger = [], db_bets = [], db_rounds = [], db_users = [], db_profiles = [],
      db_sessions = [\<lparr>s_id = ''s'', s_operatorId = ''o'', s_playerId = ''p'', s_currency = ''EUR'',
        s_walletId = ''w1'', s_demo = False, s_locale = ''en'', s_launchJti = ''j1'', s_createdAt = 0,
        s_revokedAt = None, s_rcDueAt = None, s_rcPendingAt = None, s_rcLastAckAt = None\<rparr>],
      db_rollbacks = [],
      operator_state = (\<lparr>sb_balances = (\<lambda>_. None), sb_applied = (\<lambda>_. None), sb_book = (\<lambda>_. None),
        sb_seq = 0\<rparr>, evs)\<rparr>"

abbreviation "net_cfg \<equiv> operatorWallet_cfg net_api no_faults 0"

lemma net_api_contract: "operator_contract net_api stub_applied"
  unfolding net_api_def by (rule stub_contract)

text \<open>The stake applies, the answer is lost, and the rollback never reaches the operator.\<close>

lemma lost_debit_runs:
  "(case seam_debit net_cfg ''w1'' 100 Bet_debit ''key1'' (Some (bet_ref ''b1''))
       (net_world [NetLostResponse, NetRefused]) of
      (x, w') \<Rightarrow> x = Inl Wallet_unavailable \<and> stub_applied (operator_state w') ''o'' ''key1'' = Some (- 100))"
  by code_simp

lemma not_isl_Inr: "\<not> isl (fst r) \<Longrightarrow> \<exists>t w. r = (Inr t, w)"
  by (cases r; cases "fst r") auto

abbreviation "net_session \<equiv>
  \<lparr>os_operatorId = ''o'', os_playerId = ''p'', os_currency = ''EUR'', os_roundId = None\<rparr>"

lemma net_cfg_simps:
  "se_api net_cfg = net_api" "se_maxRetries net_cfg = 3"
  "se_store net_cfg = Some \<lparr>st_faults = no_faults, st_race = id, st_now = 0\<rparr>"
  "db_sessions v = db_sessions (net_world evs) \<Longrightarrow> se_resolve net_cfg v ''w1'' = Inr net_session"
  by (simp_all add: operatorWallet_cfg_def resolver_def net_world_def)

theorem failed_debit_compensated_witness:
  "\<exists>w'. seam_debit net_cfg ''w1'' 100 Bet_debit ''key1'' (Some (bet_ref ''b1''))
       (net_world [NetLostResponse, NetRefused]) = (Inl Wallet_unavailable, w') \<and>
     stub_applied (operator_state w') ''o'' ''key1'' = Some (- 100) \<and> owed_row w' ''o'' ''key1''"
proof -
  obtain w' where d: "seam_debit net_cfg ''w1'' 100 Bet_debit ''key1'' (Some (bet_ref ''b1''))
       (net_world [NetLostResponse, NetRefused]) = (Inl Wallet_unavailable, w')"
    and a: "stub_applied (operator_state w') ''o'' ''key1'' = Some (- 100)"
    using lost_debit_runs by (auto split: prod.splits)
  have f: "find_rb (net_world evs) oid dk = None" for evs oid dk by (simp add: net_world_def find_rb_def)
  have "owed_row w' ''o'' ''key1''"
    using failed_debit_compensated [OF _ net_cfg_simps(3) _ _ net_cfg_simps(4) [OF refl] _ _ _ d,
        of stub_applied] a
    by (simp add: net_cfg_simps net_api_contract f)
  with d a show ?thesis by blast
qed

theorem credit_pays_at_most_once_witness:
  "\<exists>t w'. seam_credit net_cfg ''w1'' 250 Payout_credit ''pay1'' (Some (bet_ref ''b1''))
       (((\<lambda>u. snd (seam_credit net_cfg ''w1'' 250 Payout_credit ''pay1'' (Some (bet_ref ''b1'')) u)) ^^ 1)
         (net_world [NetLostResponse, NetLostRequest, NetLostResponse, NetRefused])) = (Inr t, w') \<and>
     stub_applied (operator_state w') ''o'' ''pay1'' = Some 250"
proof -
  let ?c = "\<lambda>u. seam_credit net_cfg ''w1'' 250 Payout_credit ''pay1'' (Some (bet_ref ''b1'')) u"
  let ?w = "net_world [NetLostResponse, NetLostRequest, NetLostResponse, NetRefused]"
  have "\<not> isl (fst (?c (snd (?c ?w))))" by code_simp
  then obtain t w' where "?c (snd (?c ?w)) = (Inr t, w')" using not_isl_Inr by blast
  then have c: "?c (((\<lambda>u. snd (?c u)) ^^ 1) ?w) = (Inr t, w')" by simp
  have "stub_applied (operator_state ?w) ''o'' ''pay1'' = None" by (simp add: net_world_def stub_applied_def)
  then have "stub_applied (operator_state w') ''o'' ''pay1'' = Some 250"
    using credit_pays_at_most_once [OF _ _ _ _ refl c, of stub_applied net_session]
    by (simp add: net_cfg_simps net_api_contract)
  with c show ?thesis by blast
qed

theorem demo_real_isolation_witness:
  "\<exists>p. walletProvider (Some ''operator'') net_api no_faults 0 = Inr p \<and>
     ledger_same (net_world []) (wallet_exec p ''w1'' (WDebit 100 Bet_debit ''key1'' None) (net_world []))"
proof -
  obtain p where p: "walletProvider (Some ''operator'') net_api no_faults 0 = Inr p"
    by (simp add: walletProvider_def wallet_factory_def)
  have "\<not> isDemoWallet (net_world []) ''w1''" by (simp add: isDemoWallet_def net_world_def)
  with demo_real_isolation [OF p, of "net_world []" "''w1''"] p show ?thesis by blast
qed

text \<open>A debit whose answer is lost and whose rollback does not reach the operator leaves a row in the outbox.\<close>

definition rebet_world0 :: "net_state world" where
  "rebet_world0 = snd (seam_debit net_cfg ''w1'' 100 Bet_debit ''key1'' (Some (bet_ref ''b1''))
     (net_world [NetLostResponse, NetRefused]))"

definition rebet_row :: rollback_row where
  "rebet_row = hd (db_rollbacks rebet_world0)"

lemma rebet_world0_rows:
  "length (db_rollbacks rebet_world0) = 1" "rb_status rebet_row = RPending"
  "rb_transactionId rebet_row = ''key1''" "rb_operatorId rebet_row = ''o''"
  by code_simp+

section \<open>The outbox with this operator\<close>

lemma net_up: "operator_up net_api (\<lambda>st. snd st = [])"
proof -
  have p: "stub_path \<lparr>sc_origin = ''http://op'', sc_key = ''key'', sc_start = 1000\<rparr>
      (joinUrl ''http://op/'' ''rollback'') = Some ''rollback''" by code_simp
  show ?thesis
    unfolding operator_up_def
  proof (intro allI impI)
    fix oid rr and s :: net_state
    assume up: "snd s = []"
    obtain r s1 where r: "stub_rollback \<lparr>sc_origin = ''http://op'', sc_key = ''key'', sc_start = 1000\<rparr> rr (fst s) = (r, s1)"
      by fastforce
    then obtain q where "r = json_ok q" using stub_rollback_effect(2) by (metis fst_conv)
    with r up show "\<exists>a s'. op_rollback net_api oid rr s = (Inr a, s') \<and> snd s' = []"
      by (cases s) (simp add: net_api_def http_api_simps http_move_def http_post_def faulty_stub_def
        p bearer_def fetch_accepts Let_def)
  qed
qed


lemma rebet_world0_db: "db_rollbacks rebet_world0 = [rebet_row]"
  using rebet_world0_rows(1) by (cases "db_rollbacks rebet_world0") (auto simp: rebet_row_def)

theorem drain_abandons_nothing_witness:
  "\<exists>n w'. drainPending no_faults 1 (Some net_api) 50 rebet_world0 = (n, w') \<and>
     length (db_rollbacks w') = 1 \<and> rb_transactionId (db_rollbacks w' ! 0) = ''key1''"
proof -
  obtain n w' where d: "drainPending no_faults 1 (Some net_api) 50 rebet_world0 = (n, w')" by fastforce
  from drain_abandons_nothing [OF _ d net_api_contract] show ?thesis
    by (auto simp: d Let_def rebet_world0_db rebet_world0_rows outbox_wf_def)
qed

theorem drain_clears_witness:
  "\<exists>w'. drainPending no_faults 1 (Some net_api) 50 rebet_world0 = (1, w') \<and>
     (\<forall>r \<in> set (db_rollbacks w'). \<not> rb_owed 1 r)"
proof -
  obtain n w' where d: "drainPending no_faults 1 (Some net_api) 50 rebet_world0 = (n, w')" by fastforce
  have o: "snd (operator_state rebet_world0) = []" by code_simp
  have "count_where (rb_owed 1) (db_rollbacks rebet_world0) = 1"
    by (simp add: rebet_world0_db count_where_def rb_owed_def rebet_world0_rows)
  with drain_clears [OF _ d net_up o] show ?thesis
    by (simp add: d outbox_wf_def rebet_world0_db)
qed

text \<open>A live void resumes over the owed rollback while a sweep is between its scan and its claim, and the other
  way round.\<close>

definition resume_claim :: rollback_claim where
  "resume_claim = \<lparr>rc_operatorId = rb_operatorId rebet_row, rc_playerId = rb_playerId rebet_row,
     rc_currency = rb_currency rebet_row, rc_transactionId = rb_transactionId rebet_row, rc_reason = rb_reason rebet_row,
     rc_betId = rb_betId rebet_row, rc_amount = None\<rparr>"

theorem rb_claim_exclusive_witness:
  "(\<exists>wB. try_claim id rebet_world0 (Live 5 resume_claim) = (True, wB) \<and>
     drain_row no_faults 4 net_api rebet_row (0, wB) = (0, wB)) \<and>
   (\<exists>wB. try_claim id rebet_world0 (Sweep 4 rebet_row) = (True, wB) \<and>
     \<not> fst (try_claim (\<lambda>_. wB) rebet_world0 (Live 5 resume_claim)))"
proof (intro conjI)
  have wf: "outbox_wf rebet_world0" by (simp add: outbox_wf_def rebet_world0_db)
  have key: "claimant_key (Live 5 resume_claim) = claimant_key (Sweep 4 rebet_row)" by code_simp
  have scan: "has_scanned rebet_world0 (Sweep 4 rebet_row)"
    by (simp add: rebet_world0_db rb_owed_def rebet_world0_rows)
  have "fst (try_claim id rebet_world0 (Live 5 resume_claim))" "fst (try_claim id rebet_world0 (Sweep 4 rebet_row))"
    by code_simp+
  then obtain wB wC where b: "try_claim id rebet_world0 (Live 5 resume_claim) = (True, wB)"
      "try_claim id rebet_world0 (Sweep 4 rebet_row) = (True, wC)"
    by (metis prod.collapse)
  show "\<exists>wB. try_claim id rebet_world0 (Live 5 resume_claim) = (True, wB) \<and>
     drain_row no_faults 4 net_api rebet_row (0, wB) = (0, wB)"
    using rb_claim_exclusive [OF wf key [symmetric] _ b(1)] b(1) scan by auto
  show "\<exists>wB. try_claim id rebet_world0 (Sweep 4 rebet_row) = (True, wB) \<and>
     \<not> fst (try_claim (\<lambda>_. wB) rebet_world0 (Live 5 resume_claim))"
    using rb_claim_exclusive [OF wf key scan b(2)] b(2) by auto
qed

end
