(* ===== verification/VR_LifeOps.thy ===== *)
theory VR_LifeOps
  imports VR_Lifecycle VR_Seamless
begin

text \<open>
  The sweeps, the recovery and the placing of a bet evolve the bets too; with the handlers of the
  previous theory that is every operation of a run, under every wallet the application can be
  configured with.
\<close>

lemma fold_evolves:
  assumes step: "\<And>b s w. bets_distinct w \<Longrightarrow> evolves N w (snd (step b (s, w)))" and d: "bets_distinct w"
  shows "evolves N w (snd (fold step bs (s, w)))"
  using d
proof (induction bs arbitrary: s w)
  case (Cons b bs)
  obtain s1 w1 where e: "step b (s, w) = (s1, w1)" by fastforce
  then have "evolves N w w1" using step [OF Cons.prems, of b s] by simp
  from evolves_trans [OF this Cons.IH [OF evolves_distinct [OF this]]] e show ?case by simp
qed (simp add: evolves_refl)

text \<open>The bets with id \<open>i\<close> are at status \<open>s\<close> or beyond.\<close>

definition beyond :: "bet_status \<Rightarrow> uid \<Rightarrow> 'o world \<Rightarrow> bool" where
  "beyond s i w \<longleftrightarrow> (\<forall>c \<in> set (db_bets w). b_id c = i \<longrightarrow> advances s (b_status c))"

lemma beyond_evolves: "beyond s i w \<Longrightarrow> evolves {} w w' \<Longrightarrow> beyond s i w'"
proof -
  assume b: "beyond s i w" and e: "evolves {} w w'"
  show "beyond s i w'"
    unfolding beyond_def
  proof (intro ballI impI)
    fix c assume c: "c \<in> set (db_bets w')" "b_id c = i"
    then obtain d where d: "d \<in> set (db_bets w)" "evolve d c" using e by (auto simp: evolves_def)
    then have "advances s (b_status d)" using b c evolve_id [OF d(2)] by (simp add: beyond_def)
    with d(2) show "advances s (b_status c)" using advances_trans by (auto simp: evolve_def)
  qed
qed

lemma beyond_here: "bets_distinct w \<Longrightarrow> b \<in> set (db_bets w) \<Longrightarrow> beyond (b_status b) (b_id b) w"
  unfolding beyond_def by (metis advances_refl bets_distinct_eq)

lemma set_cancelled_evolves:
  assumes d: "bets_distinct w"
    and st: "\<And>c. c \<in> set (db_bets w) \<Longrightarrow> b_id c = i \<Longrightarrow> b_status c \<in> {Active, Cancelling, Cancelled}"
  shows "evolves N w (bet_set w i (set_cancelled now))"
  by (rule evolves_set [OF d]) (use st in \<open>fastforce simp: evolve_simps set_cancelled_def\<close>)

context wallet_frame
begin

lemma auto_evolves:
  assumes d: "bets_distinct w" and r: "race_evolves N (bc_race ctx)" and p: "bc_wallet ctx = provider"
  shows "evolves N w (snd (evaluateAutoCashouts ctx m w))"
proof -
  have "evolves N v (snd (auto_step ctx b (s, v)))" if "bets_distinct v" for b s v
  proof -
    obtain x v' where c: "cashOut ctx (b_userId b) (b_panel b) (b_autoCashout b) v = (x, v')" by fastforce
    then have "evolves N v v'" using cashout_evolves [OF that r p] by (metis snd_conv)
    with c show ?thesis by (cases x) (simp_all add: auto_step_def)
  qed
  from fold_evolves [where step = "auto_step ctx", OF this d] show ?thesis
    by (simp add: evaluateAutoCashouts_def evolves_refl [OF d] split: option.splits)
qed

lemma reversals_evolve:
  assumes d: "bets_distinct w"
  shows "evolves N w (snd (performVoidReversals provider b w))"
proof -
  obtain x w1 where a: "wp_reverse provider (b_walletId b) (void_reclaim_params b) w = (x, w1)" by fastforce
  obtain y w2 where c: "wp_reverse provider (b_walletId b) (void_refund_params b) w1 = (y, w2)" by fastforce
  obtain z w3 where f: "wp_reverse provider (b_walletId b) (void_refund_params b) w = (z, w3)" by fastforce
  have e1: "evolves N w w1" by (rule reverse_evolves [OF d a])
  have "evolves N w w2" by (rule evolves_trans [OF e1 reverse_evolves [OF evolves_distinct [OF e1] c]])
  with e1 a c f reverse_evolves [OF d f] show ?thesis
    by (cases x) (simp_all add: performVoidReversals_def)
qed

lemma finish_evolves: "bets_distinct w \<Longrightarrow> void_finish i w = (n, w') \<Longrightarrow> evolves N w w'"
  unfolding void_finish_def by (rule evolves_cas [where st = Voiding]) (simp_all add: evolve_simps)

lemma void_tail_evolves:
  assumes d: "bets_distinct w"
  shows "evolves N w (case performVoidReversals provider b w of
      (Inl e, v1) \<Rightarrow> v1 | (Inr _, v1) \<Rightarrow> snd (void_finish i v1))"
proof -
  obtain x v1 where p: "performVoidReversals provider b w = (x, v1)" by fastforce
  obtain n v2 where f: "void_finish i v1 = (n, v2)" by fastforce
  have e1: "evolves N w v1" using reversals_evolve [OF d, of N b] p by simp
  have "evolves N w v2" by (rule evolves_trans [OF e1 finish_evolves [OF evolves_distinct [OF e1] f]])
  with e1 p f show ?thesis by (cases x) simp_all
qed

lemma void_evolves:
  assumes d: "bets_distinct w" and r: "race_evolves N (bc_race ctx)" and p: "bc_wallet ctx = provider"
  shows "evolves N w (snd (voidBet ctx oid i w))"
proof (cases "find_bet w i")
  case bs: (Some b)
  let ?fin = "\<lambda>v. case performVoidReversals provider b v of
      (Inl e, v1) \<Rightarrow> v1 | (Inr _, v1) \<Rightarrow> snd (void_finish i v1)"
  have e0: "evolves N w (bc_race ctx w)" using r d by (simp add: race_evolves_def)
  consider "b_operatorId b \<noteq> Some oid" | "b_operatorId b = Some oid" "b_status b = Voiding"
    | "b_operatorId b = Some oid" "b_status b = Busted \<or> b_status b = Cashed_out"
    | "b_operatorId b = Some oid" "b_status b \<notin> {Voiding, Busted, Cashed_out}" by blast
  then show ?thesis
  proof cases
    case 1
    with bs evolves_refl [OF d] show ?thesis by (simp add: voidBet_def Let_def)
  next
    case 2
    then have "snd (voidBet ctx oid i w) = ?fin w"
      using bs p by (simp add: voidBet_def Let_def split: prod.splits sum.splits)
    with void_tail_evolves [where b = b and i = i, OF d] show ?thesis by simp
  next
    case 3
    let ?f = "\<lambda>b. b\<lparr>b_status := Voiding\<rparr>"
    obtain n w1 where c: "bet_cas (bc_race ctx w) i (b_status b) ?f = (n, w1)" by fastforce
    have e1: "evolves N w w1"
      by (rule evolves_trans [OF e0 evolves_cas [OF evolves_distinct [OF e0] _ c]])
        (use 3(2) in \<open>auto simp: evolve_simps\<close>)
    have res: "snd (voidBet ctx oid i w) = (if n = 0 then w1 else ?fin w1)"
      using bs p 3 c by (auto simp: voidBet_def Let_def split: prod.splits sum.splits)
    from e1 evolves_trans [OF e1 void_tail_evolves [where b = b and i = i, OF evolves_distinct [OF e1]]] res
    show ?thesis by simp
  next
    case 4
    with bs evolves_refl [OF d] show ?thesis by (cases "b_status b") (simp_all add: voidBet_def Let_def)
  qed
qed (use evolves_refl [OF d] in \<open>simp add: voidBet_def\<close>)

lemma void_step_evolves: "bets_distinct w \<Longrightarrow> evolves N w (snd (void_step provider b (s, w)))"
proof -
  assume d: "bets_distinct w"
  obtain x v1 where "performVoidReversals provider b w = (x, v1)" by fastforce
  then have "snd (void_step provider b (s, w)) = (case performVoidReversals provider b w of
      (Inl e, v1) \<Rightarrow> v1 | (Inr _, v1) \<Rightarrow> snd (void_finish (b_id b) v1))"
    by (cases x; cases "void_finish (b_id b) v1") (simp_all add: void_step_def)
  with void_tail_evolves [where b = b and i = "b_id b", OF d] show ?thesis by simp
qed

lemma pending_step_evolves:
  assumes d: "bets_distinct w"
  shows "evolves N w (snd (pending_step provider b (s, w)))"
proof -
  obtain x w1 where cr: "wp_credit provider (b_walletId b) (b_payout b) Payout_credit (payoutKey (b_id b))
      (Some (bet_ref (b_id b))) w = (x, w1)" by fastforce
  have e1: "evolves N w w1" by (rule credit_evolves [OF d cr])
  show ?thesis
  proof (cases x)
    case (Inr tx)
    let ?f = "\<lambda>x. x\<lparr>b_status := Cashed_out, b_payoutTxId := Some (tx_id tx)\<rparr>"
    obtain n w2 where c: "bet_cas w1 (b_id b) Payout_pending ?f = (n, w2)" by fastforce
    have e2: "evolves N w w2"
      by (rule evolves_trans [OF e1 evolves_cas [OF evolves_distinct [OF e1] _ c]]) (simp add: evolve_simps)
    from evolves_trans [OF e2 loot_evolves [OF evolves_distinct [OF e2]]] e2 Inr cr c show ?thesis
      by (simp add: pending_step_def)
  qed (use e1 cr in \<open>simp add: pending_step_def\<close>)
qed

lemma release_evolves:
  assumes d: "bets_distinct w" and st: "beyond Cancelling (b_id b) w"
  shows "evolves {} w (snd (release_slot provider now b (s, w)))"
proof -
  obtain x w1 where rb: "wp_rollback provider (b_walletId b) (bet_debitKey b) (Some (bet_ref (b_id b))) w = (x, w1)"
    by fastforce
  obtain y w2 where cr: "wp_credit provider (b_walletId b) (b_amount b) Refund (restartRefundKey (b_id b))
      (Some (bet_ref (b_id b))) w1 = (y, w2)" by fastforce
  have e1: "evolves {} w w1" by (rule rollback_evolves [OF d rb])
  have e2: "evolves {} w w2" by (rule evolves_trans [OF e1 credit_evolves [OF evolves_distinct [OF e1] cr]])
  have ed: "evolves {} w (bet_delete w1 (b_id b))"
    by (rule evolves_trans [OF e1 evolves_delete [OF evolves_distinct [OF e1]]])
  have "beyond Cancelling (b_id b) w2" by (rule beyond_evolves [OF st e2])
  then have "evolves {} w2 (bet_set w2 (b_id b) (set_cancelled now))"
    by (intro set_cancelled_evolves [OF evolves_distinct [OF e2]]) (auto simp: beyond_def)
  then have e3: "evolves {} w (bet_set w2 (b_id b) (set_cancelled now))" by (rule evolves_trans [OF e2])
  have "snd (release_slot provider now b (s, w)) \<in> {w1, w2, bet_delete w1 (b_id b), bet_set w2 (b_id b) (set_cancelled now)}"
    by (cases x; cases "find_key w1 (bet_debitKey b)"; cases y) (simp_all add: release_slot_def rb cr)
  with e1 e2 e3 ed show ?thesis by auto
qed

lemma recover_slot_evolves:
  assumes d: "bets_distinct w" and r: "race_evolves {} race"
    and st: "b_status b = Cancelling \<Longrightarrow> beyond Cancelling (b_id b) w"
    and b: "b_status b = Reserving \<or> b_status b = Cancelling"
  shows "evolves {} w (snd (recover_slot provider race now b (s, w)))"
proof (cases "b_status b = Reserving")
  case True
  have e0: "evolves {} w (race w)" using r d by (simp add: race_evolves_def)
  let ?f = "\<lambda>x. x\<lparr>b_status := Cancelling\<rparr>"
  obtain n w1 where c: "bet_cas (race w) (b_id b) Reserving ?f = (n, w1)" by fastforce
  have e1: "evolves {} w w1"
    by (rule evolves_trans [OF e0 evolves_cas [OF evolves_distinct [OF e0] _ c]]) (simp add: evolve_simps)
  have "n \<noteq> 0 \<Longrightarrow> beyond Cancelling (b_id b) w1"
    using cas_status [OF evolves_distinct [OF e0] _ c] by (fastforce simp: beyond_def)
  then have "n \<noteq> 0 \<Longrightarrow> evolves {} w (snd (release_slot provider now b (s, w1)))"
    using evolves_trans [OF e1 release_evolves [OF evolves_distinct [OF e1]]] by blast
  with e1 True c show ?thesis by (simp add: recover_slot_def)
next
  case False
  with b have "b_status b = Cancelling" by simp
  with release_evolves [OF d st] show ?thesis by (simp add: recover_slot_def)
qed

lemma recover_reserving_evolves:
  assumes d: "bets_distinct w" and r: "race_evolves {} race"
  shows "evolves {} w (snd (recoverReservingBets provider race now ms w))"
proof -
  have "evolves {} v (snd (fold (recover_slot provider race now) bs (s, v)))"
    if "bets_distinct v" "\<forall>b \<in> set bs. (b_status b = Reserving \<or> b_status b = Cancelling) \<and>
      (b_status b = Cancelling \<longrightarrow> beyond Cancelling (b_id b) v)" for bs s v
    using that
  proof (induction bs arbitrary: s v)
    case (Cons b bs)
    obtain s1 v1 where e: "recover_slot provider race now b (s, v) = (s1, v1)" by fastforce
    have e1: "evolves {} v v1" using recover_slot_evolves [OF Cons.prems(1) r, of b now s] Cons.prems(2) e by auto
    have "evolves {} v1 (snd (fold (recover_slot provider race now) bs (s1, v1)))"
      using Cons.prems(2) beyond_evolves [OF _ e1] by (intro Cons.IH evolves_distinct [OF e1]) auto
    with evolves_trans [OF e1 this] e show ?case by simp
  qed (simp add: evolves_refl)
  moreover have "\<forall>b \<in> set (stale_slots now ms w). (b_status b = Reserving \<or> b_status b = Cancelling) \<and>
      (b_status b = Cancelling \<longrightarrow> beyond Cancelling (b_id b) w)"
    using beyond_here [OF d] by (fastforce simp: stale_slots_def)
  ultimately show ?thesis unfolding recoverReservingBets_def using d by blast
qed

lemma heal_evolves: "bets_distinct w \<Longrightarrow> evolves N w (snd (heal_active provider now b (s, w)))"
proof -
  assume d: "bets_distinct w"
  obtain x w1 where rv: "wp_reverse provider (b_walletId b) (restart_params b) w = (x, w1)" by fastforce
  obtain n w2 where c: "bet_cas w1 (b_id b) Active (set_cancelled now) = (n, w2)" by fastforce
  have e1: "evolves N w w1" by (rule reverse_evolves [OF d rv])
  have "evolves N w w2"
    by (rule evolves_trans [OF e1 evolves_cas [OF evolves_distinct [OF e1] _ c]])
      (simp add: evolve_simps set_cancelled_def)
  with e1 rv c show ?thesis by (cases x) (simp_all add: heal_active_def)
qed

lemma close_bet_evolves:
  assumes d: "bets_distinct w" and st: "\<And>c. c \<in> set (db_bets w) \<Longrightarrow> b_id c = b_id b \<Longrightarrow> b_status c = Active"
  shows "evolves N w (close_bet provider now b w)"
    and "c \<in> set (db_bets (close_bet provider now b w)) \<Longrightarrow> b_id c \<noteq> b_id b \<Longrightarrow> c \<in> set (db_bets w)"
proof -
  obtain x w1 where rv: "wp_reverse provider (b_walletId b) (restart_params b) w = (x, w1)" by fastforce
  have e1: "evolves N w w1" by (rule reverse_evolves [OF d rv])
  have b1: "db_bets w1 = db_bets w" using reverse_frame [OF rv] by (simp add: game_same_def)
  have "evolves N w1 (bet_set w1 (b_id b) (set_cancelled now))"
    using st b1 by (intro set_cancelled_evolves [OF evolves_distinct [OF e1]]) auto
  with evolves_trans [OF e1 this] e1 rv show "evolves N w (close_bet provider now b w)"
    by (cases x) (simp_all add: close_bet_def)
  assume c: "c \<in> set (db_bets (close_bet provider now b w))" "b_id c \<noteq> b_id b"
  have k: "close_bet provider now b w = w1 \<or> close_bet provider now b w = bet_set w1 (b_id b) (set_cancelled now)"
    using rv by (cases x) (simp_all add: close_bet_def)
  have "x \<in> set (db_bets w1)"
    if "x \<in> set (db_bets (bet_set w1 i f))" "b_id x \<noteq> i" "\<And>y. b_id (f y) = b_id y" for x i f
    using that by (auto simp: bet_set_def update_where_def split: if_splits)
  then have "x \<in> set (db_bets w1)"
    if "x \<in> set (db_bets (bet_set w1 (b_id b) (set_cancelled now)))" "b_id x \<noteq> b_id b" for x
    using that by (simp add: set_cancelled_def)
  with c k show "c \<in> set (db_bets w)" unfolding b1 [symmetric] by metis
qed

lemma close_round_evolves:
  assumes d: "bets_distinct w"
  shows "evolves N w (closeAndRefundRound provider now r w)"
proof -
  have f: "evolves N v (fold (close_bet provider now) bs v)"
    if "bets_distinct v" "distinct (map b_id bs)"
      "\<forall>b \<in> set bs. \<forall>c \<in> set (db_bets v). b_id c = b_id b \<longrightarrow> b_status c = Active" for bs v
    using that
  proof (induction bs arbitrary: v)
    case (Cons b bs)
    let ?v = "close_bet provider now b v"
    note e1 = close_bet_evolves(1) [OF Cons.prems(1), where b = b and now = now]
    have e: "evolves N v ?v" using Cons.prems(3) by (intro e1) auto
    have st: "b_status c = Active" if "x \<in> set bs" "c \<in> set (db_bets ?v)" "b_id c = b_id x" for x c
    proof -
      have "b_id x \<in> set (map b_id bs)" using that(1) by simp
      then have "b_id c \<noteq> b_id b" using Cons.prems(2) that(3) by (metis distinct.simps(2) list.simps(9))
      moreover have "b_status d = Active" if "d \<in> set (db_bets v)" "b_id d = b_id b" for d
        using Cons.prems(3) that by simp
      ultimately have c: "c \<in> set (db_bets v)"
        by (rule close_bet_evolves(2) [OF Cons.prems(1) _ that(2), rotated])
      have "x \<in> set (b # bs)" using that(1) by simp
      with Cons.prems(3) c that(3) show ?thesis by blast
    qed
    have "evolves N ?v (fold (close_bet provider now) bs ?v)"
      using Cons.prems(2) st by (intro Cons.IH evolves_distinct [OF e]) auto
    with evolves_trans [OF e this] show ?case by simp
  qed (simp add: evolves_refl)
  let ?bs = "filter (\<lambda>b. b_roundId b = r \<and> b_status b = Active) (db_bets w)"
  have "evolves N w (fold (close_bet provider now) ?bs w)"
    using d bets_distinct_eq [OF d] by (intro f) (auto simp: bets_distinct_def distinct_map intro: inj_on_subset)
  from evolves_trans [OF this evolves_bets [OF evolves_distinct [OF this]]] show ?thesis
    unfolding closeAndRefundRound_def by (simp add: round_set_def)
qed


lemma stale_extra_evolves:
  assumes d: "bets_distinct w"
  shows "evolves N w (closeStaleExtra provider now r w)"
proof -
  have "evolves N w (round_set i f (snd (settleRound now j v)))" if "db_bets v = db_bets w" for i f j v
  proof -
    have e: "evolves N w v" by (rule evolves_bets [OF d that])
    have s: "evolves N w (snd (settleRound now j v))"
      by (rule evolves_trans [OF e settle_evolves [OF evolves_distinct [OF e]]])
    show ?thesis
      by (rule evolves_trans [OF s evolves_bets [OF evolves_distinct [OF s]]]) (simp add: round_set_def)
  qed
  then show ?thesis using close_round_evolves [OF d] by (simp add: closeStaleExtra_def Let_def)
qed

lemma interrupted_evolves:
  assumes d: "bets_distinct w"
  shows "evolves N w (recoverInterruptedRounds provider id now w)"
proof -
  have f: "evolves N v (fold (\<lambda>r. closeAndRefundRound provider now (r_id r)) rs v)" if "bets_distinct v" for rs v
    using that
  proof (induction rs arbitrary: v)
    case (Cons r rs)
    note e = close_round_evolves [OF Cons.prems, where now = now and r = "r_id r" and N = N]
    from evolves_trans [OF e Cons.IH [OF evolves_distinct [OF e]]] show ?case by simp
  qed (simp add: evolves_refl)
  have e1: "evolves N w (snd (recoverReservingBets provider id now 0 w))"
    by (rule evolves_mono [OF recover_reserving_evolves [OF d]]) simp
  let ?v = "snd (recoverReservingBets provider id now 0 w)"
  have e2: "evolves N ?v (snd (recoverStrandedActiveBets provider now 0 ?v))"
    unfolding recoverStrandedActiveBets_def by (rule fold_evolves [OF heal_evolves evolves_distinct [OF e1]])
  note e3 = evolves_trans [OF e1 e2]
  from evolves_trans [OF e3 f [OF evolves_distinct [OF e3]]] show ?thesis
    unfolding recoverInterruptedRounds_def Let_def .
qed

section \<open>Placing\<close>

lemma insert_evolves:
  assumes d: "bets_distinct w" and i: "b_id b \<in> N" "b_id b \<notin> bet_ids w"
  shows "evolves N w (w\<lparr>db_bets := db_bets w @ [b]\<rparr>)"
proof -
  have "\<exists>x \<in> set (db_bets w). evolve x c" if "c \<in> set (db_bets w)" for c
    using that evolve_refl by blast
  then show ?thesis using d i by (simp add: evolves_def bets_distinct_def bet_ids_def)
qed

lemma reserve_evolves:
  assumes d: "bets_distinct w" and i: "i \<in> N" "i \<notin> bet_ids w"
    and r: "place_reserve fl rl now a i rid wal amt w = (x, w')"
  shows "evolves N w w'"
proof -
  have "w' = w \<or> w' = w\<lparr>db_bets := db_bets w @ [new_bet now a i rid wal amt]\<rparr>"
    using r by (auto simp: place_reserve_def split: sum.splits option.splits if_splits)
  moreover have "evolves N w (w\<lparr>db_bets := db_bets w @ [new_bet now a i rid wal amt]\<rparr>)"
    by (rule insert_evolves [OF d]) (use i in \<open>simp_all add: new_bet_def\<close>)
  ultimately show ?thesis using evolves_refl [OF d] by metis
qed

lemma place_debit_evolves:
  assumes d: "bets_distinct w" and r: "place_debit f provider u pn i rid wid amt w = (x, w')"
  shows "evolves N w w'"
proof -
  obtain y w1 where c: "wp_debit provider wid amt Bet_debit (debitKey rid u pn) (Some (bet_ref i)) w = (y, w1)"
    by fastforce
  have e1: "evolves N w w1" by (rule debit_evolves [OF d c])
  have "w' = w1 \<or> w' = bet_delete w1 i"
    using r c by (auto simp: place_debit_def split: sum.splits if_splits)
  with e1 evolves_trans [OF e1 evolves_delete [OF evolves_distinct [OF e1]]] show ?thesis by metis
qed

lemma flip_evolves: "bets_distinct w \<Longrightarrow> place_flip n f i tx w = (x, w') \<Longrightarrow> evolves N w w'"
proof (induction n arbitrary: w x w')
  case (Suc n)
  let ?s = "\<lambda>b. b\<lparr>b_debitTxId := Some (tx_id tx)\<rparr>"
  let ?a = "\<lambda>b. b\<lparr>b_status := Active, b_debitTxId := Some (tx_id tx)\<rparr>"
  have s: "evolves N w (snd (bet_cas w i Reserving ?s))"
    by (rule evolves_cas [OF Suc.prems(1) _ prod.collapse [symmetric]]) (simp add: evolve_simps)
  have a: "evolves N w (snd (bet_cas w i Reserving ?a))"
    by (rule evolves_cas [OF Suc.prems(1) _ prod.collapse [symmetric]]) (simp add: evolve_simps)
  from Suc.prems(2) consider "place_flip n f i tx w = (x, w')" | "w' = w"
    | "w' = snd (bet_cas w i Reserving ?s)" | "w' = snd (bet_cas w i Reserving ?a)"
    by (fastforce split: if_splits prod.splits)
  then show ?case
    by cases (use Suc.IH [OF Suc.prems(1)] s a evolves_refl [OF Suc.prems(1)] in metis)+
qed (simp add: evolves_refl)

lemma place_evolves:
  assumes d: "bets_distinct w" and p: "bc_wallet ctx = provider" and i: "i \<in> N" "i \<notin> bet_ids w"
  shows "evolves N w (snd (placeBet f ctx a i w))"
proof -
  define w' where "w' = snd (placeBet f ctx a i w)"
  have "w' = w \<or> (\<exists>rid wal x w1. place_reserve (pf_reserve f) (bc_risk ctx) (bc_now ctx) a i rid wal
      \<lfloor>pa_amount a\<rfloor> w = (x, w1) \<and> (w' = w1 \<or>
      (\<exists>y w2. place_debit f provider (pa_userId a) (pa_panel a) i rid (w_id wal) \<lfloor>pa_amount a\<rfloor> w1 = (y, w2) \<and>
        (w' = w2 \<or> (\<exists>tx z. place_flip 3 f i tx w2 = (z, w'))))))"
    unfolding w'_def placeBet_def Let_def p by (fastforce split: option.splits sum.splits prod.splits bool.splits if_splits)
  then show ?thesis
    unfolding w'_def [symmetric]
    using evolves_refl [OF d] reserve_evolves [OF d i] place_debit_evolves flip_evolves
      evolves_trans evolves_distinct by metis
qed

lemma op_evolves:
  assumes d: "bets_distinct w" and ok: "op_ok N op w" and r: "race_evolves N (op_race op)"
  shows "evolves N w (game_do provider op w)"
proof (cases op)
  case (Demo_reset i t s)
  have "game_same w (demo_reset i t s w)"
    by (simp add: demo_reset_def ledger_resetTo_def ledger_insert_def game_same_def Let_def split: option.splits)
  with evolves_same [OF d] Demo_reset show ?thesis by simp
next
  case (Rounds g)
  with evolves_bets [OF d] show ?thesis by simp
next
  case (Sweep_reserving now ms)
  with evolves_mono [OF recover_reserving_evolves [OF d]] show ?thesis by simp
qed (use d ok r in \<open>simp_all add: place_evolves cancel_evolves cashout_evolves auto_evolves void_evolves
      settle_evolves close_round_evolves stale_extra_evolves interrupted_evolves
      reconcileVoidingBets_def reconcilePendingPayouts_def recoverStrandedActiveBets_def
      fold_evolves [OF void_step_evolves d] fold_evolves [OF pending_step_evolves d] fold_evolves [OF heal_evolves d]\<close>)

lemma steps_evolve: "game_steps provider N w v \<Longrightarrow> bets_distinct w \<Longrightarrow> evolves N w v"
proof (induction rule: game_steps.induct)
  case (step N w v op)
  then have e: "evolves N w v" by blast
  have "race_evolves N (op_race op)"
    unfolding race_evolves_def using step.IH(2) evolves_subset [of "N - bet_ids u" for u] by blast
  from evolves_trans [OF e op_evolves [OF evolves_distinct [OF e] step.hyps(2) this]] show ?case .
qed (simp add: evolves_refl)

end

text \<open>Every provider the application can be configured with keeps to the frame.\<close>

lemma provider_frame:
  assumes "walletProvider ty api sf now = Inr p"
  shows "wallet_frame p"
proof -
  have "p = ledgerProvider \<or> p = WalletRouter ledgerProvider
      (SeamlessOperatorWallet (operatorWallet_cfg api sf now)) (\<lambda>w i. Inr (isDemoWallet w i))"
    using assms by (auto simp: walletProvider_def wallet_factory_def Let_def split: if_splits)
  then show ?thesis
    using lp.wallet_frame_axioms by (auto intro: wallet_frame.intro router.router_frame)
qed

lemma status_step_advances: "t \<in> set (next_status s) \<Longrightarrow> advances s t"
  by (cases s) auto

abbreviation status_reach :: "bet_status \<Rightarrow> bet_status \<Rightarrow> bool" where
  "status_reach \<equiv> (\<lambda>x y. y \<in> set (next_status x))\<^sup>*\<^sup>*"

lemma status_edges:
  "status_reach Reserving Active" "status_reach Reserving Cancelling" "status_reach Cancelling Cancelled"
  "status_reach Active Cashed_out" "status_reach Active Busted" "status_reach Active Cancelled"
  "status_reach Cashed_out Payout_pending" "status_reach Cashed_out Voiding"
  "status_reach Payout_pending Cashed_out" "status_reach Busted Voiding" "status_reach Voiding Voided"
  by (simp_all add: r_into_rtranclp)

lemmas status_paths = status_edges
  status_edges(8) [THEN rtranclp_trans, OF status_edges(11)]
  status_edges(10) [THEN rtranclp_trans, OF status_edges(11)]
  status_edges(9) [THEN rtranclp_trans, OF status_edges(8)]
  status_edges(9) [THEN rtranclp_trans, OF status_edges(8) [THEN rtranclp_trans, OF status_edges(11)]]

lemma advances_reach:
  assumes "advances s t"
  shows "status_reach s t"
proof -
  have a: "status_reach Active u" if "u \<notin> {Reserving, Cancelling}" for u
    using that rtranclp_trans [OF status_edges(4)] rtranclp_trans [OF status_edges(5)] status_paths
    by (cases u) blast+
  have "status_reach Reserving u" for u
    using rtranclp_trans [OF status_edges(1) a] status_edges(2) rtranclp_trans [OF status_edges(2,3)]
    by (cases u) blast+
  with assms a status_paths show ?thesis by (cases s) auto
qed

lemma advances_iff: "advances s t \<longleftrightarrow> status_reach s t"
proof
  show "advances s t \<Longrightarrow> status_reach s t" by (rule advances_reach)
next
  assume "status_reach s t"
  then show "advances s t" by (induction) (auto intro: advances_trans status_step_advances)
qed


end
