(* ===== verification/VR_BookRun.thy ===== *)
theory VR_BookRun
  imports VR_BookRecovery VR_LifeOps
begin

text \<open>
  Placing a bet and resetting a demo wallet keep the books, so every run of the game in internal mode
  does: whatever requests, sweeps and recovery actions are served, in whatever order, each of them
  with other runs between its reads and its compare-and-swap.
\<close>

section \<open>Placing\<close>

lemma legal_frame:
  assumes "\<forall>c \<in> set (db_bets w). present w' c = present w c"
  shows "c \<in> set (db_bets w) \<Longrightarrow> legal_bet w' c = legal_bet w c"
  using assms by (simp add: legal_bet_def)

lemma insert_books:
  assumes w: "books_ok w" and b: "wf_bet w b" and id: "b_id b \<notin> bet_ids w"
    and sl: "find_slot w (b_roundId b) (b_userId b) (b_panel b) = None"
    and st: "b_status b = Reserving" "b_payout b = 0"
  shows "books_ok (w\<lparr>db_bets := db_bets w @ [b]\<rparr>)"
proof -
  have s: "struct_ok w" using w by (simp add: books_ok_def)
  have slot: "slot b \<notin> slot ` set (db_bets w)"
    using sl by (auto simp: slot_def find_slot_def find_None_iff)
  note ins = struct_insert [OF s b id [unfolded bet_ids_def] slot]
  have pr: "present (w\<lparr>db_bets := db_bets w @ [b]\<rparr>) c = present w c" for c
    by (simp add: present_def has_key_def)
  have "legal_bet w c" if "c \<in> set (db_bets w)" for c using w that by (simp add: books_ok_def)
  moreover have "legal_bet w b" using ins(2) st by (simp add: legal_bet_def legal_def)
  ultimately show ?thesis using ins(1) by (auto simp: books_ok_def legal_bet_def pr)
qed

lemma reserving_present:
  "books_ok w \<Longrightarrow> b \<in> set (db_bets w) \<Longrightarrow> b_status b = Reserving \<Longrightarrow> b_payout b = 0 \<and> present w b \<subseteq> {KD}"
proof -
  assume w: "books_ok w" and b: "b \<in> set (db_bets w)" "b_status b = Reserving"
  have "legal Reserving (b_payout b) (present w b)" using w b by (metis books_ok_def legal_bet_def)
  then show ?thesis by (simp add: legal_def)
qed

text \<open>The debit of a reservation: its row is in the journal, or the reservation is released.\<close>

lemma debit_books:
  assumes w: "books_ok w" and b: "b \<in> set (db_bets w)" "b_status b = Reserving" and f: "b_debitTxId b = None"
    and r: "place_debit f ledgerProvider (b_userId b) (b_panel b) (b_id b) (b_roundId b) (b_walletId b) (b_amount b) w = (x, w')"
  shows "books_ok w'" and "x = Inr tx \<Longrightarrow> b \<in> set (db_bets w') \<and> KD \<in> present w' b"
proof -
  have s: "struct_ok w" using w by (simp add: books_ok_def)
  have pos: "0 < b_amount b" using struct_bet(1) [OF s b(1)] by (simp add: wf_bet_def)
  let ?d = "ledger_debit (b_walletId b) (b_amount b) Bet_debit (debitKey (b_roundId b) (b_userId b) (b_panel b))
      (Some (bet_ref (b_id b))) w"
  have "(\<exists>tx w1. ?d = (Inr tx, w1) \<and> adds w b KD w1) \<or> KD \<notin> present w b \<and> ?d = (Inl Insufficient_balance, w)"
    using debit_adds [OF s b(1), of KD] pos by (simp add: bamount_def btype_def bkey_def bet_debitKey_def)
  then have "books_ok w' \<and> (x = Inr tx \<longrightarrow> b \<in> set (db_bets w') \<and> KD \<in> present w' b)"
  proof (elim disjE exE conjE)
    fix t w1 assume d: "?d = (Inr t, w1)" and a: "adds w b KD w1"
    have b1: "b \<in> set (db_bets w1)" using a b(1) by (simp add: adds_def)
    have pr: "present w1 b = {KD}" using adds_present [OF a b(1)] reserving_present [OF w b] by auto
    have "books_ok w1"
      by (rule but_done [OF but_adds [OF books_but_I [OF w] a] b1])
        (use pr b(2) reserving_present [OF w b] in \<open>simp add: legal_bet_def legal_def\<close>)
    with r d b1 pr show ?thesis by (simp add: place_debit_def)
  next
    assume k: "KD \<notin> present w b" and d: "?d = (Inl Insufficient_balance, w)"
    have "present w b = {}" using reserving_present [OF w b] k by auto
    from release_unpaid_books [OF w b(1) this] w r d show ?thesis by (auto simp: place_debit_def)
  qed
  then show "books_ok w'" "x = Inr tx \<Longrightarrow> b \<in> set (db_bets w') \<and> KD \<in> present w' b" by simp_all
qed

lemma flip_books:
  assumes w: "books_ok w" and b: "b \<in> set (db_bets w)" "b_status b = Reserving" "KD \<in> present w b"
    and r: "place_flip n f (b_id b) tx w = (x, w')"
  shows "books_ok w'"
proof -
  have s: "struct_ok w" using w by (simp add: books_ok_def)
  have pr: "present w b = {KD}" "b_payout b = 0" using reserving_present [OF w b(1,2)] b(3) by auto
  let ?s = "\<lambda>b. b\<lparr>b_debitTxId := Some (tx_id tx)\<rparr>"
  let ?a = "\<lambda>b. b\<lparr>b_status := Active, b_debitTxId := Some (tx_id tx)\<rparr>"
  have "books_ok (bet_set w (b_id b) ?s)"
    by (rule books_bet_set [OF books_but_I [OF w] b(1)]) (use pr b(2) in \<open>simp_all add: keeps_def slot_def legal_def\<close>)
  then have st: "books_ok (snd (bet_cas w (b_id b) Reserving ?s))" using bet_cas_eq [OF s b(1), of Reserving ?s] b(2) by simp
  have "books_ok (bet_set w (b_id b) ?a)"
    by (rule books_bet_set [OF books_but_I [OF w] b(1)]) (use pr in \<open>simp_all add: keeps_def slot_def legal_def\<close>)
  then have ac: "books_ok (snd (bet_cas w (b_id b) Reserving ?a))" using bet_cas_eq [OF s b(1), of Reserving ?a] b(2) by simp
  show ?thesis
    using r
  proof (induction n arbitrary: x w')
    case (Suc n)
    from Suc.prems consider "place_flip n f (b_id b) tx w = (x, w')" | "w' = w"
      | "w' = snd (bet_cas w (b_id b) Reserving ?s)" | "w' = snd (bet_cas w (b_id b) Reserving ?a)"
      by (fastforce split: if_splits prod.splits)
    then show ?case by cases (use Suc.IH w st ac in metis)+
  qed (use w in simp)
qed

definition place_tail ::
  "place_faults \<Rightarrow> 'o bets_ctx \<Rightarrow> place_args \<Rightarrow> uid \<Rightarrow> uid \<Rightarrow> wallet \<Rightarrow> 'o world \<Rightarrow> 'o world" where
  "place_tail f ctx a i rid wal w =
     (case place_reserve (pf_reserve f) (bc_risk ctx) (bc_now ctx) a i rid wal \<lfloor>pa_amount a\<rfloor> w of
        (Inl _, w1) \<Rightarrow> w1
      | (Inr _, w1) \<Rightarrow>
          (case place_debit f (bc_wallet ctx) (pa_userId a) (pa_panel a) i rid (w_id wal) \<lfloor>pa_amount a\<rfloor> w1 of
             (Inl _, w2) \<Rightarrow> w2 | (Inr tx, w2) \<Rightarrow> snd (place_flip 3 f i tx w2)))"

lemma place_cases:
  obtains (stay) "snd (placeBet f ctx a i w) = w"
  | (go) rid wal where "in_phase ctx Betting = Some rid" and "checkBetAmount (bc_risk ctx) \<lfloor>pa_amount a\<rfloor> (pa_limits a) = Inr ()"
    and "resolve_wallet w (pa_userId a) (pa_walletId a) = Inr wal"
    and "snd (placeBet f ctx a i w) = place_tail f ctx a i rid wal w"
proof (cases "in_phase ctx Betting")
  case ph: (Some rid)
  show ?thesis
  proof (cases "checkBetAmount (bc_risk ctx) \<lfloor>pa_amount a\<rfloor> (pa_limits a)")
    case (Inr u)
    then have chk: "checkBetAmount (bc_risk ctx) \<lfloor>pa_amount a\<rfloor> (pa_limits a) = Inr ()" by simp
    show ?thesis
    proof (cases "rg_precheck (bc_now ctx) a = None \<and> (case find_slot w rid (pa_userId a) (pa_panel a) of
        None \<Rightarrow> False | Some b \<Rightarrow> b_status b \<noteq> Reserving) = False")
      case True
      note pre = True
      show ?thesis
      proof (cases "resolve_wallet w (pa_userId a) (pa_walletId a)")
        case wal: (Inr wal)
        have "snd (placeBet f ctx a i w) = place_tail f ctx a i rid wal w"
          using ph chk pre wal unfolding place_tail_def placeBet_def Let_def
          by (simp split: prod.splits sum.splits bool.splits)
        with go [OF ph chk wal] show ?thesis by simp
      qed (use ph chk pre in \<open>intro stay; simp add: placeBet_def Let_def\<close>)
    next
      case False
      with ph chk show ?thesis by (intro stay) (cases "rg_precheck (bc_now ctx) a"; simp add: placeBet_def Let_def)
    qed
  qed (use ph in \<open>intro stay; simp add: placeBet_def Let_def\<close>)
qed (intro stay; simp add: placeBet_def Let_def)

lemma place_books:
  assumes w: "books_ok w" and p: "bc_wallet ctx = ledgerProvider" and i: "i \<notin> bet_ids w" and ok: "place_ok ctx a i"
  shows "books_ok (snd (placeBet f ctx a i w))"
proof (cases rule: place_cases [of f ctx a i w])
  case (go rid wal)
  define amt where "amt = \<lfloor>pa_amount a\<rfloor>"
  let ?b = "new_bet (bc_now ctx) a i rid wal amt"
  obtain x w1 where res: "place_reserve (pf_reserve f) (bc_risk ctx) (bc_now ctx) a i rid wal amt w = (x, w1)"
    by fastforce
  have rid: "colon_free rid" using go(1) ok by (auto simp: in_phase_def place_ok_def split: option.splits if_splits)
  have pos: "0 < amt"
    using go(2) ok unfolding amt_def [symmetric] by (auto simp: checkBetAmount_def place_ok_def split: option.splits if_splits)
  have "wal \<in> set (db_wallets w)"
    using go(3) find_wallet_SomeD by (auto simp: resolve_wallet_def split: option.splits if_splits dest: find_SomeD)
  then have wf: "wf_bet w ?b" using ok rid pos by (simp add: wf_bet_def new_bet_def place_ok_def)
  show ?thesis
  proof (cases x)
    case (Inl r)
    then have "w1 = w" using res by (auto simp: place_reserve_def split: sum.splits option.splits if_splits)
    with go(4) res Inl w show ?thesis by (simp add: place_tail_def amt_def)
  next
    case (Inr u)
    have w1: "w1 = w\<lparr>db_bets := db_bets w @ [?b]\<rparr>" and sl: "find_slot w rid (pa_userId a) (pa_panel a) = None"
      using res Inr by (auto simp: place_reserve_def split: sum.splits option.splits if_splits)
    have ok1: "books_ok w1" unfolding w1 by (rule insert_books [OF w wf]) (use i sl in \<open>simp_all add: new_bet_def\<close>)
    have b: "?b \<in> set (db_bets w1)" "b_status ?b = Reserving" "b_debitTxId ?b = None" by (simp_all add: w1 new_bet_def)
    obtain y w2 where deb: "place_debit f ledgerProvider (pa_userId a) (pa_panel a) i rid (w_id wal) amt w1 = (y, w2)"
      by fastforce
    have deb': "place_debit f ledgerProvider (b_userId ?b) (b_panel ?b) (b_id ?b) (b_roundId ?b) (b_walletId ?b) (b_amount ?b) w1 = (y, w2)"
      using deb by (simp add: new_bet_def)
    note d = debit_books [OF ok1 b deb']
    show ?thesis
    proof (cases y)
      case y: (Inl r)
      with go(4) res Inr deb p d(1) show ?thesis by (simp add: place_tail_def amt_def)
    next
      case y: (Inr tx)
      obtain z w3 where fl: "place_flip 3 f i tx w2 = (z, w3)" by fastforce
      then have "place_flip 3 f (b_id ?b) tx w2 = (z, w3)" by (simp add: new_bet_def)
      from flip_books [OF d(1) _ b(2) _ this] d(2) [OF y] have "books_ok w3" by blast
      with go(4) res Inr deb p y fl show ?thesis by (simp add: place_tail_def amt_def)
    qed
  qed
qed (use w in simp)

section \<open>Demo resets\<close>

lemma foreign_books:
  assumes w: "books_ok w" and l: "foreign_row l"
    and db: "db_ledger w' = db_ledger w @ [l]" "db_bets w' = db_bets w" "w_id ` set (db_wallets w') = w_id ` set (db_wallets w)"
    and inv: "ledger_inv w'"
  shows "books_ok w'"
proof -
  have "bkey b k \<noteq> lt_key l" for b k using l bkey_prefix [of b k] unfolding foreign_row_def by metis
  then have pr: "present w' b = present w b" for b by (auto simp: present_def has_key_def db)
  have "struct_ok w'" using w inv l by (auto simp: books_ok_def struct_ok_def wf_bet_def db)
  with w pr show ?thesis by (simp add: books_ok_def legal_bet_def db)
qed

lemma reset_to_books:
  assumes w: "books_ok w" and key: "\<not> starts_with key ''bet:''" and ref: "ref_type_of ref \<noteq> Some ''bet''"
  shows "books_ok (snd (ledger_resetTo id id w i t key ref))"
proof (cases "snd (ledger_resetTo id id w i t key ref) = w")
  case False
  then obtain x where t: "\<not> t < 0" and k: "find_key w key = None" and x: "find_wallet w i = Some x"
    and r: "snd (ledger_resetTo id id w i t key ref) =
      append_row (mk_row w i Adjustment (t - w_balance x) t ref key) (set_balance i t w)"
    by (auto simp: ledger_resetTo_def ledger_insert_def Let_def split: option.splits if_splits)
  let ?l = "mk_row w i Adjustment (t - w_balance x) t ref key"
  let ?w = "append_row ?l (set_balance i t w)"
  have l: "foreign_row ?l" using key ref by (simp add: foreign_row_def mk_row_def)
  have inv: "ledger_inv ?w"
    using w k x t by (intro ledger_inv_insert) (auto simp: books_ok_def struct_ok_def find_key_None_iff)
  have ids: "w_id ` set (db_wallets ?w) = w_id ` set (db_wallets w)"
    by simp (metis set_balance_simps(9) set_map)
  have "books_ok ?w" by (rule foreign_books [OF w l _ _ ids inv]) simp_all
  then show ?thesis by (simp only: r)
qed (use w in simp)

lemma reset_books: "books_ok w \<Longrightarrow> books_ok (demo_reset i t sid w)"
  unfolding demo_reset_def by (rule reset_to_books) (simp_all add: starts_with_def ref_type_of_def)

section \<open>Runs\<close>

lemma op_books:
  assumes w: "books_ok w" and ok: "op_ok N op w" and r: "race_ok (op_race op)"
  shows "books_ok (game_do ledgerProvider op w)"
proof (cases op)
  case (Place f ctx a i)
  with place_books [OF w, of "ctx\<lparr>bc_wallet := ledgerProvider\<rparr>" i a f] ok show ?thesis by (simp add: place_ok_def)
next
  case (Cancel ctx u pn)
  with cancel_books [OF w, of "ctx\<lparr>bc_wallet := ledgerProvider\<rparr>"] r show ?thesis by simp
next
  case (Cash_out ctx u pn m)
  with cashout_books [OF w, of "ctx\<lparr>bc_wallet := ledgerProvider\<rparr>"] r show ?thesis by simp
next
  case (Auto ctx m)
  with auto_books [OF w, of "ctx\<lparr>bc_wallet := ledgerProvider\<rparr>"] r show ?thesis by simp
next
  case (Void ctx oid i)
  with void_books [OF w, of "ctx\<lparr>bc_wallet := ledgerProvider\<rparr>"] r show ?thesis by simp
qed (simp_all add: w settle_books voiding_sweep_books pending_sweep_books recover_reserving_books
      stranded_books close_round_books stale_extra_books interrupted_books reset_books)

text \<open>A run keeps the books, and what it does to a bet in between is what a handler tolerates.\<close>

lemma books_distinct: "books_ok w \<Longrightarrow> bets_distinct w"
  by (simp add: books_ok_def struct_ok_def bets_distinct_def)

lemma evolve_core: "evolve b c \<Longrightarrow> same_core b c"
  by (auto simp: evolve_def same_ident_def same_core_def slot_def)

lemma steps_books:
  fixes w :: "'a world"
  shows "game_steps ledgerProvider N w v \<Longrightarrow> books_ok w \<Longrightarrow> books_ok v"
proof (induction rule: game_steps.induct)
  case (step N w v op)
  then have v: "books_ok v" by blast
  have "race_ok (op_race op)"
    unfolding race_ok_def
  proof (intro allI impI conjI ballI)
    fix u :: "'a world" and b c assume u: "books_ok u"
    have run: "game_steps ledgerProvider (N - bet_ids u) u (op_race op u)" using step.IH(2) by blast
    show "books_ok (op_race op u)" using step.IH(2) u by blast
    assume b: "b \<in> set (db_bets u)" "c \<in> set (db_bets (op_race op u))" "b_id c = b_id b"
    have "b_id b \<notin> N - bet_ids u" using b(1) by (simp add: bet_ids_def)
    from evolves_find [OF lp.steps_evolve [OF run books_distinct [OF u]] books_distinct [OF u] this b]
    show "same_core b c" by (rule evolve_core)
  qed
  with op_books [OF v step.hyps(2)] show ?case .
qed simp

end
