(* ===== verification/VR_Reconcile.thy ===== *)
theory VR_Reconcile
  imports VR_BookRun
begin

text \<open>
  The acceptance gate of the ledger, \<open>scripts/reconcile-check.ts\<close>, as executable checks over the
  database: the sums its SQL computes are sums over the join of ledger rows and bets. The last section
  proves that a run of the game in internal mode passes every money check once its backlog is drained;
  the per-bet sums of the journal come from the books of the earlier theories.
\<close>

section \<open>The checks\<close>

definition bet_rows :: "'o world \<Rightarrow> ledger_type \<Rightarrow> (bet \<Rightarrow> bool) \<Rightarrow> (ledger_row \<times> bet) list" where
  "bet_rows w ty Q =
     filter (\<lambda>(l, b). lt_refId l = Some (b_id b) \<and> lt_type l = ty \<and> lt_refType l = Some ''bet'' \<and>
       b_operatorId b = None \<and> Q b) (List.product (db_ledger w) (db_bets w))"

definition live_sum :: "'o world \<Rightarrow> ledger_type \<Rightarrow> (bet \<Rightarrow> bool) \<Rightarrow> int" where
  "live_sum w ty Q = sum_list (map (\<lambda>(l, b). lt_amount l) (bet_rows w ty Q))"

definition has_debit_row :: "'o world \<Rightarrow> bet \<Rightarrow> bool" where
  "has_debit_row w b \<longleftrightarrow>
     list_ex (\<lambda>d. lt_refId d = Some (b_id b) \<and> lt_type d = Bet_debit \<and> lt_refType d = Some ''bet'') (db_ledger w)"

definition liveDebit :: "'o world \<Rightarrow> int" where
  "liveDebit w = live_sum w Bet_debit (\<lambda>_. True)"

definition liveRefund :: "'o world \<Rightarrow> int" where
  "liveRefund w = live_sum w Refund (has_debit_row w)"

definition livePayout :: "'o world \<Rightarrow> int" where
  "livePayout w = live_sum w Payout_credit (\<lambda>_. True)"

definition heldStakes :: "'o world \<Rightarrow> int" where
  "heldStakes w = sum_where (\<lambda>b. b_operatorId b = None \<and> b_status b \<in> set WAGERED_STATUSES) b_amount (db_bets w)"

definition paidPayouts :: "'o world \<Rightarrow> int" where
  "paidPayouts w = sum_where (\<lambda>b. b_operatorId b = None \<and> b_status b = Cashed_out) b_payout (db_bets w)"

definition check_1a :: "'o world \<Rightarrow> bool" where
  "check_1a w \<longleftrightarrow> - liveDebit w - liveRefund w = heldStakes w"

definition check_1b :: "'o world \<Rightarrow> bool" where
  "check_1b w \<longleftrightarrow> livePayout w = paidPayouts w"

definition check_2 :: "'o world \<Rightarrow> bool" where
  "check_2 w \<longleftrightarrow> list_all (\<lambda>x. case rev (wallet_rows (w_id x) (db_ledger w)) of
     [] \<Rightarrow> True | l # _ \<Rightarrow> w_balance x = lt_balanceAfter l) (db_wallets w)"

definition payoutKeys :: "'o world \<Rightarrow> string list" where
  "payoutKeys w = map lt_key (filter (\<lambda>l. lt_type l = Payout_credit) (db_ledger w))"

definition internal_bets :: "'o world \<Rightarrow> bet_status \<Rightarrow> bet list" where
  "internal_bets w s = filter (\<lambda>b. b_operatorId b = None \<and> b_status b = s) (db_bets w)"

definition check_3 :: "'o world \<Rightarrow> bool" where
  "check_3 w \<longleftrightarrow> list_all (\<lambda>b. b_payout b > 0 \<longrightarrow> payoutKey (b_id b) \<in> set (payoutKeys w)) (internal_bets w Cashed_out)"

definition check_3b :: "'o world \<Rightarrow> bool" where
  "check_3b w \<longleftrightarrow> list_all (\<lambda>b. b_payoutTxId b \<noteq> None) (internal_bets w Cashed_out)"

definition check_4 :: "'o world \<Rightarrow> bool" where
  "check_4 w \<longleftrightarrow> list_all (\<lambda>b. payoutKey (b_id b) \<notin> set (payoutKeys w)) (internal_bets w Busted)"

definition check_5 :: "'o world \<Rightarrow> bool" where
  "check_5 w \<longleftrightarrow>
     count_where (\<lambda>b. b_status b = Reserving \<or> b_status b = Cancelling \<or> b_status b = Voiding) (db_bets w) = 0 \<and>
     count_where (\<lambda>b. b_status b = Payout_pending) (db_bets w) = 0"

definition check_6 :: "'o world \<Rightarrow> bool" where
  "check_6 w \<longleftrightarrow> count_where (\<lambda>r. rb_status r = RPending \<or> rb_status r = RDraining) (db_rollbacks w) = 0"

text \<open>The verdict of the gate: check 3b is advisory.\<close>

definition reconciled :: "'o world \<Rightarrow> bool" where
  "reconciled w \<longleftrightarrow> check_1a w \<and> check_1b w \<and> check_2 w \<and> check_3 w \<and> check_4 w \<and> check_5 w \<and> check_6 w"

section \<open>The journal, bet by bet\<close>

definition book_sum :: "'o world \<Rightarrow> ledger_type \<Rightarrow> bet \<Rightarrow> int" where
  "book_sum w ty b = (\<Sum>k \<in> {k \<in> present w b. btype k = ty}. bamount b k)"

lemma finite_book_keys [simp]: "finite (K :: book_key set)"
proof -
  have "(UNIV :: book_key set) = {KD, KK KPayout, KK KRefund, KK KRestart, KK KVoidReclaim, KK KVoidRefund}"
  proof -
    have "k \<in> {KD, KK KPayout, KK KRefund, KK KRestart, KK KVoidReclaim, KK KVoidRefund}" for k
      by (cases k; simp) (metis key_kind.exhaust)
    then show ?thesis by blast
  qed
  then have "finite (UNIV :: book_key set)" by (metis finite.emptyI finite_insert)
  then show ?thesis by (rule finite_subset [OF subset_UNIV])
qed

text \<open>The rows joined to a bet are the rows of its keys.\<close>

lemma joined_row:
  assumes s: "struct_ok w" and b: "b \<in> set (db_bets w)" and l: "l \<in> set (db_ledger w)"
  shows "lt_refId l = Some (b_id b) \<and> lt_refType l = Some ''bet'' \<longleftrightarrow> (\<exists>k. row_of b k l)"
proof
  assume j: "lt_refId l = Some (b_id b) \<and> lt_refType l = Some ''bet''"
  then have "\<not> foreign_row l" by (simp add: foreign_row_def)
  then obtain c k where c: "c \<in> set (db_bets w)" "row_of c k l" using s l by (auto simp: struct_ok_def)
  with j have "b_id c = b_id b" by (simp add: row_of_def)
  with struct_bet(3) [OF s b c(1)] c(2) show "\<exists>k. row_of b k l" by auto
qed (auto simp: row_of_def)

lemma row_of_inj: "struct_ok w \<Longrightarrow> b \<in> set (db_bets w) \<Longrightarrow> row_of b k l \<Longrightarrow> row_of b m l \<Longrightarrow> k = m"
  using bkey_unique [of w b b k m] by (simp add: row_of_def)

lemma find_row:
  assumes "struct_ok w" and "l \<in> set (db_ledger w)" and "row_of b k l"
  shows "find_key w (bkey b k) = Some l"
proof -
  have k: "bkey b k = lt_key l" using assms(3) by (simp add: row_of_def)
  show ?thesis
    unfolding find_key_def k using assms(1,2) by (intro find_distinct) (auto simp: struct_ok_def ledger_inv_def)
qed

lemma journal_sum:
  assumes s: "struct_ok w" and b: "b \<in> set (db_bets w)"
  shows "sum_where (\<lambda>l. lt_refId l = Some (b_id b) \<and> lt_type l = ty \<and> lt_refType l = Some ''bet'') lt_amount (db_ledger w)
    = book_sum w ty b"
proof -
  let ?P = "\<lambda>l. lt_refId l = Some (b_id b) \<and> lt_type l = ty \<and> lt_refType l = Some ''bet''"
  let ?L = "{l \<in> set (db_ledger w). ?P l}"
  have d: "distinct (db_ledger w)"
    using s by (auto simp: struct_ok_def ledger_inv_def distinct_map)
  have "sum_where ?P lt_amount (db_ledger w) = (\<Sum>l \<in> ?L. lt_amount l)"
    using d by (simp add: sum_where_def sum_list_distinct_conv_sum_set)
  also have "\<dots> = book_sum w ty b"
    unfolding book_sum_def
  proof (rule sum.reindex_bij_witness [where j = "\<lambda>l. THE k. row_of b k l" and i = "\<lambda>k. the (find_key w (bkey b k))"])
    have row: "the (find_key w (bkey b k)) \<in> set (db_ledger w) \<and> row_of b k (the (find_key w (bkey b k)))"
      if "k \<in> present w b" for k
    proof -
      from that present_row [OF s b] obtain l where l: "l \<in> set (db_ledger w)" "row_of b k l" by blast
      then have "find_key w (bkey b k) = Some l" by (rule find_row [OF s])
      with l show ?thesis by simp
    qed
    have the: "(THE k. row_of b k l) = k" if "row_of b k l" for k l
      using that row_of_inj [OF s b] by blast
    fix l assume "l \<in> ?L"
    then obtain k where l: "l \<in> set (db_ledger w)" "row_of b k l" "lt_type l = ty" using joined_row [OF s b] by auto
    then have "find_key w (bkey b k) = Some l" by (intro find_row [OF s])
    then show "the (find_key w (bkey b (THE k. row_of b k l))) = l" using the [OF l(2)] by simp
    show "(THE k. row_of b k l) \<in> {k \<in> present w b. btype k = ty}"
      using the [OF l(2)] l present_row [OF s b] by (auto simp: row_of_def)
    show "bamount b (THE k. row_of b k l) = lt_amount l"
      using the [OF l(2)] l by (simp add: row_of_def)
  next
    fix k assume k: "k \<in> {k \<in> present w b. btype k = ty}"
    then obtain l where l: "l \<in> set (db_ledger w)" "row_of b k l" using present_row [OF s b] by blast
    then have f: "find_key w (bkey b k) = Some l" by (rule find_row [OF s])
    have the: "(THE m. row_of b m l) = k" using l(2) row_of_inj [OF s b] by blast
    show "(THE m. row_of b m (the (find_key w (bkey b k)))) = k" using f the by simp
    show "the (find_key w (bkey b k)) \<in> ?L" using f l k by (auto simp: row_of_def)
  qed
  finally show ?thesis .
qed

lemma product_sum:
  "sum_list (map (\<lambda>(x, y). f x) (filter (\<lambda>(x, y). P x y) (List.product xs ys))) =
   sum_list (map (\<lambda>y. sum_where (\<lambda>x. P x y) f xs) (ys :: 'b list))" for f :: "'a \<Rightarrow> int"
proof (induction xs)
  case Nil
  show ?case by (simp add: sum_list_triv)
next
  case (Cons x xs)
  have "sum_list (map (\<lambda>(x, y). f x) (filter (\<lambda>(x, y). P x y) (map (Pair x) ys))) =
      sum_list (map (\<lambda>y. if P x y then f x else 0) ys)"
    by (induction ys) simp_all
  with Cons show ?case by (simp add: sum_list_addf)
qed

lemma sum_where_if: "sum_where P (\<lambda>x. if Q x then f x else 0) xs = sum_where (\<lambda>x. P x \<and> Q x) f xs"
  by (induction xs) simp_all

lemma live_sum_books:
  assumes "struct_ok w"
  shows "live_sum w ty Q = sum_where (\<lambda>b. b_operatorId b = None \<and> Q b) (book_sum w ty) (db_bets w)"
proof -
  have "sum_where (\<lambda>l. lt_refId l = Some (b_id b) \<and> lt_type l = ty \<and> lt_refType l = Some ''bet'' \<and>
      b_operatorId b = None \<and> Q b) lt_amount (db_ledger w) =
      (if b_operatorId b = None \<and> Q b then book_sum w ty b else 0)" if "b \<in> set (db_bets w)" for b
    using journal_sum [OF assms that, of ty] by (cases "b_operatorId b = None \<and> Q b") (auto intro: sum_where_none)
  then have "live_sum w ty Q = sum_list (map (\<lambda>b. if b_operatorId b = None \<and> Q b then book_sum w ty b else 0) (db_bets w))"
    unfolding live_sum_def bet_rows_def product_sum by (intro arg_cong [of _ _ sum_list] map_cong) simp_all
  also have "\<dots> = sum_where (\<lambda>b. b_operatorId b = None \<and> Q b) (book_sum w ty) (db_bets w)"
    by (simp add: sum_where_def sum_list_map_filter')
  finally show ?thesis .
qed

section \<open>The books pass the gate\<close>

text \<open>What one settled bet contributes to each side of the conservation checks.\<close>

definition settled :: "bet_status \<Rightarrow> bool" where
  "settled s \<longleftrightarrow> s \<notin> {Reserving, Cancelling, Voiding, Payout_pending}"

lemma refunds_single:
  assumes "\<And>k. k \<in> K \<longleftrightarrow> k \<in> set ks" and "distinct ks"
  shows "(\<Sum>k \<in> {k \<in> K. btype k = ty}. bamount b k) = sum_where (\<lambda>k. btype k = ty) (bamount b) ks"
proof -
  have "{k \<in> K. btype k = ty} = set (filter (\<lambda>k. btype k = ty) ks)" using assms(1) by auto
  with assms(2) show ?thesis by (simp add: sum_where_def sum_list_distinct_conv_sum_set)
qed

lemma settled_keys:
  assumes l: "legal (b_status b) (b_payout b) (present w b)" and st: "settled (b_status b)"
  obtains (open_stake) "present w b = set [KD]" and "b_status b = Active \<or> b_status b = Busted"
  | (won) "present w b = set [KD, KK KPayout]" and "b_status b = Cashed_out"
  | (refunded) r where "present w b = set [KD, KK r]" and "r = KRefund \<or> r = KRestart \<or> r = KVoidRefund"
      and "b_status b = Cancelled \<or> b_status b = Voided"
  | (clawed_back) "present w b = set [KD, KK KPayout, KK KVoidReclaim, KK KVoidRefund]" and "b_status b = Voided"
proof (cases "b_status b")
  case Voided
  with l refunded [of KVoidRefund] clawed_back show ?thesis by (auto simp: legal_def split: if_splits)
next
  case Cancelled
  with l refunded [of KRefund] refunded [of KRestart] show ?thesis by (auto simp: legal_def)
qed (use l st open_stake won in \<open>auto simp: legal_def settled_def\<close>)

lemma settled_sums:
  assumes l: "legal (b_status b) (b_payout b) (present w b)" and st: "settled (b_status b)"
  shows "- book_sum w Bet_debit b - book_sum w Refund b =
      (if b_status b \<in> set WAGERED_STATUSES then b_amount b else 0)"
    and "book_sum w Payout_credit b = (if b_status b = Cashed_out then b_payout b else 0)"
    and "KD \<in> present w b"
proof -
  have sums: "book_sum w ty b = sum_where (\<lambda>k. btype k = ty) (bamount b) ks"
    if "present w b = set ks" "distinct ks" for ty ks
    unfolding book_sum_def using that by (intro refunds_single) auto
  note eval = btype_def bamount_def WAGERED_STATUSES_def
  have "- book_sum w Bet_debit b - book_sum w Refund b =
      (if b_status b \<in> set WAGERED_STATUSES then b_amount b else 0) \<and>
    book_sum w Payout_credit b = (if b_status b = Cashed_out then b_payout b else 0) \<and> KD \<in> present w b"
    using l st
  proof (cases rule: settled_keys)
    case open_stake
    from open_stake(2) show ?thesis
      by (elim disjE; simp add: sums [OF open_stake(1)] open_stake(1) eval)
  next
    case won
    then show ?thesis by (simp add: sums [OF won(1)] eval)
  next
    case (refunded r)
    from refunded(2,3) show ?thesis
      by (elim disjE; simp add: sums [OF refunded(1)] refunded(1) eval)
  next
    case clawed_back
    then show ?thesis by (simp add: sums [OF clawed_back(1)] eval)
  qed
  then show "- book_sum w Bet_debit b - book_sum w Refund b =
      (if b_status b \<in> set WAGERED_STATUSES then b_amount b else 0)"
    and "book_sum w Payout_credit b = (if b_status b = Cashed_out then b_payout b else 0)"
    and "KD \<in> present w b" by blast+
qed

lemma drained_settled:
  assumes "check_5 w" and "b \<in> set (db_bets w)"
  shows "settled (b_status b)"
  using assms by (auto simp: check_5_def count_where_0_iff settled_def)

lemma has_debit_row_iff:
  assumes "struct_ok w" and "b \<in> set (db_bets w)"
  shows "has_debit_row w b \<longleftrightarrow> KD \<in> present w b"
proof
  assume "KD \<in> present w b"
  with present_row [OF assms] obtain l where "l \<in> set (db_ledger w)" "row_of b KD l" by blast
  then show "has_debit_row w b" by (auto simp: has_debit_row_def list_ex_iff row_of_def btype_def)
next
  assume "has_debit_row w b"
  then obtain l where l: "l \<in> set (db_ledger w)" "lt_refId l = Some (b_id b)" "lt_refType l = Some ''bet''"
    "lt_type l = Bet_debit" by (auto simp: has_debit_row_def list_ex_iff)
  then obtain k where k: "row_of b k l" using joined_row [OF assms l(1)] by auto
  then have "btype k = Bet_debit" using l(4) by (simp add: row_of_def)
  then have "k = KD" by (cases k) (auto simp: btype_def split: key_kind.splits)
  with k l(1) present_row [OF assms] show "KD \<in> present w b" by blast
qed

lemma books_conserve:
  assumes ok: "books_ok w" and dr: "check_5 w"
  shows "check_1a w" and "check_1b w"
proof -
  have s: "struct_ok w" using ok by (simp add: books_ok_def)
  have lg: "legal (b_status b) (b_payout b) (present w b)" if "b \<in> set (db_bets w)" for b
    using ok that by (simp add: books_ok_def legal_bet_def)
  note sums = settled_sums [OF lg drained_settled [OF dr]]
  let ?I = "\<lambda>b. b_operatorId b = None"
  have "liveRefund w = sum_where ?I (book_sum w Refund) (db_bets w)"
    unfolding liveRefund_def live_sum_books [OF s]
    by (rule sum_where_cong) (simp_all add: has_debit_row_iff [OF s] sums(3))
  moreover have "liveDebit w = sum_where ?I (book_sum w Bet_debit) (db_bets w)"
    unfolding liveDebit_def live_sum_books [OF s] by simp
  moreover have "- sum_where ?I f bs - sum_where ?I g bs = sum_where ?I (\<lambda>b. - f b - g b) bs" for f g and bs :: "bet list"
    by (induction bs) simp_all
  ultimately have "- liveDebit w - liveRefund w =
      sum_where ?I (\<lambda>b. - book_sum w Bet_debit b - book_sum w Refund b) (db_bets w)" by simp
  also have "\<dots> = sum_where ?I (\<lambda>b. if b_status b \<in> set WAGERED_STATUSES then b_amount b else 0) (db_bets w)"
    by (rule sum_where_cong) (simp_all only: sums(1))
  also have "\<dots> = heldStakes w"
    unfolding heldStakes_def by (simp add: sum_where_if)
  finally show "check_1a w" by (simp add: check_1a_def)
  have "livePayout w = sum_where ?I (\<lambda>b. if b_status b = Cashed_out then b_payout b else 0) (db_bets w)"
    unfolding livePayout_def live_sum_books [OF s] by (rule sum_where_cong) (simp_all add: sums(2))
  also have "\<dots> = paidPayouts w" unfolding paidPayouts_def by (simp add: sum_where_if)
  finally show "check_1b w" by (simp add: check_1b_def)
qed

lemma books_rows:
  assumes ok: "books_ok w"
  shows "check_2 w" and "check_3 w" and "check_3b w" and "check_4 w"
proof -
  have s: "struct_ok w" using ok by (simp add: books_ok_def)
  have lg: "legal (b_status b) (b_payout b) (present w b)" if "b \<in> set (db_bets w)" for b
    using ok that by (simp add: books_ok_def legal_bet_def)
  show "check_2 w"
    unfolding check_2_def list_all_iff
  proof
    fix x assume "x \<in> set (db_wallets w)"
    then have "wallet_books (db_ledger w) x" using s by (simp add: struct_ok_def ledger_inv_def)
    then show "case rev (wallet_rows (w_id x) (db_ledger w)) of [] \<Rightarrow> True | l # _ \<Rightarrow> w_balance x = lt_balanceAfter l"
      by (cases "wallet_rows (w_id x) (db_ledger w)" rule: rev_cases) (simp_all add: wallet_books_def)
  qed
  have keys: "payoutKey (b_id b) \<in> set (payoutKeys w) \<longleftrightarrow> KK KPayout \<in> present w b" if b: "b \<in> set (db_bets w)" for b
  proof
    assume "KK KPayout \<in> present w b"
    with present_row [OF s b] obtain l where "l \<in> set (db_ledger w)" "row_of b (KK KPayout) l" by blast
    then show "payoutKey (b_id b) \<in> set (payoutKeys w)"
      by (force simp: payoutKeys_def row_of_def bkey_def kind_key_def btype_def)
  next
    assume "payoutKey (b_id b) \<in> set (payoutKeys w)"
    then have "has_key w (bkey b (KK KPayout))" by (auto simp: payoutKeys_def has_key_def bkey_def kind_key_def)
    then show "KK KPayout \<in> present w b" by (simp add: present_def)
  qed
  have won: "KK KPayout \<in> present w b" if "b \<in> set (db_bets w)" "b_status b = Cashed_out" for b
    using lg [OF that(1)] that(2) by (simp add: legal_def)
  then show "check_3 w" by (simp add: check_3_def list_all_iff internal_bets_def keys)
  show "check_3b w" using ok by (simp add: check_3b_def list_all_iff internal_bets_def books_ok_def legal_bet_def)
  have "KK KPayout \<notin> present w b" if "b \<in> set (db_bets w)" "b_status b = Busted" for b
    using lg [OF that(1)] that(2) by (simp add: legal_def)
  then show "check_4 w" by (simp add: check_4_def list_all_iff internal_bets_def keys)
qed

section \<open>Properties\<close>


text \<open>A run: two bets are placed, one is cancelled by a race while it is cashed out, one is paid.\<close>

definition table_world :: "unit world" where
  "table_world =
     \<lparr>db_wallets = [\<lparr>w_id = ''w1'', w_userId = ''u1'', w_currency = ''eur'', w_balance = 1000\<rparr>],
      db_ledger = [], db_bets = [],
      db_rounds = [\<lparr>r_id = ''r1'', r_seedId = ''s1'', r_crashPoint = 250, r_status = Betting,
        r_phaseEndsAt = Some 5000, r_startedAt = None, r_crashedAt = None, r_settledAt = None\<rparr>],
      db_users = [\<lparr>u_id = ''u1'', u_username = ''Thief'', u_isGuest = True, u_anonymizedAt = None\<rparr>], db_profiles = [], db_sessions = [],
      db_rollbacks = [], operator_state = ()\<rparr>"

definition table_ctx :: "phase \<Rightarrow> (unit world \<Rightarrow> unit world) \<Rightarrow> unit bets_ctx" where
  "table_ctx ph race =
     \<lparr>bc_wallet = ledgerProvider, bc_risk = \<lparr>rl_minBet = 10, rl_maxBet = 1000, rl_maxWinPerBet = 100000,
        rl_maxMultiplier = 1000000, rl_maxRoundExposure = 1000000\<rparr>,
      bc_state = Some \<lparr>ev_roundId = ''r1'', ev_phase = ph\<rparr>, bc_mult = 200, bc_now = 1, bc_race = race\<rparr>"

definition table_args :: "panel \<Rightarrow> place_args" where
  "table_args pn = \<lparr>pa_userId = ''u1'', pa_panel = pn, pa_amount = 100, pa_autoCashout = None,
     pa_walletId = None, pa_limits = None, pa_demo = False, pa_rgCtx = None, pa_operatorId = None\<rparr>"

definition op_place :: "panel \<Rightarrow> uid \<Rightarrow> unit game_op" where
  "op_place pn i = Place no_place_faults (table_ctx Betting id) (table_args pn) i"

definition op_start :: "unit game_op" where
  "op_start = Rounds (map (\<lambda>r. r\<lparr>r_status := Running\<rparr>))"

definition op_late_cancel :: "unit game_op" where
  "op_late_cancel = Cancel (table_ctx Betting id) ''u1'' PanelB"

definition op_cash :: "panel \<Rightarrow> unit game_op" where
  "op_cash pn = Cash_out (table_ctx Running (game_do ledgerProvider op_late_cancel)) ''u1'' pn None"

definition table_opened :: "unit world" where
  "table_opened = game_do ledgerProvider (op_place PanelB ''b2'') (game_do ledgerProvider (op_place PanelA ''b1'') table_world)"

definition table_end :: "unit world" where
  "table_end = game_do ledgerProvider (op_cash PanelA) (game_do ledgerProvider (op_cash PanelB)
     (game_do ledgerProvider op_start table_opened))"

lemma table_books: "books_ok table_world"
  by (simp add: books_ok_def struct_ok_def ledger_inv_def wallet_books_def wallet_rows_def table_world_def)

lemma table_quiet: "game_steps ledgerProvider N u (game_do ledgerProvider op_late_cancel u)"
  by (rule quiet_step [OF game_steps.stop]) (simp_all add: op_late_cancel_def table_ctx_def)

lemma table_open_run: "game_steps ledgerProvider {''b1'', ''b2''} table_world table_opened"
proof -
  have 1: "op_ok {''b1'', ''b2''} (op_place PanelA ''b1'') table_world" by code_simp
  have 2: "op_ok {''b1'', ''b2''} (op_place PanelB ''b2'') (game_do ledgerProvider (op_place PanelA ''b1'') table_world)"
    by code_simp
  show ?thesis
    unfolding table_opened_def
    by (intro quiet_step game_steps.stop 1 2) (simp_all add: op_place_def)
qed

lemma table_end_run: "game_steps ledgerProvider {} table_opened table_end"
  unfolding table_end_def
  by (intro game_steps.step quiet_step game_steps.stop)
    (simp_all add: op_start_def op_cash_def table_ctx_def table_quiet)



end
