(* ===== verification/VR_EthOracle.thy ===== *)
theory VR_EthOracle
  imports VR_Fairness
begin

text \<open>
  The salt of an epoch: \<open>src/fairness/eth-block.ts\<close> (an oracle over several Ethereum endpoints),
  \<open>src/fairness/salt.provider.ts\<close> and the boot checks of \<open>src/fairness/fairness.module.ts\<close>.

  The endpoints are the parameter \<open>rpc\<close>: for an endpoint and a block tag either an error (a timeout, an
  HTTP or JSON-RPC error) or the answer's block, whose number and hash may be missing. The environment is
  \<open>oracle_env\<close>; a field read through \<open>Number(process.env.X)\<close> is that number, \<open>None\<close> when it is not
  finite. The block tag \<open>"0x" + target.toString(16)\<close> is \<open>Height target\<close>. Random bytes are the
  argument \<open>rnd\<close>.
\<close>

section \<open>Configuration\<close>

definition lower_char :: "char \<Rightarrow> char" where
  "lower_char c = (let n = (of_char c :: nat) in if 65 \<le> n \<and> n \<le> 90 then char_of (n + 32) else c)"

definition to_lower :: "string \<Rightarrow> string" where
  "to_lower s = map lower_char s"

record oracle_env =
  oe_urls :: "string option"
  oe_min :: "rat option"
  oe_lead :: "rat option"
  oe_lead_set :: bool
  oe_strict :: bool
  oe_provider :: "string option"

definition DEFAULT_RPCS :: "string list" where
  "DEFAULT_RPCS =
     [''https://ethereum-rpc.publicnode.com'', ''https://eth.drpc.org'',
      ''https://eth-mainnet.public.blastapi.io'', ''https://eth-pokt.nodies.app'']"

definition rpcUrls :: "oracle_env \<Rightarrow> string list" where
  "rpcUrls env =
     (case map_option js_trim (oe_urls env) of
        None \<Rightarrow> DEFAULT_RPCS
      | Some s \<Rightarrow> if s = [] then DEFAULT_RPCS
                  else filter (\<lambda>u. u \<noteq> []) (map js_trim (split_on CHR '','' s)))"

definition minRpcs :: "oracle_env \<Rightarrow> int" where
  "minRpcs env = (case oe_min env of None \<Rightarrow> 1 | Some n \<Rightarrow> if n \<ge> 1 then \<lfloor>n\<rfloor> else 1)"

section \<open>Reading blocks\<close>

datatype rpc_error = Rpc_error string

datatype block_tag = Finalized_tag | Latest_tag | Height int

record raw_block =
  rw_number :: "int option"
  rw_hash :: "string option"

record eth_block =
  eb_number :: int
  eb_hash :: string

type_synonym rpc = "string \<Rightarrow> block_tag \<Rightarrow> rpc_error + raw_block option"

definition getBlock :: "rpc \<Rightarrow> string \<Rightarrow> block_tag \<Rightarrow> rpc_error + eth_block option" where
  "getBlock rpc url tag =
     (case rpc url tag of
        Inl e \<Rightarrow> Inl e
      | Inr None \<Rightarrow> Inr None
      | Inr (Some b) \<Rightarrow>
          (case (rw_number b, rw_hash b) of
             (Some n, Some h) \<Rightarrow>
               if h = [] then Inr None else Inr (Some \<lparr>eb_number = n, eb_hash = to_lower h\<rparr>)
           | _ \<Rightarrow> Inr None))"

text \<open>The first endpoint that answers.\<close>

fun first_number :: "rpc \<Rightarrow> block_tag \<Rightarrow> rpc_error \<Rightarrow> string list \<Rightarrow> rpc_error + int" where
  "first_number rpc tag lastErr [] = Inl lastErr"
| "first_number rpc tag lastErr (u # us) =
     (case getBlock rpc u tag of
        Inl e \<Rightarrow> first_number rpc tag e us
      | Inr None \<Rightarrow> first_number rpc tag lastErr us
      | Inr (Some b) \<Rightarrow> Inr (eb_number b))"

definition finalizedBlockNumber :: "oracle_env \<Rightarrow> rpc \<Rightarrow> rpc_error + int" where
  "finalizedBlockNumber env rpc = first_number rpc Finalized_tag (Rpc_error ''undefined'') (rpcUrls env)"

definition latestBlockNumber :: "oracle_env \<Rightarrow> rpc \<Rightarrow> rpc_error + int" where
  "latestBlockNumber env rpc = first_number rpc Latest_tag (Rpc_error ''undefined'') (rpcUrls env)"

section \<open>The quorum\<close>

text \<open>The \<open>Map\<close> of votes, in insertion order.\<close>

fun add_vote :: "string \<Rightarrow> (string \<times> nat) list \<Rightarrow> (string \<times> nat) list" where
  "add_vote h [] = [(h, 1)]"
| "add_vote h ((k, n) # vs) = (if k = h then (k, n + 1) # vs else (k, n) # add_vote h vs)"

definition poll_url ::
  "rpc \<Rightarrow> int \<Rightarrow> string \<Rightarrow> bool \<times> (string \<times> nat) list \<Rightarrow> bool \<times> (string \<times> nat) list" where
  "poll_url rpc target url st =
     (case st of (finalizedSomewhere, votes) \<Rightarrow>
       (case getBlock rpc url Finalized_tag of
          Inl _ \<Rightarrow> st
        | Inr None \<Rightarrow> st
        | Inr (Some head) \<Rightarrow>
            if eb_number head < target then st
            else (case getBlock rpc url (Height target) of
                    Inr (Some blk) \<Rightarrow> (True, add_vote (eb_hash blk) votes)
                  | _ \<Rightarrow> (True, votes))))"

definition top_vote :: "(string \<times> nat) list \<Rightarrow> string option \<times> nat" where
  "top_vote votes = fold (\<lambda>(h, n) (best, bestN). if n > bestN then (Some h, n) else (best, bestN)) votes (None, 0)"

definition quorum_need :: "string list \<Rightarrow> nat" where
  "quorum_need urls = length urls div 2 + 1"

definition finalizedBlockHash :: "oracle_env \<Rightarrow> rpc \<Rightarrow> int \<Rightarrow> rpc_error + string option" where
  "finalizedBlockHash env rpc target =
     (let urls = rpcUrls env
      in if int (length urls) < minRpcs env then Inl (Rpc_error ''under-provisioned'')
         else (case fold (poll_url rpc target) urls (False, []) of (finalizedSomewhere, votes) \<Rightarrow>
           if \<not> finalizedSomewhere then Inr None
           else (case top_vote votes of (best, bestN) \<Rightarrow>
             if bestN = 0 \<or> 1 < length (filter (\<lambda>v. snd v = bestN) votes) then Inr None
             else if quorum_need urls \<le> bestN then Inr best else Inr None)))"

section \<open>Salt providers\<close>

record salt_commitment =
  sc_source :: string
  sc_salt :: "string option"
  sc_targetChain :: "string option"
  sc_targetBlock :: "int option"

datatype salt_provider = DailySaltProvider | EthBlockSaltProvider

definition MIN_LEAD_BLOCKS :: int where
  "MIN_LEAD_BLOCKS = 128"

definition lead_blocks :: "oracle_env \<Rightarrow> int" where
  "lead_blocks env =
     (case oe_lead env of
        None \<Rightarrow> MIN_LEAD_BLOCKS
      | Some n \<Rightarrow> if n \<ge> of_int MIN_LEAD_BLOCKS then \<lfloor>n\<rfloor> else MIN_LEAD_BLOCKS)"

fun salt_commit :: "oracle_env \<Rightarrow> rpc \<Rightarrow> string \<Rightarrow> salt_provider \<Rightarrow> rpc_error + salt_commitment" where
  "salt_commit env rpc rnd DailySaltProvider =
     Inr \<lparr>sc_source = ''random'', sc_salt = Some rnd, sc_targetChain = None, sc_targetBlock = None\<rparr>"
| "salt_commit env rpc rnd EthBlockSaltProvider =
     (case latestBlockNumber env rpc of
        Inl e \<Rightarrow> Inl e
      | Inr head \<Rightarrow>
          Inr \<lparr>sc_source = ''eth-block'', sc_salt = None, sc_targetChain = Some ''ethereum'',
               sc_targetBlock = Some (head + lead_blocks env)\<rparr>)"

definition falsy_string :: "string option \<Rightarrow> bool" where
  "falsy_string s = (s = None \<or> s = Some [])"

fun salt_resolve :: "oracle_env \<Rightarrow> rpc \<Rightarrow> salt_provider \<Rightarrow> salt_commitment \<Rightarrow> rpc_error + string option" where
  "salt_resolve env rpc DailySaltProvider c = Inr (sc_salt c)"
| "salt_resolve env rpc EthBlockSaltProvider c =
     (if \<not> falsy_string (sc_salt c) then Inr (sc_salt c)
      else (case sc_targetBlock c of
              None \<Rightarrow> Inr None
            | Some t \<Rightarrow> if t = 0 then Inr None else finalizedBlockHash env rpc t))"

section \<open>Boot configuration\<close>

datatype boot_error = Random_primary_salt | Rpc_min_too_small int | Too_few_rpcs nat | Lead_too_small

definition assertFairnessBootConfig :: "oracle_env \<Rightarrow> boot_error option" where
  "assertFairnessBootConfig env =
     (if \<not> oe_strict env then None
      else if oe_provider env \<noteq> Some ''eth-block'' then Some Random_primary_salt
      else if minRpcs env < 3 then Some (Rpc_min_too_small (minRpcs env))
      else if length (rpcUrls env) < 3 \<or> int (length (rpcUrls env)) < minRpcs env
           then Some (Too_few_rpcs (length (rpcUrls env)))
      else if oe_lead_set env \<and>
              (case oe_lead env of None \<Rightarrow> True | Some n \<Rightarrow> n < of_int MIN_LEAD_BLOCKS)
           then Some Lead_too_small else None)"

definition makeSaltProvider :: "oracle_env \<Rightarrow> boot_error + salt_provider" where
  "makeSaltProvider env =
     (case assertFairnessBootConfig env of
        Some e \<Rightarrow> Inl e
      | None \<Rightarrow> Inr (if oe_provider env = Some ''eth-block'' then EthBlockSaltProvider else DailySaltProvider))"

section \<open>Counting votes\<close>

text \<open>The hash an endpoint votes for: it reports the target as finalized and serves that block.\<close>

definition vote_of :: "rpc \<Rightarrow> int \<Rightarrow> string \<Rightarrow> string option" where
  "vote_of rpc target url =
     (case getBlock rpc url Finalized_tag of
        Inr (Some head) \<Rightarrow>
          if eb_number head < target then None
          else (case getBlock rpc url (Height target) of Inr (Some blk) \<Rightarrow> Some (eb_hash blk) | _ \<Rightarrow> None)
      | _ \<Rightarrow> None)"

definition support :: "rpc \<Rightarrow> int \<Rightarrow> string list \<Rightarrow> string \<Rightarrow> nat" where
  "support rpc target urls h = length (filter (\<lambda>u. vote_of rpc target u = Some h) urls)"

definition tally :: "(string \<times> nat) list \<Rightarrow> string \<Rightarrow> nat" where
  "tally vs h = (case map_of vs h of None \<Rightarrow> 0 | Some n \<Rightarrow> n)"

lemma tally_add_vote: "tally (add_vote h vs) k = tally vs k + (if k = h then 1 else 0)"
  by (induction h vs rule: add_vote.induct) (auto simp: tally_def)

lemma keys_add_vote: "fst ` set (add_vote h vs) = insert h (fst ` set vs)"
  by (induction h vs rule: add_vote.induct) auto

lemma distinct_add_vote: "distinct (map fst vs) \<Longrightarrow> distinct (map fst (add_vote h vs))"
proof (induction h vs rule: add_vote.induct)
  case (2 h k n vs)
  have "k \<in> set (map fst (add_vote h vs)) \<longleftrightarrow> k = h \<or> k \<in> set (map fst vs)"
    using keys_add_vote [of h vs] by auto
  with 2 show ?case by auto
qed simp

lemma positive_add_vote: "(\<forall>v \<in> set vs. 0 < snd v) \<Longrightarrow> (\<forall>v \<in> set (add_vote h vs). 0 < snd v)"
  by (induction h vs rule: add_vote.induct) auto

lemma total_add_vote: "sum_list (map snd (add_vote h vs)) = Suc (sum_list (map snd vs))"
  by (induction h vs rule: add_vote.induct) auto

lemma poll_url_None: "vote_of rpc target url = None \<Longrightarrow> snd (poll_url rpc target url st) = snd st"
  by (cases st) (auto simp: poll_url_def vote_of_def split: sum.splits option.splits if_splits)

lemma poll_url_Some:
  "vote_of rpc target url = Some k \<Longrightarrow> poll_url rpc target url st = (True, add_vote k (snd st))"
  by (cases st) (auto simp: poll_url_def vote_of_def split: sum.splits option.splits if_splits)

lemma poll_url_flag: "fst st \<Longrightarrow> fst (poll_url rpc target url st)"
  by (cases st) (auto simp: poll_url_def split: sum.splits option.splits if_splits)

text \<open>What a poll of all endpoints leaves in the map.\<close>

definition poll_ok :: "rpc \<Rightarrow> int \<Rightarrow> string list \<Rightarrow> bool \<times> (string \<times> nat) list \<Rightarrow> bool" where
  "poll_ok rpc target urls st \<longleftrightarrow>
     distinct (map fst (snd st)) \<and> (\<forall>v \<in> set (snd st). 0 < snd v) \<and>
     (\<forall>h. tally (snd st) h = support rpc target urls h) \<and>
     sum_list (map snd (snd st)) \<le> length urls \<and> (snd st \<noteq> [] \<longrightarrow> fst st)"

lemma add_vote_not_Nil [simp]: "add_vote h vs \<noteq> []"
  by (induction h vs rule: add_vote.induct) auto

lemma poll_ok_step:
  assumes "poll_ok rpc target us st"
  shows "poll_ok rpc target (us @ [u]) (poll_url rpc target u st)"
proof (cases "vote_of rpc target u")
  case None
  then show ?thesis
    using assms poll_url_None [OF None, of st] poll_url_flag [of st rpc target u]
    by (auto simp: poll_ok_def support_def)
next
  case (Some k)
  then show ?thesis
    using assms positive_add_vote [of "snd st" k] unfolding poll_url_Some [OF Some]
    by (simp add: poll_ok_def support_def tally_add_vote distinct_add_vote total_add_vote)
qed

lemma poll_ok_fold: "poll_ok rpc target us (fold (poll_url rpc target) us (False, []))"
proof (induction us rule: rev_induct)
  case Nil
  show ?case by (simp add: poll_ok_def support_def tally_def)
next
  case (snoc u us)
  then show ?case by (simp add: poll_ok_step)
qed

lemma top_vote_snoc:
  "top_vote (vs @ [(h, n)]) = (case top_vote vs of (b, bn) \<Rightarrow> if n > bn then (Some h, n) else (b, bn))"
  by (simp add: top_vote_def)

lemma top_vote_max:
  assumes "\<forall>v \<in> set vs. 0 < snd v" and "vs \<noteq> []"
  obtains h n where "top_vote vs = (Some h, n)" and "(h, n) \<in> set vs" and "\<forall>v \<in> set vs. snd v \<le> n"
proof -
  have "vs \<noteq> [] \<Longrightarrow> \<forall>v \<in> set vs. 0 < snd v \<Longrightarrow>
        \<exists>h n. top_vote vs = (Some h, n) \<and> (h, n) \<in> set vs \<and> (\<forall>v \<in> set vs. snd v \<le> n)"
  proof (induction vs rule: rev_induct)
    case (snoc v vs)
    obtain h n where v: "v = (h, n)" by fastforce
    show ?case
    proof (cases "vs = []")
      case True
      with snoc.prems v show ?thesis by (simp add: top_vote_def)
    next
      case False
      with snoc obtain h' n' where "top_vote vs = (Some h', n')" "(h', n') \<in> set vs" "\<forall>v \<in> set vs. snd v \<le> n'"
        by auto
      with v show ?thesis by (cases "n' < n") (force simp: top_vote_snoc)+
    qed
  qed simp
  with assms that show thesis by blast
qed


lemma tally_mem: "distinct (map fst vs) \<Longrightarrow> (h, n) \<in> set vs \<Longrightarrow> tally vs h = n"
  by (simp add: tally_def)

lemma tally_pos_mem: "0 < tally vs h \<Longrightarrow> (h, tally vs h) \<in> set vs"
  by (auto simp: tally_def map_of_SomeD split: option.splits)

lemma two_values_le_sum:
  "(h, n) \<in> set vs \<Longrightarrow> (k, m) \<in> set vs \<Longrightarrow> h \<noteq> k \<Longrightarrow> n + m \<le> sum_list (map snd vs)"
  for n m :: nat
proof (induction vs)
  case (Cons v vs)
  have le: "(x, c) \<in> set vs \<Longrightarrow> c \<le> sum_list (map snd vs)" for x c
    using member_le_sum_list [of c "map snd vs"] by force
  show ?case
  proof (cases "(h, n) = v \<or> (k, m) = v")
    case True
    then show ?thesis using Cons.prems le [of h n] le [of k m] by (cases v) fastforce
  next
    case False
    with Cons show ?thesis by (simp add: trans_le_add2)
  qed
qed simp

lemma max_count_one:
  fixes n :: nat
  assumes d: "distinct (map fst vs)" and h: "(h, n) \<in> set vs" and maj: "sum_list (map snd vs) < 2 * n"
  shows "filter (\<lambda>v. snd v = n) vs = [(h, n)]"
proof -
  have only: "v \<in> set vs \<Longrightarrow> snd v = n \<Longrightarrow> v = (h, n)" for v
    using two_values_le_sum [OF h, of "fst v" "snd v"] maj by (cases v) auto
  from h obtain xs ys where vs: "vs = xs @ (h, n) # ys" by (meson split_list)
  have "(h, n) \<notin> set xs \<and> (h, n) \<notin> set ys" using d vs by force
  moreover have "v \<in> set xs \<or> v \<in> set ys \<Longrightarrow> snd v = n \<Longrightarrow> v = (h, n)" for v
    using only [of v] vs by fastforce
  ultimately have "\<forall>v \<in> set xs. snd v \<noteq> n" "\<forall>v \<in> set ys. snd v \<noteq> n" by metis+
  then show ?thesis using vs by (simp add: filter_empty_conv)
qed

lemma length_filter_mono:
  "(\<And>x. x \<in> set xs \<Longrightarrow> P x \<Longrightarrow> Q x) \<Longrightarrow> length (filter P xs) \<le> length (filter Q xs)"
  by (induction xs) auto

section \<open>Properties\<close>

lemma finalizedBlockHash_iff:
  "finalizedBlockHash env rpc target = Inr (Some h) \<longleftrightarrow>
     minRpcs env \<le> int (length (rpcUrls env)) \<and>
     length (rpcUrls env) < 2 * support rpc target (rpcUrls env) h"
proof -
  define urls where "urls = rpcUrls env"
  obtain f vs where st: "fold (poll_url rpc target) urls (False, []) = (f, vs)" by fastforce
  have ok: "distinct (map fst vs)" "\<forall>v \<in> set vs. 0 < snd v" "\<And>h. tally vs h = support rpc target urls h"
    "sum_list (map snd vs) \<le> length urls" "vs \<noteq> [] \<Longrightarrow> f"
    using poll_ok_fold [of rpc target urls] unfolding st poll_ok_def by auto
  have need: "quorum_need urls \<le> n \<longleftrightarrow> length urls < 2 * n" for n by (auto simp: quorum_need_def)
  show ?thesis
  proof (cases "vs = []")
    case True
    then have "support rpc target urls h = 0" using ok(3) [of h] by (simp add: tally_def)
    with True st show ?thesis
      unfolding finalizedBlockHash_def urls_def [symmetric] by (simp add: top_vote_def)
  next
    case False
    obtain k n where top: "top_vote vs = (Some k, n)" and k: "(k, n) \<in> set vs" "\<forall>v \<in> set vs. snd v \<le> n"
      using top_vote_max [OF ok(2) False] by metis
    have n: "support rpc target urls k = n" using ok(3) tally_mem [OF ok(1) k(1)] by simp
    have one: "length urls < 2 * n \<Longrightarrow> filter (\<lambda>v. snd v = n) vs = [(k, n)]"
      using max_count_one [OF ok(1) k(1)] ok(4) by simp
    have maj: "length urls < 2 * support rpc target urls h \<Longrightarrow> h = k"
      using two_values_le_sum [OF k(1), of h "tally vs h"] tally_pos_mem [of vs h] ok(3,4) k(2) by force
    have f: "f" and n0: "n \<noteq> 0" using ok(2,5) k(1) False by auto
    have eq: "finalizedBlockHash env rpc target = Inr (Some h) \<longleftrightarrow>
      minRpcs env \<le> int (length urls) \<and> \<not> 1 < length (filter (\<lambda>v. snd v = n) vs) \<and>
      length urls < 2 * n \<and> h = k"
      unfolding finalizedBlockHash_def urls_def [symmetric] Let_def st by (auto simp: f n0 need not_le top)
    have "length urls < 2 * support rpc target urls h \<longleftrightarrow> h = k \<and> length urls < 2 * n"
      using maj n by metis
    moreover have "length urls < 2 * n \<Longrightarrow> length (filter (\<lambda>v. snd v = n) vs) = 1"
      using one by simp
    ultimately show ?thesis unfolding eq urls_def [symmetric] by auto
  qed
qed

lemma majority_unique:
  assumes "length urls < 2 * support rpc target urls h" and "length urls < 2 * support rpc target urls k"
  shows "h = k"
proof (rule ccontr)
  assume "h \<noteq> k"
  then have "support rpc target urls h + support rpc target urls k \<le> length urls"
    unfolding support_def by (induction urls) auto
  with assms show False by linarith
qed

lemma majority_voted: "length urls < 2 * support rpc target urls h \<Longrightarrow> h \<in> set (List.map_filter (vote_of rpc target) urls)"
proof -
  assume "length urls < 2 * support rpc target urls h"
  then have "filter (\<lambda>u. vote_of rpc target u = Some h) urls \<noteq> []" by (auto simp: support_def)
  then obtain u where "u \<in> set urls" "vote_of rpc target u = Some h" by (auto simp: filter_empty_conv)
  then show ?thesis by (force simp: List.map_filter_def)
qed

text \<open>The reference: the hash that more than half of the configured endpoints vote for.\<close>

definition majority_hash :: "oracle_env \<Rightarrow> rpc \<Rightarrow> int \<Rightarrow> string option" where
  "majority_hash env rpc target =
     (let urls = rpcUrls env
      in if int (length urls) < minRpcs env then None
         else find (\<lambda>h. length urls < 2 * support rpc target urls h) (List.map_filter (vote_of rpc target) urls))"

text \<open>The oracle returns the hash that a strict majority of the configured endpoints serve for a block
  they report as finalized, when there is one and at least \<open>ETH_RPC_MIN\<close> endpoints are configured, and no
  hash otherwise: the tie check, the choice of the top vote and the "finalized somewhere" flag add
  nothing to that rule.\<close>

theorem finalizedBlockHash_majority:
  "(case finalizedBlockHash env rpc target of Inr r \<Rightarrow> r | Inl e \<Rightarrow> None) = majority_hash env rpc target"
proof -
  let ?P = "\<lambda>h. length (rpcUrls env) < 2 * support rpc target (rpcUrls env) h"
  have "majority_hash env rpc target = Some h \<longleftrightarrow> finalizedBlockHash env rpc target = Inr (Some h)" for h
  proof (cases "int (length (rpcUrls env)) < minRpcs env")
    case False
    have "find ?P (List.map_filter (vote_of rpc target) (rpcUrls env)) = Some h \<longleftrightarrow> ?P h"
      using majority_unique [of "rpcUrls env" rpc target h] majority_voted [of "rpcUrls env" rpc target h]
        find_SomeD [of ?P] find_NoneD [of ?P]
      by (metis (no_types, lifting) option.exhaust)
    with False show ?thesis by (simp add: majority_hash_def finalizedBlockHash_iff Let_def)
  qed (simp add: majority_hash_def finalizedBlockHash_iff)
  then show ?thesis
    by (cases "majority_hash env rpc target"; cases "finalizedBlockHash env rpc target")
      (metis option.exhaust sum.case(1,2) | simp)+
qed

text \<open>C13. When the endpoints that could lie about the target block are at most half of the configured
  ones, the oracle returns the honest hash or none.\<close>

theorem minority_cannot_spoof:
  assumes honest: "\<And>u h. u \<in> set (rpcUrls env) \<Longrightarrow> honest u \<Longrightarrow> vote_of rpc target u = Some h \<Longrightarrow> h = h0"
    and minority: "2 * length (filter (\<lambda>u. \<not> honest u) (rpcUrls env)) \<le> length (rpcUrls env)"
    and out: "finalizedBlockHash env rpc target = Inr (Some h)"
  shows "h = h0"
proof (rule ccontr)
  assume "h \<noteq> h0"
  then have "\<forall>u \<in> set (rpcUrls env). vote_of rpc target u = Some h \<longrightarrow> \<not> honest u" using honest by blast
  then have "support rpc target (rpcUrls env) h \<le> length (filter (\<lambda>u. \<not> honest u) (rpcUrls env))"
    unfolding support_def by (intro length_filter_mono) blast
  with minority out show False by (simp add: finalizedBlockHash_iff)
qed

section \<open>Three endpoints\<close>

definition three_env :: oracle_env where
  "three_env =
     \<lparr>oe_urls = Some ''a,b, c'', oe_min = Some 3, oe_lead = None, oe_lead_set = False, oe_strict = True,
      oe_provider = Some ''eth-block''\<rparr>"

text \<open>Endpoint \<open>a\<close> reports a stale head and a hash of its own; \<open>b\<close> and \<open>c\<close> follow the chain.\<close>

fun three_rpc :: rpc where
  "three_rpc u Latest_tag = Inr (Some \<lparr>rw_number = Some (if u = ''a'' then 1000 else 5000), rw_hash = Some ''0xE''\<rparr>)"
| "three_rpc u Finalized_tag = Inr (Some \<lparr>rw_number = Some 4900, rw_hash = Some ''0xF''\<rparr>)"
| "three_rpc u (Height n) =
     Inr (Some \<lparr>rw_number = Some n, rw_hash = Some (if u = ''a'' then ''0xEE'' else ''0xAB'')\<rparr>)"

lemma three_hash: "finalizedBlockHash three_env three_rpc 1128 = Inr (Some ''0xab'')"
  by code_simp

lemma three_urls: "rpcUrls three_env = [''a'', ''b'', ''c'']"
  by code_simp

lemma three_votes:
  "vote_of three_rpc 1128 ''a'' = Some ''0xee''" "vote_of three_rpc 1128 ''b'' = Some ''0xab''"
  "vote_of three_rpc 1128 ''c'' = Some ''0xab''"
  by code_simp+

theorem minority_cannot_spoof_witness:
  "the (projr (finalizedBlockHash three_env three_rpc 1128)) = ''0xab''"
proof (rule minority_cannot_spoof [where honest = "\<lambda>u. u \<noteq> ''a''" and env = three_env and rpc = three_rpc
        and target = 1128])
  show "finalizedBlockHash three_env three_rpc 1128 =
      Inr (Some (the (projr (finalizedBlockHash three_env three_rpc 1128))))"
    by (simp add: three_hash)
  show "2 * length (filter (\<lambda>u. \<not> u \<noteq> ''a'') (rpcUrls three_env)) \<le> length (rpcUrls three_env)"
    by (simp add: three_urls)
  show "h = ''0xab''"
    if "u \<in> set (rpcUrls three_env)" "u \<noteq> ''a''" "vote_of three_rpc 1128 u = Some h" for u h
    using that three_votes by (auto simp: three_urls)
qed

text \<open>C14. The first endpoint alone decides how old the committed target is: in a configuration the strict
  boot check accepts, if it reports a head whose target the others have already finalized, the salt of
  the new epoch is a known value at the moment it is committed.\<close>

theorem stale_latest_salt_known_at_commit:
  assumes boot: "makeSaltProvider env = Inr EthBlockSaltProvider" "oe_strict env"
    and urls: "rpcUrls env = u # us"
    and first: "getBlock rpc u Latest_tag = Inr (Some b)"
    and later: "\<And>v. v \<in> set us \<Longrightarrow> vote_of rpc (eb_number b + lead_blocks env) v = Some h"
    and pos: "0 < eb_number b"
  shows "\<exists>c. salt_commit env rpc rnd EthBlockSaltProvider = Inr c \<and> sc_salt c = None \<and>
             salt_resolve env rpc EthBlockSaltProvider c = Inr (Some h)"
proof -
  let ?t = "eb_number b + lead_blocks env"
  have "\<lfloor>n\<rfloor> \<ge> 0" if "n \<ge> 128" for n :: rat using that by linarith
  then have "0 \<le> lead_blocks env" by (auto simp: lead_blocks_def MIN_LEAD_BLOCKS_def split: option.splits)
  then have t: "?t \<noteq> 0" using pos by simp
  have ok: "assertFairnessBootConfig env = None" using boot(1) by (simp add: makeSaltProvider_def split: option.splits)
  then have n: "minRpcs env \<le> int (length (rpcUrls env))" "3 \<le> length (rpcUrls env)"
    using boot(2) by (auto simp: assertFairnessBootConfig_def split: if_splits)
  have "filter (\<lambda>v. vote_of rpc ?t v = Some h) us = us" using later by simp
  then have "length us \<le> support rpc ?t (rpcUrls env) h"
    by (simp add: urls support_def)
  then have "finalizedBlockHash env rpc ?t = Inr (Some h)"
    using n by (simp add: finalizedBlockHash_iff urls)
  then show ?thesis
    using first t by (simp add: latestBlockNumber_def urls falsy_string_def)
qed

theorem stale_latest_salt_known_at_commit_witness:
  "\<exists>c. salt_commit three_env three_rpc ''r'' EthBlockSaltProvider = Inr c \<and> sc_salt c = None \<and>
       salt_resolve three_env three_rpc EthBlockSaltProvider c = Inr (Some ''0xab'')"
proof (rule stale_latest_salt_known_at_commit [where u = "''a''" and us = "[''b'', ''c'']" and
        b = "\<lparr>eb_number = 1000, eb_hash = ''0xe''\<rparr>"])
  show "makeSaltProvider three_env = Inr EthBlockSaltProvider" by code_simp
  show "oe_strict three_env" by code_simp
  show "rpcUrls three_env = ''a'' # [''b'', ''c'']" by (simp add: three_urls)
  show "getBlock three_rpc ''a'' Latest_tag = Inr (Some \<lparr>eb_number = 1000, eb_hash = ''0xe''\<rparr>)" by code_simp
  have "lead_blocks three_env = 128" by code_simp
  then show "vote_of three_rpc (eb_number \<lparr>eb_number = 1000, eb_hash = ''0xe''\<rparr> + lead_blocks three_env) v
      = Some ''0xab''" if "v \<in> set [''b'', ''c'']" for v
    using that three_votes by auto
  show "0 < eb_number \<lparr>eb_number = 1000, eb_hash = ''0xe''\<rparr>" by simp
qed

end
