(* ===== verification/VR_FairService.thy ===== *)
theory VR_FairService
  imports VR_EthOracle VR_World
begin

text \<open>
  The fairness service, \<open>src/fairness/fairness.service.ts\<close>: epochs (a seed chain and a salt), their
  rollover, the allocation of one seed per round, and what is published about them.

  The two tables are \<open>fd_chains\<close> and \<open>fd_seeds\<close>; \<open>fd_audit\<close> is the significant-event log. One call takes
  a \<open>fair_env\<close>: the environment, the salt provider, the clock, the hash functions of \<open>node:crypto\<close>, and,
  indexed by epoch number, the endpoints' answers, the random bytes and the row ids of that epoch.
  \<open>Number(process.env.FAIRNESS_CHAIN_LENGTH)\<close> is \<open>fe_len\<close>, \<open>None\<close> when not finite. Rounds enter only
  through the relation \<open>rounds: { none: {} }\<close>. \<open>maintain\<close> runs beside the allocation of the next seed:
  its read of the pending epochs is the argument \<open>pendings\<close>, the state it writes to may be a later one.
  Metrics and log lines are not modelled.
\<close>

section \<open>Tables\<close>

datatype epoch_status = Ep_pending | Ep_armed | Ep_active | Ep_exhausted

record fairness_chain =
  fc_id :: uid
  fc_epoch :: int
  fc_commitHash :: string
  fc_length :: nat
  fc_saltSource :: string
  fc_targetChain :: "string option"
  fc_targetBlock :: "int option"
  fc_salt :: "string option"
  fc_status :: epoch_status
  fc_createdAt :: int
  fc_armedAt :: "int option"

record fairness_seed =
  fs_id :: uid
  fs_chainId :: uid
  fs_index :: nat
  fs_seedHash :: string
  fs_seed :: "string option"
  fs_revealedAt :: "int option"

datatype rng_event =
    Epoch_commit int epoch_status string string
  | Salt_fallback int string
  | Salt_armed int epoch_status string

record fair_db =
  fd_chains :: "fairness_chain list"
  fd_seeds :: "fairness_seed list"
  fd_audit :: "rng_event list"

record fair_env =
  fe_oracle :: oracle_env
  fe_provider :: salt_provider
  fe_len :: "nat option"
  fe_now :: int
  fe_sha :: "string \<Rightarrow> string"
  fe_shaUtf8 :: "string \<Rightarrow> string"
  fe_rpc :: "int \<Rightarrow> rpc"
  fe_rnd :: "int \<Rightarrow> string"
  fe_last :: "int \<Rightarrow> string"
  fe_chainId :: "int \<Rightarrow> uid"
  fe_seedId :: "int \<Rightarrow> nat \<Rightarrow> uid"

definition chainLength :: "fair_env \<Rightarrow> nat" where
  "chainLength env = (case fe_len env of None \<Rightarrow> 10000 | Some n \<Rightarrow> if 2 \<le> n then n else 10000)"

definition requireBlockSalt :: "fair_env \<Rightarrow> bool" where
  "requireBlockSalt env = oe_strict (fe_oracle env)"

section \<open>Queries\<close>

text \<open>\<open>findFirst\<close> ordered by epoch, ascending or descending, and by chain index.\<close>

definition first_epoch :: "(fairness_chain \<Rightarrow> bool) \<Rightarrow> fairness_chain list \<Rightarrow> fairness_chain option" where
  "first_epoch P cs =
     fold (\<lambda>c best. if P c \<and> (case best of None \<Rightarrow> True | Some b \<Rightarrow> fc_epoch c < fc_epoch b)
                    then Some c else best) cs None"

definition last_epoch :: "(fairness_chain \<Rightarrow> bool) \<Rightarrow> fairness_chain list \<Rightarrow> fairness_chain option" where
  "last_epoch P cs =
     fold (\<lambda>c best. if P c \<and> (case best of None \<Rightarrow> True | Some b \<Rightarrow> fc_epoch b < fc_epoch c)
                    then Some c else best) cs None"

definition findActive :: "fair_db \<Rightarrow> fairness_chain option" where
  "findActive db = last_epoch (\<lambda>c. fc_status c = Ep_active) (fd_chains db)"

definition queued_epoch :: "fairness_chain \<Rightarrow> bool" where
  "queued_epoch c \<longleftrightarrow> fc_status c = Ep_pending \<or> fc_status c = Ep_armed"

definition chain_set :: "uid \<Rightarrow> (fairness_chain \<Rightarrow> fairness_chain) \<Rightarrow> fair_db \<Rightarrow> fair_db" where
  "chain_set i f db = db\<lparr>fd_chains := update_where (\<lambda>c. fc_id c = i) f (fd_chains db)\<rparr>"

definition nextUnusedSeed :: "round list \<Rightarrow> uid \<Rightarrow> fair_db \<Rightarrow> fairness_seed option" where
  "nextUnusedSeed rounds chainId db =
     fold (\<lambda>s best. if fs_chainId s = chainId \<and> 1 \<le> fs_index s \<and> (\<forall>r \<in> set rounds. r_seedId r \<noteq> fs_id s) \<and>
                       (case best of None \<Rightarrow> True | Some b \<Rightarrow> fs_index s < fs_index b)
                    then Some s else best) (fd_seeds db) None"

section \<open>Opening an epoch\<close>

definition tryResolve :: "fair_env \<Rightarrow> fairness_chain \<Rightarrow> string option" where
  "tryResolve env c =
     (case salt_resolve (fe_oracle env) (fe_rpc env (fc_epoch c)) (fe_provider env)
             \<lparr>sc_source = fc_saltSource c, sc_salt = fc_salt c, sc_targetChain = fc_targetChain c,
              sc_targetBlock = fc_targetBlock c\<rparr> of
        Inl _ \<Rightarrow> None | Inr s \<Rightarrow> s)"

text \<open>The commitment of a new epoch and, when the random safety net replaced it, why; \<open>None\<close> is a stall.\<close>

definition epoch_commitment :: "fair_env \<Rightarrow> bool \<Rightarrow> int \<Rightarrow> (string option \<times> salt_commitment) option" where
  "epoch_commitment env activate epoch =
     (let strict = requireBlockSalt env;
          random = \<lparr>sc_source = ''random'', sc_salt = Some (fe_rnd env epoch), sc_targetChain = None,
                    sc_targetBlock = None\<rparr>;
          first = (case salt_commit (fe_oracle env) (fe_rpc env epoch) (fe_rnd env epoch) (fe_provider env) of
                     Inl _ \<Rightarrow> if strict then None else Some (Some ''commit_failed'', random)
                   | Inr c \<Rightarrow> Some (None, c))
      in case first of
           None \<Rightarrow> None
         | Some (fallback, c) \<Rightarrow>
             if activate \<and> falsy_string (sc_salt c)
             then if strict then None else Some (Some ''salt_not_ready'', random)
             else Some (fallback, c))"

definition next_epoch :: "fair_db \<Rightarrow> int" where
  "next_epoch db = fold (\<lambda>c m. max m (fc_epoch c)) (fd_chains db) (- 1) + 1"

definition new_status :: "bool \<Rightarrow> salt_commitment \<Rightarrow> epoch_status" where
  "new_status activate c =
     (if falsy_string (sc_salt c) then Ep_pending else if activate then Ep_active else Ep_armed)"

definition new_chain :: "fair_env \<Rightarrow> int \<Rightarrow> bool \<Rightarrow> salt_commitment \<Rightarrow> string list \<Rightarrow> fairness_chain" where
  "new_chain env epoch activate c seeds =
     \<lparr>fc_id = fe_chainId env epoch, fc_epoch = epoch, fc_commitHash = hd seeds, fc_length = length seeds,
      fc_saltSource = sc_source c, fc_targetChain = sc_targetChain c, fc_targetBlock = sc_targetBlock c,
      fc_salt = sc_salt c, fc_status = new_status activate c, fc_createdAt = fe_now env,
      fc_armedAt = (if falsy_string (sc_salt c) then None else Some (fe_now env))\<rparr>"

definition new_seeds :: "fair_env \<Rightarrow> int \<Rightarrow> string list \<Rightarrow> fairness_seed list" where
  "new_seeds env epoch seeds =
     map (\<lambda>(idx, seed). \<lparr>fs_id = fe_seedId env epoch idx, fs_chainId = fe_chainId env epoch, fs_index = idx,
            fs_seedHash = fe_sha env seed, fs_seed = Some seed,
            fs_revealedAt = (if idx = 0 then Some (fe_now env) else None)\<rparr>)
       (enumerate 0 seeds)"

definition epoch_events :: "fair_env \<Rightarrow> fairness_chain \<Rightarrow> string option \<Rightarrow> rng_event list" where
  "epoch_events env chain fallback =
     Epoch_commit (fc_epoch chain) (fc_status chain) (fc_saltSource chain) (fc_commitHash chain) #
     (case fallback of None \<Rightarrow> [] | Some reason \<Rightarrow> [Salt_fallback (fc_epoch chain) reason]) @
     (case fc_salt chain of
        Some s \<Rightarrow> if s = [] then [] else [Salt_armed (fc_epoch chain) (fc_status chain) (fe_shaUtf8 env s)]
      | None \<Rightarrow> [])"

text \<open>\<open>chainLength\<close> is at least 2, so \<open>generateSeedChain\<close> does not throw.\<close>

definition createEpoch :: "fair_env \<Rightarrow> bool \<Rightarrow> fair_db \<Rightarrow> fairness_chain option \<times> fair_db" where
  "createEpoch env activate db =
     (let epoch = next_epoch db
      in case epoch_commitment env activate epoch of
           None \<Rightarrow> (None, db)
         | Some (fallback, c) \<Rightarrow>
             (case generateSeedChain (fe_sha env) (fe_last env epoch) (chainLength env) of
                Inl _ \<Rightarrow> (None, db)
              | Inr seeds \<Rightarrow>
                  let chain = new_chain env epoch activate c seeds
                  in (Some chain,
                      \<lparr>fd_chains = fd_chains db @ [chain],
                       fd_seeds = fd_seeds db @ new_seeds env epoch seeds,
                       fd_audit = fd_audit db @ epoch_events env chain fallback\<rparr>)))"

section \<open>The active epoch\<close>

definition retireChain :: "uid \<Rightarrow> fair_db \<Rightarrow> fair_db" where
  "retireChain i db = chain_set i (\<lambda>c. c\<lparr>fc_status := Ep_exhausted\<rparr>) db"

definition promote :: "fairness_chain \<Rightarrow> fair_db \<Rightarrow> fairness_chain option \<times> fair_db" where
  "promote c db =
     (Some (c\<lparr>fc_status := Ep_active\<rparr>), chain_set (fc_id c) (\<lambda>x. x\<lparr>fc_status := Ep_active\<rparr>) db)"

definition grindable :: "fair_env \<Rightarrow> fairness_chain \<Rightarrow> bool" where
  "grindable env c \<longleftrightarrow> requireBlockSalt env \<and> fc_saltSource c \<noteq> ''eth-block''"

definition activate_pending :: "fair_env \<Rightarrow> fair_db \<Rightarrow> fairness_chain option \<times> fair_db" where
  "activate_pending env db =
     (case first_epoch (\<lambda>c. fc_status c = Ep_pending) (fd_chains db) of
        None \<Rightarrow> createEpoch env True db
      | Some p \<Rightarrow>
          (let salt = tryResolve env p
           in if falsy_string salt then createEpoch env True db
              else promote (p\<lparr>fc_salt := salt, fc_armedAt := Some (fe_now env)\<rparr>)
                     (chain_set (fc_id p) (\<lambda>x. x\<lparr>fc_salt := salt, fc_armedAt := Some (fe_now env)\<rparr>) db)))"

definition activate_armed :: "fair_env \<Rightarrow> fair_db \<Rightarrow> fairness_chain option \<times> fair_db" where
  "activate_armed env db =
     (case first_epoch (\<lambda>c. fc_status c = Ep_armed) (fd_chains db) of
        None \<Rightarrow> activate_pending env db
      | Some a \<Rightarrow> if grindable env a then activate_pending env (retireChain (fc_id a) db)
                  else promote a db)"

definition ensureActiveChain :: "fair_env \<Rightarrow> fair_db \<Rightarrow> fairness_chain option \<times> fair_db" where
  "ensureActiveChain env db =
     (case findActive db of
        None \<Rightarrow> activate_armed env db
      | Some a \<Rightarrow> if grindable env a then activate_armed env (retireChain (fc_id a) db)
                  else (Some a, db))"

section \<open>Upkeep\<close>

definition arm_step :: "fair_env \<Rightarrow> fairness_chain \<Rightarrow> fair_db \<Rightarrow> fair_db" where
  "arm_step env p db =
     (case tryResolve env p of
        None \<Rightarrow> db
      | Some salt \<Rightarrow>
          if salt = [] then db
          else (chain_set (fc_id p)
                  (\<lambda>x. x\<lparr>fc_salt := Some salt, fc_status := Ep_armed, fc_armedAt := Some (fe_now env)\<rparr>) db)
                \<lparr>fd_audit := fd_audit db @ [Salt_armed (fc_epoch p) Ep_armed (fe_shaUtf8 env salt)]\<rparr>)"

definition maintain :: "fair_env \<Rightarrow> fairness_chain list \<Rightarrow> fair_db \<Rightarrow> fair_db" where
  "maintain env pendings db =
     (let db1 = fold (arm_step env) pendings db
      in if findActive db1 \<noteq> None \<and> count_where queued_epoch (fd_chains db1) = 0
         then snd (createEpoch env False db1) else db1)"

section \<open>Allocation\<close>

datatype allocation = Allocated fairness_seed fairness_chain | Stalled | Chain_exhausted

definition allocateSeed :: "fair_env \<Rightarrow> round list \<Rightarrow> fair_db \<Rightarrow> allocation \<times> fair_db" where
  "allocateSeed env rounds db =
     (case ensureActiveChain env db of
        (None, db1) \<Rightarrow> (Stalled, db1)
      | (Some chain, db1) \<Rightarrow>
          (case nextUnusedSeed rounds (fc_id chain) db1 of
             Some s \<Rightarrow> (Allocated s chain, db1)
           | None \<Rightarrow>
               (case ensureActiveChain env (retireChain (fc_id chain) db1) of
                  (None, db2) \<Rightarrow> (Stalled, db2)
                | (Some next, db2) \<Rightarrow>
                    (case nextUnusedSeed rounds (fc_id next) db2 of
                       Some s \<Rightarrow> (Allocated s next, db2)
                     | None \<Rightarrow> (Chain_exhausted, db2)))))"

text \<open>The source asserts that the seed and the salt are there; without them the hash throws.\<close>

definition crashForSeed :: "(string \<Rightarrow> string \<Rightarrow> string) \<Rightarrow> fairness_seed \<Rightarrow> fairness_chain \<Rightarrow> rat option" where
  "crashForSeed hmac s c =
     (case (fs_seed s, fc_salt c) of (Some seed, Some salt) \<Rightarrow> computeCrash hmac seed salt | _ \<Rightarrow> None)"

definition revealSeed :: "int \<Rightarrow> uid \<Rightarrow> fair_db \<Rightarrow> exn + fair_db" where
  "revealSeed now seedId db =
     (if (\<exists>s \<in> set (fd_seeds db). fs_id s = seedId)
      then Inr (db\<lparr>fd_seeds := update_where (\<lambda>s. fs_id s = seedId) (\<lambda>s. s\<lparr>fs_revealedAt := Some now\<rparr>) (fd_seeds db)\<rparr>)
      else Inl Record_not_found)"

section \<open>What is published\<close>

record next_commit =
  nc_epoch :: int
  nc_commitHash :: string
  nc_saltSource :: string
  nc_targetChain :: "string option"
  nc_targetBlock :: "int option"
  nc_status :: epoch_status

record current_commit =
  cc_epoch :: int
  cc_commitHash :: string
  cc_saltSource :: string
  cc_saltHash :: "string option"
  cc_targetChain :: "string option"
  cc_targetBlock :: "int option"
  cc_chainLength :: nat
  cc_roundsRevealed :: int
  cc_nextEpoch :: "next_commit option"

definition revealed_of :: "uid \<Rightarrow> fair_db \<Rightarrow> nat" where
  "revealed_of i db = count_where (\<lambda>s. fs_chainId s = i \<and> fs_revealedAt s \<noteq> None) (fd_seeds db)"

definition salt_hash :: "fair_env \<Rightarrow> fairness_chain \<Rightarrow> string option" where
  "salt_hash env c = (if falsy_string (fc_salt c) then None else map_option (fe_shaUtf8 env) (fc_salt c))"

definition getCurrentCommit :: "fair_env \<Rightarrow> fair_db \<Rightarrow> current_commit option" where
  "getCurrentCommit env db =
     (case findActive db of
        None \<Rightarrow> None
      | Some c \<Rightarrow> Some
          \<lparr>cc_epoch = fc_epoch c, cc_commitHash = fc_commitHash c, cc_saltSource = fc_saltSource c,
           cc_saltHash = salt_hash env c, cc_targetChain = fc_targetChain c, cc_targetBlock = fc_targetBlock c,
           cc_chainLength = fc_length c, cc_roundsRevealed = max 0 (int (revealed_of (fc_id c) db) - 1),
           cc_nextEpoch = map_option (\<lambda>n.
             \<lparr>nc_epoch = fc_epoch n, nc_commitHash = fc_commitHash n, nc_saltSource = fc_saltSource n,
              nc_targetChain = fc_targetChain n, nc_targetBlock = fc_targetBlock n, nc_status = fc_status n\<rparr>)
             (first_epoch queued_epoch (fd_chains db))\<rparr>)"

definition ensureChain :: "fair_env \<Rightarrow> fair_db \<Rightarrow> current_commit option \<times> fair_db" where
  "ensureChain env db = (let db1 = snd (ensureActiveChain env db) in (getCurrentCommit env db1, db1))"

record epoch_view =
  ep_epoch :: int
  ep_commitHash :: string
  ep_saltSource :: string
  ep_salt :: "string option"
  ep_saltHash :: "string option"
  ep_targetChain :: "string option"
  ep_targetBlock :: "int option"
  ep_length :: nat
  ep_status :: epoch_status
  ep_roundsRevealed :: int
  ep_createdAt :: int
  ep_armedAt :: "int option"

definition public_salt :: "fairness_chain \<Rightarrow> string option" where
  "public_salt c = (if fc_status c = Ep_active \<or> fc_status c = Ep_exhausted then fc_salt c else None)"

definition listEpochs :: "fair_env \<Rightarrow> fair_db \<Rightarrow> epoch_view list" where
  "listEpochs env db =
     map (\<lambda>c. \<lparr>ep_epoch = fc_epoch c, ep_commitHash = fc_commitHash c, ep_saltSource = fc_saltSource c,
             ep_salt = public_salt c, ep_saltHash = salt_hash env c, ep_targetChain = fc_targetChain c,
             ep_targetBlock = fc_targetBlock c, ep_length = fc_length c, ep_status = fc_status c,
             ep_roundsRevealed = max 0 (int (revealed_of (fc_id c) db) - 1), ep_createdAt = fc_createdAt c,
             ep_armedAt = fc_armedAt c\<rparr>)
       (sort_key fc_epoch (fd_chains db))"

record seed_view =
  sv_chainIndex :: nat
  sv_seed :: "string option"
  sv_seedHash :: string
  sv_revealedAt :: "int option"

definition seed_public :: "fairness_seed \<Rightarrow> seed_view" where
  "seed_public s =
     \<lparr>sv_chainIndex = fs_index s, sv_seed = fs_seed s, sv_seedHash = fs_seedHash s, sv_revealedAt = fs_revealedAt s\<rparr>"

record seeds_dump =
  sd_epoch :: int
  sd_commitHash :: string
  sd_saltSource :: string
  sd_salt :: "string option"
  sd_targetChain :: "string option"
  sd_targetBlock :: "int option"
  sd_status :: epoch_status
  sd_length :: nat
  sd_revealedCount :: nat
  sd_seeds :: "seed_view list"

definition epochSeeds :: "int \<Rightarrow> fair_db \<Rightarrow> seeds_dump option" where
  "epochSeeds epoch db =
     (case find (\<lambda>c. fc_epoch c = epoch) (fd_chains db) of
        None \<Rightarrow> None
      | Some c \<Rightarrow>
          (let seeds = map seed_public (sort_key fs_index
             (filter (\<lambda>s. fs_chainId s = fc_id c \<and> fs_revealedAt s \<noteq> None) (fd_seeds db)))
           in Some \<lparr>sd_epoch = fc_epoch c, sd_commitHash = fc_commitHash c, sd_saltSource = fc_saltSource c,
                sd_salt = public_salt c, sd_targetChain = fc_targetChain c, sd_targetBlock = fc_targetBlock c,
                sd_status = fc_status c, sd_length = fc_length c, sd_revealedCount = length seeds,
                sd_seeds = seeds\<rparr>))"

definition verify_round ::
  "(string \<Rightarrow> string) \<Rightarrow> (string \<Rightarrow> string \<Rightarrow> string) \<Rightarrow> string \<Rightarrow> string \<Rightarrow> string option \<Rightarrow>
   rat option \<times> bool option" where
  "verify_round sha hmac seed salt prevSeed =
     (computeCrash hmac seed salt,
      case prevSeed of None \<Rightarrow> None | Some p \<Rightarrow> if p = [] then None else Some (verifyChainLink sha seed p))"

section \<open>Queries, abstractly\<close>

lemma best_None:
  "fold (\<lambda>c best. if P c \<and> (case best of None \<Rightarrow> True | Some b \<Rightarrow> R c b) then Some c else best) cs b0 = None
   \<longleftrightarrow> b0 = None \<and> (\<forall>c \<in> set cs. \<not> P c)"
  by (induction cs arbitrary: b0) (auto split: option.splits)

lemma best_Some:
  "fold (\<lambda>c best. if P c \<and> (case best of None \<Rightarrow> True | Some b \<Rightarrow> R c b) then Some c else best) cs b0 = Some c
   \<Longrightarrow> b0 = Some c \<or> c \<in> set cs \<and> P c"
  by (induction cs arbitrary: b0) (auto split: option.splits if_splits)

lemma first_epoch_None: "first_epoch P cs = None \<longleftrightarrow> (\<forall>c \<in> set cs. \<not> P c)"
  unfolding first_epoch_def by (simp add: best_None)

lemma first_epoch_Some: "first_epoch P cs = Some c \<Longrightarrow> c \<in> set cs \<and> P c"
  unfolding first_epoch_def using best_Some by fastforce

lemma findActive_None: "findActive db = None \<longleftrightarrow> (\<forall>c \<in> set (fd_chains db). fc_status c \<noteq> Ep_active)"
  unfolding findActive_def last_epoch_def by (simp add: best_None)

lemma findActive_Some: "findActive db = Some c \<Longrightarrow> c \<in> set (fd_chains db) \<and> fc_status c = Ep_active"
  unfolding findActive_def last_epoch_def using best_Some by fastforce

definition unused_seed :: "round list \<Rightarrow> uid \<Rightarrow> fairness_seed \<Rightarrow> bool" where
  "unused_seed rounds i s \<longleftrightarrow> fs_chainId s = i \<and> 1 \<le> fs_index s \<and> (\<forall>r \<in> set rounds. r_seedId r \<noteq> fs_id s)"

lemma nextUnusedSeed_alt:
  "nextUnusedSeed rounds i db =
     fold (\<lambda>s best. if unused_seed rounds i s \<and> (case best of None \<Rightarrow> True | Some b \<Rightarrow> fs_index s < fs_index b)
                    then Some s else best) (fd_seeds db) None"
  unfolding nextUnusedSeed_def unused_seed_def by (simp add: conj_assoc)

lemma nextUnusedSeed_None:
  "nextUnusedSeed rounds i db = None \<longleftrightarrow> (\<forall>s \<in> set (fd_seeds db). \<not> unused_seed rounds i s)"
  unfolding nextUnusedSeed_alt by (simp add: best_None)

lemma nextUnusedSeed_Some:
  "nextUnusedSeed rounds i db = Some s \<Longrightarrow> s \<in> set (fd_seeds db) \<and> unused_seed rounds i s"
  unfolding nextUnusedSeed_alt using best_Some by fastforce

lemma least_fold:
  fixes f :: "'a \<Rightarrow> nat"
  assumes "fold (\<lambda>s best. if P s \<and> (case best of None \<Rightarrow> True | Some b \<Rightarrow> f s < f b) then Some s else best) xs b0 = Some r"
  shows "(\<forall>x \<in> set xs. P x \<longrightarrow> f r \<le> f x) \<and> (\<forall>b. b0 = Some b \<longrightarrow> f r \<le> f b)"
  using assms
proof (induction xs arbitrary: b0)
  case (Cons x xs)
  then show ?case
    by (cases "P x \<and> (case b0 of None \<Rightarrow> True | Some b \<Rightarrow> f x < f b)") (fastforce split: option.splits)+
qed simp

lemma nextUnusedSeed_least:
  "nextUnusedSeed rounds i db = Some s \<Longrightarrow> s' \<in> set (fd_seeds db) \<Longrightarrow> unused_seed rounds i s' \<Longrightarrow> fs_index s \<le> fs_index s'"
  unfolding nextUnusedSeed_alt using least_fold [of "unused_seed rounds i" fs_index] by blast

lemma next_epoch_gt: "c \<in> set (fd_chains db) \<Longrightarrow> fc_epoch c < next_epoch db"
proof -
  have "m \<le> fold (\<lambda>c m. max m (fc_epoch c)) cs m \<and>
        (\<forall>c \<in> set cs. fc_epoch c \<le> fold (\<lambda>c m. max m (fc_epoch c)) cs m)" for cs m
  proof (induction cs arbitrary: m)
    case (Cons a cs)
    show ?case using Cons.IH [of "max m (fc_epoch a)"] by auto
  qed simp
  then show "c \<in> set (fd_chains db) \<Longrightarrow> fc_epoch c < next_epoch db"
    unfolding next_epoch_def by (metis zle_add1_eq_le)
qed

end
