(* ===== verification/VR_Engine.thy ===== *)
theory VR_Engine
  imports VR_FairService VR_Recovery
begin

text \<open>
  The round loop, \<open>src/game/game-engine.service.ts\<close>, and the followers' copy of the public round state,
  \<open>src/game/public-round-cache.ts\<close>, with the pacing constants of \<open>src/game/round-types.ts\<close>.

  \<open>engine\<close> is one node: its in-memory state and timer, its election flag, its cache, the two databases and
  \<open>eg_out\<close>, everything it emitted or published, in order. A transition is two parts, because the code
  awaits between them: the head runs up to the database write of the phase, the tail (mirror, events, next
  timer) after it, with what the head captured. \<open>run_transition\<close> is both with the error path of \<open>safe\<close>;
  \<open>deadline_fires\<close> is the rejection of a head or tail that hangs, which leaves the tail to run later.
  One call takes a \<open>step_env\<close>: the answers of the election and of the database writes, the clock at the
  head and at the tail, and what the fairness upkeep committed beside it. Multipliers are hundredths and
  the curve is the real exponential, which the source computes in doubles. The \<open>settle\<close> event is handled
  by the gateway's \<open>onSettle\<close>, which runs \<open>settleRound\<close> on the leader.
\<close>

section \<open>Pacing\<close>

definition GROWTH :: real where
  "GROWTH = 12 / 100000"

definition RESUME_MAX_STALENESS_MS :: int where
  "RESUME_MAX_STALENESS_MS = 30000"

fun PHASE_MS :: "phase \<Rightarrow> int" where
  "PHASE_MS Waiting = 3000"
| "PHASE_MS Betting = 5000"
| "PHASE_MS Running = 60000"
| "PHASE_MS Crashed = 2500"
| "PHASE_MS Settling = 500"
| "PHASE_MS Completed = 600"

definition numEnv :: "rat option \<Rightarrow> rat \<Rightarrow> rat" where
  "numEnv raw dflt = (case raw of None \<Rightarrow> dflt | Some n \<Rightarrow> if n > 0 then n else dflt)"

definition phaseDeadlineMs :: "rat option \<Rightarrow> rat" where
  "phaseDeadlineMs raw = numEnv raw 10000"

definition deadmanMs :: "rat option \<Rightarrow> rat" where
  "deadmanMs raw = numEnv raw 60000"

definition deadmanCheckMs :: "rat option \<Rightarrow> rat" where
  "deadmanCheckMs raw = numEnv raw 10000"

text \<open>The curve in hundredths, \<open>dt\<close> ms into the running phase, and the time a curve takes to reach \<open>c\<close>.\<close>

definition curve_cents :: "int \<Rightarrow> int" where
  "curve_cents dt = max 100 \<lfloor>exp (GROWTH * of_int dt) * 100\<rfloor>"

definition crash_delay :: "int \<Rightarrow> real" where
  "crash_delay c = max 0 (ln (of_int c / 100) / GROWTH)"

section \<open>State\<close>

record engine_state =
  es_roundId :: uid
  es_seedId :: uid
  es_phase :: phase
  es_phaseEndsAt :: int
  es_startedAt :: "int option"
  es_crashPoint :: int

record public_state =
  ps_roundId :: uid
  ps_phase :: phase
  ps_phaseEndsAt :: int
  ps_multiplier :: int
  ps_serverTime :: int

record published_state =
  pb_public :: public_state
  pb_startedAt :: "int option"
  pb_seedId :: uid

record round_view =
  rv_roundId :: uid
  rv_phase :: phase
  rv_phaseEndsAt :: int
  rv_startedAt :: "int option"
  rv_seedId :: uid
  rv_multiplier :: int
  rv_serverTime :: int

datatype engine_event =
    Phase_event phase "public_state option"
  | Crash_event uid int
  | Settle_event uid "int option"
  | Settled_event uid
  | Published published_state

datatype transition = Enter_waiting | Enter_betting | Enter_running | Enter_crashed | Enter_settling | Enter_completed

record 'o engine =
  eg_state :: "engine_state option"
  eg_timer :: "(real \<times> transition) option"
  eg_running :: bool
  eg_lastRoundAt :: int
  eg_deadman :: bool
  eg_steppingDown :: bool
  eg_leader :: bool
  eg_view :: "round_view option"
  eg_db :: "'o world"
  eg_fair :: fair_db
  eg_out :: "engine_event list"

record 'o step_env =
  te_wallet :: "'o wallet_provider"
  te_risk :: risk_limits
  te_fair :: fair_env
  te_hmac :: "string \<Rightarrow> string \<Rightarrow> string"
  te_still :: bool
  te_write :: bool
  te_reveal :: bool
  te_now :: int
  te_later :: int
  te_roundId :: uid
  te_upkeep :: "fair_db \<Rightarrow> fair_db"
  te_driver :: bool
  te_race :: "'o world \<Rightarrow> 'o world"

section \<open>The followers' cache\<close>

text \<open>A published message, parsed: \<open>None\<close> for a field the payload lacks.\<close>

record raw_payload =
  rp_roundId :: "string option"
  rp_phase :: "phase option"
  rp_phaseEndsAt :: "int option"
  rp_startedAt :: "int option"
  rp_seedId :: "string option"
  rp_multiplier :: "int option"
  rp_serverTime :: "int option"
  rp_crashPoint :: "int option"

definition ingest :: "int \<Rightarrow> raw_payload option \<Rightarrow> round_view option \<Rightarrow> round_view option" where
  "ingest now raw view =
     (case raw of
        None \<Rightarrow> view
      | Some p \<Rightarrow>
          (case (rp_roundId p, rp_phase p) of
             (Some rid, Some ph) \<Rightarrow> Some
               \<lparr>rv_roundId = rid, rv_phase = ph,
                rv_phaseEndsAt = (case rp_phaseEndsAt p of None \<Rightarrow> 0 | Some t \<Rightarrow> t),
                rv_startedAt = rp_startedAt p,
                rv_seedId = (case rp_seedId p of None \<Rightarrow> [] | Some s \<Rightarrow> s),
                rv_multiplier = (case rp_multiplier p of None \<Rightarrow> 100 | Some m \<Rightarrow> m),
                rv_serverTime = (case rp_serverTime p of None \<Rightarrow> now | Some t \<Rightarrow> t)\<rparr>
           | _ \<Rightarrow> view))"

definition payload_of :: "published_state \<Rightarrow> raw_payload" where
  "payload_of p =
     \<lparr>rp_roundId = Some (ps_roundId (pb_public p)), rp_phase = Some (ps_phase (pb_public p)),
      rp_phaseEndsAt = Some (ps_phaseEndsAt (pb_public p)), rp_startedAt = pb_startedAt p,
      rp_seedId = Some (pb_seedId p), rp_multiplier = Some (ps_multiplier (pb_public p)),
      rp_serverTime = Some (ps_serverTime (pb_public p)), rp_crashPoint = None\<rparr>"

definition revealed_phase :: "phase \<Rightarrow> bool" where
  "revealed_phase p \<longleftrightarrow> p = Crashed \<or> p = Settling \<or> p = Completed"

definition running_since :: "int option \<Rightarrow> int option" where
  "running_since s = (if s = Some 0 then None else s)"

definition cache_currentMultiplier :: "int \<Rightarrow> round_view option \<Rightarrow> int" where
  "cache_currentMultiplier now view =
     (case view of
        None \<Rightarrow> 100
      | Some v \<Rightarrow>
          if revealed_phase (rv_phase v) then rv_multiplier v
          else (case running_since (rv_startedAt v) of
                  Some t \<Rightarrow> if rv_phase v = Running then curve_cents (now - t) else 100
                | None \<Rightarrow> 100))"

definition cache_getPublicState :: "int \<Rightarrow> round_view option \<Rightarrow> public_state option" where
  "cache_getPublicState now view =
     map_option (\<lambda>v. \<lparr>ps_roundId = rv_roundId v, ps_phase = rv_phase v, ps_phaseEndsAt = rv_phaseEndsAt v,
                      ps_multiplier = cache_currentMultiplier now view, ps_serverTime = now\<rparr>) view"

section \<open>Public reads\<close>

definition state_multiplier :: "int \<Rightarrow> engine_state option \<Rightarrow> int" where
  "state_multiplier now st =
     (case st of
        None \<Rightarrow> 100
      | Some s \<Rightarrow>
          if revealed_phase (es_phase s) then es_crashPoint s
          else (case running_since (es_startedAt s) of
                  Some t \<Rightarrow> if es_phase s = Running then curve_cents (now - t) else 100
                | None \<Rightarrow> 100))"

definition currentMultiplier :: "int \<Rightarrow> 'o engine \<Rightarrow> int" where
  "currentMultiplier now e =
     (if \<not> eg_leader e then cache_currentMultiplier now (eg_view e) else state_multiplier now (eg_state e))"

definition getPublicState :: "int \<Rightarrow> 'o engine \<Rightarrow> public_state option" where
  "getPublicState now e =
     (if \<not> eg_leader e then cache_getPublicState now (eg_view e)
      else map_option (\<lambda>s. \<lparr>ps_roundId = es_roundId s, ps_phase = es_phase s, ps_phaseEndsAt = es_phaseEndsAt s,
                           ps_multiplier = currentMultiplier now e, ps_serverTime = now\<rparr>) (eg_state e))"

definition msSinceLastRound :: "int \<Rightarrow> 'o engine \<Rightarrow> int" where
  "msSinceLastRound now e = now - eg_lastRoundAt e"

section \<open>Emitting and scheduling\<close>

definition emit :: "engine_event \<Rightarrow> 'o engine \<Rightarrow> 'o engine" where
  "emit ev e = e\<lparr>eg_out := eg_out e @ [ev]\<rparr>"

definition mirror :: "int \<Rightarrow> 'o engine \<Rightarrow> 'o engine" where
  "mirror now e =
     (case (eg_state e, getPublicState now e) of
        (Some s, Some ps) \<Rightarrow> emit (Published \<lparr>pb_public = ps, pb_startedAt = es_startedAt s, pb_seedId = es_seedId s\<rparr>) e
      | _ \<Rightarrow> e)"

definition emitPhase :: "int \<Rightarrow> phase \<Rightarrow> 'o engine \<Rightarrow> 'o engine" where
  "emitPhase now p e = emit (Phase_event p (getPublicState now e)) e"

definition onSettle :: "int \<Rightarrow> uid \<Rightarrow> 'o engine \<Rightarrow> 'o engine" where
  "onSettle now roundId e = (if eg_leader e then e\<lparr>eg_db := snd (settleRound now roundId (eg_db e))\<rparr> else e)"

definition emit_settle :: "int \<Rightarrow> uid \<Rightarrow> int option \<Rightarrow> 'o engine \<Rightarrow> 'o engine" where
  "emit_settle now roundId m e = onSettle now roundId (emit (Settle_event roundId m) e)"

definition schedule :: "int \<Rightarrow> real \<Rightarrow> transition \<Rightarrow> 'o engine \<Rightarrow> 'o engine" where
  "schedule now ms t e = e\<lparr>eg_timer := Some (of_int now + max 0 ms, t)\<rparr>"

definition stop :: "'o engine \<Rightarrow> 'o engine" where
  "stop e = e\<lparr>eg_running := False, eg_timer := None, eg_deadman := False\<rparr>"

section \<open>Transitions\<close>

datatype head_result = Proceed uid int | Returned | Threw

definition cents_of :: "rat \<Rightarrow> int" where
  "cents_of r = math_round (100 * r)"

definition round_write :: "bool \<Rightarrow> uid \<Rightarrow> (round \<Rightarrow> round) \<Rightarrow> 'o world \<Rightarrow> 'o world option" where
  "round_write ok i f w = (if ok \<and> find_round w i \<noteq> None then Some (round_set i f w) else None)"

text \<open>Head of a transition of the current round: the fence, the in-memory phase, the round row.\<close>

definition phase_head ::
  "'o step_env \<Rightarrow> (engine_state \<Rightarrow> engine_state) \<Rightarrow> (engine_state \<Rightarrow> round \<Rightarrow> round) \<Rightarrow> 'o engine \<Rightarrow> 'o engine \<times> head_result" where
  "phase_head env f g e =
     (case eg_state e of
        None \<Rightarrow> (e, Returned)
      | Some s \<Rightarrow>
          if \<not> te_still env then (stop e, Returned)
          else let s' = f s; e1 = e\<lparr>eg_state := Some s'\<rparr>
               in (case round_write (te_write env) (es_roundId s) (g s') (eg_db e) of
                     None \<Rightarrow> (e1, Threw)
                   | Some w \<Rightarrow> (e1\<lparr>eg_db := w\<rparr>, Proceed (es_roundId s) (es_crashPoint s))))"

definition enterWaiting_head :: "'o step_env \<Rightarrow> 'o engine \<Rightarrow> 'o engine \<times> head_result" where
  "enterWaiting_head env e =
     (if \<not> te_still env then (stop e, Returned)
      else case allocateSeed (te_fair env) (db_rounds (eg_db e)) (te_upkeep env (eg_fair e)) of
        (Stalled, f) \<Rightarrow> (schedule (te_later env) 1500 Enter_waiting (e\<lparr>eg_fair := f\<rparr>), Returned)
      | (Chain_exhausted, f) \<Rightarrow> (e\<lparr>eg_fair := f\<rparr>, Threw)
      | (Allocated seed chain, f) \<Rightarrow>
          (case crashForSeed (te_hmac env) seed chain of
             None \<Rightarrow> (e\<lparr>eg_fair := f\<rparr>, Threw)
           | Some crash \<Rightarrow>
               let w = eg_db e; ends = te_now env + PHASE_MS Waiting; c = cents_of crash;
                   row = \<lparr>r_id = te_roundId env, r_seedId = fs_id seed, r_crashPoint = c, r_status = Waiting,
                          r_phaseEndsAt = Some ends, r_startedAt = None, r_crashedAt = None, r_settledAt = None\<rparr>
               in if (\<exists>r \<in> set (db_rounds w). r_seedId r = fs_id seed) then (stop (e\<lparr>eg_fair := f\<rparr>), Returned)
                  else if \<not> te_write env then (e\<lparr>eg_fair := f\<rparr>, Threw)
                  else (e\<lparr>eg_fair := f, eg_db := w\<lparr>db_rounds := db_rounds w @ [row]\<rparr>,
                          eg_state := Some \<lparr>es_roundId = te_roundId env, es_seedId = fs_id seed, es_phase = Waiting,
                            es_phaseEndsAt = ends, es_startedAt = None, es_crashPoint = c\<rparr>\<rparr>,
                        Proceed (te_roundId env) c)))"

definition enterBetting_head :: "'o step_env \<Rightarrow> 'o engine \<Rightarrow> 'o engine \<times> head_result" where
  "enterBetting_head env =
     phase_head env (\<lambda>s. s\<lparr>es_phase := Betting, es_phaseEndsAt := te_now env + PHASE_MS Betting\<rparr>)
       (\<lambda>s r. r\<lparr>r_status := Betting, r_phaseEndsAt := Some (es_phaseEndsAt s)\<rparr>)"

definition enterRunning_head :: "'o step_env \<Rightarrow> 'o engine \<Rightarrow> 'o engine \<times> head_result" where
  "enterRunning_head env =
     phase_head env (\<lambda>s. s\<lparr>es_phase := Running, es_startedAt := Some (te_now env),
                         es_phaseEndsAt := te_now env + PHASE_MS Running\<rparr>)
       (\<lambda>s r. r\<lparr>r_status := Running, r_startedAt := Some (te_now env), r_phaseEndsAt := Some (es_phaseEndsAt s)\<rparr>)"

text \<open>\<open>enterCrashed\<close> also publishes the seed before it goes on.\<close>

definition enterCrashed_head :: "'o step_env \<Rightarrow> 'o engine \<Rightarrow> 'o engine \<times> head_result" where
  "enterCrashed_head env e =
     (case phase_head env (\<lambda>s. s\<lparr>es_phase := Crashed, es_phaseEndsAt := te_now env + PHASE_MS Crashed\<rparr>)
             (\<lambda>s r. r\<lparr>r_status := Crashed, r_crashedAt := Some (te_now env), r_phaseEndsAt := Some (es_phaseEndsAt s)\<rparr>) e of
        (e1, Proceed i c) \<Rightarrow>
          (case eg_state e of
             None \<Rightarrow> (e1, Returned)
           | Some s \<Rightarrow>
               if \<not> te_reveal env then (e1, Threw)
               else (case revealSeed (te_now env) (es_seedId s) (eg_fair e1) of
                       Inl _ \<Rightarrow> (e1, Threw)
                     | Inr f \<Rightarrow> (e1\<lparr>eg_fair := f\<rparr>, Proceed i c)))
      | (e1, r) \<Rightarrow> (e1, r))"

definition enterSettling_head :: "'o step_env \<Rightarrow> 'o engine \<Rightarrow> 'o engine \<times> head_result" where
  "enterSettling_head env =
     phase_head env (\<lambda>s. s\<lparr>es_phase := Settling, es_phaseEndsAt := te_now env + PHASE_MS Settling\<rparr>)
       (\<lambda>s r. r\<lparr>r_status := Settling, r_phaseEndsAt := Some (es_phaseEndsAt s)\<rparr>)"

definition enterCompleted_head :: "'o step_env \<Rightarrow> 'o engine \<Rightarrow> 'o engine \<times> head_result" where
  "enterCompleted_head env =
     phase_head env (\<lambda>s. s\<lparr>es_phase := Completed, es_phaseEndsAt := te_now env + PHASE_MS Completed\<rparr>)
       (\<lambda>s r. r\<lparr>r_status := Completed, r_settledAt := Some (te_now env), r_phaseEndsAt := Some (es_phaseEndsAt s)\<rparr>)"

text \<open>Tails read the in-memory state of the moment they run, the captured round id and crash point apart.\<close>

definition waiting_tail :: "int \<Rightarrow> 'o engine \<Rightarrow> 'o engine" where
  "waiting_tail now e = schedule now (of_int (PHASE_MS Waiting)) Enter_betting (emitPhase now Waiting (mirror now e))"

definition betting_tail :: "int \<Rightarrow> 'o engine \<Rightarrow> 'o engine" where
  "betting_tail now e = schedule now (of_int (PHASE_MS Betting)) Enter_running (emitPhase now Betting (mirror now e))"

definition running_tail :: "int \<Rightarrow> 'o engine \<Rightarrow> 'o engine" where
  "running_tail now e =
     (let e1 = emitPhase now Running (mirror now e)
      in case eg_state e1 of
           None \<Rightarrow> e1
         | Some s \<Rightarrow> schedule now (crash_delay (es_crashPoint s)) Enter_crashed e1)"

definition crashed_tail :: "int \<Rightarrow> uid \<Rightarrow> int \<Rightarrow> 'o engine \<Rightarrow> 'o engine" where
  "crashed_tail now roundId crashPoint e =
     schedule now (of_int (PHASE_MS Crashed)) Enter_settling
       (emitPhase now Crashed (emit (Crash_event roundId crashPoint) (mirror now e)))"

definition settling_tail :: "int \<Rightarrow> 'o engine \<Rightarrow> 'o engine" where
  "settling_tail now e =
     (let e1 = mirror now e
      in case eg_state e1 of
           None \<Rightarrow> e1
         | Some s \<Rightarrow> schedule now (of_int (PHASE_MS Settling)) Enter_completed
                       (emitPhase now Settling (emit_settle now (es_roundId s) (Some (es_crashPoint s)) e1)))"

definition completed_tail :: "int \<Rightarrow> 'o engine \<Rightarrow> 'o engine" where
  "completed_tail now e =
     (let e1 = (mirror now e)\<lparr>eg_lastRoundAt := now\<rparr>
      in case eg_state e1 of
           None \<Rightarrow> e1
         | Some s \<Rightarrow> schedule now (of_int (PHASE_MS Completed)) Enter_waiting
                       (emitPhase now Completed (emit (Settled_event (es_roundId s)) e1)))"

fun head :: "transition \<Rightarrow> 'o step_env \<Rightarrow> 'o engine \<Rightarrow> 'o engine \<times> head_result" where
  "head Enter_waiting = enterWaiting_head"
| "head Enter_betting = enterBetting_head"
| "head Enter_running = enterRunning_head"
| "head Enter_crashed = enterCrashed_head"
| "head Enter_settling = enterSettling_head"
| "head Enter_completed = enterCompleted_head"

fun tail :: "transition \<Rightarrow> int \<Rightarrow> uid \<Rightarrow> int \<Rightarrow> 'o engine \<Rightarrow> 'o engine" where
  "tail Enter_waiting now i c = waiting_tail now"
| "tail Enter_betting now i c = betting_tail now"
| "tail Enter_running now i c = running_tail now"
| "tail Enter_crashed now i c = crashed_tail now i c"
| "tail Enter_settling now i c = settling_tail now"
| "tail Enter_completed now i c = completed_tail now"

text \<open>The catch of \<open>safe\<close>, for a transition that throws and for one that outlives its deadline.\<close>

definition deadline_fires :: "int \<Rightarrow> 'o engine \<Rightarrow> 'o engine" where
  "deadline_fires now e = schedule now 1500 Enter_waiting e"

definition run_transition :: "transition \<Rightarrow> 'o step_env \<Rightarrow> 'o engine \<Rightarrow> 'o engine" where
  "run_transition t env e =
     (case head t env e of
        (e1, Proceed i c) \<Rightarrow> tail t (te_later env) i c e1
      | (e1, Returned) \<Rightarrow> e1
      | (e1, Threw) \<Rightarrow> deadline_fires (te_later env) e1)"

text \<open>The timer callback.\<close>

definition fire :: "'o step_env \<Rightarrow> 'o engine \<Rightarrow> 'o engine" where
  "fire env e =
     (case eg_timer e of
        None \<Rightarrow> e
      | Some (due, t) \<Rightarrow>
          if of_int (te_now env) < due then e
          else let e1 = e\<lparr>eg_timer := None\<rparr> in if eg_running e then run_transition t env e1 else e1)"

end
