(* ===== verification/VR_EngineResume.thy ===== *)
theory VR_EngineResume
  imports VR_Engine
begin

text \<open>
  Starting, resuming and stopping the round loop (\<open>start\<close>, \<open>resumeOrRecover\<close>, \<open>resumeRound\<close>,
  \<open>unresumableReason\<close>, the deadman and the leadership listeners of
  \<open>src/game/game-engine.service.ts\<close>). The rounds table is in creation order, so the newest open round is
  the last one. Exceptions leave \<open>start\<close> through its caller's \<open>catch\<close>, which only logs.
\<close>

section \<open>Which rounds can be resumed\<close>

datatype unresumable =
    Missing_seedId
  | Corrupt_crashPoint
  | Missing_phaseEndsAt
  | Ancient phase int
  | No_startedAt phase

definition post_outcome :: "phase \<Rightarrow> bool" where
  "post_outcome p \<longleftrightarrow> p = Running \<or> p = Crashed \<or> p = Settling"

definition unresumableReason :: "int \<Rightarrow> round \<Rightarrow> unresumable option" where
  "unresumableReason now r =
     (if r_seedId r = [] then Some Missing_seedId
      else if \<not> 100 \<le> r_crashPoint r then Some Corrupt_crashPoint
      else case r_phaseEndsAt r of
        None \<Rightarrow> Some Missing_phaseEndsAt
      | Some ends \<Rightarrow>
          if (r_status r = Waiting \<or> r_status r = Betting) \<and> now - ends > RESUME_MAX_STALENESS_MS
          then Some (Ancient (r_status r) (now - ends))
          else if post_outcome (r_status r) \<and> r_startedAt r = None then Some (No_startedAt (r_status r))
          else None)"

section \<open>Resuming\<close>

definition engine_view_of :: "int \<Rightarrow> 'o engine \<Rightarrow> engine_view option" where
  "engine_view_of now e =
     map_option (\<lambda>ps. \<lparr>ev_roundId = ps_roundId ps, ev_phase = ps_phase ps\<rparr>) (getPublicState now e)"

definition engine_ctx :: "'o step_env \<Rightarrow> int \<Rightarrow> 'o engine \<Rightarrow> 'o bets_ctx" where
  "engine_ctx env now e =
     \<lparr>bc_wallet = te_wallet env, bc_risk = te_risk env, bc_state = engine_view_of now e,
      bc_mult = currentMultiplier now e, bc_now = now, bc_race = te_race env\<rparr>"

definition autoCashoutDriver :: "'o step_env \<Rightarrow> int \<Rightarrow> int \<Rightarrow> 'o engine \<Rightarrow> 'o engine" where
  "autoCashoutDriver env now multiplier e =
     e\<lparr>eg_db := snd (evaluateAutoCashouts (engine_ctx env now e) multiplier (eg_db e))\<rparr>"

text \<open>A transition called directly, outside \<open>safe\<close>: an exception goes to the caller.\<close>

definition run_bare :: "transition \<Rightarrow> 'o step_env \<Rightarrow> 'o engine \<Rightarrow> 'o engine" where
  "run_bare t env e =
     (case head t env e of
        (e1, Proceed i c) \<Rightarrow> tail t (te_later env) i c e1
      | (e1, _) \<Rightarrow> e1)"

definition resume_running :: "'o step_env \<Rightarrow> engine_state \<Rightarrow> int \<Rightarrow> 'o engine \<Rightarrow> 'o engine" where
  "resume_running env s startedAt e =
     (let crashTime = of_int startedAt + crash_delay (es_crashPoint s); now = te_now env
      in if of_int now < crashTime
         then schedule (te_later env) (crashTime - of_int now) Enter_crashed e
         else if \<not> te_still env then stop e
         else run_bare Enter_crashed env
                (if te_driver env then autoCashoutDriver env (te_later env) (es_crashPoint s) e else e))"

definition backfill_crashedAt :: "int \<Rightarrow> uid \<Rightarrow> 'o world \<Rightarrow> 'o world" where
  "backfill_crashedAt now i w =
     w\<lparr>db_rounds := update_where (\<lambda>r. r_id r = i \<and> r_crashedAt r = None) (\<lambda>r. r\<lparr>r_crashedAt := Some now\<rparr>) (db_rounds w)\<rparr>"

definition resume_crashed :: "'o step_env \<Rightarrow> engine_state \<Rightarrow> 'o engine \<Rightarrow> 'o engine" where
  "resume_crashed env s e =
     (case revealSeed (te_now env) (es_seedId s) (eg_fair e) of
        Inl _ \<Rightarrow> e
      | Inr f \<Rightarrow>
          schedule (te_later env) (of_int (es_phaseEndsAt s - te_now env)) Enter_settling
            (emit (Crash_event (es_roundId s) (es_crashPoint s))
              (mirror (te_later env)
                (e\<lparr>eg_fair := f, eg_db := backfill_crashedAt (te_now env) (es_roundId s) (eg_db e)\<rparr>))))"

definition state_of_round :: "round \<Rightarrow> int \<Rightarrow> engine_state" where
  "state_of_round r ends =
     \<lparr>es_roundId = r_id r, es_seedId = r_seedId r, es_phase = r_status r, es_phaseEndsAt = ends,
      es_startedAt = r_startedAt r, es_crashPoint = r_crashPoint r\<rparr>"

text \<open>\<open>r\<close> has passed \<open>unresumableReason\<close>, so the deadline and, after betting, the start are there.\<close>

definition resumeRound :: "'o step_env \<Rightarrow> round \<Rightarrow> 'o engine \<Rightarrow> 'o engine" where
  "resumeRound env r e =
     (case r_phaseEndsAt r of
        None \<Rightarrow> e
      | Some ends \<Rightarrow>
          (let now = te_now env; s = state_of_round r ends; left = of_int (ends - now);
               e1 = emitPhase (te_later env) (r_status r) (mirror now (e\<lparr>eg_state := Some s\<rparr>))
           in case r_status r of
                Waiting \<Rightarrow> schedule (te_later env) left Enter_betting e1
              | Betting \<Rightarrow> schedule (te_later env) left Enter_running e1
              | Running \<Rightarrow> (case r_startedAt r of None \<Rightarrow> e1 | Some t \<Rightarrow> resume_running env s t e1)
              | Crashed \<Rightarrow> resume_crashed env s e1
              | Settling \<Rightarrow> schedule (te_later env) left Enter_completed
                              (emit_settle (te_later env) (r_id r) (Some (r_crashPoint r)) e1)
              | Completed \<Rightarrow> run_bare Enter_waiting env e1))"

definition open_rounds :: "'o world \<Rightarrow> round list" where
  "open_rounds w = rev (filter (\<lambda>r. r_status r \<in> set OPEN_PHASES) (db_rounds w))"

text \<open>A post-outcome extra also has its seed revealed and its \<open>settle\<close> event emitted.\<close>

definition close_stale :: "'o step_env \<Rightarrow> round \<Rightarrow> 'o engine \<Rightarrow> 'o engine" where
  "close_stale env r e =
     (let e1 = (if post_outcome (r_status r)
                then emit (Settle_event (r_id r) None)
                       (e\<lparr>eg_fair := (case revealSeed (te_now env) (r_seedId r) (eg_fair e) of Inl _ \<Rightarrow> eg_fair e | Inr f \<Rightarrow> f)\<rparr>)
                else e)
      in e1\<lparr>eg_db := closeStaleExtra (te_wallet env) (te_now env) r (eg_db e1)\<rparr>)"

definition resumeOrRecover :: "'o step_env \<Rightarrow> 'o engine \<Rightarrow> bool \<times> 'o engine" where
  "resumeOrRecover env e =
     (let e1 = e\<lparr>eg_db := snd (recoverReservingBets (te_wallet env) (te_race env) (te_now env) 0 (eg_db e))\<rparr>
      in case open_rounds (eg_db e1) of
           [] \<Rightarrow> (False, e1)
         | candidate # stale \<Rightarrow>
             (let e2 = fold (close_stale env) stale e1
              in case unresumableReason (te_now env) candidate of
                   Some _ \<Rightarrow>
                     (False, e2\<lparr>eg_db := closeAndRefundRound (te_wallet env) (te_now env) (r_id candidate) (eg_db e2)\<rparr>)
                 | None \<Rightarrow> (True, resumeRound env candidate e2)))"

section \<open>Starting and stopping\<close>

definition start_begin :: "'o step_env \<Rightarrow> 'o engine \<Rightarrow> 'o engine" where
  "start_begin env e =
     e\<lparr>eg_running := True, eg_lastRoundAt := te_now env, eg_steppingDown := False, eg_deadman := True,
       eg_fair := snd (ensureChain (te_fair env) (eg_fair e)),
       eg_db := snd (recoverStrandedActiveBets (te_wallet env) (te_now env) 0 (eg_db e))\<rparr>"

definition start :: "'o step_env \<Rightarrow> 'o engine \<Rightarrow> 'o engine" where
  "start env e =
     (if eg_running e then e
      else case resumeOrRecover env (start_begin env e) of
             (True, e2) \<Rightarrow> e2
           | (False, e2) \<Rightarrow> run_bare Enter_waiting env e2)"

definition leader_acquired :: "'o step_env \<Rightarrow> 'o engine \<Rightarrow> 'o engine" where
  "leader_acquired env e = start env (e\<lparr>eg_leader := True\<rparr>)"

definition leader_lost :: "'o engine \<Rightarrow> 'o engine" where
  "leader_lost e = stop (e\<lparr>eg_leader := False\<rparr>)"

text \<open>The periodic liveness check; \<open>stepDown\<close> ends in the \<open>leader-lost\<close> listener.\<close>

definition deadmanCheck :: "int \<Rightarrow> rat \<Rightarrow> 'o engine \<Rightarrow> 'o engine" where
  "deadmanCheck now limit e =
     (if eg_steppingDown e \<or> \<not> eg_leader e then e
      else if of_int (msSinceLastRound now e) \<le> limit then e
      else leader_lost (e\<lparr>eg_steppingDown := True\<rparr>))"

end
