(* ===== verification/VR_EngineLoop.thy ===== *)
theory VR_EngineLoop
  imports VR_EngineResume
begin

text \<open>
  The round loop's own guarantees: what every transition leaves in memory is what it wrote to the round
  row (so a survivor resumes the same state), the timers follow the phases, closing the open rounds of a
  dead leader leaves one at most, and nothing published before the crash depends on the crash point.
\<close>

section \<open>Fields\<close>

lemma emit_sel [simp]:
  "eg_state (emit ev e) = eg_state e" "eg_timer (emit ev e) = eg_timer e" "eg_running (emit ev e) = eg_running e"
  "eg_leader (emit ev e) = eg_leader e" "eg_db (emit ev e) = eg_db e" "eg_fair (emit ev e) = eg_fair e"
  "eg_view (emit ev e) = eg_view e" "eg_out (emit ev e) = eg_out e @ [ev]" "eg_deadman (emit ev e) = eg_deadman e"
  by (simp_all add: emit_def)

lemma mirror_sel [simp]:
  "eg_state (mirror now e) = eg_state e" "eg_timer (mirror now e) = eg_timer e" "eg_running (mirror now e) = eg_running e"
  "eg_leader (mirror now e) = eg_leader e" "eg_db (mirror now e) = eg_db e" "eg_fair (mirror now e) = eg_fair e"
  "eg_view (mirror now e) = eg_view e" "eg_deadman (mirror now e) = eg_deadman e"
  by (auto simp: mirror_def split: option.split)

lemma emitPhase_sel [simp]:
  "eg_state (emitPhase now p e) = eg_state e" "eg_timer (emitPhase now p e) = eg_timer e"
  "eg_running (emitPhase now p e) = eg_running e" "eg_leader (emitPhase now p e) = eg_leader e"
  "eg_db (emitPhase now p e) = eg_db e" "eg_fair (emitPhase now p e) = eg_fair e"
  "eg_view (emitPhase now p e) = eg_view e" "eg_deadman (emitPhase now p e) = eg_deadman e"
  by (simp_all add: emitPhase_def)

lemma schedule_sel [simp]:
  "eg_state (schedule now ms t e) = eg_state e" "eg_running (schedule now ms t e) = eg_running e"
  "eg_leader (schedule now ms t e) = eg_leader e" "eg_db (schedule now ms t e) = eg_db e"
  "eg_fair (schedule now ms t e) = eg_fair e" "eg_view (schedule now ms t e) = eg_view e"
  "eg_out (schedule now ms t e) = eg_out e" "eg_timer (schedule now ms t e) = Some (of_int now + max 0 ms, t)"
  "eg_deadman (schedule now ms t e) = eg_deadman e"
  by (simp_all add: schedule_def)

lemma onSettle_sel [simp]:
  "eg_state (onSettle now i e) = eg_state e" "eg_timer (onSettle now i e) = eg_timer e"
  "eg_running (onSettle now i e) = eg_running e" "eg_leader (onSettle now i e) = eg_leader e"
  "eg_fair (onSettle now i e) = eg_fair e" "eg_view (onSettle now i e) = eg_view e"
  "eg_out (onSettle now i e) = eg_out e" "eg_deadman (onSettle now i e) = eg_deadman e"
  by (simp_all add: onSettle_def)

lemma settleRound_rounds [simp]: "db_rounds (snd (settleRound now i w)) = db_rounds w"
  by (simp add: settleRound_def Let_def)

lemma onSettle_rounds [simp]: "db_rounds (eg_db (onSettle now i e)) = db_rounds (eg_db e)"
  by (simp add: onSettle_def)

lemma emit_settle_sel [simp]:
  "eg_state (emit_settle now i m e) = eg_state e" "eg_timer (emit_settle now i m e) = eg_timer e"
  "eg_running (emit_settle now i m e) = eg_running e" "eg_leader (emit_settle now i m e) = eg_leader e"
  "db_rounds (eg_db (emit_settle now i m e)) = db_rounds (eg_db e)" "eg_fair (emit_settle now i m e) = eg_fair e"
  "eg_view (emit_settle now i m e) = eg_view e"
  by (simp_all add: emit_settle_def)

lemma find_round_round_set:
  "(\<And>r. r_id (f r) = r_id r) \<Longrightarrow> find_round (round_set j f w) i =
     (if i = j then map_option f (find_round w i) else find_round w i)"
proof -
  assume f: "\<And>r. r_id (f r) = r_id r"
  have "find (\<lambda>r. r_id r = i) (update_where (\<lambda>r. r_id r = j) f rs) =
      (if i = j then map_option f (find (\<lambda>r. r_id r = i) rs) else find (\<lambda>r. r_id r = i) rs)" for rs
    by (induction rs) (auto simp: f)
  then show ?thesis by (simp add: find_round_def round_set_def)
qed

lemma find_round_cong: "db_rounds w = db_rounds w' \<Longrightarrow> find_round w i = find_round w' i"
  by (simp add: find_round_def)

section \<open>Memory and row\<close>

definition row_matches :: "engine_state \<Rightarrow> round \<Rightarrow> bool" where
  "row_matches s r \<longleftrightarrow> r_phaseEndsAt r = Some (es_phaseEndsAt s) \<and> es_roundId s = r_id r \<and> es_seedId s = r_seedId r \<and>
     es_phase s = r_status r \<and> es_startedAt s = r_startedAt r \<and> es_crashPoint s = r_crashPoint r"

text \<open>The round row holds everything of the in-memory state, and a started round has its start time.\<close>

definition persisted :: "'o engine \<Rightarrow> bool" where
  "persisted e \<longleftrightarrow>
     (case eg_state e of
        None \<Rightarrow> True
      | Some s \<Rightarrow> (\<exists>r. find_round (eg_db e) (es_roundId s) = Some r \<and> row_matches s r) \<and>
                  (post_outcome (es_phase s) \<longrightarrow> es_startedAt s \<noteq> None))"

lemma persisted_cong:
  "eg_state e' = eg_state e \<Longrightarrow> db_rounds (eg_db e') = db_rounds (eg_db e) \<Longrightarrow> persisted e' = persisted e"
  by (simp add: persisted_def find_round_def cong: option.case_cong)

lemma tail_frame: "eg_state (tail t now i c e) = eg_state e \<and> db_rounds (eg_db (tail t now i c e)) = db_rounds (eg_db e)"
  by (cases t)
    (simp_all add: waiting_tail_def betting_tail_def running_tail_def crashed_tail_def settling_tail_def
      completed_tail_def Let_def split: option.split)

lemma persisted_tail: "persisted (tail t now i c e) = persisted e"
  using tail_frame [of t now i c e] by (intro persisted_cong) auto

lemma phase_head_persisted:
  assumes h: "phase_head env f g e = (e1, Proceed i c)" and p: "persisted e"
    and id: "\<And>s. es_roundId (f s) = es_roundId s" "\<And>s r. r_id (g s r) = r_id r"
    and row: "\<And>s r. eg_state e = Some s \<Longrightarrow> row_matches s r \<Longrightarrow> row_matches (f s) (g (f s) r)"
    and started: "\<And>s. eg_state e = Some s \<Longrightarrow> post_outcome (es_phase (f s)) \<Longrightarrow> es_startedAt (f s) \<noteq> None"
  shows "persisted e1"
proof -
  obtain s where s: "eg_state e = Some s"
    and e1: "e1 = e\<lparr>eg_state := Some (f s), eg_db := round_set (es_roundId s) (g (f s)) (eg_db e)\<rparr>"
    using h by (auto simp: phase_head_def round_write_def Let_def split: option.splits if_splits)
  obtain r where r: "find_round (eg_db e) (es_roundId s) = Some r" "row_matches s r"
    using p s by (auto simp: persisted_def)
  have "find_round (eg_db e1) (es_roundId s) = Some (g (f s) r)"
    using r(1) by (simp add: e1 find_round_round_set id)
  then show ?thesis using row [OF s r(2)] started [OF s] by (simp add: persisted_def e1 id)
qed

section \<open>The timer\<close>

fun next_of :: "phase \<Rightarrow> transition" where
  "next_of Waiting = Enter_betting"
| "next_of Betting = Enter_running"
| "next_of Running = Enter_crashed"
| "next_of Crashed = Enter_settling"
| "next_of Settling = Enter_completed"
| "next_of Completed = Enter_waiting"

fun entered :: "transition \<Rightarrow> phase" where
  "entered Enter_waiting = Waiting"
| "entered Enter_betting = Betting"
| "entered Enter_running = Running"
| "entered Enter_crashed = Crashed"
| "entered Enter_settling = Settling"
| "entered Enter_completed = Completed"

text \<open>The crash of a running round is never armed before its committed time.\<close>

definition not_early :: "engine_state \<Rightarrow> real \<Rightarrow> bool" where
  "not_early s due \<longleftrightarrow>
     (es_phase s = Running \<longrightarrow> (\<exists>t. es_startedAt s = Some t \<and> of_int t + crash_delay (es_crashPoint s) \<le> due))"

definition armed :: "'o engine \<Rightarrow> bool" where
  "armed e \<longleftrightarrow>
     (\<exists>due. eg_timer e = Some (due, Enter_waiting)) \<or>
     persisted e \<and> (\<exists>s due. eg_state e = Some s \<and> eg_timer e = Some (due, next_of (es_phase s)) \<and> not_early s due)"

definition loop_inv :: "'o engine \<Rightarrow> bool" where
  "loop_inv e \<longleftrightarrow> (eg_running e \<longrightarrow> armed e)"

definition clock_ok :: "'o step_env \<Rightarrow> 'o engine \<Rightarrow> bool" where
  "clock_ok env e \<longleftrightarrow> te_now env \<le> te_later env \<and> find_round (eg_db e) (te_roundId env) = None"

text \<open>Outcomes of a head.\<close>

definition head_ok :: "transition \<Rightarrow> 'o step_env \<Rightarrow> 'o engine \<times> head_result \<Rightarrow> bool" where
  "head_ok t env p \<longleftrightarrow>
     (case p of
        (e1, Threw) \<Rightarrow> True
      | (e1, Returned) \<Rightarrow> \<not> eg_running e1 \<or> (\<exists>due. eg_timer e1 = Some (due, Enter_waiting))
      | (e1, Proceed i c) \<Rightarrow> persisted e1 \<and>
          (\<exists>s. eg_state e1 = Some s \<and> es_phase s = entered t \<and> es_roundId s = i \<and> es_crashPoint s = c \<and>
               (t = Enter_running \<longrightarrow> es_startedAt s = Some (te_now env))))"

lemma phase_head_ok:
  assumes p: "persisted e" "eg_state e = Some s0"
    and id: "\<And>s. es_roundId (f s) = es_roundId s" "\<And>s r. r_id (g s r) = r_id r"
    and crash: "\<And>s. es_crashPoint (f s) = es_crashPoint s"
    and ph: "es_phase (f s0) = entered t" "t = Enter_running \<longrightarrow> es_startedAt (f s0) = Some (te_now env)"
    and row: "\<And>s r. eg_state e = Some s \<Longrightarrow> row_matches s r \<Longrightarrow> row_matches (f s) (g (f s) r)"
    and started: "\<And>s. eg_state e = Some s \<Longrightarrow> post_outcome (es_phase (f s)) \<Longrightarrow> es_startedAt (f s) \<noteq> None"
  shows "head_ok t env (phase_head env f g e)"
proof (cases "phase_head env f g e")
  case (Pair e1 r)
  show ?thesis
  proof (cases r)
    case (Proceed i c)
    have "persisted e1"
      using Pair Proceed by (intro phase_head_persisted [OF _ p(1) id row started]) auto
    moreover have "eg_state e1 = Some (f s0)" "i = es_roundId s0" "c = es_crashPoint s0"
      using Pair Proceed p(2) by (auto simp: phase_head_def Let_def split: if_splits option.splits)
    ultimately show ?thesis using Pair Proceed ph id crash by (simp add: head_ok_def)
  next
    case Returned
    then show ?thesis
      using Pair p(2) by (auto simp: phase_head_def head_ok_def stop_def Let_def split: if_splits option.splits)
  qed (use Pair in \<open>simp add: head_ok_def\<close>)
qed

lemma betting_head_ok:
  "persisted e \<Longrightarrow> eg_state e = Some s \<Longrightarrow> es_phase s = Waiting \<Longrightarrow> head_ok Enter_betting env (enterBetting_head env e)"
  unfolding enterBetting_head_def
  by (rule phase_head_ok) (auto simp: row_matches_def post_outcome_def persisted_def)

lemma running_head_ok:
  "persisted e \<Longrightarrow> eg_state e = Some s \<Longrightarrow> es_phase s = Betting \<Longrightarrow> head_ok Enter_running env (enterRunning_head env e)"
  unfolding enterRunning_head_def
  by (rule phase_head_ok) (auto simp: row_matches_def post_outcome_def persisted_def)

lemma settling_head_ok:
  "persisted e \<Longrightarrow> eg_state e = Some s \<Longrightarrow> es_phase s = Crashed \<Longrightarrow> head_ok Enter_settling env (enterSettling_head env e)"
  unfolding enterSettling_head_def
  by (rule phase_head_ok) (auto simp: row_matches_def post_outcome_def persisted_def)

lemma completed_head_ok:
  "persisted e \<Longrightarrow> eg_state e = Some s \<Longrightarrow> es_phase s = Settling \<Longrightarrow> head_ok Enter_completed env (enterCompleted_head env e)"
  unfolding enterCompleted_head_def
  by (rule phase_head_ok) (auto simp: row_matches_def post_outcome_def persisted_def)

lemma crashed_head_ok:
  assumes "persisted e" "eg_state e = Some s" "es_phase s = Running"
  shows "head_ok Enter_crashed env (enterCrashed_head env e)"
proof -
  let ?f = "\<lambda>s. s\<lparr>es_phase := Crashed, es_phaseEndsAt := te_now env + PHASE_MS Crashed\<rparr>"
  let ?g = "\<lambda>s r. r\<lparr>r_status := Crashed, r_crashedAt := Some (te_now env), r_phaseEndsAt := Some (es_phaseEndsAt s)\<rparr>"
  have h: "head_ok Enter_crashed env (phase_head env ?f ?g e)"
    using assms by (intro phase_head_ok) (auto simp: row_matches_def post_outcome_def persisted_def)
  have keep: "persisted (e1\<lparr>eg_fair := x\<rparr>) = persisted e1" for e1 :: "'a engine" and x by (rule persisted_cong) auto
  show ?thesis
    using h assms(2) unfolding enterCrashed_head_def head_ok_def
    by (auto simp: keep split: prod.splits head_result.splits if_splits sum.splits)
qed

lemma waiting_head_ok:
  assumes "find_round (eg_db e) (te_roundId env) = None"
  shows "head_ok Enter_waiting env (enterWaiting_head env e)"
proof -
  have f: "find P xs = None \<Longrightarrow> P y \<Longrightarrow> find P (xs @ [y]) = Some y" for P and xs :: "round list" and y
    by (induction xs) (auto split: if_splits)
  show ?thesis
    using assms unfolding enterWaiting_head_def head_ok_def
    by (auto simp: Let_def stop_def schedule_def persisted_def find_round_def f row_matches_def
        post_outcome_def split: prod.split allocation.split option.split)
qed

lemma head_ok_run:
  assumes h: "head_ok t env (head t env e)" and c: "te_now env \<le> te_later env"
  shows "loop_inv (run_transition t env e)"
proof (cases "head t env e")
  case (Pair e1 r)
  show ?thesis
  proof (cases r)
    case (Proceed i cr)
    obtain s where p: "persisted e1" and s: "eg_state e1 = Some s" "es_phase s = entered t" "es_crashPoint s = cr"
      "t = Enter_running \<longrightarrow> es_startedAt s = Some (te_now env)"
      using h Pair Proceed by (auto simp: head_ok_def)
    let ?e = "tail t (te_later env) i cr e1"
    have st: "eg_state ?e = Some s" and pe: "persisted ?e" using s(1) p by (simp_all add: tail_frame persisted_tail)
    have "\<exists>due. eg_timer ?e = Some (due, next_of (es_phase s)) \<and> not_early s due"
      using s c by (cases t)
        (auto simp: waiting_tail_def betting_tail_def running_tail_def crashed_tail_def settling_tail_def
          completed_tail_def Let_def not_early_def crash_delay_def)
    then show ?thesis
      using Pair Proceed st pe by (auto simp: run_transition_def loop_inv_def armed_def)
  next
    case Returned
    then show ?thesis using h Pair by (auto simp: run_transition_def head_ok_def loop_inv_def armed_def)
  next
    case Threw
    then show ?thesis using Pair by (simp add: run_transition_def loop_inv_def armed_def deadline_fires_def)
  qed
qed

lemma fire_inv:
  assumes inv: "loop_inv e" and c: "clock_ok env e"
  shows "loop_inv (fire env e)"
proof (cases "eg_timer e")
  case None
  then show ?thesis using inv by (simp add: fire_def)
next
  case (Some dt)
  obtain due t where dt: "dt = (due, t)" by fastforce
  let ?e = "e\<lparr>eg_timer := None\<rparr>"
  show ?thesis
  proof (cases "of_int (te_now env) < due \<or> \<not> eg_running e")
    case True
    then show ?thesis using inv Some dt by (auto simp: fire_def loop_inv_def)
  next
    case False
    have p: "persisted ?e = persisted e" by (rule persisted_cong) auto
    have "head_ok t env (head t env ?e)"
    proof (cases "t = Enter_waiting")
      case True
      then show ?thesis using c by (simp add: waiting_head_ok clock_ok_def)
    next
      case nw: False
      then obtain s where s: "persisted e" "eg_state e = Some s" "t = next_of (es_phase s)"
        using inv False Some dt by (auto simp: loop_inv_def armed_def)
      then show ?thesis
        using nw p by (cases "es_phase s")
          (auto intro: betting_head_ok running_head_ok crashed_head_ok settling_head_ok completed_head_ok)
    qed
    then have "loop_inv (run_transition t env ?e)" using c by (intro head_ok_run) (auto simp: clock_ok_def)
    with False Some dt show ?thesis by (simp add: fire_def Let_def)
  qed
qed

lemma loop_inv_cong:
  "eg_state e' = eg_state e \<Longrightarrow> db_rounds (eg_db e') = db_rounds (eg_db e) \<Longrightarrow> eg_timer e' = eg_timer e \<Longrightarrow>
   eg_running e' = eg_running e \<Longrightarrow> loop_inv e' = loop_inv e"
  using persisted_cong [of e' e] by (simp add: loop_inv_def armed_def)

section \<open>Secrecy\<close>

text \<open>The same node with another crash point, in memory and in the round row.\<close>

definition with_crash :: "int \<Rightarrow> 'o engine \<Rightarrow> 'o engine" where
  "with_crash c e =
     (case eg_state e of
        None \<Rightarrow> e
      | Some s \<Rightarrow> e\<lparr>eg_state := Some (s\<lparr>es_crashPoint := c\<rparr>),
                    eg_db := round_set (es_roundId s) (\<lambda>r. r\<lparr>r_crashPoint := c\<rparr>) (eg_db e)\<rparr>)"

lemma out_mirror_secret:
  "\<lbrakk>eg_state e = Some s; eg_state d = Some (s\<lparr>es_crashPoint := c\<rparr>); \<not> revealed_phase (es_phase s);
    eg_leader d = eg_leader e; eg_view d = eg_view e\<rbrakk> \<Longrightarrow> getPublicState now d = getPublicState now e"
  by (simp add: getPublicState_def currentMultiplier_def state_multiplier_def cong: option.case_cong)

lemma mirror_out_secret:
  "\<lbrakk>eg_state e = Some s; eg_state d = Some (s\<lparr>es_crashPoint := c\<rparr>); \<not> revealed_phase (es_phase s);
    eg_leader d = eg_leader e; eg_view d = eg_view e; eg_out d = eg_out e\<rbrakk> \<Longrightarrow>
   eg_out (emitPhase now p (mirror now d)) = eg_out (emitPhase now p (mirror now e))"
  using out_mirror_secret [of e s d c now] out_mirror_secret [of "mirror now e" s "mirror now d" c now]
  by (simp add: emitPhase_def) (simp add: mirror_def split: option.split)

lemma phase_head_Proceed:
  "te_still env \<Longrightarrow> te_write env \<Longrightarrow> eg_state e = Some s \<Longrightarrow> find_round (eg_db e) (es_roundId s) \<noteq> None \<Longrightarrow>
   phase_head env f g e =
     (e\<lparr>eg_state := Some (f s), eg_db := round_set (es_roundId s) (g (f s)) (eg_db e)\<rparr>,
      Proceed (es_roundId s) (es_crashPoint s))"
  by (auto simp: phase_head_def round_write_def Let_def)

lemma run_transition_fail:
  assumes "\<not> (te_still env \<and> te_write env \<and> (\<exists>s. eg_state e = Some s \<and> find_round (eg_db e) (es_roundId s) \<noteq> None))"
    and "head t env e = phase_head env f g e"
  shows "eg_out (run_transition t env e) = eg_out e"
  using assms by (auto simp: run_transition_def phase_head_def round_write_def Let_def deadline_fires_def stop_def
      split: option.split)

text \<open>Transitions whose head and tail do not look at the crash point.\<close>

lemma phase_transition_secret:
  fixes env :: "'o step_env" and e :: "'o engine"
  assumes f: "\<And>s. f (s\<lparr>es_crashPoint := c\<rparr>) = (f s)\<lparr>es_crashPoint := c\<rparr>"
    and ph: "\<And>s. \<not> revealed_phase (es_phase (f s))"
    and t: "\<And>e. head t env e = phase_head env f g e"
    and out: "\<And>now i c (e :: 'o engine). eg_state e \<noteq> None \<Longrightarrow> eg_out (tail t now i c e) = eg_out (emitPhase now (entered t) (mirror now e))"
  shows "eg_out (run_transition t env (with_crash c e)) = eg_out (run_transition t env e)"
proof (cases "eg_state e")
  case (Some s)
  let ?d = "with_crash c e"
  have d: "eg_state ?d = Some (s\<lparr>es_crashPoint := c\<rparr>)" "eg_out ?d = eg_out e" "eg_leader ?d = eg_leader e"
    "eg_view ?d = eg_view e" "find_round (eg_db ?d) (es_roundId s) = None \<longleftrightarrow> find_round (eg_db e) (es_roundId s) = None"
    using Some by (simp_all add: with_crash_def find_round_round_set)
  show ?thesis
  proof (cases "te_still env \<and> te_write env \<and> find_round (eg_db e) (es_roundId s) \<noteq> None")
    case True
    then have h: "te_still env" "te_write env" "find_round (eg_db e) (es_roundId s) \<noteq> None"
      "find_round (eg_db ?d) (es_roundId (s\<lparr>es_crashPoint := c\<rparr>)) \<noteq> None" using d by auto
    show ?thesis
      unfolding run_transition_def t phase_head_Proceed [OF h(1,2) Some h(3)] phase_head_Proceed [OF h(1,2) d(1) h(4)]
      unfolding prod.case head_result.case
    proof (subst (1 2) out)
      show "eg_out (emitPhase (te_later env) (entered t) (mirror (te_later env)
          (?d\<lparr>eg_state := Some (f (s\<lparr>es_crashPoint := c\<rparr>)),
              eg_db := round_set (es_roundId (s\<lparr>es_crashPoint := c\<rparr>)) (g (f (s\<lparr>es_crashPoint := c\<rparr>))) (eg_db ?d)\<rparr>))) =
        eg_out (emitPhase (te_later env) (entered t) (mirror (te_later env)
          (e\<lparr>eg_state := Some (f s), eg_db := round_set (es_roundId s) (g (f s)) (eg_db e)\<rparr>)))"
        by (rule mirror_out_secret [where s = "f s" and c = c]) (simp_all add: d f ph)
    qed simp_all
  next
    case False
    then have "eg_out (run_transition t env e) = eg_out e" using Some by (intro run_transition_fail [OF _ t]) simp
    moreover have "eg_out (run_transition t env ?d) = eg_out ?d"
      using False d(1,5) by (intro run_transition_fail [OF _ t]) simp
    ultimately show ?thesis by (simp add: d)
  qed
qed (simp add: with_crash_def)

text \<open>C20. Nothing a node emits or publishes before the crash depends on the crash point: opening a round,
  opening and closing its betting window produce the same events whatever the point is, the published
  payload has no crash field, and a follower drops one that a message carries.\<close>

theorem crash_point_secret:
  assumes "\<And>s ch. crashForSeed h s ch = None \<longleftrightarrow> crashForSeed (te_hmac env) s ch = None"
  shows "eg_out (run_transition Enter_waiting (env\<lparr>te_hmac := h\<rparr>) e) = eg_out (run_transition Enter_waiting env e) \<and>
    eg_out (run_transition Enter_betting env (with_crash c e)) = eg_out (run_transition Enter_betting env e) \<and>
    eg_out (run_transition Enter_running env (with_crash c e)) = eg_out (run_transition Enter_running env e) \<and>
    rp_crashPoint (payload_of ps) = None \<and>
    ingest now (Some (p\<lparr>rp_crashPoint := x\<rparr>)) v = ingest now (Some p) v"
proof (intro conjI)
  show "eg_out (run_transition Enter_betting env (with_crash c e)) = eg_out (run_transition Enter_betting env e)"
    by (rule phase_transition_secret [OF _ _ head.simps(2) [THEN fun_cong, THEN fun_cong, unfolded enterBetting_head_def]])
      (auto simp: revealed_phase_def betting_tail_def)
  show "eg_out (run_transition Enter_running env (with_crash c e)) = eg_out (run_transition Enter_running env e)"
    by (rule phase_transition_secret [OF _ _ head.simps(3) [THEN fun_cong, THEN fun_cong, unfolded enterRunning_head_def]])
      (auto simp: revealed_phase_def running_tail_def Let_def split: option.split)
  have tail: "eg_state d = Some s \<Longrightarrow> eg_state d' = Some (s\<lparr>es_crashPoint := k\<rparr>) \<Longrightarrow> es_phase s = Waiting \<Longrightarrow>
      eg_leader d' = eg_leader d \<Longrightarrow> eg_view d' = eg_view d \<Longrightarrow> eg_out d' = eg_out d \<Longrightarrow>
      eg_out (waiting_tail n d') = eg_out (waiting_tail n d)" for d d' :: "'a engine" and s k n
    using mirror_out_secret [of d s d' k n Waiting] by (simp add: waiting_tail_def revealed_phase_def)
  show "eg_out (run_transition Enter_waiting (env\<lparr>te_hmac := h\<rparr>) e) = eg_out (run_transition Enter_waiting env e)"
  proof (cases "allocateSeed (te_fair env) (db_rounds (eg_db e)) (te_upkeep env (eg_fair e))")
    case (Pair a f)
    show ?thesis
    proof (cases a)
      case (Allocated s ch)
      show ?thesis
      proof (cases "crashForSeed (te_hmac env) s ch")
        case None
        then show ?thesis using Pair Allocated assms [of s ch]
          by (simp add: run_transition_def enterWaiting_head_def deadline_fires_def stop_def)
      next
        case (Some r)
        then obtain r' where "crashForSeed h s ch = Some r'" using assms [of s ch] by auto
        with Some Pair Allocated show ?thesis
          by (auto simp: run_transition_def enterWaiting_head_def deadline_fires_def stop_def Let_def
              intro!: tail [where s = "\<lparr>es_roundId = te_roundId env, es_seedId = fs_id s, es_phase = Waiting,
                es_phaseEndsAt = te_now env + 3000, es_startedAt = None, es_crashPoint = cents_of r\<rparr>"
                and k = "cents_of r'"])
      qed
    qed (use Pair in \<open>simp_all add: run_transition_def enterWaiting_head_def deadline_fires_def stop_def\<close>)
  qed
  show "ingest now (Some (p\<lparr>rp_crashPoint := x\<rparr>)) v = ingest now (Some p) v"
    by (cases "rp_roundId p"; cases "rp_phase p") (simp_all add: ingest_def)
qed (simp add: payload_of_def)

end
