(* ===== verification/VR_EngineGate.thy ===== *)
theory VR_EngineGate
  imports VR_EngineLoop
begin

text \<open>
  Where the loop meets the bets: the cash-out gate against the crash time, and three ways in which the
  loop's error paths and its pacing reach bets they should not: a transition that outlives its deadline,
  a database write that fails, and an automatic cash-out whose target falls
  between the last tick and the crash.
\<close>

section \<open>The curve\<close>

lemma curve_before_crash:
  assumes "0 \<le> dt" and "100 \<le> c"
  shows "curve_cents dt < c \<longleftrightarrow> of_int dt < crash_delay c"
proof -
  have G: "0 < GROWTH" by (simp add: GROWTH_def)
  have d: "crash_delay c = ln (of_int c / 100) / GROWTH"
    using assms(2) G by (simp add: crash_delay_def max_def)
  show ?thesis
  proof (cases "c = 100")
    case True
    then show ?thesis using assms(1) d by (simp add: curve_cents_def)
  next
    case False
    with assms(2) have c: "100 < c" by simp
    have "curve_cents dt < c \<longleftrightarrow> exp (GROWTH * of_int dt) * 100 < of_int c"
      using c by (simp add: curve_cents_def floor_less_iff)
    also have "\<dots> \<longleftrightarrow> exp (GROWTH * of_int dt) < exp (ln (of_int c / 100))"
      using c by (simp add: field_simps)
    also have "\<dots> \<longleftrightarrow> of_int dt < crash_delay c"
      using G by (simp add: d pos_less_divide_eq mult.commute)
    finally show ?thesis .
  qed
qed

lemma cas_active:
  assumes "b \<in> set (db_bets w)" "b_status b = st"
  shows "fst (bet_cas w (b_id b) st f) \<noteq> 0"
  using assms by (auto simp: bet_cas_def Let_def count_where_0_iff)

lemma pay_claimed_ok: "co_ok (fst (pay_claimed ctx b m p ccy w))"
  by (auto simp: pay_claimed_def Let_def split: prod.split sum.split)

text \<open>C21. On the leader a manual cash-out of an active bet is accepted exactly while the clock is before the
  crash time, the committed start plus the time the curve takes to reach the crash point, and then at
  the curve's value, which is below the crash point.\<close>

theorem cashOut_iff_before_crash:
  assumes lead: "eg_leader e" "eg_state e = Some s" "es_phase s = Running" "es_startedAt s = Some t" "t \<noteq> 0" "t \<le> now"
    and crash: "100 \<le> es_crashPoint s"
    and row: "find_round (eg_db e) (es_roundId s) = Some r" "row_matches s r"
    and bet: "find_slot (eg_db e) (es_roundId s) u p = Some b" "b_status b = Active"
    and race: "te_race env (eg_db e) = eg_db e"
  shows "\<exists>x w'. cashOut (engine_ctx env now e) u p None (eg_db e) = (Inr x, w') \<and>
    (co_ok x \<longleftrightarrow> of_int now < of_int t + crash_delay (es_crashPoint s)) \<and>
    (co_ok x \<longrightarrow> currentMultiplier now e < es_crashPoint s)"
proof -
  let ?ctx = "engine_ctx env now e"
  have m: "currentMultiplier now e = curve_cents (now - t)"
    using lead by (simp add: currentMultiplier_def state_multiplier_def revealed_phase_def running_since_def)
  have view: "in_phase ?ctx Running = Some (es_roundId s)" and mult: "bc_mult ?ctx = curve_cents (now - t)"
    and rc: "bc_race ?ctx = te_race env"
    using lead m by (simp_all add: engine_ctx_def engine_view_of_def in_phase_def getPublicState_def)
  have b: "b \<in> set (db_bets (eg_db e))" "b_roundId b = es_roundId s" using find_slot_SomeD [OF bet(1)] by auto
  have r: "r_status r = Running" "r_crashPoint r = es_crashPoint s" using row(2) lead(3) by (simp_all add: row_matches_def)
  have gate: "curve_cents (now - t) < es_crashPoint s \<longleftrightarrow> of_int now < of_int t + crash_delay (es_crashPoint s)"
    using curve_before_crash [of "now - t" "es_crashPoint s"] lead(6) crash by auto
  let ?f = "\<lambda>b'. b'\<lparr>b_status := Cashed_out, b_cashoutMult := Some (curve_cents (now - t)),
      b_payout := cashout_payout (bc_risk ?ctx) b (curve_cents (now - t)), b_settledAt := Some (bc_now ?ctx)\<rparr>"
  obtain n w1 where cas: "bet_cas (eg_db e) (b_id b) Active ?f = (n, w1)" "n \<noteq> 0"
    using cas_active [OF b(1) bet(2), of ?f] by (cases "bet_cas (eg_db e) (b_id b) Active ?f") auto
  show ?thesis
  proof (cases "curve_cents (now - t) < es_crashPoint s")
    case True
    obtain x w2 where p: "pay_claimed ?ctx b (curve_cents (now - t)) (cashout_payout (bc_risk ?ctx) b (curve_cents (now - t)))
        (wallet_currency (eg_db e) (b_walletId b)) w1 = (x, w2)" "co_ok x"
      using pay_claimed_ok by (metis prod.collapse)
    have "cashOut ?ctx u p None (eg_db e) = (Inr x, w2)"
      using True view mult rc bet b row(1) r cas p race by (simp add: cashOut_def Let_def)
    then show ?thesis using True gate p(2) m by auto
  next
    case False
    have "cashOut ?ctx u p None (eg_db e) = (Inr (cashout_reject ''too_late'' u p), eg_db e)"
      using False view mult bet b row(1) r by (simp add: cashOut_def Let_def)
    then show ?thesis using False gate by (simp add: cashout_reject_def)
  qed
qed

section \<open>A transition that outlives its deadline\<close>

lemma find_round_settle [simp]: "find_round (snd (settleRound now i w)) j = find_round w j"
  by (rule find_round_cong) simp

lemma settle_no_active:
  "(\<forall>b \<in> set (db_bets (snd (settleRound now i w))). b_roundId b = i \<longrightarrow> b_status b \<noteq> Active)"
  by (auto simp: settleRound_def Let_def table_simps filter_empty_conv split: if_splits)

lemma settle_busts:
  assumes "b \<in> set (db_bets w)" "b_roundId b = i" "b_status b = Active"
  shows "b\<lparr>b_status := Busted, b_settledAt := Some now\<rparr> \<in> set (db_bets (snd (settleRound now i w)))"
  using assms by (auto simp: settleRound_def Let_def table_simps filter_empty_conv)

text \<open>C24. A crash transition that its deadline gave up on and that resolves late acts on the round that has
  meanwhile replaced its own: it takes over that round's timer with a settlement, and when the timer fires
  the successor's active bets are busted although it never crashed.\<close>

theorem late_crash_settles_successor:
  assumes lead: "eg_leader e" "eg_running e" and succ: "eg_state e = Some s" "es_roundId s \<noteq> i"
    and row: "find_round (eg_db e) (es_roundId s) = Some r" "r_crashedAt r = None"
    and bet: "b \<in> set (db_bets (eg_db e))" "b_roundId b = es_roundId s" "b_status b = Active"
    and env: "te_still env" "te_write env" "late + PHASE_MS Crashed \<le> te_now env"
  shows "let e' = fire env (tail Enter_crashed late i c e) in
    (\<forall>b' \<in> set (db_bets (eg_db e')). b_roundId b' = es_roundId s \<longrightarrow> b_status b' \<noteq> Active) \<and>
    b\<lparr>b_status := Busted, b_settledAt := Some (te_later env)\<rparr> \<in> set (db_bets (eg_db e')) \<and>
    (\<exists>r'. find_round (eg_db e') (es_roundId s) = Some r' \<and> r_status r' = Settling \<and> r_crashedAt r' = None)"
proof -
  let ?z = "tail Enter_crashed late i c e"
  let ?f = "\<lambda>s. s\<lparr>es_phase := Settling, es_phaseEndsAt := te_now env + PHASE_MS Settling\<rparr>"
  let ?g = "\<lambda>s r. r\<lparr>r_status := Settling, r_phaseEndsAt := Some (es_phaseEndsAt s)\<rparr>"
  have z: "eg_state ?z = Some s" "eg_db ?z = eg_db e" "eg_leader ?z" "eg_running ?z"
    "eg_timer ?z = Some (of_int late + 2500, Enter_settling)"
    using lead succ by (simp_all add: crashed_tail_def)
  have due: "\<not> of_int (te_now env) < (of_int late + 2500 :: real)" using env(3) by simp
  let ?w = "round_set (es_roundId s) (?g (?f s)) (eg_db e)"
  have "head Enter_settling env (?z\<lparr>eg_timer := None\<rparr>) =
      (?z\<lparr>eg_timer := None, eg_state := Some (?f s), eg_db := ?w\<rparr>, Proceed (es_roundId s) (es_crashPoint s))"
    using phase_head_Proceed [OF env(1,2), of "?z\<lparr>eg_timer := None\<rparr>" s ?f ?g] z row
    by (simp add: enterSettling_head_def)
  then have "eg_db (fire env ?z) = snd (settleRound (te_later env) (es_roundId s) ?w)"
    using z due by (simp add: fire_def Let_def run_transition_def settling_tail_def emit_settle_def onSettle_def)
  moreover have "db_bets ?w = db_bets (eg_db e)" by (simp add: round_set_def)
  moreover have "find_round (snd (settleRound (te_later env) (es_roundId s) ?w)) (es_roundId s) = Some (?g (?f s) r)"
    using row(1) by (simp add: find_round_round_set)
  ultimately show ?thesis
    using settle_no_active [of "te_later env" "es_roundId s" ?w] settle_busts [of b ?w "es_roundId s" "te_later env"] bet row(2)
    by (auto simp: Let_def)
qed

section \<open>A database write that fails\<close>

text \<open>When the write of a phase fails, the retry opens a fresh round beside the one it gives up: that
  round stays open in the database with its bets still active, while memory and timer belong to the new
  one, and only the next start of a leader looks at it again.\<close>

theorem failed_write_strands_round:
  assumes lead: "persisted e" "eg_state e = Some s" "es_phase s = Betting"
    and fails: "te_still env" "\<not> te_write env"
    and retry: "head Enter_waiting env2 (run_transition Enter_running env e) = (d, Proceed i c)"
    and new: "find_round (eg_db e) (te_roundId env2) = None"
  shows "let e2 = run_transition Enter_waiting env2 (run_transition Enter_running env e) in
    (\<exists>s2. eg_state e2 = Some s2 \<and> es_roundId s2 \<noteq> es_roundId s) \<and>
    (\<exists>r. find_round (eg_db e2) (es_roundId s) = Some r \<and> r_status r = Betting) \<and>
    db_bets (eg_db e2) = db_bets (eg_db e) \<and> 2 \<le> length (open_rounds (eg_db e2))"
proof -
  obtain r where r: "find_round (eg_db e) (es_roundId s) = Some r" "r_status r = Betting"
    using lead by (auto simp: persisted_def row_matches_def)
  let ?e1 = "run_transition Enter_running env e"
  have e1: "eg_db ?e1 = eg_db e"
    using lead(2) fails by (simp add: run_transition_def enterRunning_head_def phase_head_def round_write_def
        deadline_fires_def Let_def)
  note h = retry
  obtain row where d: "db_rounds (eg_db d) = db_rounds (eg_db ?e1) @ [row]" "r_id row = te_roundId env2" "r_status row = Waiting"
    "db_bets (eg_db d) = db_bets (eg_db ?e1)" "\<exists>s2. eg_state d = Some s2 \<and> es_roundId s2 = te_roundId env2"
    using h by (auto simp: enterWaiting_head_def Let_def split: if_splits prod.splits allocation.splits option.splits)
  let ?e2 = "run_transition Enter_waiting env2 ?e1"
  have e2: "db_rounds (eg_db ?e2) = db_rounds (eg_db e) @ [row]" "db_bets (eg_db ?e2) = db_bets (eg_db e)"
    "eg_state ?e2 = eg_state d"
    using h d e1 by (simp_all add: run_transition_def waiting_tail_def)
  have "find_round (eg_db ?e2) (es_roundId s) = Some r"
  proof -
    have "find P xs = Some y \<Longrightarrow> find P (xs @ zs) = Some y" for P and xs zs :: "round list" and y
      by (induction xs) auto
    then show ?thesis using r(1) e2(1) by (simp add: find_round_def)
  qed
  moreover have "es_roundId s \<noteq> te_roundId env2" using r(1) new by auto
  moreover have "2 \<le> length (open_rounds (eg_db ?e2))"
  proof -
    have "r \<in> set (filter (\<lambda>r. r_status r \<in> set OPEN_PHASES) (db_rounds (eg_db e)))"
      using find_round_SomeD [OF r(1)] r(2) by (simp add: OPEN_PHASES_def)
    then have "0 < length (filter (\<lambda>r. r_status r \<in> set OPEN_PHASES) (db_rounds (eg_db e)))"
      by (metis length_pos_if_in_set)
    then show ?thesis using e2(1) d(3) by (simp add: open_rounds_def OPEN_PHASES_def Suc_le_eq)
  qed
  ultimately show ?thesis using e2 d(5) r(2) by (auto simp: Let_def)
qed

section \<open>An automatic cash-out between the last tick and the crash\<close>

lemma find_bet_settle_busted:
  assumes "find_bet w j = Some b" "b_roundId b = i" "b_status b = Active"
  shows "find_bet (snd (settleRound now i w)) j = Some (b\<lparr>b_status := Busted, b_settledAt := Some now\<rparr>)"
proof -
  have f: "find (\<lambda>b. b_id b = j) (update_where P g bs) = map_option (\<lambda>b. if P b then g b else b) (find (\<lambda>b. b_id b = j) bs)"
    if "\<And>b. b_id (g b) = b_id b" for P and g :: "bet \<Rightarrow> bet" and bs
    by (induction bs) (auto simp: that)
  have "b \<in> set (db_bets w)" using find_bet_SomeD [OF assms(1)] by simp
  then have "filter (\<lambda>b. b_roundId b = i \<and> b_status b = Active) (db_bets w) \<noteq> []"
    using assms by (auto simp: filter_empty_conv)
  then show ?thesis using assms by (simp add: settleRound_def Let_def find_bet_def f)
qed

lemma find_bet_settle_other:
  assumes "find_bet w j = Some b" "b_status b \<noteq> Active"
  shows "find_bet (snd (settleRound now i w)) j = Some b"
proof -
  have f: "find (\<lambda>b. b_id b = j) (update_where P g bs) = map_option (\<lambda>b. if P b then g b else b) (find (\<lambda>b. b_id b = j) bs)"
    if "\<And>b. b_id (g b) = b_id b" for P and g :: "bet \<Rightarrow> bet" and bs
    by (induction bs) (auto simp: that)
  show ?thesis using assms by (simp add: settleRound_def Let_def find_bet_def f)
qed

lemma find_bet_set:
  "(\<And>b. b_id (f b) = b_id b) \<Longrightarrow> find_bet (bet_set w i f) i = map_option f (find_bet w i)"
proof -
  assume f: "\<And>b. b_id (f b) = b_id b"
  have "find (\<lambda>b. b_id b = i) (update_where (\<lambda>b. b_id b = i) f bs) = map_option f (find (\<lambda>b. b_id b = i) bs)" for bs
    by (induction bs) (auto simp: f)
  then show ?thesis by (simp add: find_bet_def bet_set_def)
qed

lemma find_bet_cas:
  assumes "find_bet w i = Some b" "b_status b = st" "\<And>b. b_id (f b) = b_id b"
  shows "find_bet (snd (bet_cas w i st f)) i = Some (f b)"
proof -
  have "find (\<lambda>b. b_id b = i) bs = Some b \<Longrightarrow>
      find (\<lambda>b. b_id b = i) (update_where (\<lambda>b. b_id b = i \<and> b_status b = st) f bs) = Some (f b)" for bs
    by (induction bs) (auto simp: assms split: if_splits)
  then show ?thesis using assms(1) by (simp add: find_bet_def bet_cas_def Let_def)
qed

lemma find_bet_cong: "db_bets w' = db_bets w \<Longrightarrow> find_bet w' i = find_bet w i"
  by (simp add: find_bet_def)

text \<open>From the crash to the end of settlement, when every write succeeds.\<close>

definition crash_and_settle :: "'o step_env \<Rightarrow> 'o engine \<Rightarrow> 'o engine" where
  "crash_and_settle env e = run_transition Enter_settling env (run_transition Enter_crashed env e)"

definition writes_ok :: "'o step_env \<Rightarrow> 'o engine \<Rightarrow> engine_state \<Rightarrow> bool" where
  "writes_ok env e s \<longleftrightarrow> te_still env \<and> te_write env \<and> te_reveal env \<and> eg_leader e \<and> eg_state e = Some s \<and>
     find_round (eg_db e) (es_roundId s) \<noteq> None \<and> (\<exists>x \<in> set (fd_seeds (eg_fair e)). fs_id x = es_seedId s)"

lemma crash_and_settle_db:
  assumes "writes_ok env e s"
  shows "\<exists>w. db_bets w = db_bets (eg_db e) \<and> eg_db (crash_and_settle env e) = snd (settleRound (te_later env) (es_roundId s) w)"
proof -
  let ?f = "\<lambda>s. s\<lparr>es_phase := Crashed, es_phaseEndsAt := te_now env + PHASE_MS Crashed\<rparr>"
  let ?g = "\<lambda>s r. r\<lparr>r_status := Crashed, r_crashedAt := Some (te_now env), r_phaseEndsAt := Some (es_phaseEndsAt s)\<rparr>"
  let ?f2 = "\<lambda>s. s\<lparr>es_phase := Settling, es_phaseEndsAt := te_now env + PHASE_MS Settling\<rparr>"
  let ?g2 = "\<lambda>s r. r\<lparr>r_status := Settling, r_phaseEndsAt := Some (es_phaseEndsAt s)\<rparr>"
  have w: "te_still env" "te_write env" "te_reveal env" "eg_leader e" "eg_state e = Some s"
    "find_round (eg_db e) (es_roundId s) \<noteq> None" using assms by (auto simp: writes_ok_def)
  obtain fd where fd: "revealSeed (te_now env) (es_seedId s) (eg_fair e) = Inr fd"
    using assms by (auto simp: writes_ok_def revealSeed_def)
  let ?w1 = "round_set (es_roundId s) (?g (?f s)) (eg_db e)"
  obtain e1 where e1_def: "run_transition Enter_crashed env e = e1" by simp
  have "head Enter_crashed env e = (e\<lparr>eg_state := Some (?f s), eg_db := ?w1, eg_fair := fd\<rparr>, Proceed (es_roundId s) (es_crashPoint s))"
    using phase_head_Proceed [OF w(1,2,5,6), of ?f ?g] fd w(3,5) by (simp add: enterCrashed_head_def)
  then have e1: "eg_state e1 = Some (?f s)" "eg_db e1 = ?w1" "eg_leader e1"
    using w(4) by (simp_all add: e1_def [symmetric] run_transition_def crashed_tail_def)
  have r: "find_round (eg_db e1) (es_roundId (?f s)) \<noteq> None" using w(6) by (simp add: e1 find_round_round_set)
  let ?w2 = "round_set (es_roundId s) (?g2 (?f2 (?f s))) ?w1"
  have "head Enter_settling env e1 = (e1\<lparr>eg_state := Some (?f2 (?f s)), eg_db := ?w2\<rparr>, Proceed (es_roundId s) (es_crashPoint s))"
    using phase_head_Proceed [OF w(1,2) e1(1) r, of ?f2 ?g2] e1(2) by (simp add: enterSettling_head_def)
  then have "eg_db (crash_and_settle env e) = snd (settleRound (te_later env) (es_roundId s) ?w2)"
    using e1(3) by (simp add: crash_and_settle_def e1_def run_transition_def [of Enter_settling] settling_tail_def
        emit_settle_def onSettle_def)
  moreover have "db_bets ?w2 = db_bets (eg_db e)" by (simp add: round_set_def)
  ultimately show ?thesis by blast
qed

context wallet_frame
begin

lemma cashOut_pays:
  assumes wal: "bc_wallet ctx = provider" and race: "bc_race ctx w = w"
    and view: "in_phase ctx Running = Some rid" and slot: "find_slot w rid u p = Some b" "b_status b = Active"
    and rnd: "find_round w rid = Some r" "r_status r = Running" "m < r_crashPoint r"
    and id: "find_bet w (b_id b) = Some b"
  shows "\<exists>x w' b'. cashOut ctx u p (Some m) w = (Inr x, w') \<and> db_rounds w' = db_rounds w \<and>
    find_bet w' (b_id b) = Some b' \<and> (b_status b' = Cashed_out \<or> b_status b' = Payout_pending) \<and>
    b_payout b' = cashout_payout (bc_risk ctx) b m"
proof -
  let ?pay = "cashout_payout (bc_risk ctx) b m"
  let ?f = "\<lambda>b'. b'\<lparr>b_status := Cashed_out, b_cashoutMult := Some m, b_payout := ?pay, b_settledAt := Some (bc_now ctx)\<rparr>"
  have b: "b \<in> set (db_bets w)" "b_roundId b = rid" using find_slot_SomeD [OF slot(1)] by auto
  obtain n w1 where cas: "bet_cas w (b_id b) Active ?f = (n, w1)" by fastforce
  have n: "n \<noteq> 0" using cas_active [OF b(1) slot(2), of ?f] cas by simp
  have w1: "find_bet w1 (b_id b) = Some (?f b)" "db_rounds w1 = db_rounds w"
    using find_bet_cas [OF id slot(2), of ?f] cas by (auto simp: bet_cas_def Let_def)
  obtain res w2 where cr: "wp_credit provider (b_walletId b) ?pay Payout_credit (payoutKey (b_id b)) (Some (bet_ref (b_id b))) w1 = (res, w2)"
    by fastforce
  have w2: "find_bet w2 (b_id b) = Some (?f b)" "db_rounds w2 = db_rounds w"
    using credit_frame [OF cr] w1 find_bet_cong [of w2 w1] by (simp_all add: game_same_def)
  have c: "cashOut ctx u p (Some m) w =
      (case pay_claimed ctx b m ?pay (wallet_currency w (b_walletId b)) w1 of (r, w2) \<Rightarrow> (Inr r, w2))"
    using view slot rnd race b cas n by (simp add: cashOut_def Let_def)
  show ?thesis
  proof (cases res)
    case (Inl x)
    let ?g = "\<lambda>b. b\<lparr>b_status := Payout_pending\<rparr>"
    have "find_bet (bet_set w2 (b_id b) ?g) (b_id b) = Some (?g (?f b))"
      using w2(1) by (simp add: find_bet_set)
    then show ?thesis using c cr Inl wal w2(2) by (auto simp: pay_claimed_def Let_def bet_set_def)
  next
    case (Inr tx)
    let ?g = "\<lambda>b. b\<lparr>b_payoutTxId := Some (tx_id tx)\<rparr>"
    have "find_bet (bet_set w2 (b_id b) ?g) (b_id b) = Some (?g (?f b))"
      using w2(1) by (simp add: find_bet_set)
    then have "find_bet (add_loot (b_userId b) ?pay m (bet_set w2 (b_id b) ?g)) (b_id b) = Some (?g (?f b))"
      by (simp add: add_loot_def find_bet_def)
    then show ?thesis using c cr Inr wal w2(2) by (auto simp: pay_claimed_def Let_def add_loot_def bet_set_def)
  qed
qed

end

text \<open>An automatic cash-out whose target lies between the multiplier of the last tick and the crash
  point loses in the live loop, which settles without a last evaluation, and wins when a survivor finishes
  the same round, because the resume path evaluates the targets at the crash point first: the outcome of
  the bet depends on whether the leader died.\<close>

theorem late_auto_depends_on_failover:
  assumes frame: "wallet_frame (te_wallet env)" and race: "\<And>w. te_race env w = w"
    and ok: "writes_ok env e s" and run: "es_phase s = Running"
    and row: "find_round (eg_db e) (es_roundId s) = Some r" "row_matches s r"
    and bet: "find_slot (eg_db e) (es_roundId s) (b_userId b) (b_panel b) = Some b" "b_status b = Active"
      "find_bet (eg_db e) (b_id b) = Some b"
    and target: "b_autoCashout b = Some a" "a < es_crashPoint s"
    and tick: "auto_due (eg_db e) (es_roundId s) m = []"
    and late: "auto_due (eg_db e) (es_roundId s) (es_crashPoint s) = [b]"
  shows "\<exists>lost won.
    find_bet (eg_db (crash_and_settle env (autoCashoutDriver env now m e))) (b_id b) = Some lost \<and> b_status lost = Busted \<and>
    find_bet (eg_db (crash_and_settle env (autoCashoutDriver env now (es_crashPoint s) e))) (b_id b) = Some won \<and>
    (b_status won = Cashed_out \<or> b_status won = Payout_pending) \<and> b_payout won = cashout_payout (te_risk env) b a"
proof -
  let ?ctx = "engine_ctx env now e"
  have lead: "eg_leader e" "eg_state e = Some s" using ok by (auto simp: writes_ok_def)
  have view: "in_phase ?ctx Running = Some (es_roundId s)" and wal: "bc_wallet ?ctx = te_wallet env"
    and rc: "\<And>w. bc_race ?ctx w = w" and rl: "bc_risk ?ctx = te_risk env"
    using lead run race by (simp_all add: engine_ctx_def engine_view_of_def in_phase_def getPublicState_def)
  have b: "b_roundId b = es_roundId s" using find_slot_SomeD [OF bet(1)] by simp
  have live: "autoCashoutDriver env now m e = e"
    using view tick by (simp add: autoCashoutDriver_def evaluateAutoCashouts_def)
  obtain w where w: "db_bets w = db_bets (eg_db e)"
      "eg_db (crash_and_settle env e) = snd (settleRound (te_later env) (es_roundId s) w)"
    using crash_and_settle_db [OF ok] by blast
  have lost: "find_bet (eg_db (crash_and_settle env (autoCashoutDriver env now m e))) (b_id b) =
      Some (b\<lparr>b_status := Busted, b_settledAt := Some (te_later env)\<rparr>)"
    unfolding live w(2) using bet b w(1) by (intro find_bet_settle_busted) (simp_all add: find_bet_def)
  have r: "r_status r = Running" "a < r_crashPoint r" using row(2) run target by (simp_all add: row_matches_def)
  obtain x w1 b1 where p: "cashOut ?ctx (b_userId b) (b_panel b) (Some a) (eg_db e) = (Inr x, w1)"
      "db_rounds w1 = db_rounds (eg_db e)" "find_bet w1 (b_id b) = Some b1"
      "b_status b1 = Cashed_out \<or> b_status b1 = Payout_pending" "b_payout b1 = cashout_payout (te_risk env) b a"
    using wallet_frame.cashOut_pays [OF frame wal rc view bet(1,2) row(1) r bet(3)] rl by auto
  let ?d = "autoCashoutDriver env now (es_crashPoint s) e"
  have d: "?d = e\<lparr>eg_db := w1\<rparr>"
    using view late p(1) target(1) by (simp add: autoCashoutDriver_def evaluateAutoCashouts_def auto_step_def)
  have "writes_ok env ?d s"
    using ok p(2) find_round_cong [of w1 "eg_db e"] by (simp add: writes_ok_def d)
  then obtain w2 where w2: "db_bets w2 = db_bets w1"
      "eg_db (crash_and_settle env ?d) = snd (settleRound (te_later env) (es_roundId s) w2)"
    using crash_and_settle_db [of env ?d s] by (auto simp: d)
  have "find_bet (eg_db (crash_and_settle env ?d)) (b_id b) = Some b1"
    unfolding w2(2) using p(3,4) w2(1) by (intro find_bet_settle_other) (auto simp: find_bet_def)
  with lost p(4,5) show ?thesis by auto
qed

end
