(* ===== verification/VR_EngineFailover.thy ===== *)
theory VR_EngineFailover
  imports VR_EngineLoop
begin

text \<open>
  Failover: a survivor resumes the state its dead predecessor had, closes every other open round, and
  finishes a crash that fell into the gap.
\<close>

section \<open>What recovery leaves alone\<close>

context wallet_frame
begin

lemma wallet_rounds:
  "wp_reverse provider i ps w = (x, w') \<Longrightarrow> db_rounds w' = db_rounds w"
  "wp_credit provider i a t k r w = (y, w') \<Longrightarrow> db_rounds w' = db_rounds w"
  "wp_rollback provider i k' r w = (z, w') \<Longrightarrow> db_rounds w' = db_rounds w"
  using reverse_frame credit_frame exec_frame [of w i "WRollback k' r"] by (auto simp: game_same_def)

lemma release_slot_rounds: "db_rounds (snd (release_slot provider now b st)) = db_rounds (snd st)"
  by (cases st)
    (auto simp: release_slot_def bet_delete_def bet_set_def split: prod.splits sum.splits option.splits,
      (metis wallet_rounds)+)

lemma recover_slot_rounds:
  "(\<And>w. db_rounds (race w) = db_rounds w) \<Longrightarrow>
   db_rounds (snd (recover_slot provider race now b st)) = db_rounds (snd st)"
  by (cases st) (auto simp: recover_slot_def release_slot_rounds bet_cas_def Let_def split: prod.splits)

lemma recoverReservingBets_rounds:
  assumes "\<And>w. db_rounds (race w) = db_rounds w"
  shows "db_rounds (snd (recoverReservingBets provider race now age w)) = db_rounds w"
proof -
  have "db_rounds (snd (fold (recover_slot provider race now) bs st)) = db_rounds (snd st)" for bs st
    by (induction bs arbitrary: st) (simp_all add: recover_slot_rounds assms)
  then show ?thesis by (simp add: recoverReservingBets_def)
qed

lemma close_bet_rounds: "db_rounds (close_bet provider now b w) = db_rounds w"
  by (auto simp: close_bet_def bet_set_def dest: wallet_rounds split: prod.splits sum.splits)

lemma closeAndRefundRound_rounds:
  "db_rounds (closeAndRefundRound provider now i w) =
     update_where (\<lambda>r. r_id r = i) (\<lambda>r. r\<lparr>r_status := Completed, r_settledAt := Some now\<rparr>) (db_rounds w)"
proof -
  have "db_rounds (fold (close_bet provider now) bs w) = db_rounds w" for bs
    by (induction bs arbitrary: w) (simp_all add: close_bet_rounds)
  then show ?thesis by (simp add: closeAndRefundRound_def round_set_def)
qed

lemma auto_rounds:
  assumes "\<And>w. db_rounds (bc_race ctx w) = db_rounds w" and "bc_wallet ctx = provider"
  shows "db_rounds (snd (evaluateAutoCashouts ctx m w)) = db_rounds w"
proof -
  have pay: "db_rounds (snd (pay_claimed ctx bet mult payout ccy v)) = db_rounds v" for bet mult payout ccy v
    using assms(2) by (auto simp: pay_claimed_def Let_def bet_set_def add_loot_def split: prod.splits sum.splits)
      (metis wallet_rounds)+
  have cash: "db_rounds (snd (cashOut ctx u p a v)) = db_rounds v" for u p a v
  proof -
    have c: "bet_cas (bc_race ctx v) i st f = (n, v') \<Longrightarrow> db_rounds v' = db_rounds v" for i st f n v'
      using assms(1) [of v] by (auto simp: bet_cas_def Let_def)
    show ?thesis
      by (auto simp: cashOut_def Let_def split: option.split prod.splits) (metis c pay snd_conv)+
  qed
  have "db_rounds (snd (fold (auto_step ctx) bs st)) = db_rounds (snd st)" for bs st
  proof (induction bs arbitrary: st)
    case (Cons b bs)
    have "db_rounds (snd (auto_step ctx b st)) = db_rounds (snd st)"
      using cash [of "b_userId b" "b_panel b" "b_autoCashout b" "snd st"]
      by (cases st) (auto simp: auto_step_def split: prod.splits sum.splits)
    with Cons show ?case by simp
  qed simp
  then show ?thesis by (simp add: evaluateAutoCashouts_def split: option.split)
qed

end

section \<open>Closing what is still open\<close>

text \<open>The effect on the round rows of closing a set of rounds: those are completed, the rest unchanged.\<close>

definition closes :: "uid set \<Rightarrow> 'o world \<Rightarrow> 'o world \<Rightarrow> bool" where
  "closes I w w' \<longleftrightarrow>
     (\<exists>F. db_rounds w' = map F (db_rounds w) \<and>
        (\<forall>r. r_id (F r) = r_id r) \<and> (\<forall>r. r_id r \<in> I \<longrightarrow> r_status (F r) = Completed) \<and>
        (\<forall>r. r_id r \<notin> I \<longrightarrow> F r = r))"

lemma closes_trans: "closes I u v \<Longrightarrow> closes J v w \<Longrightarrow> closes (I \<union> J) u w"
proof -
  assume "closes I u v" "closes J v w"
  then obtain F G where F: "db_rounds v = map F (db_rounds u)" "\<And>r. r_id (F r) = r_id r"
      "\<And>r. r_id r \<in> I \<Longrightarrow> r_status (F r) = Completed" "\<And>r. r_id r \<notin> I \<Longrightarrow> F r = r"
    and G: "db_rounds w = map G (db_rounds v)" "\<And>r. r_id (G r) = r_id r"
      "\<And>r. r_id r \<in> J \<Longrightarrow> r_status (G r) = Completed" "\<And>r. r_id r \<notin> J \<Longrightarrow> G r = r"
    unfolding closes_def by blast
  have "r_status (G (F r)) = Completed" if "r_id r \<in> I \<union> J" for r
    using that F(2,3) G(3,4) by (cases "r_id r \<in> J") auto
  with F G show "closes (I \<union> J) u w"
    unfolding closes_def by (intro exI [where x = "\<lambda>r. G (F r)"]) (simp add: comp_def)
qed

lemma closesD:
  "closes I w w' \<Longrightarrow> x \<in> set (db_rounds w') \<Longrightarrow>
   \<exists>y \<in> set (db_rounds w). r_id x = r_id y \<and> (r_id y \<in> I \<longrightarrow> r_status x = Completed) \<and> (r_id y \<notin> I \<longrightarrow> x = y)"
proof -
  assume "closes I w w'" "x \<in> set (db_rounds w')"
  then obtain F where F: "db_rounds w' = map F (db_rounds w)" "\<forall>r. r_id (F r) = r_id r"
    "\<forall>r. r_id r \<in> I \<longrightarrow> r_status (F r) = Completed" "\<forall>r. r_id r \<notin> I \<longrightarrow> F r = r" and x: "x \<in> set (db_rounds w')"
    unfolding closes_def by blast
  then obtain y where "y \<in> set (db_rounds w)" "x = F y" by auto
  with F show ?thesis by (intro bexI [where x = y]) auto
qed

lemma closes_refl: "db_rounds w' = db_rounds w \<Longrightarrow> closes {} w w'"
  unfolding closes_def by (intro exI [where x = id]) simp

lemma closes_update:
  assumes "db_rounds w' = update_where (\<lambda>r. r_id r = i) f (db_rounds w)"
    and "\<And>r. r_id (f r) = r_id r" "\<And>r. r_status (f r) = Completed"
  shows "closes {i} w w'"
  unfolding closes_def using assms
  by (intro exI [where x = "\<lambda>r. if r_id r = i then f r else r"]) (simp add: update_where_def)

context wallet_frame
begin

lemma closeAndRefundRound_closes: "closes {i} w (closeAndRefundRound provider now i w)"
  by (rule closes_update [OF closeAndRefundRound_rounds]) auto

lemma closeStaleExtra_closes: "closes {r_id r} w (closeStaleExtra provider now r w)"
proof (cases "post_outcome (r_status r)")
  case True
  let ?f = "\<lambda>x. (if r_crashedAt r = None \<and> r_crashedAt x = None then x\<lparr>r_crashedAt := Some now\<rparr> else x)
    \<lparr>r_status := Completed, r_settledAt := Some now\<rparr>"
  have "db_rounds (closeStaleExtra provider now r w) = update_where (\<lambda>x. r_id x = r_id r) ?f (db_rounds w)"
    using True by (auto simp: closeStaleExtra_def post_outcome_def Let_def round_set_def update_where_def)
  then show ?thesis by (rule closes_update) auto
next
  case False
  then have "closeStaleExtra provider now r w = closeAndRefundRound provider now (r_id r) w"
    by (auto simp: closeStaleExtra_def post_outcome_def)
  then show ?thesis by (simp add: closeAndRefundRound_closes)
qed

lemma close_stale_fold:
  assumes "te_wallet env = provider"
  shows "closes (r_id ` set rs) (eg_db e) (eg_db (fold (close_stale env) rs e))"
proof (induction rs arbitrary: e)
  case Nil
  then show ?case by (simp add: closes_refl)
next
  case (Cons r rs)
  have "closes {r_id r} (eg_db e) (eg_db (close_stale env r e))"
    using assms closeStaleExtra_closes by (auto simp: close_stale_def Let_def)
  from closes_trans [OF this Cons.IH] show ?case by simp
qed

end

lemma close_stale_sel [simp]:
  "eg_state (fold (close_stale env) rs e) = eg_state e" "eg_running (fold (close_stale env) rs e) = eg_running e"
  "eg_leader (fold (close_stale env) rs e) = eg_leader e"
  by (induction rs arbitrary: e) (auto simp: close_stale_def Let_def)

section \<open>Resuming one round\<close>

definition only_round :: "uid \<Rightarrow> 'o world \<Rightarrow> 'o world \<Rightarrow> bool" where
  "only_round i w w' \<longleftrightarrow> (\<forall>r \<in> set (db_rounds w'). r_id r \<noteq> i \<longrightarrow> r \<in> set (db_rounds w))"

lemma only_round_same: "db_rounds w' = db_rounds w \<Longrightarrow> only_round i w w'"
  by (simp add: only_round_def)

lemma only_round_refl [simp]: "only_round i w w"
  by (simp add: only_round_def)

lemma only_round_trans: "only_round i u v \<Longrightarrow> only_round i v w \<Longrightarrow> only_round i u w"
  unfolding only_round_def by blast

lemma only_round_update:
  "(\<And>r. r_id (f r) = r_id r) \<Longrightarrow> db_rounds w' = update_where (\<lambda>r. r_id r = i \<and> P r) f (db_rounds w) \<Longrightarrow> only_round i w w'"
  unfolding only_round_def by (auto simp: table_simps)

lemma only_round_set: "(\<And>r. r_id (f r) = r_id r) \<Longrightarrow> only_round i w (round_set i f w)"
  by (rule only_round_update [where P = "\<lambda>_. True"]) (simp_all add: round_set_def)

lemma only_round_backfill: "only_round i w (backfill_crashedAt n i w)"
  unfolding backfill_crashedAt_def
  by (rule only_round_update [where P = "\<lambda>r. r_crashedAt r = None" and f = "\<lambda>r. r\<lparr>r_crashedAt := Some n\<rparr>"]) simp_all

text \<open>What resuming keeps: the round in memory, and every other row.\<close>

definition resumed_as :: "uid \<Rightarrow> 'o engine \<Rightarrow> 'o engine \<Rightarrow> bool" where
  "resumed_as i e e' \<longleftrightarrow> (\<exists>s. eg_state e' = Some s \<and> es_roundId s = i) \<and> only_round i (eg_db e) (eg_db e')"

lemma crashed_bare_resumed:
  assumes "eg_state e = Some s" and "es_roundId s = i"
  shows "resumed_as i e (run_bare Enter_crashed env e)"
proof -
  have p: "only_round i (eg_db e) (eg_db e1) \<and> (\<exists>s'. eg_state e1 = Some s' \<and> es_roundId s' = i)"
    if h: "enterCrashed_head env e = (e1, r)" for e1 r
    using h assms
    by (auto simp: enterCrashed_head_def phase_head_def round_write_def Let_def stop_def
        intro!: only_round_set split: if_splits option.splits sum.splits)
  obtain e1 r where h: "enterCrashed_head env e = (e1, r)" by fastforce
  have "eg_state (tail Enter_crashed n j c e1) = eg_state e1" "db_rounds (eg_db (tail Enter_crashed n j c e1)) = db_rounds (eg_db e1)" for n j c
    using tail_frame [of Enter_crashed n j c e1] by auto
  then show ?thesis
    using p [OF h] h unfolding resumed_as_def run_bare_def
    by (cases r) (auto intro: only_round_trans [OF _ only_round_same])
qed

context wallet_frame
begin

lemma driver_frame:
  assumes "te_wallet env = provider" "\<And>w. db_rounds (te_race env w) = db_rounds w"
  shows "eg_state (autoCashoutDriver env n m e) = eg_state e \<and> db_rounds (eg_db (autoCashoutDriver env n m e)) = db_rounds (eg_db e)"
proof -
  have "db_rounds (snd (evaluateAutoCashouts (engine_ctx env n e) m (eg_db e))) = db_rounds (eg_db e)"
    by (rule auto_rounds) (simp_all add: engine_ctx_def assms)
  then show ?thesis by (simp add: autoCashoutDriver_def)
qed

lemma resume_running_resumed:
  assumes env: "te_wallet env = provider" "\<And>w. db_rounds (te_race env w) = db_rounds w"
    and s: "eg_state e = Some s0" "es_roundId s0 = i"
  shows "resumed_as i e (resume_running env s t e)"
proof -
  let ?d = "if te_driver env then autoCashoutDriver env (te_later env) (es_crashPoint s) e else e"
  have d: "eg_state ?d = Some s0" "db_rounds (eg_db ?d) = db_rounds (eg_db e)"
    using driver_frame [OF env] s by auto
  have "only_round i (eg_db e) (eg_db (run_bare Enter_crashed env ?d))"
    using crashed_bare_resumed [OF d(1) s(2), of env] only_round_trans [OF only_round_same [OF d(2)]]
    by (auto simp: resumed_as_def)
  then show ?thesis
    using crashed_bare_resumed [OF d(1) s(2), of env] s
    by (auto simp: resume_running_def resumed_as_def Let_def stop_def intro: only_round_same)
qed

lemma resumeRound_resumed:
  assumes env: "te_wallet env = provider" "\<And>w. db_rounds (te_race env w) = db_rounds w"
    and r: "unresumableReason (te_now env) r = None" "r_status r \<in> set OPEN_PHASES"
  shows "resumed_as (r_id r) e (resumeRound env r e)"
proof -
  obtain ends where ends: "r_phaseEndsAt r = Some ends"
    using r(1) by (auto simp: unresumableReason_def split: if_splits option.splits)
  let ?s = "state_of_round r ends"
  let ?e1 = "emitPhase (te_later env) (r_status r) (mirror (te_now env) (e\<lparr>eg_state := Some ?s\<rparr>))"
  have id: "es_roundId ?s = r_id r" by (simp add: state_of_round_def)
  show ?thesis
  proof (cases "r_status r")
    case Running
    then obtain t where t: "r_startedAt r = Some t"
      using r(1) by (auto simp: unresumableReason_def post_outcome_def split: if_splits option.splits)
    have "resumed_as (r_id r) ?e1 (resume_running env ?s t ?e1)"
      by (rule resume_running_resumed [OF env]) (simp, rule id)
    with Running t ends show ?thesis by (simp add: resumeRound_def Let_def resumed_as_def)
  next
    case Crashed
    then show ?thesis
      using ends id
      by (auto simp: resumeRound_def resume_crashed_def Let_def resumed_as_def only_round_backfill split: sum.split)
  qed (use ends id r(2) in \<open>auto simp: resumeRound_def Let_def resumed_as_def OPEN_PHASES_def intro!: only_round_same\<close>)
qed

end

section \<open>Properties\<close>

lemma completed_not_open: "Completed \<notin> set OPEN_PHASES"
  by (simp add: OPEN_PHASES_def)

text \<open>Once the stale rounds are closed, only the candidate can be open.\<close>

lemma only_candidate_open:
  assumes frame: "wallet_frame (te_wallet env)" and op: "open_rounds (eg_db e) = c # stale"
    and x: "x \<in> set (db_rounds (eg_db (fold (close_stale env) stale e)))" "r_status x \<in> set OPEN_PHASES"
  shows "r_id x = r_id c"
proof -
  have cl: "closes (r_id ` set stale) (eg_db e) (eg_db (fold (close_stale env) stale e))"
    by (rule wallet_frame.close_stale_fold [OF frame refl])
  have "set (open_rounds (eg_db e)) = set (c # stale)" using op by simp
  then have opened: "y \<in> set (db_rounds (eg_db e)) \<Longrightarrow> r_status y \<in> set OPEN_PHASES \<Longrightarrow> y = c \<or> y \<in> set stale" for y
    by (auto simp: open_rounds_def)
  obtain y where "y \<in> set (db_rounds (eg_db e))" "r_id y \<in> r_id ` set stale \<longrightarrow> r_status x = Completed"
    "r_id y \<notin> r_id ` set stale \<longrightarrow> x = y"
    using closesD [OF cl x(1)] by blast
  then show ?thesis using opened [of y] x(2) completed_not_open by (metis image_eqI)
qed

text \<open>C19. Whatever rounds a dead leader or a split brain left open, after the recovery of a new leader
  at most one round is open, and it is the one the loop resumed.\<close>

theorem resume_leaves_one_open:
  assumes frame: "wallet_frame (te_wallet env)" and race: "\<And>w. db_rounds (te_race env w) = db_rounds w"
    and res: "resumeOrRecover env e = (resumed, e')"
    and r: "r \<in> set (db_rounds (eg_db e'))" "r_status r \<in> set OPEN_PHASES"
  shows "resumed \<and> (\<exists>s. eg_state e' = Some s \<and> es_roundId s = r_id r)"
proof -
  let ?e1 = "e\<lparr>eg_db := snd (recoverReservingBets (te_wallet env) (te_race env) (te_now env) 0 (eg_db e))\<rparr>"
  show ?thesis
  proof (cases "open_rounds (eg_db ?e1)")
    case Nil
    then show ?thesis using res r by (auto simp: resumeOrRecover_def Let_def open_rounds_def filter_empty_conv)
  next
    case (Cons c stale)
    let ?e2 = "fold (close_stale env) stale ?e1"
    note e2 = only_candidate_open [OF frame Cons]
    have "c \<in> set (open_rounds (eg_db ?e1))" using Cons by simp
    then have c: "r_status c \<in> set OPEN_PHASES" by (simp add: open_rounds_def)
    show ?thesis
    proof (cases "unresumableReason (te_now env) c")
      case None
      have e': "resumed" "e' = resumeRound env c ?e2" using res Cons None by (simp_all add: resumeOrRecover_def Let_def)
      have "resumed_as (r_id c) ?e2 e'"
        unfolding e'(2) by (rule wallet_frame.resumeRound_resumed [OF frame refl race None c])
      then show ?thesis using e' e2 r unfolding resumed_as_def only_round_def by metis
    next
      case (Some u)
      have e': "e' = ?e2\<lparr>eg_db := closeAndRefundRound (te_wallet env) (te_now env) (r_id c) (eg_db ?e2)\<rparr>"
        using res Cons Some by (simp add: resumeOrRecover_def Let_def)
      have "closes {r_id c} (eg_db ?e2) (eg_db e')"
        unfolding e' using wallet_frame.closeAndRefundRound_closes [OF frame] by simp
      then obtain y where "y \<in> set (db_rounds (eg_db ?e2))" "r_id y = r_id c \<longrightarrow> r_status r = Completed"
        "r_id y \<noteq> r_id c \<longrightarrow> r = y"
        using closesD [OF _ r(1)] by blast
      then show ?thesis using e2 [of y] r(2) completed_not_open by metis
    qed
  qed
qed

lemma open_rounds_cong: "db_rounds w' = db_rounds w \<Longrightarrow> open_rounds w' = open_rounds w"
  by (simp add: open_rounds_def)

lemma matching_row_resumable:
  assumes m: "row_matches s r" and crash: "100 \<le> es_crashPoint s" and seed: "es_seedId s \<noteq> []"
    and fresh: "now - es_phaseEndsAt s \<le> RESUME_MAX_STALENESS_MS"
    and started: "post_outcome (es_phase s) \<longrightarrow> es_startedAt s \<noteq> None"
  shows "unresumableReason now r = None"
proof -
  have "r_phaseEndsAt r = Some (es_phaseEndsAt s)" "r_seedId r = es_seedId s" "r_crashPoint r = es_crashPoint s"
    "r_status r = es_phase s" "r_startedAt r = es_startedAt s"
    using m by (simp_all add: row_matches_def)
  then show ?thesis using assms by (simp add: unresumableReason_def)
qed

lemma state_of_matching_round: "row_matches s r \<Longrightarrow> state_of_round r (es_phaseEndsAt s) = s"
  by (cases s) (simp add: row_matches_def state_of_round_def)

lemma resumeRound_restores:
  assumes m: "row_matches s r" and ph: "es_phase s \<noteq> Completed"
    and started: "post_outcome (es_phase s) \<longrightarrow> es_startedAt s \<noteq> None"
    and gap: "es_phase s = Running \<Longrightarrow> \<exists>t. es_startedAt s = Some t \<and>
        of_int (te_now env) < of_int t + crash_delay (es_crashPoint s)"
    and clock: "te_now env \<le> te_later env"
    and seed: "es_phase s = Crashed \<Longrightarrow> \<exists>x \<in> set (fd_seeds (eg_fair e)). fs_id x = es_seedId s"
  shows "eg_state (resumeRound env r e) = Some s \<and>
    (\<exists>due. eg_timer (resumeRound env r e) = Some (due, next_of (es_phase s)) \<and> not_early s due)"
proof -
  have row: "r_phaseEndsAt r = Some (es_phaseEndsAt s)" "state_of_round r (es_phaseEndsAt s) = s"
    using m state_of_matching_round by (auto simp: row_matches_def)
  have f: "r_status r = es_phase s" "r_startedAt r = es_startedAt s" "r_id r = es_roundId s" "r_crashPoint r = es_crashPoint s"
    using m by (simp_all add: row_matches_def)
  show ?thesis
  proof (cases "es_phase s")
    case Running
    then obtain t where t: "es_startedAt s = Some t" "of_int (te_now env) < of_int t + crash_delay (es_crashPoint s)"
      using gap by blast
    with Running clock show ?thesis
      by (simp add: resumeRound_def row f resume_running_def not_early_def Let_def)
  next
    case Crashed
    then obtain fd where fd: "revealSeed (te_now env) (es_seedId s) (eg_fair e) = Inr fd"
      using seed by (auto simp: revealSeed_def)
    with Crashed show ?thesis by (simp add: resumeRound_def row f resume_crashed_def not_early_def Let_def)
  qed (use ph in \<open>simp_all add: resumeRound_def row f not_early_def Let_def\<close>)
qed

end
