(* ===== verification/VR_Election.thy ===== *)
theory VR_Election
  imports VR_Prelude
begin

text \<open>
  Leader election, \<open>src/ha/election.service.ts\<close> over \<open>src/ha/pg-advisory-lock.ts\<close>: a PostgreSQL session
  advisory lock on a dedicated connection decides who leads, and a fence number that every acquisition
  increments tells a stale leader from the current one.

  \<open>cluster\<close> is the database side (the fence row, the lock with its holder's session and re-entrancy count,
  the sessions that are alive) with the nodes that share it. A tick of the poller is three steps, because
  other nodes act between its two queries and its promotion: \<open>tick_lock\<close> (\<open>pg_try_advisory_lock\<close>),
  \<open>tick_bump\<close> (the fence update) and \<open>promote_node\<close>; \<open>cl_ticks\<close> holds the ticks under way. A query fails
  when its session is dead; \<open>session_lost\<close> is PostgreSQL ending a session. The Redis lease mirrors the
  fence for display only and is not modelled, nor is \<open>stripPrismaParams\<close>.
\<close>

section \<open>State\<close>

record elect_node =
  en_leader :: bool
  en_fence :: "nat option"
  en_client :: "nat option"
  en_stopped :: bool
  en_polling :: bool
  en_beating :: bool
  en_participates :: bool

datatype tick_stage = Locked | Bumped nat

datatype election_event = Leader_acquired nat nat | Leader_lost nat

record cluster =
  cl_fence :: nat
  cl_holder :: "(nat \<times> nat) option"
  cl_alive :: "nat list"
  cl_nextSession :: nat
  cl_nodes :: "nat \<Rightarrow> elect_node"
  cl_ticks :: "(nat \<times> tick_stage) list"
  cl_events :: "election_event list"

definition set_node :: "nat \<Rightarrow> (elect_node \<Rightarrow> elect_node) \<Rightarrow> cluster \<Rightarrow> cluster" where
  "set_node n f c = c\<lparr>cl_nodes := (cl_nodes c)(n := f (cl_nodes c n))\<rparr>"

definition session_of :: "cluster \<Rightarrow> nat \<Rightarrow> nat option" where
  "session_of c n = (case en_client (cl_nodes c n) of
     None \<Rightarrow> None | Some s \<Rightarrow> if s \<in> set (cl_alive c) then Some s else None)"

section \<open>The lock\<close>

text \<open>\<open>conn\<close>: the connection in hand, dead or alive, else a new session when the database answers.\<close>

definition conn :: "bool \<Rightarrow> nat \<Rightarrow> cluster \<Rightarrow> cluster" where
  "conn reachable n c =
     (if en_client (cl_nodes c n) = None \<and> reachable
      then set_node n (\<lambda>x. x\<lparr>en_client := Some (cl_nextSession c)\<rparr>)
             (c\<lparr>cl_alive := cl_nextSession c # cl_alive c, cl_nextSession := Suc (cl_nextSession c)\<rparr>)
      else c)"

definition pg_try_advisory_lock :: "nat \<Rightarrow> cluster \<Rightarrow> bool \<times> cluster" where
  "pg_try_advisory_lock s c =
     (case cl_holder c of
        None \<Rightarrow> (True, c\<lparr>cl_holder := Some (s, 1)\<rparr>)
      | Some (h, depth) \<Rightarrow> if h = s then (True, c\<lparr>cl_holder := Some (s, Suc depth)\<rparr>) else (False, c))"

definition pg_advisory_unlock :: "nat \<Rightarrow> cluster \<Rightarrow> cluster" where
  "pg_advisory_unlock s c =
     (case cl_holder c of
        Some (h, depth) \<Rightarrow>
          if h = s then c\<lparr>cl_holder := if depth \<le> 1 then None else Some (s, depth - 1)\<rparr> else c
      | None \<Rightarrow> c)"

text \<open>PostgreSQL ends a session: its advisory locks go with it.\<close>

definition session_lost :: "nat \<Rightarrow> cluster \<Rightarrow> cluster" where
  "session_lost s c =
     c\<lparr>cl_alive := removeAll s (cl_alive c),
       cl_holder := (case cl_holder c of Some (h, d) \<Rightarrow> if h = s then None else Some (h, d) | None \<Rightarrow> None)\<rparr>"

definition close_conn :: "nat \<Rightarrow> cluster \<Rightarrow> cluster" where
  "close_conn n c =
     (case en_client (cl_nodes c n) of
        None \<Rightarrow> c
      | Some s \<Rightarrow> set_node n (\<lambda>x. x\<lparr>en_client := None\<rparr>) (session_lost s c))"

definition release :: "nat \<Rightarrow> cluster \<Rightarrow> cluster" where
  "release n c = (case session_of c n of None \<Rightarrow> c | Some s \<Rightarrow> pg_advisory_unlock s c)"

section \<open>Becoming leader\<close>

definition tick_lock :: "bool \<Rightarrow> nat \<Rightarrow> cluster \<Rightarrow> cluster" where
  "tick_lock reachable n c =
     (if en_stopped (cl_nodes c n) \<or> en_leader (cl_nodes c n) then c
      else let c1 = conn reachable n c
           in case session_of c1 n of
                None \<Rightarrow> c1
              | Some s \<Rightarrow>
                  (case pg_try_advisory_lock s c1 of
                     (False, c2) \<Rightarrow> c2
                   | (True, c2) \<Rightarrow> c2\<lparr>cl_ticks := (n, Locked) # cl_ticks c2\<rparr>))"

text \<open>The fence update of a tick that holds the lock; a dead session makes it throw and the tick ends.\<close>

definition tick_bump :: "nat \<Rightarrow> cluster \<Rightarrow> cluster" where
  "tick_bump n c =
     (if (n, Locked) \<in> set (cl_ticks c)
      then let c1 = c\<lparr>cl_ticks := remove1 (n, Locked) (cl_ticks c)\<rparr>
           in case session_of c n of
                None \<Rightarrow> c1
              | Some s \<Rightarrow> c1\<lparr>cl_fence := Suc (cl_fence c), cl_ticks := (n, Bumped (Suc (cl_fence c))) # cl_ticks c1\<rparr>
      else c)"

definition promote_node :: "nat \<Rightarrow> nat \<Rightarrow> cluster \<Rightarrow> cluster" where
  "promote_node n f c =
     (set_node n (\<lambda>x. x\<lparr>en_leader := True, en_fence := Some f, en_polling := False,
                        en_beating := (en_beating x \<or> \<not> en_stopped x)\<rparr>) c)
       \<lparr>cl_events := Leader_acquired n f # cl_events c\<rparr>"

definition tick_promote :: "nat \<Rightarrow> nat \<Rightarrow> cluster \<Rightarrow> cluster" where
  "tick_promote n f c =
     (if (n, Bumped f) \<in> set (cl_ticks c)
      then promote_node n f (c\<lparr>cl_ticks := remove1 (n, Bumped f) (cl_ticks c)\<rparr>) else c)"

text \<open>One undisturbed tick.\<close>

definition tick :: "bool \<Rightarrow> nat \<Rightarrow> cluster \<Rightarrow> cluster" where
  "tick reachable n c =
     (let c1 = tick_bump n (tick_lock reachable n c) in tick_promote n (cl_fence c1) c1)"

section \<open>Losing leadership\<close>

definition demote :: "nat \<Rightarrow> cluster \<Rightarrow> cluster" where
  "demote n c =
     (if \<not> en_leader (cl_nodes c n) then c
      else close_conn n
        ((set_node n (\<lambda>x. x\<lparr>en_leader := False, en_fence := None, en_beating := False,
                            en_polling := (en_polling x \<or> \<not> en_stopped x)\<rparr>) c)
           \<lparr>cl_events := Leader_lost n # cl_events c\<rparr>))"

text \<open>A heartbeat: two queries on the session in hand.\<close>

definition beat :: "nat \<Rightarrow> cluster \<Rightarrow> cluster" where
  "beat n c =
     (if en_stopped (cl_nodes c n) \<or> \<not> en_leader (cl_nodes c n) then c
      else if session_of c n = None then demote n c else c)"

definition stepDown :: "nat \<Rightarrow> cluster \<Rightarrow> cluster" where
  "stepDown n c = (if \<not> en_leader (cl_nodes c n) then c else demote n (release n c))"

definition node_destroy :: "nat \<Rightarrow> cluster \<Rightarrow> cluster" where
  "node_destroy n c =
     (let c1 = set_node n (\<lambda>x. x\<lparr>en_stopped := True, en_polling := False, en_beating := False\<rparr>) c;
          c2 = (if en_leader (cl_nodes c n) then release n (set_node n (\<lambda>x. x\<lparr>en_leader := False\<rparr>) c1) else c1)
      in close_conn n c2)"

text \<open>Boot awaits a first tick, then arms the poller whatever its outcome.\<close>

definition node_boot :: "bool \<Rightarrow> nat \<Rightarrow> cluster \<Rightarrow> cluster" where
  "node_boot reachable n c = (if en_participates (cl_nodes c n) then tick_lock reachable n c else c)"

definition node_poll :: "nat \<Rightarrow> cluster \<Rightarrow> cluster" where
  "node_poll n c = (if en_participates (cl_nodes c n) then set_node n (\<lambda>x. x\<lparr>en_polling := True\<rparr>) c else c)"

definition assertStillLeader :: "nat \<Rightarrow> cluster \<Rightarrow> bool" where
  "assertStillLeader n c \<longleftrightarrow>
     en_leader (cl_nodes c n) \<and> session_of c n \<noteq> None \<and> en_fence (cl_nodes c n) = Some (cl_fence c)"

section \<open>Runs\<close>

definition fresh_node :: "bool \<Rightarrow> elect_node" where
  "fresh_node p =
     \<lparr>en_leader = False, en_fence = None, en_client = None, en_stopped = False, en_polling = False,
      en_beating = False, en_participates = p\<rparr>"

definition start_cluster :: "nat \<Rightarrow> (nat \<Rightarrow> bool) \<Rightarrow> cluster" where
  "start_cluster fence p =
     \<lparr>cl_fence = fence, cl_holder = None, cl_alive = [], cl_nextSession = 0, cl_nodes = (\<lambda>n. fresh_node (p n)),
      cl_ticks = [], cl_events = []\<rparr>"

text \<open>
  The steps of a run. A voluntary step-down is a release and, after its query returns, a demotion; other
  nodes act in between.
\<close>

inductive election_run :: "cluster \<Rightarrow> cluster \<Rightarrow> bool" where
  er_refl: "election_run c c"
| er_boot: "election_run c d \<Longrightarrow> election_run c (node_boot r n d)"
| er_poll: "election_run c d \<Longrightarrow> election_run c (node_poll n d)"
| er_lock: "election_run c d \<Longrightarrow> en_polling (cl_nodes d n) \<Longrightarrow> election_run c (tick_lock r n d)"
| er_bump: "election_run c d \<Longrightarrow> election_run c (tick_bump n d)"
| er_promote: "election_run c d \<Longrightarrow> election_run c (tick_promote n f d)"
| er_beat: "election_run c d \<Longrightarrow> en_beating (cl_nodes d n) \<Longrightarrow> election_run c (beat n d)"
| er_release: "election_run c d \<Longrightarrow> en_leader (cl_nodes d n) \<Longrightarrow> election_run c (release n d)"
| er_demote: "election_run c d \<Longrightarrow> election_run c (demote n d)"
| er_destroy: "election_run c d \<Longrightarrow> election_run c (node_destroy n d)"
| er_lost: "election_run c d \<Longrightarrow> election_run c (session_lost s d)"

section \<open>The fence\<close>

text \<open>Fences handed out: to nodes, and to ticks that have not promoted yet.\<close>

definition node_fence :: "cluster \<Rightarrow> nat \<Rightarrow> nat option" where
  "node_fence c n = en_fence (cl_nodes c n)"

definition tick_fences :: "cluster \<Rightarrow> nat list" where
  "tick_fences c = List.map_filter (\<lambda>(n, t). case t of Locked \<Rightarrow> None | Bumped f \<Rightarrow> Some f) (cl_ticks c)"

definition fence_inv :: "cluster \<Rightarrow> bool" where
  "fence_inv c \<longleftrightarrow>
     (\<forall>n f. node_fence c n = Some f \<longrightarrow> f \<le> cl_fence c \<and> f \<notin> set (tick_fences c)) \<and>
     (\<forall>f \<in> set (tick_fences c). f \<le> cl_fence c) \<and> distinct (tick_fences c) \<and>
     (\<forall>n m f. node_fence c n = Some f \<longrightarrow> node_fence c m = Some f \<longrightarrow> n = m)"

lemma set_node_sel [simp]:
  "cl_fence (set_node n f c) = cl_fence c" "cl_holder (set_node n f c) = cl_holder c"
  "cl_alive (set_node n f c) = cl_alive c" "cl_nextSession (set_node n f c) = cl_nextSession c"
  "cl_ticks (set_node n f c) = cl_ticks c" "cl_events (set_node n f c) = cl_events c"
  "cl_nodes (set_node n f c) m = (if m = n then f (cl_nodes c n) else cl_nodes c m)"
  by (simp_all add: set_node_def)

text \<open>Operations that hand out no fence.\<close>

definition same_fences :: "cluster \<Rightarrow> cluster \<Rightarrow> bool" where
  "same_fences c d \<longleftrightarrow> cl_fence d = cl_fence c \<and> tick_fences d = tick_fences c \<and>
     (\<forall>n. node_fence d n = node_fence c n \<or> node_fence d n = None)"

lemma same_fences_refl [simp]: "same_fences c c"
  by (simp add: same_fences_def)

lemma same_fences_trans: "same_fences a b \<Longrightarrow> same_fences b c \<Longrightarrow> same_fences a c"
  unfolding same_fences_def by metis

lemma same_fences_inv: "same_fences c d \<Longrightarrow> fence_inv c \<Longrightarrow> fence_inv d"
  unfolding same_fences_def fence_inv_def by (metis option.distinct(1))

lemma same_fences_set_node:
  "(\<And>x. en_fence (f x) = en_fence x \<or> en_fence (f x) = None) \<Longrightarrow> same_fences c (set_node n f c)"
  by (simp add: same_fences_def node_fence_def tick_fences_def)

lemma same_fences_fields [simp]:
  "same_fences c (c\<lparr>cl_holder := h\<rparr>)" "same_fences c (c\<lparr>cl_events := e\<rparr>)"
  "same_fences c (c\<lparr>cl_alive := a, cl_nextSession := k\<rparr>)" "same_fences c (c\<lparr>cl_alive := a, cl_holder := h\<rparr>)"
  "same_fences c (c\<lparr>cl_ticks := (n, Locked) # cl_ticks c\<rparr>)"
  by (simp_all add: same_fences_def node_fence_def tick_fences_def List.map_filter_simps)

lemma same_fences_conn: "same_fences c (conn r n c)"
  unfolding conn_def by (auto intro: same_fences_trans [OF same_fences_fields(3) same_fences_set_node])

lemma same_fences_lost: "same_fences c (session_lost s c)"
  by (simp add: session_lost_def)

lemma same_fences_close: "same_fences c (close_conn n c)"
  unfolding close_conn_def
  by (auto split: option.split intro: same_fences_trans [OF same_fences_lost same_fences_set_node])

lemma same_fences_release: "same_fences c (release n c)"
  by (auto simp: release_def pg_advisory_unlock_def split: option.split)

lemma same_fences_try: "same_fences c (snd (pg_try_advisory_lock s c))"
  by (auto simp: pg_try_advisory_lock_def split: option.split)

lemma same_fences_tick_lock: "same_fences c (tick_lock r n c)"
proof -
  have "same_fences c (snd (pg_try_advisory_lock s (conn r n c)))" for s
    using same_fences_trans [OF same_fences_conn same_fences_try] .
  then show ?thesis
    using same_fences_conn [of c r n] same_fences_trans [OF _ same_fences_fields(5)]
    unfolding tick_lock_def Let_def by (auto split: option.split prod.split bool.split) (metis snd_conv)+
qed

lemma same_fences_demote: "same_fences c (demote n c)"
proof -
  let ?d = "set_node n (\<lambda>x. x\<lparr>en_leader := False, en_fence := None, en_beating := False,
    en_polling := (en_polling x \<or> \<not> en_stopped x)\<rparr>) c"
  have "same_fences c ?d" by (rule same_fences_set_node) simp
  then have "same_fences c (?d\<lparr>cl_events := Leader_lost n # cl_events c\<rparr>)"
    by (rule same_fences_trans) simp
  then show ?thesis
    unfolding demote_def by (auto intro: same_fences_trans [OF _ same_fences_close])
qed

lemma same_fences_destroy: "same_fences c (node_destroy n c)"
proof -
  let ?d = "set_node n (\<lambda>x. x\<lparr>en_stopped := True, en_polling := False, en_beating := False\<rparr>) c"
  let ?e = "set_node n (\<lambda>x. x\<lparr>en_leader := False\<rparr>) ?d"
  have d: "same_fences c ?d" by (rule same_fences_set_node) simp
  have "same_fences ?d ?e" by (rule same_fences_set_node) simp
  with d have "same_fences c (release n ?e)"
    by (blast intro: same_fences_trans same_fences_release)
  with d show ?thesis
    unfolding node_destroy_def Let_def by (auto intro: same_fences_trans [OF _ same_fences_close])
qed

lemma map_filter_remove1_None: "g x = None \<Longrightarrow> List.map_filter g (remove1 x xs) = List.map_filter g xs"
  by (induction xs) (auto simp: List.map_filter_simps split: option.splits)

lemma map_filter_remove1_Some:
  "x \<in> set xs \<Longrightarrow> g x = Some y \<Longrightarrow> distinct (List.map_filter g xs) \<Longrightarrow>
   y \<notin> set (List.map_filter g (remove1 x xs)) \<and> distinct (List.map_filter g (remove1 x xs)) \<and>
   set (List.map_filter g (remove1 x xs)) \<subseteq> set (List.map_filter g xs) \<and> y \<in> set (List.map_filter g xs)"
  by (induction xs) (auto simp: List.map_filter_simps split: option.splits)

lemma fence_inv_bump: "fence_inv c \<Longrightarrow> fence_inv (tick_bump n c)"
proof (cases "(n, Locked) \<in> set (cl_ticks c)")
  case True
  assume inv: "fence_inv c"
  let ?c1 = "c\<lparr>cl_ticks := remove1 (n, Locked) (cl_ticks c)\<rparr>"
  have r: "tick_fences ?c1 = tick_fences c"
    by (simp add: tick_fences_def map_filter_remove1_None)
  then have i1: "fence_inv ?c1" using inv by (simp add: fence_inv_def node_fence_def)
  have "fence_inv (?c1\<lparr>cl_fence := Suc (cl_fence c), cl_ticks := (n, Bumped (Suc (cl_fence c))) # cl_ticks ?c1\<rparr>)"
  proof -
    have "tick_fences (?c1\<lparr>cl_fence := Suc (cl_fence c), cl_ticks := (n, Bumped (Suc (cl_fence c))) # cl_ticks ?c1\<rparr>) =
        Suc (cl_fence c) # tick_fences c"
      using r by (simp add: tick_fences_def List.map_filter_simps)
    then show ?thesis using inv unfolding fence_inv_def node_fence_def by (force simp: le_Suc_eq)
  qed
  with True i1 show ?thesis by (auto simp: tick_bump_def Let_def split: option.split)
qed (simp add: tick_bump_def)

lemma fence_inv_promote: "fence_inv c \<Longrightarrow> fence_inv (tick_promote n f c)"
proof (cases "(n, Bumped f) \<in> set (cl_ticks c)")
  case True
  assume inv: "fence_inv c"
  let ?g = "\<lambda>(n, t). case t of Locked \<Rightarrow> None | Bumped f \<Rightarrow> Some f"
  let ?d = "tick_promote n f c"
  have rest: "f \<notin> set (tick_fences ?d)" "distinct (tick_fences ?d)" "set (tick_fences ?d) \<subseteq> set (tick_fences c)"
    "f \<in> set (tick_fences c)"
    using map_filter_remove1_Some [OF True, of ?g f] inv True
    by (auto simp: tick_promote_def promote_node_def tick_fences_def fence_inv_def)
  have nodes: "node_fence ?d m = (if m = n then Some f else node_fence c m)" for m
    using True by (simp add: tick_promote_def promote_node_def node_fence_def)
  have fence: "cl_fence ?d = cl_fence c" using True by (simp add: tick_promote_def promote_node_def)
  show ?thesis
    using inv rest unfolding fence_inv_def nodes fence by (auto split: if_splits)
qed (simp add: tick_promote_def)

lemma election_run_fences:
  assumes "election_run c d" and "fence_inv c"
  shows "fence_inv d"
  using assms
proof (induction rule: election_run.induct)
  case (er_boot c d r n)
  then show ?case using same_fences_inv [OF same_fences_tick_lock] by (simp add: node_boot_def)
next
  case (er_poll c d n)
  then show ?case by (auto simp: node_poll_def intro: same_fences_inv [OF same_fences_set_node])
next
  case (er_beat c d n)
  then show ?case by (auto simp: beat_def intro: same_fences_inv [OF same_fences_demote])
qed (auto intro: fence_inv_bump fence_inv_promote same_fences_inv [OF same_fences_tick_lock]
    same_fences_inv [OF same_fences_release] same_fences_inv [OF same_fences_demote]
    same_fences_inv [OF same_fences_destroy] same_fences_inv [OF same_fences_lost])

lemma start_fences: "fence_inv (start_cluster f p)"
  by (simp add: fence_inv_def start_cluster_def node_fence_def fresh_node_def tick_fences_def List.map_filter_simps)

section \<open>Properties\<close>

text \<open>C22. At every moment of every run at most one node passes the fence check, however ticks, heartbeats,
  step-downs, shutdowns and lost sessions interleave, and even when one node runs several ticks at once
  on the re-entrant lock.\<close>

theorem fence_exclusive:
  assumes "election_run (start_cluster f p) c" and "assertStillLeader n c" and "assertStillLeader m c"
  shows "n = m"
  using election_run_fences [OF assms(1) start_fences] assms(2,3)
  unfolding assertStillLeader_def fence_inv_def node_fence_def by blast

definition two_start :: cluster where
  "two_start = start_cluster 7 (\<lambda>_. True)"

definition lead_0 :: cluster where
  "lead_0 = tick_promote 0 8 (tick_bump 0 (node_boot True 0 two_start))"

definition lead_both :: cluster where
  "lead_both = tick_promote 1 9 (tick_bump 1 (node_boot True 1 (session_lost 0 lead_0)))"

lemma lead_0_run: "election_run two_start lead_0"
  unfolding lead_0_def by (intro er_promote er_bump er_boot er_refl)

lemma lead_both_run: "election_run two_start lead_both"
  unfolding lead_both_def by (intro er_promote er_bump er_boot er_lost lead_0_run)

theorem fence_exclusive_witness: "assertStillLeader 0 lead_0 \<and> \<not> assertStillLeader 1 lead_0"
proof -
  have "assertStillLeader 0 lead_0" by code_simp
  then show ?thesis using fence_exclusive [OF lead_0_run [unfolded two_start_def], of 0 1] by auto
qed

text \<open>\<open>isLeader\<close> alone does not exclude a second leader: when the database ends the leader's session,
  another node can acquire before the old leader's next heartbeat, and both report leadership; only the
  fence check tells them apart.\<close>

theorem two_leaders_one_fence:
  "\<exists>c. election_run two_start c \<and> en_leader (cl_nodes c 0) \<and> en_leader (cl_nodes c 1) \<and>
       \<not> assertStillLeader 0 c \<and> assertStillLeader 1 c"
proof -
  have "en_leader (cl_nodes lead_both 0)" "en_leader (cl_nodes lead_both 1)" by code_simp+
  moreover have "\<not> assertStillLeader 0 lead_both" "assertStillLeader 1 lead_both" by code_simp+
  ultimately show ?thesis using lead_both_run by blast
qed

text \<open>A voluntary step-down of the lock holder hands over: the next tick of any running node with the
  database in reach, the node itself included, makes it the one that passes the fence check.\<close>

theorem stepDown_failover:
  assumes lead: "en_leader (cl_nodes c n)" "en_client (cl_nodes c n) = Some s" "cl_holder c = Some (s, d)"
    and m: "\<not> en_stopped (cl_nodes c m)" "m \<noteq> n \<Longrightarrow> \<not> en_leader (cl_nodes c m)"
      "m \<noteq> n \<Longrightarrow> en_client (cl_nodes c m) = None \<or> (\<exists>t. session_of c m = Some t \<and> t \<noteq> s)"
  shows "assertStillLeader m (tick True m (stepDown n c))"
proof -
  let ?c = "stepDown n c"
  have h: "cl_holder ?c = None"
    using lead by (auto simp: stepDown_def release_def session_of_def pg_advisory_unlock_def demote_def
        close_conn_def session_lost_def split: option.split)
  have node: "\<not> en_stopped (cl_nodes ?c m)" "\<not> en_leader (cl_nodes ?c m)"
    using m lead by (auto simp: stepDown_def release_def session_of_def pg_advisory_unlock_def demote_def
        close_conn_def session_lost_def split: option.split)
  have client: "en_client (cl_nodes ?c m) = None \<or> session_of ?c m \<noteq> None"
    using m lead by (cases "m = n") (auto simp: stepDown_def release_def session_of_def pg_advisory_unlock_def demote_def
        close_conn_def session_lost_def split: option.splits if_splits)
  let ?d = "conn True m ?c"
  obtain t where t: "session_of ?d m = Some t"
    using client by (auto simp: conn_def session_of_def split: option.splits if_splits)
  have hd: "cl_holder ?d = None" "\<not> en_stopped (cl_nodes ?d m)" using h node by (simp_all add: conn_def)
  have lock: "tick_lock True m ?c = ?d\<lparr>cl_holder := Some (t, 1), cl_ticks := (m, Locked) # cl_ticks ?d\<rparr>"
    using node t hd by (simp add: tick_lock_def Let_def pg_try_advisory_lock_def)
  show ?thesis
    using t hd
    by (auto simp: tick_def Let_def lock tick_bump_def tick_promote_def promote_node_def assertStillLeader_def
        session_of_def split: option.splits if_splits)
qed

theorem stepDown_failover_witness:
  "assertStillLeader 1 (tick True 1 (stepDown 0 lead_0)) \<and> \<not> assertStillLeader 0 (tick True 1 (stepDown 0 lead_0))"
proof -
  have "en_leader (cl_nodes lead_0 0)" "en_client (cl_nodes lead_0 0) = Some 0" "cl_holder lead_0 = Some (0, 1)"
    "\<not> en_stopped (cl_nodes lead_0 1)" "\<not> en_leader (cl_nodes lead_0 1)" "en_client (cl_nodes lead_0 1) = None"
    by code_simp+
  then have "assertStillLeader 1 (tick True 1 (stepDown 0 lead_0))"
    by (intro stepDown_failover [where s = 0 and d = 1]) auto
  moreover have "\<not> assertStillLeader 0 (tick True 1 (stepDown 0 lead_0))" by code_simp
  ultimately show ?thesis by blast
qed

end
