(* ===== verification/VR_EngineStall.thy ===== *)
theory VR_EngineStall
  imports VR_EngineFailover VR_Election
begin

text \<open>
  One node of the cluster with its engine: the election's events drive \<open>start\<close> and \<open>stop\<close>, the engine's
  fence check reads the cluster. What a failed fence read does to a leader whose session is healthy.
\<close>

section \<open>A node\<close>

text \<open>
  The steps of node \<open>n\<close> and of its surroundings while the database keeps the sessions: its poller and
  heartbeat, the timer and the deadman of its engine, and anything the other nodes do that leaves the
  node's own record and session alone.
\<close>

definition node_same :: "nat \<Rightarrow> cluster \<Rightarrow> cluster \<Rightarrow> bool" where
  "node_same n c d \<longleftrightarrow> cl_nodes d n = cl_nodes c n \<and> session_of d n = session_of c n \<and>
     (\<forall>t. (n, t) \<in> set (cl_ticks d) \<longrightarrow> (n, t) \<in> set (cl_ticks c))"

definition engine_promote :: "nat \<Rightarrow> nat \<Rightarrow> 'o step_env \<Rightarrow> cluster \<Rightarrow> 'o engine \<Rightarrow> 'o engine" where
  "engine_promote n f env c e = (if (n, Bumped f) \<in> set (cl_ticks c) then leader_acquired env e else e)"

definition engine_beat :: "nat \<Rightarrow> cluster \<Rightarrow> 'o engine \<Rightarrow> 'o engine" where
  "engine_beat n c e =
     (if \<not> en_stopped (cl_nodes c n) \<and> en_leader (cl_nodes c n) \<and> session_of c n = None then leader_lost e else e)"

definition engine_deadman :: "int \<Rightarrow> rat \<Rightarrow> 'o engine \<Rightarrow> 'o engine" where
  "engine_deadman now limit e = (if eg_deadman e then deadmanCheck now limit e else e)"

inductive node_run :: "nat \<Rightarrow> cluster \<times> 'o engine \<Rightarrow> cluster \<times> 'o engine \<Rightarrow> bool" for n where
  nr_refl: "node_run n p p"
| nr_tick: "node_run n p (c, e) \<Longrightarrow> node_run n p (tick_lock r n c, e)"
| nr_bump: "node_run n p (c, e) \<Longrightarrow> node_run n p (tick_bump n c, e)"
| nr_promote: "node_run n p (c, e) \<Longrightarrow> node_run n p (tick_promote n f c, engine_promote n f env c e)"
| nr_beat: "node_run n p (c, e) \<Longrightarrow> node_run n p (beat n c, engine_beat n c e)"
| nr_fire: "node_run n p (c, e) \<Longrightarrow> node_run n p (c, fire env e)"
| nr_deadman: "node_run n p (c, e) \<Longrightarrow> node_run n p (c, engine_deadman now limit e)"
| nr_others: "node_run n p (c, e) \<Longrightarrow> node_same n c d \<Longrightarrow> node_run n p (d, e)"
| nr_bets: "node_run n p (c, e) \<Longrightarrow> node_run n p (c, e\<lparr>eg_db := w\<rparr>)"

section \<open>The stall\<close>

definition stalled :: "nat \<Rightarrow> cluster \<times> 'o engine \<Rightarrow> bool" where
  "stalled n p \<longleftrightarrow>
     (case p of (c, e) \<Rightarrow>
       en_leader (cl_nodes c n) \<and> session_of c n \<noteq> None \<and> (\<forall>t. (n, t) \<notin> set (cl_ticks c)) \<and>
       \<not> eg_running e \<and> eg_timer e = None \<and> \<not> eg_deadman e)"

lemma stalled_stays: "node_run n p q \<Longrightarrow> stalled n p \<Longrightarrow> stalled n q"
proof (induction rule: node_run.induct)
  case (nr_others p c e d)
  then show ?case unfolding stalled_def node_same_def by auto
qed (auto simp: stalled_def tick_lock_def tick_bump_def tick_promote_def engine_promote_def beat_def engine_beat_def
    fire_def engine_deadman_def)

text \<open>C23. When the fence read of a transition fails once, by a database blip, the loop stops but the node
  stays the elected leader: as long as its session lives, no poll, heartbeat, timer or deadman ever starts
  the loop again.\<close>

theorem fence_blip_stalls:
  assumes lead: "en_leader (cl_nodes c n)" "session_of c n \<noteq> None" "\<forall>t. (n, t) \<notin> set (cl_ticks c)"
    and due: "eg_timer e = Some (due, t)" "eg_running e" "due \<le> of_int (te_now env)" "eg_state e \<noteq> None \<or> t = Enter_waiting"
    and blip: "\<not> te_still env"
    and run: "node_run n (c, fire env e) (d, e')"
  shows "\<not> eg_running e' \<and> eg_timer e' = None \<and> en_leader (cl_nodes d n) \<and> session_of d n \<noteq> None"
proof -
  let ?e = "e\<lparr>eg_timer := None\<rparr>"
  have "head t env ?e = (stop ?e, Returned)"
    using due(4) blip
    by (cases t) (auto simp: enterWaiting_head_def enterBetting_head_def enterRunning_head_def enterCrashed_head_def
        enterSettling_head_def enterCompleted_head_def phase_head_def)
  then have "fire env e = stop ?e"
    using due by (simp add: fire_def Let_def run_transition_def not_less)
  then have "stalled n (c, fire env e)" using lead by (simp add: stalled_def stop_def)
  from stalled_stays [OF run this] show ?thesis by (simp add: stalled_def)
qed

end
