(* ===== verification/VR_EngineNode.thy ===== *)
theory VR_EngineNode
  imports VR_EngineFailover
begin

text \<open>
  The life of the round loop on one node, from a boot with whatever the database holds: it gains and loses
  the leadership, starts and resumes, its timer fires, its deadman looks, and while it does not lead the
  others write what they like. Whatever happens, a running loop has a timer, unless a write of its own
  start failed; then its deadman is armed.
\<close>

section \<open>Starting\<close>

context wallet_frame
begin

lemma recoverStranded_rounds: "db_rounds (snd (recoverStrandedActiveBets provider now age w)) = db_rounds w"
proof -
  have "db_rounds (snd (heal_active provider now b st)) = db_rounds (snd st)" for b st
    by (cases st) (auto simp: heal_active_def bet_cas_def Let_def dest: wallet_rounds split: prod.splits sum.splits)
  then have "db_rounds (snd (fold (heal_active provider now) bs st)) = db_rounds (snd st)" for bs st
    by (induction bs arbitrary: st) simp_all
  then show ?thesis by (simp add: recoverStrandedActiveBets_def)
qed

end

definition seed_ids :: "fair_db \<Rightarrow> uid set" where
  "seed_ids f = fs_id ` set (fd_seeds f)"

lemma reveal_ids: "revealSeed now i f = Inr f' \<Longrightarrow> seed_ids f' = seed_ids f"
  unfolding revealSeed_def seed_ids_def set_map [symmetric]
  by (auto simp del: set_map simp: map_update_where split: if_splits)

lemma reveal_ok: "i \<in> seed_ids f \<Longrightarrow> \<exists>f'. revealSeed now i f = Inr f'"
  by (auto simp: revealSeed_def seed_ids_def)

lemma close_stale_rest [simp]:
  "eg_timer (fold (close_stale env) rs e) = eg_timer e" "eg_deadman (fold (close_stale env) rs e) = eg_deadman e"
  "eg_steppingDown (fold (close_stale env) rs e) = eg_steppingDown e"
  "seed_ids (eg_fair (fold (close_stale env) rs e)) = seed_ids (eg_fair e)"
  by (induction rs arbitrary: e)
    (auto simp: close_stale_def Let_def emit_def dest: reveal_ids split: sum.split)

text \<open>A transition called from \<open>start\<close> is not caught: when it throws, nothing is scheduled.\<close>

definition no_seed :: "'o step_env \<Rightarrow> 'o engine \<Rightarrow> bool" where
  "no_seed env e \<longleftrightarrow>
     (case fst (allocateSeed (te_fair env) (db_rounds (eg_db e)) (te_upkeep env (eg_fair e))) of
        Stalled \<Rightarrow> False
      | Chain_exhausted \<Rightarrow> True
      | Allocated s c \<Rightarrow> crashForSeed (te_hmac env) s c = None)"

text \<open>What can make a start throw: a failed write of a round row or of the revealed seed, an open round after
  its outcome whose seed is gone, and no seed to open a round with.\<close>

definition start_fault :: "'o step_env \<Rightarrow> 'o engine \<Rightarrow> bool" where
  "start_fault env e \<longleftrightarrow> \<not> te_write env \<or> \<not> te_reveal env \<or>
     (\<exists>r \<in> set (db_rounds (eg_db e)). post_outcome (r_status r) \<and> r_seedId r \<notin> seed_ids (eg_fair (start_begin env e))) \<or>
     no_seed env (snd (resumeOrRecover env (start_begin env e)))"

definition start_env :: "'o step_env \<Rightarrow> 'o engine \<Rightarrow> bool" where
  "start_env env e \<longleftrightarrow> wallet_frame (te_wallet env) \<and> (\<forall>w. db_rounds (te_race env w) = db_rounds w) \<and>
     te_now env \<le> te_later env \<and> distinct (map r_id (db_rounds (eg_db e))) \<and> find_round (eg_db e) (te_roundId env) = None"

text \<open>The loop is armed, or it is wedged for a reason and watched by its deadman.\<close>

definition watched :: "'o engine \<Rightarrow> bool" where
  "watched e \<longleftrightarrow> eg_timer e = None \<and> eg_deadman e \<and> \<not> eg_steppingDown e"

definition node_ok :: "bool \<Rightarrow> 'o engine \<Rightarrow> bool" where
  "node_ok wedged e \<longleftrightarrow> (if eg_running e then armed e \<or> wedged \<and> watched e else eg_timer e = None)"

text \<open>What a transition does to the flags.\<close>

definition head_flags :: "'o engine \<Rightarrow> 'o engine \<times> head_result \<Rightarrow> bool" where
  "head_flags e p \<longleftrightarrow>
     (case p of
        (e1, Returned) \<Rightarrow> (if eg_running e1 then eg_running e \<and> eg_deadman e1 = eg_deadman e \<and> eg_steppingDown e1 = eg_steppingDown e
                           else eg_running e \<longrightarrow> eg_timer e1 = None)
      | (e1, _) \<Rightarrow> eg_running e1 = eg_running e \<and> eg_timer e1 = eg_timer e \<and> eg_deadman e1 = eg_deadman e \<and>
                   eg_steppingDown e1 = eg_steppingDown e)"

lemma phase_head_flags: "head_flags e (phase_head env f g e)"
  by (simp add: head_flags_def phase_head_def stop_def Let_def split: option.split)

lemma head_flags_head: "head_flags e (head t env e)"
proof (cases t)
  case Enter_waiting
  then show ?thesis
    by (auto simp: head_flags_def enterWaiting_head_def stop_def schedule_def Let_def split: prod.split allocation.split option.split)
next
  case Enter_crashed
  have "head_flags e (enterCrashed_head env e)"
    using phase_head_flags [of e env "\<lambda>s. s\<lparr>es_phase := Crashed, es_phaseEndsAt := te_now env + PHASE_MS Crashed\<rparr>"
        "\<lambda>s r. r\<lparr>r_status := Crashed, r_crashedAt := Some (te_now env), r_phaseEndsAt := Some (es_phaseEndsAt s)\<rparr>"]
    unfolding enterCrashed_head_def head_flags_def
    by (auto split: prod.splits head_result.splits option.splits sum.splits if_splits)
  with Enter_crashed show ?thesis by simp
qed (simp_all add: enterBetting_head_def enterRunning_head_def enterSettling_head_def enterCompleted_head_def phase_head_flags)

lemma tail_flags:
  "eg_running (tail t now i c e) = eg_running e" "eg_deadman (tail t now i c e) = eg_deadman e"
  "eg_steppingDown (tail t now i c e) = eg_steppingDown e"
  by (cases t; simp add: waiting_tail_def betting_tail_def running_tail_def crashed_tail_def settling_tail_def
      completed_tail_def Let_def emitPhase_def emit_def mirror_def schedule_def emit_settle_def onSettle_def split: option.split)+

lemma bare_ok:
  assumes h: "head_ok t env (head t env e)" and c: "te_now env \<le> te_later env" and t: "watched e" "eg_running e"
    and threw: "\<And>e1. head t env e = (e1, Threw) \<Longrightarrow> f"
  shows "node_ok f (run_bare t env e)"
proof (cases "head t env e")
  case (Pair e1 r)
  then have fl: "head_flags e (e1, r)" using head_flags_head by metis
  show ?thesis
  proof (cases r)
    case Threw
    then show ?thesis using Pair threw fl t by (simp add: run_bare_def node_ok_def head_flags_def watched_def)
  next
    case Returned
    then show ?thesis using Pair h fl t by (auto simp: run_bare_def node_ok_def head_ok_def armed_def head_flags_def)
  next
    case (Proceed i k)
    then have "run_bare t env e = run_transition t env e" "eg_running (run_transition t env e)"
      using Pair fl t by (simp_all add: run_bare_def run_transition_def tail_flags head_flags_def)
    with head_ok_run [OF h c] show ?thesis by (simp add: node_ok_def loop_inv_def)
  qed
qed

lemma waiting_bare_ok:
  assumes "find_round (eg_db e) (te_roundId env) = None" "te_now env \<le> te_later env" "watched e" "eg_running e"
  shows "node_ok (\<not> te_write env \<or> no_seed env e) (run_bare Enter_waiting env e)"
proof (rule bare_ok [OF _ assms(2-4)])
  show "head_ok Enter_waiting env (head Enter_waiting env e)" using waiting_head_ok [OF assms(1)] by simp
  show "\<not> te_write env \<or> no_seed env e" if "head Enter_waiting env e = (e1, Threw)" for e1
    using that by (auto simp: enterWaiting_head_def no_seed_def Let_def split: prod.splits allocation.splits option.splits if_splits)
qed

lemma crashed_bare_ok:
  assumes "persisted e" "eg_state e = Some s" "es_phase s = Running" "te_now env \<le> te_later env" "watched e" "eg_running e"
  shows "node_ok (\<not> te_write env \<or> \<not> te_reveal env \<or> es_seedId s \<notin> seed_ids (eg_fair e)) (run_bare Enter_crashed env e)"
proof (rule bare_ok [OF _ assms(4-6)])
  show "head_ok Enter_crashed env (head Enter_crashed env e)" using crashed_head_ok [OF assms(1-3)] by simp
  have "find_round (eg_db e) (es_roundId s) \<noteq> None" using assms(1,2) by (auto simp: persisted_def)
  then show "\<not> te_write env \<or> \<not> te_reveal env \<or> es_seedId s \<notin> seed_ids (eg_fair e)" if "head Enter_crashed env e = (e1, Threw)" for e1
    using that assms(2) reveal_ok [of "es_seedId s" "eg_fair e" "te_now env"]
    by (auto simp: enterCrashed_head_def phase_head_def round_write_def stop_def Let_def split: option.splits if_splits sum.splits)
qed

section \<open>Resuming\<close>

text \<open>A loop that has just been attached to its round: the row says what memory says.\<close>

lemma settled_node: "eg_running e \<Longrightarrow> persisted e \<Longrightarrow> eg_state e = Some s \<Longrightarrow> eg_timer e = Some (due, next_of (es_phase s)) \<Longrightarrow>
   not_early s due \<Longrightarrow> node_ok f e"
  by (auto simp: node_ok_def armed_def)

definition same_row :: "round \<Rightarrow> round \<Rightarrow> bool" where
  "same_row r r' \<longleftrightarrow> r' = r\<lparr>r_crashedAt := r_crashedAt r'\<rparr>"

lemma resumed_persisted:
  assumes "eg_state e = Some (state_of_round r ends)" "r_phaseEndsAt r = Some ends"
    and "find_round (eg_db e) (r_id r) = Some r'" "same_row r r'" and "post_outcome (r_status r) \<longrightarrow> r_startedAt r \<noteq> None"
  shows "persisted e"
proof -
  have "r_id r' = r_id r \<and> r_seedId r' = r_seedId r \<and> r_crashPoint r' = r_crashPoint r \<and> r_status r' = r_status r \<and>
      r_phaseEndsAt r' = r_phaseEndsAt r \<and> r_startedAt r' = r_startedAt r"
    using assms(4) unfolding same_row_def by (metis round.ext_inject round.surjective round.update_convs(7))
  then show ?thesis using assms by (simp add: persisted_def row_matches_def state_of_round_def)
qed

lemma find_round_backfill:
  assumes "find_round w i = Some r"
  shows "\<exists>r'. find_round (backfill_crashedAt n i w) i = Some r' \<and> same_row r r'"
proof -
  have "find (\<lambda>r. r_id r = i) rs = Some r \<Longrightarrow>
      find (\<lambda>r. r_id r = i) (update_where (\<lambda>r. r_id r = i \<and> r_crashedAt r = None) (\<lambda>r. r\<lparr>r_crashedAt := Some n\<rparr>) rs) =
      Some (if r_crashedAt r = None then r\<lparr>r_crashedAt := Some n\<rparr> else r)" for rs
    by (induction rs) (auto split: if_splits)
  with assms show ?thesis by (auto simp: find_round_def backfill_crashedAt_def same_row_def)
qed

context wallet_frame
begin

lemma resume_running_ok:
  assumes env: "te_wallet env = provider" "\<And>w. db_rounds (te_race env w) = db_rounds w" "te_now env \<le> te_later env"
    and e: "persisted e" "eg_state e = Some s" "es_phase s = Running" "es_startedAt s = Some t" "watched e" "eg_running e"
  shows "node_ok (\<not> te_write env \<or> \<not> te_reveal env \<or> es_seedId s \<notin> seed_ids (eg_fair e)) (resume_running env s t e)"
proof -
  let ?d = "if te_driver env then autoCashoutDriver env (te_later env) (es_crashPoint s) e else e"
  have d: "eg_state ?d = Some s" "db_rounds (eg_db ?d) = db_rounds (eg_db e)" "eg_fair ?d = eg_fair e" "eg_running ?d = eg_running e"
    "eg_timer ?d = eg_timer e" "eg_deadman ?d = eg_deadman e" "eg_steppingDown ?d = eg_steppingDown e"
    using driver_frame [OF env(1,2)] e(2) by (simp_all add: autoCashoutDriver_def)
  have "persisted ?d" using persisted_cong [of ?d e] d e by simp
  then have "node_ok (\<not> te_write env \<or> \<not> te_reveal env \<or> es_seedId s \<notin> seed_ids (eg_fair e)) (run_bare Enter_crashed env ?d)"
    using crashed_bare_ok [of ?d s env] e env(3) d by (simp add: watched_def)
  moreover have "node_ok f (schedule (te_later env) (of_int t + crash_delay (es_crashPoint s) - of_int (te_now env)) Enter_crashed e)"
    if "of_int (te_now env) < of_int t + crash_delay (es_crashPoint s)" for f
    using that e env(3) persisted_cong [of "schedule (te_later env) (of_int t + crash_delay (es_crashPoint s) - of_int (te_now env)) Enter_crashed e" e]
    by (intro settled_node [where s = s]) (auto simp: not_early_def)
  moreover have "node_ok f (stop e)" for f by (simp add: node_ok_def stop_def)
  ultimately show ?thesis by (simp add: resume_running_def Let_def)
qed

lemma resumeRound_ok:
  assumes env: "te_wallet env = provider" "\<And>w. db_rounds (te_race env w) = db_rounds w" "te_now env \<le> te_later env"
    and r: "unresumableReason (te_now env) r = None" "r_status r \<in> set OPEN_PHASES"
    and e: "find_round (eg_db e) (r_id r) = Some r" "watched e" "eg_running e"
  shows "node_ok (\<not> te_write env \<or> \<not> te_reveal env \<or> post_outcome (r_status r) \<and> r_seedId r \<notin> seed_ids (eg_fair e)) (resumeRound env r e)"
proof -
  obtain ends where ends: "r_phaseEndsAt r = Some ends"
    using r(1) by (auto simp: unresumableReason_def split: if_splits option.splits)
  have started: "post_outcome (r_status r) \<longrightarrow> r_startedAt r \<noteq> None"
    using r(1) by (auto simp: unresumableReason_def split: if_splits option.splits)
  let ?s = "state_of_round r ends"
  let ?e1 = "emitPhase (te_later env) (r_status r) (mirror (te_now env) (e\<lparr>eg_state := Some ?s\<rparr>))"
  have s: "es_phase ?s = r_status r" "es_startedAt ?s = r_startedAt r" "es_seedId ?s = r_seedId r" "es_roundId ?s = r_id r"
    by (simp_all add: state_of_round_def)
  have sd: "eg_steppingDown (emitPhase n p (mirror m d)) = eg_steppingDown d" for n p m and d :: "'o engine"
    by (simp add: emitPhase_def emit_def mirror_def split: option.split)
  have row: "same_row r r" by (simp add: same_row_def)
  have e1: "eg_state ?e1 = Some ?s" "eg_running ?e1" "watched ?e1" "eg_fair ?e1 = eg_fair e" "find_round (eg_db ?e1) (r_id r) = Some r"
    using e by (simp_all add: watched_def sd find_round_def)
  have p: "persisted d" if "eg_state d = Some ?s" "db_rounds (eg_db d) = db_rounds (eg_db e)" for d :: "'o engine"
    using resumed_persisted [OF that(1) ends _ row started] e(1) find_round_cong [OF that(2)] by simp
  show ?thesis
  proof (cases "r_status r")
    case Running
    then obtain t where t: "r_startedAt r = Some t" using started by (auto simp: post_outcome_def)
    have "node_ok (\<not> te_write env \<or> \<not> te_reveal env \<or> es_seedId ?s \<notin> seed_ids (eg_fair ?e1)) (resume_running env ?s t ?e1)"
      using Running t s e1 by (intro resume_running_ok [OF env p]) (simp_all add: post_outcome_def)
    with Running t ends s e1 show ?thesis by (simp add: resumeRound_def Let_def post_outcome_def)
  next
    case Crashed
    show ?thesis
    proof (cases "revealSeed (te_now env) (r_seedId r) (eg_fair e)")
      case (Inl u)
      then have "r_seedId r \<notin> seed_ids (eg_fair e)" using reveal_ok [of "r_seedId r" "eg_fair e" "te_now env"] by auto
      with Inl Crashed ends s e1 show ?thesis
        by (simp add: resumeRound_def resume_crashed_def Let_def post_outcome_def node_ok_def)
    next
    case f: (Inr f)
    obtain r' where "find_round (backfill_crashedAt (te_now env) (r_id r) (eg_db e)) (r_id r) = Some r'" "same_row r r'"
      using find_round_backfill [OF e(1)] by blast
    then have "persisted (resumeRound env r e)" "eg_state (resumeRound env r e) = Some ?s" "eg_running (resumeRound env r e)"
      using Crashed f ends s e(3) resumed_persisted [of "resumeRound env r e" r ends r'] started
      by (simp_all add: resumeRound_def resume_crashed_def Let_def)
    moreover have "\<exists>due. eg_timer (resumeRound env r e) = Some (due, Enter_settling)"
      using Crashed f ends s by (simp add: resumeRound_def resume_crashed_def Let_def)
    ultimately show ?thesis using Crashed s settled_node [of "resumeRound env r e" ?s] by (auto simp: not_early_def)
    qed
  next
    case Completed
    then show ?thesis using r(2) by (simp add: OPEN_PHASES_def)
  qed (use ends e e1 p s in \<open>auto simp: resumeRound_def Let_def not_early_def intro!: settled_node [of _ ?s]\<close>)
qed

end

section \<open>The start\<close>

lemma closes_find: "closes I w w' \<Longrightarrow> i \<notin> I \<Longrightarrow> find_round w' i = find_round w i"
proof -
  assume "closes I w w'" and i: "i \<notin> I"
  then obtain F where F: "db_rounds w' = map F (db_rounds w)" "\<forall>r. r_id (F r) = r_id r" "\<forall>r. r_id r \<notin> I \<longrightarrow> F r = r"
    unfolding closes_def by blast
  have "find (\<lambda>r. r_id r = i) (map F rs) = find (\<lambda>r. r_id r = i) rs" for rs
    using F(2,3) i by (induction rs) auto
  then show ?thesis by (simp add: find_round_def F(1))
qed

lemma closes_fresh: "closes I w w' \<Longrightarrow> find_round w i = None \<Longrightarrow> find_round w' i = None"
  unfolding find_round_def find_None_iff using closesD [of I w w'] by metis

lemma start_ok:
  assumes env: "start_env env e" and stopped: "\<not> eg_running e" "eg_timer e = None"
  shows "node_ok (start_fault env e) (start env e)"
proof -
  have frame: "wallet_frame (te_wallet env)" and race: "\<And>w. db_rounds (te_race env w) = db_rounds w"
    and clock: "te_now env \<le> te_later env" and dist: "distinct (map r_id (db_rounds (eg_db e)))"
    and fresh: "find_round (eg_db e) (te_roundId env) = None"
    using env by (auto simp: start_env_def)
  let ?b = "start_begin env e"
  define e1 where "e1 = ?b\<lparr>eg_db := snd (recoverReservingBets (te_wallet env) (te_race env) (te_now env) 0 (eg_db ?b))\<rparr>"
  have rounds: "db_rounds (eg_db e1) = db_rounds (eg_db e)"
    using wallet_frame.recoverReservingBets_rounds [OF frame race] wallet_frame.recoverStranded_rounds [OF frame]
    by (simp add: e1_def start_begin_def)
  have e1: "watched e1" "eg_running e1" "eg_fair e1 = eg_fair ?b"
    using stopped by (simp_all add: e1_def start_begin_def watched_def)
  have opens: "node_ok (start_fault env e) (start env e)"
    if r: "resumeOrRecover env ?b = (False, d)" and d: "watched d" "eg_running d" "find_round (eg_db d) (te_roundId env) = None" for d
  proof -
    have "node_ok (\<not> te_write env \<or> no_seed env d) (run_bare Enter_waiting env d)"
      by (rule waiting_bare_ok [OF d(3) clock d(1,2)])
    moreover have "\<not> te_write env \<or> no_seed env d \<Longrightarrow> start_fault env e" using r by (auto simp: start_fault_def)
    ultimately show ?thesis using r stopped(1) by (auto simp: start_def node_ok_def)
  qed
  show ?thesis
  proof (cases "open_rounds (eg_db e1)")
    case Nil
    then have "resumeOrRecover env ?b = (False, e1)" by (simp add: resumeOrRecover_def Let_def e1_def)
    then show ?thesis using opens e1 fresh rounds find_round_cong by metis
  next
    case (Cons c stale)
    define e2 where "e2 = fold (close_stale env) stale e1"
    have e2: "watched e2" "eg_running e2" "seed_ids (eg_fair e2) = seed_ids (eg_fair ?b)"
      using e1 by (simp_all add: e2_def watched_def)
    have cl: "closes (r_id ` set stale) (eg_db e1) (eg_db e2)"
      unfolding e2_def by (rule wallet_frame.close_stale_fold [OF frame refl])
    have "distinct (map r_id (open_rounds (eg_db e1)))"
      using dist rounds by (simp add: open_rounds_def distinct_map_filter flip: rev_map)
    then have c: "r_id c \<notin> r_id ` set stale" by (simp add: Cons)
    have "c \<in> set (open_rounds (eg_db e1))" by (simp add: Cons)
    then have m: "c \<in> set (db_rounds (eg_db e))" "r_status c \<in> set OPEN_PHASES" using rounds by (auto simp: open_rounds_def)
    have "find_round (eg_db e1) (r_id c) = Some c"
      using find_distinct [of r_id "db_rounds (eg_db e)" c] dist m(1) by (simp add: find_round_def rounds)
    then have c2: "find_round (eg_db e2) (r_id c) = Some c" using closes_find [OF cl c] by simp
    show ?thesis
    proof (cases "unresumableReason (te_now env) c")
      case None
      then have r: "resumeOrRecover env ?b = (True, resumeRound env c e2)"
        using Cons by (simp add: resumeOrRecover_def Let_def e1_def e2_def)
      have "node_ok (\<not> te_write env \<or> \<not> te_reveal env \<or> post_outcome (r_status c) \<and> r_seedId c \<notin> seed_ids (eg_fair e2))
          (resumeRound env c e2)"
        by (rule wallet_frame.resumeRound_ok [OF frame refl race clock None m(2) c2 e2(1,2)])
      then show ?thesis using r m(1) e2(3) stopped(1) by (auto simp: start_def node_ok_def start_fault_def)
    next
      case (Some u)
      let ?d = "e2\<lparr>eg_db := closeAndRefundRound (te_wallet env) (te_now env) (r_id c) (eg_db e2)\<rparr>"
      have "resumeOrRecover env ?b = (False, ?d)"
        using Cons Some by (simp add: resumeOrRecover_def Let_def e1_def e2_def)
      moreover have "find_round (eg_db ?d) (te_roundId env) = None"
        using closes_fresh [OF wallet_frame.closeAndRefundRound_closes [OF frame]] closes_fresh [OF cl] fresh find_round_cong [OF rounds]
        by simp
      ultimately show ?thesis using opens e2 by (simp add: watched_def)
    qed
  qed
qed

section \<open>Runs of a node\<close>

text \<open>
  \<open>loop_run wedged e\<close>: the node can be at \<open>e\<close>, \<open>wedged\<close> telling whether its last start met one of the
  faults that make it throw. The leader's own transitions end before their deadline, by returning or by
  throwing.
\<close>

inductive loop_run :: "bool \<Rightarrow> 'o engine \<Rightarrow> bool" where
  lr_boot: "\<not> eg_running e \<Longrightarrow> eg_timer e = None \<Longrightarrow> loop_run False e"
| lr_acquired: "loop_run wedged e \<Longrightarrow> start_env env e \<Longrightarrow>
    loop_run (if eg_running e then wedged else start_fault env (e\<lparr>eg_leader := True\<rparr>)) (leader_acquired env e)"
| lr_fire: "loop_run wedged e \<Longrightarrow> clock_ok env e \<Longrightarrow> loop_run wedged (fire env e)"
| lr_bets: "loop_run wedged e \<Longrightarrow> db_rounds w = db_rounds (eg_db e) \<Longrightarrow> loop_run wedged (e\<lparr>eg_db := w\<rparr>)"
| lr_upkeep: "loop_run wedged e \<Longrightarrow> loop_run wedged (e\<lparr>eg_fair := f\<rparr>)"
| lr_others: "loop_run wedged e \<Longrightarrow> \<not> eg_running e \<Longrightarrow> loop_run wedged (e\<lparr>eg_db := w\<rparr>)"
| lr_deadman: "loop_run wedged e \<Longrightarrow> loop_run wedged (deadmanCheck now limit e)"
| lr_lost: "loop_run wedged e \<Longrightarrow> loop_run wedged (leader_lost e)"
| lr_stop: "loop_run wedged e \<Longrightarrow> loop_run wedged (stop e)"

lemma armed_cong:
  "eg_state e' = eg_state e \<Longrightarrow> db_rounds (eg_db e') = db_rounds (eg_db e) \<Longrightarrow> eg_timer e' = eg_timer e \<Longrightarrow> armed e' = armed e"
  using persisted_cong [of e' e] by (simp add: armed_def)

lemma stop_ok [simp]: "node_ok f (stop e)" "node_ok f (leader_lost e)"
  by (simp_all add: node_ok_def stop_def leader_lost_def)

lemma fire_ok:
  assumes ok: "node_ok f e" and c: "clock_ok env e"
  shows "node_ok f (fire env e)"
proof (cases "eg_running e \<and> eg_timer e \<noteq> None")
  case True
  then obtain due t where t: "eg_timer e = Some (due, t)" by auto
  have "armed e" using ok True by (auto simp: node_ok_def watched_def)
  then have inv: "loop_inv (fire env e)" using fire_inv [OF _ c] by (simp add: loop_inv_def)
  have "eg_timer (fire env e) = None" if "\<not> eg_running (fire env e)"
  proof -
    have r: "fire env e = run_transition t env (e\<lparr>eg_timer := None\<rparr>)"
      using that True t by (auto simp: fire_def Let_def split: if_splits)
    have "head_flags (e\<lparr>eg_timer := None\<rparr>) (head t env (e\<lparr>eg_timer := None\<rparr>))" by (rule head_flags_head)
    with that True show ?thesis unfolding r
      by (auto simp: run_transition_def head_flags_def tail_flags deadline_fires_def split: prod.splits head_result.splits if_splits)
  qed
  with inv show ?thesis by (simp add: node_ok_def loop_inv_def)
next
  case False
  then have "eg_timer e = None" using ok by (cases "eg_timer e") (auto simp: node_ok_def)
  then show ?thesis using ok by (simp add: fire_def)
qed

lemma loop_run_ok: "loop_run wedged e \<Longrightarrow> node_ok wedged e"
proof (induction rule: loop_run.induct)
  case (lr_acquired wedged e env)
  let ?e = "e\<lparr>eg_leader := True\<rparr>"
  show ?case
  proof (cases "eg_running e")
    case True
    then have "leader_acquired env e = ?e" by (simp add: leader_acquired_def start_def)
    then show ?thesis using True lr_acquired.IH armed_cong [of ?e e] by (auto simp: node_ok_def watched_def)
  next
    case False
    then have "eg_timer e = None" using lr_acquired.IH by (simp add: node_ok_def)
    then have "node_ok (start_fault env ?e) (start env ?e)"
      using False lr_acquired.hyps by (intro start_ok) (simp_all add: start_env_def)
    then show ?thesis using False by (simp add: leader_acquired_def)
  qed
next
  case (lr_fire wedged e env)
  then show ?case by (simp add: fire_ok)
next
  case (lr_bets wedged e w)
  then show ?case using armed_cong [of "e\<lparr>eg_db := w\<rparr>" e] by (auto simp: node_ok_def watched_def)
next
  case (lr_upkeep wedged e f)
  then show ?case using armed_cong [of "e\<lparr>eg_fair := f\<rparr>" e] by (auto simp: node_ok_def watched_def)
next
  case (lr_deadman wedged e now limit)
  then show ?case by (simp add: deadmanCheck_def)
next
  case (lr_lost wedged e)
  show ?case by simp
next
  case (lr_stop wedged e)
  show ?case by simp
qed (simp_all add: node_ok_def)

text \<open>C17. The round loop never stalls silently. From a boot with any database, after any sequence of starts
  and resumes, of transitions that return or throw, whatever writes fail, fence checks fail or leaderships
  change, a running loop has a timer: a fresh round is due, or the timer is the next transition of the
  current phase, the round row says exactly what memory says, and a running round's crash is not armed before
  its committed time. The one exception is a loop whose own start failed, on a failing write or without a
  seed: it has no timer, and its deadman, which is armed, ends its leadership at the first check after the limit.\<close>

theorem loop_never_stalls:
  assumes "loop_run wedged e" and "eg_running e"
  shows "(\<exists>due. eg_timer e = Some (due, Enter_waiting)) \<or>
    (\<exists>s r due. eg_state e = Some s \<and> find_round (eg_db e) (es_roundId s) = Some r \<and> row_matches s r \<and>
       eg_timer e = Some (due, next_of (es_phase s)) \<and> not_early s due) \<or>
    wedged \<and> eg_timer e = None \<and> eg_deadman e \<and>
      (\<forall>now limit. eg_leader e \<longrightarrow> limit < of_int (now - eg_lastRoundAt e) \<longrightarrow>
         \<not> eg_running (deadmanCheck now limit e) \<and> \<not> eg_leader (deadmanCheck now limit e))"
proof -
  have "armed e \<or> wedged \<and> watched e" using loop_run_ok [OF assms(1)] assms(2) by (simp add: node_ok_def)
  then show ?thesis
  proof
    assume "armed e"
    then show ?thesis by (auto simp: armed_def persisted_def)
  next
    assume "wedged \<and> watched e"
    then show ?thesis
      by (simp add: watched_def deadmanCheck_def msSinceLastRound_def leader_lost_def stop_def not_le)
  qed
qed

section \<open>Failover\<close>

lemma carried_row:
  assumes "loop_run wedged e" "eg_running e" "eg_state e = Some s" "eg_timer e = Some (due, next_of (es_phase s))"
    "es_phase s \<noteq> Completed"
  shows "\<exists>r. find_round (eg_db e) (es_roundId s) = Some r \<and> row_matches s r \<and> (post_outcome (es_phase s) \<longrightarrow> es_startedAt s \<noteq> None)"
proof -
  have "armed e" using loop_run_ok [OF assms(1)] assms(2,4) by (simp add: node_ok_def watched_def)
  moreover have "next_of (es_phase s) \<noteq> Enter_waiting" using assms(5) by (cases "es_phase s") simp_all
  ultimately have "persisted e" using assms(4) by (simp add: armed_def)
  then show ?thesis using assms(3) by (simp add: persisted_def)
qed


end
