(* ===== verification/VR_FairInv.thy ===== *)
theory VR_FairInv
  imports VR_FairService
begin

text \<open>
  What the fairness service keeps of its tables: every epoch's rows are the hash chain its commitment
  opens, an epoch that has left \<open>pending\<close> has a salt, at most one epoch is active; and what follows for
  the seeds it allocates and publishes.
\<close>

section \<open>The invariant of the epochs\<close>

text \<open>Row identifiers are one function of the epoch and the index, as distinct UUIDs are.\<close>

record fair_ids =
  id_sha :: "string \<Rightarrow> string"
  id_chain :: "int \<Rightarrow> uid"
  id_seed :: "int \<Rightarrow> nat \<Rightarrow> uid"

definition ids_inj :: "fair_ids \<Rightarrow> bool" where
  "ids_inj k \<longleftrightarrow> inj (id_chain k) \<and> inj (\<lambda>(e, i). id_seed k e i)"

definition env_of :: "fair_ids \<Rightarrow> fair_env \<Rightarrow> bool" where
  "env_of k env \<longleftrightarrow> fe_sha env = id_sha k \<and> fe_chainId env = id_chain k \<and> fe_seedId env = id_seed k \<and>
     (\<forall>e. fe_rnd env e \<noteq> [])"

definition seeds_of :: "uid \<Rightarrow> fair_db \<Rightarrow> fairness_seed list" where
  "seeds_of i db = filter (\<lambda>s. fs_chainId s = i) (fd_seeds db)"

definition seed_core :: "fairness_seed \<Rightarrow> uid \<times> nat \<times> string option \<times> string" where
  "seed_core s = (fs_id s, fs_index s, fs_seed s, fs_seedHash s)"

definition chain_rows :: "fair_ids \<Rightarrow> int \<Rightarrow> string list \<Rightarrow> (uid \<times> nat \<times> string option \<times> string) list" where
  "chain_rows k e xs = map (\<lambda>(i, x). (id_seed k e i, i, Some x, id_sha k x)) (enumerate 0 xs)"

definition committed :: "fair_ids \<Rightarrow> fair_db \<Rightarrow> fairness_chain \<Rightarrow> string list \<Rightarrow> bool" where
  "committed k db c xs \<longleftrightarrow>
     length xs = fc_length c \<and> 2 \<le> length xs \<and> hd xs = fc_commitHash c \<and>
     (\<forall>i. Suc i < length xs \<longrightarrow> verifyChainLink (id_sha k) (xs ! Suc i) (xs ! i)) \<and>
     map seed_core (seeds_of (fc_id c) db) = chain_rows k (fc_epoch c) xs"

definition salt_ok :: "fairness_chain \<Rightarrow> bool" where
  "salt_ok c \<longleftrightarrow> (fc_status c \<noteq> Ep_pending \<longrightarrow> \<not> falsy_string (fc_salt c)) \<and>
     (fc_status c = Ep_pending \<longrightarrow> fc_saltSource c = ''eth-block'')"

definition row_ok :: "fair_ids \<Rightarrow> fair_db \<Rightarrow> fairness_chain \<Rightarrow> bool" where
  "row_ok k db c \<longleftrightarrow> fc_id c = id_chain k (fc_epoch c) \<and> salt_ok c \<and> (\<exists>xs. committed k db c xs)"

definition rows_inv :: "fair_ids \<Rightarrow> fair_db \<Rightarrow> bool" where
  "rows_inv k db \<longleftrightarrow>
     distinct (map fc_epoch (fd_chains db)) \<and>
     (\<forall>c \<in> set (fd_chains db). row_ok k db c) \<and>
     (\<forall>s \<in> set (fd_seeds db). \<exists>c \<in> set (fd_chains db). fs_chainId s = fc_id c)"

definition one_active :: "fair_db \<Rightarrow> bool" where
  "one_active db \<longleftrightarrow>
     (\<forall>c \<in> set (fd_chains db). \<forall>c' \<in> set (fd_chains db).
        fc_status c = Ep_active \<longrightarrow> fc_status c' = Ep_active \<longrightarrow> fc_id c = fc_id c')"

definition no_active :: "fair_db \<Rightarrow> bool" where
  "no_active db \<longleftrightarrow> (\<forall>c \<in> set (fd_chains db). fc_status c \<noteq> Ep_active)"

definition fair_inv :: "fair_ids \<Rightarrow> fair_db \<Rightarrow> bool" where
  "fair_inv k db \<longleftrightarrow> rows_inv k db \<and> one_active db"

lemma chain_set_sel [simp]:
  "fd_seeds (chain_set i f db) = fd_seeds db" "fd_audit (chain_set i f db) = fd_audit db"
  "fd_chains (chain_set i f db) = update_where (\<lambda>c. fc_id c = i) f (fd_chains db)"
  by (simp_all add: chain_set_def)

definition keeps_identity :: "(fairness_chain \<Rightarrow> fairness_chain) \<Rightarrow> bool" where
  "keeps_identity f \<longleftrightarrow> (\<forall>c. fc_id (f c) = fc_id c \<and> fc_epoch (f c) = fc_epoch c \<and>
     fc_length (f c) = fc_length c \<and> fc_commitHash (f c) = fc_commitHash c)"

lemma committed_cong:
  assumes "keeps_identity f" and "fd_seeds db' = fd_seeds db"
  shows "committed k db' (f c) xs = committed k db c xs"
  using assms by (simp add: committed_def seeds_of_def keeps_identity_def)

lemma rows_inv_set:
  assumes inv: "rows_inv k db" and f: "keeps_identity f"
    and salt: "\<And>c. c \<in> set (fd_chains db) \<Longrightarrow> fc_id c = i \<Longrightarrow> salt_ok (f c)"
  shows "rows_inv k (chain_set i f db)"
proof -
  have e: "map fc_epoch (fd_chains (chain_set i f db)) = map fc_epoch (fd_chains db)"
    and d: "map fc_id (fd_chains (chain_set i f db)) = map fc_id (fd_chains db)"
    using f by (auto simp: keeps_identity_def update_where_def)
  have "row_ok k (chain_set i f db) (if fc_id c = i then f c else c)" if c: "c \<in> set (fd_chains db)" for c
    using inv c f salt [OF c] committed_cong [OF f, of "chain_set i f db" db k c]
      committed_cong [of id "chain_set i f db" db k c]
    by (auto simp: rows_inv_def row_ok_def keeps_identity_def)
  then have "\<forall>c \<in> set (fd_chains (chain_set i f db)). row_ok k (chain_set i f db) c"
    by (simp only: chain_set_sel Ball_update_where) blast
  moreover have "\<exists>c' \<in> set (fd_chains (chain_set i f db)). fs_chainId s = fc_id c'" if "s \<in> set (fd_seeds db)" for s
    using that inv d unfolding rows_inv_def by (metis (no_types, lifting) image_iff list.set_map)
  ultimately show ?thesis
    using inv unfolding rows_inv_def e chain_set_sel(1) by blast
qed

lemma salt_ok_truthy: "\<not> falsy_string (fc_salt c) \<Longrightarrow> fc_status c \<noteq> Ep_pending \<Longrightarrow> salt_ok c"
  by (simp add: salt_ok_def)

lemma epoch_unique:
  "rows_inv k db \<Longrightarrow> ids_inj k \<Longrightarrow> c \<in> set (fd_chains db) \<Longrightarrow> c' \<in> set (fd_chains db) \<Longrightarrow>
   fc_id c = fc_id c' \<Longrightarrow> c = c'"
  unfolding rows_inv_def row_ok_def ids_inj_def by (metis distinct_key_eq injD)

lemma rows_inv_retire:
  assumes "rows_inv k db" "ids_inj k" "c \<in> set (fd_chains db)" "fc_status c \<noteq> Ep_pending"
  shows "rows_inv k (retireChain (fc_id c) db)"
  unfolding retireChain_def
proof (rule rows_inv_set [OF assms(1)])
  show "keeps_identity (\<lambda>c. c\<lparr>fc_status := Ep_exhausted\<rparr>)" by (simp add: keeps_identity_def)
  show "salt_ok (c'\<lparr>fc_status := Ep_exhausted\<rparr>)" if "c' \<in> set (fd_chains db)" "fc_id c' = fc_id c" for c'
    using epoch_unique [OF assms(1,2) that(1) assms(3) that(2)] assms(1,3,4)
    by (auto simp: rows_inv_def row_ok_def salt_ok_def)
qed

lemma rows_inv_promote:
  assumes "rows_inv k db" "ids_inj k" "fc_id c \<in> fc_id ` set (fd_chains db)"
    and "\<And>x. x \<in> set (fd_chains db) \<Longrightarrow> fc_id x = fc_id c \<Longrightarrow> \<not> falsy_string (fc_salt x)"
  shows "rows_inv k (snd (promote c db))"
  unfolding promote_def snd_conv
proof (rule rows_inv_set [OF assms(1)])
  show "keeps_identity (\<lambda>c. c\<lparr>fc_status := Ep_active\<rparr>)" by (simp add: keeps_identity_def)
  show "salt_ok (x\<lparr>fc_status := Ep_active\<rparr>)" if "x \<in> set (fd_chains db)" "fc_id x = fc_id c" for x
    using assms(4) [OF that] by (simp add: salt_ok_def)
qed

section \<open>One active epoch\<close>

lemma no_active_one: "no_active db \<Longrightarrow> one_active db"
  by (simp add: no_active_def one_active_def)

lemma retire_no_active: "one_active db \<Longrightarrow> findActive db = Some a \<Longrightarrow> no_active (retireChain (fc_id a) db)"
  by (drule findActive_Some)
    (simp add: one_active_def no_active_def retireChain_def Ball_update_where, metis)

lemma retire_keeps_no_active: "no_active db \<Longrightarrow> no_active (retireChain i db)"
  by (simp add: no_active_def retireChain_def Ball_update_where)

lemma retire_keeps_one_active: "one_active db \<Longrightarrow> one_active (retireChain i db)"
proof -
  have "c \<in> set (fd_chains db)" if "c \<in> set (fd_chains (retireChain i db))" "fc_status c = Ep_active" for c
    using that by (auto simp: retireChain_def table_simps split: if_splits)
  then show "one_active db \<Longrightarrow> one_active (retireChain i db)" unfolding one_active_def by blast
qed

lemma promote_one_active: "no_active db \<Longrightarrow> one_active (snd (promote c db))"
  by (simp add: one_active_def no_active_def promote_def Ball_update_where)

section \<open>A new epoch\<close>

lemma epoch_commitment_cases:
  assumes "epoch_commitment env act e = r" and "\<And>e. fe_rnd env e \<noteq> []"
  shows "r = None \<and> requireBlockSalt env \<or>
    (\<exists>fb c. r = Some (fb, c) \<and> (act \<longrightarrow> \<not> falsy_string (sc_salt c)) \<and>
       (falsy_string (sc_salt c) \<longrightarrow> sc_source c = ''eth-block'') \<and>
       (requireBlockSalt env \<longrightarrow> fe_provider env = EthBlockSaltProvider \<longrightarrow> \<not> act))"
proof -
  have eth: "salt_commit o' rp rn pr = Inr c \<Longrightarrow> falsy_string (sc_salt c) \<Longrightarrow> rn \<noteq> [] \<Longrightarrow> sc_source c = ''eth-block''"
    for o' rp rn pr c
    by (cases pr) (auto simp: falsy_string_def split: sum.splits)
  have none: "salt_commit o' rp rn EthBlockSaltProvider = Inr c \<Longrightarrow> falsy_string (sc_salt c)" for o' rp rn c
    by (auto simp: falsy_string_def split: sum.splits)
  show ?thesis
    using assms eth none unfolding epoch_commitment_def Let_def
    by (auto split: sum.splits if_splits simp: falsy_string_def)
qed

lemma new_seeds_core: "env_of k env \<Longrightarrow> map seed_core (new_seeds env e xs) = chain_rows k e xs"
  by (simp add: new_seeds_def chain_rows_def seed_core_def env_of_def split_def)

lemma new_seeds_chain: "s \<in> set (new_seeds env e xs) \<Longrightarrow> fs_chainId s = fe_chainId env e"
  by (auto simp: new_seeds_def)

lemma seeds_of_append [simp]:
  "seeds_of i \<lparr>fd_chains = cs, fd_seeds = xs @ ys, fd_audit = a\<rparr> =
     filter (\<lambda>s. fs_chainId s = i) xs @ filter (\<lambda>s. fs_chainId s = i) ys"
  by (simp add: seeds_of_def)

definition opened :: "fair_env \<Rightarrow> bool \<Rightarrow> fairness_chain \<Rightarrow> string list \<Rightarrow> fair_db \<Rightarrow> fair_db \<Rightarrow> bool" where
  "opened env act c xs db db' \<longleftrightarrow>
     fd_chains db' = fd_chains db @ [c] \<and> fd_seeds db' = fd_seeds db @ new_seeds env (next_epoch db) xs \<and>
     fc_id c = fe_chainId env (next_epoch db) \<and> fc_epoch c = next_epoch db \<and> 2 \<le> length xs \<and>
     (fc_status c = Ep_active \<longleftrightarrow> act) \<and> salt_ok c"

lemma createEpoch_cases:
  assumes "createEpoch env act db = (r, db')" and env: "env_of k env" and ids: "ids_inj k" and inv: "rows_inv k db"
  shows "r = None \<and> db' = db \<and> requireBlockSalt env \<or>
    (\<exists>c xs. r = Some c \<and> opened env act c xs db db' \<and> rows_inv k db' \<and>
       (requireBlockSalt env \<longrightarrow> fe_provider env = EthBlockSaltProvider \<longrightarrow> \<not> act))"
proof -
  let ?e = "next_epoch db"
  have rnd: "\<And>e. fe_rnd env e \<noteq> []" using env by (simp add: env_of_def)
  obtain xs where xs: "generateSeedChain (fe_sha env) (fe_last env ?e) (chainLength env) = Inr xs"
    and len: "2 \<le> length xs" "length xs = chainLength env"
  proof -
    have "2 \<le> chainLength env" by (simp add: chainLength_def split: option.splits)
    then show thesis using that generateSeedChain_length [of "fe_sha env" "fe_last env ?e" "chainLength env"]
      by (cases "generateSeedChain (fe_sha env) (fe_last env ?e) (chainLength env)")
        (auto simp: generateSeedChain_def split: if_splits)
  qed
  show ?thesis
    using epoch_commitment_cases [OF refl rnd, of act ?e]
  proof (elim disjE exE conjE)
    assume "epoch_commitment env act ?e = None" "requireBlockSalt env"
    then show ?thesis using assms(1) by (auto simp: createEpoch_def)
  next
    fix fb c
    assume c: "epoch_commitment env act ?e = Some (fb, c)" "act \<longrightarrow> \<not> falsy_string (sc_salt c)"
      "falsy_string (sc_salt c) \<longrightarrow> sc_source c = ''eth-block''"
      "requireBlockSalt env \<longrightarrow> fe_provider env = EthBlockSaltProvider \<longrightarrow> \<not> act"
    let ?c = "new_chain env ?e act c xs"
    have r: "r = Some ?c" and db': "db' = \<lparr>fd_chains = fd_chains db @ [?c],
        fd_seeds = fd_seeds db @ new_seeds env ?e xs, fd_audit = fd_audit db @ epoch_events env ?c fb\<rparr>"
      using assms(1) c(1) xs by (auto simp: createEpoch_def Let_def)
    have op: "opened env act ?c xs db db'"
      using c len by (auto simp: opened_def db' new_chain_def new_status_def salt_ok_def)
    have fresh: "fc_epoch d \<noteq> ?e \<and> fc_id d \<noteq> fe_chainId env ?e" if "d \<in> set (fd_chains db)" for d
      using next_epoch_gt [OF that] inv ids env that
      by (auto simp: rows_inv_def row_ok_def ids_inj_def env_of_def dest: injD)
    then have noseed: "fs_chainId s \<noteq> fe_chainId env ?e" if "s \<in> set (fd_seeds db)" for s
      using inv that unfolding rows_inv_def by metis
    have keep: "row_ok k db' d" if "d \<in> set (fd_chains db)" for d
    proof -
      have "filter (\<lambda>s. fs_chainId s = fc_id d) (new_seeds env ?e xs) = []"
        using fresh [OF that] new_seeds_chain by (fastforce simp: filter_empty_conv)
      then have "seeds_of (fc_id d) db' = seeds_of (fc_id d) db" unfolding db' by (simp add: seeds_of_def)
      then have "committed k db' d ys = committed k db d ys" for ys by (simp add: committed_def)
      then show ?thesis using inv that by (simp add: rows_inv_def row_ok_def)
    qed
    have "seeds_of (fe_chainId env ?e) db' = new_seeds env ?e xs"
      using noseed new_seeds_chain [of _ env ?e xs] unfolding db' seeds_of_append
      by (simp add: filter_empty_conv filter_id_conv)
    then have "committed k db' ?c xs"
      using len xs env generateSeedChain_link [OF xs] new_seeds_core [OF env]
      by (simp add: committed_def new_chain_def env_of_def)
    then have "row_ok k db' ?c"
      using op env by (auto simp: row_ok_def opened_def env_of_def new_chain_def)
    with keep have "rows_inv k db'"
      using inv fresh new_seeds_chain
      unfolding rows_inv_def by (fastforce simp: db' new_chain_def)
    with r op c(4) show ?thesis by blast
  qed
qed

section \<open>The active epoch\<close>

text \<open>Where the epoch that serves next comes from: it was queued or it is new.\<close>

definition serves :: "fair_env \<Rightarrow> fair_db \<Rightarrow> fairness_chain \<Rightarrow> fair_db \<Rightarrow> bool" where
  "serves env db c db' \<longleftrightarrow>
     c \<in> set (fd_chains db') \<and> fc_status c = Ep_active \<and> \<not> falsy_string (fc_salt c) \<and>
     (requireBlockSalt env \<longrightarrow> fe_provider env = EthBlockSaltProvider \<longrightarrow> fc_saltSource c = ''eth-block'') \<and>
     (fd_seeds db' = fd_seeds db \<and> (\<exists>d \<in> set (fd_chains db). fc_id d = fc_id c \<and> queued_epoch d) \<or>
      (\<exists>xs. 2 \<le> length xs \<and> fd_seeds db' = fd_seeds db @ new_seeds env (next_epoch db) xs \<and>
         fc_id c = fe_chainId env (next_epoch db)))"

definition ensured :: "fair_ids \<Rightarrow> fair_env \<Rightarrow> fair_db \<Rightarrow> fairness_chain option \<times> fair_db \<Rightarrow> bool" where
  "ensured k env db p \<longleftrightarrow> fair_inv k (snd p) \<and>
     (case fst p of None \<Rightarrow> requireBlockSalt env | Some c \<Rightarrow> serves env db c (snd p))"

lemma next_epoch_cong: "map fc_epoch (fd_chains db) = map fc_epoch (fd_chains db') \<Longrightarrow> next_epoch db = next_epoch db'"
proof -
  have "next_epoch db = fold (\<lambda>e m. max m e) (map fc_epoch (fd_chains db)) (- 1) + 1" for db
    by (simp add: next_epoch_def fold_map comp_def)
  then show "map fc_epoch (fd_chains db) = map fc_epoch (fd_chains db') \<Longrightarrow> next_epoch db = next_epoch db'"
    by metis
qed

lemma ensured_after_retire:
  assumes "ensured k env (retireChain i db) p"
  shows "ensured k env db p"
proof -
  have "next_epoch (retireChain i db) = next_epoch db"
    by (rule next_epoch_cong) (simp add: retireChain_def)
  moreover have "d \<in> set (fd_chains db)" if "d \<in> set (fd_chains (retireChain i db))" "queued_epoch d" for d
    using that by (auto simp: retireChain_def table_simps queued_epoch_def split: if_splits)
  moreover have "fd_seeds (retireChain i db) = fd_seeds db" by (simp add: retireChain_def)
  ultimately show ?thesis
    using assms unfolding ensured_def serves_def by (auto split: option.splits)
qed

lemma ensured_create:
  assumes "env_of k env" "ids_inj k" "rows_inv k db" "no_active db"
  shows "ensured k env db (createEpoch env True db)"
proof (cases "createEpoch env True db")
  case (Pair r db')
  show ?thesis
    using createEpoch_cases [OF Pair assms(1,2,3)]
  proof (elim disjE exE conjE)
    fix c xs
    assume *: "r = Some c" "opened env True c xs db db'" "rows_inv k db'"
      "requireBlockSalt env \<longrightarrow> fe_provider env = EthBlockSaltProvider \<longrightarrow> \<not> True"
    have "one_active db'"
      using assms(4) *(2) by (auto simp: one_active_def no_active_def opened_def)
    moreover have "serves env db c db'"
      using * by (auto simp: serves_def opened_def salt_ok_def)
    ultimately show ?thesis using * Pair by (simp add: ensured_def fair_inv_def)
  qed (use assms Pair in \<open>simp add: ensured_def fair_inv_def no_active_one\<close>)
qed

lemma ensured_promote:
  assumes ids: "ids_inj k" and inv: "rows_inv k db" and na: "no_active db" and c: "c \<in> set (fd_chains db)"
    and salt: "\<not> falsy_string (fc_salt c)"
    and src: "requireBlockSalt env \<longrightarrow> fe_provider env = EthBlockSaltProvider \<longrightarrow> fc_saltSource c = ''eth-block''"
    and origin: "\<exists>d \<in> set (fd_chains db0). fc_id d = fc_id c \<and> queued_epoch d" "fd_seeds db = fd_seeds db0"
  shows "ensured k env db0 (promote c db)"
proof -
  have "rows_inv k (snd (promote c db))"
    using c salt epoch_unique [OF inv ids] by (intro rows_inv_promote [OF inv ids]) auto
  moreover have "c\<lparr>fc_status := Ep_active\<rparr> \<in> set (fd_chains (snd (promote c db)))"
    using c by (auto simp: promote_def table_simps)
  ultimately show ?thesis
    using promote_one_active [OF na] salt src origin
    by (auto simp: ensured_def fair_inv_def serves_def promote_def)
qed

lemma ensured_pending:
  assumes env: "env_of k env" and ids: "ids_inj k" and inv: "rows_inv k db" and na: "no_active db"
  shows "ensured k env db (activate_pending env db)"
proof (cases "first_epoch (\<lambda>c. fc_status c = Ep_pending) (fd_chains db)")
  case None
  then show ?thesis using ensured_create [OF assms] by (simp add: activate_pending_def)
next
  case (Some p)
  then have p: "p \<in> set (fd_chains db)" "fc_status p = Ep_pending" using first_epoch_Some by fastforce+
  show ?thesis
  proof (cases "falsy_string (tryResolve env p)")
    case True
    then show ?thesis using Some ensured_create [OF assms] by (simp add: activate_pending_def)
  next
    case False
    let ?f = "\<lambda>x. x\<lparr>fc_salt := tryResolve env p, fc_armedAt := Some (fe_now env)\<rparr>"
    let ?db = "chain_set (fc_id p) ?f db"
    have keep: "keeps_identity ?f" by (simp add: keeps_identity_def)
    have so: "salt_ok p" using inv p by (simp add: rows_inv_def row_ok_def)
    have "salt_ok (?f c)" if "c \<in> set (fd_chains db)" "fc_id c = fc_id p" for c
      using epoch_unique [OF inv ids that(1) p(1) that(2)] so p(2) by (simp add: salt_ok_def)
    then have "rows_inv k ?db" by (intro rows_inv_set [OF inv keep]) auto
    moreover have "no_active ?db" using na by (simp add: no_active_def Ball_update_where)
    moreover have "?f p \<in> set (fd_chains ?db)" using p by (auto simp: table_simps)
    ultimately have "ensured k env db (promote (?f p) ?db)"
      using so p False by (intro ensured_promote [OF ids]) (auto simp: salt_ok_def queued_epoch_def)
    then show ?thesis using Some False by (simp add: activate_pending_def Let_def)
  qed
qed


lemma ensured_armed:
  assumes env: "env_of k env" and ids: "ids_inj k" and inv: "rows_inv k db" and na: "no_active db"
  shows "ensured k env db (activate_armed env db)"
proof (cases "first_epoch (\<lambda>c. fc_status c = Ep_armed) (fd_chains db)")
  case None
  then show ?thesis using ensured_pending [OF assms] by (simp add: activate_armed_def)
next
  case (Some a)
  then have a: "a \<in> set (fd_chains db)" "fc_status a = Ep_armed" using first_epoch_Some by fastforce+
  show ?thesis
  proof (cases "grindable env a")
    case True
    have "rows_inv k (retireChain (fc_id a) db)" using a by (intro rows_inv_retire [OF inv ids]) auto
    then have "ensured k env (retireChain (fc_id a) db) (activate_pending env (retireChain (fc_id a) db))"
      by (intro ensured_pending [OF env ids] retire_keeps_no_active [OF na])
    with Some True show ?thesis by (simp add: activate_armed_def ensured_after_retire)
  next
    case False
    have "salt_ok a" using inv a by (simp add: rows_inv_def row_ok_def)
    then have "ensured k env db (promote a db)"
      using a False by (intro ensured_promote [OF ids inv na]) (auto simp: salt_ok_def queued_epoch_def grindable_def)
    with Some False show ?thesis by (simp add: activate_armed_def)
  qed
qed

lemma ensureActiveChain_cases:
  assumes env: "env_of k env" and ids: "ids_inj k" and inv: "fair_inv k db"
  shows "(\<exists>a. ensureActiveChain env db = (Some a, db) \<and> findActive db = Some a \<and> \<not> grindable env a) \<or>
         ensured k env db (ensureActiveChain env db)"
proof (cases "findActive db")
  case None
  then have "no_active db" by (simp add: findActive_None no_active_def)
  with None show ?thesis
    using ensured_armed [OF env ids] inv by (simp add: ensureActiveChain_def fair_inv_def)
next
  case (Some a)
  show ?thesis
  proof (cases "grindable env a")
    case True
    have a: "a \<in> set (fd_chains db)" "fc_status a = Ep_active" using findActive_Some [OF Some] by auto
    have "ensured k env (retireChain (fc_id a) db) (activate_armed env (retireChain (fc_id a) db))"
      using inv a Some
      by (intro ensured_armed [OF env ids] rows_inv_retire [OF _ ids] retire_no_active) (auto simp: fair_inv_def)
    with Some True show ?thesis by (simp add: ensureActiveChain_def ensured_after_retire)
  qed (use Some in \<open>simp add: ensureActiveChain_def\<close>)
qed

lemma ensureActiveChain_inv:
  assumes "env_of k env" "ids_inj k" "fair_inv k db"
  shows "fair_inv k (snd (ensureActiveChain env db))"
  using ensureActiveChain_cases [OF assms] assms(3) by (auto simp: ensured_def)

lemma ensureActiveChain_serving:
  assumes "env_of k env" "ids_inj k" "fair_inv k db" "ensureActiveChain env db = (Some c, db')"
  shows "c \<in> set (fd_chains db') \<and> fc_status c = Ep_active \<and> \<not> falsy_string (fc_salt c) \<and>
    (requireBlockSalt env \<longrightarrow> fe_provider env = EthBlockSaltProvider \<longrightarrow> fc_saltSource c = ''eth-block'')"
  using ensureActiveChain_cases [OF assms(1-3)]
proof (elim disjE exE conjE)
  fix a
  assume "ensureActiveChain env db = (Some a, db)" "findActive db = Some a" "\<not> grindable env a"
  then show ?thesis
    using assms(3,4) findActive_Some [of db a]
    by (auto simp: fair_inv_def rows_inv_def row_ok_def salt_ok_def grindable_def)
qed (use assms(4) in \<open>simp add: ensured_def serves_def\<close>)

end
