(* ===== verification/VR_FairRun.thy ===== *)
theory VR_FairRun
  imports VR_FairInv
begin

text \<open>
  Runs of the fairness service: boot (\<open>ensureChain\<close>), allocation, upkeep with a possibly outdated read of
  the pending epochs, and reveals, in any order. Every run keeps the invariant, so an allocated seed is
  the next unused one of a committed chain, and what is published verifies and gives nothing away.
\<close>

section \<open>Runs\<close>

inductive fair_run :: "fair_ids \<Rightarrow> fair_db \<Rightarrow> bool" for k where
  run_empty: "fair_run k \<lparr>fd_chains = [], fd_seeds = [], fd_audit = []\<rparr>"
| run_ensure: "fair_run k db \<Longrightarrow> env_of k env \<Longrightarrow> fair_run k (snd (ensureChain env db))"
| run_allocate: "fair_run k db \<Longrightarrow> env_of k env \<Longrightarrow> fair_run k (snd (allocateSeed env rounds db))"
| run_maintain: "fair_run k db \<Longrightarrow> env_of k env \<Longrightarrow> fair_run k (maintain env pendings db)"
| run_reveal: "fair_run k db \<Longrightarrow> revealSeed now seedId db = Inr db' \<Longrightarrow> fair_run k db'"

lemma allocateSeed_inv:
  assumes "env_of k env" "ids_inj k" "fair_inv k db"
  shows "fair_inv k (snd (allocateSeed env rounds db))"
proof -
  have r: "fair_inv k (retireChain (fc_id c) db')"
    if "ensureActiveChain env db = (Some c, db')" for c db'
  proof -
    have i: "fair_inv k db'" using ensureActiveChain_inv [OF assms] that by simp
    show ?thesis
      using ensureActiveChain_serving [OF assms that] i assms(2)
      by (auto simp: fair_inv_def intro: rows_inv_retire retire_keeps_one_active)
  qed
  show ?thesis
    using ensureActiveChain_inv [OF assms] ensureActiveChain_inv [OF assms(1,2) r]
    unfolding allocateSeed_def by (fastforce split: prod.splits option.splits)
qed

lemma arm_step_inv: "fair_inv k db \<Longrightarrow> fair_inv k (arm_step env p db)"
proof (cases "tryResolve env p")
  case (Some salt)
  let ?f = "\<lambda>x. x\<lparr>fc_salt := Some salt, fc_status := Ep_armed, fc_armedAt := Some (fe_now env)\<rparr>"
  let ?db = "chain_set (fc_id p) ?f db"
  assume inv: "fair_inv k db"
  have "rows_inv k ?db" if "salt \<noteq> []"
    using inv that by (intro rows_inv_set) (auto simp: fair_inv_def keeps_identity_def salt_ok_def falsy_string_def)
  moreover have "c \<in> set (fd_chains db)" if "c \<in> set (fd_chains ?db)" "fc_status c = Ep_active" for c
    using that by (auto simp: table_simps split: if_splits)
  then have "one_active ?db" using inv unfolding fair_inv_def one_active_def by blast
  moreover have "fair_inv k (d\<lparr>fd_audit := a\<rparr>) = fair_inv k d" for d a
    by (simp add: fair_inv_def rows_inv_def one_active_def row_ok_def committed_def seeds_of_def)
  ultimately show ?thesis using inv Some by (simp add: arm_step_def fair_inv_def)
qed (simp add: arm_step_def)

lemma maintain_inv:
  assumes env: "env_of k env" and ids: "ids_inj k" and inv: "fair_inv k db"
  shows "fair_inv k (maintain env pendings db)"
proof -
  let ?db = "fold (arm_step env) pendings db"
  have f: "fair_inv k ?db" using inv by (induction pendings arbitrary: db) (auto intro: arm_step_inv)
  have "fair_inv k (snd (createEpoch env False ?db))"
  proof (cases "createEpoch env False ?db")
    case (Pair r db')
    then show ?thesis
    proof (rule ssubst)
      have rows: "rows_inv k ?db" using f by (simp add: fair_inv_def)
      show "fair_inv k (snd (r, db'))"
        using createEpoch_cases [OF Pair env ids rows]
      proof (elim disjE exE conjE)
        fix c xs
        assume o: "opened env False c xs ?db db'" and "rows_inv k db'"
        moreover have "d \<in> set (fd_chains ?db)" if "d \<in> set (fd_chains db')" "fc_status d = Ep_active" for d
          using that o by (auto simp: opened_def)
        then have "one_active db'" using f unfolding fair_inv_def one_active_def by blast
        ultimately show ?thesis by (simp add: fair_inv_def)
      qed (use f in simp)
    qed
  qed
  with f show ?thesis by (simp add: maintain_def Let_def)
qed

lemma revealSeed_inv:
  assumes "revealSeed now i db = Inr db'" and inv: "fair_inv k db"
  shows "fair_inv k db'"
proof -
  have db': "db' = db\<lparr>fd_seeds := update_where (\<lambda>s. fs_id s = i) (\<lambda>s. s\<lparr>fs_revealedAt := Some now\<rparr>) (fd_seeds db)\<rparr>"
    using assms(1) by (simp add: revealSeed_def split: if_splits)
  have "map seed_core (filter (\<lambda>s. fs_chainId s = j)
          (update_where (\<lambda>s. fs_id s = i) (\<lambda>s. s\<lparr>fs_revealedAt := Some now\<rparr>) ss)) =
        map seed_core (filter (\<lambda>s. fs_chainId s = j) ss)" for j ss
    by (induction ss) (auto simp: seed_core_def)
  then have "map seed_core (seeds_of j db') = map seed_core (seeds_of j db)" for j
    by (simp add: db' seeds_of_def)
  then have "committed k db' c xs = committed k db c xs" for c xs by (simp add: committed_def)
  then have row: "row_ok k db' c = row_ok k db c" for c by (simp only: row_ok_def)
  have chains: "fd_chains db' = fd_chains db" by (simp add: db')
  have seeds: "(\<forall>s \<in> set (fd_seeds db'). \<exists>c \<in> set (fd_chains db). fs_chainId s = fc_id c) =
      (\<forall>s \<in> set (fd_seeds db). \<exists>c \<in> set (fd_chains db). fs_chainId s = fc_id c)"
    unfolding db' by (simp add: Ball_update_where cong: if_cong)
  show ?thesis
    using inv unfolding fair_inv_def rows_inv_def one_active_def chains row seeds by blast
qed

lemma fair_run_inv: "fair_run k db \<Longrightarrow> ids_inj k \<Longrightarrow> fair_inv k db"
proof (induction rule: fair_run.induct)
  case run_empty
  show ?case by (simp add: fair_inv_def rows_inv_def one_active_def)
qed (auto simp: ensureChain_def Let_def intro: ensureActiveChain_inv allocateSeed_inv maintain_inv revealSeed_inv)

section \<open>The seed chain\<close>

lemma hash_back:
  assumes "\<And>i. Suc i < length xs \<Longrightarrow> verifyChainLink sha (xs ! Suc i) (xs ! i)" and "i < length xs"
  shows "(sha ^^ i) (xs ! i) = hd xs"
  using assms(2)
proof (induction i)
  case 0
  then show ?case by (simp add: hd_conv_nth)
next
  case (Suc i)
  then show ?case
    using assms(1) [of i] by (simp add: verifyChainLink_def funpow_swap1)
qed

lemma seed_row:
  assumes "committed k db c xs" "s \<in> set (fd_seeds db)" "fs_chainId s = fc_id c"
  shows "fs_index s < length xs \<and> fs_seed s = Some (xs ! fs_index s) \<and> fs_id s = id_seed k (fc_epoch c) (fs_index s) \<and>
    fs_seedHash s = id_sha k (xs ! fs_index s)"
proof -
  have "seed_core s \<in> set (map seed_core (seeds_of (fc_id c) db))"
    using assms(2,3) by (auto simp: seeds_of_def)
  then have "seed_core s \<in> set (chain_rows k (fc_epoch c) xs)" using assms(1) unfolding committed_def by metis
  then show ?thesis by (auto simp: chain_rows_def seed_core_def in_set_enumerate_eq)
qed

lemma seed_commits:
  assumes "rows_inv k db" "c \<in> set (fd_chains db)" "s \<in> set (fd_seeds db)" "fs_chainId s = fc_id c"
  shows "\<exists>x. fs_seed s = Some x \<and> (id_sha k ^^ fs_index s) x = fc_commitHash c"
proof -
  obtain xs where xs: "committed k db c xs" using assms by (auto simp: rows_inv_def row_ok_def)
  then show ?thesis
    using seed_row [OF xs assms(3,4)] hash_back [of xs "id_sha k" "fs_index s"] by (auto simp: committed_def)
qed


section \<open>Unused seeds\<close>

lemma id_seed_inj: "ids_inj k \<Longrightarrow> id_seed k e i = id_seed k e' i' \<Longrightarrow> e = e'"
  unfolding ids_inj_def by (drule conjunct2, drule injD [where x = "(e, i)" and y = "(e', i')"]) auto

text \<open>Queued epochs have served no round, and every round's seed is a row of the table.\<close>

definition fresh_queue :: "round list \<Rightarrow> fair_db \<Rightarrow> bool" where
  "fresh_queue rounds db \<longleftrightarrow>
     (\<forall>c \<in> set (fd_chains db). \<forall>s \<in> set (fd_seeds db). \<forall>r \<in> set rounds.
        queued_epoch c \<longrightarrow> fs_chainId s = fc_id c \<longrightarrow> r_seedId r \<noteq> fs_id s)"

definition seeds_fk :: "round list \<Rightarrow> fair_db \<Rightarrow> bool" where
  "seeds_fk rounds db \<longleftrightarrow> (\<forall>r \<in> set rounds. \<exists>s \<in> set (fd_seeds db). r_seedId r = fs_id s)"

lemma second_seed:
  assumes "rows_inv k db" "c \<in> set (fd_chains db)"
  obtains s where "s \<in> set (fd_seeds db)" "fs_chainId s = fc_id c" "fs_index s = 1" "fs_id s = id_seed k (fc_epoch c) 1"
proof -
  obtain xs where xs: "committed k db c xs" using assms by (auto simp: rows_inv_def row_ok_def)
  then have "(1, xs ! 1) \<in> set (enumerate 0 xs)" by (auto simp: committed_def in_set_enumerate_eq)
  then have "(id_seed k (fc_epoch c) 1, 1, Some (xs ! 1), id_sha k (xs ! 1)) \<in> set (chain_rows k (fc_epoch c) xs)"
    by (force simp: chain_rows_def)
  then have "(id_seed k (fc_epoch c) 1, 1, Some (xs ! 1), id_sha k (xs ! 1)) \<in> set (map seed_core (seeds_of (fc_id c) db))"
    using xs unfolding committed_def by metis
  then show thesis using that by (auto simp: seed_core_def seeds_of_def)
qed

lemma serves_has_seed:
  assumes env: "env_of k env" and ids: "ids_inj k" and inv: "rows_inv k db" "rows_inv k db'"
    and fresh: "fresh_queue rounds db" and fk: "seeds_fk rounds db" and serves: "serves env db c db'"
  shows "nextUnusedSeed rounds (fc_id c) db' \<noteq> None"
proof -
  have c: "c \<in> set (fd_chains db')" using serves by (simp add: serves_def)
  obtain s where s: "s \<in> set (fd_seeds db')" "fs_chainId s = fc_id c" "fs_index s = 1" "fs_id s = id_seed k (fc_epoch c) 1"
    using second_seed [OF inv(2) c] .
  have "r_seedId r \<noteq> fs_id s" if r: "r \<in> set rounds" for r
  proof -
    obtain t where t: "t \<in> set (fd_seeds db)" "r_seedId r = fs_id t" using fk r by (auto simp: seeds_fk_def)
    obtain d where d: "d \<in> set (fd_chains db)" "fs_chainId t = fc_id d" using inv(1) t by (auto simp: rows_inv_def)
    obtain xs where "committed k db d xs" using inv(1) d by (auto simp: rows_inv_def row_ok_def)
    then have tid: "fs_id t = id_seed k (fc_epoch d) (fs_index t)" using seed_row t d by blast
    have new: "r_seedId r \<noteq> fs_id s" if "fc_id c = fe_chainId env (next_epoch db)"
    proof -
      have "id_chain k (fc_epoch c) = id_chain k (next_epoch db)"
        using that env inv(2) c by (simp add: env_of_def rows_inv_def row_ok_def)
      then have "fc_epoch c = next_epoch db" using ids by (auto simp: ids_inj_def dest: injD)
      then have "fc_epoch d \<noteq> fc_epoch c" using next_epoch_gt [OF d(1)] by simp
      then show ?thesis using id_seed_inj [OF ids] t(2) tid s(4) by metis
    qed
    show ?thesis
      using serves new fresh s r unfolding serves_def fresh_queue_def by metis
  qed
  then have "unused_seed rounds (fc_id c) s" using s by (simp add: unused_seed_def)
  then show ?thesis using s(1) nextUnusedSeed_None [of rounds "fc_id c" db'] by blast
qed

section \<open>Properties\<close>

lemma allocateSeed_row:
  assumes env: "env_of k env" and ids: "ids_inj k" and inv: "fair_inv k db"
    and alloc: "allocateSeed env rounds db = (Allocated s c, db')"
  shows "c \<in> set (fd_chains db') \<and> fc_status c = Ep_active \<and> \<not> falsy_string (fc_salt c) \<and>
    (requireBlockSalt env \<longrightarrow> fe_provider env = EthBlockSaltProvider \<longrightarrow> fc_saltSource c = ''eth-block'') \<and>
    nextUnusedSeed rounds (fc_id c) db' = Some s"
proof (cases "ensureActiveChain env db")
  case (Pair r db1)
  then obtain a where a: "ensureActiveChain env db = (Some a, db1)"
    using alloc by (cases r) (auto simp: allocateSeed_def)
  show ?thesis
  proof (cases "nextUnusedSeed rounds (fc_id a) db1")
    case (Some t)
    then show ?thesis using alloc a ensureActiveChain_serving [OF env ids inv a] by (simp add: allocateSeed_def)
  next
    case None
    have inv1: "fair_inv k (retireChain (fc_id a) db1)"
      using ensureActiveChain_serving [OF env ids inv a] ensureActiveChain_inv [OF env ids inv] ids
      by (auto simp: fair_inv_def a intro: rows_inv_retire retire_keeps_one_active)
    obtain n where n: "ensureActiveChain env (retireChain (fc_id a) db1) = (Some n, db')" "s \<in> {s. True}"
      "nextUnusedSeed rounds (fc_id n) db' = Some s" "n = c"
      using alloc a None by (auto simp: allocateSeed_def split: prod.splits option.splits)
    then show ?thesis using ensureActiveChain_serving [OF env ids inv1 n(1)] by simp
  qed
qed

text \<open>C15. After any run of the fairness service the seed a round gets is the lowest unused one of the
  active epoch, hashes back to the published commitment in as many steps as its index, comes with a
  salt, and under \<open>FAIRNESS_REQUIRE_BLOCK_SALT\<close> the salt is a block hash, never the random fallback.\<close>

theorem allocated_seed_committed:
  assumes "fair_run k db" "ids_inj k" "env_of k env" and alloc: "allocateSeed env rounds db = (Allocated s c, db')"
  shows "\<exists>x salt. fs_seed s = Some x \<and> (id_sha k ^^ fs_index s) x = fc_commitHash c \<and> 1 \<le> fs_index s \<and>
    fs_chainId s = fc_id c \<and> fc_status c = Ep_active \<and> fc_salt c = Some salt \<and> salt \<noteq> [] \<and>
    (\<forall>r \<in> set rounds. r_seedId r \<noteq> fs_id s) \<and>
    (\<forall>s' \<in> set (fd_seeds db'). unused_seed rounds (fc_id c) s' \<longrightarrow> fs_index s \<le> fs_index s') \<and>
    (requireBlockSalt env \<longrightarrow> fe_provider env = EthBlockSaltProvider \<longrightarrow> fc_saltSource c = ''eth-block'')"
proof -
  have inv: "fair_inv k db" using assms(1,2) by (rule fair_run_inv)
  note row = allocateSeed_row [OF assms(3,2) inv alloc]
  have s: "s \<in> set (fd_seeds db')" "unused_seed rounds (fc_id c) s"
    using nextUnusedSeed_Some [of rounds "fc_id c" db' s] row by auto
  have "rows_inv k db'"
    using allocateSeed_inv [OF assms(3,2) inv, of rounds] alloc by (simp add: fair_inv_def)
  then obtain x where "fs_seed s = Some x" "(id_sha k ^^ fs_index s) x = fc_commitHash c"
    using seed_commits [of k db' c s] row s by (auto simp: unused_seed_def)
  then show ?thesis
    using row s nextUnusedSeed_least [of rounds "fc_id c" db' s] by (auto simp: unused_seed_def falsy_string_def)
qed

text \<open>Without the strict salt mode every call allocates a seed: it neither stalls nor reaches the
  \<open>fairness_chain_exhausted\<close> error, also when the active epoch has run out and when every endpoint is
  down, because the next epoch is promoted, armed or created on the spot.\<close>

theorem allocateSeed_total:
  assumes env: "env_of k env" "\<not> requireBlockSalt env" and ids: "ids_inj k" and inv: "fair_inv k db"
    and fresh: "fresh_queue rounds db" and fk: "seeds_fk rounds db"
  shows "\<exists>s c db'. allocateSeed env rounds db = (Allocated s c, db')"
proof -
  have served: "\<exists>c db' s. ensureActiveChain env d = (Some c, db') \<and> nextUnusedSeed rounds (fc_id c) db' = Some s"
    if d: "fair_inv k d" "fresh_queue rounds d" "seeds_fk rounds d"
      and e: "ensured k env d (ensureActiveChain env d)" for d
  proof -
    obtain c db' where c: "ensureActiveChain env d = (Some c, db')" "serves env d c db'" "fair_inv k db'"
      using e env(2) by (cases "ensureActiveChain env d") (auto simp: ensured_def split: option.splits)
    then show ?thesis
      using serves_has_seed [OF env(1) ids _ _ d(2,3) c(2)] d(1) by (auto simp: fair_inv_def)
  qed
  show ?thesis
    using ensureActiveChain_cases [OF env(1) ids inv]
  proof (elim disjE exE conjE)
    fix a
    assume a: "ensureActiveChain env db = (Some a, db)" "findActive db = Some a"
    let ?d = "retireChain (fc_id a) db"
    show ?thesis
    proof (cases "nextUnusedSeed rounds (fc_id a) db")
      case None
      have na: "no_active ?d" using inv a(2) by (simp add: fair_inv_def retire_no_active)
      have d: "fair_inv k ?d"
        using inv findActive_Some [OF a(2)] ids by (auto simp: fair_inv_def intro: rows_inv_retire retire_keeps_one_active)
      have "fresh_queue rounds ?d" "seeds_fk rounds ?d"
        using fresh fk unfolding fresh_queue_def seeds_fk_def retireChain_def
        by (auto simp: Ball_update_where queued_epoch_def)
      moreover have "ensured k env ?d (ensureActiveChain env ?d)"
        using ensureActiveChain_cases [OF env(1) ids d] na findActive_Some [of ?d] by (auto simp: no_active_def)
      ultimately obtain c db' s where "ensureActiveChain env ?d = (Some c, db')" "nextUnusedSeed rounds (fc_id c) db' = Some s"
        using served [OF d] by blast
      then show ?thesis using a None by (simp add: allocateSeed_def)
    qed (use a in \<open>simp add: allocateSeed_def\<close>)
  next
    assume "ensured k env db (ensureActiveChain env db)"
    then show ?thesis using served [OF inv fresh fk] by (auto simp: allocateSeed_def)
  qed
qed

text \<open>The tables with every secret removed: the unrevealed seeds, and the salts of epochs not yet served.\<close>

definition redact :: "fair_db \<Rightarrow> fair_db" where
  "redact db =
     \<lparr>fd_chains = map (\<lambda>c. if queued_epoch c then c\<lparr>fc_salt := None\<rparr> else c) (fd_chains db),
      fd_seeds = map (\<lambda>s. if fs_revealedAt s = None then s\<lparr>fs_seed := None, fs_seedHash := []\<rparr> else s) (fd_seeds db),
      fd_audit = fd_audit db\<rparr>"

lemma insort_key_map': "(\<And>x. f (g x) = f x) \<Longrightarrow> insort_key f (g x) (map g xs) = map g (insort_key f x xs)"
  by (induction xs) auto

lemma sort_key_map': "(\<And>x. f (g x) = f x) \<Longrightarrow> sort_key f (map g xs) = map g (sort_key f xs)"
  by (induction xs) (auto simp: insort_key_map')

lemma fold_map_best:
  assumes "\<And>x. P (g x) = P x" "\<And>x y. R (g x) (g y) = R x y"
  shows "fold (\<lambda>c best. if P c \<and> (case best of None \<Rightarrow> True | Some b \<Rightarrow> R c b) then Some c else best)
           (map g cs) (map_option g start) =
         map_option g (fold (\<lambda>c best. if P c \<and> (case best of None \<Rightarrow> True | Some b \<Rightarrow> R c b) then Some c else best) cs start)"
proof (induction cs arbitrary: start)
  case (Cons c cs)
  have "(case map_option g start of None \<Rightarrow> True | Some b \<Rightarrow> R (g c) b) = (case start of None \<Rightarrow> True | Some b \<Rightarrow> R c b)"
    by (cases start) (simp_all add: assms)
  then show ?case using Cons.IH [of "Some c"] Cons.IH [of start] by (simp add: assms)
qed simp

definition hide_salt :: "fairness_chain \<Rightarrow> fairness_chain" where
  "hide_salt c = (if queued_epoch c then c\<lparr>fc_salt := None\<rparr> else c)"

definition hide_seed :: "fairness_seed \<Rightarrow> fairness_seed" where
  "hide_seed s = (if fs_revealedAt s = None then s\<lparr>fs_seed := None, fs_seedHash := []\<rparr> else s)"

lemma redact_alt:
  "redact db = \<lparr>fd_chains = map hide_salt (fd_chains db), fd_seeds = map hide_seed (fd_seeds db), fd_audit = fd_audit db\<rparr>"
  by (simp add: redact_def hide_salt_def hide_seed_def)

lemma hide_salt_sel [simp]:
  "fc_id (hide_salt c) = fc_id c" "fc_epoch (hide_salt c) = fc_epoch c" "fc_status (hide_salt c) = fc_status c"
  "fc_commitHash (hide_salt c) = fc_commitHash c" "fc_saltSource (hide_salt c) = fc_saltSource c"
  "fc_targetChain (hide_salt c) = fc_targetChain c" "fc_targetBlock (hide_salt c) = fc_targetBlock c"
  "fc_length (hide_salt c) = fc_length c" "fc_createdAt (hide_salt c) = fc_createdAt c"
  "fc_armedAt (hide_salt c) = fc_armedAt c" "public_salt (hide_salt c) = public_salt c"
  "queued_epoch (hide_salt c) = queued_epoch c"
  by (simp_all add: hide_salt_def public_salt_def queued_epoch_def)

lemma hide_seed_sel [simp]:
  "fs_chainId (hide_seed s) = fs_chainId s" "fs_index (hide_seed s) = fs_index s"
  "fs_revealedAt (hide_seed s) = fs_revealedAt s"
  by (simp_all add: hide_seed_def)

lemma revealed_redact [simp]: "revealed_of i (redact db) = revealed_of i db"
  by (simp add: revealed_of_def count_where_def redact_alt filter_map comp_def)

lemma findActive_redact [simp]: "findActive (redact db) = findActive db"
proof -
  have "findActive (redact db) = map_option hide_salt (findActive db)"
    unfolding findActive_def last_epoch_def redact_alt fair_db.select_convs
    by (rule fold_map_best [where start = None, simplified]) simp_all
  then show ?thesis
    using findActive_Some [of db] by (cases "findActive db") (auto simp: hide_salt_def queued_epoch_def)
qed

lemma first_queued_redact:
  "first_epoch queued_epoch (fd_chains (redact db)) = map_option hide_salt (first_epoch queued_epoch (fd_chains db))"
  unfolding first_epoch_def redact_alt fair_db.select_convs
  by (rule fold_map_best [where start = None, simplified]) simp_all

lemma epochSeeds_redact: "epochSeeds e (redact db) = epochSeeds e db"
proof -
  have f: "find (\<lambda>c. fc_epoch c = e) (map hide_salt cs) = map_option hide_salt (find (\<lambda>c. fc_epoch c = e) cs)" for cs
    by (induction cs) auto
  have r: "map hide_seed (filter (\<lambda>s. fs_chainId s = i \<and> fs_revealedAt s \<noteq> None) ss) =
      filter (\<lambda>s. fs_chainId s = i \<and> fs_revealedAt s \<noteq> None) ss" for i ss
    by (induction ss) (auto simp: hide_seed_def)
  have s: "filter (\<lambda>s. fs_chainId s = i \<and> fs_revealedAt s \<noteq> None) (map hide_seed ss) =
      filter (\<lambda>s. fs_chainId s = i \<and> fs_revealedAt s \<noteq> None) ss" for i ss
    using r [of i ss] by (simp only: filter_map comp_def hide_seed_sel)
  show ?thesis
    unfolding epochSeeds_def redact_alt fair_db.select_convs f s Let_def
    by (cases "find (\<lambda>c. fc_epoch c = e) (fd_chains db)") simp_all
qed

lemma published_redacted:
  "getCurrentCommit env (redact db) = getCurrentCommit env db" "epochSeeds e (redact db) = epochSeeds e db"
  by (auto simp: getCurrentCommit_def first_queued_redact option.map_comp comp_def epochSeeds_redact split: option.split)

text \<open>The listing of the epochs as a function of the redacted rows and of the hash of each salt.\<close>

definition listed_view :: "(uid \<Rightarrow> nat) \<Rightarrow> fairness_chain \<times> string option \<Rightarrow> epoch_view" where
  "listed_view revealed p =
     (case p of (c, h) \<Rightarrow>
        \<lparr>ep_epoch = fc_epoch c, ep_commitHash = fc_commitHash c, ep_saltSource = fc_saltSource c, ep_salt = public_salt c,
         ep_saltHash = h, ep_targetChain = fc_targetChain c, ep_targetBlock = fc_targetBlock c, ep_length = fc_length c,
         ep_status = fc_status c, ep_roundsRevealed = max 0 (int (revealed (fc_id c)) - 1), ep_createdAt = fc_createdAt c,
         ep_armedAt = fc_armedAt c\<rparr>)"

lemma listEpochs_redacted:
  "listEpochs env db = map (listed_view (\<lambda>i. revealed_of i (redact db)))
     (sort_key (fc_epoch \<circ> fst) (zip (fd_chains (redact db)) (map (salt_hash env) (fd_chains db))))"
proof -
  have "zip (fd_chains (redact db)) (map (salt_hash env) (fd_chains db)) =
      map (\<lambda>c. (hide_salt c, salt_hash env c)) (fd_chains db)"
    unfolding redact_alt fair_db.select_convs by (induction "fd_chains db") (auto simp: zip_map_map zip_same_conv_map)
  moreover have "sort_key (fc_epoch \<circ> fst) (map (\<lambda>c. (hide_salt c, salt_hash env c)) cs) =
      map (\<lambda>c. (hide_salt c, salt_hash env c)) (sort_key fc_epoch cs)" for cs
  proof -
    have "insort_key (fc_epoch \<circ> fst) (hide_salt c, salt_hash env c) (map (\<lambda>c. (hide_salt c, salt_hash env c)) xs) =
        map (\<lambda>c. (hide_salt c, salt_hash env c)) (insort_key fc_epoch c xs)" for c xs
      by (induction xs) auto
    then show ?thesis by (induction cs) auto
  qed
  ultimately show ?thesis by (simp add: listEpochs_def listed_view_def comp_def)
qed

text \<open>C16. What the service publishes is independent of its secrets. Take two databases that agree once the seeds
  that are not revealed, with their hashes, and the salts of the epochs that have not served are blanked out,
  and that differ in those secrets as they like, but for the salts having the same hashes, which the listing
  discloses on purpose: the current commitment, the seed dump of every epoch and the whole list of epochs are
  the same for both.\<close>

theorem published_without_secrets:
  assumes "redact db = redact db'" and "map (salt_hash env) (fd_chains db) = map (salt_hash env) (fd_chains db')"
  shows "getCurrentCommit env db = getCurrentCommit env db' \<and> epochSeeds e db = epochSeeds e db' \<and>
    listEpochs env db = listEpochs env db'"
proof (intro conjI)
  show "getCurrentCommit env db = getCurrentCommit env db'" "epochSeeds e db = epochSeeds e db'"
    using published_redacted assms(1) by metis+
  show "listEpochs env db = listEpochs env db'" by (simp only: listEpochs_redacted assms)
qed

text \<open>Every seed of a published dump is one that was revealed, and hashing it as many times as its
  index gives the commitment of its epoch, so anyone can check the whole chain of custody; two
  consecutive ones pass the link check of \<open>verify\<close>.\<close>

theorem dump_verifies:
  assumes "fair_run k db" "ids_inj k" and out: "epochSeeds e db = Some d"
    and v: "v \<in> set (sd_seeds d)"
  shows "sv_revealedAt v \<noteq> None \<and>
    (\<exists>x. sv_seed v = Some x \<and> (id_sha k ^^ sv_chainIndex v) x = sd_commitHash d \<and>
       sv_seedHash v = id_sha k x \<and> sv_chainIndex v < sd_length d) \<and>
    (\<forall>w \<in> set (sd_seeds d). sv_chainIndex w = Suc (sv_chainIndex v) \<longrightarrow> sv_seed v \<noteq> Some [] \<longrightarrow>
       snd (verify_round (id_sha k) hmac (the (sv_seed w)) salt (sv_seed v)) = Some True)"
proof -
  obtain c where c: "c \<in> set (fd_chains db)" "sd_commitHash d = fc_commitHash c" "sd_length d = fc_length c"
    and seeds: "set (sd_seeds d) = seed_public ` {s \<in> set (fd_seeds db). fs_chainId s = fc_id c \<and> fs_revealedAt s \<noteq> None}"
    using out by (auto simp: epochSeeds_def Let_def split: option.splits dest: find_SomeD)
  obtain xs where xs: "committed k db c xs"
    using fair_run_inv [OF assms(1,2)] c by (auto simp: fair_inv_def rows_inv_def row_ok_def)
  have unwind: "(id_sha k ^^ i) (xs ! i) = fc_commitHash c" if "i < length xs" for i
    using hash_back [of xs "id_sha k" i] xs that by (auto simp: committed_def)
  have row: "\<exists>s. w = seed_public s \<and> fs_revealedAt s \<noteq> None \<and> fs_index s < length xs \<and>
      fs_seed s = Some (xs ! fs_index s) \<and> fs_seedHash s = id_sha k (xs ! fs_index s)"
    if "w \<in> set (sd_seeds d)" for w
    using that seed_row [OF xs] unfolding seeds by blast
  have link: "verifyChainLink (id_sha k) (xs ! Suc i) (xs ! i)" if "Suc i < length xs" for i
    using xs that by (simp add: committed_def)
  have len: "length xs = sd_length d" using xs c by (simp add: committed_def)
  obtain s where s: "v = seed_public s" "fs_revealedAt s \<noteq> None" "fs_index s < length xs"
    "fs_seed s = Some (xs ! fs_index s)" "fs_seedHash s = id_sha k (xs ! fs_index s)"
    using row [OF v] by blast
  have "snd (verify_round (id_sha k) hmac (the (sv_seed w)) salt (sv_seed v)) = Some True"
    if "w \<in> set (sd_seeds d)" "sv_chainIndex w = Suc (sv_chainIndex v)" "sv_seed v \<noteq> Some []" for w
    using row [OF that(1)] s that(2,3) link by (auto simp: verify_round_def seed_public_def)
  then show ?thesis
    using s unwind [OF s(3)] c(2) len by (auto simp: seed_public_def)
qed

section \<open>A short chain\<close>

definition demo_ids :: fair_ids where
  "demo_ids =
     \<lparr>id_sha = (\<lambda>x. CHR ''h'' # x), id_chain = bigint_to_string,
      id_seed = (\<lambda>e i. replicate i CHR ''s'' @ CHR ''-'' # bigint_to_string e)\<rparr>"

definition demo_env :: fair_env where
  "demo_env =
     \<lparr>fe_oracle = \<lparr>oe_urls = None, oe_min = None, oe_lead = None, oe_lead_set = False, oe_strict = False,
         oe_provider = None\<rparr>,
      fe_provider = DailySaltProvider, fe_len = Some 3, fe_now = 1000, fe_sha = id_sha demo_ids,
      fe_shaUtf8 = (\<lambda>s. CHR ''u'' # s), fe_rpc = (\<lambda>_ _ _. Inl (Rpc_error ''down'')),
      fe_rnd = (\<lambda>_. ''5a17''), fe_last = (\<lambda>_. ''seed''), fe_chainId = id_chain demo_ids,
      fe_seedId = id_seed demo_ids\<rparr>"

definition no_epochs :: fair_db where
  "no_epochs = \<lparr>fd_chains = [], fd_seeds = [], fd_audit = []\<rparr>"

lemma demo_ids_inj: "ids_inj demo_ids"
proof -
  have r: "replicate i CHR ''s'' @ CHR ''-'' # a = replicate j CHR ''s'' @ CHR ''-'' # b \<Longrightarrow> i = j \<and> a = b" for i j a b
  proof (induction i arbitrary: j)
    case 0
    then show ?case by (cases j) auto
  next
    case (Suc i)
    then show ?case by (cases j) auto
  qed
  have s: "bigint_to_string e = bigint_to_string f \<Longrightarrow> e = f" for e f
    by (metis string_to_bigint_to_string option.inject)
  show ?thesis
    unfolding ids_inj_def demo_ids_def fair_ids.select_convs by (auto intro!: injI dest!: r s)
qed

lemma demo_env_of: "env_of demo_ids demo_env"
  by (simp add: env_of_def demo_env_def)

lemma demo_run: "fair_run demo_ids no_epochs"
  unfolding no_epochs_def by (rule run_empty)

lemma demo_alloc:
  obtains s c db' where "allocateSeed demo_env [] no_epochs = (Allocated s c, db')"
proof -
  have "(case fst (allocateSeed demo_env [] no_epochs) of Allocated _ _ \<Rightarrow> True | _ \<Rightarrow> False)" by code_simp
  then show thesis using that by (cases "allocateSeed demo_env [] no_epochs") (auto split: allocation.splits)
qed

theorem allocated_seed_committed_witness:
  "\<exists>s c db' x. allocateSeed demo_env [] no_epochs = (Allocated s c, db') \<and> fs_seed s = Some x \<and>
     (id_sha demo_ids ^^ fs_index s) x = fc_commitHash c"
proof -
  obtain s c db' where a: "allocateSeed demo_env [] no_epochs = (Allocated s c, db')" by (rule demo_alloc)
  show ?thesis
    using allocated_seed_committed [OF demo_run demo_ids_inj demo_env_of a] a by blast
qed

theorem allocateSeed_total_witness: "\<exists>s c db'. allocateSeed demo_env [] no_epochs = (Allocated s c, db')"
  by (rule allocateSeed_total [OF demo_env_of _ demo_ids_inj fair_run_inv [OF demo_run demo_ids_inj]])
    (simp_all add: requireBlockSalt_def demo_env_def fresh_queue_def seeds_fk_def)

theorem dump_verifies_witness:
  "\<exists>d v x. epochSeeds 0 (snd (allocateSeed demo_env [] no_epochs)) = Some d \<and> v \<in> set (sd_seeds d) \<and>
     sv_seed v = Some x \<and> (id_sha demo_ids ^^ sv_chainIndex v) x = sd_commitHash d"
proof -
  let ?db = "snd (allocateSeed demo_env [] no_epochs)"
  have run: "fair_run demo_ids ?db" by (rule run_allocate [OF demo_run demo_env_of])
  have "map_option (\<lambda>d. length (sd_seeds d)) (epochSeeds 0 ?db) = Some 1" by code_simp
  then obtain d where d: "epochSeeds 0 ?db = Some d" "length (sd_seeds d) = 1" by auto
  then obtain v where v: "v \<in> set (sd_seeds d)" by (cases "sd_seeds d") auto
  show ?thesis
    using dump_verifies [OF run demo_ids_inj d(1) v] d v by blast
qed

text \<open>Two databases with another next seed and another queued salt, of the same hash: the publication is the same.\<close>

definition secret_env :: fair_env where
  "secret_env = demo_env\<lparr>fe_shaUtf8 := take 1\<rparr>"

definition secret_db :: "string \<Rightarrow> string \<Rightarrow> fair_db" where
  "secret_db salt seed =
     \<lparr>fd_chains = [\<lparr>fc_id = ''c0'', fc_epoch = 0, fc_commitHash = ''hhx'', fc_length = 3, fc_saltSource = ''random'',
        fc_targetChain = None, fc_targetBlock = None, fc_salt = Some ''5a17'', fc_status = Ep_active, fc_createdAt = 1,
        fc_armedAt = Some 1\<rparr>,
       \<lparr>fc_id = ''c1'', fc_epoch = 1, fc_commitHash = ''hhy'', fc_length = 3, fc_saltSource = ''random'',
        fc_targetChain = None, fc_targetBlock = None, fc_salt = Some salt, fc_status = Ep_pending, fc_createdAt = 2,
        fc_armedAt = Some 2\<rparr>],
      fd_seeds = [\<lparr>fs_id = ''s0'', fs_chainId = ''c0'', fs_index = 0, fs_seedHash = ''hhx'', fs_seed = Some ''hhx'',
        fs_revealedAt = Some 3\<rparr>,
       \<lparr>fs_id = ''s1'', fs_chainId = ''c0'', fs_index = 1, fs_seedHash = seed, fs_seed = Some seed, fs_revealedAt = None\<rparr>],
      fd_audit = []\<rparr>"

theorem published_without_secrets_witness:
  "listEpochs secret_env (secret_db ''ab'' ''hx'') = listEpochs secret_env (secret_db ''ac'' ''hz'') \<and>
   secret_db ''ab'' ''hx'' \<noteq> secret_db ''ac'' ''hz''"
proof
  have "redact (secret_db ''ab'' ''hx'') = redact (secret_db ''ac'' ''hz'')"
      "map (salt_hash secret_env) (fd_chains (secret_db ''ab'' ''hx'')) =
       map (salt_hash secret_env) (fd_chains (secret_db ''ac'' ''hz''))"
    by code_simp+
  then show "listEpochs secret_env (secret_db ''ab'' ''hx'') = listEpochs secret_env (secret_db ''ac'' ''hz'')"
    using published_without_secrets by blast
qed (simp add: secret_db_def)

end
