(* ===== verification/VR_EngineDemo.thy ===== *)
theory VR_EngineDemo
  imports VR_EngineGate VR_EngineStall VR_EngineNode VR_FairRun
begin

text \<open>
  One table with one round and one bet, on which the properties of the loop are applied.
\<close>

section \<open>The table\<close>

definition demo_bet :: bet where
  "demo_bet =
     \<lparr>b_id = ''b1'', b_roundId = ''r1'', b_userId = ''u1'', b_walletId = ''w1'', b_panel = PanelA, b_amount = 100,
      b_autoCashout = Some 199, b_status = Active, b_cashoutMult = None, b_payout = 0, b_demo = True,
      b_operatorId = None, b_currency = ''DEMO'', b_maxWinPerBet = None, b_debitTxId = None, b_payoutTxId = None,
      b_createdAt = 900, b_settledAt = None\<rparr>"

definition demo_round :: "phase \<Rightarrow> int option \<Rightarrow> round" where
  "demo_round p t =
     \<lparr>r_id = ''r1'', r_seedId = ''s1'', r_crashPoint = 200, r_status = p, r_phaseEndsAt = Some 61000,
      r_startedAt = t, r_crashedAt = None, r_settledAt = None\<rparr>"

definition demo_seed :: fairness_seed where
  "demo_seed = \<lparr>fs_id = ''s1'', fs_chainId = ''c1'', fs_index = 1, fs_seedHash = ''h'', fs_seed = Some ''x'', fs_revealedAt = None\<rparr>"

definition demo_db :: "phase \<Rightarrow> int option \<Rightarrow> unit world" where
  "demo_db p t =
     \<lparr>db_wallets = [\<lparr>w_id = ''w1'', w_userId = ''u1'', w_currency = ''DEMO'', w_balance = 900\<rparr>], db_ledger = [],
      db_bets = [demo_bet], db_rounds = [demo_round p t], db_users = [], db_profiles = [], db_sessions = [],
      db_rollbacks = [], operator_state = ()\<rparr>"

text \<open>The leader with its timer at 1000, in the phase \<open>p\<close> begun with start time \<open>t\<close>.\<close>

definition demo_engine :: "phase \<Rightarrow> int option \<Rightarrow> unit engine" where
  "demo_engine p t =
     \<lparr>eg_state = Some \<lparr>es_roundId = ''r1'', es_seedId = ''s1'', es_phase = p, es_phaseEndsAt = 61000, es_startedAt = t,
                       es_crashPoint = 200\<rparr>,
      eg_timer = Some (1000, next_of p), eg_running = True, eg_lastRoundAt = 0, eg_deadman = True,
      eg_steppingDown = False, eg_leader = True, eg_view = None, eg_db = demo_db p t,
      eg_fair = no_epochs\<lparr>fd_seeds := [demo_seed]\<rparr>, eg_out = []\<rparr>"

definition demo_step :: "bool \<Rightarrow> bool \<Rightarrow> int \<Rightarrow> unit step_env" where
  "demo_step still wr now =
     \<lparr>te_wallet = ledgerProvider,
      te_risk = \<lparr>rl_minBet = 1, rl_maxBet = 100000, rl_maxWinPerBet = 1000000, rl_maxMultiplier = 1000000, rl_maxRoundExposure = 10000000\<rparr>,
      te_fair = demo_env, te_hmac = (\<lambda>_ _. ''7''), te_still = still, te_write = wr, te_reveal = True,
      te_now = now, te_later = now, te_roundId = ''r2'', te_upkeep = (\<lambda>f. f), te_driver = True, te_race = (\<lambda>w. w)\<rparr>"

lemmas demo_defs = demo_engine_def demo_db_def demo_round_def demo_step_def demo_bet_def demo_seed_def no_epochs_def

lemma demo_persisted: "persisted (demo_engine Betting None)" "persisted (demo_engine Running (Some 1000))"
  by (simp_all add: persisted_def demo_defs find_round_def row_matches_def post_outcome_def)

lemma crash_delay_200: "0 < crash_delay 200"
  by (simp add: crash_delay_def GROWTH_def)

text \<open>The next seed of the chain, allocated beside the round.\<close>

lemma crashForSeed_7: "crashForSeed (\<lambda>_ _. ''7'') s c = None \<longleftrightarrow> fs_seed s = None \<or> fc_salt c = None"
  by (simp add: crashForSeed_def computeCrash_def crashFromHmacHex_def hex_digit_def split: option.split)

lemma crashForSeed_0: "crashForSeed (\<lambda>_ _. ''0'') s c = None \<longleftrightarrow> fs_seed s = None \<or> fc_salt c = None"
  by (simp add: crashForSeed_def computeCrash_def crashFromHmacHex_def hex_digit_def split: option.split)

lemma demo_allocates:
  obtains x c f y
  where "allocateSeed demo_env [demo_round Betting None] (no_epochs\<lparr>fd_seeds := [demo_seed]\<rparr>) = (Allocated x c, f)"
    "fs_id x \<noteq> ''s1''" "crashForSeed (\<lambda>_ _. ''7'') x c = Some y"
proof -
  let ?a = "allocateSeed demo_env [demo_round Betting None] (no_epochs\<lparr>fd_seeds := [demo_seed]\<rparr>)"
  have "case ?a of (Allocated x c, f) \<Rightarrow> fs_id x \<noteq> ''s1'' \<and> fs_seed x \<noteq> None \<and> fc_salt c \<noteq> None | _ \<Rightarrow> False"
    by code_simp
  moreover obtain a f where "?a = (a, f)" by fastforce
  ultimately obtain x c where "?a = (Allocated x c, f)" "fs_id x \<noteq> ''s1''" "crashForSeed (\<lambda>_ _. ''7'') x c \<noteq> None"
    by (cases a) (simp_all add: crashForSeed_7)
  then show thesis using that by blast
qed

section \<open>The loop\<close>

text \<open>The node boots on the table, in whose betting phase the previous leader died, and takes over.\<close>

definition booted :: "unit engine" where
  "booted = (demo_engine Betting None)\<lparr>eg_state := None, eg_timer := None, eg_running := False, eg_deadman := False\<rparr>"

definition taken_over :: "unit engine" where
  "taken_over = leader_acquired (demo_step True True 1000) booted"

lemma taken_over:
  "eg_state taken_over = eg_state (demo_engine Betting None)" "eg_timer taken_over = Some (61000, Enter_running)"
  "eg_running taken_over" "eg_db taken_over = demo_db Betting None"
proof -
  let ?env = "demo_step True True 1000"
  have db: "snd (recoverStrandedActiveBets ledgerProvider 1000 0 (demo_db Betting None)) = demo_db Betting None"
    "snd (recoverReservingBets ledgerProvider (\<lambda>w. w) 1000 0 (demo_db Betting None)) = demo_db Betting None"
    by code_simp+
  let ?b = "start_begin ?env (booted\<lparr>eg_leader := True\<rparr>)"
  have b: "eg_db ?b = demo_db Betting None" "eg_running ?b"
    by (simp_all add: start_begin_def booted_def demo_engine_def demo_step_def db)
  have o: "open_rounds (demo_db Betting None) = [demo_round Betting None]"
    by (simp add: open_rounds_def demo_db_def demo_round_def OPEN_PHASES_def)
  have env: "te_wallet ?env = ledgerProvider" "te_race ?env = (\<lambda>w. w)" "te_now ?env = 1000" "te_later ?env = 1000"
    by (simp_all add: demo_step_def)
  have "unresumableReason 1000 (demo_round Betting None) = None"
    by (simp add: unresumableReason_def demo_round_def RESUME_MAX_STALENESS_MS_def post_outcome_def)
  then have "resumeOrRecover ?env ?b = (True, resumeRound ?env (demo_round Betting None) (?b\<lparr>eg_db := demo_db Betting None\<rparr>))"
    by (simp add: resumeOrRecover_def Let_def env b db o)
  then have t: "taken_over = resumeRound ?env (demo_round Betting None) (?b\<lparr>eg_db := demo_db Betting None\<rparr>)"
    by (simp add: taken_over_def leader_acquired_def start_def booted_def)
  show "eg_state taken_over = eg_state (demo_engine Betting None)" "eg_timer taken_over = Some (61000, Enter_running)"
    "eg_running taken_over" "eg_db taken_over = demo_db Betting None"
    unfolding t using b(2) env by (simp_all add: resumeRound_def Let_def demo_round_def demo_engine_def state_of_round_def)
qed

lemma taken_over_run: "\<exists>wedged. loop_run wedged taken_over"
proof -
  have boot: "loop_run False booted" by (rule lr_boot) (simp_all add: booted_def)
  have "start_env (demo_step True True 1000) booted"
    by (simp add: start_env_def demo_step_def booted_def demo_engine_def demo_db_def demo_round_def find_round_def lp.wallet_frame_axioms)
  from lr_acquired [OF boot this] show ?thesis unfolding taken_over_def by blast
qed

theorem loop_never_stalls_witness:
  "\<exists>due s. eg_state (fire (demo_step True True 61000) taken_over) = Some s \<and> es_phase s = Running \<and>
     eg_timer (fire (demo_step True True 61000) taken_over) = Some (due, Enter_crashed)"
proof -
  let ?env = "demo_step True True 61000"
  obtain wedged where run: "loop_run wedged taken_over" using taken_over_run by blast
  have "clock_ok ?env taken_over" by (simp add: clock_ok_def taken_over(4)) (simp add: demo_defs find_round_def)
  then have run: "loop_run wedged (fire ?env taken_over)" by (rule lr_fire [OF run])
  have ph: "eg_running (fire ?env taken_over) \<and> (\<exists>s. eg_state (fire ?env taken_over) = Some s \<and> es_phase s = Running) \<and>
      eg_timer (fire ?env taken_over) \<noteq> None \<and> (\<forall>due. eg_timer (fire ?env taken_over) \<noteq> Some (due, Enter_waiting))"
    using taken_over
    by (simp add: fire_def Let_def run_transition_def enterRunning_head_def phase_head_def round_write_def running_tail_def
        schedule_def demo_defs find_round_def)
  then have "eg_running (fire ?env taken_over)" by blast
  from loop_never_stalls [OF run this] ph show ?thesis by force
qed

theorem crash_point_secret_witness:
  "eg_out (run_transition Enter_waiting ((demo_step True True 2500)\<lparr>te_hmac := \<lambda>_ _. ''0''\<rparr>) (demo_engine Completed None)) =
   eg_out (run_transition Enter_waiting (demo_step True True 2500) (demo_engine Completed None)) \<and>
   eg_out (run_transition Enter_betting (demo_step True True 1000) (with_crash 5000 (demo_engine Waiting None))) =
   eg_out (run_transition Enter_betting (demo_step True True 1000) (demo_engine Waiting None))"
proof -
  have "crashForSeed (\<lambda>_ _. ''0'') s ch = None \<longleftrightarrow> crashForSeed (te_hmac (demo_step True True n)) s ch = None" for s ch n
    by (simp add: demo_step_def crashForSeed_7 crashForSeed_0)
  from crash_point_secret [OF this, of 2500] crash_point_secret [OF this, of 1000] show ?thesis by blast
qed

section \<open>The gateway's calls\<close>

theorem cashOut_iff_before_crash_witness:
  "\<exists>x w'. cashOut (engine_ctx (demo_step True True 1000) 1000 (demo_engine Running (Some 1000))) ''u1'' PanelA None
       (eg_db (demo_engine Running (Some 1000))) = (Inr x, w') \<and> co_ok x"
proof -
  let ?e = "demo_engine Running (Some 1000)"
  let ?s = "\<lparr>es_roundId = ''r1'', es_seedId = ''s1'', es_phase = Running, es_phaseEndsAt = 61000, es_startedAt = Some 1000,
    es_crashPoint = 200\<rparr>"
  have "\<exists>x w'. cashOut (engine_ctx (demo_step True True 1000) 1000 ?e) ''u1'' PanelA None (eg_db ?e) = (Inr x, w') \<and>
    (co_ok x \<longleftrightarrow> of_int 1000 < of_int 1000 + crash_delay (es_crashPoint ?s)) \<and>
    (co_ok x \<longrightarrow> currentMultiplier 1000 ?e < es_crashPoint ?s)"
    by (rule cashOut_iff_before_crash [where r = "demo_round Running (Some 1000)" and t = 1000 and b = demo_bet])
      (simp_all add: demo_defs find_round_def find_slot_def row_matches_def)
  then show ?thesis using crash_delay_200 by simp blast
qed

theorem late_crash_settles_successor_witness:
  "b_status (hd (db_bets (eg_db (fire (demo_step True True 4000) (tail Enter_crashed 1500 ''r0'' 150
     (demo_engine Running (Some 1000))))))) \<noteq> Active"
proof -
  let ?e = "demo_engine Running (Some 1000)" let ?env = "demo_step True True 4000"
  let ?s = "\<lparr>es_roundId = ''r1'', es_seedId = ''s1'', es_phase = Running, es_phaseEndsAt = 61000, es_startedAt = Some 1000,
    es_crashPoint = 200\<rparr>"
  let ?d = "fire ?env (tail Enter_crashed 1500 ''r0'' 150 ?e)"
  have "let e' = ?d in
    (\<forall>b' \<in> set (db_bets (eg_db e')). b_roundId b' = es_roundId ?s \<longrightarrow> b_status b' \<noteq> Active) \<and>
    demo_bet\<lparr>b_status := Busted, b_settledAt := Some (te_later ?env)\<rparr> \<in> set (db_bets (eg_db e')) \<and>
    (\<exists>r'. find_round (eg_db e') (es_roundId ?s) = Some r' \<and> r_status r' = Settling \<and> r_crashedAt r' = None)"
    by (rule late_crash_settles_successor [where r = "demo_round Running (Some 1000)"])
      (simp_all add: demo_defs find_round_def)
  moreover have "hd (db_bets (eg_db ?d)) \<in> set (db_bets (eg_db ?d)) \<and> b_roundId (hd (db_bets (eg_db ?d))) = ''r1''"
    by (simp add: fire_def Let_def run_transition_def enterSettling_head_def phase_head_def round_write_def settling_tail_def
        crashed_tail_def emit_settle_def onSettle_def settleRound_def update_where_def table_simps round_set_def demo_defs find_round_def)
  ultimately show ?thesis by (simp add: Let_def)
qed

theorem failed_write_strands_round_witness:
  "2 \<le> length (open_rounds (eg_db (run_transition Enter_waiting (demo_step True True 2500)
     (run_transition Enter_running (demo_step True False 1000) (demo_engine Betting None)))))"
proof -
  let ?e = "demo_engine Betting None" let ?env = "demo_step True False 1000" let ?env2 = "demo_step True True 2500"
  obtain x c f y where a: "allocateSeed demo_env [demo_round Betting None] (no_epochs\<lparr>fd_seeds := [demo_seed]\<rparr>) = (Allocated x c, f)"
      "fs_id x \<noteq> ''s1''" "crashForSeed (\<lambda>_ _. ''7'') x c = Some y"
    by (rule demo_allocates)
  then obtain d i k where p: "head Enter_waiting ?env2 (run_transition Enter_running ?env ?e) = (d, Proceed i k)"
    by (simp add: enterWaiting_head_def run_transition_def enterRunning_head_def phase_head_def round_write_def
        deadline_fires_def schedule_def Let_def demo_engine_def demo_db_def demo_step_def) (simp add: demo_round_def)
  have "let e2 = run_transition Enter_waiting ?env2 (run_transition Enter_running ?env ?e) in
    (\<exists>s2. eg_state e2 = Some s2 \<and> es_roundId s2 \<noteq> es_roundId (the (eg_state ?e))) \<and>
    (\<exists>r. find_round (eg_db e2) (es_roundId (the (eg_state ?e))) = Some r \<and> r_status r = Betting) \<and>
    db_bets (eg_db e2) = db_bets (eg_db ?e) \<and> 2 \<le> length (open_rounds (eg_db e2))"
    by (rule failed_write_strands_round [OF demo_persisted(1) _ _ _ _ p]) (simp_all add: demo_defs find_round_def)
  then show ?thesis by (simp add: Let_def)
qed

theorem late_auto_depends_on_failover_witness:
  "\<exists>lost won.
     find_bet (eg_db (crash_and_settle (demo_step True True 9000) (autoCashoutDriver (demo_step True True 9000) 9000 198
        (demo_engine Running (Some 1000))))) ''b1'' = Some lost \<and> b_status lost = Busted \<and>
     find_bet (eg_db (crash_and_settle (demo_step True True 9000) (autoCashoutDriver (demo_step True True 9000) 9000 200
        (demo_engine Running (Some 1000))))) ''b1'' = Some won \<and> b_payout won = 199"
proof -
  let ?e = "demo_engine Running (Some 1000)" let ?env = "demo_step True True 9000"
  let ?s = "\<lparr>es_roundId = ''r1'', es_seedId = ''s1'', es_phase = Running, es_phaseEndsAt = 61000, es_startedAt = Some 1000,
    es_crashPoint = 200\<rparr>"
  have "\<exists>lost won.
    find_bet (eg_db (crash_and_settle ?env (autoCashoutDriver ?env 9000 198 ?e))) (b_id demo_bet) = Some lost \<and> b_status lost = Busted \<and>
    find_bet (eg_db (crash_and_settle ?env (autoCashoutDriver ?env 9000 (es_crashPoint ?s) ?e))) (b_id demo_bet) = Some won \<and>
    (b_status won = Cashed_out \<or> b_status won = Payout_pending) \<and> b_payout won = cashout_payout (te_risk ?env) demo_bet 199"
    by (rule late_auto_depends_on_failover [where r = "demo_round Running (Some 1000)" and s = ?s])
      (simp_all add: demo_defs find_round_def find_slot_def find_bet_def row_matches_def auto_due_def writes_ok_def lp.wallet_frame_axioms)
  moreover have "cashout_payout (te_risk ?env) demo_bet 199 = 199" by code_simp
  ultimately show ?thesis by (auto simp: demo_bet_def)
qed

section \<open>Leadership\<close>

theorem fence_blip_stalls_witness:
  "\<not> eg_running (fire (demo_step False True 1000) (demo_engine Betting None)) \<and> en_leader (cl_nodes lead_0 0)"
proof -
  have "en_leader (cl_nodes lead_0 0)" "session_of lead_0 0 \<noteq> None" "cl_ticks lead_0 = []"
    by code_simp+
  then have "en_leader (cl_nodes lead_0 0)" "session_of lead_0 0 \<noteq> None" "\<forall>t. (0, t) \<notin> set (cl_ticks lead_0)"
    by simp_all
  then have "\<not> eg_running (fire (demo_step False True 1000) (demo_engine Betting None)) \<and>
      eg_timer (fire (demo_step False True 1000) (demo_engine Betting None)) = None \<and>
      en_leader (cl_nodes lead_0 0) \<and> session_of lead_0 0 \<noteq> None"
    by (rule fence_blip_stalls [where due = 1000 and t = Enter_running, OF _ _ _ _ _ _ _ _ nr_refl])
      (simp_all add: demo_engine_def demo_step_def)
  then show ?thesis by blast
qed

theorem resume_leaves_one_open_witness:
  "\<exists>d. resumeOrRecover (demo_step True True 62000) (demo_engine Betting None) = (True, d) \<and>
     r_id ` {r. r \<in> set (db_rounds (eg_db d)) \<and> r_status r \<in> set OPEN_PHASES} \<subseteq> {''r1''}"
proof -
  let ?env = "demo_step True True 62000" let ?e = "demo_engine Betting None"
  have "snd (recoverReservingBets ledgerProvider (\<lambda>w. w) 62000 0 (demo_db Betting None)) = demo_db Betting None"
    by code_simp
  then have "fst (resumeOrRecover ?env ?e) \<and> map_option es_roundId (eg_state (snd (resumeOrRecover ?env ?e))) = Some ''r1''"
    by (simp add: resumeOrRecover_def Let_def demo_step_def demo_engine_def)
      (simp add: demo_defs open_rounds_def OPEN_PHASES_def unresumableReason_def RESUME_MAX_STALENESS_MS_def post_outcome_def
        resumeRound_def Let_def state_of_round_def schedule_def emitPhase_def emit_def mirror_def getPublicState_def)
  then obtain d s where d: "resumeOrRecover ?env ?e = (True, d)" "eg_state d = Some s" "es_roundId s = ''r1''"
    by (cases "resumeOrRecover ?env ?e") auto
  have "wallet_frame (te_wallet ?env)" by (simp add: demo_step_def lp.wallet_frame_axioms)
  moreover have "db_rounds (te_race ?env w) = db_rounds w" for w by (simp add: demo_step_def)
  ultimately show ?thesis using resume_leaves_one_open [of ?env ?e True d] d by force
qed


end
