(* ===== verification/VR_LedgerSpec.thy ===== *)
theory VR_LedgerSpec
  imports VR_Ledger
begin

text \<open>
  What the ledger promises, without rows, running totals or cached balances: an account remembers for
  each idempotency key the wallet and amount it moved, and a balance is the opening balance plus what was
  moved. The ledger refines it.
\<close>

section \<open>The abstract account\<close>

record account =
  ac_opening :: "uid \<Rightarrow> int option"
  ac_moves :: "string \<Rightarrow> (uid \<times> int) option"

definition moved :: "(string \<Rightarrow> (uid \<times> int) option) \<Rightarrow> uid \<Rightarrow> int" where
  "moved m i = (\<Sum>k \<in> dom m. case m k of None \<Rightarrow> 0 | Some (j, a) \<Rightarrow> if j = i then a else 0)"

definition balance_of :: "account \<Rightarrow> uid \<Rightarrow> int option" where
  "balance_of s i = map_option (\<lambda>b. b + moved (ac_moves s) i) (ac_opening s i)"

text \<open>A movement counts once, and never below zero.\<close>

definition spec_move :: "uid \<Rightarrow> int \<Rightarrow> string \<Rightarrow> account \<Rightarrow> account" where
  "spec_move i a k s =
     (if k \<in> dom (ac_moves s) then s
      else case balance_of s i of
        None \<Rightarrow> s
      | Some b \<Rightarrow> if b + a < 0 then s else s\<lparr>ac_moves := (ac_moves s)(k \<mapsto> (i, a))\<rparr>)"

definition spec_positive :: "int \<Rightarrow> account \<Rightarrow> account \<Rightarrow> account" where
  "spec_positive a s s' = (if a \<le> 0 then s else s')"

fun spec_step :: "ledger_op \<Rightarrow> account \<Rightarrow> account" where
  "spec_step (LDebit i a t k r) s = spec_positive a s (spec_move i (- a) k s)"
| "spec_step (LCredit i a t k r) s = spec_positive a s (spec_move i a k s)"
| "spec_step (LReverse i p) s =
     spec_positive (rv_amount p) s
       (spec_move i (case rv_originalDirection p of DirDebit \<Rightarrow> rv_amount p | DirCredit \<Rightarrow> - rv_amount p) (rv_reverseKey p) s)"
| "spec_step (LReset i v k r) s =
     (case balance_of s i of
        None \<Rightarrow> s
      | Some b \<Rightarrow> if v < 0 \<or> v = b then s else spec_move i (v - b) k s)"

section \<open>The abstraction\<close>

definition account_of :: "(uid \<Rightarrow> int) \<Rightarrow> 'o world \<Rightarrow> account" where
  "account_of opening w =
     \<lparr>ac_opening = (\<lambda>i. map_option (\<lambda>_. opening i) (find_wallet w i)),
      ac_moves = (\<lambda>k. map_option (\<lambda>l. (lt_wallet l, lt_amount l)) (find_key w k))\<rparr>"

lemma dom_moves: "dom (ac_moves (account_of opening w)) = lt_key ` set (db_ledger w)"
proof (rule set_eqI)
  fix k
  have "k \<in> dom (ac_moves (account_of opening w)) \<longleftrightarrow> find_key w k \<noteq> None" by (auto simp: account_of_def)
  then show "k \<in> dom (ac_moves (account_of opening w)) \<longleftrightarrow> k \<in> lt_key ` set (db_ledger w)"
    by (simp add: find_key_None_iff has_key_def)
qed

lemma moved_account_of:
  assumes "ledger_inv w"
  shows "moved (ac_moves (account_of opening w)) i = sum_where (\<lambda>l. lt_wallet l = i) lt_amount (db_ledger w)"
proof -
  let ?h = "\<lambda>k. case ac_moves (account_of opening w) k of None \<Rightarrow> 0 | Some (j, a) \<Rightarrow> if j = i then a else 0"
  have d: "distinct (db_ledger w)" "inj_on lt_key (set (db_ledger w))"
    using assms by (auto simp: ledger_inv_def distinct_map)
  have "moved (ac_moves (account_of opening w)) i = (\<Sum>l \<in> set (db_ledger w). ?h (lt_key l))"
    by (simp add: moved_def dom_moves sum.reindex [OF d(2)])
  also have "\<dots> = (\<Sum>l \<in> set (db_ledger w). if lt_wallet l = i then lt_amount l else 0)"
    using find_key_mem [OF assms] by (intro sum.cong) (simp_all add: account_of_def)
  also have "\<dots> = sum_list (map (\<lambda>l. if lt_wallet l = i then lt_amount l else 0) (db_ledger w))"
    using d(1) by (simp add: sum_list_distinct_conv_sum_set)
  also have "\<dots> = sum_where (\<lambda>l. lt_wallet l = i) lt_amount (db_ledger w)"
    by (simp add: sum_where_def sum_list_map_filter')
  finally show ?thesis .
qed

lemma balance_account_of:
  "ledger_good opening w \<Longrightarrow> balance_of (account_of opening w) i = map_option w_balance (find_wallet w i)"
  using moved_account_of [of w "opening" i]
  by (cases "find_wallet w i")
    (auto simp: balance_of_def account_of_def ledger_good_def books_total_def dest: find_wallet_SomeD)

lemma find_update_wallet:
  "find (\<lambda>x. w_id x = j) (update_where (\<lambda>x. w_id x = i) (\<lambda>x. x\<lparr>w_balance := v\<rparr>) xs) =
   map_option (\<lambda>x. if w_id x = i then x\<lparr>w_balance := v\<rparr> else x) (find (\<lambda>x. w_id x = j) xs)"
  by (induction xs) (auto simp: update_where_def)

lemma find_wallet_set_balance:
  "find_wallet (set_balance i v w) j = map_option (\<lambda>x. if w_id x = i then x\<lparr>w_balance := v\<rparr> else x) (find_wallet w j)"
  by (simp add: find_wallet_def set_balance_def find_update_wallet)

lemma find_snoc: "find P (xs @ [y]) = (case find P xs of None \<Rightarrow> if P y then Some y else None | Some x \<Rightarrow> Some x)"
  by (induction xs) auto

lemma commit_refines:
  assumes "find_key w k = None"
  shows "account_of opening (append_row (mk_row w i t a v r k) (set_balance i v w)) =
    (account_of opening w)\<lparr>ac_moves := (ac_moves (account_of opening w))(k \<mapsto> (i, a))\<rparr>"
proof -
  let ?w = "append_row (mk_row w i t a v r k) (set_balance i v w)"
  have "find_key ?w j = (if j = k then Some (mk_row w i t a v r k) else find_key w j)" for j
    using assms by (auto simp: find_key_def find_snoc split: option.split)
  moreover have "map_option (\<lambda>_. opening j) (find_wallet ?w j) = map_option (\<lambda>_. opening j) (find_wallet w j)" for j
    using find_wallet_set_balance [of i v w j] by (simp add: find_wallet_def option.map_comp comp_def)
  ultimately show ?thesis by (auto simp: account_of_def fun_eq_iff)
qed

lemma record_refines:
  assumes "ledger_good opening w"
  shows "account_of opening (snd (ledger_record id id w i a t k r)) = spec_move i a k (account_of opening w)"
  using balance_account_of [OF assms, of i] commit_refines [of w k "opening" i t a _ r] dom_moves [of "opening" w]
  by (auto simp: ledger_record_seq spec_move_def Let_def find_key_None_iff has_key_def dest: find_key_Some_has_key
      split: option.split)

lemma reset_refines:
  assumes "ledger_good opening w"
  shows "account_of opening (snd (ledger_resetTo id id w i v k r)) = spec_step (LReset i v k r) (account_of opening w)"
  using balance_account_of [OF assms, of i] commit_refines [of w k "opening" i Adjustment _ v r] dom_moves [of "opening" w]
  by (auto simp: ledger_resetTo_seq spec_move_def Let_def find_key_None_iff has_key_def dest: find_key_Some_has_key
      split: option.split)

lemma step_refines:
  assumes "ledger_good opening w"
  shows "account_of opening (ledger_step oper w) = spec_step oper (account_of opening w)"
proof (cases oper)
  case (LReset i v k r)
  then show ?thesis using reset_refines [OF assms] by (simp del: spec_step.simps)
next
  case (LReverse i p)
  then show ?thesis
    by (cases "rv_originalDirection p")
      (auto simp: ledger_reverse_def ledger_debit_def ledger_credit_def spec_positive_def record_refines [OF assms])
qed (auto simp: ledger_debit_def ledger_credit_def spec_positive_def record_refines [OF assms])

section \<open>Properties\<close>

text \<open>C2. The ledger refines the account: any sequence of debits, credits, reversals and resets has on the
  account the books stand for exactly the effect the account's own steps have, and the cached balance of a
  wallet is at any time the account's balance. So a key moves money at most once, no balance goes below
  zero, and nothing else the rows hold matters.\<close>

theorem ledger_refines_account:
  assumes "ledger_good opening w"
  shows "account_of opening (ledger_run ops w) = fold spec_step ops (account_of opening w) \<and>
    map_option w_balance (find_wallet (ledger_run ops w) i) = balance_of (fold spec_step ops (account_of opening w)) i"
proof -
  have "account_of opening (ledger_run ops w) = fold spec_step ops (account_of opening w)"
    using assms
  proof (induction ops arbitrary: w)
    case (Cons x ops)
    then show ?case using step_refines [of "opening" w x] ledger_step_good [of "opening" w x] by (simp add: ledger_run_def)
  qed (simp add: ledger_run_def)
  moreover have "ledger_good opening (ledger_run ops w)" using assms by (rule ledger_run_good)
  ultimately show ?thesis by (metis balance_account_of)
qed

theorem ledger_refines_account_witness:
  "balance_of (fold spec_step [LDebit ''w1'' 300 Bet_debit ''k'' None, LDebit ''w1'' 300 Bet_debit ''k'' None,
     LDebit ''w1'' 900 Bet_debit ''m'' None] (account_of (\<lambda>_. 1000) one_wallet)) ''w1'' = Some 700"
proof -
  let ?ops = "[LDebit ''w1'' 300 Bet_debit ''k'' None, LDebit ''w1'' 300 Bet_debit ''k'' None,
    LDebit ''w1'' 900 Bet_debit ''m'' None]"
  have "ledger_good (\<lambda>_. 1000) one_wallet"
    using one_wallet_inv by (simp add: ledger_good_def books_total_def one_wallet_def)
  from ledger_refines_account [OF this, of ?ops "''w1''"]
  have "map_option w_balance (find_wallet (ledger_run ?ops one_wallet) ''w1'') =
      balance_of (fold spec_step ?ops (account_of (\<lambda>_. 1000) one_wallet)) ''w1''" by blast
  moreover have "map_option w_balance (find_wallet (ledger_run ?ops one_wallet) ''w1'') = Some 700" by code_simp
  ultimately show ?thesis by simp
qed

end
