(* ===== verification/VR_Limits.thy ===== *)
theory VR_Limits
  imports VR_Bets
begin

text \<open>
  Per-operator bet limits and responsible-gambling controls (\<open>src/operator/bet-limits.ts\<close>,
  \<open>src/operator/rg-config.ts\<close>): validation of the stored JSON columns, resolution for a session's
  currency, and the form that rides in the signed play token.

  A JSON value keeps its fields in \<open>Object.keys\<close> order and without duplicates; a missing property is
  \<open>None\<close>. Two coercions of the language stay parameters: \<open>num\<close>, the \<open>Number\<close> of a text, and \<open>prim\<close>, the text
  of an array or object. Upper-casing is that of ASCII text.
\<close>

section \<open>JSON values\<close>

datatype json =
    JNull
  | JBool bool
  | JNum rat
  | JStr string
  | JArr "json list"
  | JObj "(string \<times> json) list"

fun jget :: "json \<Rightarrow> string \<Rightarrow> json option" where
  "jget (JObj fs) k = map_of fs k"
| "jget _ k = None"

fun is_object :: "json option \<Rightarrow> bool" where
  "is_object (Some (JArr _)) = True"
| "is_object (Some (JObj _)) = True"
| "is_object _ = False"

definition isInteger :: "rat \<Rightarrow> bool" where
  "isInteger r \<longleftrightarrow> of_int \<lfloor>r\<rfloor> = r"

fun radix_value :: "nat \<Rightarrow> nat \<Rightarrow> string \<Rightarrow> nat option" where
  "radix_value r acc [] = Some acc"
| "radix_value r acc (c # cs) =
     (case hex_digit c of
        None \<Rightarrow> None
      | Some d \<Rightarrow> if d < r then radix_value r (r * acc + d) cs else None)"

definition string_radix :: "string \<Rightarrow> nat option" where
  "string_radix s =
     (if starts_with s ''0x'' \<or> starts_with s ''0X'' then Some 16
      else if starts_with s ''0o'' \<or> starts_with s ''0O'' then Some 8
      else if starts_with s ''0b'' \<or> starts_with s ''0B'' then Some 2 else None)"

definition text_to_bigint :: "string \<Rightarrow> int option" where
  "text_to_bigint s =
     (let t = js_trim s
      in case string_radix t of
           None \<Rightarrow> string_to_bigint t
         | Some r \<Rightarrow> if drop 2 t = [] then None else map_option int (radix_value r 0 (drop 2 t)))"

text \<open>\<open>BigInt(x)\<close>; \<open>None\<close> is a throw.\<close>

fun js_bigint :: "(json \<Rightarrow> string) \<Rightarrow> json option \<Rightarrow> int option" where
  "js_bigint prim None = None"
| "js_bigint prim (Some JNull) = None"
| "js_bigint prim (Some (JBool b)) = Some (if b then 1 else 0)"
| "js_bigint prim (Some (JNum r)) = (if isInteger r then Some \<lfloor>r\<rfloor> else None)"
| "js_bigint prim (Some (JStr s)) = text_to_bigint s"
| "js_bigint prim (Some j) = text_to_bigint (prim j)"

text \<open>\<open>Number(x)\<close> of a present property; \<open>None\<close> is \<open>NaN\<close> or an infinity.\<close>

fun js_number :: "(string \<Rightarrow> rat option) \<Rightarrow> (json \<Rightarrow> string) \<Rightarrow> json \<Rightarrow> rat option" where
  "js_number num prim JNull = Some 0"
| "js_number num prim (JBool b) = Some (if b then 1 else 0)"
| "js_number num prim (JNum r) = Some r"
| "js_number num prim (JStr s) = num s"
| "js_number num prim j = num (prim j)"

section \<open>Schemas\<close>

text \<open>\<open>z.number().int()\<close> on a present field, and the same made optional: a wrong value is \<open>Inl\<close>.\<close>

definition int_field :: "json \<Rightarrow> string \<Rightarrow> (int \<Rightarrow> bool) \<Rightarrow> int option" where
  "int_field j k ok =
     (case jget j k of
        Some (JNum r) \<Rightarrow> if isInteger r \<and> ok \<lfloor>r\<rfloor> then Some \<lfloor>r\<rfloor> else None
      | _ \<Rightarrow> None)"

definition opt_int_field :: "json \<Rightarrow> string \<Rightarrow> (int \<Rightarrow> bool) \<Rightarrow> unit + int option" where
  "opt_int_field j k ok =
     (case jget j k of
        None \<Rightarrow> Inr None
      | Some _ \<Rightarrow> (case int_field j k ok of None \<Rightarrow> Inl () | Some n \<Rightarrow> Inr (Some n)))"

text \<open>\<open>z.record(z.string().min(1), schema)\<close>.\<close>

fun record_entries :: "(json \<Rightarrow> 'a option) \<Rightarrow> (string \<times> json) list \<Rightarrow> (string \<times> 'a) list option" where
  "record_entries f [] = Some []"
| "record_entries f ((k, j) # fs) =
     (if k = [] then None
      else case (f j, record_entries f fs) of (Some x, Some xs) \<Rightarrow> Some ((k, x) # xs) | _ \<Rightarrow> None)"

fun record_schema :: "(json \<Rightarrow> 'a option) \<Rightarrow> json \<Rightarrow> (string \<times> 'a) list option" where
  "record_schema f (JObj fs) = record_entries f fs"
| "record_schema f _ = None"

text \<open>The first own key that matches the currency, whatever its case.\<close>

fun lookup_currency :: "(string \<times> 'a) list \<Rightarrow> string \<Rightarrow> 'a option" where
  "lookup_currency [] want = None"
| "lookup_currency ((k, x) # xs) want = (if to_upper k = want then Some x else lookup_currency xs want)"

section \<open>Bet limits\<close>

definition PerCurrencyLimitSchema :: "json \<Rightarrow> per_bet_limits option" where
  "PerCurrencyLimitSchema j =
     (case (int_field j ''minBet'' (\<lambda>n. 0 \<le> n), int_field j ''maxBet'' (\<lambda>n. 0 < n), int_field j ''maxWinPerBet'' (\<lambda>n. 0 < n)) of
        (Some a, Some b, Some c) \<Rightarrow>
          if a \<le> b \<and> b \<le> c then Some \<lparr>pb_minBet = a, pb_maxBet = b, pb_maxWinPerBet = c\<rparr> else None
      | _ \<Rightarrow> None)"

definition parseBetLimits :: "json option \<Rightarrow> (string \<times> per_bet_limits) list option" where
  "parseBetLimits json =
     (case json of None \<Rightarrow> None | Some JNull \<Rightarrow> None | Some j \<Rightarrow> record_schema PerCurrencyLimitSchema j)"

definition effectiveLimitsFor :: "json option \<Rightarrow> string \<Rightarrow> per_bet_limits option" where
  "effectiveLimitsFor json currency =
     (case parseBetLimits json of None \<Rightarrow> None | Some cfg \<Rightarrow> lookup_currency cfg (to_upper currency))"

definition serializeBetLimits :: "per_bet_limits \<Rightarrow> json" where
  "serializeBetLimits l =
     JObj [(''minBet'', JStr (bigint_to_string (pb_minBet l))), (''maxBet'', JStr (bigint_to_string (pb_maxBet l))),
           (''maxWinPerBet'', JStr (bigint_to_string (pb_maxWinPerBet l)))]"

definition deserializeBetLimits :: "(json \<Rightarrow> string) \<Rightarrow> json option \<Rightarrow> per_bet_limits option" where
  "deserializeBetLimits prim json =
     (if \<not> is_object json then None
      else let obj = the json
           in case (js_bigint prim (jget obj ''minBet''), js_bigint prim (jget obj ''maxBet''), js_bigint prim (jget obj ''maxWinPerBet'')) of
                (Some a, Some b, Some c) \<Rightarrow>
                  if a < 0 \<or> b < a \<or> c < b then None
                  else Some \<lparr>pb_minBet = a, pb_maxBet = b, pb_maxWinPerBet = c\<rparr>
              | _ \<Rightarrow> None)"

section \<open>Responsible gambling\<close>

definition MIN_TIME_SEC :: int where "MIN_TIME_SEC = 60"

definition MAX_REALITY_CHECK_INTERVAL_SEC :: int where "MAX_REALITY_CHECK_INTERVAL_SEC = 86400"

definition MAX_SESSION_SEC :: int where "MAX_SESSION_SEC = 2592000"

record rg_money =
  rm_maxSessionLoss :: "int option"
  rm_maxSessionWager :: "int option"

record rg_config =
  rk_realityCheckIntervalSec :: "int option"
  rk_maxSessionSec :: "int option"
  rk_enforceRealityCheck :: "bool option"
  rk_limits :: "(string \<times> rg_money) list option"

definition PerCurrencyRgLimitSchema :: "json \<Rightarrow> rg_money option" where
  "PerCurrencyRgLimitSchema j =
     (case j of
        JObj _ \<Rightarrow>
          (case (opt_int_field j ''maxSessionLoss'' (\<lambda>n. 0 < n), opt_int_field j ''maxSessionWager'' (\<lambda>n. 0 < n)) of
             (Inr a, Inr b) \<Rightarrow> Some \<lparr>rm_maxSessionLoss = a, rm_maxSessionWager = b\<rparr>
           | _ \<Rightarrow> None)
      | _ \<Rightarrow> None)"

definition RG_KEYS :: "string list" where
  "RG_KEYS = [''realityCheckIntervalSec'', ''maxSessionSec'', ''enforceRealityCheck'', ''limits'']"

definition RgConfigSchema :: "json \<Rightarrow> rg_config option" where
  "RgConfigSchema j =
     (case j of
        JObj fs \<Rightarrow>
          if \<not> list_all (\<lambda>f. fst f \<in> set RG_KEYS) fs then None
          else (case (opt_int_field j ''realityCheckIntervalSec'' (\<lambda>n. MIN_TIME_SEC \<le> n \<and> n \<le> MAX_REALITY_CHECK_INTERVAL_SEC),
                      opt_int_field j ''maxSessionSec'' (\<lambda>n. MIN_TIME_SEC \<le> n \<and> n \<le> MAX_SESSION_SEC),
                      (case jget j ''enforceRealityCheck'' of None \<Rightarrow> Some None | Some (JBool b) \<Rightarrow> Some (Some b) | _ \<Rightarrow> None),
                      (case jget j ''limits'' of
                         None \<Rightarrow> Some None
                       | Some l \<Rightarrow> map_option Some (record_schema PerCurrencyRgLimitSchema l))) of
                  (Inr a, Inr b, Some c, Some d) \<Rightarrow>
                    Some \<lparr>rk_realityCheckIntervalSec = a, rk_maxSessionSec = b, rk_enforceRealityCheck = c, rk_limits = d\<rparr>
                | _ \<Rightarrow> None)
      | _ \<Rightarrow> None)"

definition parseRgConfig :: "json option \<Rightarrow> rg_config option" where
  "parseRgConfig json = (case json of None \<Rightarrow> None | Some JNull \<Rightarrow> None | Some j \<Rightarrow> RgConfigSchema j)"

definition active_control :: "effective_rg \<Rightarrow> bool" where
  "active_control e \<longleftrightarrow> rg_realityCheckIntervalSec e \<noteq> None \<or> rg_maxSessionSec e \<noteq> None \<or>
     rg_maxSessionLoss e \<noteq> None \<or> rg_maxSessionWager e \<noteq> None"

definition effectiveRgFor :: "json option \<Rightarrow> string \<Rightarrow> effective_rg option" where
  "effectiveRgFor json currency =
     (case parseRgConfig json of
        None \<Rightarrow> None
      | Some cfg \<Rightarrow>
          let l = (case rk_limits cfg of None \<Rightarrow> None | Some ls \<Rightarrow> lookup_currency ls (to_upper currency));
              eff = \<lparr>rg_realityCheckIntervalSec = rk_realityCheckIntervalSec cfg, rg_maxSessionSec = rk_maxSessionSec cfg,
                     rg_enforceRealityCheck = (case rk_enforceRealityCheck cfg of None \<Rightarrow> True | Some b \<Rightarrow> b),
                     rg_maxSessionLoss = (case l of None \<Rightarrow> None | Some m \<Rightarrow> rm_maxSessionLoss m),
                     rg_maxSessionWager = (case l of None \<Rightarrow> None | Some m \<Rightarrow> rm_maxSessionWager m)\<rparr>
          in if active_control eff then Some eff else None)"

definition opt_entry :: "string \<Rightarrow> ('a \<Rightarrow> json) \<Rightarrow> 'a option \<Rightarrow> (string \<times> json) list" where
  "opt_entry k f v = (case v of None \<Rightarrow> [] | Some x \<Rightarrow> [(k, f x)])"

definition serializeRg :: "effective_rg \<Rightarrow> json" where
  "serializeRg e =
     JObj ((''enforceRealityCheck'', JBool (rg_enforceRealityCheck e)) #
           opt_entry ''realityCheckIntervalSec'' (\<lambda>n. JNum (of_int n)) (rg_realityCheckIntervalSec e) @
           opt_entry ''maxSessionSec'' (\<lambda>n. JNum (of_int n)) (rg_maxSessionSec e) @
           opt_entry ''maxSessionLoss'' (\<lambda>n. JStr (bigint_to_string n)) (rg_maxSessionLoss e) @
           opt_entry ''maxSessionWager'' (\<lambda>n. JStr (bigint_to_string n)) (rg_maxSessionWager e))"

definition time_claim :: "(string \<Rightarrow> rat option) \<Rightarrow> (json \<Rightarrow> string) \<Rightarrow> int \<Rightarrow> json option \<Rightarrow> unit + int option" where
  "time_claim num prim bound v =
     (case v of
        None \<Rightarrow> Inr None
      | Some j \<Rightarrow> (case js_number num prim j of
           None \<Rightarrow> Inl ()
         | Some r \<Rightarrow> if \<not> isInteger r \<or> r \<le> 0 \<or> r > of_int bound then Inl () else Inr (Some \<lfloor>r\<rfloor>)))"

definition money_claim :: "(json \<Rightarrow> string) \<Rightarrow> json option \<Rightarrow> unit + int option" where
  "money_claim prim v =
     (case v of
        None \<Rightarrow> Inr None
      | Some j \<Rightarrow> (case js_bigint prim (Some j) of
           None \<Rightarrow> Inl ()
         | Some b \<Rightarrow> if b \<le> 0 then Inl () else Inr (Some b)))"

definition deserializeRg :: "(string \<Rightarrow> rat option) \<Rightarrow> (json \<Rightarrow> string) \<Rightarrow> json option \<Rightarrow> effective_rg option" where
  "deserializeRg num prim json =
     (if \<not> is_object json then None
      else let obj = the json
           in case (time_claim num prim MAX_REALITY_CHECK_INTERVAL_SEC (jget obj ''realityCheckIntervalSec''),
                    time_claim num prim MAX_SESSION_SEC (jget obj ''maxSessionSec''),
                    money_claim prim (jget obj ''maxSessionLoss''), money_claim prim (jget obj ''maxSessionWager'')) of
                (Inr a, Inr b, Inr c, Inr d) \<Rightarrow>
                  let eff = \<lparr>rg_realityCheckIntervalSec = a, rg_maxSessionSec = b,
                             rg_enforceRealityCheck = (jget obj ''enforceRealityCheck'' \<noteq> Some (JBool False)),
                             rg_maxSessionLoss = c, rg_maxSessionWager = d\<rparr>
                  in if active_control eff then Some eff else None
              | _ \<Rightarrow> None)"

section \<open>Decimal text survives the coercion\<close>

lemma nat_to_string_digits: "c \<in> set (nat_to_string n) \<Longrightarrow> \<exists>d < 10. c = digit_char d"
proof (induction n rule: nat_to_string.induct)
  case (1 n)
  have "\<exists>d < 10. digit_char (n mod 10) = digit_char d" by (intro exI [of _ "n mod 10"]) simp
  with 1 show ?case by (cases "n < 10") (auto simp: nat_to_string.simps [of n])
qed

lemma of_char_digit [simp]: "d < 10 \<Longrightarrow> (of_char (digit_char d) :: nat) = 48 + d"
  by (simp add: digit_char_def)

lemma bigint_to_string_chars:
  assumes "c \<in> set (bigint_to_string i)"
  shows "\<not> js_space c" and "c \<notin> {CHR ''x'', CHR ''X'', CHR ''o'', CHR ''O'', CHR ''b'', CHR ''B''}"
proof -
  have "c = CHR ''-'' \<or> (\<exists>d < 10. c = digit_char d)"
    using assms by (auto simp: bigint_to_string_def dest: nat_to_string_digits split: if_splits)
  then have "(of_char c :: nat) = 45 \<or> (\<exists>d < 10. (of_char c :: nat) = 48 + d)" by auto
  then show "\<not> js_space c" "c \<notin> {CHR ''x'', CHR ''X'', CHR ''o'', CHR ''O'', CHR ''b'', CHR ''B''}"
    by (auto simp: js_space_def)
qed

lemma dropWhile_none: "\<forall>c \<in> set xs. \<not> P c \<Longrightarrow> dropWhile P xs = xs"
  by (cases xs) auto

lemma starts_with_2D: "starts_with s [a, b] \<Longrightarrow> b \<in> set s"
  by (cases s; cases "List.tl s") (auto simp: starts_with_def)

lemma text_to_bigint_to_string [simp]: "text_to_bigint (bigint_to_string i) = Some i"
proof -
  have "js_trim (bigint_to_string i) = bigint_to_string i"
    using bigint_to_string_chars(1) [of _ i] by (simp add: js_trim_def dropWhile_none Ball_def)
  moreover have "string_radix (bigint_to_string i) = None"
    using bigint_to_string_chars(2) [of _ i] by (auto simp: string_radix_def dest!: starts_with_2D)
  ultimately show ?thesis by (simp add: text_to_bigint_def)
qed

lemma isInteger_of_int [simp]: "isInteger (of_int n)"
  by (simp add: isInteger_def)

section \<open>What resolution can produce\<close>

lemma int_fieldD: "int_field j k ok = Some n \<Longrightarrow> ok n"
  by (auto simp: int_field_def split: option.splits json.splits if_splits)

lemma opt_int_fieldD: "opt_int_field j k ok = Inr (Some n) \<Longrightarrow> ok n"
  by (auto simp: opt_int_field_def dest: int_fieldD split: option.splits)

lemma record_entriesD:
  "record_entries f fs = Some xs \<Longrightarrow> (k, x) \<in> set xs \<Longrightarrow> \<exists>j. f j = Some x"
  by (induction f fs arbitrary: xs rule: record_entries.induct) (auto split: option.splits if_splits)

lemma record_schemaD: "record_schema f j = Some xs \<Longrightarrow> (k, x) \<in> set xs \<Longrightarrow> \<exists>j. f j = Some x"
  by (cases "(f, j)" rule: record_schema.cases) (auto dest: record_entriesD)

lemma lookup_currencyD: "lookup_currency xs c = Some x \<Longrightarrow> \<exists>k. (k, x) \<in> set xs"
  by (induction xs c rule: lookup_currency.induct) (auto split: if_splits)

definition limits_ok :: "per_bet_limits \<Rightarrow> bool" where
  "limits_ok l \<longleftrightarrow> 0 \<le> pb_minBet l \<and> pb_minBet l \<le> pb_maxBet l \<and> pb_maxBet l \<le> pb_maxWinPerBet l"

definition rg_ok :: "effective_rg \<Rightarrow> bool" where
  "rg_ok e \<longleftrightarrow> active_control e \<and>
     pred_option (\<lambda>n. 0 < n \<and> n \<le> MAX_REALITY_CHECK_INTERVAL_SEC) (rg_realityCheckIntervalSec e) \<and>
     pred_option (\<lambda>n. 0 < n \<and> n \<le> MAX_SESSION_SEC) (rg_maxSessionSec e) \<and>
     pred_option (\<lambda>n. 0 < n) (rg_maxSessionLoss e) \<and> pred_option (\<lambda>n. 0 < n) (rg_maxSessionWager e)"

lemma effectiveLimits_ok:
  assumes "effectiveLimitsFor j c = Some l"
  shows "limits_ok l"
proof -
  obtain k cfg where "record_schema PerCurrencyLimitSchema k = Some cfg" "lookup_currency cfg (to_upper c) = Some l"
    using assms by (auto simp: effectiveLimitsFor_def parseBetLimits_def simp del: record_schema.simps
        split: option.splits json.splits)
  then obtain j' where "PerCurrencyLimitSchema j' = Some l" using lookup_currencyD record_schemaD by metis
  then show ?thesis
    by (auto simp: PerCurrencyLimitSchema_def limits_ok_def dest!: int_fieldD split: option.splits if_splits)
qed

lemma rg_money_ok:
  assumes "record_schema PerCurrencyRgLimitSchema k = Some ls" "lookup_currency ls c = Some m"
  shows "pred_option (\<lambda>n. 0 < n) (rm_maxSessionLoss m) \<and> pred_option (\<lambda>n. 0 < n) (rm_maxSessionWager m)"
proof -
  obtain j where "PerCurrencyRgLimitSchema j = Some m" using assms lookup_currencyD record_schemaD by metis
  then show ?thesis
    by (cases "rm_maxSessionLoss m"; cases "rm_maxSessionWager m")
      (auto simp: PerCurrencyRgLimitSchema_def dest!: opt_int_fieldD split: json.splits sum.splits)
qed

lemma effectiveRg_ok:
  assumes "effectiveRgFor j c = Some e"
  shows "rg_ok e"
proof -
  obtain cfg where cfg: "parseRgConfig j = Some cfg"
    using assms by (auto simp: effectiveRgFor_def split: option.splits)
  then obtain k where k: "RgConfigSchema k = Some cfg" by (auto simp: parseRgConfig_def split: option.splits json.splits)
  define l where "l = (case rk_limits cfg of None \<Rightarrow> None | Some ls \<Rightarrow> lookup_currency ls (to_upper c))"
  have l: "pred_option (\<lambda>m. pred_option (\<lambda>n. 0 < n) (rm_maxSessionLoss m) \<and> pred_option (\<lambda>n. 0 < n) (rm_maxSessionWager m)) l"
    using k rg_money_ok
    by (cases l) (auto simp: l_def RgConfigSchema_def split: json.splits option.splits sum.splits if_splits)
  have t: "pred_option (\<lambda>n. 0 < n \<and> n \<le> MAX_REALITY_CHECK_INTERVAL_SEC) (rk_realityCheckIntervalSec cfg)"
    "pred_option (\<lambda>n. 0 < n \<and> n \<le> MAX_SESSION_SEC) (rk_maxSessionSec cfg)"
    using k
    by (cases "rk_realityCheckIntervalSec cfg"; cases "rk_maxSessionSec cfg";
        auto simp: RgConfigSchema_def MIN_TIME_SEC_def dest!: opt_int_fieldD split: json.splits option.splits sum.splits if_splits)+
  have "active_control e \<and> rg_realityCheckIntervalSec e = rk_realityCheckIntervalSec cfg \<and>
      rg_maxSessionSec e = rk_maxSessionSec cfg \<and>
      rg_maxSessionLoss e = (case l of None \<Rightarrow> None | Some m \<Rightarrow> rm_maxSessionLoss m) \<and>
      rg_maxSessionWager e = (case l of None \<Rightarrow> None | Some m \<Rightarrow> rm_maxSessionWager m)"
    using assms cfg by (auto simp: effectiveRgFor_def l_def Let_def split: if_splits)
  with t l show ?thesis by (cases l) (simp_all add: rg_ok_def)
qed

section \<open>Properties\<close>

lemma js_number_of_int [simp]: "js_number num prim (JNum (of_int n)) = Some (of_int n)"
  by simp

lemma time_claim_of_int:
  "pred_option (\<lambda>n. 0 < n \<and> n \<le> b) v \<Longrightarrow>
   time_claim num prim b (map_option (\<lambda>n. JNum (of_int n)) v) = Inr v"
  by (cases v) (auto simp: time_claim_def)

lemma money_claim_text:
  "pred_option (\<lambda>n. 0 < n) v \<Longrightarrow> money_claim prim (map_option (\<lambda>n. JStr (bigint_to_string n)) v) = Inr v"
  by (cases v) (auto simp: money_claim_def)

lemma map_of_opt_entry [simp]: "map_of (opt_entry k f v) = (if v = None then Map.empty else [k \<mapsto> f (the v)])"
  by (auto simp: opt_entry_def split: option.split)

lemma jget_serializeRg:
  "jget (serializeRg e) ''realityCheckIntervalSec'' = map_option (\<lambda>n. JNum (of_int n)) (rg_realityCheckIntervalSec e)"
  "jget (serializeRg e) ''maxSessionSec'' = map_option (\<lambda>n. JNum (of_int n)) (rg_maxSessionSec e)"
  "jget (serializeRg e) ''maxSessionLoss'' = map_option (\<lambda>n. JStr (bigint_to_string n)) (rg_maxSessionLoss e)"
  "jget (serializeRg e) ''maxSessionWager'' = map_option (\<lambda>n. JStr (bigint_to_string n)) (rg_maxSessionWager e)"
  "jget (serializeRg e) ''enforceRealityCheck'' = Some (JBool (rg_enforceRealityCheck e))"
  by (cases e; auto simp: serializeRg_def map_add_def opt_entry_def split: option.splits)+

lemma limits_back: "limits_ok l \<Longrightarrow> deserializeBetLimits prim (Some (serializeBetLimits l)) = Some l"
  by (simp add: deserializeBetLimits_def serializeBetLimits_def limits_ok_def)

lemma rg_back: "rg_ok e \<Longrightarrow> deserializeRg num prim (Some (serializeRg e)) = Some e"
proof -
  assume "rg_ok e"
  moreover have "is_object (Some (serializeRg e))" by (simp add: serializeRg_def)
  ultimately show ?thesis
    by (simp add: deserializeRg_def jget_serializeRg rg_ok_def time_claim_of_int money_claim_text Let_def active_control_def)
qed

text \<open>The limits and the responsible-gambling controls an operator has configured for a session's
  currency reach the bet path unchanged: what resolution yields from the stored columns, written into the
  play token and read back at the socket, is the same value.\<close>

theorem limits_survive_token:
  assumes "effectiveLimitsFor jl c = Some l" and "effectiveRgFor jr c = Some e"
  shows "deserializeBetLimits prim (Some (serializeBetLimits l)) = Some l \<and>
    deserializeRg num prim (Some (serializeRg e)) = Some e"
  using limits_back [OF effectiveLimits_ok [OF assms(1)]] rg_back [OF effectiveRg_ok [OF assms(2)]] by simp

text \<open>Whatever claim a token carries, the limits read from it form a window (a stake floor, a ceiling
  above it and a win cap above that), and the controls read from it have positive bounded times, positive
  caps and at least one control in force.\<close>

theorem token_limits_wellformed:
  assumes "deserializeBetLimits prim j = Some l" and "deserializeRg num prim j' = Some e"
  shows "limits_ok l \<and> rg_ok e"
  using assms
  by (auto simp: deserializeBetLimits_def deserializeRg_def limits_ok_def rg_ok_def time_claim_def money_claim_def Let_def
      isInteger_def split: if_splits option.splits sum.splits)

section \<open>One operator's configuration\<close>

definition demo_limits :: json where
  "demo_limits = JObj [(''eur'', JObj [(''minBet'', JNum 10), (''maxBet'', JNum 1000), (''maxWinPerBet'', JNum 100000)])]"

definition demo_rg :: json where
  "demo_rg = JObj [(''maxSessionSec'', JNum 3600), (''limits'', JObj [(''EUR'', JObj [(''maxSessionLoss'', JNum 5000)])])]"

theorem limits_survive_token_witness:
  "\<exists>l e. effectiveLimitsFor (Some demo_limits) ''EUR'' = Some l \<and> effectiveRgFor (Some demo_rg) ''EUR'' = Some e \<and>
     rg_maxSessionLoss e = Some 5000 \<and>
     deserializeBetLimits (\<lambda>_. []) (Some (serializeBetLimits l)) = Some l \<and>
     deserializeRg (\<lambda>_. None) (\<lambda>_. []) (Some (serializeRg e)) = Some e"
proof -
  have "effectiveLimitsFor (Some demo_limits) ''EUR'' \<noteq> None" by code_simp
  moreover have "map_option rg_maxSessionLoss (effectiveRgFor (Some demo_rg) ''EUR'') = Some (Some 5000)" by code_simp
  ultimately show ?thesis using limits_survive_token by fastforce
qed

theorem token_limits_wellformed_witness:
  "\<exists>l e. deserializeBetLimits (\<lambda>_. []) (Some (JObj [(''minBet'', JStr ''0''), (''maxBet'', JNum 5), (''maxWinPerBet'', JStr '' 7'')])) = Some l \<and>
     deserializeRg (\<lambda>_. None) (\<lambda>_. []) (Some (JObj [(''maxSessionLoss'', JBool True)])) = Some e \<and> limits_ok l \<and> rg_ok e"
proof -
  have "deserializeBetLimits (\<lambda>_. []) (Some (JObj [(''minBet'', JStr ''0''), (''maxBet'', JNum 5), (''maxWinPerBet'', JStr '' 7'')])) \<noteq> None"
    "deserializeRg (\<lambda>_. None) (\<lambda>_. []) (Some (JObj [(''maxSessionLoss'', JBool True)])) \<noteq> None"
    by code_simp+
  then show ?thesis using token_limits_wellformed by fastforce
qed

end
