(* ===== verification/VR_RiskBoot.thy ===== *)
theory VR_RiskBoot
  imports VR_Limits
begin

text \<open>
  The boot guard of the risk ceilings and what the service reads from the same variables
  (\<open>assertRiskConfigForMode\<close>, \<open>envNum\<close> and \<open>RiskService.limits\<close> of \<open>src/game/risk.service.ts\<close>). The
  environment is a map from names to texts; \<open>js_Number\<close> is the language's conversion of a text.
\<close>

section \<open>Numbers in text\<close>

datatype js_num = NaN | Infinite bool | Fin rat

definition is_digit :: "char \<Rightarrow> bool" where
  "is_digit c \<longleftrightarrow> char_digit c \<noteq> None"

definition exponent_part :: "string \<Rightarrow> int option" where
  "exponent_part s =
     (case s of
        [] \<Rightarrow> Some 0
      | c # ds \<Rightarrow> if (c = CHR ''e'' \<or> c = CHR ''E'') \<and> ds \<noteq> [] then string_to_bigint ds else None)"

definition scale :: "nat \<Rightarrow> int \<Rightarrow> rat" where
  "scale n e = (if e < 0 then of_nat n / of_nat (10 ^ nat (- e)) else of_nat (n * 10 ^ nat e))"

definition unsigned_number :: "string \<Rightarrow> js_num" where
  "unsigned_number s =
     (if s = ''Infinity'' then Infinite True
      else let whole = takeWhile is_digit s; rest = dropWhile is_digit s;
               dot = (rest \<noteq> [] \<and> hd rest = CHR ''.'');
               frac = (if dot then takeWhile is_digit (List.tl rest) else []);
               rest = (if dot then dropWhile is_digit (List.tl rest) else rest)
           in if whole = [] \<and> frac = [] then NaN
              else case (digits_value 0 (whole @ frac), exponent_part rest) of
                (Some n, Some e) \<Rightarrow> Fin (scale n (e - int (length frac)))
              | _ \<Rightarrow> NaN)"

fun negate :: "js_num \<Rightarrow> js_num" where
  "negate NaN = NaN"
| "negate (Infinite b) = Infinite (\<not> b)"
| "negate (Fin r) = Fin (- r)"

definition js_Number :: "string \<Rightarrow> js_num" where
  "js_Number s =
     (let t = js_trim s
      in case t of
           [] \<Rightarrow> Fin 0
         | c # cs \<Rightarrow>
             (case string_radix t of
                Some r \<Rightarrow> (case (drop 2 t, radix_value r 0 (drop 2 t)) of
                             (_ # _, Some n) \<Rightarrow> Fin (of_nat n) | _ \<Rightarrow> NaN)
              | None \<Rightarrow> if c = CHR ''-'' then negate (unsigned_number cs)
                        else if c = CHR ''+'' then unsigned_number cs else unsigned_number t))"

fun positive :: "js_num \<Rightarrow> bool" where
  "positive NaN = False"
| "positive (Infinite b) = b"
| "positive (Fin r) = (0 < r)"

section \<open>The guard\<close>

definition REQUIRED_REALMONEY_RISK_KEYS :: "string list" where
  "REQUIRED_REALMONEY_RISK_KEYS =
     [''RISK_MAX_WIN_PER_BET'', ''RISK_MAX_MULTIPLIER'', ''RISK_MAX_ROUND_EXPOSURE'', ''RISK_MAX_BET'']"

definition missing_ceiling :: "string option \<Rightarrow> bool" where
  "missing_ceiling v = (case v of None \<Rightarrow> True | Some s \<Rightarrow> js_trim s = [] \<or> \<not> positive (js_Number s))"

text \<open>The keys named in the error are on the left.\<close>

definition assertRiskConfigForMode :: "(string \<Rightarrow> string option) \<Rightarrow> string list + unit" where
  "assertRiskConfigForMode env =
     (let mode = (case env ''WALLET_PROVIDER_TYPE'' of None \<Rightarrow> ''internal'' | Some m \<Rightarrow> m)
      in if mode = ''internal'' \<or> env ''RISK_ALLOW_DEMO_DEFAULTS'' = Some ''true'' then Inr ()
         else let missing = filter (\<lambda>k. missing_ceiling (env k)) REQUIRED_REALMONEY_RISK_KEYS
              in if missing \<noteq> [] then Inl missing else Inr ())"

section \<open>What the service reads\<close>

definition envNum :: "string option \<Rightarrow> rat \<Rightarrow> js_num" where
  "envNum v d =
     (case v of
        None \<Rightarrow> Fin d
      | Some s \<Rightarrow> if s = [] \<or> js_Number s = NaN then Fin d else js_Number s)"

text \<open>\<open>BigInt(maxMultiplier)\<close> throws unless it is a whole number: then no bet can be checked, which is \<open>None\<close>.\<close>

definition env_limits :: "(string \<Rightarrow> string option) \<Rightarrow> risk_limits option" where
  "env_limits env =
     (case envNum (env ''RISK_MAX_MULTIPLIER'') 1000000 of
        Fin m \<Rightarrow>
          if isInteger m then Some
            \<lparr>rl_minBet = envBig (env ''RISK_MIN_BET'') (rl_minBet default_limits),
             rl_maxBet = envBig (env ''RISK_MAX_BET'') (rl_maxBet default_limits),
             rl_maxWinPerBet = envBig (env ''RISK_MAX_WIN_PER_BET'') (rl_maxWinPerBet default_limits),
             rl_maxMultiplier = \<lfloor>m\<rfloor>,
             rl_maxRoundExposure = envBig (env ''RISK_MAX_ROUND_EXPOSURE'') (rl_maxRoundExposure default_limits)\<rparr>
          else None
      | _ \<Rightarrow> None)"

section \<open>Properties\<close>

definition plain_digits :: "string \<Rightarrow> bool" where
  "plain_digits s \<longleftrightarrow> s \<noteq> [] \<and> digits_value 0 s \<noteq> None"

text \<open>The guard that forbids a real-money boot on demo-grade ceilings accepts them: a ceiling written as
  any positive number that is not a plain run of digits, such as \<open>1e3\<close>, passes the guard, and the service
  then falls back to the demo default for it.\<close>

theorem risk_guard_admits_demo_defaults:
  assumes "env ''RISK_MAX_BET'' = Some s" "env ''RISK_MAX_WIN_PER_BET'' = Some s" "env ''RISK_MAX_ROUND_EXPOSURE'' = Some s"
    and "env ''RISK_MAX_MULTIPLIER'' = Some s"
    and pos: "js_Number s = Fin r" "0 < r" "isInteger r" and "\<not> plain_digits s" and "js_trim s \<noteq> []"
  shows "assertRiskConfigForMode env = Inr () \<and>
    (\<exists>l. env_limits env = Some l \<and> rl_maxBet l = rl_maxBet default_limits \<and>
       rl_maxWinPerBet l = rl_maxWinPerBet default_limits \<and> rl_maxRoundExposure l = rl_maxRoundExposure default_limits)"
proof -
  have s: "s \<noteq> []" using assms by (auto simp: js_trim_def)
  then have d: "digits_value 0 s = None" using assms by (simp add: plain_digits_def)
  have "\<not> missing_ceiling (Some s)" using assms by (simp add: missing_ceiling_def)
  then have "assertRiskConfigForMode env = Inr ()"
    using assms by (simp add: assertRiskConfigForMode_def REQUIRED_REALMONEY_RISK_KEYS_def Let_def)
  moreover have "env_limits env \<noteq> None" using assms s by (simp add: env_limits_def envNum_def)
  ultimately show ?thesis using assms s d by (simp add: env_limits_def envNum_def envBig_def)
qed

definition demo_boot :: "string \<Rightarrow> string option" where
  "demo_boot k = Some (if k = ''WALLET_PROVIDER_TYPE'' then ''operator'' else ''1e3'')"

theorem risk_guard_admits_demo_defaults_witness:
  "assertRiskConfigForMode demo_boot = Inr () \<and> map_option rl_maxBet (env_limits demo_boot) = Some 1000000"
proof -
  have n: "js_Number ''1e3'' = Fin 1000" "\<not> plain_digits ''1e3''" "js_trim ''1e3'' \<noteq> []" by code_simp+
  have "isInteger 1000" by (simp add: isInteger_def)
  with n show ?thesis
    using risk_guard_admits_demo_defaults [of demo_boot "''1e3''" 1000]
    by (auto simp: demo_boot_def default_limits_def)
qed

end
