(* ===== verification/VR_Reporting.thy ===== *)
theory VR_Reporting
  imports VR_Bets "HOL-Library.List_Lexorder" "HOL-Library.Char_ord" "HOL-Library.Product_Lexorder"
begin

text \<open>
  The operator's read-only reports (\<open>src/operator/reporting.service.ts\<close> with the currency table of
  \<open>src/common/currency.ts\<close>): per-currency totals, the daily series, the paged list of bets and the
  disposition of one transaction.

  Days are numbered from the epoch, in UTC. Currency codes are upper-case ASCII, where \<open>localeCompare\<close> is
  the lexicographic order, and so is the order of PostgreSQL on uuid columns. A JavaScript \<open>Map\<close> is an
  association list in insertion order. The wallets of \<open>one wallet per player and currency\<close> are counted as
  the source counts them.
\<close>

section \<open>Currencies\<close>

definition CURRENCIES :: "(string \<times> nat) list" where
  "CURRENCIES =
     [(''DEMO'', 2), (''EUR'', 2), (''USD'', 2), (''GBP'', 2), (''CHF'', 2), (''CAD'', 2), (''AUD'', 2), (''BRL'', 2),
      (''INR'', 2), (''JPY'', 0), (''USDT'', 6), (''USDC'', 6), (''BTC'', 8), (''ETH'', 18)]"

record currency_meta =
  cm_code :: string
  cm_decimals :: nat
  cm_known :: bool

definition currencyMeta :: "string \<Rightarrow> currency_meta" where
  "currencyMeta code =
     (case map_of CURRENCIES (to_upper code) of
        Some d \<Rightarrow> \<lparr>cm_code = to_upper code, cm_decimals = d, cm_known = True\<rparr>
      | None \<Rightarrow> \<lparr>cm_code = to_upper code, cm_decimals = 2, cm_known = False\<rparr>)"

section \<open>Scope\<close>

record report_query =
  q_from :: int
  q_to :: int
  q_currency :: "string option"
  q_includeDemo :: bool

record bets_query = report_query +
  q_cursor :: "uid option"
  q_limit :: nat

definition in_scope :: "uid \<Rightarrow> 'a report_query_scheme \<Rightarrow> bet \<Rightarrow> bool" where
  "in_scope operatorId q b \<longleftrightarrow>
     b_operatorId b = Some operatorId \<and> q_from q \<le> b_createdAt b \<and> b_createdAt b \<le> q_to q \<and>
     (case q_currency q of None \<Rightarrow> True | Some c \<Rightarrow> c = [] \<or> b_currency b = c) \<and> (q_includeDemo q \<or> \<not> b_demo b)"

definition scope :: "uid \<Rightarrow> 'a report_query_scheme \<Rightarrow> 'o world \<Rightarrow> bet list" where
  "scope operatorId q w = filter (in_scope operatorId q) (db_bets w)"

section \<open>Totals\<close>

record currency_stat =
  cs_currency :: string
  cs_decimals :: nat
  cs_betCount :: nat
  cs_wagered :: string
  cs_won :: string
  cs_ggr :: string
  cs_uniquePlayers :: nat
  cs_rtp :: string

definition toCurrencyStat :: "string \<Rightarrow> nat \<Rightarrow> int \<Rightarrow> int \<Rightarrow> nat \<Rightarrow> currency_stat" where
  "toCurrencyStat currency betCount wagered won uniquePlayers =
     \<lparr>cs_currency = currency, cs_decimals = cm_decimals (currencyMeta currency), cs_betCount = betCount,
      cs_wagered = minorUnitsToString wagered, cs_won = minorUnitsToString won, cs_ggr = minorUnitsToString (wagered - won),
      cs_uniquePlayers = uniquePlayers, cs_rtp = rtpRatioString won wagered\<rparr>"

text \<open>\<open>map.set(k, f(map.get(k) ?? d))\<close>.\<close>

fun upsert :: "'k \<Rightarrow> ('a \<Rightarrow> 'a) \<Rightarrow> 'a \<Rightarrow> ('k \<times> 'a) list \<Rightarrow> ('k \<times> 'a) list" where
  "upsert k f d [] = [(k, f d)]"
| "upsert k f d ((j, x) # xs) = (if j = k then (k, f x) # xs else (j, x) # upsert k f d xs)"

record bet_group =
  g_currency :: string
  g_status :: bet_status
  g_amount :: int
  g_payout :: int
  g_count :: nat

text \<open>\<open>groupBy({ by: ["currency", "status"], _sum, _count })\<close>.\<close>

definition group_bets :: "bet list \<Rightarrow> bet_group list" where
  "group_bets rows =
     map (\<lambda>(c, s). let g = filter (\<lambda>b. b_currency b = c \<and> b_status b = s) rows
                   in \<lparr>g_currency = c, g_status = s, g_amount = sum_list (map b_amount g),
                       g_payout = sum_list (map b_payout g), g_count = length g\<rparr>)
       (remdups (map (\<lambda>b. (b_currency b, b_status b)) rows))"

definition group_players :: "bet list \<Rightarrow> (string \<times> uid) list" where
  "group_players rows = remdups (map (\<lambda>b. (b_currency b, b_walletId b)) (filter (\<lambda>b. isWageredStatus (b_status b)) rows))"

definition add_group :: "bet_group \<Rightarrow> nat \<times> int \<times> int \<Rightarrow> nat \<times> int \<times> int" where
  "add_group g e =
     (case e of (n, wagered, won) \<Rightarrow>
        (if isWageredStatus (g_status g) then n + g_count g else n,
         if isWageredStatus (g_status g) then wagered + g_amount g else wagered,
         if isWonStatus (g_status g) then won + g_payout g else won))"

definition currency_acc :: "bet_group list \<Rightarrow> (string \<times> nat \<times> int \<times> int) list" where
  "currency_acc grouped =
     fold (\<lambda>g acc. if g_currency g = [] then acc else upsert (g_currency g) (add_group g) (0, 0, 0) acc) grouped []"

definition foldCurrencies :: "bet_group list \<Rightarrow> (string \<times> uid) list \<Rightarrow> currency_stat list" where
  "foldCurrencies grouped players =
     sort_key cs_currency
       (map (\<lambda>(c, n, wagered, won). toCurrencyStat c n wagered won (length (filter (\<lambda>p. fst p = c) players)))
         (filter (\<lambda>(c, n, wagered, won). 0 < n) (currency_acc grouped)))"

definition summary :: "uid \<Rightarrow> 'a report_query_scheme \<Rightarrow> 'o world \<Rightarrow> currency_stat list" where
  "summary operatorId q w =
     (let rows = scope operatorId q w in foldCurrencies (group_bets rows) (group_players rows))"

section \<open>The daily series\<close>

record bucket =
  bk_betCount :: nat
  bk_wagered :: int
  bk_won :: int
  bk_players :: "uid list"

definition day_of :: "int \<Rightarrow> int" where
  "day_of t = t div 86400000"

definition add_bet :: "bet \<Rightarrow> bucket \<Rightarrow> bucket" where
  "add_bet r b =
     (let b1 = (if isWageredStatus (b_status r)
                then b\<lparr>bk_wagered := bk_wagered b + b_amount r, bk_betCount := Suc (bk_betCount b),
                       bk_players := List.insert (b_walletId r) (bk_players b)\<rparr>
                else b)
      in if isWonStatus (b_status r) then b1\<lparr>bk_won := bk_won b1 + b_payout r\<rparr> else b1)"

definition empty_bucket :: bucket where
  "empty_bucket = \<lparr>bk_betCount = 0, bk_wagered = 0, bk_won = 0, bk_players = []\<rparr>"

definition daily_acc :: "bet list \<Rightarrow> ((int \<times> string) \<times> bucket) list" where
  "daily_acc rows =
     fold (\<lambda>r acc. if b_currency r = [] then acc
                   else upsert (day_of (b_createdAt r), b_currency r) (add_bet r) empty_bucket acc) rows []"

definition daily :: "uid \<Rightarrow> 'a report_query_scheme \<Rightarrow> 'o world \<Rightarrow> (int \<times> currency_stat) list" where
  "daily operatorId q w =
     sort_key (\<lambda>(d, s). (d, cs_currency s))
       (map (\<lambda>((d, c), b). (d, toCurrencyStat c (bk_betCount b) (bk_wagered b) (bk_won b) (length (bk_players b))))
         (filter (\<lambda>(k, b). 0 < bk_betCount b) (daily_acc (scope operatorId q w))))"

section \<open>The list of bets\<close>

record bet_row =
  row_id :: uid
  row_roundId :: uid
  row_playerId :: "string option"
  row_currency :: string
  row_decimals :: nat
  row_panel :: panel
  row_amount :: string
  row_status :: bet_status
  row_cashoutMult :: "int option"
  row_payout :: string
  row_demo :: bool
  row_createdAt :: int
  row_settledAt :: "int option"

definition playerId_of :: "'o world \<Rightarrow> uid \<Rightarrow> string option" where
  "playerId_of w walletId = map_option s_playerId (find (\<lambda>s. s_walletId s = walletId) (db_sessions w))"

definition to_row :: "'o world \<Rightarrow> bet \<Rightarrow> bet_row" where
  "to_row w b =
     \<lparr>row_id = b_id b, row_roundId = b_roundId b, row_playerId = playerId_of w (b_walletId b), row_currency = b_currency b,
      row_decimals = cm_decimals (currencyMeta (b_currency b)), row_panel = b_panel b,
      row_amount = minorUnitsToString (b_amount b), row_status = b_status b,
      row_cashoutMult = (if b_cashoutMult b = Some 0 then None else b_cashoutMult b), row_payout = minorUnitsToString (b_payout b),
      row_demo = b_demo b, row_createdAt = b_createdAt b, row_settledAt = b_settledAt b\<rparr>"

definition sort_pos :: "bet \<Rightarrow> int \<times> string" where
  "sort_pos b = (b_createdAt b, b_id b)"

definition newest_first :: "bet list \<Rightarrow> bet list" where
  "newest_first rows = rev (sort_key sort_pos rows)"

text \<open>A cursor starts the listing at its own row, which \<open>skip: 1\<close> leaves out.\<close>

definition from_cursor :: "bet option \<Rightarrow> bet list \<Rightarrow> bet list" where
  "from_cursor c rows =
     (case c of None \<Rightarrow> rows | Some b \<Rightarrow> drop 1 (dropWhile (\<lambda>r. sort_pos b < sort_pos r) rows))"

record bets_page =
  page_bets :: "bet_row list"
  page_nextCursor :: "uid option"

definition list_bets :: "uid \<Rightarrow> bets_query \<Rightarrow> 'o world \<Rightarrow> string + bets_page" where
  "list_bets operatorId q w =
     (let c = (case q_cursor q of None \<Rightarrow> None | Some i \<Rightarrow> if i = [] then None else Some (find_bet w i))
      in if (case c of None \<Rightarrow> False | Some None \<Rightarrow> True | Some (Some b) \<Rightarrow> b_operatorId b \<noteq> Some operatorId)
         then Inl ''invalid cursor''
         else let rows = take (Suc (q_limit q))
                    (from_cursor (case c of Some (Some b) \<Rightarrow> Some b | _ \<Rightarrow> None) (newest_first (scope operatorId q w)));
                  hasMore = (q_limit q < length rows); page = (if hasMore then take (q_limit q) rows else rows)
              in Inr \<lparr>page_bets = map (to_row w) page,
                      page_nextCursor = (if hasMore then Some (b_id (last page)) else None)\<rparr>)"

text \<open>A client that asks for pages until there is no next cursor, at most \<open>n\<close> of them.\<close>

fun follow :: "nat \<Rightarrow> uid \<Rightarrow> bets_query \<Rightarrow> 'o world \<Rightarrow> bet_row list option" where
  "follow 0 operatorId q w = None"
| "follow (Suc n) operatorId q w =
     (case list_bets operatorId q w of
        Inl _ \<Rightarrow> None
      | Inr p \<Rightarrow>
          (case page_nextCursor p of
             None \<Rightarrow> Some (page_bets p)
           | Some i \<Rightarrow> map_option (\<lambda>xs. page_bets p @ xs) (follow n operatorId (q\<lparr>q_cursor := Some i\<rparr>) w)))"

end
