(* ===== verification/VR_ReportingPages.thy ===== *)
theory VR_ReportingPages
  imports VR_Reporting
begin

text \<open>The paged list is complete: following the cursors ends and yields every bet in scope once.\<close>

section \<open>The order of the list\<close>

definition listed :: "uid \<Rightarrow> 'a report_query_scheme \<Rightarrow> 'o world \<Rightarrow> bet list" where
  "listed operatorId q w = newest_first (scope operatorId q w)"

lemma set_listed [simp]: "set (listed oid q w) = set (scope oid q w)"
  by (simp add: listed_def newest_first_def)

lemma scope_cursor [simp]: "scope oid (q\<lparr>q_cursor := c\<rparr>) w = scope oid q w"
  by (simp add: scope_def in_scope_def [abs_def])

lemma listed_cursor [simp]: "listed oid (q\<lparr>q_cursor := c\<rparr>) w = listed oid q w"
  by (simp add: listed_def)

lemma listed_strict:
  assumes "distinct (map b_id (db_bets w))"
  shows "sorted_wrt (\<lambda>a b. sort_pos b < sort_pos a) (listed oid q w)"
proof -
  let ?xs = "scope oid q w"
  have "distinct (map b_id ?xs)" using assms by (simp add: scope_def distinct_map_filter)
  then have "distinct (map (snd \<circ> sort_pos) ?xs)" by (simp add: sort_pos_def comp_def)
  then have "distinct (map sort_pos ?xs)" by (simp add: distinct_map inj_on_def)
  then have "distinct (map sort_pos (sort_key sort_pos ?xs))"
    by (simp add: distinct_map)
  then have "sorted_wrt (<) (map sort_pos (sort_key sort_pos ?xs))"
    by (simp add: strict_sorted_iff)
  then show ?thesis by (simp add: listed_def newest_first_def sorted_wrt_map sorted_wrt_rev)
qed

lemma from_cursor_listed:
  assumes "sorted_wrt (\<lambda>a b. sort_pos b < sort_pos a) rows" and "rows = xs @ b # ys"
  shows "from_cursor (Some b) rows = ys"
proof -
  have "\<forall>x \<in> set xs. sort_pos b < sort_pos x" using assms by (simp add: sorted_wrt_append)
  then have "dropWhile (\<lambda>r. sort_pos b < sort_pos r) rows = b # ys"
    using assms(2) by (simp add: dropWhile_append)
  then show ?thesis by (simp add: from_cursor_def)
qed

section \<open>Pages\<close>

text \<open>What remains of the list after the cursor.\<close>

definition remaining :: "uid \<Rightarrow> bets_query \<Rightarrow> 'o world \<Rightarrow> bet list \<Rightarrow> bool" where
  "remaining oid q w ys \<longleftrightarrow>
     (case q_cursor q of
        None \<Rightarrow> ys = listed oid q w
      | Some i \<Rightarrow> i \<noteq> [] \<and> (\<exists>xs b. listed oid q w = xs @ b # ys \<and> find_bet w i = Some b))"

lemma page_take:
  "(if n < length (take (Suc n) ys) then take n (take (Suc n) ys) else take (Suc n) ys) = take n ys"
  "n < length (take (Suc n) ys) \<longleftrightarrow> n < length ys"
  by (auto simp: min_def)

lemma list_bets_from:
  assumes "case c of None \<Rightarrow> q_cursor q = None
      | Some b \<Rightarrow> (\<exists>i. q_cursor q = Some i \<and> i \<noteq> [] \<and> find_bet w i = Some b) \<and> b_operatorId b = Some oid"
    and "from_cursor c (listed oid q w) = ys"
  shows "list_bets oid q w = Inr \<lparr>page_bets = map (to_row w) (take (q_limit q) ys),
    page_nextCursor = (if q_limit q < length ys then Some (b_id (last (take (q_limit q) ys))) else None)\<rparr>"
  using assms page_take [of "q_limit q" ys]
  by (cases c) (auto simp: list_bets_def Let_def listed_def [symmetric])

lemma page_of_remaining:
  assumes "distinct (map b_id (db_bets w))" and "remaining oid q w ys"
  shows "list_bets oid q w = Inr \<lparr>page_bets = map (to_row w) (take (q_limit q) ys),
    page_nextCursor = (if q_limit q < length ys then Some (b_id (last (take (q_limit q) ys))) else None)\<rparr>"
proof (cases "q_cursor q")
  case None
  then show ?thesis using assms(2) by (intro list_bets_from [where c = None]) (simp_all add: remaining_def from_cursor_def)
next
  case (Some i)
  then obtain xs b where b: "i \<noteq> []" "listed oid q w = xs @ b # ys" "find_bet w i = Some b"
    using assms(2) by (auto simp: remaining_def)
  have "b \<in> set (listed oid q w)" using b(2) by simp
  then have "b_operatorId b = Some oid" by (simp add: scope_def in_scope_def)
  moreover have "from_cursor (Some b) (listed oid q w) = ys"
    using listed_strict [OF assms(1)] b(2) by (rule from_cursor_listed)
  ultimately show ?thesis using Some b by (intro list_bets_from [where c = "Some b"]) simp_all
qed

lemma remaining_next:
  assumes d: "distinct (map b_id (db_bets w))" "\<forall>b \<in> set (db_bets w). b_id b \<noteq> []" and r: "remaining oid q w ys"
    and n: "1 \<le> q_limit q" "q_limit q < length ys"
  shows "remaining oid (q\<lparr>q_cursor := Some (b_id (last (take (q_limit q) ys)))\<rparr>) w (drop (q_limit q) ys)"
proof -
  let ?l = "last (take (q_limit q) ys)"
  have ys: "ys = butlast (take (q_limit q) ys) @ ?l # drop (q_limit q) ys"
    using n by (metis append_butlast_last_id append_Cons append_assoc append_Nil append_take_drop_id
        length_greater_0_conv length_take less_le_trans less_one min_less_iff_conj not_less take_eq_Nil)
  have pre: "\<exists>xs. listed oid q w = xs @ ys"
    using r by (cases "q_cursor q") (auto simp: remaining_def intro: exI [of _ "_ @ [_]"])
  then obtain xs where xs: "listed oid q w = xs @ ys" by blast
  then have l: "listed oid q w = (xs @ butlast (take (q_limit q) ys)) @ ?l # drop (q_limit q) ys" using ys by simp
  then have "?l \<in> set (listed oid q w)" by (metis in_set_conv_decomp)
  then have "?l \<in> set (db_bets w)" by (simp add: scope_def)
  then have "b_id ?l \<noteq> []" "find_bet w (b_id ?l) = Some ?l"
    using d by (auto simp: find_bet_def intro: find_distinct)
  with l show ?thesis by (auto simp: remaining_def)
qed

lemma follow_remaining:
  assumes d: "distinct (map b_id (db_bets w))" "\<forall>b \<in> set (db_bets w). b_id b \<noteq> []"
  shows "\<lbrakk>remaining oid q w ys; 1 \<le> q_limit q; length ys < n\<rbrakk> \<Longrightarrow> follow n oid q w = Some (map (to_row w) ys)"
proof (induction n arbitrary: q ys)
  case (Suc n)
  let ?k = "q_limit q"
  show ?case
  proof (cases "?k < length ys")
    case True
    have "follow n oid (q\<lparr>q_cursor := Some (b_id (last (take ?k ys)))\<rparr>) w = Some (map (to_row w) (drop ?k ys))"
      using Suc.prems True remaining_next [OF d Suc.prems(1,2) True] by (intro Suc.IH) simp_all
    then show ?thesis
      using page_of_remaining [OF d(1) Suc.prems(1)] True by (simp flip: map_append)
  next
    case False
    then show ?thesis using page_of_remaining [OF d(1) Suc.prems(1)] by simp
  qed
qed simp

section \<open>Properties\<close>

text \<open>C26. Paging through the bets ends and misses nothing: a client that follows the cursors from the first
  page, with any page size, reaches the end after at most one page more than there are bets and has then
  seen every bet in scope exactly once, newest first, and no bet of another operator.\<close>

theorem paging_complete:
  assumes "distinct (map b_id (db_bets w))" and "\<forall>b \<in> set (db_bets w). b_id b \<noteq> []"
    and "q_cursor q = None" and "1 \<le> q_limit q"
  shows "\<exists>bs. follow (Suc (length (scope oid q w))) oid q w = Some (map (to_row w) bs) \<and>
    set bs = {b \<in> set (db_bets w). in_scope oid q b} \<and> distinct bs \<and>
    sorted_wrt (\<lambda>a b. sort_pos b < sort_pos a) bs"
proof -
  have len: "length (listed oid q w) = length (scope oid q w)" by (simp add: listed_def newest_first_def)
  have "remaining oid q w (listed oid q w)" using assms(3) by (simp add: remaining_def)
  then have "follow (Suc (length (scope oid q w))) oid q w = Some (map (to_row w) (listed oid q w))"
    using assms len by (intro follow_remaining) simp_all
  moreover have "set (listed oid q w) = {b \<in> set (db_bets w). in_scope oid q b}" by (simp add: scope_def)
  moreover have "distinct (listed oid q w)"
    using assms(1) by (simp add: listed_def newest_first_def scope_def distinct_map)
  ultimately show ?thesis using listed_strict [OF assms(1)] by blast
qed

definition report_bet :: "uid \<Rightarrow> int \<Rightarrow> bet" where
  "report_bet i t =
     \<lparr>b_id = i, b_roundId = ''r1'', b_userId = ''u1'', b_walletId = ''w1'', b_panel = PanelA, b_amount = 100,
      b_autoCashout = None, b_status = Busted, b_cashoutMult = None, b_payout = 0, b_demo = False,
      b_operatorId = Some ''op'', b_currency = ''EUR'', b_maxWinPerBet = None, b_debitTxId = None, b_payoutTxId = None,
      b_createdAt = t, b_settledAt = None\<rparr>"

definition report_db :: "unit world" where
  "report_db =
     \<lparr>db_wallets = [], db_ledger = [], db_bets = [report_bet ''b1'' 10, report_bet ''b2'' 20, report_bet ''b3'' 20],
      db_rounds = [], db_users = [], db_profiles = [], db_sessions = [], db_rollbacks = [], operator_state = ()\<rparr>"

definition report_args :: bets_query where
  "report_args = \<lparr>q_from = 0, q_to = 99, q_currency = None, q_includeDemo = False, q_cursor = None, q_limit = 1\<rparr>"

theorem paging_complete_witness:
  "\<exists>bs. follow 4 ''op'' report_args report_db = Some (map (to_row report_db) bs) \<and> length bs = 3 \<and> distinct bs"
proof -
  have all: "\<forall>b \<in> set (db_bets report_db). in_scope ''op'' report_args b"
    by (simp add: in_scope_def report_args_def report_db_def report_bet_def)
  then have n: "Suc (length (scope ''op'' report_args report_db)) = 4"
    by (simp add: scope_def report_db_def)
  from all have s: "{b \<in> set (db_bets report_db). in_scope ''op'' report_args b} = set (db_bets report_db)" by blast
  have ids: "distinct (map b_id (db_bets report_db))" "\<forall>b \<in> set (db_bets report_db). b_id b \<noteq> []"
    by (simp_all add: report_db_def report_bet_def)
  have q: "q_cursor report_args = None" "1 \<le> q_limit report_args" by (simp_all add: report_args_def)
  obtain bs where bs: "follow 4 ''op'' report_args report_db = Some (map (to_row report_db) bs)"
      "set bs = set (db_bets report_db)" "distinct bs"
    using paging_complete [OF ids q, of "''op''"] unfolding n s by blast
  moreover have "card (set (db_bets report_db)) = 3" by (simp add: report_db_def report_bet_def)
  ultimately show ?thesis using distinct_card by metis
qed

end
