(* ===== verification/VR_ReportingTotals.thy ===== *)
theory VR_ReportingTotals
  imports VR_Reporting
begin

text \<open>The totals of a report, computed by grouping in the database and folding in memory, are the plain sums.\<close>

section \<open>Folding into a map\<close>

lemma map_of_upsert: "map_of (upsert k f d xs) j = (if j = k then Some (f (case map_of xs k of None \<Rightarrow> d | Some x \<Rightarrow> x)) else map_of xs j)"
  by (induction k f d xs rule: upsert.induct) auto

lemma set_fst_upsert: "fst ` set (upsert k f d xs) = insert k (fst ` set xs)"
  by (induction k f d xs rule: upsert.induct) auto

lemma distinct_upsert: "distinct (map fst xs) \<Longrightarrow> distinct (map fst (upsert k f d xs))"
proof (induction k f d xs rule: upsert.induct)
  case (2 k f d j x xs)
  have "j \<notin> fst ` set (upsert k f d xs) \<longleftrightarrow> j \<noteq> k \<and> j \<notin> fst ` set xs" by (simp add: set_fst_upsert)
  with 2 show ?case by auto
qed simp

text \<open>The value under a key is the fold of the entries with that key.\<close>

definition upsert_all :: "('r \<Rightarrow> bool) \<Rightarrow> ('r \<Rightarrow> 'k) \<Rightarrow> ('r \<Rightarrow> 'a \<Rightarrow> 'a) \<Rightarrow> 'a \<Rightarrow> 'r list \<Rightarrow> ('k \<times> 'a) list \<Rightarrow> ('k \<times> 'a) list" where
  "upsert_all skip key upd d rows acc = fold (\<lambda>r acc. if skip r then acc else upsert (key r) (upd r) d acc) rows acc"

lemma distinct_upsert_all: "distinct (map fst acc) \<Longrightarrow> distinct (map fst (upsert_all skip key upd d rows acc))"
  unfolding upsert_all_def by (induction rows arbitrary: acc) (auto intro: distinct_upsert)

lemma map_of_upsert_all:
  "map_of (upsert_all skip key upd d rows acc) k =
     (let rs = filter (\<lambda>r. \<not> skip r \<and> key r = k) rows
      in if rs = [] then map_of acc k else Some (fold upd rs (case map_of acc k of None \<Rightarrow> d | Some x \<Rightarrow> x)))"
  unfolding upsert_all_def
proof (induction rows arbitrary: acc)
  case (Cons r rows)
  show ?case
    unfolding fold_Cons comp_def Cons.IH by (auto simp: map_of_upsert Let_def)
qed simp

lemma set_upsert_all:
  "(k, v) \<in> set (upsert_all skip key upd d rows []) \<longleftrightarrow>
     (let rs = filter (\<lambda>r. \<not> skip r \<and> key r = k) rows in rs \<noteq> [] \<and> v = fold upd rs d)"
proof -
  have "(k, v) \<in> set (upsert_all skip key upd d rows []) \<longleftrightarrow> map_of (upsert_all skip key upd d rows []) k = Some v"
    by (rule map_of_eq_Some_iff [symmetric], rule distinct_upsert_all) simp
  then show ?thesis by (auto simp: map_of_upsert_all Let_def)
qed

section \<open>Reference totals\<close>

definition wagered_in :: "string \<Rightarrow> bet list \<Rightarrow> bet list" where
  "wagered_in c rows = filter (\<lambda>b. b_currency b = c \<and> isWageredStatus (b_status b)) rows"

definition stat_of :: "bet list \<Rightarrow> string \<Rightarrow> currency_stat" where
  "stat_of rows c =
     toCurrencyStat c (length (wagered_in c rows)) (sum_list (map b_amount (wagered_in c rows)))
       (sum_where (\<lambda>b. b_currency b = c \<and> isWonStatus (b_status b)) b_payout rows)
       (card (b_walletId ` set (wagered_in c rows)))"

definition reported :: "bet list \<Rightarrow> string set" where
  "reported rows = {c. c \<noteq> [] \<and> wagered_in c rows \<noteq> []}"

lemma fold_add_bet:
  "fold add_bet rs b =
     \<lparr>bk_betCount = bk_betCount b + length (filter (\<lambda>r. isWageredStatus (b_status r)) rs),
      bk_wagered = bk_wagered b + sum_where (\<lambda>r. isWageredStatus (b_status r)) b_amount rs,
      bk_won = bk_won b + sum_where (\<lambda>r. isWonStatus (b_status r)) b_payout rs,
      bk_players = fold List.insert (map b_walletId (filter (\<lambda>r. isWageredStatus (b_status r)) rs)) (bk_players b)\<rparr>"
  by (induction rs arbitrary: b) (simp_all add: add_bet_def Let_def)

lemma fold_insert_card: "distinct xs \<Longrightarrow> length (fold List.insert ys xs) = card (set ys \<union> set xs)"
proof (induction ys arbitrary: xs)
  case (Cons y ys)
  then show ?case by (simp add: insert_absorb flip: Un_insert_right)
qed (simp add: distinct_card)

lemma daily_bucket:
  "toCurrencyStat c (bk_betCount (fold add_bet rs empty_bucket)) (bk_wagered (fold add_bet rs empty_bucket))
     (bk_won (fold add_bet rs empty_bucket)) (length (bk_players (fold add_bet rs empty_bucket))) = stat_of rs c"
  if "\<forall>r \<in> set rs. b_currency r = c"
proof -
  have w: "filter (\<lambda>r. isWageredStatus (b_status r)) rs = wagered_in c rs"
    using that unfolding wagered_in_def by (intro filter_cong) auto
  have "sum_where (\<lambda>r. isWonStatus (b_status r)) b_payout rs = sum_where (\<lambda>b. b_currency b = c \<and> isWonStatus (b_status b)) b_payout rs"
    using that unfolding sum_where_def by (intro arg_cong [of _ _ "\<lambda>xs. sum_list (map b_payout xs)"] filter_cong) auto
  then show ?thesis
    using fold_insert_card [of "[]" "map b_walletId (wagered_in c rs)"]
    by (simp add: fold_add_bet empty_bucket_def stat_of_def w sum_where_def)
qed

lemma wagered_in_day:
  "c \<noteq> [] \<Longrightarrow> wagered_in c (filter (\<lambda>r. b_currency r \<noteq> [] \<and> (P r \<and> b_currency r = c)) rows) = wagered_in c (filter P rows)"
  unfolding wagered_in_def by (auto simp: filter_filter intro!: filter_cong)

lemma stat_of_day:
  assumes "c \<noteq> []"
  shows "stat_of (filter (\<lambda>r. b_currency r \<noteq> [] \<and> (P r \<and> b_currency r = c)) rows) c = stat_of (filter P rows) c"
proof -
  have "sum_where (\<lambda>b. b_currency b = c \<and> isWonStatus (b_status b)) b_payout (filter (\<lambda>r. b_currency r \<noteq> [] \<and> (P r \<and> b_currency r = c)) rows) =
      sum_where (\<lambda>b. b_currency b = c \<and> isWonStatus (b_status b)) b_payout (filter P rows)"
    using assms unfolding sum_where_def
    by (intro arg_cong [of _ _ "\<lambda>xs. sum_list (map b_payout xs)"]) (auto simp: filter_filter intro!: filter_cong)
  then show ?thesis using wagered_in_day [OF assms, of P rows] by (simp add: stat_of_def)
qed

section \<open>Sums of groups\<close>

lemma one_key: "distinct ks \<Longrightarrow> (\<Sum>k \<leftarrow> ks. if y = k then v else 0) = (if y \<in> set ks then v else (0 :: 'b :: comm_monoid_add))"
  by (induction ks) auto

lemma regroup:
  fixes f :: "'a \<Rightarrow> 'b :: comm_monoid_add"
  assumes "distinct ks"
  shows "(\<Sum>k \<leftarrow> ks. \<Sum>x \<leftarrow> filter (\<lambda>x. key x = k) xs. f x) = (\<Sum>x \<leftarrow> filter (\<lambda>x. key x \<in> set ks) xs. f x)"
proof (induction xs)
  case (Cons x xs)
  have "(\<Sum>k \<leftarrow> ks. \<Sum>x \<leftarrow> filter (\<lambda>x. key x = k) (x # xs). f x) =
      (\<Sum>k \<leftarrow> ks. (if key x = k then f x else 0) + (\<Sum>x \<leftarrow> filter (\<lambda>x. key x = k) xs. f x))"
    by (intro arg_cong [of _ _ sum_list] map_cong) auto
  also have "\<dots> = (if key x \<in> set ks then f x else 0) + (\<Sum>x \<leftarrow> filter (\<lambda>x. key x \<in> set ks) xs. f x)"
    using Cons one_key [OF assms, of "key x" "f x"] by (simp add: sum_list_addf)
  finally show ?case by simp
qed simp

lemma fold_add_group:
  "fold add_group gs (n, a, b) =
     (n + sum_list (map g_count (filter (\<lambda>g. isWageredStatus (g_status g)) gs)),
      a + sum_list (map g_amount (filter (\<lambda>g. isWageredStatus (g_status g)) gs)),
      b + sum_list (map g_payout (filter (\<lambda>g. isWonStatus (g_status g)) gs)))"
  by (induction gs arbitrary: n a b) (auto simp: add_group_def)

text \<open>The groups of one currency whose status has a property, summed up.\<close>

lemma sum_groups:
  fixes f :: "bet \<Rightarrow> 'b :: comm_monoid_add"
  assumes "\<And>c s g. g = filter (\<lambda>b. b_currency b = c \<and> b_status b = s) rows \<Longrightarrow>
      h \<lparr>g_currency = c, g_status = s, g_amount = sum_list (map b_amount g), g_payout = sum_list (map b_payout g), g_count = length g\<rparr> =
      (\<Sum>x \<leftarrow> g. f x)"
  shows "sum_list (map h (filter (\<lambda>g. S (g_status g)) (filter (\<lambda>g. g_currency g \<noteq> [] \<and> g_currency g = c) (group_bets rows)))) =
    (\<Sum>x \<leftarrow> filter (\<lambda>b. c \<noteq> [] \<and> b_currency b = c \<and> S (b_status b)) rows. f x)"
proof -
  let ?key = "\<lambda>b. (b_currency b, b_status b)"
  let ?ks = "filter (\<lambda>(d, s). S s \<and> d \<noteq> [] \<and> d = c) (remdups (map ?key rows))"
  have "sum_list (map h (filter (\<lambda>g. S (g_status g)) (filter (\<lambda>g. g_currency g \<noteq> [] \<and> g_currency g = c) (group_bets rows)))) =
      (\<Sum>k \<leftarrow> ?ks. \<Sum>x \<leftarrow> filter (\<lambda>x. ?key x = k) rows. f x)"
    unfolding group_bets_def Let_def filter_map filter_filter map_map
    by (intro arg_cong [of _ _ sum_list] map_cong filter_cong) (auto simp: assms [OF refl])
  also have "\<dots> = (\<Sum>x \<leftarrow> filter (\<lambda>x. ?key x \<in> set ?ks) rows. f x)" by (rule regroup) simp
  also have "filter (\<lambda>x. ?key x \<in> set ?ks) rows = filter (\<lambda>b. c \<noteq> [] \<and> b_currency b = c \<and> S (b_status b)) rows"
    by (intro filter_cong) auto
  finally show ?thesis .
qed

lemma unique_players:
  "length (filter (\<lambda>p. fst p = c) (group_players rows)) = card (b_walletId ` set (wagered_in c rows))"
proof -
  let ?xs = "filter (\<lambda>p. fst p = c) (map (\<lambda>b. (b_currency b, b_walletId b)) (filter (\<lambda>b. isWageredStatus (b_status b)) rows))"
  have "set ?xs = Pair c ` b_walletId ` set (wagered_in c rows)" by (auto simp: wagered_in_def)
  moreover have "length (filter (\<lambda>p. fst p = c) (group_players rows)) = card (set ?xs)"
    unfolding group_players_def remdups_filter [symmetric] by (rule length_remdups_card_conv)
  ultimately show ?thesis by (simp add: card_image inj_on_def)
qed

lemma summary_currency:
  assumes "c \<noteq> []"
  shows "fold add_group (filter (\<lambda>g. g_currency g \<noteq> [] \<and> g_currency g = c) (group_bets rows)) (0, 0, 0) =
    (length (wagered_in c rows), sum_list (map b_amount (wagered_in c rows)),
     sum_where (\<lambda>b. b_currency b = c \<and> isWonStatus (b_status b)) b_payout rows)"
  using sum_groups [of rows g_count "\<lambda>_. 1" isWageredStatus c] sum_groups [of rows g_amount b_amount isWageredStatus c]
    sum_groups [of rows g_payout b_payout isWonStatus c] assms
  by (simp add: fold_add_group wagered_in_def sum_where_def sum_list_triv)

section \<open>Properties\<close>

lemma daily_acc_set:
  "((d, c), b) \<in> set (daily_acc rows) \<and> 0 < bk_betCount b \<longleftrightarrow>
     c \<in> reported (filter (\<lambda>r. day_of (b_createdAt r) = d) rows) \<and>
     b = fold add_bet (filter (\<lambda>r. b_currency r \<noteq> [] \<and> (day_of (b_createdAt r) = d \<and> b_currency r = c)) rows) empty_bucket"
proof -
  let ?rs = "filter (\<lambda>r. b_currency r \<noteq> [] \<and> (day_of (b_createdAt r) = d \<and> b_currency r = c)) rows"
  have acc: "daily_acc rows = upsert_all (\<lambda>r. b_currency r = []) (\<lambda>r. (day_of (b_createdAt r), b_currency r)) add_bet empty_bucket rows []"
    by (simp add: daily_acc_def upsert_all_def)
  have "((d, c), b) \<in> set (daily_acc rows) \<longleftrightarrow> ?rs \<noteq> [] \<and> b = fold add_bet ?rs empty_bucket"
    unfolding acc set_upsert_all Let_def by simp
  moreover have "0 < bk_betCount (fold add_bet ?rs empty_bucket) \<longleftrightarrow> c \<in> reported (filter (\<lambda>r. day_of (b_createdAt r) = d) rows)"
    by (auto simp: fold_add_bet empty_bucket_def reported_def wagered_in_def filter_empty_conv)
  moreover have "?rs = [] \<Longrightarrow> \<not> 0 < bk_betCount (fold add_bet ?rs empty_bucket)" by (simp add: empty_bucket_def)
  ultimately show ?thesis by blast
qed

lemma currency_acc_set:
  "(c, n, a, p) \<in> set (currency_acc (group_bets rows)) \<and> 0 < n \<longleftrightarrow>
     c \<in> reported rows \<and> n = length (wagered_in c rows) \<and> a = sum_list (map b_amount (wagered_in c rows)) \<and>
     p = sum_where (\<lambda>b. b_currency b = c \<and> isWonStatus (b_status b)) b_payout rows"
proof -
  let ?gs = "filter (\<lambda>g. g_currency g \<noteq> [] \<and> g_currency g = c) (group_bets rows)"
  have acc: "currency_acc (group_bets rows) = upsert_all (\<lambda>g. g_currency g = []) g_currency add_group (0, 0, 0) (group_bets rows) []"
    by (simp add: currency_acc_def upsert_all_def)
  have mem: "(c, n, a, p) \<in> set (currency_acc (group_bets rows)) \<longleftrightarrow> ?gs \<noteq> [] \<and> (n, a, p) = fold add_group ?gs (0, 0, 0)"
    unfolding acc set_upsert_all Let_def by simp
  have "?gs = [] \<Longrightarrow> (n, a, p) = fold add_group ?gs (0, 0, 0) \<Longrightarrow> n = 0" by simp
  then show ?thesis
    using mem summary_currency [of c rows] by (cases "c = []") (auto simp: reported_def)
qed

lemma image_keyed:
  "(\<And>d c. R d c \<Longrightarrow> F d c (B d c) = G d c) \<Longrightarrow>
   (\<lambda>((d, c), b). F d c b) ` {((d, c), b). R d c \<and> b = B d c} = {G d c | d c. R d c}"
  by (auto simp: image_iff) metis

text \<open>C25. The reports are the plain sums over the operator's bets in scope: the per-currency totals, computed
  by grouping in the database and folding the groups, and the daily series, folded row by row, list exactly
  the currencies (and days) with a wagered bet, each with the count, turnover, winnings and number of
  distinct wallets that adding up the bets gives; so the two reports can never disagree.\<close>

theorem reports_are_sums:
  "set (summary oid q w) = stat_of (scope oid q w) ` reported (scope oid q w) \<and>
   set (daily oid q w) = {(d, stat_of rows c) | d rows c. rows = filter (\<lambda>b. day_of (b_createdAt b) = d) (scope oid q w) \<and>
     c \<in> reported rows}"
proof
  let ?rows = "scope oid q w"
  have "set (summary oid q w) =
      (\<lambda>(c, n, a, p). toCurrencyStat c n a p (length (filter (\<lambda>x. fst x = c) (group_players ?rows)))) `
        {(c, n, a, p). (c, n, a, p) \<in> set (currency_acc (group_bets ?rows)) \<and> 0 < n}"
    unfolding summary_def foldCurrencies_def Let_def set_sort set_map set_filter by (intro image_cong) auto
  also have "\<dots> = stat_of ?rows ` reported ?rows"
    unfolding currency_acc_set unique_players by (auto simp: stat_of_def image_iff)
  finally show "set (summary oid q w) = stat_of ?rows ` reported ?rows" .
next
  let ?rows = "scope oid q w" and ?day = "\<lambda>d. filter (\<lambda>b. day_of (b_createdAt b) = d) (scope oid q w)"
  let ?b = "\<lambda>d c. fold add_bet (filter (\<lambda>r. b_currency r \<noteq> [] \<and> (day_of (b_createdAt r) = d \<and> b_currency r = c)) ?rows) empty_bucket"
  have "set (daily oid q w) =
      (\<lambda>((d, c), b). (d, toCurrencyStat c (bk_betCount b) (bk_wagered b) (bk_won b) (length (bk_players b)))) `
        {((d, c), b). ((d, c), b) \<in> set (daily_acc ?rows) \<and> 0 < bk_betCount b}"
    unfolding daily_def set_sort set_map set_filter by (intro image_cong) auto
  also have "\<dots> = {(d, stat_of (?day d) c) | d c. c \<in> reported (?day d)}"
    unfolding daily_acc_set
  proof (rule image_keyed)
    fix d c
    assume "c \<in> reported (?day d)"
    then show "(d, toCurrencyStat c (bk_betCount (?b d c)) (bk_wagered (?b d c)) (bk_won (?b d c)) (length (bk_players (?b d c)))) =
        (d, stat_of (?day d) c)"
      using stat_of_day [of c "\<lambda>r. day_of (b_createdAt r) = d" ?rows]
      by (subst daily_bucket) (simp_all add: reported_def)
  qed
  finally show "set (daily oid q w) = {(d, stat_of rows c) | d rows c. rows = ?day d \<and> c \<in> reported rows}" by auto
qed

end
