(* ===== verification/VR_Transactions.thy ===== *)
theory VR_Transactions
  imports VR_Limits VR_Reporting
begin

text \<open>
  The transaction-status lookup of the operator API: \<open>parseTransactionQuery\<close> of
  \<open>src/operator/reporting-query.ts\<close> and \<open>transactionStatus\<close> with its dispositions of
  \<open>src/operator/reporting.service.ts\<close>. A query parameter that is not a text counts as absent.
\<close>

section \<open>Parsing a transaction id\<close>

definition dashes_at :: "nat list" where
  "dashes_at = [8, 13, 18, 23]"

definition is_uuid :: "string \<Rightarrow> bool" where
  "is_uuid s \<longleftrightarrow> length s = 36 \<and>
     list_all (\<lambda>i. if i \<in> set dashes_at then s ! i = CHR ''-'' else hex_digit (s ! i) \<noteq> None) [0..<36]"

datatype tx_query =
    By_betId uid
  | By_debit uid uid panel string
  | By_payout uid string
  | By_refund uid string

definition query_text :: "string option \<Rightarrow> string option" where
  "query_text v = (case v of None \<Rightarrow> None | Some s \<Rightarrow> if js_trim s = [] then None else Some (js_trim s))"

definition panel_of :: "string \<Rightarrow> panel option" where
  "panel_of s = (if s = ''A'' then Some PanelA else if s = ''B'' then Some PanelB else None)"

definition parse_transactionId :: "string \<Rightarrow> string + tx_query" where
  "parse_transactionId t =
     (let bad = Inl ''unrecognized transactionId''
      in case split_on CHR '':'' t of
           [b, i, k] \<Rightarrow>
             if b = ''bet'' \<and> k \<in> {''payout'', ''refund'', ''restart_refund''} \<and> is_uuid i
             then Inr (if k = ''payout'' then By_payout i t else By_refund i t) else bad
         | [b, r, u, p, k] \<Rightarrow>
             if b = ''bet'' \<and> k = ''debit'' \<and> is_uuid r \<and> is_uuid u
             then (case panel_of p of None \<Rightarrow> bad | Some x \<Rightarrow> Inr (By_debit r u x t)) else bad
         | _ \<Rightarrow> bad)"

definition parseTransactionQuery :: "string option \<Rightarrow> string option \<Rightarrow> string + tx_query" where
  "parseTransactionQuery rawTx rawBet =
     (case (query_text rawTx, query_text rawBet) of
        (Some _, Some _) \<Rightarrow> Inl ''provide exactly one of transactionId or betId''
      | (None, None) \<Rightarrow> Inl ''missing transactionId or betId''
      | (None, Some i) \<Rightarrow> if is_uuid i then Inr (By_betId i) else Inl ''invalid betId''
      | (Some t, None) \<Rightarrow> parse_transactionId t)"

section \<open>Dispositions\<close>

datatype debit_state = Debit_pending | Debit_applied | Debit_reversed

datatype refund_state = Refund_none | Refund_pending | Refund_applied

datatype payout_state = Payout_none | Payout_pending_state | Payout_paid

definition debitStateOf :: "bet_status \<Rightarrow> debit_state" where
  "debitStateOf s =
     (if s = Reserving \<or> s = Voiding then Debit_pending
      else if s = Cancelled \<or> s = Voided then Debit_reversed else Debit_applied)"

definition refundStateOf :: "bet_status \<Rightarrow> refund_state" where
  "refundStateOf s =
     (if s = Cancelling \<or> s = Voiding then Refund_pending
      else if s = Cancelled \<or> s = Voided then Refund_applied else Refund_none)"

definition payoutStateOf :: "bet_status \<Rightarrow> payout_state" where
  "payoutStateOf s =
     (if s = Cashed_out then Payout_paid
      else if s = Payout_pending \<or> s = Voiding then Payout_pending_state else Payout_none)"

section \<open>The lookup\<close>

record tx_status =
  ts_row :: bet_row
  ts_debit :: debit_state
  ts_refund :: refund_state
  ts_payout :: payout_state
  ts_debitTxId :: "txid option"
  ts_payoutTxId :: "txid option"
  ts_transactionId :: "string option"
  ts_queryBetId :: "uid option"

definition find_queried :: "'o world \<Rightarrow> tx_query \<Rightarrow> bet option" where
  "find_queried w q =
     (case q of
        By_debit r u p _ \<Rightarrow> find_slot w r u p
      | By_betId i \<Rightarrow> find_bet w i
      | By_payout i _ \<Rightarrow> find_bet w i
      | By_refund i _ \<Rightarrow> find_bet w i)"

definition query_tx :: "tx_query \<Rightarrow> string option" where
  "query_tx q = (case q of By_betId _ \<Rightarrow> None | By_debit _ _ _ t \<Rightarrow> Some t | By_payout _ t \<Rightarrow> Some t | By_refund _ t \<Rightarrow> Some t)"

definition transactionStatus :: "uid \<Rightarrow> tx_query \<Rightarrow> 'o world \<Rightarrow> string + tx_status" where
  "transactionStatus operatorId q w =
     (case find_queried w q of
        None \<Rightarrow> Inl ''transaction_not_found''
      | Some b \<Rightarrow>
          if b_operatorId b \<noteq> Some operatorId then Inl ''transaction_not_found''
          else Inr
            \<lparr>ts_row = to_row w b, ts_debit = debitStateOf (b_status b), ts_refund = refundStateOf (b_status b),
             ts_payout = payoutStateOf (b_status b), ts_debitTxId = b_debitTxId b, ts_payoutTxId = b_payoutTxId b,
             ts_transactionId = query_tx q, ts_queryBetId = (case q of By_betId i \<Rightarrow> Some i | _ \<Rightarrow> None)\<rparr>)"

section \<open>Texts without separators\<close>

lemma is_uuid_chars:
  assumes "is_uuid s" and "c \<in> set s"
  shows "c \<noteq> CHR '':'' \<and> \<not> js_space c"
proof -
  obtain i where i: "i < 36" "c = s ! i" using assms by (auto simp: is_uuid_def in_set_conv_nth)
  then have "c = CHR ''-'' \<or> hex_digit c \<noteq> None"
    using assms(1) by (auto simp: is_uuid_def list_all_iff split: if_splits)
  then show ?thesis by (auto simp: hex_digit_def js_space_def Let_def split: if_splits)
qed

lemma js_trim_id: "\<forall>c \<in> set s. \<not> js_space c \<Longrightarrow> js_trim s = s"
  by (simp add: js_trim_def dropWhile_none)

lemma is_uuid_colon_free: "is_uuid s \<Longrightarrow> colon_free s"
  using is_uuid_chars by (auto simp: colon_free_def)

text \<open>The ids the services send, as they reach the query.\<close>

definition sent_ids :: "bet \<Rightarrow> string list" where
  "sent_ids b = [bet_debitKey b, payoutKey (b_id b), refundKey (b_id b), restartRefundKey (b_id b)]"

lemma sent_no_space:
  assumes "is_uuid (b_id b)" "is_uuid (b_roundId b)" "is_uuid (b_userId b)" and "t \<in> set (sent_ids b)" "c \<in> set t"
  shows "\<not> js_space c"
proof -
  have "c \<in> set (''bet:debitpayoutrefundrestart_AB'') \<or> c \<in> set (b_id b) \<or> c \<in> set (b_roundId b) \<or> c \<in> set (b_userId b)"
    using assms(4,5)
    by (auto simp: sent_ids_def bet_debitKey_def debitKey_def payoutKey_def refundKey_def restartRefundKey_def panel_name_def
        split: panel.splits)
  then show ?thesis using assms(1-3) is_uuid_chars by (auto simp: js_space_def)
qed

lemma parse_sent:
  assumes "is_uuid (b_id b)" "is_uuid (b_roundId b)" "is_uuid (b_userId b)" and t: "t \<in> set (sent_ids b)"
  shows "\<exists>q. parseTransactionQuery (Some t) None = Inr q \<and> query_tx q = Some t \<and>
    (q = By_debit (b_roundId b) (b_userId b) (b_panel b) t \<or> q = By_payout (b_id b) t \<or> q = By_refund (b_id b) t)"
proof -
  have "js_trim t = t" using sent_no_space [OF assms] by (intro js_trim_id) blast
  moreover have "t \<noteq> []" using t by (auto simp: sent_ids_def bet_debitKey_def debitKey_def payoutKey_def refundKey_def restartRefundKey_def)
  ultimately have "parseTransactionQuery (Some t) None = parse_transactionId t"
    by (simp add: parseTransactionQuery_def query_text_def)
  moreover note k = assms(1-3) [THEN is_uuid_colon_free]
  ultimately show ?thesis
    using t assms(1-3) split_bet_keys [OF k(1)] split_debitKey [OF k(2,3), of "b_panel b"]
    by (cases "b_panel b")
      (auto simp: sent_ids_def parse_transactionId_def bet_debitKey_def panel_name_def panel_of_def query_tx_def Let_def)
qed

section \<open>Properties\<close>

text \<open>C27. An operator that lost the answer to any wallet call can ask for it: every transaction id the
  services send for a bet (debit, payout, refund, restart refund) is parsed back to a query that finds that
  bet and no other, with its stake and the dispositions of its status; asked by another operator, the same
  query is answered as if the bet did not exist.\<close>

theorem transaction_resolves:
  assumes "is_uuid (b_id b)" "is_uuid (b_roundId b)" "is_uuid (b_userId b)" and "t \<in> set (sent_ids b)"
    and found: "find_bet w (b_id b) = Some b" "find_slot w (b_roundId b) (b_userId b) (b_panel b) = Some b"
  shows "\<exists>q. parseTransactionQuery (Some t) None = Inr q \<and>
    (\<forall>oid. transactionStatus oid q w =
       (if b_operatorId b = Some oid then Inr
          \<lparr>ts_row = to_row w b, ts_debit = debitStateOf (b_status b), ts_refund = refundStateOf (b_status b),
           ts_payout = payoutStateOf (b_status b), ts_debitTxId = b_debitTxId b, ts_payoutTxId = b_payoutTxId b,
           ts_transactionId = Some t, ts_queryBetId = None\<rparr>
        else Inl ''transaction_not_found''))"
proof -
  obtain q where q: "parseTransactionQuery (Some t) None = Inr q" "query_tx q = Some t"
    "q = By_debit (b_roundId b) (b_userId b) (b_panel b) t \<or> q = By_payout (b_id b) t \<or> q = By_refund (b_id b) t"
    using parse_sent [OF assms(1-4)] by blast
  have "find_queried w q = Some b" "(case q of By_betId i \<Rightarrow> Some i | _ \<Rightarrow> None) = None"
    using q(3) found by (auto simp: find_queried_def)
  then show ?thesis using q(1,2) by (intro exI [of _ q]) (auto simp: transactionStatus_def)
qed

definition some_uuid :: uid where
  "some_uuid = ''0123abcd-0000-4000-8000-00000000000f''"

definition asked_bet :: bet where
  "asked_bet =
     \<lparr>b_id = some_uuid, b_roundId = some_uuid, b_userId = some_uuid, b_walletId = ''w1'', b_panel = PanelB, b_amount = 100,
      b_autoCashout = None, b_status = Cashed_out, b_cashoutMult = Some 250, b_payout = 250, b_demo = False,
      b_operatorId = Some ''op'', b_currency = ''EUR'', b_maxWinPerBet = None, b_debitTxId = None, b_payoutTxId = None,
      b_createdAt = 10, b_settledAt = Some 20\<rparr>"

definition asked_db :: "unit world" where
  "asked_db =
     \<lparr>db_wallets = [], db_ledger = [], db_bets = [asked_bet], db_rounds = [], db_users = [], db_profiles = [], db_sessions = [],
      db_rollbacks = [], operator_state = ()\<rparr>"

theorem transaction_resolves_witness:
  "\<exists>q st. parseTransactionQuery (Some (payoutKey some_uuid)) None = Inr q \<and>
     transactionStatus ''op'' q asked_db = Inr st \<and> ts_payout st = Payout_paid \<and>
     transactionStatus ''other'' q asked_db = Inl ''transaction_not_found''"
proof -
  have u: "is_uuid some_uuid" by code_simp
  have t: "payoutKey some_uuid \<in> set (sent_ids asked_bet)" by (simp add: sent_ids_def asked_bet_def)
  have f: "find_bet asked_db (b_id asked_bet) = Some asked_bet"
    "find_slot asked_db (b_roundId asked_bet) (b_userId asked_bet) (b_panel asked_bet) = Some asked_bet"
    by (simp_all add: asked_db_def find_bet_def find_slot_def)
  have "is_uuid (b_id asked_bet)" "is_uuid (b_roundId asked_bet)" "is_uuid (b_userId asked_bet)"
    using u by (simp_all add: asked_bet_def)
  from transaction_resolves [OF this t f] obtain q where q: "parseTransactionQuery (Some (payoutKey some_uuid)) None = Inr q"
    "\<And>oid. transactionStatus oid q asked_db = (if b_operatorId asked_bet = Some oid then Inr
        \<lparr>ts_row = to_row asked_db asked_bet, ts_debit = debitStateOf (b_status asked_bet),
         ts_refund = refundStateOf (b_status asked_bet), ts_payout = payoutStateOf (b_status asked_bet),
         ts_debitTxId = b_debitTxId asked_bet, ts_payoutTxId = b_payoutTxId asked_bet,
         ts_transactionId = Some (payoutKey some_uuid), ts_queryBetId = None\<rparr>
      else Inl ''transaction_not_found'')"
    by blast
  then show ?thesis by (simp add: asked_bet_def payoutStateOf_def)
qed

end
