(* ===== verification/VR_Keys.thy ===== *)
theory VR_Keys
  imports VR_Transactions VR_RiskBoot VR_EthOracle
begin

text \<open>
  How an operator authenticates: the reporting and write keys (\<open>src/operator/reporting-key.ts\<close>), the
  token comparison (\<open>src/common/timing-safe.ts\<close>), the client address (\<open>src/common/client-ip.ts\<close>), the
  guards \<open>OperatorAuthGuard\<close> and \<open>OperatorThrottlerGuard\<close> and the operator table they read.

  The two hash functions are parameters, and so is the throttler the second guard extends. The environment variable \<open>REPORTING_KEY_PEPPER\<close>
  is an argument, an empty text counting as unset. A header that is not a text is \<open>None\<close>. Ids of the
  database are UUID columns, so a lookup ignores the case of the id it is given.
\<close>

section \<open>The operator table\<close>

record operator_row =
  op_id :: uid
  op_code :: string
  op_enabled :: bool
  op_demoEnabled :: bool
  op_launchSecret :: string
  op_currencies :: "string list"
  op_callbackUrl :: "string option"
  op_ipWhitelist :: "string list"
  op_betLimits :: "json option"
  op_rgConfig :: "json option"
  op_reportingApiKeyHash :: "string option"
  op_writeApiKeyHash :: "string option"

definition find_operator :: "operator_row list \<Rightarrow> uid \<Rightarrow> operator_row option" where
  "find_operator ops i = find (\<lambda>o'. op_id o' = to_lower i) ops"

section \<open>Texts\<close>

fun index_of :: "char \<Rightarrow> string \<Rightarrow> nat option" where
  "index_of c [] = None"
| "index_of c (x # xs) = (if x = c then Some 0 else map_option Suc (index_of c xs))"

definition truthy :: "string option \<Rightarrow> string option" where
  "truthy v = (if v = Some [] then None else v)"

definition safeTokenEqual :: "string option \<Rightarrow> string option \<Rightarrow> bool" where
  "safeTokenEqual provided expected =
     (case (truthy provided, truthy expected) of
        (Some a, Some b) \<Rightarrow> if length a \<noteq> length b then False else a = b
      | _ \<Rightarrow> False)"

definition bearerToken :: "string option \<Rightarrow> string option" where
  "bearerToken authHeader =
     (case authHeader of
        None \<Rightarrow> None
      | Some h \<Rightarrow> if starts_with h ''Bearer '' then Some (drop 7 h) else None)"

record ip_request =
  rq_cf :: "string option"
  rq_xff :: "string option"
  rq_ip :: "string option"
  rq_remoteAddress :: "string option"

definition extractClientIp :: "ip_request \<Rightarrow> string" where
  "extractClientIp req =
     (case query_text (rq_cf req) of
        Some ip \<Rightarrow> ip
      | None \<Rightarrow>
          (case query_text (rq_xff req) of
             Some _ \<Rightarrow> js_trim (hd (split_on CHR '','' (the (rq_xff req))))
           | None \<Rightarrow>
               (case rq_ip req of
                  Some ip \<Rightarrow> ip
                | None \<Rightarrow> (case rq_remoteAddress req of Some ip \<Rightarrow> ip | None \<Rightarrow> ''unknown''))))"

section \<open>Keys\<close>

record hashes =
  sha256 :: "string \<Rightarrow> string"
  hmac256 :: "string \<Rightarrow> string \<Rightarrow> string"

definition hashSecret :: "hashes \<Rightarrow> string option \<Rightarrow> string \<Rightarrow> string" where
  "hashSecret h pepper secret =
     (case truthy pepper of
        Some p \<Rightarrow> ''hmac-sha256:'' @ hmac256 h secret p
      | None \<Rightarrow> ''sha256:'' @ sha256 h secret)"

definition generateReportingKey :: "hashes \<Rightarrow> string option \<Rightarrow> string \<Rightarrow> uid \<Rightarrow> string \<times> string" where
  "generateReportingKey h pepper secret operatorId =
     (''vrk_'' @ operatorId @ ''.'' @ secret, hashSecret h pepper secret)"

definition generateWriteKey :: "hashes \<Rightarrow> string option \<Rightarrow> string \<Rightarrow> uid \<Rightarrow> string \<times> string" where
  "generateWriteKey h pepper secret operatorId =
     (''vrw_'' @ operatorId @ ''.'' @ secret, hashSecret h pepper secret)"

definition parse_body :: "string \<Rightarrow> (uid \<times> string) option" where
  "parse_body body =
     (case index_of CHR ''.'' body of
        None \<Rightarrow> None
      | Some dot \<Rightarrow>
          if dot = 0 \<or> length body \<le> dot + 1 then None
          else let operatorId = take dot body; secret = drop (dot + 1) body
               in if \<not> is_uuid operatorId \<or> secret = [] then None else Some (operatorId, secret))"

definition parseReportingToken :: "string option \<Rightarrow> (uid \<times> string) option" where
  "parseReportingToken token =
     (case token of
        None \<Rightarrow> None
      | Some t \<Rightarrow>
          if 512 < length t then None
          else if starts_with t ''vrk_'' then parse_body (drop 4 t)
          else if starts_with t ''vrw_'' then parse_body (drop 4 t)
          else None)"

definition reportingKeyPepperUnavailable :: "string option \<Rightarrow> string option \<Rightarrow> bool" where
  "reportingKeyPepperUnavailable pepper storedHash \<longleftrightarrow>
     (case storedHash of
        None \<Rightarrow> False
      | Some s \<Rightarrow> starts_with s ''hmac-sha256:'' \<and> truthy pepper = None)"

definition verifyReportingSecret :: "hashes \<Rightarrow> string option \<Rightarrow> string \<Rightarrow> string option \<Rightarrow> bool" where
  "verifyReportingSecret h pepper secret storedHash =
     (case truthy storedHash of
        None \<Rightarrow> False
      | Some s \<Rightarrow>
          let (algo, digest) =
                (case index_of CHR '':'' s of
                   Some (Suc n) \<Rightarrow> (take (Suc n) s, drop (Suc (Suc n)) s)
                 | _ \<Rightarrow> ([], []))
          in if algo = ''hmac-sha256''
             then (case truthy pepper of
                     None \<Rightarrow> False
                   | Some p \<Rightarrow> safeTokenEqual (Some (hmac256 h secret p)) (Some digest))
             else if algo = ''sha256'' then safeTokenEqual (Some (sha256 h secret)) (Some digest)
             else False)"

section \<open>The guards\<close>

record auth_request =
  ar_authorization :: "string option"
  ar_net :: ip_request

definition scope_hash :: "bool \<Rightarrow> operator_row option \<Rightarrow> string option" where
  "scope_hash requireWrite o' =
     (case o' of None \<Rightarrow> None | Some x \<Rightarrow> if requireWrite then op_writeApiKeyHash x else op_reportingApiKeyHash x)"

text \<open>The first component says that the guard logged a key it cannot verify for want of the pepper.\<close>

definition OperatorAuthGuard ::
  "hashes \<Rightarrow> string option \<Rightarrow> operator_row list \<Rightarrow> bool \<Rightarrow> auth_request \<Rightarrow> bool \<times> (string + uid)" where
  "OperatorAuthGuard h pepper ops requireWrite req =
     (case parseReportingToken (bearerToken (ar_authorization req)) of
        None \<Rightarrow> (False, Inl ''invalid_api_key'')
      | Some (operatorId, secret) \<Rightarrow>
          let operator = find_operator ops operatorId;
              storedHash = scope_hash requireWrite operator;
              ok = verifyReportingSecret h pepper secret storedHash
          in (case operator of
                None \<Rightarrow> (False, Inl ''invalid_api_key'')
              | Some x \<Rightarrow>
                  if \<not> ok then (reportingKeyPepperUnavailable pepper storedHash, Inl ''invalid_api_key'')
                  else if \<not> op_enabled x then (False, Inl ''operator_disabled'')
                  else if op_ipWhitelist x \<noteq> [] \<and> extractClientIp (ar_net req) \<notin> set (op_ipWhitelist x)
                  then (False, Inl ''ip_not_allowed'')
                  else (False, Inr (op_id x))))"

definition CurrentOperatorId :: "string option \<Rightarrow> string + uid" where
  "CurrentOperatorId operatorId =
     (case truthy operatorId of None \<Rightarrow> Inl ''operator_not_resolved'' | Some i \<Rightarrow> Inr i)"

text \<open>The bound of a bucket is a number of the environment, at least one, or the default.\<close>

definition throttle_env :: "string option \<Rightarrow> int \<Rightarrow> int" where
  "throttle_env v dflt =
     (case v of
        None \<Rightarrow> dflt
      | Some s \<Rightarrow> (case js_Number s of Fin n \<Rightarrow> if 1 \<le> n then \<lfloor>n\<rfloor> else dflt | _ \<Rightarrow> dflt))"

record throttle =
  th_ttl :: int
  th_limit :: int
  th_blockDuration :: int
  th_key :: string

definition getTracker :: "string option \<Rightarrow> ip_request \<Rightarrow> string" where
  "getTracker operatorId net =
     (case truthy operatorId of Some i \<Rightarrow> ''op:'' @ i | None \<Rightarrow> ''ip:'' @ extractClientIp net)"

definition OperatorThrottlerGuard ::
  "(string \<Rightarrow> string option) \<Rightarrow> (string \<Rightarrow> string) \<Rightarrow> bool \<Rightarrow> string option \<Rightarrow> ip_request \<Rightarrow> throttle" where
  "OperatorThrottlerGuard env generateKey requireWrite operatorId net =
     (let ttl = (if requireWrite then throttle_env (env ''OPERATOR_WRITE_THROTTLE_TTL_MS'') 60000
                 else throttle_env (env ''OPERATOR_READ_THROTTLE_TTL_MS'') 60000);
          limit = (if requireWrite then throttle_env (env ''OPERATOR_WRITE_THROTTLE_LIMIT'') 60
                   else throttle_env (env ''OPERATOR_READ_THROTTLE_LIMIT'') 600)
      in \<lparr>th_ttl = ttl, th_limit = limit, th_blockDuration = ttl,
          th_key = generateKey (getTracker operatorId net) @ '':'' @ (if requireWrite then ''w'' else ''r'')\<rparr>)"

section \<open>Parsing and verifying minted keys\<close>

text \<open>What is used of the hash functions: their output is 64 hexadecimal digits.\<close>

definition hex_digests :: "hashes \<Rightarrow> bool" where
  "hex_digests h \<longleftrightarrow> (\<forall>s. length (sha256 h s) = 64) \<and> (\<forall>s p. length (hmac256 h s p) = 64)"

lemma index_of_append: "c \<notin> set xs \<Longrightarrow> index_of c (xs @ c # ys) = Some (length xs)"
  by (induction xs) auto

lemma uuid_length: "is_uuid s \<Longrightarrow> length s = 36"
  by (simp add: is_uuid_def)

lemma uuid_no_dot: "is_uuid s \<Longrightarrow> CHR ''.'' \<notin> set s"
proof
  assume u: "is_uuid s" and "CHR ''.'' \<in> set s"
  then obtain i where i: "i < 36" "s ! i = CHR ''.''" by (auto simp: in_set_conv_nth is_uuid_def)
  have "if i \<in> set dashes_at then s ! i = CHR ''-'' else hex_digit (s ! i) \<noteq> None"
    using u i(1) by (simp add: is_uuid_def list_all_iff)
  then show False using i(2) by (simp add: hex_digit_def split: if_splits)
qed

lemma parse_body_minted:
  assumes "is_uuid i" "secret \<noteq> []"
  shows "parse_body (i @ CHR ''.'' # secret) = Some (i, secret)"
  using assms uuid_length [OF assms(1)] index_of_append [OF uuid_no_dot [OF assms(1)]]
  by (simp add: parse_body_def Let_def)

lemma parse_minted:
  assumes "is_uuid i" "secret \<noteq> []" "length secret \<le> 471" "pre \<in> {''vrk_'', ''vrw_''}"
  shows "parseReportingToken (Some (pre @ i @ CHR ''.'' # secret)) = Some (i, secret)"
proof -
  have "length pre = 4" "starts_with (pre @ i @ CHR ''.'' # secret) pre" using assms(4) by auto
  then show ?thesis
    using assms uuid_length [OF assms(1)] parse_body_minted [OF assms(1,2)]
    by (auto simp: parseReportingToken_def starts_with_def)
qed

lemma bearer_strip: "bearerToken (Some (''Bearer '' @ t)) = Some t"
  by (simp add: bearerToken_def starts_with_def)

lemma safeTokenEqual_iff: "safeTokenEqual (Some a) (Some b) \<longleftrightarrow> a \<noteq> [] \<and> a = b"
  by (auto simp: safeTokenEqual_def truthy_def)

lemma truthy_eq_Some: "truthy v = Some p \<longleftrightarrow> v = Some p \<and> p \<noteq> []"
  by (auto simp: truthy_def)

lemma split_stored:
  "index_of CHR '':'' (''sha256:'' @ d) = Some 6"
  "index_of CHR '':'' (''hmac-sha256:'' @ d) = Some 11"
  using index_of_append [of "CHR '':''" "''sha256''" d] index_of_append [of "CHR '':''" "''hmac-sha256''" d]
  by simp_all

text \<open>The stored text records how it was made, and verification follows that record.\<close>

lemma verify_sha:
  "verifyReportingSecret h pepper s (Some (''sha256:'' @ d)) \<longleftrightarrow> sha256 h s \<noteq> [] \<and> sha256 h s = d"
  using split_stored(1) [of d] by (simp add: verifyReportingSecret_def truthy_def safeTokenEqual_iff)

lemma verify_hmac:
  "verifyReportingSecret h pepper s (Some (''hmac-sha256:'' @ d)) \<longleftrightarrow>
     (\<exists>p. truthy pepper = Some p \<and> hmac256 h s p \<noteq> [] \<and> hmac256 h s p = d)"
  using split_stored(2) [of d]
  by (cases "truthy pepper") (simp_all add: verifyReportingSecret_def truthy_eq_Some safeTokenEqual_iff truthy_def)

lemma verify_minted:
  assumes "hex_digests h"
  shows "verifyReportingSecret h pepper s (Some (hashSecret h minted t)) \<longleftrightarrow>
    (case truthy minted of
       None \<Rightarrow> sha256 h s = sha256 h t
     | Some q \<Rightarrow> (\<exists>p. truthy pepper = Some p \<and> hmac256 h s p = hmac256 h t q))"
proof -
  have "sha256 h s \<noteq> []" "\<And>p. hmac256 h s p \<noteq> []"
    using assms unfolding hex_digests_def by (metis list.size(3) zero_neq_numeral)+
  then show ?thesis
    by (cases "truthy minted") (simp_all add: hashSecret_def verify_sha [simplified] verify_hmac [simplified])
qed

lemma verify_none [simp]: "\<not> verifyReportingSecret h pepper s None"
  by (simp add: verifyReportingSecret_def truthy_def)

section \<open>Round trip and separation of the two scopes\<close>

text \<open>The header a client sends for a key: \<open>pre\<close> is one of the two token prefixes.\<close>

definition key_header :: "string \<Rightarrow> uid \<Rightarrow> string \<Rightarrow> string" where
  "key_header pre i secret = ''Bearer '' @ pre @ i @ ''.'' @ secret"

lemma generated_bearer:
  "''Bearer '' @ fst (generateReportingKey h p s i) = key_header ''vrk_'' i s"
  "''Bearer '' @ fst (generateWriteKey h p s i) = key_header ''vrw_'' i s"
  by (simp_all add: key_header_def generateReportingKey_def generateWriteKey_def)

lemma parse_bearer:
  assumes "is_uuid i" "length secret = 64" "pre \<in> {''vrk_'', ''vrw_''}"
  shows "parseReportingToken (bearerToken (Some (key_header pre i secret))) = Some (i, secret)"
  using parse_minted [OF assms(1) _ _ assms(3), of secret] assms(2)
    bearer_strip [of "pre @ i @ CHR ''.'' # secret"]
  by (cases "secret = []") (simp_all add: key_header_def)

text \<open>
  A freshly minted key works and its record stays readable. The token of either kind parses back to
  the operator id and the secret it was made from, and the stored text verifies that secret under a later
  pepper setting exactly when it was made without a pepper or the same keyed digest comes out, so a key
  made without a pepper survives the introduction of one, and a peppered key fails while the pepper is
  missing, which the guard then reports.
\<close>

theorem key_roundtrip:
  assumes "hex_digests h" "is_uuid i" "length secret = 64" "generate \<in> {generateReportingKey, generateWriteKey}"
  shows "parseReportingToken (bearerToken (Some (''Bearer '' @ fst (generate h minted secret i)))) = Some (i, secret) \<and>
    (verifyReportingSecret h now secret (Some (snd (generate h minted secret i))) \<longleftrightarrow>
      truthy minted = None \<or>
      (\<exists>p. truthy now = Some p \<and> hmac256 h secret p = hmac256 h secret (the (truthy minted)))) \<and>
    (reportingKeyPepperUnavailable now (Some (snd (generate h minted secret i))) \<longleftrightarrow>
      truthy minted \<noteq> None \<and> truthy now = None)"
proof (intro conjI)
  show "parseReportingToken (bearerToken (Some (''Bearer '' @ fst (generate h minted secret i)))) = Some (i, secret)"
    using assms(4) parse_bearer [OF assms(2,3), of "''vrk_''"] parse_bearer [OF assms(2,3), of "''vrw_''"]
    by (auto simp: generated_bearer simp del: append_Cons)
  have stored: "snd (generate h minted secret i) = hashSecret h minted secret"
    using assms(4) by (auto simp: generateReportingKey_def generateWriteKey_def)
  show "verifyReportingSecret h now secret (Some (snd (generate h minted secret i))) \<longleftrightarrow>
      truthy minted = None \<or>
      (\<exists>p. truthy now = Some p \<and> hmac256 h secret p = hmac256 h secret (the (truthy minted)))"
    by (cases "truthy minted") (simp_all add: stored verify_minted [OF assms(1)])
  show "reportingKeyPepperUnavailable now (Some (snd (generate h minted secret i))) \<longleftrightarrow>
      truthy minted \<noteq> None \<and> truthy now = None"
    by (cases "truthy minted") (simp_all add: stored hashSecret_def reportingKeyPepperUnavailable_def starts_with_def)
qed

definition toy_hashes :: hashes where
  "toy_hashes = \<lparr>sha256 = (\<lambda>s. take 64 (s @ replicate 64 CHR ''0'')),
                hmac256 = (\<lambda>s p. take 64 (p @ s @ replicate 64 CHR ''0''))\<rparr>"

definition uuid_a :: uid where
  "uuid_a = ''01234567-89ab-cdef-0123-456789abcdef''"

definition secret_r :: string where "secret_r = replicate 64 CHR ''a''"

definition secret_w :: string where "secret_w = replicate 64 CHR ''b''"

lemma toy_hashes_ok: "hex_digests toy_hashes"
  by (auto simp: hex_digests_def toy_hashes_def min_def)

lemma toy_keys_ok: "is_uuid uuid_a" "length secret_r = 64" "length secret_w = 64" "to_lower uuid_a = uuid_a"
  by code_simp+

theorem key_roundtrip_witness:
  "parseReportingToken (bearerToken (Some (''Bearer '' @ fst (generateReportingKey toy_hashes None secret_r uuid_a))))
     = Some (uuid_a, secret_r) \<and>
   verifyReportingSecret toy_hashes (Some ''pep'') secret_r (Some (snd (generateReportingKey toy_hashes None secret_r uuid_a)))"
  using key_roundtrip [OF toy_hashes_ok toy_keys_ok(1,2), of generateReportingKey None "Some ''pep''"]
  by (simp add: truthy_def)

text \<open>The guard on a well-formed token: every condition is one of the outcomes.\<close>

lemma guard_cases:
  assumes "parseReportingToken (bearerToken (ar_authorization req)) = Some (i, secret)"
  shows "snd (OperatorAuthGuard h pepper ops W req) =
    (case find_operator ops i of
       None \<Rightarrow> Inl ''invalid_api_key''
     | Some x \<Rightarrow>
         if \<not> verifyReportingSecret h pepper secret (scope_hash W (Some x)) then Inl ''invalid_api_key''
         else if \<not> op_enabled x then Inl ''operator_disabled''
         else if op_ipWhitelist x \<noteq> [] \<and> extractClientIp (ar_net req) \<notin> set (op_ipWhitelist x)
         then Inl ''ip_not_allowed'' else Inr (op_id x))"
  using assms by (simp add: OperatorAuthGuard_def Let_def split: option.split)

lemma guard_grants:
  assumes "snd (OperatorAuthGuard h pepper ops W req) = Inr oid"
  shows "\<exists>i secret x. parseReportingToken (bearerToken (ar_authorization req)) = Some (i, secret) \<and>
     find_operator ops i = Some x \<and> op_id x = oid \<and> op_enabled x \<and>
     verifyReportingSecret h pepper secret (scope_hash W (Some x)) \<and>
     (op_ipWhitelist x = [] \<or> extractClientIp (ar_net req) \<in> set (op_ipWhitelist x))"
proof (cases "parseReportingToken (bearerToken (ar_authorization req))")
  case None
  then show ?thesis using assms by (simp add: OperatorAuthGuard_def)
next
  case (Some q)
  obtain i secret where q: "q = (i, secret)" by (cases q)
  show ?thesis
    using assms Some unfolding q
    by (auto simp: guard_cases split: option.splits if_splits)
qed

definition ask ::
  "hashes \<Rightarrow> string option \<Rightarrow> operator_row list \<Rightarrow> ip_request \<Rightarrow> bool \<Rightarrow> string \<Rightarrow> uid \<Rightarrow> string \<Rightarrow> string + uid" where
  "ask h pepper ops net W pre i secret =
     snd (OperatorAuthGuard h pepper ops W \<lparr>ar_authorization = Some (key_header pre i secret), ar_net = net\<rparr>)"

lemma ask_cases:
  assumes "is_uuid i" "length secret = 64" "pre \<in> {''vrk_'', ''vrw_''}" "find_operator ops i = Some x"
    "op_enabled x" "op_ipWhitelist x = [] \<or> extractClientIp net \<in> set (op_ipWhitelist x)"
  shows "ask h pepper ops net W pre i secret =
    (if verifyReportingSecret h pepper secret (scope_hash W (Some x)) then Inr (op_id x) else Inl ''invalid_api_key'')"
  using assms(4-6) parse_bearer [OF assms(1-3)]
  by (auto simp: ask_def guard_cases)

lemma verify_same_pepper:
  assumes "hex_digests h"
  shows "verifyReportingSecret h pepper s (Some (hashSecret h pepper t)) \<longleftrightarrow>
    hashSecret h pepper s = hashSecret h pepper t"
  unfolding verify_minted [OF assms] by (cases "truthy pepper") (simp_all add: hashSecret_def)

text \<open>Whoever cannot present a key of the scope learns nothing: an unknown operator, an operator without
  a key of that scope and a wrong secret get the same answer.\<close>

theorem guard_no_oracle:
  assumes "\<And>i secret x. parseReportingToken (bearerToken (ar_authorization req)) = Some (i, secret) \<Longrightarrow>
      find_operator ops i = Some x \<Longrightarrow> \<not> verifyReportingSecret h pepper secret (scope_hash W (Some x))"
  shows "snd (OperatorAuthGuard h pepper ops W req) = Inl ''invalid_api_key''"
proof (cases "parseReportingToken (bearerToken (ar_authorization req))")
  case None
  then show ?thesis by (simp add: OperatorAuthGuard_def)
next
  case (Some q)
  then show ?thesis
    using assms by (cases q) (auto simp: guard_cases split: option.splits)
qed

text \<open>
  Read and write keys are separate privileges, whatever prefix the token is presented with. An
  operator's read key opens the read routes and is refused on every write route; the write key opens the
  write routes and is refused on the read routes; and when no write key has been provisioned, no secret
  at all opens a write route.
\<close>

theorem scopes_are_separate:
  assumes "hex_digests h" "is_uuid i" "pre \<in> {''vrk_'', ''vrw_''}" "length sr = 64" "length sw = 64"
    "find_operator ops i = Some x" "op_enabled x"
    "op_ipWhitelist x = [] \<or> extractClientIp net \<in> set (op_ipWhitelist x)"
    "op_reportingApiKeyHash x = Some (snd (generateReportingKey h pepper sr i))"
    "op_writeApiKeyHash x = (if provisioned then Some (snd (generateWriteKey h pepper sw i)) else None)"
    "hashSecret h pepper sr \<noteq> hashSecret h pepper sw"
  shows "ask h pepper ops net False pre i sr = Inr (op_id x) \<and>
    ask h pepper ops net True pre i sr = Inl ''invalid_api_key'' \<and>
    ask h pepper ops net False pre i sw = Inl ''invalid_api_key'' \<and>
    ask h pepper ops net True pre i sw = (if provisioned then Inr (op_id x) else Inl ''invalid_api_key'')"
  using ask_cases [OF assms(2,4,3,6-8)] ask_cases [OF assms(2,5,3,6-8)] assms(9-11)
    verify_same_pepper [OF assms(1)]
  by (simp add: scope_hash_def generateReportingKey_def generateWriteKey_def)

definition keyed_operator :: operator_row where
  "keyed_operator = \<lparr>op_id = uuid_a, op_code = ''demo'', op_enabled = True, op_demoEnabled = False, op_launchSecret = ''ls'',
     op_currencies = [''EUR''], op_callbackUrl = None, op_ipWhitelist = [], op_betLimits = None, op_rgConfig = None,
     op_reportingApiKeyHash = Some (snd (generateReportingKey toy_hashes None secret_r uuid_a)),
     op_writeApiKeyHash = Some (snd (generateWriteKey toy_hashes None secret_w uuid_a))\<rparr>"

definition no_net :: ip_request where
  "no_net = \<lparr>rq_cf = None, rq_xff = None, rq_ip = None, rq_remoteAddress = None\<rparr>"

lemma toy_secrets_differ: "hashSecret toy_hashes None secret_r \<noteq> hashSecret toy_hashes None secret_w"
  by code_simp

lemma find_keyed: "find_operator [keyed_operator] uuid_a = Some keyed_operator"
  by (simp add: find_operator_def toy_keys_ok keyed_operator_def)

theorem scopes_are_separate_witness:
  "ask toy_hashes None [keyed_operator] no_net False ''vrw_'' uuid_a secret_r = Inr uuid_a \<and>
   ask toy_hashes None [keyed_operator] no_net True ''vrw_'' uuid_a secret_r = Inl ''invalid_api_key'' \<and>
   ask toy_hashes None [keyed_operator] no_net True ''vrk_'' uuid_a secret_w = Inr uuid_a"
proof -
  have "op_enabled keyed_operator" "op_ipWhitelist keyed_operator = []" "op_id keyed_operator = uuid_a"
    "op_reportingApiKeyHash keyed_operator = Some (snd (generateReportingKey toy_hashes None secret_r uuid_a))"
    "op_writeApiKeyHash keyed_operator = (if True then Some (snd (generateWriteKey toy_hashes None secret_w uuid_a)) else None)"
    by (simp_all add: keyed_operator_def)
  note k = this
  show ?thesis
    using scopes_are_separate [OF toy_hashes_ok toy_keys_ok(1) _ toy_keys_ok(2,3) find_keyed k(1) disjI1 [OF k(2)] k(4,5)
        toy_secrets_differ, of "''vrw_''" no_net]
      scopes_are_separate [OF toy_hashes_ok toy_keys_ok(1) _ toy_keys_ok(2,3) find_keyed k(1) disjI1 [OF k(2)] k(4,5)
        toy_secrets_differ, of "''vrk_''" no_net] k(3)
    by simp
qed

text \<open>The throttle is never switched off by its variables and never shares a bucket between the scopes.\<close>

lemma throttle_env_pos: "1 \<le> dflt \<Longrightarrow> 1 \<le> throttle_env v dflt"
  by (auto simp: throttle_env_def split: option.split js_num.split)

theorem throttle_separate:
  "1 \<le> th_limit (OperatorThrottlerGuard env g W oid net)"
  "1 \<le> th_ttl (OperatorThrottlerGuard env g W oid net)"
  "th_key (OperatorThrottlerGuard env g True oid net) \<noteq> th_key (OperatorThrottlerGuard env g' False oid' net')"
proof -
  show "th_key (OperatorThrottlerGuard env g True oid net) \<noteq> th_key (OperatorThrottlerGuard env g' False oid' net')"
  proof
    assume "th_key (OperatorThrottlerGuard env g True oid net) = th_key (OperatorThrottlerGuard env g' False oid' net')"
    then have "List.last (th_key (OperatorThrottlerGuard env g True oid net)) = List.last (th_key (OperatorThrottlerGuard env g' False oid' net'))"
      by simp
    then show False by (simp add: OperatorThrottlerGuard_def Let_def)
  qed
qed (auto simp: OperatorThrottlerGuard_def Let_def throttle_env_pos)

end
