(* ===== verification/VR_Audit.thy ===== *)
theory VR_Audit
  imports VR_Keys
begin

text \<open>
  The significant-event log (\<open>src/audit/audit-event.service.ts\<close>): the scrubber of its payloads and the
  best-effort writer.

  A payload is a JavaScript value in memory: an array or an object carries the identity the \<open>WeakSet\<close> of
  the scrubber sees, so two places of one object hold the same number. A finite tree of this type stands
  for every value without a cycle; the marker that cuts cycles is modelled because it also fires on
  shared objects. Keys are those of \<open>Object.entries\<close>, without \<open>__proto__\<close>. The text of
  \<open>JSON.stringify\<close> is a parameter, \<open>None\<close> when it throws.
\<close>

section \<open>The scrubber\<close>

datatype payload =
    PNull
  | PBool bool
  | PNum rat
  | PStr string
  | PArr nat "payload list"
  | PObj nat "(string \<times> payload) list"

fun has_substring :: "string \<Rightarrow> string \<Rightarrow> bool" where
  "has_substring p [] = (p = [])"
| "has_substring p (c # cs) = (starts_with (c # cs) p \<or> has_substring p cs)"

definition REDACT_KEY_SUBSTRINGS :: "string list" where
  "REDACT_KEY_SUBSTRINGS =
     [''secret'', ''password'', ''passwd'', ''token'', ''apikey'', ''api_key'', ''walletapikey'', ''privatekey'',
      ''private_key'', ''launchsecret'']"

definition MAX_AUDIT_FIELD_BYTES :: nat where
  "MAX_AUDIT_FIELD_BYTES = 16384"

definition isSecretKey :: "string \<Rightarrow> bool" where
  "isSecretKey key = (\<exists>s \<in> set REDACT_KEY_SUBSTRINGS. has_substring s (to_lower key))"

fun scrub :: "payload \<Rightarrow> nat list \<Rightarrow> json \<times> nat list"
  and scrub_items :: "payload list \<Rightarrow> nat list \<Rightarrow> json list \<times> nat list"
  and scrub_fields :: "(string \<times> payload) list \<Rightarrow> nat list \<Rightarrow> (string \<times> json) list \<times> nat list" where
  "scrub PNull seen = (JNull, seen)"
| "scrub (PBool b) seen = (JBool b, seen)"
| "scrub (PNum r) seen = (JNum r, seen)"
| "scrub (PStr s) seen = (JStr s, seen)"
| "scrub (PArr i xs) seen =
     (if i \<in> set seen then (JStr ''[circular]'', seen)
      else let (ys, seen') = scrub_items xs (i # seen) in (JArr ys, seen'))"
| "scrub (PObj i fs) seen =
     (if i \<in> set seen then (JStr ''[circular]'', seen)
      else let (gs, seen') = scrub_fields fs (i # seen) in (JObj gs, seen'))"
| "scrub_items [] seen = ([], seen)"
| "scrub_items (x # xs) seen =
     (let (y, s1) = scrub x seen; (ys, s2) = scrub_items xs s1 in (y # ys, s2))"
| "scrub_fields [] seen = ([], seen)"
| "scrub_fields ((k, v) # fs) seen =
     (if isSecretKey k then let (gs, s1) = scrub_fields fs seen in ((k, JStr ''[redacted]'') # gs, s1)
      else let (j, s1) = scrub v seen; (gs, s2) = scrub_fields fs s1 in ((k, j) # gs, s2))"

definition truncated_stub :: "int \<Rightarrow> json" where
  "truncated_stub n = JObj [(''truncated'', JBool True), (''bytes'', JNum (of_int n))]"

definition sanitizeAuditPayload :: "(json \<Rightarrow> string option) \<Rightarrow> payload \<Rightarrow> json" where
  "sanitizeAuditPayload stringify v =
     (let scrubbed = fst (scrub v [])
      in case stringify scrubbed of
           None \<Rightarrow> truncated_stub (- 1)
         | Some t \<Rightarrow> if MAX_AUDIT_FIELD_BYTES < length t then truncated_stub (int (length t)) else scrubbed)"

section \<open>The writer\<close>

record audit_input =
  ai_actor :: string
  ai_action :: string
  ai_targetType :: "string option"
  ai_targetId :: "string option"
  ai_operatorId :: "uid option"
  ai_ip :: "string option"
  ai_before :: "payload option"
  ai_after :: "payload option"
  ai_meta :: "payload option"

record audit_event =
  ae_actor :: string
  ae_action :: string
  ae_targetType :: "string option"
  ae_targetId :: "string option"
  ae_operatorId :: "uid option"
  ae_ip :: "string option"
  ae_before :: "json option"
  ae_after :: "json option"
  ae_meta :: "json option"

record audit_log =
  al_events :: "audit_event list"
  al_failures :: nat

definition audit_field :: "(json \<Rightarrow> string option) \<Rightarrow> payload option \<Rightarrow> json option" where
  "audit_field stringify v =
     (case v of None \<Rightarrow> None | Some PNull \<Rightarrow> None | Some p \<Rightarrow> Some (sanitizeAuditPayload stringify p))"

text \<open>\<open>fails\<close> says that the insert throws; the failure is counted and nothing is thrown further.\<close>

definition audit_record :: "(json \<Rightarrow> string option) \<Rightarrow> bool \<Rightarrow> audit_input \<Rightarrow> audit_log \<Rightarrow> audit_log" where
  "audit_record stringify fails e l =
     (if fails then l\<lparr>al_failures := al_failures l + 1\<rparr>
      else l\<lparr>al_events := al_events l @
        [\<lparr>ae_actor = ai_actor e, ae_action = ai_action e, ae_targetType = ai_targetType e,
          ae_targetId = ai_targetId e, ae_operatorId = ai_operatorId e, ae_ip = ai_ip e,
          ae_before = audit_field stringify (ai_before e), ae_after = audit_field stringify (ai_after e),
          ae_meta = audit_field stringify (ai_meta e)\<rparr>]\<rparr>)"

section \<open>What a payload shows\<close>

text \<open>Two payloads are the same to a reader of the log when they differ only below secret-looking keys.\<close>

fun same_public :: "payload \<Rightarrow> payload \<Rightarrow> bool"
  and same_items :: "payload list \<Rightarrow> payload list \<Rightarrow> bool"
  and same_fields :: "(string \<times> payload) list \<Rightarrow> (string \<times> payload) list \<Rightarrow> bool" where
  "same_public PNull q = (q = PNull)"
| "same_public (PBool b) q = (q = PBool b)"
| "same_public (PNum r) q = (q = PNum r)"
| "same_public (PStr s) q = (q = PStr s)"
| "same_public (PArr i xs) q = (case q of PArr j ys \<Rightarrow> i = j \<and> same_items xs ys | _ \<Rightarrow> False)"
| "same_public (PObj i fs) q = (case q of PObj j gs \<Rightarrow> i = j \<and> same_fields fs gs | _ \<Rightarrow> False)"
| "same_items [] ys = (ys = [])"
| "same_items (x # xs) ys = (case ys of [] \<Rightarrow> False | y # ys' \<Rightarrow> same_public x y \<and> same_items xs ys')"
| "same_fields [] gs = (gs = [])"
| "same_fields ((k, v) # fs) gs =
     (case gs of [] \<Rightarrow> False
      | (l, u) # gs' \<Rightarrow> k = l \<and> (isSecretKey k \<or> same_public v u) \<and> same_fields fs gs')"

lemma scrub_same:
  "same_public p q \<Longrightarrow> scrub p seen = scrub q seen"
  "same_items xs ys \<Longrightarrow> scrub_items xs seen = scrub_items ys seen"
  "same_fields fs gs \<Longrightarrow> scrub_fields fs seen = scrub_fields gs seen"
  by (induction p q and xs ys and fs gs arbitrary: seen and seen and seen rule: same_public_same_items_same_fields.induct)
    (auto simp: split_beta split: payload.splits list.splits)

text \<open>No secret below a secret key is left in a scrubbed value.\<close>

fun redacted :: "json \<Rightarrow> bool" where
  "redacted (JArr js) = list_all redacted js"
| "redacted (JObj fs) = list_all (\<lambda>f. isSecretKey (fst f) \<and> snd f = JStr ''[redacted]'' \<or> \<not> isSecretKey (fst f) \<and> redacted (snd f)) fs"
| "redacted _ = True"

lemma scrub_redacted:
  "redacted (fst (scrub p seen))"
  "list_all redacted (fst (scrub_items xs seen))"
  "redacted (JObj (fst (scrub_fields fs seen)))"
  by (induction p seen and xs seen and fs seen rule: scrub_scrub_items_scrub_fields.induct)
    (auto split: prod.splits)

text \<open>
  C40. The audit log cannot leak a secret. What it stores for a payload does not depend on any value under
  a secret-looking key, at any depth, and every such key that is stored carries the redaction mark; what
  it stores never serialises beyond the size limit unless it is the stub that says so.
\<close>

theorem audit_hides_secrets:
  assumes "same_public p q"
  shows "sanitizeAuditPayload stringify p = sanitizeAuditPayload stringify q \<and>
    redacted (sanitizeAuditPayload stringify p) \<and>
    (\<exists>n. sanitizeAuditPayload stringify p = truncated_stub n \<or>
       (\<exists>t. stringify (sanitizeAuditPayload stringify p) = Some t \<and> length t \<le> MAX_AUDIT_FIELD_BYTES))"
proof (intro conjI)
  show "sanitizeAuditPayload stringify p = sanitizeAuditPayload stringify q"
    by (simp add: sanitizeAuditPayload_def scrub_same(1) [OF assms])
  have "redacted (truncated_stub n)" for n by code_simp
  then show "redacted (sanitizeAuditPayload stringify p)"
    using scrub_redacted(1) [of p "[]"] by (simp add: sanitizeAuditPayload_def Let_def split: option.split)
  show "\<exists>n. sanitizeAuditPayload stringify p = truncated_stub n \<or>
       (\<exists>t. stringify (sanitizeAuditPayload stringify p) = Some t \<and> length t \<le> MAX_AUDIT_FIELD_BYTES)"
    by (auto simp: sanitizeAuditPayload_def Let_def split: option.split)
qed

theorem audit_hides_secrets_witness:
  "sanitizeAuditPayload (\<lambda>j. Some ''{}'') (PObj 0 [(''operatorId'', PStr ''op''), (''launchSecret'', PStr ''one'')]) =
   sanitizeAuditPayload (\<lambda>j. Some ''{}'') (PObj 0 [(''operatorId'', PStr ''op''), (''launchSecret'', PStr ''two'')])"
proof -
  have "same_public (PObj 0 [(''operatorId'', PStr ''op''), (''launchSecret'', PStr ''one'')])
      (PObj 0 [(''operatorId'', PStr ''op''), (''launchSecret'', PStr ''two'')])"
    by code_simp
  from audit_hides_secrets [OF this, of "\<lambda>j. Some ''{}''"] show ?thesis by simp
qed

section \<open>Shared objects\<close>

text \<open>
  The reference: what a scrubber without the cycle guard returns. The two agree on a payload in which no
  object occurs twice; an object that is merely shared, without any cycle, is replaced by the cycle
  marker at its second place.
\<close>

fun plain_scrub :: "payload \<Rightarrow> json"
  and plain_fields :: "(string \<times> payload) list \<Rightarrow> (string \<times> json) list" where
  "plain_scrub PNull = JNull"
| "plain_scrub (PBool b) = JBool b"
| "plain_scrub (PNum r) = JNum r"
| "plain_scrub (PStr s) = JStr s"
| "plain_scrub (PArr i xs) = JArr (map plain_scrub xs)"
| "plain_scrub (PObj i fs) = JObj (plain_fields fs)"
| "plain_fields [] = []"
| "plain_fields ((k, v) # fs) = (k, if isSecretKey k then JStr ''[redacted]'' else plain_scrub v) # plain_fields fs"

fun objects :: "payload \<Rightarrow> nat list"
  and field_objects :: "(string \<times> payload) list \<Rightarrow> nat list" where
  "objects (PArr i xs) = i # concat (map objects xs)"
| "objects (PObj i fs) = i # field_objects fs"
| "objects _ = []"
| "field_objects [] = []"
| "field_objects ((k, v) # fs) = (if isSecretKey k then [] else objects v) @ field_objects fs"

lemma scrub_plain:
  "distinct (objects p) \<Longrightarrow> set (objects p) \<inter> set seen = {} \<Longrightarrow>
     fst (scrub p seen) = plain_scrub p \<and> set (snd (scrub p seen)) = set (objects p) \<union> set seen"
  "distinct (concat (map objects xs)) \<Longrightarrow> set (concat (map objects xs)) \<inter> set seen = {} \<Longrightarrow>
     fst (scrub_items xs seen) = map plain_scrub xs \<and>
     set (snd (scrub_items xs seen)) = set (concat (map objects xs)) \<union> set seen"
  "distinct (field_objects fs) \<Longrightarrow> set (field_objects fs) \<inter> set seen = {} \<Longrightarrow>
     fst (scrub_fields fs seen) = plain_fields fs \<and>
     set (snd (scrub_fields fs seen)) = set (field_objects fs) \<union> set seen"
proof (induction p seen and xs seen and fs seen rule: scrub_scrub_items_scrub_fields.induct)
  case (8 x xs seen)
  obtain y s1 where y: "scrub x seen = (y, s1)" by force
  show ?case using 8(1) 8(2) [OF y [symmetric] refl] 8(3,4) y by (auto simp: split_beta)
next
  case (10 k v fs seen)
  obtain y s1 where y: "scrub v seen = (y, s1)" by force
  show ?case
  proof (cases "isSecretKey k")
    case True
    then show ?thesis using 10(1,4,5) by (auto simp: split_beta)
  next
    case False
    then show ?thesis using 10(2) [OF False] 10(3) [OF False y [symmetric] refl] 10(4,5) y by (auto simp: split_beta)
  qed
qed (auto simp: split_beta)

theorem scrub_exact: "distinct (objects p) \<Longrightarrow> fst (scrub p []) = plain_scrub p"
  using scrub_plain(1) [of p "[]"] by simp

theorem shared_marked_circular:
  "fst (scrub (PObj 0 [(''before'', PObj 1 [(''balance'', PNum 5)]), (''after'', PObj 1 [(''balance'', PNum 5)])]) []) =
     JObj [(''before'', JObj [(''balance'', JNum 5)]), (''after'', JStr ''[circular]'')]"
  by code_simp

end
