(* ===== verification/VR_Sessions.thy ===== *)
theory VR_Sessions
  imports VR_Audit VR_Game
begin

text \<open>
  From a launch ticket to a live session: the ticket service (\<open>src/operator/launch-token.service.ts\<close>), the
  session service (\<open>src/operator/game-session.service.ts\<close>), the locale filter (\<open>src/common/locale.ts\<close>), guest
  accounts (\<open>src/auth/auth.service.ts\<close>) and the session routes of \<open>operator.controller.ts\<close> and
  \<open>operator-sessions.controller.ts\<close>.

  The JWT library is a parameter: \<open>decode\<close> reads a token without trust, \<open>check secret token\<close> is its verified
  payload or \<open>None\<close> (a bad signature or an expired token). Claims are JSON values; where the code trusts a
  claim to be a text and the database layer would throw on anything else, the outcome is \<open>Server_error\<close>.
  UUID columns store lower case. Ids and the time of a request are arguments; what other transactions
  commit between two statements of one request is a function on the database.
\<close>

section \<open>Locales\<close>

definition is_letter :: "char \<Rightarrow> bool" where
  "is_letter c \<longleftrightarrow> (let n = (of_char c :: nat) in 65 \<le> n \<and> n \<le> 90 \<or> 97 \<le> n \<and> n \<le> 122)"

definition is_alnum :: "char \<Rightarrow> bool" where
  "is_alnum c \<longleftrightarrow> is_letter c \<or> is_digit c"

definition LOCALE_RE :: "string \<Rightarrow> bool" where
  "LOCALE_RE s \<longleftrightarrow>
     (case split_on CHR ''-'' s of
        [] \<Rightarrow> False
      | lang # subs \<Rightarrow> list_all is_letter lang \<and> length lang \<in> {2, 3} \<and> length subs \<le> 2 \<and>
          list_all (\<lambda>t. list_all is_alnum t \<and> 2 \<le> length t \<and> length t \<le> 8) subs)"

fun join_with :: "char \<Rightarrow> string list \<Rightarrow> string" where
  "join_with c [] = []"
| "join_with c [s] = s"
| "join_with c (s # t # ss) = s @ c # join_with c (t # ss)"

definition region_case :: "string \<Rightarrow> string" where
  "region_case t = (if list_all is_letter t \<and> length t = 2 then to_upper t else t)"

definition normalizeLocale :: "json option \<Rightarrow> string" where
  "normalizeLocale raw =
     (case raw of
        Some (JStr r) \<Rightarrow>
          let s = js_trim r
          in if \<not> LOCALE_RE s then ''en''
             else (case split_on CHR ''-'' s of
                     [] \<Rightarrow> ''en''
                   | lang # subs \<Rightarrow> join_with CHR ''-'' (to_lower lang # map region_case subs))
      | _ \<Rightarrow> ''en'')"

section \<open>Launch tickets\<close>

datatype http_error =
    Unauthorized string
  | Bad_request string
  | Not_found string
  | Server_error

record jwt =
  jwt_decode :: "string \<Rightarrow> json option"
  jwt_check :: "string \<Rightarrow> string \<Rightarrow> json option"

record verified_launch =
  vl_operatorId :: string
  vl_playerId :: string
  vl_currency :: "string option"
  vl_locale :: string
  vl_demo :: bool
  vl_ctx :: json
  vl_jti :: string

definition MAX_PLAYER_ID_LEN :: nat where "MAX_PLAYER_ID_LEN = 200"

fun json_truthy :: "json option \<Rightarrow> bool" where
  "json_truthy None = False"
| "json_truthy (Some JNull) = False"
| "json_truthy (Some (JBool b)) = b"
| "json_truthy (Some (JNum r)) = (r \<noteq> 0)"
| "json_truthy (Some (JStr s)) = (s \<noteq> [])"
| "json_truthy (Some j) = True"

text \<open>A missing or null currency reads as the empty text; one that is not a text throws.\<close>

definition currency_claim :: "json \<Rightarrow> http_error + string option" where
  "currency_claim payload =
     (case jget payload ''currency'' of
        None \<Rightarrow> Inr None | Some JNull \<Rightarrow> Inr None | Some (JStr c) \<Rightarrow> Inr (Some c) | Some _ \<Rightarrow> Inl Server_error)"

definition text_or_empty :: "string option \<Rightarrow> string" where
  "text_or_empty v = (case v of None \<Rightarrow> [] | Some s \<Rightarrow> s)"

definition find_jti :: "'o world \<Rightarrow> string \<Rightarrow> game_session option" where
  "find_jti w j = find (\<lambda>s. s_launchJti s = j) (db_sessions w)"

definition verify_claims :: "operator_row \<Rightarrow> string \<Rightarrow> json \<Rightarrow> 'o world \<Rightarrow> http_error + verified_launch" where
  "verify_claims x operatorId payload w =
     (case currency_claim payload of
        Inl e \<Rightarrow> Inl e
      | Inr currency \<Rightarrow>
          let ccy = to_upper (text_or_empty currency);
              demo = (jget payload ''demo'' = Some (JBool True))
          in if ccy \<notin> set (map to_upper (op_currencies x)) then Inl (Unauthorized ''currency_not_allowed'')
             else if demo \<and> \<not> op_demoEnabled x then Inl (Unauthorized ''demo_not_allowed'')
             else (case jget payload ''playerId'' of
                     Some (JStr p) \<Rightarrow>
                       if length p < 1 \<or> MAX_PLAYER_ID_LEN < length p then Inl (Unauthorized ''invalid_launch_token'')
                       else if \<not> json_truthy (jget payload ''jti'') then Inl (Unauthorized ''invalid_launch_token'')
                       else (case jget payload ''jti'' of
                               Some (JStr j) \<Rightarrow>
                                 if find_jti w j \<noteq> None then Inl (Unauthorized ''launch_token_already_used'')
                                 else Inr \<lparr>vl_operatorId = operatorId, vl_playerId = p, vl_currency = currency,
                                           vl_locale = normalizeLocale (jget payload ''locale''), vl_demo = demo,
                                           vl_ctx = (case jget payload ''ctx'' of None \<Rightarrow> JObj [] | Some JNull \<Rightarrow> JObj []
                                                                                | Some c \<Rightarrow> c),
                                           vl_jti = j\<rparr>
                             | _ \<Rightarrow> Inl Server_error)
                   | _ \<Rightarrow> Inl (Unauthorized ''invalid_launch_token'')))"

definition launch_verify ::
  "jwt \<Rightarrow> operator_row list \<Rightarrow> string \<Rightarrow> 'o world \<Rightarrow> http_error + verified_launch" where
  "launch_verify J ops token w =
     (let claim = (case jwt_decode J token of None \<Rightarrow> None | Some unsafe \<Rightarrow> jget unsafe ''operatorId'')
      in if \<not> json_truthy claim then Inl (Unauthorized ''invalid_launch_token'')
         else (case claim of
                 Some (JStr operatorId) \<Rightarrow>
                   if \<not> is_uuid operatorId then Inl Server_error
                   else (case find_operator ops operatorId of
                           None \<Rightarrow> Inl (Unauthorized ''unknown_operator'')
                         | Some x \<Rightarrow>
                             if \<not> op_enabled x then Inl (Unauthorized ''unknown_operator'')
                             else (case jwt_check J (op_launchSecret x) token of
                                     None \<Rightarrow> Inl (Unauthorized ''invalid_launch_token'')
                                   | Some payload \<Rightarrow> verify_claims x operatorId payload w))
               | _ \<Rightarrow> Inl Server_error))"

text \<open>
  \<open>issue\<close> builds the claims and the secret they are signed with; the library adds the times.
\<close>

record launch_claims =
  lc_operatorId :: uid
  lc_playerId :: string
  lc_currency :: string
  lc_locale :: "json option"
  lc_demo :: "bool option"
  lc_ctx :: "json option"

definition launch_issue ::
  "operator_row list \<Rightarrow> string \<Rightarrow> launch_claims \<Rightarrow> http_error + (string \<times> json)" where
  "launch_issue ops jti c =
     (case find_operator ops (lc_operatorId c) of
        None \<Rightarrow> Inl Server_error
      | Some x \<Rightarrow>
          if \<not> op_enabled x then Inl (Unauthorized ''operator_disabled'')
          else Inr (op_launchSecret x,
            JObj [(''operatorId'', JStr (lc_operatorId c)), (''playerId'', JStr (lc_playerId c)),
                  (''currency'', JStr (lc_currency c)), (''locale'', JStr (normalizeLocale (lc_locale c))),
                  (''demo'', JBool (case lc_demo c of None \<Rightarrow> False | Some d \<Rightarrow> d)),
                  (''ctx'', case lc_ctx c of None \<Rightarrow> JObj [] | Some x \<Rightarrow> x), (''jti'', JStr jti)]))"

section \<open>Opening a session\<close>

definition SESSION_TOKEN_TTL_SEC :: "string option \<Rightarrow> rat" where
  "SESSION_TOKEN_TTL_SEC v =
     (case v of
        None \<Rightarrow> 14400
      | Some s \<Rightarrow> (case js_Number s of Fin n \<Rightarrow> if 60 \<le> n \<and> n \<le> 86400 then n else 14400 | _ \<Rightarrow> 14400))"

definition DEMO_STARTING_BALANCE :: "string option \<Rightarrow> int" where
  "DEMO_STARTING_BALANCE v =
     (case v of
        None \<Rightarrow> 10000
      | Some s \<Rightarrow> (case js_Number s of Fin n \<Rightarrow> if isInteger n \<and> 0 \<le> n then \<lfloor>n\<rfloor> else 10000 | _ \<Rightarrow> 10000))"

definition tag_base :: "string \<Rightarrow> string \<Rightarrow> string" where
  "tag_base operatorId playerId = ''op:'' @ operatorId @ '':'' @ playerId @ '':''"

definition session_tag :: "string \<Rightarrow> string \<Rightarrow> string \<Rightarrow> bool \<Rightarrow> string" where
  "session_tag operatorId playerId currency demo =
     tag_base operatorId playerId @ currency @ (if demo then '':demo'' else [])"

definition user_of :: "'o world \<Rightarrow> wallet \<Rightarrow> user option" where
  "user_of w x = find (\<lambda>u. u_id u = w_userId x) (db_users w)"

definition username_is :: "'o world \<Rightarrow> (string \<Rightarrow> bool) \<Rightarrow> wallet \<Rightarrow> bool" where
  "username_is w P x = (case user_of w x of None \<Rightarrow> False | Some u \<Rightarrow> P (u_username u))"

definition find_tagged :: "'o world \<Rightarrow> string \<Rightarrow> string \<Rightarrow> wallet option" where
  "find_tagged w currency tag = find (\<lambda>x. w_currency x = currency \<and> username_is w (\<lambda>n. n = tag) x) (db_wallets w)"

definition add_user :: "user \<Rightarrow> wallet \<Rightarrow> string \<Rightarrow> 'o world \<Rightarrow> 'o world" where
  "add_user u x displayName w =
     w\<lparr>db_users := db_users w @ [u], db_wallets := db_wallets w @ [x],
       db_profiles := db_profiles w @
         [\<lparr>p_userId = u_id u, p_displayName = displayName, p_totalLoot = 0, p_biggestMultiplier = 100\<rparr>]\<rparr>"

record 'o open_env =
  oe_userId :: uid
  oe_walletId :: uid
  oe_sessionId :: uid
  oe_now :: int
  oe_bankroll :: int
  oe_race1 :: "'o world \<Rightarrow> 'o world"
  oe_race2 :: "'o world \<Rightarrow> 'o world"

text \<open>The journal wallet of a player and currency: found, created, or found after losing the race.\<close>

definition open_wallet ::
  "'o open_env \<Rightarrow> string \<Rightarrow> string \<Rightarrow> string \<Rightarrow> 'o world \<Rightarrow> (http_error + wallet) \<times> 'o world" where
  "open_wallet env playerId currency tag w =
     (case find_tagged w currency tag of
        Some x \<Rightarrow> (Inr x, w)
      | None \<Rightarrow>
          let w1 = oe_race1 env w
          in if tag \<in> u_username ` set (db_users w1)
             then (case find_tagged w1 currency tag of
                     None \<Rightarrow> (Inl Server_error, w1) | Some x \<Rightarrow> (Inr x, w1))
             else let u = \<lparr>u_id = oe_userId env, u_username = tag, u_isGuest = False, u_anonymizedAt = None\<rparr>;
                      x = \<lparr>w_id = oe_walletId env, w_userId = oe_userId env, w_currency = currency, w_balance = 0\<rparr>
                  in (Inr x, add_user u x (''Player '' @ take 6 playerId) w1))"

definition play_claims ::
  "verified_launch \<Rightarrow> string \<Rightarrow> wallet \<Rightarrow> game_session \<Rightarrow> per_bet_limits option \<Rightarrow> effective_rg option \<Rightarrow> json" where
  "play_claims v currency x s limits rg =
     JObj ([(''sub'', JStr (w_userId x)), (''walletId'', JStr (w_id x)), (''currency'', JStr currency),
            (''operatorId'', JStr (vl_operatorId v)), (''playerId'', JStr (vl_playerId v)),
            (''sessionId'', JStr (s_id s)), (''kind'', JStr ''operator''),
            (''sessionStartedAt'', JNum (of_int (s_createdAt s)))] @
           opt_entry ''limits'' serializeBetLimits limits @
           (if vl_demo v then [(''demo'', JBool True)] else []) @
           opt_entry ''rg'' serializeRg rg)"

record launch_result =
  lr_claims :: json
  lr_sessionId :: uid
  lr_walletId :: uid
  lr_currency :: string
  lr_decimals :: nat
  lr_locale :: string
  lr_callbackUrl :: "string option"

definition new_session :: "'o open_env \<Rightarrow> verified_launch \<Rightarrow> string \<Rightarrow> wallet \<Rightarrow> game_session" where
  "new_session env v currency x =
     \<lparr>s_id = oe_sessionId env, s_operatorId = to_lower (vl_operatorId v), s_playerId = vl_playerId v,
      s_currency = currency, s_walletId = w_id x, s_demo = vl_demo v, s_locale = vl_locale v,
      s_launchJti = vl_jti v, s_createdAt = oe_now env, s_revokedAt = None, s_rcDueAt = None,
      s_rcPendingAt = None, s_rcLastAckAt = None\<rparr>"

definition open_result ::
  "operator_row list \<Rightarrow> verified_launch \<Rightarrow> string \<Rightarrow> wallet \<Rightarrow> game_session \<Rightarrow> launch_result" where
  "open_result ops v currency x s =
     (let op = find_operator ops (vl_operatorId v);
          limits = (case op of None \<Rightarrow> None | Some o' \<Rightarrow> effectiveLimitsFor (op_betLimits o') currency);
          rg = (if vl_demo v then None
                else case op of None \<Rightarrow> None | Some o' \<Rightarrow> effectiveRgFor (op_rgConfig o') currency)
      in \<lparr>lr_claims = play_claims v currency x s limits rg, lr_sessionId = s_id s, lr_walletId = w_id x,
          lr_currency = currency, lr_decimals = cm_decimals (currencyMeta currency), lr_locale = vl_locale v,
          lr_callbackUrl = (case op of None \<Rightarrow> None | Some o' \<Rightarrow> op_callbackUrl o')\<rparr>)"

definition open_session ::
  "'o open_env \<Rightarrow> operator_row list \<Rightarrow> verified_launch \<Rightarrow> string \<Rightarrow> wallet \<Rightarrow> 'o world \<Rightarrow>
   (http_error + launch_result) \<times> 'o world" where
  "open_session env ops v currency x w =
     (let w2 = oe_race2 env w
      in if find_jti w2 (vl_jti v) \<noteq> None then (Inl (Unauthorized ''launch_token_already_used''), w2)
         else let s = new_session env v currency x;
                  w3 = w2\<lparr>db_sessions := db_sessions w2 @ [s]\<rparr>;
                  r = open_result ops v currency x s
              in if \<not> vl_demo v then (Inr r, w3)
                 else (case ledger_resetTo id id w3 (w_id x) (oe_bankroll env) (''demo:reset:'' @ s_id s)
                              (Some \<lparr>refType = Some ''demo_reset'', refId = Some (w_id x)\<rparr>) of
                         (Inl e, w4) \<Rightarrow> (Inl Server_error, w4)
                       | (Inr _, w4) \<Rightarrow> (Inr r, w4)))"

definition openFromToken ::
  "jwt \<Rightarrow> 'o open_env \<Rightarrow> operator_row list \<Rightarrow> string \<Rightarrow> 'o world \<Rightarrow> (http_error + launch_result) \<times> 'o world" where
  "openFromToken J env ops token w =
     (case launch_verify J ops token w of
        Inl e \<Rightarrow> (Inl e, w)
      | Inr v \<Rightarrow>
          let currency = to_upper (text_or_empty (vl_currency v));
              tag = session_tag (vl_operatorId v) (vl_playerId v) currency (vl_demo v)
          in (case open_wallet env (vl_playerId v) currency tag w of
                (Inl e, w1) \<Rightarrow> (Inl e, w1)
              | (Inr x, w1) \<Rightarrow> open_session env ops v currency x w1))"

section \<open>Guest accounts\<close>

definition STARTING_BALANCE :: int where "STARTING_BALANCE = 10000"

definition DEMO_CURRENCY :: string where "DEMO_CURRENCY = ''DEMO''"

text \<open>A guest gets a user, a funded wallet and a token with the user id; a taken name throws.\<close>

definition createGuest :: "uid \<Rightarrow> uid \<Rightarrow> 'o world \<Rightarrow> (http_error + (json \<times> wallet)) \<times> 'o world" where
  "createGuest i walletId w =
     (let username = ''Thief_'' @ take 8 i;
          u = \<lparr>u_id = i, u_username = username, u_isGuest = True, u_anonymizedAt = None\<rparr>;
          x = \<lparr>w_id = walletId, w_userId = i, w_currency = DEMO_CURRENCY, w_balance = STARTING_BALANCE\<rparr>
      in if username \<in> u_username ` set (db_users w) then (Inl Server_error, w)
         else (Inr (JObj [(''sub'', JStr i), (''username'', JStr username)], x), add_user u x username w))"

end
