(* ===== verification/VR_SessionOps.thy ===== *)
theory VR_SessionOps
  imports VR_Sessions
begin

text \<open>
  What happens to a session after it is opened (\<open>src/operator/game-session.service.ts\<close>): liveness,
  revocation by the player or the operator, the persisted reality-check state; the routes of
  \<open>operator.controller.ts\<close> and \<open>operator-sessions.controller.ts\<close>; and the invariant behind the session
  lookups of the money path. The state is the database with the audit log beside it.
\<close>

section \<open>Liveness\<close>

definition is_live :: "game_session \<Rightarrow> bool" where
  "is_live s \<longleftrightarrow> s_revokedAt s = None"

definition find_session :: "'o world \<Rightarrow> uid \<Rightarrow> game_session option" where
  "find_session w i = find (\<lambda>s. s_id s = i) (db_sessions w)"

definition isLive :: "uid \<Rightarrow> 'o world \<Rightarrow> bool" where
  "isLive sessionId w \<longleftrightarrow> 0 < count_where (\<lambda>s. s_id s = sessionId \<and> is_live s) (db_sessions w)"

definition findNotLive :: "uid list \<Rightarrow> 'o world \<Rightarrow> uid list" where
  "findNotLive sessionIds w =
     (if sessionIds = [] then []
      else let live = map s_id (filter (\<lambda>s. s_id s \<in> set sessionIds \<and> is_live s) (db_sessions w))
           in remdups (filter (\<lambda>i. i \<notin> set live) sessionIds))"

definition session_update :: "(game_session \<Rightarrow> bool) \<Rightarrow> (game_session \<Rightarrow> game_session) \<Rightarrow> 'o world \<Rightarrow> 'o world" where
  "session_update P f w = w\<lparr>db_sessions := update_where P f (db_sessions w)\<rparr>"

section \<open>Reality checks\<close>

definition set_due :: "int option \<Rightarrow> game_session \<Rightarrow> game_session" where
  "set_due nextDueAt s = (case nextDueAt of None \<Rightarrow> s | Some t \<Rightarrow> s\<lparr>s_rcDueAt := Some t\<rparr>)"

definition markRealityCheckPending :: "int \<Rightarrow> uid \<Rightarrow> int option \<Rightarrow> 'o world \<Rightarrow> 'o world" where
  "markRealityCheckPending now sessionId nextDueAt =
     session_update (\<lambda>s. s_id s = sessionId \<and> is_live s)
       (\<lambda>s. set_due nextDueAt (s\<lparr>s_rcPendingAt := Some now\<rparr>))"

definition ackRealityCheck :: "int \<Rightarrow> uid \<Rightarrow> int option \<Rightarrow> 'o world \<Rightarrow> 'o world" where
  "ackRealityCheck now sessionId nextDueAt =
     session_update (\<lambda>s. s_id s = sessionId \<and> is_live s)
       (\<lambda>s. set_due nextDueAt (s\<lparr>s_rcPendingAt := None, s_rcLastAckAt := Some now\<rparr>))"

definition loadRealityCheckState :: "uid \<Rightarrow> 'o world \<Rightarrow> bool \<times> int option" where
  "loadRealityCheckState sessionId w =
     (case find_session w sessionId of
        None \<Rightarrow> (False, None) | Some s \<Rightarrow> (s_rcPendingAt s \<noteq> None, s_rcDueAt s))"

section \<open>Revocation\<close>

record log_env =
  le_iso :: "int \<Rightarrow> string"
  le_stringify :: "json \<Rightarrow> string option"
  le_fails :: bool

record 'o site =
  st_db :: "'o world"
  st_log :: audit_log

definition log_event :: "log_env \<Rightarrow> audit_input \<Rightarrow> 'o site \<Rightarrow> 'o site" where
  "log_event L e st = st\<lparr>st_log := audit_record (le_stringify L) (le_fails L) e (st_log st)\<rparr>"

definition revoke_event :: "log_env \<Rightarrow> int \<Rightarrow> uid \<Rightarrow> game_session list \<Rightarrow> nat \<Rightarrow> audit_input" where
  "revoke_event L now walletId targets n =
     \<lparr>ai_actor = ''system'', ai_action = ''session.revoke'', ai_targetType = Some ''game_session'',
      ai_targetId = Some walletId,
      ai_operatorId = (case targets of [] \<Rightarrow> None | t # _ \<Rightarrow> Some (s_operatorId t)), ai_ip = None,
      ai_before = None, ai_after = Some (PObj 0 [(''revokedAt'', PStr (le_iso L now))]),
      ai_meta = Some (PObj 0 [(''walletId'', PStr walletId), (''revokedCount'', PNum (of_nat n)),
        (''sessionIds'', PArr 1 (map (\<lambda>t. PStr (s_id t)) targets))])\<rparr>"

definition revokeForWallet :: "log_env \<Rightarrow> int \<Rightarrow> uid \<Rightarrow> 'o site \<Rightarrow> nat \<times> 'o site" where
  "revokeForWallet L now walletId st =
     (let P = (\<lambda>s. s_walletId s = walletId \<and> is_live s);
          targets = filter P (db_sessions (st_db st));
          n = count_where P (db_sessions (st_db st));
          st1 = st\<lparr>st_db := session_update P (\<lambda>s. s\<lparr>s_revokedAt := Some now\<rparr>) (st_db st)\<rparr>
      in (n, if 0 < n then log_event L (revoke_event L now walletId targets n) st1 else st1))"

text \<open>\<open>SUFFIX_RE\<close>: a bare currency, optionally followed by \<open>:demo\<close>.\<close>

definition SUFFIX_RE :: "string \<Rightarrow> bool" where
  "SUFFIX_RE s \<longleftrightarrow>
     (case split_on CHR '':'' s of
        [c] \<Rightarrow> c \<noteq> [] | [c, d] \<Rightarrow> c \<noteq> [] \<and> d = ''demo'' | _ \<Rightarrow> False)"

definition player_wallets :: "uid \<Rightarrow> string \<Rightarrow> string option \<Rightarrow> 'o world \<Rightarrow> wallet list" where
  "player_wallets operatorId playerId currency w =
     (let base = tag_base operatorId playerId;
          hit = (case truthy currency of
                   Some c \<Rightarrow> (\<lambda>n. n = base @ to_upper c \<or> n = base @ to_upper c @ '':demo'')
                 | None \<Rightarrow> (\<lambda>n. starts_with n base))
      in filter (username_is w (\<lambda>n. hit n \<and> SUFFIX_RE (drop (length base) n))) (db_wallets w))"

fun revoke_wallets :: "log_env \<Rightarrow> int \<Rightarrow> wallet list \<Rightarrow> 'o site \<Rightarrow> nat \<times> 'o site" where
  "revoke_wallets L now [] st = (0, st)"
| "revoke_wallets L now (x # ws) st =
     (let (k, st') = revokeForWallet L now (w_id x) st; (n, st'') = revoke_wallets L now ws st' in (k + n, st''))"

definition revokeForOperatorPlayer ::
  "log_env \<Rightarrow> int \<Rightarrow> uid \<Rightarrow> string \<Rightarrow> string option \<Rightarrow> 'o site \<Rightarrow> (nat \<times> nat) \<times> 'o site" where
  "revokeForOperatorPlayer L now operatorId playerId currency st =
     (let ws = player_wallets operatorId playerId currency (st_db st);
          (n, st') = revoke_wallets L now ws st
      in ((n, length ws), st'))"

section \<open>Routes\<close>

text \<open>\<open>POST /api/operator/launch\<close>, \<open>/session/close\<close> and \<open>/sessions/revoke\<close>; bodies are JSON.\<close>

definition launch_route ::
  "jwt \<Rightarrow> 'o open_env \<Rightarrow> operator_row list \<Rightarrow> json \<Rightarrow> 'o world \<Rightarrow> (http_error + launch_result) \<times> 'o world" where
  "launch_route J env ops body w =
     (case jget body ''token'' of
        Some (JStr t) \<Rightarrow> if length t < 10 then (Inl (Bad_request ''invalid_body''), w) else openFromToken J env ops t w
      | _ \<Rightarrow> (Inl (Bad_request ''invalid_body''), w))"

definition close_route :: "log_env \<Rightarrow> int \<Rightarrow> string option \<Rightarrow> 'o site \<Rightarrow> nat \<times> 'o site" where
  "close_route L now walletId st =
     (case truthy walletId of None \<Rightarrow> (0, st) | Some i \<Rightarrow> revokeForWallet L now i st)"

definition short_text :: "nat \<Rightarrow> json option \<Rightarrow> string option" where
  "short_text n v = (case v of Some (JStr s) \<Rightarrow> if 1 \<le> length s \<and> length s \<le> n then Some s else None | _ \<Rightarrow> None)"

definition revoke_route ::
  "log_env \<Rightarrow> int \<Rightarrow> uid \<Rightarrow> json \<Rightarrow> 'o site \<Rightarrow> (http_error + nat \<times> nat) \<times> 'o site" where
  "revoke_route L now operatorId body st =
     (let currency = jget body ''currency''
      in case short_text 256 (jget body ''playerId'') of
           None \<Rightarrow> (Inl (Bad_request ''invalid_body''), st)
         | Some p \<Rightarrow>
             if currency \<noteq> None \<and> short_text 16 currency = None then (Inl (Bad_request ''invalid_body''), st)
             else let (r, st') = revokeForOperatorPlayer L now operatorId p (short_text 16 currency) st
                  in (Inr r, st'))"

section \<open>The session invariant\<close>

text \<open>
  Every session was opened on the wallet of its own player, currency and mode, and still is, unless the
  wallet's user has been anonymised since. Erasure writes names that start with \<open>anon:\<close>, to the user and to
  the sessions alike.
\<close>

definition wallet_home :: "'o world \<Rightarrow> uid \<Rightarrow> (string \<times> string) option" where
  "wallet_home w i =
     (case find_wallet w i of
        None \<Rightarrow> None
      | Some x \<Rightarrow> (case user_of w x of None \<Rightarrow> None | Some u \<Rightarrow> Some (w_currency x, u_username u)))"

definition at_home :: "game_session \<Rightarrow> string \<Rightarrow> bool" where
  "at_home s name \<longleftrightarrow>
     (\<exists>oid. is_uuid oid \<and> to_lower oid = s_operatorId s \<and>
        name = session_tag oid (s_playerId s) (s_currency s) (s_demo s)) \<or>
     starts_with name ''anon:'' \<and> starts_with (s_playerId s) ''anon:''"

definition session_home :: "'o world \<Rightarrow> game_session \<Rightarrow> bool" where
  "session_home w s \<longleftrightarrow> to_upper (s_currency s) = s_currency s \<and>
     (\<exists>name. wallet_home w (s_walletId s) = Some (s_currency s, name) \<and> at_home s name)"

definition same_route :: "game_session \<Rightarrow> game_session \<Rightarrow> bool" where
  "same_route s t \<longleftrightarrow> s_operatorId s = s_operatorId t \<and> s_playerId s = s_playerId t \<and>
     s_currency s = s_currency t \<and> s_demo s = s_demo t"

definition keys_ok :: "'o world \<Rightarrow> bool" where
  "keys_ok w \<longleftrightarrow> distinct (map u_id (db_users w)) \<and> distinct (map u_username (db_users w)) \<and>
     distinct (map w_id (db_wallets w)) \<and> distinct (map w_userId (db_wallets w)) \<and>
     distinct (map s_launchJti (db_sessions w)) \<and>
     distinct (map s_id (db_sessions w))"

definition session_inv :: "'o world \<Rightarrow> bool" where
  "session_inv w \<longleftrightarrow> keys_ok w \<and> (\<forall>s \<in> set (db_sessions w). session_home w s) \<and>
     (\<forall>s \<in> set (db_sessions w). \<forall>t \<in> set (db_sessions w). s_walletId s = s_walletId t \<longrightarrow> same_route s t)"

text \<open>A tag determines operator, player and mode once the currency is known.\<close>

lemma append_colon_inj:
  "c \<notin> set a \<Longrightarrow> c \<notin> set b \<Longrightarrow> a @ c # x = b @ c # y \<Longrightarrow> a = b \<and> x = y"
  by (induction a arbitrary: b) (auto simp: append_eq_Cons_conv Cons_eq_append_conv)

lemma upper_no_o: "to_upper c = c \<Longrightarrow> c \<noteq> [] \<Longrightarrow> List.last c \<noteq> CHR ''o''"
proof
  assume "to_upper c = c" "c \<noteq> []" "List.last c = CHR ''o''"
  then have "upper_char CHR ''o'' = CHR ''o''" by (metis last_map to_upper_def)
  then show False by code_simp
qed

lemma tag_mode:
  assumes "to_upper c = c" "p @ CHR '':'' # c = p' @ CHR '':'' # c @ '':demo''"
  shows False
proof -
  have "List.last (p @ CHR '':'' # c) = CHR ''o''" by (simp add: assms(2))
  then show False using upper_no_o [OF assms(1)] by (cases "c = []") auto
qed

lemma session_tag_inj:
  assumes "session_tag oid p c d = session_tag oid' p' c d'" "CHR '':'' \<notin> set oid" "CHR '':'' \<notin> set oid'"
    "to_upper c = c"
  shows "oid = oid' \<and> p = p' \<and> d = d'"
proof -
  have "oid @ CHR '':'' # p @ CHR '':'' # c @ (if d then '':demo'' else []) =
      oid' @ CHR '':'' # p' @ CHR '':'' # c @ (if d' then '':demo'' else [])"
    using assms(1) by (cases d; cases d') (simp_all add: session_tag_def tag_base_def)
  then have e: "oid = oid'" "p @ CHR '':'' # c @ (if d then '':demo'' else []) = p' @ CHR '':'' # c @ (if d' then '':demo'' else [])"
    using append_colon_inj [OF assms(2,3)] by blast+
  show ?thesis
  proof (cases "d = d'")
    case True
    then show ?thesis using e by simp
  next
    case False
    then show ?thesis
      using e(2) tag_mode [OF assms(4), of p p'] tag_mode [OF assms(4), of p' p] by (cases d) auto
  qed
qed

lemma tag_not_anon: "\<not> starts_with (session_tag oid p c d) ''anon:''"
  by (simp add: session_tag_def tag_base_def starts_with_def)

lemma same_home_same_route:
  assumes "session_home w s" "session_home w t" "s_walletId s = s_walletId t"
    "wallet_home w (s_walletId s) = Some (s_currency s, name)" "\<not> starts_with name ''anon:''"
  shows "same_route s t"
proof -
  from assms have c: "s_currency t = s_currency s" "to_upper (s_currency s) = s_currency s"
    by (auto simp: session_home_def)
  from assms obtain a b where
    a: "is_uuid a" "to_lower a = s_operatorId s" "name = session_tag a (s_playerId s) (s_currency s) (s_demo s)" and
    b: "is_uuid b" "to_lower b = s_operatorId t" "name = session_tag b (s_playerId t) (s_currency t) (s_demo t)"
    by (auto simp: session_home_def at_home_def)
  have "CHR '':'' \<notin> set a" "CHR '':'' \<notin> set b" using a(1) b(1) is_uuid_colon_free by (auto simp: colon_free_def)
  then have "a = b \<and> s_playerId s = s_playerId t \<and> s_demo s = s_demo t"
    using session_tag_inj [of a "s_playerId s" "s_currency s" "s_demo s" b "s_playerId t" "s_demo t"] a(3) b(3) c
    by simp
  then show ?thesis using a(2) b(2) c(1) by (simp add: same_route_def)
qed

section \<open>What keeps the invariant\<close>

text \<open>\<open>same_accounts\<close>: users, sessions and the owner and currency of every wallet are the same.\<close>

definition same_accounts :: "'o world \<Rightarrow> 'o world \<Rightarrow> bool" where
  "same_accounts w v \<longleftrightarrow> db_users v = db_users w \<and> db_sessions v = db_sessions w \<and>
     map (\<lambda>x. (w_id x, w_userId x, w_currency x)) (db_wallets v) =
     map (\<lambda>x. (w_id x, w_userId x, w_currency x)) (db_wallets w)"

lemma find_same_keys:
  "map (\<lambda>x. (w_id x, w_userId x, w_currency x)) xs = map (\<lambda>x. (w_id x, w_userId x, w_currency x)) ys \<Longrightarrow>
   map_option (\<lambda>x. (w_id x, w_userId x, w_currency x)) (find (\<lambda>x. w_id x = i) xs) =
   map_option (\<lambda>x. (w_id x, w_userId x, w_currency x)) (find (\<lambda>x. w_id x = i) ys)"
  by (induction xs arbitrary: ys) (auto simp: Cons_eq_map_conv map_eq_Cons_conv)

lemma same_accounts_home: "same_accounts w v \<Longrightarrow> wallet_home v i = wallet_home w i"
  using find_same_keys [of "db_wallets v" "db_wallets w" i]
  by (cases "find (\<lambda>x. w_id x = i) (db_wallets v)"; cases "find (\<lambda>x. w_id x = i) (db_wallets w)")
    (auto simp: wallet_home_def find_wallet_def user_of_def same_accounts_def split: option.split)

lemma same_accounts_ids:
  assumes "same_accounts w v"
  shows "map w_id (db_wallets v) = map w_id (db_wallets w)" "map w_userId (db_wallets v) = map w_userId (db_wallets w)"
proof -
  have "map fst (map (\<lambda>x. (w_id x, w_userId x, w_currency x)) (db_wallets v)) =
      map fst (map (\<lambda>x. (w_id x, w_userId x, w_currency x)) (db_wallets w))"
    "map (fst \<circ> snd) (map (\<lambda>x. (w_id x, w_userId x, w_currency x)) (db_wallets v)) =
      map (fst \<circ> snd) (map (\<lambda>x. (w_id x, w_userId x, w_currency x)) (db_wallets w))"
    using assms by (simp_all only: same_accounts_def)
  then show "map w_id (db_wallets v) = map w_id (db_wallets w)" "map w_userId (db_wallets v) = map w_userId (db_wallets w)"
    by (simp_all add: comp_def)
qed

lemma session_inv_same_accounts: "same_accounts w v \<Longrightarrow> session_inv w \<Longrightarrow> session_inv v"
  using same_accounts_home [of w v] same_accounts_ids [of w v]
  by (simp add: session_inv_def keys_ok_def session_home_def same_accounts_def)

text \<open>Changing sessions in place: revocation, the reality-check columns.\<close>

lemma session_inv_update:
  assumes "session_inv w"
    "\<And>s. s_id (f s) = s_id s" "\<And>s. s_launchJti (f s) = s_launchJti s" "\<And>s. s_walletId (f s) = s_walletId s"
    "\<And>s. same_route (f s) s"
  shows "session_inv (session_update P f w)"
proof -
  define g where "g s = (if P s then f s else s)" for s
  define v where "v = session_update P f w"
  have d: "db_sessions v = map g (db_sessions w)" "db_users v = db_users w" "db_wallets v = db_wallets w"
    by (simp_all add: v_def session_update_def update_where_def g_def)
  have h: "wallet_home v i = wallet_home w i" for i
    by (simp add: wallet_home_def find_wallet_def user_of_def d split: option.split)
  have k: "s_id (g s) = s_id s" "s_launchJti (g s) = s_launchJti s" "s_walletId (g s) = s_walletId s"
    "s_currency (g s) = s_currency s" "s_playerId (g s) = s_playerId s" "s_operatorId (g s) = s_operatorId s"
    "s_demo (g s) = s_demo s" for s
    using assms(2-5) by (simp_all add: g_def same_route_def)
  have "at_home (g s) n = at_home s n" "session_home v (g s) = session_home w s" "same_route (g s) (g t) = same_route s t"
    for s t n
    by (simp_all add: at_home_def session_home_def same_route_def h k)
  then show ?thesis
    using assms(1) unfolding v_def [symmetric] session_inv_def keys_ok_def d by (simp add: comp_def k)
qed

lemmas session_route_defs = set_due_def same_route_def

lemma session_inv_mark: "session_inv w \<Longrightarrow> session_inv (markRealityCheckPending now i d w)"
  unfolding markRealityCheckPending_def
  by (rule session_inv_update) (simp_all add: session_route_defs split: option.split)

lemma session_inv_ack: "session_inv w \<Longrightarrow> session_inv (ackRealityCheck now i d w)"
  unfolding ackRealityCheck_def
  by (rule session_inv_update) (simp_all add: session_route_defs split: option.split)

lemma st_db_log [simp]: "st_db (log_event L e st) = st_db st"
  by (simp add: log_event_def)

lemma st_db_revoke:
  "st_db (snd (revokeForWallet L now i st)) =
     session_update (\<lambda>s. s_walletId s = i \<and> is_live s) (\<lambda>s. s\<lparr>s_revokedAt := Some now\<rparr>) (st_db st)"
  by (simp add: revokeForWallet_def Let_def)

lemma session_inv_revoke: "session_inv (st_db st) \<Longrightarrow> session_inv (st_db (snd (revokeForWallet L now i st)))"
  unfolding st_db_revoke by (rule session_inv_update) (simp_all add: session_route_defs)

lemma session_inv_revoke_wallets:
  "session_inv (st_db st) \<Longrightarrow> session_inv (st_db (snd (revoke_wallets L now ws st)))"
proof (induction ws arbitrary: st)
  case (Cons x ws)
  then show ?case using session_inv_revoke [of st L now "w_id x"] by (simp add: split_beta)
qed simp

lemma session_inv_revoke_player:
  "session_inv (st_db st) \<Longrightarrow> session_inv (st_db (snd (revokeForOperatorPlayer L now oid p c st)))"
  using session_inv_revoke_wallets by (simp add: revokeForOperatorPlayer_def Let_def split_beta)

end
