(* ===== verification/VR_SessionInv.thy ===== *)
theory VR_SessionInv
  imports VR_SessionOps
begin

text \<open>
  The session invariant across launches: what a launch may find committed between its statements, and
  that it keeps the invariant; the ticket is used once; guests.
\<close>

section \<open>Launches keep the invariant\<close>

definition keeps_homes :: "'o world \<Rightarrow> 'o world \<Rightarrow> bool" where
  "keeps_homes w v \<longleftrightarrow> (\<forall>i h. wallet_home w i = Some h \<longrightarrow> wallet_home v i = Some h)"

definition session_ids :: "'o world \<Rightarrow> uid set" where
  "session_ids w = s_id ` set (db_sessions w)"

text \<open>No session row is deleted, keeps its ticket id, and once revoked stays revoked.\<close>

definition sessions_kept :: "'o world \<Rightarrow> 'o world \<Rightarrow> bool" where
  "sessions_kept w v \<longleftrightarrow> (\<forall>s \<in> set (db_sessions w). \<exists>t \<in> set (db_sessions v).
     s_id t = s_id s \<and> s_launchJti t = s_launchJti s \<and> (is_live t \<longrightarrow> is_live s))"

lemma sessions_kept_refl [simp]: "sessions_kept w w"
  by (auto simp: sessions_kept_def)

lemma sessions_kept_trans: "sessions_kept u v \<Longrightarrow> sessions_kept v w \<Longrightarrow> sessions_kept u w"
  unfolding sessions_kept_def by metis

text \<open>Other requests that commit during a launch keep the invariant, the session rows and the names of the
  wallets' users, and do not use the id of the session about to be made.\<close>

definition home_race :: "uid \<Rightarrow> ('o world \<Rightarrow> 'o world) \<Rightarrow> bool" where
  "home_race i f \<longleftrightarrow> (\<forall>v. session_inv v \<and> i \<notin> session_ids v \<longrightarrow>
     session_inv (f v) \<and> keeps_homes v (f v) \<and> sessions_kept v (f v) \<and> i \<notin> session_ids (f v))"

definition open_ok :: "'o open_env \<Rightarrow> 'o world \<Rightarrow> bool" where
  "open_ok env w \<longleftrightarrow> oe_sessionId env \<notin> session_ids w \<and> home_race (oe_sessionId env) (oe_race1 env) \<and>
     home_race (oe_sessionId env) (oe_race2 env) \<and> oe_userId env \<notin> u_id ` set (db_users (oe_race1 env w)) \<and>
     oe_userId env \<notin> w_userId ` set (db_wallets (oe_race1 env w)) \<and>
     oe_walletId env \<notin> w_id ` set (db_wallets (oe_race1 env w))"

lemma home_race_id [simp]: "home_race i id"
  by (simp add: home_race_def keeps_homes_def)

lemma keeps_homes_refl [simp]: "keeps_homes w w"
  by (simp add: keeps_homes_def)

lemma find_append: "find P (xs @ ys) = (case find P xs of None \<Rightarrow> find P ys | Some x \<Rightarrow> Some x)"
  by (induction xs) auto

lemma find_tagged_home:
  assumes "session_inv w" "find_tagged w currency tag = Some x"
  shows "wallet_home w (w_id x) = Some (currency, tag)"
proof -
  have x: "x \<in> set (db_wallets w)" "w_currency x = currency" "username_is w (\<lambda>n. n = tag) x"
    using find_SomeD [OF assms(2) [unfolded find_tagged_def]] by simp_all
  then have "find_wallet w (w_id x) = Some x"
    using assms(1) find_distinct [of w_id "db_wallets w" x]
    by (simp add: session_inv_def keys_ok_def find_wallet_def)
  then show ?thesis using x by (auto simp: wallet_home_def username_is_def split: option.splits)
qed

lemma add_user_home:
  "keeps_homes w (add_user u x n w)"
  "w_id x \<notin> w_id ` set (db_wallets w) \<Longrightarrow> u_id u \<notin> u_id ` set (db_users w) \<Longrightarrow> w_userId x = u_id u \<Longrightarrow>
     wallet_home (add_user u x n w) (w_id x) = Some (w_currency x, u_username u)"
proof -
  show "keeps_homes w (add_user u x n w)"
    by (auto simp: keeps_homes_def wallet_home_def find_wallet_def user_of_def add_user_def find_append
        split: option.splits)
  assume "w_id x \<notin> w_id ` set (db_wallets w)" "u_id u \<notin> u_id ` set (db_users w)" "w_userId x = u_id u"
  moreover from this have "find (\<lambda>y. w_id y = w_id x) (db_wallets w) = None" "find (\<lambda>y. u_id y = u_id u) (db_users w) = None"
    by (auto simp: find_None_iff image_iff)
  ultimately show "wallet_home (add_user u x n w) (w_id x) = Some (w_currency x, u_username u)"
    by (simp add: wallet_home_def find_wallet_def user_of_def add_user_def find_append)
qed

lemma session_inv_keeps:
  assumes "session_inv w" "keys_ok v" "db_sessions v = db_sessions w" "keeps_homes w v"
  shows "session_inv v"
  using assms unfolding session_inv_def session_home_def keeps_homes_def by metis

lemma session_inv_add_user:
  assumes "session_inv w" "w_id x \<notin> w_id ` set (db_wallets w)" "u_id u \<notin> u_id ` set (db_users w)"
    "w_userId x \<notin> w_userId ` set (db_wallets w)" "u_username u \<notin> u_username ` set (db_users w)"
  shows "session_inv (add_user u x n w)"
proof (rule session_inv_keeps [OF assms(1) _ _ add_user_home(1)])
  show "keys_ok (add_user u x n w)"
    using assms by (simp add: session_inv_def keys_ok_def add_user_def)
qed (simp add: add_user_def)

lemma open_wallet_inv:
  assumes "session_inv w" "open_ok env w" "open_wallet env p currency tag w = (r, w1)"
  shows "session_inv w1 \<and> oe_sessionId env \<notin> session_ids w1 \<and> keeps_homes w w1 \<and>
    (\<forall>x. r = Inr x \<longrightarrow> wallet_home w1 (w_id x) = Some (currency, tag))"
proof (cases "find_tagged w currency tag")
  case (Some x)
  then show ?thesis
    using assms find_tagged_home [OF assms(1)] by (auto simp: open_wallet_def open_ok_def)
next
  case None
  define v where "v = oe_race1 env w"
  have v: "session_inv v" "oe_sessionId env \<notin> session_ids v" "keeps_homes w v"
    using assms(1,2) by (auto simp: open_ok_def home_race_def v_def)
  show ?thesis
  proof (cases "tag \<in> u_username ` set (db_users v)")
    case True
    then show ?thesis
      using assms(3) None v find_tagged_home [OF v(1)]
      by (auto simp: open_wallet_def v_def [symmetric] split: option.splits)
  next
    case False
    let ?u = "\<lparr>u_id = oe_userId env, u_username = tag, u_isGuest = False, u_anonymizedAt = None\<rparr>"
    let ?x = "\<lparr>w_id = oe_walletId env, w_userId = oe_userId env, w_currency = currency, w_balance = 0\<rparr>"
    have w1: "w1 = add_user ?u ?x (''Player '' @ take 6 p) v" "r = Inr ?x"
      using assms(3) None False by (auto simp: open_wallet_def v_def [symmetric] Let_def)
    have f: "oe_userId env \<notin> u_id ` set (db_users v)" "oe_userId env \<notin> w_userId ` set (db_wallets v)" "oe_walletId env \<notin> w_id ` set (db_wallets v)"
      using assms(2) by (simp_all add: open_ok_def v_def)
    have "session_inv w1" "keeps_homes v w1" "wallet_home w1 (oe_walletId env) = Some (currency, tag)"
      using session_inv_add_user [of v ?x ?u] add_user_home(1) [of v ?u ?x] add_user_home(2) [of ?x v ?u] v(1) f False
      unfolding w1 by simp_all
    then show ?thesis
      using v(2,3) w1 by (simp add: keeps_homes_def session_ids_def add_user_def)
  qed
qed

lemma session_inv_add_session:
  assumes inv: "session_inv w" and fresh: "s_id s \<notin> session_ids w" "find_jti w (s_launchJti s) = None"
    and up: "to_upper (s_currency s) = s_currency s"
    and home: "wallet_home w (s_walletId s) = Some (s_currency s, session_tag oid (s_playerId s) (s_currency s) (s_demo s))"
    and oid: "is_uuid oid" "to_lower oid = s_operatorId s"
  shows "session_inv (w\<lparr>db_sessions := db_sessions w @ [s]\<rparr>)"
proof -
  define v where "v = w\<lparr>db_sessions := db_sessions w @ [s]\<rparr>"
  have h: "wallet_home v i = wallet_home w i" for i
    by (simp add: v_def wallet_home_def find_wallet_def user_of_def split: option.split)
  have hs: "session_home v t = session_home w t" for t by (simp add: session_home_def h)
  have s: "session_home w s" using up home oid by (auto simp: session_home_def at_home_def)
  have route: "same_route s t" if "t \<in> set (db_sessions w)" "s_walletId t = s_walletId s" for t
    using same_home_same_route [OF s _ that(2) [symmetric] home] inv that(1) tag_not_anon
    by (auto simp: session_inv_def)
  have "same_route s s" "same_route t s" if "t \<in> set (db_sessions w)" "s_walletId t = s_walletId s" for t
    using route [OF that] by (simp_all add: same_route_def)
  moreover have "same_route s s" by (simp add: same_route_def)
  moreover have "keys_ok v"
    using inv fresh by (auto simp: session_inv_def keys_ok_def v_def session_ids_def find_jti_def find_None_iff)
  moreover have "db_sessions v = db_sessions w @ [s]" by (simp add: v_def)
  ultimately show ?thesis
    using inv s route unfolding v_def [symmetric] session_inv_def hs by (simp add: ball_Un)
qed

lemma write_accounts: "same_accounts w (append_row r (set_balance i n w))"
  by (simp add: same_accounts_def append_row_def set_balance_def update_where_def comp_def)

lemma resetTo_accounts: "same_accounts w (snd (ledger_resetTo id id w i n k ref))"
proof -
  have "same_accounts w w" by (simp add: same_accounts_def)
  then show ?thesis
    by (simp add: write_accounts ledger_resetTo_def ledger_insert_def Let_def split: option.split)
qed

lemma session_inv_resetTo: "session_inv w \<Longrightarrow> session_inv (snd (ledger_resetTo id id w i n k ref))"
  by (rule session_inv_same_accounts [OF resetTo_accounts])

lemma verify_claims_operator: "verify_claims x oid payload w = Inr v \<Longrightarrow> vl_operatorId v = oid"
  by (simp add: verify_claims_def Let_def split: sum.splits if_splits option.splits json.splits) auto

lemma launch_verify_uuid: "launch_verify J ops token w = Inr v \<Longrightarrow> is_uuid (vl_operatorId v)"
  by (auto simp: launch_verify_def Let_def verify_claims_operator
      split: option.split_asm json.split_asm if_split_asm)

lemma open_session_inv:
  assumes "session_inv w" "home_race (oe_sessionId env) (oe_race2 env)" "oe_sessionId env \<notin> session_ids w"
    "is_uuid (vl_operatorId v)" "to_upper currency = currency"
    "wallet_home w (w_id x) = Some (currency, session_tag (vl_operatorId v) (vl_playerId v) currency (vl_demo v))"
  shows "session_inv (snd (open_session env ops v currency x w))"
proof -
  define u where "u = oe_race2 env w"
  have u: "session_inv u" "keeps_homes w u" "oe_sessionId env \<notin> session_ids u"
    using assms(1-3) by (auto simp: home_race_def u_def)
  let ?s = "new_session env v currency x"
  show ?thesis
  proof (cases "find_jti u (vl_jti v)")
    case None
    have "session_inv (u\<lparr>db_sessions := db_sessions u @ [?s]\<rparr>)"
      by (rule session_inv_add_session [where oid = "vl_operatorId v"])
        (use u assms None in \<open>auto simp: new_session_def keeps_homes_def\<close>)
    moreover from this have "session_inv (snd (ledger_resetTo id id (u\<lparr>db_sessions := db_sessions u @ [?s]\<rparr>)
        (w_id x) (oe_bankroll env) (''demo:reset:'' @ s_id ?s) (Some \<lparr>refType = Some ''demo_reset'', refId = Some (w_id x)\<rparr>)))"
      by (rule session_inv_resetTo)
    ultimately show ?thesis
      using None by (simp add: open_session_def u_def [symmetric] Let_def split_beta split: sum.split)
  next
    case (Some t)
    then show ?thesis using u by (simp add: open_session_def u_def [symmetric] Let_def)
  qed
qed

lemma session_inv_open:
  assumes "session_inv w" "open_ok env w"
  shows "session_inv (snd (openFromToken J env ops token w))"
proof (cases "launch_verify J ops token w")
  case (Inr v)
  define currency where "currency = to_upper (text_or_empty (vl_currency v))"
  define tag where "tag = session_tag (vl_operatorId v) (vl_playerId v) currency (vl_demo v)"
  obtain r w1 where r: "open_wallet env (vl_playerId v) currency tag w = (r, w1)" by force
  have w1: "session_inv w1" "oe_sessionId env \<notin> session_ids w1"
    "\<And>x. r = Inr x \<Longrightarrow> wallet_home w1 (w_id x) = Some (currency, tag)"
    using open_wallet_inv [OF assms r] by auto
  show ?thesis
  proof (cases r)
    case (Inr x)
    have "session_inv (snd (open_session env ops v currency x w1))"
      using open_session_inv [OF w1(1) _ w1(2) launch_verify_uuid [OF \<open>launch_verify J ops token w = Inr v\<close>], of currency x ops]
        assms(2) w1(3) [OF Inr] by (simp add: open_ok_def currency_def tag_def)
    then show ?thesis
      using Inr r \<open>launch_verify J ops token w = Inr v\<close>
      by (simp add: openFromToken_def currency_def tag_def Let_def)
  qed (use r w1 \<open>launch_verify J ops token w = Inr v\<close> in \<open>simp add: openFromToken_def currency_def tag_def Let_def\<close>)
qed (simp add: openFromToken_def assms)

lemma session_inv_guest:
  assumes "session_inv w" "i \<notin> u_id ` set (db_users w)" "i \<notin> w_userId ` set (db_wallets w)" "walletId \<notin> w_id ` set (db_wallets w)"
  shows "session_inv (snd (createGuest i walletId w))"
  using assms by (auto simp: createGuest_def Let_def intro!: session_inv_add_user)

end
