(* ===== verification/VR_Erasure.thy ===== *)
theory VR_Erasure
  imports VR_SessionInv
begin

text \<open>
  Erasure of a player by anonymisation in place (\<open>src/privacy/data-erasure.service.ts\<close>,
  \<open>operator-erasure.controller.ts\<close>), the search for dormant players and the retention sweep
  (\<open>scripts/retention-sweep.ts\<close>, \<open>scripts/anonymize-player.ts\<close>).

  The keyed hash is the parameter of \<open>VR_Keys\<close>. \<open>race\<close> is what other transactions commit between the
  checks of one erasure and its own transaction; a unique violation aborts that transaction. Metrics and
  console output are left out.
\<close>

section \<open>Tombstones\<close>

definition anonymizePepper :: "(string \<Rightarrow> string option) \<Rightarrow> string" where
  "anonymizePepper env =
     (case truthy (env ''ANONYMIZE_PEPPER'') of
        Some p \<Rightarrow> p
      | None \<Rightarrow> (case truthy (env ''JWT_SECRET'') of Some p \<Rightarrow> p | None \<Rightarrow> ''vaultrun-anon-dev''))"

definition tombstone :: "hashes \<Rightarrow> string \<Rightarrow> uid \<Rightarrow> string" where
  "tombstone h pepper userId = take 24 (hmac256 h userId pepper)"

definition playerTombstone :: "hashes \<Rightarrow> string \<Rightarrow> uid \<Rightarrow> string \<Rightarrow> string" where
  "playerTombstone h pepper operatorId playerId = take 24 (hmac256 h (operatorId @ '':'' @ playerId) pepper)"

section \<open>Erasing one player\<close>

definition NON_TERMINAL_BET_STATUSES :: "bet_status list" where
  "NON_TERMINAL_BET_STATUSES = [Reserving, Cancelling, Active, Payout_pending, Voiding]"

record anonymize_input =
  an_operatorId :: uid
  an_playerId :: string
  an_currency :: "string option"
  an_actor :: string
  an_reason :: "string option"

record anonymize_result =
  ar_alreadyAnonymized :: bool
  ar_usersAffected :: nat
  ar_scrubbedFields :: "string list"

record 'o erase_env =
  ee_hashes :: hashes
  ee_pepper :: string
  ee_now :: int
  ee_race :: "'o world \<Rightarrow> 'o world"

definition wallets_of :: "'o world \<Rightarrow> user \<Rightarrow> wallet list" where
  "wallets_of w u = filter (\<lambda>x. w_userId x = u_id u) (db_wallets w)"

definition tag_hits :: "uid \<Rightarrow> string \<Rightarrow> string \<Rightarrow> bool" where
  "tag_hits operatorId playerId name \<longleftrightarrow>
     (let prefix = tag_base operatorId playerId
      in starts_with name prefix \<and> SUFFIX_RE (drop (length prefix) name))"

definition live_users :: "uid \<Rightarrow> string \<Rightarrow> 'o world \<Rightarrow> user list" where
  "live_users operatorId playerId w = filter (\<lambda>u. tag_hits operatorId playerId (u_username u)) (db_users w)"

definition anon_users :: "uid \<Rightarrow> string \<Rightarrow> 'o world \<Rightarrow> user list" where
  "anon_users operatorId anonId w =
     (let ids = map s_walletId (filter (\<lambda>s. s_operatorId s = to_lower operatorId \<and> s_playerId s = anonId) (db_sessions w))
      in filter (\<lambda>u. \<exists>x \<in> set (wallets_of w u). w_id x \<in> set ids) (db_users w))"

definition resolve_users :: "uid \<Rightarrow> string \<Rightarrow> string \<Rightarrow> 'o world \<Rightarrow> user list" where
  "resolve_users operatorId playerId anonId w =
     (let live = live_users operatorId playerId w
      in live @ filter (\<lambda>u. u_id u \<notin> u_id ` set live) (anon_users operatorId anonId w))"

definition scrub_users :: "'o erase_env \<Rightarrow> uid list \<Rightarrow> user list \<Rightarrow> user list" where
  "scrub_users env ids =
     update_where (\<lambda>u. u_id u \<in> set ids)
       (\<lambda>u. u\<lparr>u_username := ''anon:'' @ tombstone (ee_hashes env) (ee_pepper env) (u_id u),
              u_anonymizedAt := Some (ee_now env)\<rparr>)"

definition scrub_world :: "'o erase_env \<Rightarrow> uid list \<Rightarrow> uid list \<Rightarrow> string \<Rightarrow> 'o world \<Rightarrow> 'o world" where
  "scrub_world env userIds walletIds anonId w =
     w\<lparr>db_users := scrub_users env userIds (db_users w),
       db_profiles := update_where (\<lambda>p. p_userId p \<in> set userIds) (\<lambda>p. p\<lparr>p_displayName := ''anon''\<rparr>) (db_profiles w),
       db_sessions := update_where (\<lambda>s. s_walletId s \<in> set walletIds) (\<lambda>s. s\<lparr>s_playerId := anonId\<rparr>) (db_sessions w)\<rparr>"

definition in_flight :: "uid list \<Rightarrow> 'o world \<Rightarrow> bool" where
  "in_flight walletIds w \<longleftrightarrow>
     0 < count_where (\<lambda>b. b_walletId b \<in> set walletIds \<and> b_status b \<in> set NON_TERMINAL_BET_STATUSES) (db_bets w) \<or>
     0 < count_where (\<lambda>s. s_walletId s \<in> set walletIds \<and> is_live s) (db_sessions w)"

definition SCRUBBED_FIELDS :: "string list" where
  "SCRUBBED_FIELDS = [''username'', ''displayName'', ''session.playerId'']"

definition erase_event :: "log_env \<Rightarrow> 'o erase_env \<Rightarrow> anonymize_input \<Rightarrow> user list \<Rightarrow> audit_input" where
  "erase_event L env i users =
     \<lparr>ai_actor = an_actor i, ai_action = ''player.anonymize'', ai_targetType = Some ''user'',
      ai_targetId = Some (u_id (hd users)), ai_operatorId = Some (an_operatorId i), ai_ip = None,
      ai_before = Some (PObj 0 [(''scrubbedFields'', PArr 1 (map PStr SCRUBBED_FIELDS))]),
      ai_after = Some (PObj 0 [(''anonymizedAt'', PStr (le_iso L (ee_now env))),
                               (''usersAffected'', PNum (of_nat (length users)))]),
      ai_meta = Some (PObj 0 ((case an_reason i of None \<Rightarrow> [] | Some r \<Rightarrow> [(''reason'', PStr r)]) @
                [(''currency'', PStr (case an_currency i of None \<Rightarrow> ''all'' | Some c \<Rightarrow> c))]))\<rparr>"

definition anonymizePlayer ::
  "log_env \<Rightarrow> 'o erase_env \<Rightarrow> anonymize_input \<Rightarrow> 'o site \<Rightarrow> (http_error + anonymize_result) \<times> 'o site" where
  "anonymizePlayer L env i st =
     (let w = st_db st;
          anonId = ''anon:'' @ playerTombstone (ee_hashes env) (ee_pepper env) (an_operatorId i) (an_playerId i);
          users = resolve_users (an_operatorId i) (an_playerId i) anonId w;
          userIds = map u_id users;
          walletIds = map w_id (concat (map (wallets_of w) users))
      in if users = [] then (Inr \<lparr>ar_alreadyAnonymized = False, ar_usersAffected = 0, ar_scrubbedFields = []\<rparr>, st)
         else if list_all (\<lambda>u. u_anonymizedAt u \<noteq> None) users
         then (Inr \<lparr>ar_alreadyAnonymized = True, ar_usersAffected = length users, ar_scrubbedFields = []\<rparr>, st)
         else if walletIds \<noteq> [] \<and> in_flight walletIds w then (Inl (Bad_request ''player_not_settled''), st)
         else let w1 = ee_race env w; v = scrub_world env userIds walletIds anonId w1
              in if \<not> distinct (map u_username (db_users v)) then (Inl Server_error, st\<lparr>st_db := w1\<rparr>)
                 else (Inr \<lparr>ar_alreadyAnonymized = False, ar_usersAffected = length users,
                            ar_scrubbedFields = SCRUBBED_FIELDS\<rparr>,
                       log_event L (erase_event L env i users) (st\<lparr>st_db := v\<rparr>)))"

text \<open>\<open>POST /api/operator/players/:playerId/erase\<close> for the authenticated operator.\<close>

fun is_body :: "json \<Rightarrow> bool" where
  "is_body JNull = True"
| "is_body (JObj fs) = True"
| "is_body _ = False"

definition erase_route ::
  "log_env \<Rightarrow> 'o erase_env \<Rightarrow> uid \<Rightarrow> string \<Rightarrow> json \<Rightarrow> 'o site \<Rightarrow> (http_error + anonymize_result) \<times> 'o site" where
  "erase_route L env operatorId playerId body st =
     (let currency = jget body ''currency'';
          reason = jget body ''reason'';
          reason_text = (case reason of Some (JStr r) \<Rightarrow> if length r \<le> 500 then Some r else None | _ \<Rightarrow> None)
      in if length playerId < 1 \<or> 256 < length playerId then (Inl (Bad_request ''invalid_player_id''), st)
         else if \<not> is_body body \<or> currency \<noteq> None \<and> short_text 16 currency = None \<or> reason \<noteq> None \<and> reason_text = None
         then (Inl (Bad_request ''invalid_body''), st)
         else (case anonymizePlayer L env
                 \<lparr>an_operatorId = operatorId, an_playerId = playerId, an_currency = short_text 16 currency,
                  an_actor = ''operator:'' @ operatorId, an_reason = reason_text\<rparr> st of
                 (Inl e, st') \<Rightarrow> (Inl e, st')
               | (Inr r, st') \<Rightarrow> if ar_usersAffected r = 0 then (Inl (Not_found ''player_not_found''), st') else (Inr r, st')))"

section \<open>Dormant players\<close>

record player_group =
  pg_operatorId :: uid
  pg_playerId :: string
  pg_walletIds :: "uid list"
  pg_lastSession :: int

fun add_session :: "game_session \<Rightarrow> player_group list \<Rightarrow> player_group list" where
  "add_session s [] =
     [\<lparr>pg_operatorId = s_operatorId s, pg_playerId = s_playerId s, pg_walletIds = [s_walletId s],
       pg_lastSession = s_createdAt s\<rparr>]"
| "add_session s (g # gs) =
     (if pg_operatorId g = s_operatorId s \<and> pg_playerId g = s_playerId s
      then g\<lparr>pg_walletIds := (if s_walletId s \<in> set (pg_walletIds g) then pg_walletIds g
                              else pg_walletIds g @ [s_walletId s]),
             pg_lastSession := max (pg_lastSession g) (s_createdAt s)\<rparr> # gs
      else g # add_session s gs)"

definition player_groups :: "game_session list \<Rightarrow> player_group list" where
  "player_groups ss = fold add_session ss []"

definition lastBetByWallet :: "'o world \<Rightarrow> uid \<Rightarrow> int option" where
  "lastBetByWallet w i =
     (case map b_createdAt (filter (\<lambda>b. b_walletId b = i) (db_bets w)) of
        [] \<Rightarrow> None | t # ts \<Rightarrow> Some (fold max ts t))"

definition anon_wallet :: "'o world \<Rightarrow> uid \<Rightarrow> bool" where
  "anon_wallet w i \<longleftrightarrow>
     (\<exists>x \<in> set (db_wallets w). w_id x = i \<and>
        (case user_of w x of None \<Rightarrow> False | Some u \<Rightarrow> u_anonymizedAt u \<noteq> None))"

record dormant_player =
  dp_operatorId :: uid
  dp_playerId :: string
  dp_lastActivity :: int

definition last_activity :: "'o world \<Rightarrow> player_group \<Rightarrow> int" where
  "last_activity w g =
     fold (\<lambda>i t. case lastBetByWallet w i of None \<Rightarrow> t | Some b \<Rightarrow> if t < b then b else t)
       (pg_walletIds g) (pg_lastSession g)"

definition findDormantPlayers :: "int \<Rightarrow> 'o world \<Rightarrow> dormant_player list" where
  "findDormantPlayers cutoff w =
     sort_key dp_lastActivity
       (map (\<lambda>g. \<lparr>dp_operatorId = pg_operatorId g, dp_playerId = pg_playerId g, dp_lastActivity = last_activity w g\<rparr>)
         (filter (\<lambda>g. \<not> list_ex (anon_wallet w) (pg_walletIds g) \<and> last_activity w g < cutoff)
           (player_groups (db_sessions w))))"

section \<open>The retention sweep\<close>

datatype cli_value = Flag | Value string

fun parseArgs :: "string list \<Rightarrow> (string \<times> cli_value) list" where
  "parseArgs [] = []"
| "parseArgs (a # as) =
     (if \<not> starts_with a ''--'' then parseArgs as
      else case as of
             [] \<Rightarrow> [(drop 2 a, Flag)]
           | b # bs \<Rightarrow> if starts_with b ''--'' then (drop 2 a, Flag) # parseArgs as
                       else (drop 2 a, Value b) # parseArgs bs)"

text \<open>A later option of the same name overwrites an earlier one.\<close>

definition arg_text :: "(string \<times> cli_value) list \<Rightarrow> string \<Rightarrow> string option" where
  "arg_text args k = (case map_of (rev args) k of Some (Value s) \<Rightarrow> Some s | _ \<Rightarrow> None)"

definition resolveRetentionDays :: "(string \<times> cli_value) list \<Rightarrow> string option \<Rightarrow> string + int" where
  "resolveRetentionDays args env =
     (case (case arg_text args ''days'' of Some d \<Rightarrow> Some d | None \<Rightarrow> env) of
        None \<Rightarrow> Inr 365
      | Some raw \<Rightarrow> (case js_Number raw of
            Fin n \<Rightarrow> if \<not> isInteger n \<or> n < 1 then Inl ''invalid retention window'' else Inr \<lfloor>n\<rfloor>
          | _ \<Rightarrow> Inl ''invalid retention window''))"

definition retention_limit :: "(string \<times> cli_value) list \<Rightarrow> nat option" where
  "retention_limit args =
     (case arg_text args ''limit'' of
        None \<Rightarrow> None
      | Some raw \<Rightarrow> (case js_Number raw of Fin n \<Rightarrow> if isInteger n \<and> 0 \<le> n then Some (nat \<lfloor>n\<rfloor>) else None | _ \<Rightarrow> None))"

record sweep_counts =
  sc_erased :: nat
  sc_noop :: nat
  sc_skipped :: nat
  sc_errors :: nat

definition sweep_input :: "dormant_player \<Rightarrow> string \<Rightarrow> anonymize_input" where
  "sweep_input c reason =
     \<lparr>an_operatorId = dp_operatorId c, an_playerId = dp_playerId c, an_currency = None,
      an_actor = ''retention-sweep'', an_reason = Some reason\<rparr>"

text \<open>One candidate of an applied sweep; any error of one player leaves the others to be processed.\<close>

definition sweep_one ::
  "log_env \<Rightarrow> 'o erase_env \<Rightarrow> (dormant_player \<Rightarrow> string) \<Rightarrow> dormant_player \<Rightarrow>
   sweep_counts \<times> 'o site \<Rightarrow> sweep_counts \<times> 'o site" where
  "sweep_one L env reason c q =
     (case q of (n, st) \<Rightarrow>
        (case anonymizePlayer L env (sweep_input c (reason c)) st of
           (Inr r, st') \<Rightarrow>
             (if ar_usersAffected r = 0 \<or> ar_alreadyAnonymized r then n\<lparr>sc_noop := sc_noop n + 1\<rparr>
              else n\<lparr>sc_erased := sc_erased n + 1\<rparr>, st')
         | (Inl e, st') \<Rightarrow>
             (if e = Bad_request ''player_not_settled'' then n\<lparr>sc_skipped := sc_skipped n + 1\<rparr>
              else n\<lparr>sc_errors := sc_errors n + 1\<rparr>, st')))"

text \<open>The script: \<open>Inl\<close> is an exit with an error, otherwise the counts, with the state after it.\<close>

definition retention_sweep ::
  "log_env \<Rightarrow> 'o erase_env \<Rightarrow> operator_row list \<Rightarrow> (dormant_player \<Rightarrow> string) \<Rightarrow> string list \<Rightarrow> string option \<Rightarrow>
   'o site \<Rightarrow> (string + sweep_counts) \<times> 'o site" where
  "retention_sweep L env ops reason argv days_env st =
     (let args = parseArgs argv;
          none = \<lparr>sc_erased = 0, sc_noop = 0, sc_skipped = 0, sc_errors = 0\<rparr>
      in case resolveRetentionDays args days_env of
           Inl e \<Rightarrow> (Inl e, st)
         | Inr days \<Rightarrow>
             let cutoff = ee_now env - days * 86400000;
                 all = findDormantPlayers cutoff (st_db st);
                 chosen = (case truthy (arg_text args ''operator-code'') of
                             None \<Rightarrow> Inr all
                           | Some c \<Rightarrow> (case find (\<lambda>x. op_code x = c) ops of
                                 None \<Rightarrow> Inl ''no operator with code''
                               | Some x \<Rightarrow> Inr (filter (\<lambda>d. dp_operatorId d = op_id x) all)))
             in (case chosen of
                   Inl e \<Rightarrow> (Inl e, st)
                 | Inr cs \<Rightarrow>
                     if map_of (rev args) ''apply'' \<noteq> Some Flag then (Inr none, st)
                     else let todo = (case retention_limit args of None \<Rightarrow> cs | Some n \<Rightarrow> take n cs)
                          in (case fold (sweep_one L env reason) todo (none, st) of (n, st') \<Rightarrow> (Inr n, st'))))"

definition anonymize_cli ::
  "log_env \<Rightarrow> 'o erase_env \<Rightarrow> operator_row list \<Rightarrow> string list \<Rightarrow> 'o site \<Rightarrow>
   (string + http_error + anonymize_result) \<times> 'o site" where
  "anonymize_cli L env ops argv st =
     (let args = parseArgs argv; text = (\<lambda>k. truthy (arg_text args k))
      in case text ''player-id'' of
           None \<Rightarrow> (Inl ''usage'', st)
         | Some p \<Rightarrow>
             (case (case text ''operator-id'' of
                      Some i \<Rightarrow> Inr i
                    | None \<Rightarrow> (case text ''operator-code'' of
                        None \<Rightarrow> Inl ''usage''
                      | Some c \<Rightarrow> (case find (\<lambda>x. op_code x = c) ops of
                            None \<Rightarrow> Inl ''no operator with code'' | Some x \<Rightarrow> Inr (op_id x)))) of
                Inl e \<Rightarrow> (Inl e, st)
              | Inr i \<Rightarrow>
                  (case anonymizePlayer L env
                      \<lparr>an_operatorId = i, an_playerId = p, an_currency = arg_text args ''currency'',
                       an_actor = ''provision-cli'', an_reason = arg_text args ''reason''\<rparr> st of
                     (r, st') \<Rightarrow> (Inr r, st'))))"

section \<open>Which names a player resolves to\<close>

lemma split_on_nonempty [simp]: "split_on c xs \<noteq> []"
  by (induction xs) (auto split: list.split)

lemma split_on_append_any: "split_on c (xs @ c # ys) = split_on c xs @ split_on c ys"
proof (induction xs)
  case (Cons x xs)
  obtain y ys' where "split_on c xs = y # ys'" by (cases "split_on c xs") auto
  then show ?case using Cons by simp
qed simp

lemma split_on_single: "split_on c xs = [ys] \<Longrightarrow> xs = ys"
  by (induction xs arbitrary: ys) (auto split: if_splits list.splits)

lemma upper_not_demo: "to_upper c = c \<Longrightarrow> c \<noteq> ''demo''"
  using upper_no_o [of c] by auto

lemma SUFFIX_RE_currency: "colon_free c \<Longrightarrow> c \<noteq> [] \<Longrightarrow> SUFFIX_RE (c @ (if d then '':demo'' else []))"
  by (simp add: SUFFIX_RE_def colon_free_def split_on_append split_on_no_sep)

lemma starts_withE: "starts_with s p \<Longrightarrow> s = p @ drop (length p) s"
  unfolding starts_with_def by (metis append_take_drop_id)

lemma session_tag_Cons:
  "session_tag oid p c d = ''op:'' @ oid @ CHR '':'' # p @ CHR '':'' # c @ (if d then '':demo'' else [])"
  by (simp add: session_tag_def tag_base_def)

lemma tag_hits_own: "colon_free c \<Longrightarrow> c \<noteq> [] \<Longrightarrow> tag_hits oid pid (session_tag oid pid c d)"
  using SUFFIX_RE_currency [of c d] by (simp add: tag_hits_def session_tag_def Let_def del: append_assoc)

lemma tag_hits_only:
  assumes hits: "tag_hits oid pid (session_tag oid' p c d)" and cf: "colon_free oid" "colon_free oid'" "colon_free pid"
    "colon_free c" and up: "to_upper c = c"
  shows "oid' = oid \<and> p = pid"
proof -
  define suf where "suf = drop (length (tag_base oid pid)) (session_tag oid' p c d)"
  have "session_tag oid' p c d = tag_base oid pid @ suf" "SUFFIX_RE suf"
    using hits starts_withE by (auto simp: tag_hits_def suf_def Let_def)
  then have "oid' @ CHR '':'' # p @ CHR '':'' # c @ (if d then '':demo'' else []) = oid @ CHR '':'' # pid @ CHR '':'' # suf"
    by (simp add: session_tag_Cons tag_base_def split: if_splits)
  then have e: "oid' = oid" "p @ CHR '':'' # c @ (if d then '':demo'' else []) = pid @ CHR '':'' # suf"
    using append_colon_inj cf(1,2) unfolding colon_free_def by metis+
  then have "split_on CHR '':'' p @ split_on CHR '':'' (c @ (if d then '':demo'' else [])) = pid # split_on CHR '':'' suf"
    using cf(3) by (metis split_on_append_any split_on_append colon_free_def)
  moreover have "split_on CHR '':'' (c @ (if d then '':demo'' else [])) = c # (if d then [''demo''] else [])"
    using cf(4) by (simp add: colon_free_def split_on_append split_on_no_sep)
  moreover obtain x where "split_on CHR '':'' suf = [x] \<or> split_on CHR '':'' suf = [x, ''demo'']"
    using \<open>SUFFIX_RE suf\<close> by (auto simp: SUFFIX_RE_def split: list.splits)
  ultimately have "split_on CHR '':'' p = [pid]"
    using upper_not_demo [OF up] by (cases d; cases "split_on CHR '':'' p") (auto simp: append_eq_Cons_conv)
  then show ?thesis using e(1) split_on_single by fastforce
qed

section \<open>What an erasure changes\<close>

text \<open>\<open>only_scrubbed w v\<close>: the money tables are identical, and users, profiles and sessions differ at most
  in the four scrubbed columns.\<close>

definition only_scrubbed :: "'o world \<Rightarrow> 'o world \<Rightarrow> bool" where
  "only_scrubbed w v \<longleftrightarrow>
     db_wallets v = db_wallets w \<and> db_ledger v = db_ledger w \<and> db_bets v = db_bets w \<and> db_rounds v = db_rounds w \<and>
     db_rollbacks v = db_rollbacks w \<and> operator_state v = operator_state w \<and>
     map (\<lambda>u. u\<lparr>u_username := [], u_anonymizedAt := None\<rparr>) (db_users v) =
       map (\<lambda>u. u\<lparr>u_username := [], u_anonymizedAt := None\<rparr>) (db_users w) \<and>
     map (\<lambda>p. p\<lparr>p_displayName := []\<rparr>) (db_profiles v) = map (\<lambda>p. p\<lparr>p_displayName := []\<rparr>) (db_profiles w) \<and>
     map (\<lambda>s. s\<lparr>s_playerId := []\<rparr>) (db_sessions v) = map (\<lambda>s. s\<lparr>s_playerId := []\<rparr>) (db_sessions w)"

lemma only_scrubbed_refl [simp]: "only_scrubbed w w"
  by (simp add: only_scrubbed_def)

lemma only_scrubbed_scrub: "only_scrubbed w (scrub_world env us ws a w)"
  by (simp add: only_scrubbed_def scrub_world_def scrub_users_def)

text \<open>The outcomes of an erasure.\<close>

lemma anonymize_cases:
  assumes "anonymizePlayer L env i st = (r, st')"
  obtains (same) "st' = st" "\<And>q. r = Inr q \<Longrightarrow> ar_usersAffected q = 0 \<or> ar_alreadyAnonymized q"
  | (aborted) "st' = st\<lparr>st_db := ee_race env (st_db st)\<rparr>" "r = Inl Server_error"
  | (scrubbed) users anonId where
      "anonId = ''anon:'' @ playerTombstone (ee_hashes env) (ee_pepper env) (an_operatorId i) (an_playerId i)"
      "users = resolve_users (an_operatorId i) (an_playerId i) anonId (st_db st)" "users \<noteq> []"
      "\<not> list_all (\<lambda>u. u_anonymizedAt u \<noteq> None) users"
      "\<not> in_flight (map w_id (concat (map (wallets_of (st_db st)) users))) (st_db st)"
      "st_db st' = scrub_world env (map u_id users) (map w_id (concat (map (wallets_of (st_db st)) users))) anonId
          (ee_race env (st_db st))"
      "distinct (map u_username (db_users (st_db st')))"
      "r = Inr \<lparr>ar_alreadyAnonymized = False, ar_usersAffected = length users, ar_scrubbedFields = SCRUBBED_FIELDS\<rparr>"
  using assms that unfolding anonymizePlayer_def Let_def
  by (simp split: if_splits) (force simp: in_flight_def count_where_def)+

text \<open>The users an erasure resolves, and a wallet that owes the player an outcome: a bet in none of the four
  final statuses, or a session that is not revoked.\<close>

definition erased_id :: "'o erase_env \<Rightarrow> anonymize_input \<Rightarrow> string" where
  "erased_id env i = ''anon:'' @ playerTombstone (ee_hashes env) (ee_pepper env) (an_operatorId i) (an_playerId i)"

definition resolved :: "'o erase_env \<Rightarrow> anonymize_input \<Rightarrow> 'o world \<Rightarrow> user list" where
  "resolved env i w = resolve_users (an_operatorId i) (an_playerId i) (erased_id env i) w"

definition unsettled :: "'o world \<Rightarrow> wallet \<Rightarrow> bool" where
  "unsettled w x \<longleftrightarrow>
     (\<exists>b \<in> set (db_bets w). b_walletId b = w_id x \<and> b_status b \<notin> {Cashed_out, Busted, Cancelled, Voided}) \<or>
     (\<exists>s \<in> set (db_sessions w). s_walletId s = w_id x \<and> s_revokedAt s = None)"

lemma non_terminal: "b \<in> set NON_TERMINAL_BET_STATUSES \<longleftrightarrow> b \<notin> {Cashed_out, Busted, Cancelled, Voided}"
  by (cases b) (simp_all add: NON_TERMINAL_BET_STATUSES_def)

lemma unsettled_in_flight:
  assumes "unsettled w x" "w_id x \<in> set ids"
  shows "in_flight ids w"
proof -
  from assms(1) consider b where "b \<in> set (db_bets w)" "b_walletId b = w_id x" "b_status b \<in> set NON_TERMINAL_BET_STATUSES"
    | s where "s \<in> set (db_sessions w)" "s_walletId s = w_id x" "is_live s"
    unfolding unsettled_def non_terminal is_live_def by blast
  then show ?thesis
  proof cases
    case 1
    then have "b \<in> set (filter (\<lambda>b. b_walletId b \<in> set ids \<and> b_status b \<in> set NON_TERMINAL_BET_STATUSES) (db_bets w))"
      using assms(2) by simp
    from length_pos_if_in_set [OF this] show ?thesis by (simp only: in_flight_def count_where_def simp_thms)
  next
    case 2
    then have "s \<in> set (filter (\<lambda>s. s_walletId s \<in> set ids \<and> is_live s) (db_sessions w))" using assms(2) by simp
    from length_pos_if_in_set [OF this] show ?thesis by (simp only: in_flight_def count_where_def simp_thms)
  qed
qed

lemma anonymize_refuses:
  assumes "anonymizePlayer L env i st = (r, st')" "u \<in> set (resolved env i (st_db st))" "u_anonymizedAt u = None"
    and "v \<in> set (resolved env i (st_db st))" "x \<in> set (db_wallets (st_db st))" "w_userId x = u_id v" "unsettled (st_db st) x"
  shows "r = Inl (Bad_request ''player_not_settled'') \<and> st' = st"
proof -
  have "w_id x \<in> set (map w_id (concat (map (wallets_of (st_db st)) (resolved env i (st_db st)))))"
    using assms(4-6) by (force simp: wallets_of_def)
  from unsettled_in_flight [OF assms(7) this] this assms(1-3) show ?thesis
    by (auto simp: anonymizePlayer_def resolved_def erased_id_def Let_def list_all_iff split: if_splits)
qed

text \<open>
  C36. Erasure never touches money and never detaches an obligation. Whatever other transactions commit between
  its checks and its own transaction, and whatever it answers, the database it leaves has the wallets, the
  journal, the bets, the rounds and the rollback outbox that these left, and only the four personal columns
  differ. And it refuses: when any wallet of any user it resolves, in whatever currency or mode, has a bet
  in none of the final statuses or a session that is not revoked, the answer is that the player is not
  settled and nothing at all is written, unless every resolved user had been erased before.
\<close>

theorem erasure_keeps_money:
  assumes "anonymizePlayer L env i st = (r, st')"
  shows "(st' = st \<or> only_scrubbed (ee_race env (st_db st)) (st_db st')) \<and>
    (\<forall>u \<in> set (resolved env i (st_db st)). \<forall>v \<in> set (resolved env i (st_db st)). \<forall>x \<in> set (db_wallets (st_db st)).
       u_anonymizedAt u = None \<longrightarrow> w_userId x = u_id v \<longrightarrow> unsettled (st_db st) x \<longrightarrow>
       r = Inl (Bad_request ''player_not_settled'') \<and> st' = st)"
proof
  show "st' = st \<or> only_scrubbed (ee_race env (st_db st)) (st_db st')"
    using assms by (cases rule: anonymize_cases) (simp_all add: only_scrubbed_scrub)
qed (use anonymize_refuses [OF assms] in blast)

text \<open>
  What a launch leaves behind when operators spell their id as it is stored and names follow the rules of
  the currency table: the tag of every session that is not erased is the canonical one.
\<close>

definition canonical :: "'o world \<Rightarrow> bool" where
  "canonical w \<longleftrightarrow> (\<forall>s \<in> set (db_sessions w). \<forall>c name. wallet_home w (s_walletId s) = Some (c, name) \<longrightarrow>
     starts_with name ''anon:'' \<or>
     name = session_tag (s_operatorId s) (s_playerId s) (s_currency s) (s_demo s) \<and> colon_free (s_operatorId s) \<and>
     colon_free (s_currency s) \<and> s_currency s \<noteq> [] \<and> \<not> starts_with (s_playerId s) ''anon:'')"

lemma key_inj: "distinct (map f xs) \<Longrightarrow> a \<in> set xs \<Longrightarrow> b \<in> set xs \<Longrightarrow> f a = f b \<Longrightarrow> a = b"
  by (auto simp: distinct_map inj_on_def)

lemma one_wallet:
  "keys_ok w \<Longrightarrow> x \<in> set (db_wallets w) \<Longrightarrow> y \<in> set (db_wallets w) \<Longrightarrow> w_userId x = w_userId y \<Longrightarrow> x = y"
  unfolding keys_ok_def using key_inj [of w_userId] by metis

lemma wallet_homeE:
  assumes "wallet_home w i = Some (c, name)"
  obtains x u where "x \<in> set (db_wallets w)" "w_id x = i" "w_currency x = c" "u \<in> set (db_users w)"
    "u_id u = w_userId x" "u_username u = name"
proof -
  from assms obtain x u where x: "find_wallet w i = Some x" "user_of w x = Some u" "w_currency x = c" "u_username u = name"
    by (auto simp: wallet_home_def split: option.splits)
  then have "u \<in> set (db_users w) \<and> u_id u = w_userId x" using find_SomeD by (fastforce simp: user_of_def)
  then show ?thesis using that [of x u] find_wallet_SomeD [OF x(1)] x(3,4) by simp
qed

lemma wallet_home_name:
  assumes "keys_ok w" "wallet_home w (w_id x) = Some (c, name)" "x \<in> set (db_wallets w)" "u \<in> set (db_users w)"
    "w_userId x = u_id u"
  shows "u_username u = name"
proof -
  obtain y v where y: "y \<in> set (db_wallets w)" "w_id y = w_id x" "v \<in> set (db_users w)" "u_id v = w_userId y"
    "u_username v = name"
    using assms(2) by (rule wallet_homeE)
  have "y = x" using key_inj [of w_id "db_wallets w" y x] assms(1,3) y by (simp add: keys_ok_def)
  moreover have "v = u" using key_inj [of u_id "db_users w" v u] assms y calculation by (simp add: keys_ok_def)
  ultimately show ?thesis using y by simp
qed

lemma tag_hits_not_anon:
  assumes "tag_hits oid pid name"
  shows "\<not> starts_with name ''anon:''"
proof -
  have "name = tag_base oid pid @ drop (length (tag_base oid pid)) name"
    using assms starts_withE by (simp add: tag_hits_def Let_def)
  then obtain rest where "name = CHR ''o'' # rest" by (simp add: tag_base_def)
  then show ?thesis by (simp add: starts_with_def)
qed

lemma hits_tag_only:
  assumes "session_inv w" "canonical w" "s \<in> set (db_sessions w)" "colon_free oid" "colon_free pid"
    "wallet_home w (s_walletId s) = Some (c, name)" "tag_hits oid pid name"
  shows "s_operatorId s = oid \<and> s_playerId s = pid"
proof -
  have "\<not> starts_with name ''anon:''" by (rule tag_hits_not_anon [OF assms(7)])
  then have "name = session_tag (s_operatorId s) (s_playerId s) (s_currency s) (s_demo s)" "colon_free (s_operatorId s)"
    "colon_free (s_currency s)"
    using assms(2,3,6) by (auto simp: canonical_def)
  moreover have "to_upper (s_currency s) = s_currency s"
    using assms(1,3) by (auto simp: session_inv_def session_home_def)
  ultimately show ?thesis using tag_hits_only assms(4,5,7) by metis
qed

text \<open>The sessions on the wallets an erasure resolves are exactly those of the player, erased ones included.\<close>

lemma resolved_sessions:
  assumes inv: "session_inv w" "canonical w" and s: "s \<in> set (db_sessions w)"
    and names: "colon_free oid" "colon_free pid" "\<not> starts_with pid ''anon:''" "to_lower oid = oid" "starts_with anonId ''anon:''"
    and u: "u \<in> set (resolve_users oid pid anonId w)" "x \<in> set (wallets_of w u)" "w_id x = s_walletId s"
  shows "s_operatorId s = oid \<and> (s_playerId s = pid \<or> s_playerId s = anonId)"
proof -
  have k: "keys_ok w" "session_home w s" using inv(1) s by (auto simp: session_inv_def)
  obtain name where home: "wallet_home w (s_walletId s) = Some (s_currency s, name)"
    using k(2) by (auto simp: session_home_def)
  have x: "x \<in> set (db_wallets w)" "w_userId x = u_id u" "u \<in> set (db_users w)"
    using u(1,2) by (auto simp: wallets_of_def resolve_users_def live_users_def anon_users_def Let_def)
  have name: "u_username u = name" using wallet_home_name k(1) home x u(3) by metis
  show ?thesis
  proof (cases "tag_hits oid pid (u_username u)")
    case True
    then show ?thesis using hits_tag_only inv s names(1,2) home name by metis
  next
    case False
    then have "u \<in> set (anon_users oid anonId w)"
      using u(1) by (auto simp: resolve_users_def live_users_def Let_def)
    then obtain t y where t: "t \<in> set (db_sessions w)" "s_operatorId t = oid" "s_playerId t = anonId"
      "y \<in> set (wallets_of w u)" "w_id y = s_walletId t"
      using names(4) by (auto simp: anon_users_def Let_def)
    then have "x = y" using one_wallet [OF k(1) x(1), of y] x(2) by (auto simp: wallets_of_def)
    then have "same_route s t" using inv(1) s t u(3) by (auto simp: session_inv_def)
    then show ?thesis using t by (simp add: same_route_def)
  qed
qed

lemma sessions_resolved:
  assumes inv: "session_inv w" "canonical w" and s: "s \<in> set (db_sessions w)" "s_operatorId s = oid" "s_playerId s = pid"
    and names: "\<not> starts_with pid ''anon:''"
  shows "\<exists>u \<in> set (resolve_users oid pid anonId w). \<exists>x \<in> set (wallets_of w u). w_id x = s_walletId s"
proof -
  obtain name where home: "wallet_home w (s_walletId s) = Some (s_currency s, name)" "at_home s name"
    using inv(1) s(1) by (auto simp: session_inv_def session_home_def)
  then have "name = session_tag oid pid (s_currency s) (s_demo s)" "colon_free (s_currency s)" "s_currency s \<noteq> []"
    using inv(2) s names by (auto simp: canonical_def at_home_def tag_not_anon)
  then have hits: "tag_hits oid pid name" using tag_hits_own by simp
  obtain x u where x: "x \<in> set (db_wallets w)" "w_id x = s_walletId s" "u \<in> set (db_users w)" "u_id u = w_userId x"
    "u_username u = name"
    using home(1) by (rule wallet_homeE)
  then have "u \<in> set (resolve_users oid pid anonId w)" "x \<in> set (wallets_of w u)"
    using hits by (auto simp: resolve_users_def live_users_def wallets_of_def Let_def)
  then show ?thesis using x(2) by blast
qed

text \<open>The row of a user and of a profile after an erasure.\<close>

definition erased_user :: "'o erase_env \<Rightarrow> user \<Rightarrow> user" where
  "erased_user env u = u\<lparr>u_username := ''anon:'' @ tombstone (ee_hashes env) (ee_pepper env) (u_id u),
     u_anonymizedAt := Some (ee_now env)\<rparr>"

text \<open>The users of a player: those that carry one of its tags, and those that hold the wallet of one of its
  sessions, erased or not.\<close>

definition user_of_player :: "uid \<Rightarrow> string \<Rightarrow> string \<Rightarrow> 'o world \<Rightarrow> user \<Rightarrow> bool" where
  "user_of_player oid pid anonId w u \<longleftrightarrow>
     (\<exists>c d. colon_free c \<and> c \<noteq> [] \<and> u_username u = session_tag oid pid c d) \<or>
     (\<exists>s \<in> set (db_sessions w). s_operatorId s = oid \<and> s_playerId s \<in> {pid, anonId} \<and>
        (\<exists>x \<in> set (db_wallets w). w_id x = s_walletId s \<and> w_userId x = u_id u))"

lemma SUFFIX_RE_cases:
  assumes "SUFFIX_RE s"
  obtains c d where "colon_free c" "c \<noteq> []" "s = c @ (if d then '':demo'' else [])"
proof -
  have join: "s = concat (map (\<lambda>x. x @ '':'') (butlast (split_on CHR '':'' s))) @ last (split_on CHR '':'' s)" for s
    by (induction s) (auto split: list.split)
  have free: "\<forall>p \<in> set (split_on CHR '':'' s). colon_free p" for s
    by (induction s) (auto simp: colon_free_def split: list.splits if_splits)
  show ?thesis
  proof (cases "split_on CHR '':'' s")
    case (Cons c ds)
    then have "ds = [] \<or> ds = [''demo'']" "c \<noteq> []" using assms by (auto simp: SUFFIX_RE_def split: list.splits)
    then show ?thesis using that [of c "ds \<noteq> []"] join [of s] free [of s] Cons by auto
  qed simp
qed

lemma tag_hits_iff: "tag_hits oid pid name \<longleftrightarrow> (\<exists>c d. colon_free c \<and> c \<noteq> [] \<and> name = session_tag oid pid c d)"
proof
  assume "tag_hits oid pid name"
  then have "name = tag_base oid pid @ drop (length (tag_base oid pid)) name" "SUFFIX_RE (drop (length (tag_base oid pid)) name)"
    using starts_withE by (auto simp: tag_hits_def Let_def)
  then show "\<exists>c d. colon_free c \<and> c \<noteq> [] \<and> name = session_tag oid pid c d"
    by (metis SUFFIX_RE_cases session_tag_def)
qed (use tag_hits_own in blast)

lemma resolved_iff:
  assumes inv: "session_inv w" "canonical w" and low: "to_lower oid = oid" and pid: "\<not> starts_with pid ''anon:''"
    and u: "u \<in> set (db_users w)"
  shows "u \<in> set (resolve_users oid pid anonId w) \<longleftrightarrow> user_of_player oid pid anonId w u"
proof -
  have k: "keys_ok w" using inv(1) by (simp add: session_inv_def)
  have same: "v = u" if "v \<in> set (db_users w)" "u_id v = u_id u" for v
    using key_inj [of u_id "db_users w" v u] k that u by (simp add: keys_ok_def)
  have anon: "u \<in> set (anon_users oid anonId w) \<longleftrightarrow>
      (\<exists>s \<in> set (db_sessions w). s_operatorId s = oid \<and> s_playerId s = anonId \<and>
        (\<exists>x \<in> set (db_wallets w). w_id x = s_walletId s \<and> w_userId x = u_id u))"
    using low u by (force simp: anon_users_def wallets_of_def Let_def)
  have live: "u \<in> set (resolve_users oid pid anonId w)"
    if s: "s \<in> set (db_sessions w)" "s_operatorId s = oid" "s_playerId s = pid" "x \<in> set (db_wallets w)" "w_id x = s_walletId s"
      "w_userId x = u_id u" for s x
  proof -
    obtain v y where v: "v \<in> set (resolve_users oid pid anonId w)" "y \<in> set (wallets_of w v)" "w_id y = s_walletId s"
      using sessions_resolved [OF inv s(1-3) pid] by blast
    then have "y = x" using key_inj [of w_id "db_wallets w" y x] k s(4,5) by (auto simp: keys_ok_def wallets_of_def)
    then have "u_id v = u_id u" "v \<in> set (db_users w)"
      using v s(6) by (auto simp: wallets_of_def resolve_users_def live_users_def anon_users_def Let_def)
    then show ?thesis using same v(1) by auto
  qed
  have tag: "u \<in> set (live_users oid pid w) \<longleftrightarrow> tag_hits oid pid (u_username u)" using u by (simp add: live_users_def)
  have "u \<in> set (live_users oid pid w)" if "u_id u \<in> u_id ` set (live_users oid pid w)"
  proof -
    obtain v where v: "v \<in> set (live_users oid pid w)" "u_id v = u_id u" using \<open>u_id u \<in> _\<close> by auto
    then have "v = u" using same by (simp add: live_users_def)
    then show ?thesis using v by simp
  qed
  then have iff: "u \<in> set (resolve_users oid pid anonId w) \<longleftrightarrow> tag_hits oid pid (u_username u) \<or> u \<in> set (anon_users oid anonId w)"
    by (auto simp: resolve_users_def tag Let_def)
  show ?thesis
  proof
    assume "u \<in> set (resolve_users oid pid anonId w)"
    then show "user_of_player oid pid anonId w u" using anon unfolding iff user_of_player_def tag_hits_iff by blast
  next
    assume "user_of_player oid pid anonId w u"
    then consider "tag_hits oid pid (u_username u)"
      | s x where "s \<in> set (db_sessions w)" "s_operatorId s = oid" "s_playerId s = pid \<or> s_playerId s = anonId"
        "x \<in> set (db_wallets w)" "w_id x = s_walletId s" "w_userId x = u_id u"
      unfolding user_of_player_def tag_hits_iff by blast
    then show "u \<in> set (resolve_users oid pid anonId w)"
    proof cases
      case 2
      then show ?thesis using live [OF 2(1,2)] anon iff by blast
    qed (simp add: iff)
  qed
qed

text \<open>The whole database an erasure leaves, when what commits beside it is play: no user, wallet, profile or
  session is written meanwhile.\<close>

definition only_play :: "('o world \<Rightarrow> 'o world) \<Rightarrow> 'o world \<Rightarrow> bool" where
  "only_play race w \<longleftrightarrow> db_users (race w) = db_users w \<and> db_wallets (race w) = db_wallets w \<and>
     db_sessions (race w) = db_sessions w \<and> db_profiles (race w) = db_profiles w"

lemma erased_tables_all:
  assumes run: "anonymizePlayer L env i st = (Inr q, st')" "ar_usersAffected q \<noteq> 0" "\<not> ar_alreadyAnonymized q"
    and play: "only_play (ee_race env) (st_db st)"
    and inv: "session_inv (st_db st)" "canonical (st_db st)"
    and names: "colon_free (an_operatorId i)" "to_lower (an_operatorId i) = an_operatorId i" "colon_free (an_playerId i)"
      "\<not> starts_with (an_playerId i) ''anon:''"
  defines "hit \<equiv> user_of_player (an_operatorId i) (an_playerId i) (erased_id env i) (st_db st)"
  shows "db_users (st_db st') = update_where hit (erased_user env) (db_users (st_db st)) \<and>
    db_profiles (st_db st') = update_where (\<lambda>p. \<exists>u \<in> set (db_users (st_db st)). u_id u = p_userId p \<and> hit u)
      (\<lambda>p. p\<lparr>p_displayName := ''anon''\<rparr>) (db_profiles (st_db st)) \<and>
    db_sessions (st_db st') =
      update_where (\<lambda>s. s_operatorId s = an_operatorId i \<and> s_playerId s = an_playerId i)
        (\<lambda>s. s\<lparr>s_playerId := erased_id env i\<rparr>) (db_sessions (st_db st)) \<and>
    db_wallets (st_db st') = db_wallets (st_db st)"
  using run(1)
proof (cases rule: anonymize_cases)
  case (scrubbed users anonId)
  define w where "w = st_db st"
  define walletIds where "walletIds = map w_id (concat (map (wallets_of w) users))"
  have anonId: "anonId = erased_id env i" by (simp add: scrubbed(1) erased_id_def)
  have v: "st_db st' = scrub_world env (map u_id users) walletIds anonId (ee_race env w)"
    using scrubbed(6) by (simp add: w_def walletIds_def)
  have anon: "starts_with anonId ''anon:''" by (simp add: scrubbed(1) starts_with_def)
  have k: "keys_ok w" using inv(1) by (simp add: session_inv_def w_def)
  have users: "set users \<subseteq> set (db_users w)"
    by (auto simp: scrubbed(2) w_def resolve_users_def live_users_def anon_users_def Let_def)
  have hit: "u_id u \<in> u_id ` set users \<longleftrightarrow> hit u" if "u \<in> set (db_users w)" for u
  proof -
    have "u \<in> set users" if "u_id u \<in> u_id ` set users"
    proof -
      obtain v where v: "v \<in> set users" "u_id v = u_id u" using \<open>u_id u \<in> _\<close> by auto
      then have "v = u" using key_inj [of u_id "db_users w" v u] k users \<open>u \<in> set (db_users w)\<close> by (auto simp: keys_ok_def)
      then show ?thesis using v by simp
    qed
    then have "u_id u \<in> u_id ` set users \<longleftrightarrow> u \<in> set users" by auto
    then show ?thesis
      using resolved_iff [OF inv names(2,4), of u anonId] that by (simp add: scrubbed(2) hit_def anonId w_def)
  qed
  have 1: "db_users (st_db st') = update_where hit (erased_user env) (db_users (st_db st))"
    using play hit by (auto simp: v scrub_world_def scrub_users_def update_where_def only_play_def w_def erased_user_def)
  have "(p_userId p \<in> set (map u_id users)) = (\<exists>u \<in> set (db_users w). u_id u = p_userId p \<and> hit u)" for p
    using hit users by (force simp: image_iff)
  then have mine: "(\<lambda>p. p_userId p \<in> set (map u_id users)) = (\<lambda>p. \<exists>u \<in> set (db_users w). u_id u = p_userId p \<and> hit u)"
    by (intro ext)
  have "db_profiles (st_db st') = update_where (\<lambda>p. p_userId p \<in> set (map u_id users))
      (\<lambda>p. p\<lparr>p_displayName := ''anon''\<rparr>) (db_profiles (st_db st))"
    using play by (simp add: v scrub_world_def only_play_def w_def)
  then have 2: "db_profiles (st_db st') = update_where (\<lambda>p. \<exists>u \<in> set (db_users (st_db st)). u_id u = p_userId p \<and> hit u)
      (\<lambda>p. p\<lparr>p_displayName := ''anon''\<rparr>) (db_profiles (st_db st))"
    by (simp only: mine w_def)
  have mem: "s_walletId s \<in> set walletIds \<longleftrightarrow>
      (\<exists>u \<in> set users. \<exists>x \<in> set (wallets_of w u). w_id x = s_walletId s)" for s
    by (auto simp: walletIds_def image_iff) metis+
  have "(if s_walletId s \<in> set walletIds then s\<lparr>s_playerId := anonId\<rparr> else s) =
      (if s_operatorId s = an_operatorId i \<and> s_playerId s = an_playerId i then s\<lparr>s_playerId := anonId\<rparr> else s)"
    if s: "s \<in> set (db_sessions w)" for s
  proof (cases "s_walletId s \<in> set walletIds")
    case True
    then have "s_operatorId s = an_operatorId i \<and> (s_playerId s = an_playerId i \<or> s_playerId s = anonId)"
      using resolved_sessions [OF _ _ s names(1,3,4,2) anon] inv mem [of s] scrubbed(2) by (auto simp: w_def)
    then show ?thesis using True by auto
  next
    case False
    then have "\<not> (s_operatorId s = an_operatorId i \<and> s_playerId s = an_playerId i)"
      using sessions_resolved [OF _ _ s _ _ names(4), of "an_operatorId i" anonId] inv mem [of s] scrubbed(2)
      by (auto simp: w_def)
    then show ?thesis using False by auto
  qed
  then have "update_where (\<lambda>s. s_walletId s \<in> set walletIds) (\<lambda>s. s\<lparr>s_playerId := anonId\<rparr>) (db_sessions w) =
      update_where (\<lambda>s. s_operatorId s = an_operatorId i \<and> s_playerId s = an_playerId i) (\<lambda>s. s\<lparr>s_playerId := anonId\<rparr>)
        (db_sessions w)"
    unfolding update_where_def by (rule map_cong [OF refl])
  then have 3: "db_sessions (st_db st') =
      update_where (\<lambda>s. s_operatorId s = an_operatorId i \<and> s_playerId s = an_playerId i)
        (\<lambda>s. s\<lparr>s_playerId := erased_id env i\<rparr>) (db_sessions (st_db st))"
    using play by (simp add: v scrub_world_def only_play_def w_def anonId)
  have 4: "db_wallets (st_db st') = db_wallets (st_db st)" using play by (simp add: v scrub_world_def only_play_def w_def)
  show ?thesis using 1 2 3 4 by blast
qed (use run in auto)

lemmas erased_tables = erased_tables_all [THEN conjunct1] erased_tables_all [THEN conjunct2, THEN conjunct1]
  erased_tables_all [THEN conjunct2, THEN conjunct2, THEN conjunct1] erased_tables_all [THEN conjunct2, THEN conjunct2, THEN conjunct2]

lemma erased_name_no_tag: "\<not> tag_hits oid pid (u_username (erased_user env u))"
  using tag_hits_not_anon [of oid pid "u_username (erased_user env u)"] by (auto simp: erased_user_def starts_with_def)

text \<open>Every user that the same request resolves afterwards is marked as erased.\<close>

lemma erased_resolved:
  assumes run: "anonymizePlayer L env i st = (Inr q, st')" "ar_usersAffected q \<noteq> 0" "\<not> ar_alreadyAnonymized q"
    and play: "only_play (ee_race env) (st_db st)"
    and inv: "session_inv (st_db st)" "canonical (st_db st)"
    and names: "colon_free (an_operatorId i)" "to_lower (an_operatorId i) = an_operatorId i" "colon_free (an_playerId i)"
      "\<not> starts_with (an_playerId i) ''anon:''"
    and u: "u \<in> set (resolve_users (an_operatorId i) (an_playerId i) (erased_id env i) (st_db st'))"
  shows "u_anonymizedAt u \<noteq> None"
proof -
  let ?hit = "user_of_player (an_operatorId i) (an_playerId i) (erased_id env i) (st_db st)"
  note tables = erased_tables [OF run play inv names]
  from u have "u \<in> set (db_users (st_db st'))" by (auto simp: resolve_users_def live_users_def anon_users_def Let_def)
  then obtain v where v: "v \<in> set (db_users (st_db st))" "u = (if ?hit v then erased_user env v else v)"
    unfolding tables(1) update_where_def by auto
  have "?hit v"
  proof (rule ccontr)
    assume no: "\<not> ?hit v"
    then have "\<not> tag_hits (an_operatorId i) (an_playerId i) (u_username u)"
      using v by (auto simp: user_of_player_def tag_hits_iff)
    then have "u \<in> set (anon_users (an_operatorId i) (erased_id env i) (st_db st'))"
      using u by (auto simp: resolve_users_def live_users_def Let_def)
    then obtain s x where "s \<in> set (db_sessions (st_db st'))" "s_operatorId s = an_operatorId i" "s_playerId s = erased_id env i"
      "x \<in> set (db_wallets (st_db st))" "w_userId x = u_id u" "w_id x = s_walletId s"
      using names(2) by (auto simp: anon_users_def wallets_of_def tables(4) Let_def)
    then show False
      using no v unfolding tables(3) by (auto simp: update_where_def user_of_player_def split: if_splits)
  qed
  then show ?thesis using v(2) by (simp add: erased_user_def)
qed

text \<open>
  C35. Erasing a player by id is exact. On a database whose sessions are at home and whose tags are canonical, with
  nothing but play committed meanwhile, a successful erasure of a player whose id has no colon rewrites the
  player id of the sessions of that operator and player, all of them, in every currency and in both modes,
  and of no other session of any operator; it renames and marks the users that carry one of the player's
  tags or hold the wallet of one of its sessions, and the profiles of these, and no other user or profile;
  and the same request made again, on whatever clock, writes nothing.
\<close>

theorem erasure_is_exact:
  assumes run: "anonymizePlayer L env i st = (Inr q, st')" "ar_usersAffected q \<noteq> 0" "\<not> ar_alreadyAnonymized q"
    and play: "only_play (ee_race env) (st_db st)"
    and inv: "session_inv (st_db st)" "canonical (st_db st)"
    and names: "colon_free (an_operatorId i)" "to_lower (an_operatorId i) = an_operatorId i" "colon_free (an_playerId i)"
      "\<not> starts_with (an_playerId i) ''anon:''"
    and again: "ee_hashes env2 = ee_hashes env" "ee_pepper env2 = ee_pepper env"
  shows "db_sessions (st_db st') =
      map (\<lambda>s. if s_operatorId s = an_operatorId i \<and> s_playerId s = an_playerId i then s\<lparr>s_playerId := erased_id env i\<rparr> else s)
        (db_sessions (st_db st)) \<and>
    db_users (st_db st') =
      map (\<lambda>u. if user_of_player (an_operatorId i) (an_playerId i) (erased_id env i) (st_db st) u then erased_user env u else u)
        (db_users (st_db st)) \<and>
    db_profiles (st_db st') =
      map (\<lambda>p. if \<exists>u \<in> set (db_users (st_db st)). u_id u = p_userId p \<and>
            user_of_player (an_operatorId i) (an_playerId i) (erased_id env i) (st_db st) u
          then p\<lparr>p_displayName := ''anon''\<rparr> else p) (db_profiles (st_db st)) \<and>
    snd (anonymizePlayer L2 env2 i st') = st' \<and> (\<exists>q2. fst (anonymizePlayer L2 env2 i st') = Inr q2)"
proof -
  note tables = erased_tables [OF run play inv names]
  have "erased_id env2 i = erased_id env i" by (simp add: erased_id_def again)
  then have "list_all (\<lambda>u. u_anonymizedAt u \<noteq> None)
      (resolve_users (an_operatorId i) (an_playerId i) (erased_id env2 i) (st_db st'))"
    using erased_resolved [OF run play inv names] by (simp add: list_all_iff del: not_None_eq)
  then have "snd (anonymizePlayer L2 env2 i st') = st' \<and> (\<exists>q2. fst (anonymizePlayer L2 env2 i st') = Inr q2)"
    by (simp add: anonymizePlayer_def erased_id_def Let_def)
  then show ?thesis using tables(1-3) by (simp add: update_where_def)
qed

end
