(* ===== verification/VR_SessionRun.thy ===== *)
theory VR_SessionRun
  imports VR_Erasure
begin

text \<open>
  Runs of the account side: launches, guests, revocations, reality checks, erasures and the money moves in
  between, in any order. \<open>session_step\<close> is one request against the state of sessions and audit log; the
  theorems are what holds after any number of them.
\<close>

section \<open>Erasure keeps the session invariant\<close>

lemma scrub_user_of:
  "user_of (scrub_world env us ws a w) x =
     map_option (\<lambda>u. if u_id u \<in> set us then u\<lparr>u_username := ''anon:'' @ tombstone (ee_hashes env) (ee_pepper env) (u_id u),
         u_anonymizedAt := Some (ee_now env)\<rparr> else u) (user_of w x)"
proof -
  have "find (\<lambda>u. u_id u = k) (scrub_users env us xs) =
     map_option (\<lambda>u. if u_id u \<in> set us then u\<lparr>u_username := ''anon:'' @ tombstone (ee_hashes env) (ee_pepper env) (u_id u),
         u_anonymizedAt := Some (ee_now env)\<rparr> else u) (find (\<lambda>u. u_id u = k) xs)" for k xs
    unfolding scrub_users_def by (induction xs) auto
  then show ?thesis by (simp add: user_of_def scrub_world_def)
qed

lemma scrub_find_wallet: "find_wallet (scrub_world env us ws a w) = find_wallet w"
  by (simp add: find_wallet_def scrub_world_def fun_eq_iff)

lemma scrub_home:
  assumes "wallet_home w i = Some (c, name)" "keys_ok w"
    "\<And>x. x \<in> set (db_wallets w) \<Longrightarrow> w_id x \<in> set ws \<longleftrightarrow> w_userId x \<in> set us"
  shows "\<exists>name'. wallet_home (scrub_world env us ws a w) i = Some (c, name') \<and>
    (if i \<in> set ws then starts_with name' ''anon:'' else name' = name)"
proof -
  obtain x u where x: "find_wallet w i = Some x" "user_of w x = Some u" "w_currency x = c" "u_username u = name"
    using assms(1) by (auto simp: wallet_home_def split: option.splits)
  have "u_id u = w_userId x" using x(2) find_SomeD by (fastforce simp: user_of_def)
  moreover have "x \<in> set (db_wallets w)" "w_id x = i" using find_wallet_SomeD [OF x(1)] by simp_all
  ultimately show ?thesis
    using x assms(3) [of x]
    by (auto simp: wallet_home_def scrub_user_of scrub_find_wallet starts_with_def)
qed

lemma scrub_inv:
  assumes inv: "session_inv w"
    and names: "distinct (map u_username (db_users (scrub_world env us ws a w)))"
    and ws: "\<And>x. x \<in> set (db_wallets w) \<Longrightarrow> w_id x \<in> set ws \<longleftrightarrow> w_userId x \<in> set us"
    and a: "starts_with a ''anon:''"
  shows "session_inv (scrub_world env us ws a w)"
proof -
  define v where "v = scrub_world env us ws a w"
  define g where "g s = (if s_walletId s \<in> set ws then s\<lparr>s_playerId := a\<rparr> else s)" for s :: game_session
  have d: "db_sessions v = map g (db_sessions w)" "db_wallets v = db_wallets w" "map u_id (db_users v) = map u_id (db_users w)"
    by (simp_all add: v_def scrub_world_def scrub_users_def update_where_def g_def comp_def)
  have k: "s_id (g s) = s_id s" "s_launchJti (g s) = s_launchJti s" "s_walletId (g s) = s_walletId s"
    "s_currency (g s) = s_currency s" for s
    by (simp_all add: g_def)
  have keys: "keys_ok v"
    using inv names unfolding session_inv_def keys_ok_def v_def [symmetric] d by (simp add: comp_def k)
  have home: "session_home v (g s)" if s: "session_home w s" for s
  proof -
    obtain name where n: "wallet_home w (s_walletId s) = Some (s_currency s, name)" "at_home s name" "to_upper (s_currency s) = s_currency s"
      using s by (auto simp: session_home_def)
    then obtain name' where n': "wallet_home v (s_walletId s) = Some (s_currency s, name')"
      "if s_walletId s \<in> set ws then starts_with name' ''anon:'' else name' = name"
      using scrub_home [OF n(1) _ ws, of env a] inv by (auto simp: session_inv_def v_def)
    have "at_home (g s) name'" using n(2) n'(2) a by (auto simp: at_home_def g_def)
    then show ?thesis using n(3) n'(1) by (auto simp: session_home_def k)
  qed
  have "same_route (g s) (g t)" if "same_route s t" "s_walletId s = s_walletId t" for s t
    using that by (simp add: g_def same_route_def)
  then show ?thesis
    using inv keys home unfolding v_def [symmetric] session_inv_def d by (simp add: k)
qed

lemma session_inv_erase:
  assumes "session_inv (st_db st)" "ee_race env = id"
  shows "session_inv (st_db (snd (anonymizePlayer L env i st)))"
proof -
  obtain r st' where run: "anonymizePlayer L env i st = (r, st')" by force
  then show ?thesis
  proof (cases rule: anonymize_cases)
    case (scrubbed users anonId)
    let ?w = "st_db st"
    have sub: "set users \<subseteq> set (db_users ?w)"
      by (auto simp: scrubbed(2) resolve_users_def live_users_def anon_users_def Let_def)
    have "w_id x \<in> set (map w_id (concat (map (wallets_of ?w) users))) \<longleftrightarrow> w_userId x \<in> set (map u_id users)"
      if x: "x \<in> set (db_wallets ?w)" for x
    proof
      assume "w_id x \<in> set (map w_id (concat (map (wallets_of ?w) users)))"
      then obtain y u where y: "y \<in> set (db_wallets ?w)" "w_id y = w_id x" "u \<in> set users" "w_userId y = u_id u"
        by (auto simp: wallets_of_def)
      then have "y = x" using key_inj [of w_id "db_wallets ?w" y x] x assms(1) by (simp add: session_inv_def keys_ok_def)
      then show "w_userId x \<in> set (map u_id users)" using y by simp
    next
      assume "w_userId x \<in> set (map u_id users)"
      then show "w_id x \<in> set (map w_id (concat (map (wallets_of ?w) users)))"
        using x by (force simp: wallets_of_def)
    qed
    then show ?thesis
      using scrub_inv [OF assms(1), of env "map u_id users" "map w_id (concat (map (wallets_of ?w) users))" anonId]
        scrubbed assms(2) by (simp add: run starts_with_def)
  qed (use assms run in simp_all)
qed

section \<open>Runs\<close>

text \<open>
  The parameters are the JWT library and the operator table. A money step is anything that leaves users,
  sessions and the owners of wallets alone.
\<close>

inductive session_step :: "jwt \<Rightarrow> operator_row list \<Rightarrow> 'o site \<Rightarrow> 'o site \<Rightarrow> bool" for J ops where
  Launch: "open_ok env (st_db st) \<Longrightarrow>
     session_step J ops st (st\<lparr>st_db := snd (openFromToken J env ops token (st_db st))\<rparr>)"
| Guest: "i \<notin> u_id ` set (db_users (st_db st)) \<Longrightarrow> i \<notin> w_userId ` set (db_wallets (st_db st)) \<Longrightarrow>
     walletId \<notin> w_id ` set (db_wallets (st_db st)) \<Longrightarrow>
     session_step J ops st (st\<lparr>st_db := snd (createGuest i walletId (st_db st))\<rparr>)"
| Revoke_wallet: "session_step J ops st (snd (close_route L now walletId st))"
| Revoke_player: "session_step J ops st (snd (revokeForOperatorPlayer L now oid p c st))"
| Check_fired: "session_step J ops st (st\<lparr>st_db := markRealityCheckPending now sid due (st_db st)\<rparr>)"
| Check_acked: "session_step J ops st (st\<lparr>st_db := ackRealityCheck now sid due (st_db st)\<rparr>)"
| Erase: "ee_race env = id \<Longrightarrow> session_step J ops st (snd (anonymizePlayer L env i st))"
| Money: "same_accounts (st_db st) w \<Longrightarrow> session_step J ops st (st\<lparr>st_db := w\<rparr>)"

lemma session_step_inv: "session_step J ops st st' \<Longrightarrow> session_inv (st_db st) \<Longrightarrow> session_inv (st_db st')"
proof (induction rule: session_step.induct)
  case (Revoke_wallet st L now walletId)
  then show ?case by (simp add: close_route_def session_inv_revoke split: option.split)
qed (simp_all add: session_inv_open session_inv_guest session_inv_revoke_player session_inv_mark session_inv_ack
      session_inv_erase session_inv_same_accounts)

definition session_steps :: "jwt \<Rightarrow> operator_row list \<Rightarrow> 'o site \<Rightarrow> 'o site \<Rightarrow> bool" where
  "session_steps J ops = (session_step J ops)\<^sup>*\<^sup>*"

lemma session_steps_inv: "session_steps J ops st st' \<Longrightarrow> session_inv (st_db st) \<Longrightarrow> session_inv (st_db st')"
  unfolding session_steps_def by (induction rule: rtranclp_induct) (auto intro: session_step_inv)

section \<open>No session disappears or comes back to life\<close>

lemma sessions_kept_map:
  assumes "db_sessions v = map g (db_sessions w)" "\<And>s. s_id (g s) = s_id s" "\<And>s. s_launchJti (g s) = s_launchJti s"
    "\<And>s. is_live (g s) \<Longrightarrow> is_live s"
  shows "sessions_kept w v"
  using assms by (auto simp: sessions_kept_def)

lemma sessions_kept_update:
  assumes "\<And>s. s_id (f s) = s_id s" "\<And>s. s_launchJti (f s) = s_launchJti s" "\<And>s. is_live (f s) \<Longrightarrow> is_live s"
  shows "sessions_kept w (session_update P f w)"
  by (rule sessions_kept_map [of _ "\<lambda>s. if P s then f s else s"])
    (use assms in \<open>auto simp: session_update_def update_where_def split: if_splits\<close>)

lemma sessions_kept_open: "session_inv w \<Longrightarrow> open_ok env w \<Longrightarrow> sessions_kept w (snd (openFromToken J env ops token w))"
proof -
  assume inv: "session_inv w" and ok: "open_ok env w"
  have 1: "sessions_kept w w1 \<and> session_inv w1 \<and> oe_sessionId env \<notin> session_ids w1"
    if "open_wallet env p currency tag w = (r, w1)" for p currency tag r w1
    using open_wallet_inv [OF inv ok that] that inv ok
    by (auto simp: open_wallet_def open_ok_def home_race_def add_user_def sessions_kept_def Let_def split: option.splits if_splits)
  have grow: "sessions_kept u (u\<lparr>db_sessions := db_sessions u @ ss\<rparr>)" for u :: "'a world" and ss
    by (auto simp: sessions_kept_def)
  have reset: "sessions_kept u (snd (ledger_resetTo id id u i n k ref))" for u :: "'a world" and i n k ref
    using resetTo_accounts [of u i n k ref] by (auto simp: same_accounts_def sessions_kept_def)
  have 2: "sessions_kept w1 (snd (open_session env ops v currency x w1))"
    if "session_inv w1" "oe_sessionId env \<notin> session_ids w1" for v currency x w1
  proof -
    have "sessions_kept w1 (oe_race2 env w1)" using ok that by (auto simp: open_ok_def home_race_def)
    then show ?thesis
      using sessions_kept_trans [OF _ grow] sessions_kept_trans [OF sessions_kept_trans [OF _ grow] reset]
      by (simp add: open_session_def Let_def split_beta split: sum.split)
  qed
  show ?thesis
    using 1 2 sessions_kept_trans by (simp add: openFromToken_def Let_def split: sum.split prod.split) blast
qed

lemma sessions_kept_revoke: "sessions_kept (st_db st) (st_db (snd (revokeForWallet L now i st)))"
  unfolding st_db_revoke by (rule sessions_kept_update) (auto simp: is_live_def)

lemma sessions_kept_revoke_wallets: "sessions_kept (st_db st) (st_db (snd (revoke_wallets L now ws st)))"
proof (induction ws arbitrary: st)
  case (Cons x ws)
  show ?case
    using sessions_kept_trans [OF sessions_kept_revoke Cons.IH] by (simp add: split_beta)
qed simp

lemma sessions_kept_erase:
  assumes "ee_race env = id"
  shows "sessions_kept (st_db st) (st_db (snd (anonymizePlayer L env i st)))"
proof -
  obtain r st' where run: "anonymizePlayer L env i st = (r, st')" by force
  have "sessions_kept w (scrub_world env us ws a w)" for us ws a and w :: "'a world"
    by (rule sessions_kept_map [of _ "\<lambda>s. if s_walletId s \<in> set ws then s\<lparr>s_playerId := a\<rparr> else s"])
      (auto simp: scrub_world_def update_where_def is_live_def split: if_splits)
  note kept = this
  show ?thesis
    using run by (cases rule: anonymize_cases) (simp_all add: assms run kept)
qed

lemma session_step_kept:
  "session_step J ops st st' \<Longrightarrow> session_inv (st_db st) \<Longrightarrow> sessions_kept (st_db st) (st_db st')"
proof (induction rule: session_step.induct)
  case (Revoke_wallet st L now walletId)
  then show ?case by (simp add: close_route_def sessions_kept_revoke split: option.split)
next
  case (Revoke_player st L now oid p c)
  then show ?case by (simp add: revokeForOperatorPlayer_def Let_def split_beta sessions_kept_revoke_wallets)
next
  case (Guest i st walletId)
  show ?case by (simp add: createGuest_def Let_def add_user_def sessions_kept_def) blast
next
  case (Check_fired st now sid due)
  show ?case
    by (simp add: markRealityCheckPending_def)
      (rule sessions_kept_update; simp add: set_due_def is_live_def split: option.splits)
next
  case (Check_acked st now sid due)
  show ?case
    by (simp add: ackRealityCheck_def)
      (rule sessions_kept_update; simp add: set_due_def is_live_def split: option.splits)
next
  case (Money st w)
  then show ?case by (auto simp: same_accounts_def sessions_kept_def)
qed (simp_all add: sessions_kept_open sessions_kept_erase)

lemma session_steps_kept:
  assumes "session_steps J ops st st'" "session_inv (st_db st)"
  shows "sessions_kept (st_db st) (st_db st')"
  using assms unfolding session_steps_def
proof (induction rule: rtranclp_induct)
  case (step y z)
  then show ?case
    using sessions_kept_trans session_step_kept session_steps_inv unfolding session_steps_def by blast
qed simp

section \<open>Tickets, routing and revocation over runs\<close>

lemma verify_again:
  assumes "launch_verify J ops token w = Inr v"
  shows "launch_verify J ops token w' =
    (if find_jti w' (vl_jti v) \<noteq> None then Inl (Unauthorized ''launch_token_already_used'') else Inr v)"
proof -
  have again: "verify_claims x oid p w' =
      (if find_jti w' (vl_jti v) \<noteq> None then Inl (Unauthorized ''launch_token_already_used'') else Inr v)"
    if "verify_claims x oid p w = Inr v" for x oid p
    using that unfolding verify_claims_def Let_def
    by (simp split: sum.splits if_split_asm option.split_asm json.split_asm) auto
  show ?thesis
    using assms again unfolding launch_verify_def Let_def
    by (simp split: if_split_asm option.split_asm json.split_asm)
qed

lemma find_jti_None: "find_jti w j = None \<longleftrightarrow> j \<notin> s_launchJti ` set (db_sessions w)"
  by (auto simp: find_jti_def find_None_iff)

lemma open_uses_ticket:
  assumes "openFromToken J env ops token w = (Inr r, w')"
  shows "\<exists>v. launch_verify J ops token w = Inr v \<and> find_jti w' (vl_jti v) \<noteq> None"
proof -
  obtain v where v: "launch_verify J ops token w = Inr v"
    using assms by (auto simp: openFromToken_def split: sum.splits)
  have reset: "find_jti (snd (ledger_resetTo id id u i n k ref)) j = find_jti u j" for u :: "'a world" and i n k ref j
    using resetTo_accounts [of u i n k ref] by (simp add: same_accounts_def find_jti_def)
  have found: "find_jti (u\<lparr>db_sessions := db_sessions u @ [s]\<rparr>) (s_launchJti s) \<noteq> None" for u :: "'a world" and s
    by (simp add: find_jti_None)
  have opened: "find_jti w' (vl_jti v) \<noteq> None" if "open_session env ops v c x u = (Inr r, w')" for c x u
    using that found [of "oe_race2 env u" "new_session env v c x"] reset [of "oe_race2 env u\<lparr>db_sessions := db_sessions (oe_race2 env u) @ [new_session env v c x]\<rparr>"]
    by (auto simp: open_session_def Let_def new_session_def split: if_splits sum.splits prod.splits)
      (metis snd_conv option.distinct(1))
  show ?thesis
    using assms v opened by (auto simp: openFromToken_def Let_def split: sum.splits prod.splits)
qed

lemma kept_jti:
  assumes "sessions_kept w v" "find_jti w j \<noteq> None"
  shows "find_jti v j \<noteq> None"
proof -
  obtain s where "s \<in> set (db_sessions w)" "s_launchJti s = j" using assms(2) by (auto simp: find_jti_None)
  then show ?thesis using assms(1) unfolding sessions_kept_def find_jti_None by (metis imageI)
qed

text \<open>
  C28. A launch ticket opens one session. After a launch with it has succeeded, whatever launches,
  revocations, erasures and money moves follow, the same ticket is answered with the already-used error
  and changes nothing.
\<close>

theorem ticket_opens_once:
  assumes "session_inv (st_db st)" "open_ok env (st_db st)" "openFromToken J env ops token (st_db st) = (Inr r, w)"
    "session_steps J ops (st\<lparr>st_db := w\<rparr>) st'"
  shows "openFromToken J env' ops token (st_db st') =
    (Inl (Unauthorized ''launch_token_already_used''), st_db st')"
proof -
  obtain v where v: "launch_verify J ops token (st_db st) = Inr v" "find_jti w (vl_jti v) \<noteq> None"
    using open_uses_ticket [OF assms(3)] by blast
  have "session_inv w" using session_inv_open [OF assms(1,2), of J ops token] assms(3) by simp
  then have "find_jti (st_db st') (vl_jti v) \<noteq> None"
    using kept_jti [OF session_steps_kept [OF assms(4)]] v(2) by simp
  then show ?thesis using verify_again [OF v(1), of "st_db st'"] by (simp add: openFromToken_def)
qed

lemma resolver_any:
  assumes "session_inv w" "s \<in> set (db_sessions w)"
  shows "resolver w (s_walletId s) = Inr \<lparr>os_operatorId = s_operatorId s, os_playerId = s_playerId s,
      os_currency = s_currency s, os_roundId = None\<rparr> \<and> isDemoWallet w (s_walletId s) = s_demo s"
proof -
  have hit: "\<exists>t. find (\<lambda>t. s_walletId t = s_walletId s) xs = Some t \<and> t \<in> set (db_sessions w) \<and> same_route s t"
    if xs: "set xs = set (db_sessions w)" for xs
  proof (cases "find (\<lambda>t. s_walletId t = s_walletId s) xs")
    case None
    then show ?thesis using assms(2) xs by (auto simp: find_None_iff)
  next
    case (Some t)
    then have "t \<in> set (db_sessions w)" "s_walletId t = s_walletId s" using find_SomeD [OF Some] xs by auto
    then show ?thesis using Some assms by (auto simp: session_inv_def)
  qed
  obtain t where "find (\<lambda>t. s_walletId t = s_walletId s) (rev (db_sessions w)) = Some t" "same_route s t"
    using hit [of "rev (db_sessions w)"] by auto
  moreover obtain t' where "find (\<lambda>t. s_walletId t = s_walletId s) (db_sessions w) = Some t'" "same_route s t'"
    using hit [of "db_sessions w"] by auto
  ultimately show ?thesis by (simp add: resolver_def isDemoWallet_def same_route_def)
qed

text \<open>
  The money path may look up any session of a wallet. In every state the account side reaches, all
  sessions on one wallet name the same operator, player, currency and mode, so the newest session the
  operator wallet asks for and the arbitrary one the router asks for give the route of each of them; this
  survives erasures and the uniqueness of the wallet's name is what carries it.
\<close>

theorem sessions_share_route:
  assumes "session_inv (st_db st)" "session_steps J ops st st'" "s \<in> set (db_sessions (st_db st'))"
  shows "resolver (st_db st') (s_walletId s) = Inr \<lparr>os_operatorId = s_operatorId s, os_playerId = s_playerId s,
      os_currency = s_currency s, os_roundId = None\<rparr> \<and> isDemoWallet (st_db st') (s_walletId s) = s_demo s"
  by (rule resolver_any [OF session_steps_inv [OF assms(2,1)] assms(3)])

lemma isLive_iff: "isLive i w \<longleftrightarrow> (\<exists>s \<in> set (db_sessions w). s_id s = i \<and> is_live s)"
  by (auto simp: isLive_def count_where_def filter_empty_conv)

lemma dead_stays_dead:
  assumes "session_inv v" "sessions_kept w v" "i \<in> session_ids w" "\<not> isLive i w"
  shows "\<not> isLive i v"
proof
  assume "isLive i v"
  then obtain t where t: "t \<in> set (db_sessions v)" "s_id t = i" "is_live t" by (auto simp: isLive_iff)
  obtain s where s: "s \<in> set (db_sessions w)" "s_id s = i" using assms(3) by (auto simp: session_ids_def)
  then obtain t' where t': "t' \<in> set (db_sessions v)" "s_id t' = i" "is_live t' \<longrightarrow> is_live s"
    using assms(2) by (auto simp: sessions_kept_def)
  have "t' = t" using key_inj [of s_id "db_sessions v" t' t] assms(1) t t' by (simp add: session_inv_def keys_ok_def)
  then show False using t t' s assms(4) by (auto simp: isLive_iff)
qed

theorem revoked_stays_revoked:
  assumes "session_inv (st_db st)" "session_steps J ops st st'" "i \<in> session_ids (st_db st)" "\<not> isLive i (st_db st)"
  shows "\<not> isLive i (st_db st')"
  by (rule dead_stays_dead [OF session_steps_inv [OF assms(2,1)] session_steps_kept [OF assms(2,1)] assms(3,4)])

end
