(* ===== verification/VR_SessionSpec.thy ===== *)
theory VR_SessionSpec
  imports VR_SessionRun
begin

text \<open>
  What the account operations promise in terms of operator and player, and where they miss: revocation by
  the operator, concrete runs, and the cases outside the promise.
\<close>

section \<open>Revocation by player\<close>

lemma revoke_wallets_db:
  "st_db (snd (revoke_wallets L now ws st)) =
     session_update (\<lambda>s. s_walletId s \<in> w_id ` set ws \<and> is_live s) (\<lambda>s. s\<lparr>s_revokedAt := Some now\<rparr>) (st_db st)"
proof (induction ws arbitrary: st)
  case Nil
  then show ?case by (simp add: session_update_def update_where_def)
next
  case (Cons x ws)
  let ?f = "\<lambda>s. s\<lparr>s_revokedAt := Some now\<rparr>"
  have "session_update (\<lambda>s. s_walletId s \<in> A \<and> is_live s) ?f (session_update (\<lambda>s. s_walletId s = i \<and> is_live s) ?f w) =
      session_update (\<lambda>s. s_walletId s \<in> insert i A \<and> is_live s) ?f w" for A i and w :: "'a world"
    by (simp add: session_update_def update_where_def is_live_def comp_def)
  then show ?case by (simp add: split_beta Cons.IH st_db_revoke)
qed

definition player_hit :: "uid \<Rightarrow> string \<Rightarrow> string option \<Rightarrow> string \<Rightarrow> bool" where
  "player_hit oid pid currency name \<longleftrightarrow>
     (case truthy currency of
        None \<Rightarrow> tag_hits oid pid name
      | Some c \<Rightarrow> (name = tag_base oid pid @ to_upper c \<or> name = tag_base oid pid @ to_upper c @ '':demo'') \<and>
          SUFFIX_RE (drop (length (tag_base oid pid)) name))"

lemma player_hit_tag_hits: "player_hit oid pid currency name \<Longrightarrow> tag_hits oid pid name"
  by (auto simp: player_hit_def tag_hits_def Let_def split: option.splits)

lemma player_wallets_eq:
  "player_wallets oid pid currency w = filter (username_is w (player_hit oid pid currency)) (db_wallets w)"
  by (simp add: player_wallets_def player_hit_def [abs_def] tag_hits_def Let_def split: option.split)

lemma player_hit_tag:
  assumes "colon_free c" "c \<noteq> []" "to_upper c = c"
  shows "player_hit oid pid currency (session_tag oid pid c d) \<longleftrightarrow>
    (case truthy currency of None \<Rightarrow> True | Some k \<Rightarrow> c = to_upper k)"
proof (cases "truthy currency")
  case None
  then show ?thesis using tag_hits_own assms by (simp add: player_hit_def)
next
  case (Some k)
  have up: "to_upper (to_upper k) = to_upper k" by simp
  have "c \<noteq> to_upper k @ '':demo''" using upper_no_o [OF assms(3)] by auto
  moreover have "c @ '':demo'' \<noteq> to_upper k"
    using upper_no_o [OF up] by (metis append_is_Nil_conv last_appendR last_ConsR list.discI last.simps)
  ultimately show ?thesis
    using Some SUFFIX_RE_currency [OF assms(1,2), of d]
    by (cases d) (auto simp: player_hit_def session_tag_def simp del: append_assoc)
qed

lemma player_wallets_sessions:
  assumes inv: "session_inv w" "canonical w" and s: "s \<in> set (db_sessions w)"
    and names: "colon_free oid" "colon_free pid" "\<not> starts_with pid ''anon:''"
  shows "s_walletId s \<in> w_id ` set (player_wallets oid pid currency w) \<longleftrightarrow>
    s_operatorId s = oid \<and> s_playerId s = pid \<and>
    (case truthy currency of None \<Rightarrow> True | Some k \<Rightarrow> s_currency s = to_upper k)"
proof -
  have k: "keys_ok w" "to_upper (s_currency s) = s_currency s" using inv(1) s by (auto simp: session_inv_def session_home_def)
  obtain name where home: "wallet_home w (s_walletId s) = Some (s_currency s, name)" "at_home s name"
    using inv(1) s by (auto simp: session_inv_def session_home_def)
  obtain x u where x: "find_wallet w (s_walletId s) = Some x" "user_of w x = Some u" "u_username u = name"
    using home(1) by (auto simp: wallet_home_def split: option.splits)
  note xs = find_wallet_SomeD [OF x(1)]
  have "s_walletId s \<in> w_id ` set (player_wallets oid pid currency w) \<longleftrightarrow> player_hit oid pid currency name"
  proof
    assume "s_walletId s \<in> w_id ` set (player_wallets oid pid currency w)"
    then obtain y where y: "y \<in> set (db_wallets w)" "w_id y = s_walletId s" "username_is w (player_hit oid pid currency) y"
      by (auto simp: player_wallets_eq)
    then have "y = x" using key_inj [of w_id "db_wallets w" y x] xs k(1) by (simp add: keys_ok_def)
    then show "player_hit oid pid currency name" using y(3) x by (simp add: username_is_def)
  next
    assume "player_hit oid pid currency name"
    then have "x \<in> set (player_wallets oid pid currency w)" using x xs by (simp add: player_wallets_eq username_is_def)
    then show "s_walletId s \<in> w_id ` set (player_wallets oid pid currency w)" using xs by force
  qed
  moreover have "player_hit oid pid currency name \<longleftrightarrow> s_operatorId s = oid \<and> s_playerId s = pid \<and>
    (case truthy currency of None \<Rightarrow> True | Some k \<Rightarrow> s_currency s = to_upper k)"
  proof (cases "starts_with name ''anon:''")
    case True
    then have "starts_with (s_playerId s) ''anon:''" using home(2) by (auto simp: at_home_def tag_not_anon)
    then show ?thesis using True player_hit_tag_hits tag_hits_not_anon names(3) by blast
  next
    case False
    then have c: "name = session_tag (s_operatorId s) (s_playerId s) (s_currency s) (s_demo s)" "colon_free (s_currency s)"
      "s_currency s \<noteq> []"
      using inv(2) s home(1) by (auto simp: canonical_def)
    have "player_hit oid pid currency name \<Longrightarrow> s_operatorId s = oid \<and> s_playerId s = pid"
      using hits_tag_only [OF inv s names(1,2) home(1)] player_hit_tag_hits by blast
    then show ?thesis using player_hit_tag [OF c(2,3) k(2)] c(1) by blast
  qed
  ultimately show ?thesis by simp
qed

text \<open>The number that a revocation reports.\<close>

lemma count_where_disjoint: "(\<And>x. P x \<Longrightarrow> \<not> Q x) \<Longrightarrow> count_where P xs + count_where Q xs = count_where (\<lambda>x. P x \<or> Q x) xs"
  by (induction xs) (auto simp: count_where_def)

lemma count_where_cong: "(\<And>x. x \<in> set xs \<Longrightarrow> P x = Q x) \<Longrightarrow> count_where P xs = count_where Q xs"
  by (simp add: count_where_def cong: filter_cong)

lemma revoke_wallets_count:
  "distinct (map w_id ws) \<Longrightarrow>
   fst (revoke_wallets L now ws st) = count_where (\<lambda>s. s_walletId s \<in> w_id ` set ws \<and> is_live s) (db_sessions (st_db st))"
proof (induction ws arbitrary: st)
  case Nil
  then show ?case by (simp add: count_where_def)
next
  case (Cons x ws)
  let ?st = "snd (revokeForWallet L now (w_id x) st)"
  have one: "fst (revokeForWallet L now (w_id x) st) =
      count_where (\<lambda>s. s_walletId s = w_id x \<and> is_live s) (db_sessions (st_db st))"
    by (simp add: revokeForWallet_def Let_def count_where_def)
  have "count_where (\<lambda>s. s_walletId s \<in> w_id ` set ws \<and> is_live s) (db_sessions (st_db ?st)) =
      count_where (\<lambda>s. s_walletId s \<in> w_id ` set ws \<and> is_live s) (db_sessions (st_db st))"
    using Cons.prems
    by (auto simp: st_db_revoke session_update_def update_where_def count_where_def filter_map comp_def is_live_def
        intro!: arg_cong [where f = length] filter_cong)
  then have "fst (revoke_wallets L now (x # ws) st) =
      count_where (\<lambda>s. s_walletId s = w_id x \<and> is_live s) (db_sessions (st_db st)) +
      count_where (\<lambda>s. s_walletId s \<in> w_id ` set ws \<and> is_live s) (db_sessions (st_db st))"
    using Cons by (simp add: split_beta one)
  also have "\<dots> = count_where (\<lambda>s. s_walletId s \<in> w_id ` set (x # ws) \<and> is_live s) (db_sessions (st_db st))"
    using Cons.prems by (subst count_where_disjoint) (auto intro: count_where_cong)
  finally show ?case .
qed

lemma player_wallets_distinct: "keys_ok w \<Longrightarrow> distinct (map w_id (player_wallets oid pid currency w))"
  by (simp add: player_wallets_eq keys_ok_def distinct_map_filter)

text \<open>The sessions that a revocation is for.\<close>

definition revoked_by :: "uid \<Rightarrow> string \<Rightarrow> string option \<Rightarrow> game_session \<Rightarrow> bool" where
  "revoked_by oid pid currency s \<longleftrightarrow> s_operatorId s = oid \<and> s_playerId s = pid \<and>
     (case truthy currency of None \<Rightarrow> True | Some k \<Rightarrow> s_currency s = to_upper k) \<and> is_live s"

text \<open>
  C34. Revoking by player is exact. On a database whose sessions are at home and whose tags are canonical, for an
  operator id in the spelling it is stored in and a player whose id has no colon, the operator's revocation
  ends the live sessions of that operator and player (of one currency if one is named, real and demo),
  changes no other session of any operator and no other table, and reports as the number of revoked
  sessions exactly how many these were.
\<close>

theorem revoke_is_exact:
  assumes "session_inv (st_db st)" "canonical (st_db st)" "colon_free oid" "colon_free pid"
    "\<not> starts_with pid ''anon:''"
  shows "st_db (snd (revokeForOperatorPlayer L now oid pid currency st)) = (st_db st)\<lparr>db_sessions :=
      map (\<lambda>s. if revoked_by oid pid currency s then s\<lparr>s_revokedAt := Some now\<rparr> else s) (db_sessions (st_db st))\<rparr> \<and>
    fst (fst (revokeForOperatorPlayer L now oid pid currency st)) =
      length (filter (revoked_by oid pid currency) (db_sessions (st_db st)))"
proof
  note hit = player_wallets_sessions [OF assms(1,2) _ assms(3-5), of _ currency]
  then show "st_db (snd (revokeForOperatorPlayer L now oid pid currency st)) = (st_db st)\<lparr>db_sessions :=
      map (\<lambda>s. if revoked_by oid pid currency s then s\<lparr>s_revokedAt := Some now\<rparr> else s) (db_sessions (st_db st))\<rparr>"
    by (simp add: revokeForOperatorPlayer_def Let_def split_beta revoke_wallets_db session_update_def update_where_def
        revoked_by_def)
  have "fst (fst (revokeForOperatorPlayer L now oid pid currency st)) =
      count_where (\<lambda>s. s_walletId s \<in> w_id ` set (player_wallets oid pid currency (st_db st)) \<and> is_live s) (db_sessions (st_db st))"
    using assms(1)
    by (simp add: revokeForOperatorPlayer_def Let_def split_beta revoke_wallets_count player_wallets_distinct session_inv_def)
  also have "\<dots> = count_where (revoked_by oid pid currency) (db_sessions (st_db st))"
    using hit by (intro count_where_cong) (simp add: revoked_by_def)
  finally show "fst (fst (revokeForOperatorPlayer L now oid pid currency st)) =
      length (filter (revoked_by oid pid currency) (db_sessions (st_db st)))"
    by (simp add: count_where_def)
qed

end
