(* ===== verification/VR_SessionDemo.thy ===== *)
theory VR_SessionDemo
  imports VR_SessionSpec
begin

text \<open>
  Concrete runs of the account side, for the witnesses of the theorems and for the cases in which the
  code does not do what its comments promise.
\<close>

section \<open>A small database\<close>

definition acc_session :: "uid \<Rightarrow> string \<Rightarrow> uid \<Rightarrow> bool \<Rightarrow> int option \<Rightarrow> game_session" where
  "acc_session i p x demo revoked =
     \<lparr>s_id = i, s_operatorId = uuid_a, s_playerId = p, s_currency = ''EUR'', s_walletId = x, s_demo = demo,
      s_locale = ''en'', s_launchJti = i, s_createdAt = 1000, s_revokedAt = revoked, s_rcDueAt = None,
      s_rcPendingAt = None, s_rcLastAckAt = None\<rparr>"

definition acc_user :: "uid \<Rightarrow> string \<Rightarrow> bool \<Rightarrow> user" where
  "acc_user i p demo =
     \<lparr>u_id = i, u_username = session_tag uuid_a p ''EUR'' demo, u_isGuest = False, u_anonymizedAt = None\<rparr>"

definition acc_wallet :: "uid \<Rightarrow> uid \<Rightarrow> wallet" where
  "acc_wallet i u = \<lparr>w_id = i, w_userId = u, w_currency = ''EUR'', w_balance = 0\<rparr>"

text \<open>Alice has logged out of her real and her demo session; Bob is playing.\<close>

definition acc_db :: "unit world" where
  "acc_db = \<lparr>db_wallets = [acc_wallet ''w1'' ''u1'', acc_wallet ''w2'' ''u2'', acc_wallet ''w3'' ''u3''], db_ledger = [],
     db_bets = [], db_rounds = [],
     db_users = [acc_user ''u1'' ''alice'' False, acc_user ''u2'' ''alice'' True, acc_user ''u3'' ''bob'' False],
     db_profiles = [],
     db_sessions = [acc_session ''s1'' ''alice'' ''w1'' False (Some 2000), acc_session ''s2'' ''alice'' ''w2'' True (Some 2000),
       acc_session ''s3'' ''bob'' ''w3'' False None],
     db_rollbacks = [], operator_state = ()\<rparr>"

definition acc_site :: "unit site" where
  "acc_site = \<lparr>st_db = acc_db, st_log = \<lparr>al_events = [], al_failures = 0\<rparr>\<rparr>"

definition acc_log :: log_env where
  "acc_log = \<lparr>le_iso = (\<lambda>t. bigint_to_string t), le_stringify = (\<lambda>j. Some []), le_fails = False\<rparr>"

definition acc_erase :: "unit erase_env" where
  "acc_erase = \<lparr>ee_hashes = \<lparr>sha256 = id, hmac256 = (\<lambda>s p. s)\<rparr>, ee_pepper = ''p'', ee_now = 9000, ee_race = id\<rparr>"

definition acc_input :: "string \<Rightarrow> anonymize_input" where
  "acc_input p = \<lparr>an_operatorId = uuid_a, an_playerId = p, an_currency = None, an_actor = ''cli'', an_reason = None\<rparr>"

lemma acc_homes:
  "wallet_home acc_db ''w1'' = Some (''EUR'', session_tag uuid_a ''alice'' ''EUR'' False)"
  "wallet_home acc_db ''w2'' = Some (''EUR'', session_tag uuid_a ''alice'' ''EUR'' True)"
  "wallet_home acc_db ''w3'' = Some (''EUR'', session_tag uuid_a ''bob'' ''EUR'' False)"
  by code_simp+

lemma acc_keys: "keys_ok acc_db"
  by code_simp

lemma acc_upper: "to_upper ''EUR'' = ''EUR''" "colon_free ''EUR''" "colon_free uuid_a" "colon_free ''alice''"
    "\<not> starts_with ''alice'' ''anon:''" "\<not> starts_with ''bob'' ''anon:''"
  by code_simp+

lemma acc_sessions: "set (db_sessions acc_db) = {acc_session ''s1'' ''alice'' ''w1'' False (Some 2000),
    acc_session ''s2'' ''alice'' ''w2'' True (Some 2000), acc_session ''s3'' ''bob'' ''w3'' False None}"
  by (simp add: acc_db_def)

lemma acc_inv: "session_inv acc_db"
  unfolding session_inv_def acc_sessions
  using acc_keys acc_homes acc_upper toy_keys_ok(1,4)
  by (auto simp: session_home_def at_home_def acc_session_def same_route_def)

lemma acc_canonical: "canonical acc_db"
  unfolding canonical_def acc_sessions
  using acc_homes acc_upper by (auto simp: acc_session_def)

section \<open>Witnesses\<close>

lemma acc_race: "ee_race acc_erase = id"
  by (simp add: acc_erase_def)

text \<open>An erasure in stages, so that each is evaluated on its own.\<close>

lemma anonymize_ok:
  assumes "resolve_users (an_operatorId i) (an_playerId i)
      (''anon:'' @ playerTombstone (ee_hashes env) (ee_pepper env) (an_operatorId i) (an_playerId i)) (st_db st) = users"
    "users \<noteq> []" "\<not> list_all (\<lambda>u. u_anonymizedAt u \<noteq> None) users"
    "map w_id (concat (map (wallets_of (st_db st)) users)) = ids" "\<not> in_flight ids (st_db st)" "ee_race env = id"
    "scrub_world env (map u_id users) ids
      (''anon:'' @ playerTombstone (ee_hashes env) (ee_pepper env) (an_operatorId i) (an_playerId i)) (st_db st) = v"
    "distinct (map u_username (db_users v))"
  shows "fst (anonymizePlayer L env i st) =
      Inr \<lparr>ar_alreadyAnonymized = False, ar_usersAffected = length users, ar_scrubbedFields = SCRUBBED_FIELDS\<rparr>"
    and "st_db (snd (anonymizePlayer L env i st)) = v"
  using assms by (simp_all add: anonymizePlayer_def Let_def)

definition alice_anon :: string where
  "alice_anon = ''anon:'' @ playerTombstone (ee_hashes acc_erase) (ee_pepper acc_erase) uuid_a ''alice''"

definition alice_erased :: "unit world" where
  "alice_erased = scrub_world acc_erase [''u1'', ''u2''] [''w1'', ''w2''] alice_anon acc_db"

lemma alice_users:
  "resolve_users uuid_a ''alice'' alice_anon acc_db = [acc_user ''u1'' ''alice'' False, acc_user ''u2'' ''alice'' True]"
  by code_simp

lemma alice_run:
  "fst (anonymizePlayer acc_log acc_erase (acc_input ''alice'') acc_site) =
     Inr \<lparr>ar_alreadyAnonymized = False, ar_usersAffected = 2, ar_scrubbedFields = SCRUBBED_FIELDS\<rparr>"
  "st_db (snd (anonymizePlayer acc_log acc_erase (acc_input ''alice'') acc_site)) = alice_erased"
proof -
  have 1: "\<not> list_all (\<lambda>u. u_anonymizedAt u \<noteq> None) [acc_user ''u1'' ''alice'' False, acc_user ''u2'' ''alice'' True]"
    "map w_id (concat (map (wallets_of acc_db) [acc_user ''u1'' ''alice'' False, acc_user ''u2'' ''alice'' True])) = [''w1'', ''w2'']"
    "\<not> in_flight [''w1'', ''w2''] acc_db" "distinct (map u_username (db_users alice_erased))"
    by code_simp+
  have 2: "scrub_world acc_erase (map u_id [acc_user ''u1'' ''alice'' False, acc_user ''u2'' ''alice'' True]) [''w1'', ''w2'']
      alice_anon acc_db = alice_erased"
    by (simp add: alice_erased_def acc_user_def)
  show "fst (anonymizePlayer acc_log acc_erase (acc_input ''alice'') acc_site) =
     Inr \<lparr>ar_alreadyAnonymized = False, ar_usersAffected = 2, ar_scrubbedFields = SCRUBBED_FIELDS\<rparr>"
    "st_db (snd (anonymizePlayer acc_log acc_erase (acc_input ''alice'') acc_site)) = alice_erased"
    using anonymize_ok [of "acc_input ''alice''" acc_erase acc_site, OF _ _ 1(1) _ _ acc_race _ 1(4)] alice_users 1(2,3) 2
    by (simp_all add: acc_input_def acc_site_def alice_anon_def)
qed

lemma bob_parts:
  "resolved acc_erase (acc_input ''bob'') acc_db = [acc_user ''u3'' ''bob'' False]"
  "unsettled acc_db (acc_wallet ''w3'' ''u3'')"
  by code_simp+

text \<open>Alice's erasure leaves the money as it is; Bob, who is playing, is refused.\<close>

theorem erasure_keeps_money_witness:
  "only_scrubbed acc_db alice_erased \<and>
   anonymizePlayer acc_log acc_erase (acc_input ''bob'') acc_site = (Inl (Bad_request ''player_not_settled''), acc_site)"
proof
  have "snd (anonymizePlayer acc_log acc_erase (acc_input ''alice'') acc_site) = acc_site \<or>
      only_scrubbed acc_db (st_db (snd (anonymizePlayer acc_log acc_erase (acc_input ''alice'') acc_site)))"
    using erasure_keeps_money [OF prod.collapse [symmetric], where L = acc_log and env = acc_erase and i = "acc_input ''alice''" and st = acc_site]
    by (simp add: acc_race acc_site_def)
  then show "only_scrubbed acc_db alice_erased" using alice_run(2) by (auto simp: acc_site_def)
  have "fst (anonymizePlayer acc_log acc_erase (acc_input ''bob'') acc_site) = Inl (Bad_request ''player_not_settled'') \<and>
      snd (anonymizePlayer acc_log acc_erase (acc_input ''bob'') acc_site) = acc_site"
    using erasure_keeps_money [OF prod.collapse [symmetric], where L = acc_log and env = acc_erase and i = "acc_input ''bob''" and st = acc_site]
      bob_parts by (force simp: acc_site_def acc_db_def acc_user_def acc_wallet_def)
  then show "anonymizePlayer acc_log acc_erase (acc_input ''bob'') acc_site = (Inl (Bad_request ''player_not_settled''), acc_site)"
    by (simp add: prod_eq_iff)
qed

theorem erasure_is_exact_witness:
  "map (\<lambda>s. s_playerId s = ''alice'') (db_sessions alice_erased) = [False, False, False] \<and>
   map (\<lambda>u. u_anonymizedAt u = None) (db_users alice_erased) = [False, False, True] \<and>
   snd (anonymizePlayer acc_log (acc_erase\<lparr>ee_now := 9999\<rparr>) (acc_input ''alice'')
     (snd (anonymizePlayer acc_log acc_erase (acc_input ''alice'') acc_site))) =
   snd (anonymizePlayer acc_log acc_erase (acc_input ''alice'') acc_site)"
proof -
  obtain q st' where run: "anonymizePlayer acc_log acc_erase (acc_input ''alice'') acc_site = (q, st')" by force
  then have q: "q = Inr \<lparr>ar_alreadyAnonymized = False, ar_usersAffected = 2, ar_scrubbedFields = SCRUBBED_FIELDS\<rparr>"
    and st': "st_db st' = alice_erased"
    using alice_run by simp_all
  have inv: "session_inv (st_db acc_site)" "canonical (st_db acc_site)"
    by (simp_all add: acc_site_def acc_inv acc_canonical)
  have play: "only_play (ee_race acc_erase) (st_db acc_site)" by (simp add: acc_race only_play_def)
  have names: "colon_free (an_operatorId (acc_input ''alice''))"
      "to_lower (an_operatorId (acc_input ''alice'')) = an_operatorId (acc_input ''alice'')"
      "colon_free (an_playerId (acc_input ''alice''))" "\<not> starts_with (an_playerId (acc_input ''alice'')) ''anon:''"
    using acc_upper toy_keys_ok(4) by (simp_all add: acc_input_def)
  have users: "map (user_of_player uuid_a ''alice'' (erased_id acc_erase (acc_input ''alice'')) acc_db) (db_users acc_db) =
      [True, True, False]"
  proof -
    have "map (\<lambda>u. u \<in> set (resolve_users uuid_a ''alice'' alice_anon acc_db)) (db_users acc_db) = [True, True, False]"
      unfolding alice_users by code_simp
    then show ?thesis
      using resolved_iff [OF acc_inv acc_canonical, of uuid_a "''alice''" _ alice_anon] acc_upper toy_keys_ok(4)
      by (simp add: erased_id_def alice_anon_def acc_input_def acc_db_def)
  qed
  from erasure_is_exact [OF run [unfolded q] _ _ play inv names, of "acc_erase\<lparr>ee_now := 9999\<rparr>" acc_log]
  have "db_sessions alice_erased = map (\<lambda>s. if s_operatorId s = uuid_a \<and> s_playerId s = ''alice''
        then s\<lparr>s_playerId := erased_id acc_erase (acc_input ''alice'')\<rparr> else s) (db_sessions acc_db)"
      "db_users alice_erased = map (\<lambda>u. if user_of_player uuid_a ''alice'' (erased_id acc_erase (acc_input ''alice'')) acc_db u
        then erased_user acc_erase u else u) (db_users acc_db)"
      "snd (anonymizePlayer acc_log (acc_erase\<lparr>ee_now := 9999\<rparr>) (acc_input ''alice'') st') = st'"
    unfolding st' by (simp_all add: acc_input_def acc_site_def)
  moreover have "erased_id acc_erase (acc_input ''alice'') \<noteq> ''alice''" by (simp add: erased_id_def)
  ultimately show ?thesis
    using acc_upper(5) users run by (simp add: acc_db_def acc_session_def erased_user_def acc_user_def)
qed

theorem revoke_is_exact_witness:
  "map is_live (db_sessions (st_db (snd (revokeForOperatorPlayer acc_log 5 uuid_a ''bob'' None acc_site)))) = [False, False, False] \<and>
   fst (fst (revokeForOperatorPlayer acc_log 5 uuid_a ''bob'' None acc_site)) = 1"
proof -
  have "session_inv (st_db acc_site)" "canonical (st_db acc_site)" "colon_free ''bob''"
    by (simp_all add: acc_site_def acc_inv acc_canonical colon_free_def)
  from revoke_is_exact [OF this(1,2) acc_upper(3) this(3) acc_upper(6), where L = acc_log and now = 5 and currency = None]
  show ?thesis
    by (simp add: acc_site_def acc_db_def acc_session_def is_live_def truthy_def revoked_by_def)
qed

section \<open>A launch\<close>

definition acc_claims :: "string \<Rightarrow> string \<Rightarrow> json" where
  "acc_claims oid p = JObj [(''operatorId'', JStr oid), (''playerId'', JStr p), (''currency'', JStr ''eur''), (''jti'', JStr ''j9'')]"

definition acc_jwt :: "string \<Rightarrow> string \<Rightarrow> jwt" where
  "acc_jwt oid p = \<lparr>jwt_decode = (\<lambda>t. Some (acc_claims oid p)),
     jwt_check = (\<lambda>k t. if k = ''ls'' then Some (acc_claims oid p) else None)\<rparr>"

definition acc_open :: "unit open_env" where
  "acc_open = \<lparr>oe_userId = ''u9'', oe_walletId = ''w9'', oe_sessionId = ''s9'', oe_now = 3000, oe_bankroll = 10000,
     oe_race1 = id, oe_race2 = id\<rparr>"

definition acc_launch :: "string \<Rightarrow> string \<Rightarrow> verified_launch" where
  "acc_launch oid p = \<lparr>vl_operatorId = oid, vl_playerId = p, vl_currency = Some ''eur'', vl_locale = ''en'', vl_demo = False,
     vl_ctx = JObj [], vl_jti = ''j9''\<rparr>"

definition bob_session :: game_session where
  "bob_session = new_session acc_open (acc_launch uuid_a ''bob'') ''EUR'' (acc_wallet ''w3'' ''u3'')"

definition bob_launched :: "unit world" where
  "bob_launched = acc_db\<lparr>db_sessions := db_sessions acc_db @ [bob_session]\<rparr>"

lemma bob_verify: "launch_verify (acc_jwt uuid_a ''bob'') [keyed_operator] ''ticket'' acc_db = Inr (acc_launch uuid_a ''bob'')"
  by code_simp

lemma bob_wallet: "find_tagged acc_db ''EUR'' (session_tag uuid_a ''bob'' ''EUR'' False) = Some (acc_wallet ''w3'' ''u3'')"
  "to_upper ''eur'' = ''EUR''" "find_jti acc_db ''j9'' = None"
  by code_simp+

lemma bob_open:
  "openFromToken (acc_jwt uuid_a ''bob'') acc_open [keyed_operator] ''ticket'' acc_db =
     (Inr (open_result [keyed_operator] (acc_launch uuid_a ''bob'') ''EUR'' (acc_wallet ''w3'' ''u3'') bob_session), bob_launched)"
  using bob_verify bob_wallet
  by (simp add: openFromToken_def Let_def acc_launch_def text_or_empty_def open_wallet_def open_session_def
      acc_open_def bob_launched_def bob_session_def)

lemma acc_open_ok: "open_ok acc_open acc_db"
  by (simp add: open_ok_def acc_open_def) code_simp

lemma acc_inv_site: "session_inv (st_db acc_site)"
  by (simp add: acc_site_def acc_inv)

lemma bob_steps:
  "session_steps (acc_jwt uuid_a ''bob'') [keyed_operator] (acc_site\<lparr>st_db := bob_launched\<rparr>)
     (snd (close_route acc_log 4000 (Some ''w3'') (acc_site\<lparr>st_db := bob_launched\<rparr>)))"
  unfolding session_steps_def by (rule r_into_rtranclp, rule Revoke_wallet)

theorem ticket_opens_once_witness:
  "fst (openFromToken (acc_jwt uuid_a ''bob'') acc_open [keyed_operator] ''ticket''
     (st_db (snd (close_route acc_log 4000 (Some ''w3'') (acc_site\<lparr>st_db := bob_launched\<rparr>))))) =
   Inl (Unauthorized ''launch_token_already_used'')"
proof -
  have "openFromToken (acc_jwt uuid_a ''bob'') acc_open [keyed_operator] ''ticket'' (st_db acc_site) =
      (Inr (open_result [keyed_operator] (acc_launch uuid_a ''bob'') ''EUR'' (acc_wallet ''w3'' ''u3'') bob_session), bob_launched)"
    "open_ok acc_open (st_db acc_site)"
    using bob_open acc_open_ok by (simp_all add: acc_site_def)
  from ticket_opens_once [OF acc_inv_site this(2,1) bob_steps, where env' = acc_open] show ?thesis by simp
qed

theorem sessions_share_route_witness:
  "resolver bob_launched ''w3'' = Inr \<lparr>os_operatorId = uuid_a, os_playerId = ''bob'', os_currency = ''EUR'', os_roundId = None\<rparr> \<and>
   \<not> isDemoWallet bob_launched ''w3''"
proof -
  have "session_step (acc_jwt uuid_a ''bob'') [keyed_operator] acc_site (acc_site\<lparr>st_db := bob_launched\<rparr>)"
    using Launch [of acc_open acc_site "acc_jwt uuid_a ''bob''" "[keyed_operator]" "''ticket''"] acc_open_ok bob_open
    by (simp add: acc_site_def)
  then have run: "session_steps (acc_jwt uuid_a ''bob'') [keyed_operator] acc_site (acc_site\<lparr>st_db := bob_launched\<rparr>)"
    unfolding session_steps_def by (rule r_into_rtranclp)
  have "acc_session ''s3'' ''bob'' ''w3'' False None \<in> set (db_sessions (st_db (acc_site\<lparr>st_db := bob_launched\<rparr>)))"
    by (simp add: bob_launched_def acc_db_def)
  from sessions_share_route [OF acc_inv_site run this] show ?thesis by (simp add: acc_session_def)
qed

section \<open>Where the promises end\<close>

text \<open>
  The suffix filter lets one player's erasure and revocation reach another's play-money wallet. For a
  player whose id is another player's id followed by a colon and a currency, the tag of that other
  player's demo wallet reads as the first player's wallet in a currency called demo: erasing the player
  alice:EUR, who has never played, scrubs the demo account of alice, and revoking alice:EUR ends alice's
  demo session.
\<close>

theorem suffix_filter_overmatches:
  "map u_id (live_users uuid_a ''alice:EUR'' acc_db) = [''u2''] \<and>
   map w_id (player_wallets uuid_a ''alice:EUR'' None acc_db) = [''w2''] \<and>
   fst (anonymizePlayer acc_log acc_erase (acc_input ''alice:EUR'') acc_site) =
     Inr \<lparr>ar_alreadyAnonymized = False, ar_usersAffected = 1, ar_scrubbedFields = SCRUBBED_FIELDS\<rparr> \<and>
   map (\<lambda>s. s_playerId s = ''alice'') (db_sessions (st_db (snd (anonymizePlayer acc_log acc_erase (acc_input ''alice:EUR'') acc_site))))
     = [True, False, False]"
proof -
  define a where "a = ''anon:'' @ playerTombstone (ee_hashes acc_erase) (ee_pepper acc_erase) uuid_a ''alice:EUR''"
  have 1: "resolve_users uuid_a ''alice:EUR'' a acc_db = [acc_user ''u2'' ''alice'' True]" unfolding a_def by code_simp
  have 2: "\<not> list_all (\<lambda>u. u_anonymizedAt u \<noteq> None) [acc_user ''u2'' ''alice'' True]"
    "map w_id (concat (map (wallets_of acc_db) [acc_user ''u2'' ''alice'' True])) = [''w2'']" "\<not> in_flight [''w2''] acc_db"
    "distinct (map u_username (db_users (scrub_world acc_erase [''u2''] [''w2''] a acc_db)))" "a \<noteq> ''alice''"
    unfolding a_def by code_simp+
  have "fst (anonymizePlayer acc_log acc_erase (acc_input ''alice:EUR'') acc_site) =
     Inr \<lparr>ar_alreadyAnonymized = False, ar_usersAffected = 1, ar_scrubbedFields = SCRUBBED_FIELDS\<rparr> \<and>
     st_db (snd (anonymizePlayer acc_log acc_erase (acc_input ''alice:EUR'') acc_site)) =
       scrub_world acc_erase [''u2''] [''w2''] a acc_db"
    using anonymize_ok [of "acc_input ''alice:EUR''" acc_erase acc_site, OF _ _ 2(1) _ _ acc_race _ 2(4)] 1 2(2,3)
    by (simp add: acc_input_def acc_site_def a_def acc_user_def)
  moreover have "map u_id (live_users uuid_a ''alice:EUR'' acc_db) = [''u2'']"
    "map w_id (player_wallets uuid_a ''alice:EUR'' None acc_db) = [''w2'']"
    by code_simp+
  ultimately show ?thesis using 2(5) by (simp add: scrub_world_def acc_db_def acc_session_def)
qed

text \<open>
  The id an operator writes into a ticket goes into the wallet's name as it is spelled. A ticket with
  the operator id in capitals opens a session of that operator, but on a name of its own, which neither
  the operator's revocation nor its erasure of the player finds, so the session stays live.
\<close>

definition shout_id :: uid where
  "shout_id = ''01234567-89AB-CDEF-0123-456789ABCDEF''"

definition shouted :: "unit world" where
  "shouted = snd (openFromToken (acc_jwt shout_id ''carol'') acc_open [keyed_operator] ''ticket'' acc_db)"

theorem capital_id_escapes_revocation:
  "map s_operatorId (filter (\<lambda>s. s_playerId s = ''carol'') (db_sessions shouted)) = [uuid_a] \<and>
   isLive ''s9'' shouted \<and>
   player_wallets uuid_a ''carol'' None shouted = [] \<and>
   live_users uuid_a ''carol'' shouted = [] \<and>
   anon_users uuid_a (''anon:'' @ playerTombstone (ee_hashes acc_erase) (ee_pepper acc_erase) uuid_a ''carol'') shouted = []"
proof -
  have "launch_verify (acc_jwt shout_id ''carol'') [keyed_operator] ''ticket'' acc_db = Inr (acc_launch shout_id ''carol'')"
    "find_tagged acc_db ''EUR'' (session_tag shout_id ''carol'' ''EUR'' False) = None"
    "session_tag shout_id ''carol'' ''EUR'' False \<notin> u_username ` set (db_users acc_db)"
    by code_simp+
  moreover define x where "x = acc_wallet ''w9'' ''u9''"
  moreover define s where "s = new_session acc_open (acc_launch shout_id ''carol'') ''EUR'' x"
  ultimately have "shouted =
      (add_user (acc_user ''u9'' ''carol'' False\<lparr>u_username := session_tag shout_id ''carol'' ''EUR'' False\<rparr>) x ''Player carol'' acc_db)
        \<lparr>db_sessions := db_sessions acc_db @ [s]\<rparr>"
    using bob_wallet(2,3)
    by (simp add: shouted_def openFromToken_def Let_def acc_launch_def text_or_empty_def open_wallet_def open_session_def
        acc_open_def acc_user_def acc_wallet_def add_user_def find_jti_def)
  note made = this
  show ?thesis unfolding made x_def s_def by (intro conjI; code_simp)
qed

end
