(* ===== verification/VR_Retention.thy ===== *)
theory VR_Retention
  imports VR_SessionDemo
begin

text \<open>
  The retention sweep: what the search for dormant players finds, stated over the sessions and bets of a
  player, and what a sweep then does to them.
\<close>

section \<open>The latest of a set of times\<close>

definition is_latest :: "int set \<Rightarrow> int \<Rightarrow> bool" where
  "is_latest S t \<longleftrightarrow> t \<in> S \<and> (\<forall>x \<in> S. x \<le> t)"

lemma is_latest_insert: "is_latest S t \<Longrightarrow> is_latest (insert x S) (max t x)"
  by (auto simp: is_latest_def max_def)

lemma is_latest_unique: "is_latest S t \<Longrightarrow> is_latest S u \<Longrightarrow> t = u"
  by (auto simp: is_latest_def intro: antisym)

lemma is_latest_Un: "is_latest S t \<Longrightarrow> is_latest T u \<Longrightarrow> is_latest (S \<union> T) (if t < u then u else t)"
  by (force simp: is_latest_def)

lemma is_latest_max: "is_latest (insert (max x t) S) f \<Longrightarrow> is_latest (insert t (insert x S)) f"
  by (auto simp: is_latest_def max_def split: if_splits)

lemma fold_max_latest: "is_latest (insert t (set ts)) (fold max ts t)"
proof (induction ts arbitrary: t)
  case Nil
  then show ?case by (simp add: is_latest_def)
next
  case (Cons x ts)
  then show ?case using is_latest_max [OF Cons [of "max x t"]] by simp
qed

definition bet_times :: "'o world \<Rightarrow> uid \<Rightarrow> int set" where
  "bet_times w i = b_createdAt ` {b \<in> set (db_bets w). b_walletId b = i}"

lemma lastBet_latest:
  "case lastBetByWallet w i of None \<Rightarrow> bet_times w i = {} | Some t \<Rightarrow> is_latest (bet_times w i) t"
proof (cases "map b_createdAt (filter (\<lambda>b. b_walletId b = i) (db_bets w))")
  case Nil
  then have "bet_times w i = {}" by (auto simp: bet_times_def filter_empty_conv)
  then show ?thesis using Nil by (simp add: lastBetByWallet_def)
next
  case (Cons t ts)
  have "bet_times w i = set (map b_createdAt (filter (\<lambda>b. b_walletId b = i) (db_bets w)))"
    by (auto simp: bet_times_def)
  then have "bet_times w i = insert t (set ts)" unfolding Cons by simp
  then show ?thesis using fold_max_latest [of t ts] Cons by (simp add: lastBetByWallet_def)
qed

lemma last_activity_fold:
  "is_latest S t \<Longrightarrow>
   is_latest (S \<union> (\<Union>i \<in> set ids. bet_times w i))
     (fold (\<lambda>i t. case lastBetByWallet w i of None \<Rightarrow> t | Some b \<Rightarrow> if t < b then b else t) ids t)"
proof (induction ids arbitrary: S t)
  case (Cons i ids)
  have "is_latest (S \<union> bet_times w i) (case lastBetByWallet w i of None \<Rightarrow> t | Some b \<Rightarrow> if t < b then b else t)"
    using lastBet_latest [of w i] is_latest_Un [OF Cons.prems, of "bet_times w i"] Cons.prems
    by (cases "lastBetByWallet w i") simp_all
  from Cons.IH [OF this] show ?case by (simp add: Un_assoc)
qed simp

section \<open>Groups of sessions\<close>

abbreviation group_key :: "player_group \<Rightarrow> uid \<times> string" where
  "group_key g \<equiv> (pg_operatorId g, pg_playerId g)"

abbreviation player_key :: "game_session \<Rightarrow> uid \<times> string" where
  "player_key s \<equiv> (s_operatorId s, s_playerId s)"

definition of_player :: "uid \<times> string \<Rightarrow> game_session list \<Rightarrow> game_session set" where
  "of_player k ss = {s \<in> set ss. player_key s = k}"

definition groups_ok :: "game_session list \<Rightarrow> player_group list \<Rightarrow> bool" where
  "groups_ok ss gs \<longleftrightarrow> distinct (map group_key gs) \<and> group_key ` set gs = player_key ` set ss \<and>
     (\<forall>g \<in> set gs. set (pg_walletIds g) = s_walletId ` of_player (group_key g) ss \<and>
        is_latest (s_createdAt ` of_player (group_key g) ss) (pg_lastSession g))"

definition join_group :: "game_session \<Rightarrow> player_group \<Rightarrow> player_group" where
  "join_group s g = g\<lparr>pg_walletIds := (if s_walletId s \<in> set (pg_walletIds g) then pg_walletIds g
     else pg_walletIds g @ [s_walletId s]), pg_lastSession := max (pg_lastSession g) (s_createdAt s)\<rparr>"

lemma add_session_eq:
  "distinct (map group_key gs) \<Longrightarrow> add_session s gs =
     (if player_key s \<in> group_key ` set gs then map (\<lambda>g. if group_key g = player_key s then join_group s g else g) gs
      else gs @ [\<lparr>pg_operatorId = s_operatorId s, pg_playerId = s_playerId s, pg_walletIds = [s_walletId s],
                  pg_lastSession = s_createdAt s\<rparr>])"
proof (induction gs)
  case (Cons g gs)
  have "map (\<lambda>g. if group_key g = player_key s then join_group s g else g) gs = gs" if "group_key g = player_key s"
    using Cons.prems that by (intro map_idI) (auto simp: image_iff)
  then show ?case using Cons by (auto simp: join_group_def)
qed simp

lemma of_player_snoc: "of_player k (ss @ [s]) = (if player_key s = k then insert s (of_player k ss) else of_player k ss)"
  by (auto simp: of_player_def)

lemma groups_ok_add:
  assumes "groups_ok ss gs"
  shows "groups_ok (ss @ [s]) (add_session s gs)"
proof (cases "player_key s \<in> group_key ` set gs")
  case True
  define f where "f g = (if group_key g = player_key s then join_group s g else g)" for g
  have key: "group_key (f g) = group_key g" for g by (simp add: f_def join_group_def)
  have add: "add_session s gs = map f gs"
    using True assms by (simp add: add_session_eq groups_ok_def f_def)
  have g: "set (pg_walletIds (f g)) = s_walletId ` of_player (group_key g) (ss @ [s]) \<and>
      is_latest (s_createdAt ` of_player (group_key g) (ss @ [s])) (pg_lastSession (f g))" if "g \<in> set gs" for g
    using assms that is_latest_insert [of "s_createdAt ` of_player (group_key g) ss" "pg_lastSession g" "s_createdAt s"]
    by (auto simp: groups_ok_def of_player_snoc f_def join_group_def)
  have ks: "map group_key (map f gs) = map group_key gs" "group_key ` set (map f gs) = group_key ` set gs"
    using key by (simp_all add: image_image)
  have mem: "set (pg_walletIds h) = s_walletId ` of_player (group_key h) (ss @ [s]) \<and>
      is_latest (s_createdAt ` of_player (group_key h) (ss @ [s])) (pg_lastSession h)" if h: "h \<in> set (map f gs)" for h
  proof -
    obtain g' where "g' \<in> set gs" "h = f g'" using h by auto
    then show ?thesis using g [of g'] key [of g'] by simp
  qed
  show ?thesis
    unfolding groups_ok_def add
  proof (intro conjI ballI)
    show "distinct (map group_key (map f gs))" unfolding ks using assms by (simp add: groups_ok_def)
    show "group_key ` set (map f gs) = player_key ` set (ss @ [s])"
      unfolding ks using assms True by (auto simp: groups_ok_def)
  qed (use mem in blast)+
next
  case False
  define n where "n = \<lparr>pg_operatorId = s_operatorId s, pg_playerId = s_playerId s, pg_walletIds = [s_walletId s],
      pg_lastSession = s_createdAt s\<rparr>"
  have add: "add_session s gs = gs @ [n]" using False assms by (simp add: add_session_eq groups_ok_def n_def)
  have "group_key ` set gs = player_key ` set ss" using assms by (simp add: groups_ok_def)
  then have "player_key s \<notin> player_key ` set ss" using False by metis
  then have none: "of_player (player_key s) ss = {}" by (auto simp: of_player_def image_iff)
  have old: "of_player (group_key g) (ss @ [s]) = of_player (group_key g) ss" if "g \<in> set gs" for g
  proof -
    have "group_key g \<in> group_key ` set gs" using that by (rule imageI)
    then have "player_key s \<noteq> group_key g" using False by metis
    then show ?thesis by (auto simp: of_player_snoc)
  qed
  have new: "group_key n = player_key s" "set (pg_walletIds n) = s_walletId ` of_player (group_key n) (ss @ [s])"
    "is_latest (s_createdAt ` of_player (group_key n) (ss @ [s])) (pg_lastSession n)"
    using none by (simp_all add: n_def of_player_snoc is_latest_def)
  show ?thesis
    unfolding groups_ok_def add
  proof (intro conjI ballI)
    show "distinct (map group_key (gs @ [n]))" using assms False new(1) by (simp add: groups_ok_def)
    show "group_key ` set (gs @ [n]) = player_key ` set (ss @ [s])" using assms new(1) by (simp add: groups_ok_def)
    fix g assume "g \<in> set (gs @ [n])"
    then consider "g \<in> set gs" | "g = n" by auto
    then show "set (pg_walletIds g) = s_walletId ` of_player (group_key g) (ss @ [s])"
      "is_latest (s_createdAt ` of_player (group_key g) (ss @ [s])) (pg_lastSession g)"
      using assms new old by (cases; simp add: groups_ok_def)+
  qed
qed

lemma groups_ok_all: "groups_ok ss (player_groups ss)"
proof (induction ss rule: rev_induct)
  case Nil
  then show ?case by (simp add: groups_ok_def player_groups_def)
next
  case (snoc s ss)
  then show ?case using groups_ok_add by (simp add: player_groups_def)
qed

section \<open>Dormant players\<close>

text \<open>What a player did: the times of the sessions and of the bets on their wallets.\<close>

definition player_wallet_ids :: "uid \<times> string \<Rightarrow> 'o world \<Rightarrow> uid set" where
  "player_wallet_ids k w = s_walletId ` of_player k (db_sessions w)"

definition player_times :: "uid \<times> string \<Rightarrow> 'o world \<Rightarrow> int set" where
  "player_times k w = s_createdAt ` of_player k (db_sessions w) \<union> (\<Union>i \<in> player_wallet_ids k w. bet_times w i)"

lemma ex_key: "(\<exists>x \<in> S. f x = k) \<longleftrightarrow> k \<in> f ` S"
  by auto

lemma last_activity_latest:
  assumes "g \<in> set (player_groups (db_sessions w))"
  shows "is_latest (player_times (group_key g) w) (last_activity w g)"
  using assms groups_ok_all [of "db_sessions w"]
    last_activity_fold [of "s_createdAt ` of_player (group_key g) (db_sessions w)" "pg_lastSession g" w "pg_walletIds g"]
  by (simp add: groups_ok_def last_activity_def player_times_def player_wallet_ids_def)

lemma dormant_member:
  "d \<in> set (findDormantPlayers cutoff w) \<longleftrightarrow>
     (let k = (dp_operatorId d, dp_playerId d)
      in of_player k (db_sessions w) \<noteq> {} \<and> (\<forall>i \<in> player_wallet_ids k w. \<not> anon_wallet w i) \<and>
         is_latest (player_times k w) (dp_lastActivity d) \<and> dp_lastActivity d < cutoff)"
proof -
  let ?gs = "player_groups (db_sessions w)"
  define kept where "kept g \<longleftrightarrow> \<not> list_ex (anon_wallet w) (pg_walletIds g) \<and> last_activity w g < cutoff" for g
  define row where "row g = \<lparr>dp_operatorId = pg_operatorId g, dp_playerId = pg_playerId g, dp_lastActivity = last_activity w g\<rparr>" for g
  have find: "findDormantPlayers cutoff w = sort_key dp_lastActivity (map row (filter kept ?gs))"
    by (simp add: findDormantPlayers_def kept_def [abs_def] row_def [abs_def])
  note ok = groups_ok_all [of "db_sessions w"]
  define k where "k = (dp_operatorId d, dp_playerId d)"
  have row_iff: "d = row g \<longleftrightarrow> group_key g = k \<and> dp_lastActivity d = last_activity w g" for g
    by (cases d) (auto simp: row_def k_def)
  have g: "set (pg_walletIds g) = player_wallet_ids k w \<and> is_latest (player_times k w) (last_activity w g)"
    if "g \<in> set ?gs" "group_key g = k" for g
    using that ok last_activity_latest [OF that(1)] by (simp add: groups_ok_def player_wallet_ids_def)
  have key: "(\<exists>g \<in> set ?gs. group_key g = k) \<longleftrightarrow> of_player k (db_sessions w) \<noteq> {}"
  proof -
    have "(\<exists>g \<in> set ?gs. group_key g = k) \<longleftrightarrow> k \<in> group_key ` set ?gs" by (rule ex_key)
    also have "\<dots> \<longleftrightarrow> k \<in> player_key ` set (db_sessions w)" using ok by (simp add: groups_ok_def)
    also have "\<dots> \<longleftrightarrow> of_player k (db_sessions w) \<noteq> {}" by (auto simp: of_player_def)
    finally show ?thesis .
  qed
  have "d \<in> set (findDormantPlayers cutoff w) \<longleftrightarrow> (\<exists>g \<in> set ?gs. kept g \<and> d = row g)"
    unfolding find by auto
  also have "\<dots> \<longleftrightarrow> (\<exists>g \<in> set ?gs. group_key g = k) \<and> (\<forall>i \<in> player_wallet_ids k w. \<not> anon_wallet w i) \<and>
      is_latest (player_times k w) (dp_lastActivity d) \<and> dp_lastActivity d < cutoff"
    unfolding row_iff kept_def list_ex_iff using g is_latest_unique by metis
  finally show ?thesis
    using key by (simp add: k_def [symmetric] Let_def)
qed

text \<open>
  The retention search finds exactly the dormant players. A player is listed, with the time of the
  latest session or bet on any wallet, precisely when the player has a session, no wallet of the player
  belongs to an anonymised user, and everything the player did lies before the cutoff; nobody is listed
  twice and the list starts with the longest dormant.
\<close>

theorem dormant_exact:
  "(d \<in> set (findDormantPlayers cutoff w) \<longleftrightarrow>
     (let k = (dp_operatorId d, dp_playerId d)
      in of_player k (db_sessions w) \<noteq> {} \<and> (\<forall>i \<in> player_wallet_ids k w. \<not> anon_wallet w i) \<and>
         is_latest (player_times k w) (dp_lastActivity d) \<and> dp_lastActivity d < cutoff)) \<and>
   distinct (map (\<lambda>d. (dp_operatorId d, dp_playerId d)) (findDormantPlayers cutoff w)) \<and>
   sorted (map dp_lastActivity (findDormantPlayers cutoff w))"
proof (intro conjI dormant_member)
  let ?gs = "player_groups (db_sessions w)"
  define kept where "kept g \<longleftrightarrow> \<not> list_ex (anon_wallet w) (pg_walletIds g) \<and> last_activity w g < cutoff" for g
  define row where "row g = \<lparr>dp_operatorId = pg_operatorId g, dp_playerId = pg_playerId g, dp_lastActivity = last_activity w g\<rparr>" for g
  have find: "findDormantPlayers cutoff w = sort_key dp_lastActivity (map row (filter kept ?gs))"
    by (simp add: findDormantPlayers_def kept_def [abs_def] row_def [abs_def])
  note ok = groups_ok_all [of "db_sessions w"]
  show "sorted (map dp_lastActivity (findDormantPlayers cutoff w))" unfolding find by simp
  have "inj_on row (set ?gs)" "distinct (map group_key ?gs)"
    using ok by (auto simp: groups_ok_def distinct_map inj_on_def row_def)
  then have "distinct (map group_key (filter kept ?gs))"
    by (simp add: distinct_map inj_on_def)
  moreover have "map (\<lambda>d. (dp_operatorId d, dp_playerId d)) (map row gs) = map group_key gs" for gs
    by (simp add: row_def)
  ultimately have "distinct (map (\<lambda>d. (dp_operatorId d, dp_playerId d)) (map row (filter kept ?gs)))" by metis
  then show "distinct (map (\<lambda>d. (dp_operatorId d, dp_playerId d)) (findDormantPlayers cutoff w))"
    unfolding find by (simp only: distinct_map distinct_sort set_sort)
qed

text \<open>The statement has bounded quantifiers; here it is at a database.\<close>

theorem dormant_exact_witness:
  "findDormantPlayers 5000 acc_db \<noteq> [] \<and> distinct (map (\<lambda>d. (dp_operatorId d, dp_playerId d)) (findDormantPlayers 5000 acc_db))"
proof -
  have "map dp_playerId (findDormantPlayers 5000 acc_db) = [''alice'', ''bob'']" by code_simp
  then show ?thesis
    using dormant_exact [of "\<lparr>dp_operatorId = uuid_a, dp_playerId = ''bob'', dp_lastActivity = 1000\<rparr>" 5000 acc_db]
    by auto
qed

section \<open>What a sweep leaves behind\<close>

lemma sweep_refuses:
  assumes "resolve_users (an_operatorId i) (an_playerId i)
      (''anon:'' @ playerTombstone (ee_hashes env) (ee_pepper env) (an_operatorId i) (an_playerId i)) (st_db st) = users"
    "map w_id (concat (map (wallets_of (st_db st)) users)) = ids"
    "users \<noteq> []" "\<not> list_all (\<lambda>u. u_anonymizedAt u \<noteq> None) users" "ids \<noteq> []" "in_flight ids (st_db st)"
  shows "anonymizePlayer L env i st = (Inl (Bad_request ''player_not_settled''), st)"
  using assms by (auto simp: anonymizePlayer_def Let_def)

text \<open>
  A player who never logged out is never swept. Sessions end only by an explicit logout or revocation,
  not by age, and erasure refuses a player with a session that has not been ended; so a dormant player
  with one unrevoked session, however old, is listed by the retention sweep, skipped as having money in
  flight, and listed again by every later sweep.
\<close>

theorem unrevoked_never_swept:
  assumes inv: "session_inv (st_db st)" "canonical (st_db st)"
    and s: "s \<in> set (db_sessions (st_db st))" "is_live s" "s_operatorId s = dp_operatorId c" "s_playerId s = dp_playerId c"
    and names: "\<not> starts_with (dp_playerId c) ''anon:''"
    and listed: "c \<in> set (findDormantPlayers cutoff (st_db st))"
  shows "sweep_one L env reason c (n, st) = (n\<lparr>sc_skipped := sc_skipped n + 1\<rparr>, st)"
proof -
  define w where "w = st_db st"
  define anonId where "anonId = ''anon:'' @ playerTombstone (ee_hashes env) (ee_pepper env) (dp_operatorId c) (dp_playerId c)"
  define users where "users = resolve_users (dp_operatorId c) (dp_playerId c) anonId w"
  define ids where "ids = map w_id (concat (map (wallets_of w) users))"
  obtain u x where u: "u \<in> set users" "x \<in> set (wallets_of w u)" "w_id x = s_walletId s"
    using sessions_resolved [OF inv s(1,3,4) names, of anonId] by (auto simp: users_def w_def)
  have ids: "s_walletId s \<in> set ids" using u by (force simp: ids_def)
  have "\<not> anon_wallet w (s_walletId s)"
    using listed s(1,3,4) dormant_member [of c cutoff w] by (auto simp: w_def Let_def player_wallet_ids_def of_player_def)
  moreover have "x \<in> set (db_wallets w)" "w_userId x = u_id u" "u \<in> set (db_users w)"
    using u(1,2) by (auto simp: wallets_of_def users_def resolve_users_def live_users_def anon_users_def Let_def)
  moreover have "user_of w x = Some u"
    using find_distinct [of u_id "db_users w" u] calculation(3,4) inv(1)
    by (simp add: user_of_def session_inv_def keys_ok_def w_def)
  ultimately have "u_anonymizedAt u = None" using u(3) by (auto simp: anon_wallet_def)
  then have "\<not> list_all (\<lambda>u. u_anonymizedAt u \<noteq> None) users" using u(1) by (auto simp: list_all_iff)
  moreover have "in_flight ids w"
    using s(1,2) ids by (auto simp: in_flight_def count_where_def filter_empty_conv w_def)
  moreover have "users \<noteq> []" "ids \<noteq> []" using u(1) ids by auto
  ultimately have "anonymizePlayer L env (sweep_input c (reason c)) st = (Inl (Bad_request ''player_not_settled''), st)"
    using sweep_refuses [of "sweep_input c (reason c)" env st users ids L]
    by (simp add: sweep_input_def w_def users_def anonId_def ids_def)
  then show ?thesis by (simp add: sweep_one_def)
qed

definition dormant_bob :: dormant_player where
  "dormant_bob = \<lparr>dp_operatorId = uuid_a, dp_playerId = ''bob'', dp_lastActivity = 1000\<rparr>"

theorem unrevoked_never_swept_witness:
  "snd (sweep_one acc_log acc_erase (\<lambda>c. []) dormant_bob (\<lparr>sc_erased = 0, sc_noop = 0, sc_skipped = 0, sc_errors = 0\<rparr>, acc_site))
     = acc_site"
proof -
  have "acc_session ''s3'' ''bob'' ''w3'' False None \<in> set (db_sessions (st_db acc_site))"
    by (simp add: acc_site_def acc_db_def)
  moreover have "dormant_bob \<in> set (findDormantPlayers 5000 (st_db acc_site))" by code_simp
  moreover have "session_inv (st_db acc_site)" "canonical (st_db acc_site)" "\<not> starts_with (dp_playerId dormant_bob) ''anon:''"
    using acc_inv acc_canonical acc_upper(6) by (simp_all add: acc_site_def dormant_bob_def)
  ultimately show ?thesis
    by (subst unrevoked_never_swept [where s = "acc_session ''s3'' ''bob'' ''w3'' False None" and cutoff = 5000])
      (simp_all add: acc_session_def is_live_def dormant_bob_def)
qed

text \<open>
  A launch that slips in between the checks of an erasure and its writes undoes the erasure for good.
  When such a launch has found the player's wallet before the scrub and records its session after it, the
  erasure reports success, the session keeps the player's id in the clear, and every later erasure of the
  player answers that there is nothing left to do.
\<close>

definition late_env :: "unit open_env" where
  "late_env = acc_open\<lparr>oe_race2 := \<lambda>w. st_db (snd (anonymizePlayer acc_log acc_erase (acc_input ''alice'') (acc_site\<lparr>st_db := w\<rparr>)))\<rparr>"

definition late_site :: "unit site" where
  "late_site = acc_site\<lparr>st_db := snd (openFromToken (acc_jwt uuid_a ''alice'') late_env [keyed_operator] ''ticket'' acc_db)\<rparr>"

lemma late_db:
  "st_db late_site = alice_erased\<lparr>db_sessions := db_sessions alice_erased @
     [new_session acc_open (acc_launch uuid_a ''alice'') ''EUR'' (acc_wallet ''w1'' ''u1'')]\<rparr>"
proof -
  have 1: "launch_verify (acc_jwt uuid_a ''alice'') [keyed_operator] ''ticket'' acc_db = Inr (acc_launch uuid_a ''alice'')"
    "find_tagged acc_db ''EUR'' (session_tag uuid_a ''alice'' ''EUR'' False) = Some (acc_wallet ''w1'' ''u1'')"
    "find_jti alice_erased ''j9'' = None"
    by code_simp+
  have "acc_site\<lparr>st_db := acc_db\<rparr> = acc_site" by (simp add: acc_site_def)
  then have "oe_race2 late_env acc_db = alice_erased" using alice_run(2) by (simp add: late_env_def)
  then show ?thesis
    using 1 bob_wallet(2)
    by (simp add: late_site_def openFromToken_def Let_def acc_launch_def text_or_empty_def open_wallet_def open_session_def)
      (simp add: late_env_def new_session_def)
qed

theorem late_launch_defeats_erasure:
  "fst (anonymizePlayer acc_log acc_erase (acc_input ''alice'') late_site) =
     Inr \<lparr>ar_alreadyAnonymized = True, ar_usersAffected = 2, ar_scrubbedFields = []\<rparr> \<and>
   snd (anonymizePlayer acc_log acc_erase (acc_input ''alice'') late_site) = late_site \<and>
   map (\<lambda>s. s_playerId s = ''alice'') (db_sessions (st_db late_site)) = [False, False, False, True]"
proof -
  define us where "us = resolve_users uuid_a ''alice'' alice_anon (st_db late_site)"
  have u: "map u_id us = [''u1'', ''u2'']" "list_all (\<lambda>u. u_anonymizedAt u \<noteq> None) us"
    unfolding us_def late_db by code_simp+
  have "length us = 2" using arg_cong [OF u(1), of length] by simp
  moreover have "us \<noteq> []" using u(1) by auto
  ultimately have "anonymizePlayer acc_log acc_erase (acc_input ''alice'') late_site =
      (Inr \<lparr>ar_alreadyAnonymized = True, ar_usersAffected = 2, ar_scrubbedFields = []\<rparr>, late_site)"
    using u(2) us_def by (simp add: anonymizePlayer_def Let_def acc_input_def alice_anon_def)
  moreover have "map (\<lambda>s. s_playerId s = ''alice'') (db_sessions (st_db late_site)) = [False, False, False, True]"
    unfolding late_db by code_simp
  ultimately show ?thesis by simp
qed

end
