(* ===== verification/VR_RgTimer.thy ===== *)
theory VR_RgTimer
  imports VR_RiskBoot
begin

text \<open>
  The pure decisions of the gateway (\<open>src/game/game.gateway.ts\<close>): \<open>rgEvaluate\<close>, the timing of
  responsible-gambling events for one socket; \<open>allow\<close>, the message limiter; \<open>resolveReservingStaleMs\<close>,
  the age gate of the reservation sweep. Times are epoch milliseconds.
\<close>

section \<open>Responsible-gambling decisions\<close>

record rg_socket =
  rs_rg :: effective_rg
  rs_startedAt :: int
  rs_dueAt :: "int option"
  rs_pending :: bool
  rs_notified :: bool

record rg_decision =
  rd_emitRealityCheck :: bool
  rd_tripTimeLimit :: bool
  rd_nextDueAt :: "int option"
  rd_nextPending :: bool
  rd_nextNotified :: bool

definition time_limit_reached :: "rg_socket \<Rightarrow> int \<Rightarrow> bool" where
  "time_limit_reached s now \<longleftrightarrow>
     (case rg_maxSessionSec (rs_rg s) of None \<Rightarrow> False | Some m \<Rightarrow> now \<ge> rs_startedAt s + m * 1000)"

definition rgEvaluate :: "rg_socket \<Rightarrow> int \<Rightarrow> rg_decision" where
  "rgEvaluate s now =
     (let base = \<lparr>rd_emitRealityCheck = False, rd_tripTimeLimit = False, rd_nextDueAt = rs_dueAt s,
                  rd_nextPending = rs_pending s, rd_nextNotified = rs_notified s\<rparr>
      in if time_limit_reached s now
         then base\<lparr>rd_tripTimeLimit := \<not> rs_notified s, rd_nextNotified := True\<rparr>
         else (case (rg_realityCheckIntervalSec (rs_rg s), rs_dueAt s) of
                 (Some i, Some due) \<Rightarrow>
                   if now \<ge> due
                   then base\<lparr>rd_emitRealityCheck := True, rd_nextDueAt := Some (now + i * 1000),
                             rd_nextPending := (if rg_enforceRealityCheck (rs_rg s) then True else rs_pending s)\<rparr>
                   else base
               | _ \<Rightarrow> base))"

text \<open>The sweep commits the decision to the socket.\<close>

definition commit_decision :: "rg_decision \<Rightarrow> rg_socket \<Rightarrow> rg_socket" where
  "commit_decision d s =
     s\<lparr>rs_dueAt := rd_nextDueAt d, rs_pending := rd_nextPending d, rs_notified := rd_nextNotified d\<rparr>"

section \<open>The age gate and the message limiter\<close>

definition resolveReservingStaleMs :: "string option \<Rightarrow> rat" where
  "resolveReservingStaleMs raw =
     (case raw of
        None \<Rightarrow> 120
      | Some s \<Rightarrow> (case js_Number s of Fin sec \<Rightarrow> if 30 \<le> sec then sec else 120 | _ \<Rightarrow> 120)) * 1000"

definition WS_MSG_LIMIT :: nat where "WS_MSG_LIMIT = 15"

definition rate_allow :: "int \<Rightarrow> (nat \<times> int) option \<Rightarrow> bool \<times> nat \<times> int" where
  "rate_allow now r =
     (case r of
        None \<Rightarrow> (True, 1, now)
      | Some (n, t) \<Rightarrow> if now - t > 1000 then (True, 1, now) else (n + 1 \<le> WS_MSG_LIMIT, n + 1, t))"

section \<open>Runs of sweeps\<close>

text \<open>The decisions of successive sweeps over one socket, with the times they were made.\<close>

fun sweep_decisions :: "rg_socket \<Rightarrow> int list \<Rightarrow> (int \<times> rg_decision) list" where
  "sweep_decisions s [] = []"
| "sweep_decisions s (t # ts) = (let d = rgEvaluate s t in (t, d) # sweep_decisions (commit_decision d s) ts)"

definition checks :: "(int \<times> rg_decision) list \<Rightarrow> int list" where
  "checks ds = map fst (filter (\<lambda>d. rd_emitRealityCheck (snd d)) ds)"

definition trips :: "(int \<times> rg_decision) list \<Rightarrow> int list" where
  "trips ds = map fst (filter (\<lambda>d. rd_tripTimeLimit (snd d)) ds)"

lemma commit_rg [simp]: "rs_rg (commit_decision d s) = rs_rg s" "rs_startedAt (commit_decision d s) = rs_startedAt s"
  by (simp_all add: commit_decision_def)

lemma limit_commit [simp]: "time_limit_reached (commit_decision d s) now = time_limit_reached s now"
  by (simp add: time_limit_reached_def split: option.split)

lemma checks_Cons: "checks ((t, d) # ds) = (if rd_emitRealityCheck d then [t] else []) @ checks ds"
  by (simp add: checks_def)

lemma trips_Cons: "trips ((t, d) # ds) = (if rd_tripTimeLimit d then [t] else []) @ trips ds"
  by (simp add: trips_def)

lemmas rgEvaluate_cases = rgEvaluate_def Let_def

lemma no_trip_after: "rs_notified s \<Longrightarrow> trips (sweep_decisions s ts) = []"
proof (induction ts arbitrary: s)
  case Nil
  then show ?case by (simp add: trips_def)
next
  case (Cons t ts)
  have "rs_notified (commit_decision (rgEvaluate s t) s)" "\<not> rd_tripTimeLimit (rgEvaluate s t)"
    using Cons.prems by (auto simp: rgEvaluate_cases commit_decision_def split: option.split)
  then show ?case using Cons.IH by (simp add: Let_def trips_Cons)
qed

lemma trip_once: "length (trips (sweep_decisions s ts)) \<le> 1"
proof (induction ts arbitrary: s)
  case Nil
  then show ?case by (simp add: trips_def)
next
  case (Cons t ts)
  show ?case
  proof (cases "rd_tripTimeLimit (rgEvaluate s t)")
    case True
    then have "rs_notified (commit_decision (rgEvaluate s t) s)"
      by (auto simp: rgEvaluate_cases commit_decision_def split: option.splits if_splits)
    then show ?thesis using no_trip_after by (simp add: Let_def trips_Cons)
  next
    case False
    then show ?thesis using Cons.IH by (simp add: Let_def trips_Cons)
  qed
qed

text \<open>Checks come at least one interval apart, and never at or after the time limit.\<close>

definition due_from :: "rg_socket \<Rightarrow> int \<Rightarrow> bool" where
  "due_from s b \<longleftrightarrow> (case rs_dueAt s of None \<Rightarrow> True | Some d \<Rightarrow> b \<le> d)"

fun spaced :: "int \<Rightarrow> int list \<Rightarrow> bool" where
  "spaced g (t # u # ts) = (t + g \<le> u \<and> spaced g (u # ts))"
| "spaced g _ = True"

lemma check_due:
  assumes "rd_emitRealityCheck (rgEvaluate s t)" "rg_realityCheckIntervalSec (rs_rg s) = Some i"
  shows "rs_dueAt s \<noteq> None \<and> the (rs_dueAt s) \<le> t \<and> \<not> time_limit_reached s t \<and>
    rs_dueAt (commit_decision (rgEvaluate s t) s) = Some (t + i * 1000)"
  using assms by (auto simp: rgEvaluate_cases commit_decision_def split: option.splits if_splits)

lemma no_check_due:
  "\<not> rd_emitRealityCheck (rgEvaluate s t) \<Longrightarrow> rs_dueAt (commit_decision (rgEvaluate s t) s) = rs_dueAt s"
  by (auto simp: rgEvaluate_cases commit_decision_def split: option.splits if_splits)

lemma no_check_interval: "rg_realityCheckIntervalSec (rs_rg s) = None \<Longrightarrow> checks (sweep_decisions s ts) = []"
proof (induction ts arbitrary: s)
  case Nil
  then show ?case by (simp add: checks_def)
next
  case (Cons t ts)
  have "\<not> rd_emitRealityCheck (rgEvaluate s t)" using Cons.prems by (simp add: rgEvaluate_cases)
  then show ?case using Cons by (simp add: Let_def checks_Cons)
qed

lemma checks_spaced:
  assumes "rg_realityCheckIntervalSec (rs_rg s) = Some i" "0 \<le> i" "due_from s b"
  shows "spaced (i * 1000) (checks (sweep_decisions s ts)) \<and>
    (\<forall>c \<in> set (checks (sweep_decisions s ts)). b \<le> c \<and> \<not> time_limit_reached s c)"
  using assms
proof (induction ts arbitrary: s b)
  case Nil
  then show ?case by (simp add: checks_def)
next
  case (Cons t ts)
  let ?s = "commit_decision (rgEvaluate s t) s"
  show ?case
  proof (cases "rd_emitRealityCheck (rgEvaluate s t)")
    case True
    note c = check_due [OF True Cons.prems(1)]
    then have "due_from ?s (t + i * 1000)" "b \<le> t" using Cons.prems(3) by (auto simp: due_from_def)
    moreover have "b \<le> u" if "t + i * 1000 \<le> u" for u using \<open>b \<le> t\<close> Cons.prems(2) that by linarith
    ultimately show ?thesis using Cons.IH [of ?s "t + i * 1000"] Cons.prems(1,2) c
      by (cases "checks (sweep_decisions ?s ts)") (auto simp: Let_def checks_Cons True)
  next
    case False
    then have "due_from ?s b" using Cons.prems(3) no_check_due by (simp add: due_from_def)
    with Cons.IH [of ?s b] Cons.prems(1,2) False show ?thesis by (simp add: Let_def checks_Cons)
  qed
qed


text \<open>A sweep announces the end of a session once, however often it runs. Reality checks fire at least
  one configured interval apart, the first one not before it is due, and none fires once the session's time
  is up.\<close>

theorem reality_checks_spaced:
  assumes "rg_realityCheckIntervalSec (rs_rg s) = Some i" "0 < i" "rs_dueAt s = Some d"
  shows "spaced (i * 1000) (checks (sweep_decisions s ts)) \<and>
    (\<forall>c \<in> set (checks (sweep_decisions s ts)). d \<le> c \<and> \<not> time_limit_reached s c) \<and>
    length (trips (sweep_decisions s ts)) \<le> 1"
  using checks_spaced [of s i d ts] trip_once assms by (simp add: due_from_def)

definition timed_socket :: rg_socket where
  "timed_socket =
     \<lparr>rs_rg = \<lparr>rg_realityCheckIntervalSec = Some 60, rg_maxSessionSec = Some 180, rg_enforceRealityCheck = True,
               rg_maxSessionLoss = None, rg_maxSessionWager = None\<rparr>,
      rs_startedAt = 1000, rs_dueAt = Some 61000, rs_pending = False, rs_notified = False\<rparr>"

lemma reality_checks_spaced_witness:
  "spaced 60000 (checks (sweep_decisions timed_socket [60000, 65000, 124000, 126000, 181000, 186000])) \<and>
   checks (sweep_decisions timed_socket [60000, 65000, 124000, 126000, 181000, 186000]) = [65000, 126000] \<and>
   trips (sweep_decisions timed_socket [60000, 65000, 124000, 126000, 181000, 186000]) = [181000]"
  using reality_checks_spaced [of timed_socket 60 61000 "[60000, 65000, 124000, 126000, 181000, 186000]"]
  by (simp add: timed_socket_def checks_def trips_def rgEvaluate_def commit_decision_def time_limit_reached_def Let_def)

section \<open>Runs of the limiter\<close>

text \<open>The times of the messages let through, of those that arrived at the given times.\<close>

fun allowed :: "(nat \<times> int) option \<Rightarrow> int list \<Rightarrow> int list" where
  "allowed r [] = []"
| "allowed r (t # ts) = (let (ok, r') = rate_allow t r in (if ok then [t] else []) @ allowed (Some r') ts)"

definition in_second :: "int \<Rightarrow> int list \<Rightarrow> nat" where
  "in_second T ts = length (filter (\<lambda>t. T \<le> t \<and> t \<le> T + 1000) ts)"

lemma in_second_simps [simp]:
  "in_second T [] = 0" "in_second T (xs @ ys) = in_second T xs + in_second T ys"
  "in_second T (t # ts) = (if T \<le> t \<and> t \<le> T + 1000 then 1 else 0) + in_second T ts"
  by (simp_all add: in_second_def)

lemma allowed_subset: "set (allowed r ts) \<subseteq> set ts"
proof (induction ts arbitrary: r)
  case (Cons t ts)
  show ?case using Cons.IH [of "Some (snd (rate_allow t r))"] by (auto simp: split_beta)
qed simp

lemma allowed_late:
  assumes "\<forall>t \<in> set ts. T + 1000 < t"
  shows "in_second T (allowed r ts) = 0"
proof -
  have "\<not> (T \<le> t \<and> t \<le> T + 1000)" if "t \<in> set (allowed r ts)" for t
    using that allowed_subset [of r ts] assms by fastforce
  then show ?thesis by (simp add: in_second_def filter_empty_conv)
qed

lemma allowed_from:
  assumes "sorted ts" "\<forall>t \<in> set ts. T \<le> t"
  shows "in_second T (allowed (Some (n, s)) ts) \<le> (if T \<le> s then 0 else 15) + (15 - n)"
  using assms
proof (induction ts arbitrary: n s)
  case (Cons u ts)
  show ?case
  proof (cases "u - s > 1000")
    case True
    have "T \<le> s \<Longrightarrow> \<forall>t \<in> set (u # ts). T + 1000 < t" using True Cons.prems(1) by force
    moreover have "in_second T (allowed (Some (1, u)) ts) \<le> 14" using Cons.IH [of 1 u] Cons.prems by simp
    ultimately show ?thesis using True allowed_late [of "u # ts" T "Some (n, s)"]
      by (cases "T \<le> s") (auto simp: rate_allow_def split: if_splits)
  next
    case False
    then show ?thesis using Cons.IH [of "Suc n" s] Cons.prems by (auto simp: rate_allow_def WS_MSG_LIMIT_def)
  qed
qed simp

lemma allowed_running:
  assumes "sorted ts" "1 \<le> n"
  shows "in_second T (allowed (Some (n, s)) ts) \<le> 29"
  using assms
proof (induction ts arbitrary: n s)
  case (Cons u ts)
  show ?case
  proof (cases "T \<le> u")
    case True
    then have "\<forall>t \<in> set (u # ts). T \<le> t" using Cons.prems(1) by auto
    then have "in_second T (allowed (Some (n, s)) (u # ts)) \<le> 15 + (15 - n)"
      using allowed_from [OF Cons.prems(1), of T n s] by (auto split: if_splits)
    then show ?thesis using Cons.prems(2) by linarith
  next
    case False
    then show ?thesis using Cons.IH [of 1 u] Cons.IH [of "Suc n" s] Cons.prems by (auto simp: rate_allow_def)
  qed
qed simp

text \<open>Of the messages one socket sends, at most 29 are let through in any second, boundaries included,
  and 29 can be: the count starts afresh with the first message after a second, so two windows of 15 touch.\<close>

theorem limiter_bound:
  assumes "sorted ts"
  shows "in_second T (allowed None ts) \<le> 29 \<and>
    in_second 1 (allowed None ([0] @ replicate 20 1000 @ replicate 20 1001)) = 29"
proof
  show "in_second T (allowed None ts) \<le> 29"
  proof (cases ts)
    case (Cons u us)
    show ?thesis
    proof (cases "T \<le> u")
      case True
      then have "\<forall>t \<in> set us. T \<le> t" using assms Cons by auto
      then show ?thesis using allowed_from [of us T 1 u] assms Cons True by (auto simp: rate_allow_def split: if_splits)
    next
      case False
      then show ?thesis using allowed_running [of us 1 T u] assms Cons by (simp add: rate_allow_def)
    qed
  qed simp
  show "in_second 1 (allowed None ([0] @ replicate 20 1000 @ replicate 20 1001)) = 29" by code_simp
qed

lemma limiter_bound_witness: "in_second 0 (allowed None [0, 0, 500]) \<le> 29"
  using limiter_bound [of "[0, 0, 500]" 0] by simp

lemma reserving_gate: "30000 \<le> resolveReservingStaleMs raw"
  by (simp add: resolveReservingStaleMs_def split: option.split js_num.split)

end
