(* ===== verification/VR_Gateway.thy ===== *)
theory VR_Gateway
  imports VR_Retention VR_RgTimer VR_EngineResume "HOL-Library.AList"
begin

text \<open>
  The WebSocket gateway (\<open>src/game/game.gateway.ts\<close>, \<open>src/game/ws-schemas.ts\<close>) of one node: what a
  connection keeps, the handlers of the player's messages, the timers. \<open>gateway\<close> holds the server's socket
  registry with each socket's \<open>client.data\<close>, the map from users to sockets, the message counters and what
  was emitted; the database is beside it. A handler is one step, with what its awaits can return as
  arguments (\<open>conn_env\<close>, \<open>msg_env\<close>, \<open>rg_env\<close>). Claims are those of verified tokens: the code reads
  \<open>sub\<close>, \<open>walletId\<close>, \<open>sessionId\<close>, \<open>currency\<close> and \<open>operatorId\<close> as the texts this server signs, and
  \<open>sessionStartedAt\<close> as its integer. The overlap guards are the arguments \<open>busy\<close>. Metrics are left out.
\<close>

section \<open>State\<close>

type_synonym sock = string

record socket_data =
  sd_userId :: "uid option"
  sd_walletId :: "uid option"
  sd_limits :: "per_bet_limits option"
  sd_demo :: bool
  sd_sessionId :: "uid option"
  sd_currency :: "string option"
  sd_operatorId :: "uid option"
  sd_startedAt :: "int option"
  sd_rg :: "effective_rg option"
  sd_notified :: bool
  sd_pending :: bool
  sd_dueAt :: "int option"

definition blank_socket :: socket_data where
  "blank_socket =
     \<lparr>sd_userId = None, sd_walletId = None, sd_limits = None, sd_demo = False, sd_sessionId = None,
      sd_currency = None, sd_operatorId = None, sd_startedAt = None, sd_rg = None, sd_notified = False,
      sd_pending = False, sd_dueAt = None\<rparr>"

datatype ws_event =
    Round_state public_state
  | Round_crashed uid
  | Round_settled uid
  | Multiplier_update uid int int
  | Bet_accepted bet_result
  | Bet_rejected bet_result
  | Bet_cancelled bet_result
  | Cashout_accepted cashout_result bool
  | Cashout_rejected cashout_result
  | Balance_updated string int
  | Bet_busted panel
  | Session_time_limit "int option"
  | Reality_check int accounting string bool

datatype audience = To_socket sock | To_user uid | Everyone

record gateway =
  gw_sockets :: "(sock \<times> socket_data) list"
  gw_users :: "(uid \<times> sock) list"
  gw_rate :: "(sock \<times> nat \<times> int) list"
  gw_sent :: "(audience \<times> ws_event) list"

definition send :: "audience \<Rightarrow> ws_event \<Rightarrow> gateway \<Rightarrow> gateway" where
  "send a e g = g\<lparr>gw_sent := gw_sent g @ [(a, e)]\<rparr>"

definition socket_of :: "gateway \<Rightarrow> sock \<Rightarrow> socket_data option" where
  "socket_of g = map_of (gw_sockets g)"

definition user_socket :: "gateway \<Rightarrow> uid \<Rightarrow> sock option" where
  "user_socket g = map_of (gw_users g)"

definition set_socket :: "sock \<Rightarrow> socket_data \<Rightarrow> gateway \<Rightarrow> gateway" where
  "set_socket c d g = g\<lparr>gw_sockets := AList.update c d (gw_sockets g)\<rparr>"

definition send_state :: "audience \<Rightarrow> public_state option \<Rightarrow> gateway \<Rightarrow> gateway" where
  "send_state a s g = (case s of None \<Rightarrow> g | Some ps \<Rightarrow> send a (Round_state ps) g)"

definition allow :: "int \<Rightarrow> sock \<Rightarrow> gateway \<Rightarrow> bool \<times> gateway" where
  "allow now c g =
     (case rate_allow now (map_of (gw_rate g) c) of
        (ok, r) \<Rightarrow> (ok, g\<lparr>gw_rate := AList.update c r (gw_rate g)\<rparr>))"

section \<open>Connecting and disconnecting\<close>

definition handleDisconnect :: "sock \<Rightarrow> gateway \<Rightarrow> gateway" where
  "handleDisconnect c g =
     (case socket_of g c of
        None \<Rightarrow> g
      | Some d \<Rightarrow>
          let g1 = (case sd_userId d of
                      None \<Rightarrow> g
                    | Some u \<Rightarrow> if user_socket g u = Some c then g\<lparr>gw_users := AList.delete u (gw_users g)\<rparr> else g)
          in g1\<lparr>gw_rate := AList.delete c (gw_rate g1), gw_sockets := AList.delete c (gw_sockets g1)\<rparr>)"

definition claim_text :: "json \<Rightarrow> string \<Rightarrow> string option" where
  "claim_text payload k = (case jget payload k of Some (JStr s) \<Rightarrow> Some s | _ \<Rightarrow> None)"

definition js_num_text :: "string \<Rightarrow> rat option" where
  "js_num_text s = (case js_Number s of Fin r \<Rightarrow> Some r | _ \<Rightarrow> None)"

definition started_claim :: "(json \<Rightarrow> string) \<Rightarrow> json \<Rightarrow> int option" where
  "started_claim prim payload =
     (case jget payload ''sessionStartedAt'' of
        None \<Rightarrow> None | Some j \<Rightarrow> map_option floor (js_number js_num_text prim j))"

definition check_interval :: "effective_rg \<Rightarrow> int option" where
  "check_interval rg = (case rg_realityCheckIntervalSec rg of None \<Rightarrow> None | Some i \<Rightarrow> if i = 0 then None else Some i)"

record conn_env =
  ce_verify :: "string \<Rightarrow> json option"
  ce_prim :: "json \<Rightarrow> string"
  ce_liveFails :: bool
  ce_reloadFails :: bool

text \<open>The pause and the clock of the session row; when they cannot be read, the pause is assumed.\<close>

definition restored_check :: "conn_env \<Rightarrow> effective_rg \<Rightarrow> json \<Rightarrow> 'o world \<Rightarrow> bool \<times> int option" where
  "restored_check E rg payload w =
     (case (check_interval rg, truthy (claim_text payload ''sessionId'')) of
        (Some i, Some sid) \<Rightarrow> if ce_reloadFails E then (True, None) else loadRealityCheckState sid w
      | _ \<Rightarrow> (False, None))"

text \<open>
  The handler has an await in its middle: \<open>client.data\<close> has the user, the session and the controls before the
  reality-check state is read back, and the pause and the clock after it. \<open>connect_open\<close> runs up to that await
  and \<open>connect_join\<close> from there; \<open>handleConnection\<close> is both, when nothing comes between them.
\<close>

definition claims_socket :: "conn_env \<Rightarrow> json \<Rightarrow> uid \<Rightarrow> socket_data" where
  "claims_socket E payload u =
     (let d = blank_socket\<lparr>sd_userId := Some u, sd_walletId := truthy (claim_text payload ''walletId''),
                sd_limits := deserializeBetLimits (ce_prim E) (jget payload ''limits''),
                sd_demo := (jget payload ''demo'' = Some (JBool True)),
                sd_sessionId := claim_text payload ''sessionId'', sd_currency := claim_text payload ''currency'',
                sd_operatorId := claim_text payload ''operatorId''\<rparr>
      in case (deserializeRg js_num_text (ce_prim E) (jget payload ''rg''), started_claim (ce_prim E) payload) of
           (Some rg, Some t) \<Rightarrow> d\<lparr>sd_startedAt := Some t, sd_rg := Some rg, sd_notified := False\<rparr>
         | _ \<Rightarrow> d)"

definition restore_check :: "conn_env \<Rightarrow> json \<Rightarrow> 'o world \<Rightarrow> socket_data \<Rightarrow> socket_data" where
  "restore_check E payload w d =
     (case (sd_rg d, sd_startedAt d) of
        (Some rg, Some t) \<Rightarrow>
          let (pending, dueAt) = restored_check E rg payload w
          in d\<lparr>sd_pending := pending,
               sd_dueAt := (case dueAt of Some x \<Rightarrow> Some x
                            | None \<Rightarrow> map_option (\<lambda>i. t + i * 1000) (check_interval rg))\<rparr>
      | _ \<Rightarrow> d)"

definition accepted_claims :: "conn_env \<Rightarrow> string option \<Rightarrow> 'o world \<Rightarrow> (uid \<times> json) option" where
  "accepted_claims E token w =
     (case truthy token of
        None \<Rightarrow> None
      | Some t \<Rightarrow>
          (case ce_verify E t of
             None \<Rightarrow> None
           | Some payload \<Rightarrow>
               if jget payload ''kind'' = Some (JStr ''operator'') \<and>
                  (case truthy (claim_text payload ''sessionId'') of
                     None \<Rightarrow> False | Some sid \<Rightarrow> ce_liveFails E \<or> \<not> isLive sid w)
               then None
               else map_option (\<lambda>u. (u, payload)) (claim_text payload ''sub'')))"

text \<open>The user and the data of a socket that signs in without interruption.\<close>

definition claimed_socket :: "conn_env \<Rightarrow> json \<Rightarrow> uid \<Rightarrow> 'o world \<Rightarrow> socket_data" where
  "claimed_socket E payload u w = restore_check E payload w (claims_socket E payload u)"

definition authenticate :: "conn_env \<Rightarrow> string option \<Rightarrow> 'o world \<Rightarrow> (uid \<times> socket_data) option" where
  "authenticate E token w =
     map_option (\<lambda>(u, payload). (u, claimed_socket E payload u w)) (accepted_claims E token w)"

lemma claimed_socket_eq:
  "claimed_socket E payload u w =
     (let d = blank_socket\<lparr>sd_userId := Some u, sd_walletId := truthy (claim_text payload ''walletId''),
                sd_limits := deserializeBetLimits (ce_prim E) (jget payload ''limits''),
                sd_demo := (jget payload ''demo'' = Some (JBool True)),
                sd_sessionId := claim_text payload ''sessionId'', sd_currency := claim_text payload ''currency'',
                sd_operatorId := claim_text payload ''operatorId''\<rparr>
      in case (deserializeRg js_num_text (ce_prim E) (jget payload ''rg''), started_claim (ce_prim E) payload) of
           (Some rg, Some t) \<Rightarrow>
             let (pending, dueAt) = restored_check E rg payload w
             in d\<lparr>sd_startedAt := Some t, sd_rg := Some rg, sd_notified := False, sd_pending := pending,
                  sd_dueAt := (case dueAt of Some x \<Rightarrow> Some x
                               | None \<Rightarrow> map_option (\<lambda>i. t + i * 1000) (check_interval rg))\<rparr>
         | _ \<Rightarrow> d)"
  by (simp add: claimed_socket_def restore_check_def claims_socket_def blank_socket_def Let_def split: option.split prod.split)

lemma authenticate_eq:
  "authenticate E token w =
     (case truthy token of
        None \<Rightarrow> None
      | Some t \<Rightarrow>
          (case ce_verify E t of
             None \<Rightarrow> None
           | Some payload \<Rightarrow>
               if jget payload ''kind'' = Some (JStr ''operator'') \<and>
                  (case truthy (claim_text payload ''sessionId'') of
                     None \<Rightarrow> False | Some sid \<Rightarrow> ce_liveFails E \<or> \<not> isLive sid w)
               then None
               else map_option (\<lambda>u. (u, claimed_socket E payload u w)) (claim_text payload ''sub'')))"
  by (simp add: authenticate_def accepted_claims_def option.map_comp comp_def split: option.split)

definition connect_open :: "conn_env \<Rightarrow> sock \<Rightarrow> (uid \<times> json) option \<Rightarrow> gateway \<Rightarrow> gateway" where
  "connect_open E c claims g =
     (let g0 = set_socket c blank_socket g
      in case claims of None \<Rightarrow> g0 | Some (u, payload) \<Rightarrow> set_socket c (claims_socket E payload u) g0)"

text \<open>One game socket per user on this node: the previous one is dropped.\<close>

definition connect_join ::
  "conn_env \<Rightarrow> public_state option \<Rightarrow> sock \<Rightarrow> (uid \<times> json) option \<Rightarrow> 'o world \<Rightarrow> gateway \<Rightarrow> gateway" where
  "connect_join E s c claims w g =
     send_state (To_socket c) s
       (case claims of
          None \<Rightarrow> g
        | Some (u, payload) \<Rightarrow>
            let g1 = (case socket_of g c of None \<Rightarrow> g | Some d \<Rightarrow> set_socket c (restore_check E payload w d) g);
                g2 = (case user_socket g1 u of
                        None \<Rightarrow> g1 | Some prev \<Rightarrow> if prev \<noteq> c then handleDisconnect prev g1 else g1)
            in g2\<lparr>gw_users := AList.update u c (gw_users g2)\<rparr>)"

definition handleConnection ::
  "conn_env \<Rightarrow> public_state option \<Rightarrow> sock \<Rightarrow> string option \<Rightarrow> 'o world \<Rightarrow> gateway \<Rightarrow> gateway" where
  "handleConnection E s c token w g =
     (let claims = accepted_claims E token w in connect_join E s c claims w (connect_open E c claims g))"

section \<open>Message schemas\<close>

definition panel_field :: "json \<Rightarrow> panel option" where
  "panel_field body =
     (case jget body ''panel'' of
        Some (JStr s) \<Rightarrow> if s = ''A'' then Some PanelA else if s = ''B'' then Some PanelB else None
      | _ \<Rightarrow> None)"

definition MAX_SAFE_INTEGER :: rat where "MAX_SAFE_INTEGER = 9007199254740991"

definition placeSchema :: "json \<Rightarrow> (panel \<times> rat \<times> rat option) option" where
  "placeSchema body =
     (if \<not> is_object (Some body) then None
      else case (panel_field body, jget body ''amount'', jget body ''autoCashout'') of
        (Some p, Some (JNum a), auto) \<Rightarrow>
          if 0 < a \<and> a \<le> MAX_SAFE_INTEGER
          then (case auto of
                  None \<Rightarrow> Some (p, a, None)
                | Some (JNum m) \<Rightarrow> if 1 < m then Some (p, a, Some m) else None
                | Some _ \<Rightarrow> None)
          else None
      | _ \<Rightarrow> None)"

definition panelSchema :: "json \<Rightarrow> panel option" where
  "panelSchema body = (if is_object (Some body) then panel_field body else None)"

definition timeSyncSchema :: "json \<Rightarrow> rat option option" where
  "timeSyncSchema body =
     (if \<not> is_object (Some body) then None
      else case jget body ''t0'' of None \<Rightarrow> Some None | Some (JNum t) \<Rightarrow> Some (Some t) | Some _ \<Rightarrow> None)"

section \<open>Messages\<close>

datatype ack =
    Rate_limited
  | Not_authenticated
  | Invalid_payload
  | Session_revoked panel
  | Ok
  | Synced "rat option" int
  | Bet_ack bet_result
  | Cash_ack cashout_result
  | Thrown exn

record msg_env =
  me_liveFails :: bool
  me_ackFails :: bool
  me_place :: place_faults
  me_betId :: uid

definition onSubscribe :: "int \<Rightarrow> public_state option \<Rightarrow> sock \<Rightarrow> gateway \<Rightarrow> ack \<times> gateway" where
  "onSubscribe now s c g =
     (let (ok, g1) = allow now c g
      in if \<not> ok then (Rate_limited, g1) else (Ok, send_state (To_socket c) s g1))"

definition onTimeSync :: "int \<Rightarrow> sock \<Rightarrow> json \<Rightarrow> gateway \<Rightarrow> ack \<times> gateway" where
  "onTimeSync now c body g =
     (let (ok, g1) = allow now c g
      in if \<not> ok then (Rate_limited, g1)
         else (Synced (case timeSyncSchema body of None \<Rightarrow> None | Some t0 \<Rightarrow> t0) now, g1))"

text \<open>What the bet service is called with. The auto cash-out target is stored as a Decimal(10,2).\<close>

definition socket_args :: "socket_data \<Rightarrow> uid \<Rightarrow> panel \<Rightarrow> rat \<Rightarrow> rat option \<Rightarrow> place_args" where
  "socket_args d u p amount auto =
     \<lparr>pa_userId = u, pa_panel = p, pa_amount = amount, pa_autoCashout = map_option cents_of auto,
      pa_walletId = sd_walletId d, pa_limits = sd_limits d, pa_demo = sd_demo d,
      pa_rgCtx = Some \<lparr>rgc_rg = sd_rg d, rgc_pending = sd_pending d, rgc_startedAt = sd_startedAt d\<rparr>,
      pa_operatorId = sd_operatorId d\<rparr>"

definition decimal_fits :: "rat option \<Rightarrow> bool" where
  "decimal_fits auto = (case auto of None \<Rightarrow> True | Some m \<Rightarrow> cents_of m < 10 ^ 10)"

definition send_bet :: "sock \<Rightarrow> ws_event \<Rightarrow> bet_result \<Rightarrow> gateway \<Rightarrow> gateway" where
  "send_bet c e r g =
     (let g1 = send (To_socket c) e g
      in case (br_ok r, br_balance r) of
           (True, Some b) \<Rightarrow>
             send (To_socket c) (Balance_updated (case br_currency r of None \<Rightarrow> ''DEMO'' | Some x \<Rightarrow> x) b) g1
         | _ \<Rightarrow> g1)"

definition onPlaceBet ::
  "msg_env \<Rightarrow> 'o bets_ctx \<Rightarrow> sock \<Rightarrow> json \<Rightarrow> gateway \<Rightarrow> 'o world \<Rightarrow> ack \<times> gateway \<times> 'o world" where
  "onPlaceBet M ctx c body g w =
     (let (ok, g1) = allow (bc_now ctx) c g
      in if \<not> ok then (Rate_limited, g1, w)
         else case socket_of g1 c of
           None \<Rightarrow> (Not_authenticated, g1, w)
         | Some d \<Rightarrow>
             (case truthy (sd_userId d) of
                None \<Rightarrow> (Not_authenticated, g1, w)
              | Some u \<Rightarrow>
                  (case placeSchema body of
                     None \<Rightarrow> (Invalid_payload, g1, w)
                   | Some (p, amount, auto) \<Rightarrow>
                       if (case truthy (sd_sessionId d) of
                             None \<Rightarrow> False | Some sid \<Rightarrow> \<not> (me_liveFails M \<or> isLive sid w))
                       then (Session_revoked p, g1, w)
                       else
                         let f = (me_place M)\<lparr>pf_reserve := pf_reserve (me_place M) \<or> \<not> decimal_fits auto\<rparr>;
                             (r, w1) = placeBet f ctx (socket_args d u p amount auto) (me_betId M) w
                         in (Bet_ack r, send_bet c (if br_ok r then Bet_accepted r else Bet_rejected r) r g1, w1))))"

definition onCancelBet ::
  "'o bets_ctx \<Rightarrow> sock \<Rightarrow> json \<Rightarrow> gateway \<Rightarrow> 'o world \<Rightarrow> ack \<times> gateway \<times> 'o world" where
  "onCancelBet ctx c body g w =
     (let (ok, g1) = allow (bc_now ctx) c g
      in if \<not> ok then (Rate_limited, g1, w)
         else case socket_of g1 c of
           None \<Rightarrow> (Not_authenticated, g1, w)
         | Some d \<Rightarrow>
             (case truthy (sd_userId d) of
                None \<Rightarrow> (Not_authenticated, g1, w)
              | Some u \<Rightarrow>
                  (case panelSchema body of
                     None \<Rightarrow> (Invalid_payload, g1, w)
                   | Some p \<Rightarrow>
                       (case cancelBet ctx u p w of
                          (Inl e, w1) \<Rightarrow> (Thrown e, g1, w1)
                        | (Inr r, w1) \<Rightarrow>
                            (Bet_ack r, send_bet c (if br_ok r then Bet_cancelled r else Bet_rejected r) r g1, w1)))))"

definition send_cash :: "audience \<Rightarrow> bool \<Rightarrow> cashout_result \<Rightarrow> gateway \<Rightarrow> gateway" where
  "send_cash a auto r g =
     (let g1 = send a (if co_ok r then Cashout_accepted r auto else Cashout_rejected r) g
      in case (co_ok r, co_balance r) of
           (True, Some b) \<Rightarrow> send a (Balance_updated (case co_currency r of None \<Rightarrow> ''DEMO'' | Some x \<Rightarrow> x) b) g1
         | _ \<Rightarrow> g1)"

definition onCashOut ::
  "'o bets_ctx \<Rightarrow> sock \<Rightarrow> json \<Rightarrow> gateway \<Rightarrow> 'o world \<Rightarrow> ack \<times> gateway \<times> 'o world" where
  "onCashOut ctx c body g w =
     (let (ok, g1) = allow (bc_now ctx) c g
      in if \<not> ok then (Rate_limited, g1, w)
         else case socket_of g1 c of
           None \<Rightarrow> (Not_authenticated, g1, w)
         | Some d \<Rightarrow>
             (case truthy (sd_userId d) of
                None \<Rightarrow> (Not_authenticated, g1, w)
              | Some u \<Rightarrow>
                  (case panelSchema body of
                     None \<Rightarrow> (Invalid_payload, g1, w)
                   | Some p \<Rightarrow>
                       (case cashOut ctx u p None w of
                          (Inl e, w1) \<Rightarrow> (Thrown e, g1, w1)
                        | (Inr r, w1) \<Rightarrow> (Cash_ack r, send_cash (To_socket c) False r g1, w1)))))"

definition onRealityCheckAck ::
  "msg_env \<Rightarrow> int \<Rightarrow> sock \<Rightarrow> gateway \<Rightarrow> 'o world \<Rightarrow> ack \<times> gateway \<times> 'o world" where
  "onRealityCheckAck M now c g w =
     (let (ok, g1) = allow now c g
      in if \<not> ok then (Rate_limited, g1, w)
         else case socket_of g1 c of
           None \<Rightarrow> (Not_authenticated, g1, w)
         | Some d \<Rightarrow>
             (case (truthy (sd_userId d), sd_rg d) of
                (Some u, Some rg) \<Rightarrow>
                  let nextDueAt = map_option (\<lambda>i. now + i * 1000) (check_interval rg);
                      d1 = d\<lparr>sd_pending := False,
                             sd_dueAt := (case nextDueAt of None \<Rightarrow> sd_dueAt d | Some t \<Rightarrow> Some t)\<rparr>
                  in (Ok, set_socket c d1 g1,
                      (case truthy (sd_sessionId d) of
                         None \<Rightarrow> w | Some sid \<Rightarrow> if me_ackFails M then w else ackRealityCheck now sid nextDueAt w))
              | _ \<Rightarrow> (Not_authenticated, g1, w)))"

section \<open>The responsible-gambling sweep\<close>

record rg_env =
  re_busy :: bool
  re_liveFails :: bool
  re_accFails :: "sock \<Rightarrow> bool"
  re_persistFails :: "sock \<Rightarrow> bool"

definition disconnect_all :: "sock list \<Rightarrow> gateway \<Rightarrow> gateway" where
  "disconnect_all cs g = fold handleDisconnect cs g"

text \<open>The user sockets of this node that carry a session, with the session.\<close>

definition carried_sessions :: "gateway \<Rightarrow> (sock \<times> uid) list" where
  "carried_sessions g =
     List.map_filter (\<lambda>(u, c). case socket_of g c of
        None \<Rightarrow> None | Some d \<Rightarrow> map_option (Pair c) (truthy (sd_sessionId d))) (gw_users g)"

definition disconnectRevokedSockets :: "'o world \<Rightarrow> gateway \<Rightarrow> gateway" where
  "disconnectRevokedSockets w g =
     (let notLive = findNotLive (remdups (map snd (carried_sessions g))) w
      in disconnect_all (map fst (filter (\<lambda>(c, sid). sid \<in> set notLive) (carried_sessions g))) g)"

definition rg_view :: "socket_data \<Rightarrow> effective_rg \<Rightarrow> int \<Rightarrow> rg_socket" where
  "rg_view d rg startedAt =
     \<lparr>rs_rg = rg, rs_startedAt = startedAt, rs_dueAt = sd_dueAt d, rs_pending = sd_pending d,
      rs_notified = sd_notified d\<rparr>"

definition reality_check_event :: "rg_env \<Rightarrow> int \<Rightarrow> sock \<Rightarrow> socket_data \<Rightarrow> effective_rg \<Rightarrow> int \<Rightarrow> 'o world \<Rightarrow> ws_event" where
  "reality_check_event E now c d rg startedAt w =
     Reality_check (max 0 ((now - startedAt) div 1000))
       (case truthy (sd_walletId d) of
          None \<Rightarrow> \<lparr>ac_wagered = 0, ac_won = 0, ac_net = 0\<rparr>
        | Some i \<Rightarrow> if re_accFails E c then \<lparr>ac_wagered = 0, ac_won = 0, ac_net = 0\<rparr>
                    else sessionAccounting w i startedAt)
       (case sd_currency d of None \<Rightarrow> ''DEMO'' | Some x \<Rightarrow> x) (rg_enforceRealityCheck rg)"

definition persist_check :: "rg_env \<Rightarrow> int \<Rightarrow> sock \<Rightarrow> socket_data \<Rightarrow> rg_decision \<Rightarrow> 'o world \<Rightarrow> 'o world" where
  "persist_check E now c d k w =
     (case truthy (sd_sessionId d) of
        None \<Rightarrow> w
      | Some sid \<Rightarrow>
          if re_persistFails E c then w
          else if rd_nextPending k then markRealityCheckPending now sid (rd_nextDueAt k) w
          else ackRealityCheck now sid (rd_nextDueAt k) w)"

definition sweep_socket :: "rg_env \<Rightarrow> int \<Rightarrow> uid \<times> sock \<Rightarrow> gateway \<times> 'o world \<Rightarrow> gateway \<times> 'o world" where
  "sweep_socket E now e st =
     (case (e, st) of ((u, c), (g, w)) \<Rightarrow>
       (case socket_of g c of
          None \<Rightarrow> (g, w)
        | Some d \<Rightarrow>
            (case (sd_rg d, sd_startedAt d) of
               (Some rg, Some t) \<Rightarrow>
                 let k = rgEvaluate (rg_view d rg t) now;
                     g1 = set_socket c (d\<lparr>sd_dueAt := rd_nextDueAt k, sd_pending := rd_nextPending k,
                                          sd_notified := rd_nextNotified k\<rparr>) g;
                     g2 = (if rd_tripTimeLimit k
                           then send (To_user u) (Session_time_limit (rg_maxSessionSec rg)) g1 else g1)
                 in if rd_emitRealityCheck k
                    then (send (To_user u) (reality_check_event E now c d rg t w) g2, persist_check E now c d k w)
                    else (g2, w)
             | _ \<Rightarrow> (g, w))))"

definition runRgSweep :: "rg_env \<Rightarrow> int \<Rightarrow> gateway \<Rightarrow> 'o world \<Rightarrow> gateway \<times> 'o world" where
  "runRgSweep E now g w =
     (if re_busy E \<or> (re_liveFails E \<and> carried_sessions g \<noteq> []) then (g, w)
      else let g1 = disconnectRevokedSockets w g
           in fold (sweep_socket E now) (gw_users g1) (g1, w))"

section \<open>The other timers\<close>

definition send_auto :: "cashout_result \<Rightarrow> gateway \<Rightarrow> gateway" where
  "send_auto r = send_cash (To_user (co_userId r)) True r"

definition onTick ::
  "bool \<Rightarrow> 'o bets_ctx \<Rightarrow> public_state option \<Rightarrow> gateway \<Rightarrow> 'o world \<Rightarrow> gateway \<times> 'o world" where
  "onTick leader ctx s g w =
     (if \<not> leader then (g, w)
      else case s of
        None \<Rightarrow> (g, w)
      | Some ps \<Rightarrow>
          if ps_phase ps \<noteq> Running then (g, w)
          else let g1 = send Everyone (Multiplier_update (ps_roundId ps) (ps_multiplier ps) (ps_serverTime ps)) g;
                   (cashed, w1) = evaluateAutoCashouts ctx (ps_multiplier ps) w
               in (fold send_auto cashed g1, w1))"

definition onSettle_gateway :: "bool \<Rightarrow> int \<Rightarrow> uid \<Rightarrow> gateway \<Rightarrow> 'o world \<Rightarrow> gateway \<times> 'o world" where
  "onSettle_gateway leader now roundId g w =
     (if \<not> leader then (g, w)
      else let (busted, w1) = settleRound now roundId w
           in (fold (\<lambda>(u, p). send (To_user u) (Bet_busted p)) busted g, w1))"

definition runReconcile :: "bool \<Rightarrow> bool \<Rightarrow> 'o wallet_provider \<Rightarrow> nat \<Rightarrow> 'o world \<Rightarrow> 'o world" where
  "runReconcile leader busy p limit w =
     (if \<not> leader \<or> busy then w else snd (reconcilePendingPayouts p limit w))"

text \<open>The reservation sweep: \<open>stages\<close> of its four writes run before a failed read ends the pass.\<close>

record 'o sweep_env =
  we_wallet :: "'o wallet_provider"
  we_operator :: "'o operator_api option"
  we_faults :: store_faults
  we_race :: "'o world \<Rightarrow> 'o world"
  we_activeMs :: int
  we_voidLimit :: nat
  we_drainLimit :: nat
  we_stages :: nat

definition runReservingSweep ::
  "bool \<Rightarrow> bool \<Rightarrow> 'o sweep_env \<Rightarrow> int \<Rightarrow> int \<Rightarrow> 'o world \<Rightarrow> 'o world" where
  "runReservingSweep leader busy E now olderThanMs w =
     (if \<not> leader \<or> busy then w
      else fold (\<lambda>f. f) (take (we_stages E)
        [\<lambda>v. snd (recoverReservingBets (we_wallet E) (we_race E) now olderThanMs v),
         \<lambda>v. snd (recoverStrandedActiveBets (we_wallet E) now (we_activeMs E) v),
         \<lambda>v. snd (reconcileVoidingBets (we_wallet E) (we_voidLimit E) v),
         \<lambda>v. snd (drainPending (we_faults E) now (we_operator E) (we_drainLimit E) v)]) w)"

text \<open>\<open>afterInit\<close> arms the sweep with the configured age, which \<open>new Date\<close> truncates to milliseconds.\<close>

definition armed_stale_ms :: "string option \<Rightarrow> int" where
  "armed_stale_ms raw = \<lceil>resolveReservingStaleMs raw\<rceil>"

end
