(* ===== verification/VR_MoneyFrame.thy ===== *)
theory VR_MoneyFrame
  imports VR_SessionDemo VR_LifeOps
begin

text \<open>
  The money side never touches identities: no request, sweep or recovery run changes a user, a session,
  or the owner and currency of a wallet. \<open>account_frame\<close> is the law a wallet provider keeps; every
  provider the application can be configured with keeps it, so a run of the game is one step of a run of
  sessions.
\<close>

definition accounts :: "'o world \<Rightarrow> user list \<times> game_session list \<times> (uid \<times> uid \<times> string) list" where
  "accounts w = (db_users w, db_sessions w, map (\<lambda>x. (w_id x, w_userId x, w_currency x)) (db_wallets w))"

lemma same_accounts_iff: "same_accounts w v \<longleftrightarrow> accounts v = accounts w"
  by (auto simp: same_accounts_def accounts_def)

lemma accounts_set_balance [simp]: "accounts (set_balance i v w) = accounts w"
  by (simp add: accounts_def set_balance_def)

lemma accounts_rows [simp]:
  "accounts (append_row r w) = accounts w" "accounts (bet_set w i f) = accounts w"
  "accounts (bet_delete w i) = accounts w" "accounts (round_set i g w) = accounts w"
  "accounts (add_loot u n m w) = accounts w" "accounts (w\<lparr>db_bets := bs\<rparr>) = accounts w"
  "accounts (w\<lparr>db_rounds := rs\<rparr>) = accounts w"
  by (simp_all add: accounts_def append_row_def bet_set_def bet_delete_def round_set_def add_loot_def)

lemma accounts_cas [simp]: "accounts (snd (bet_cas w i s f)) = accounts w"
  by (simp add: bet_cas_def Let_def)

lemma accounts_casD: "bet_cas w i s f = (n, w') \<Longrightarrow> accounts w' = accounts w"
  by (auto simp: bet_cas_def Let_def)

lemma fold_accounts:
  assumes "\<And>x n v. accounts (snd (f x (n, v))) = accounts v"
  shows "accounts (snd (fold f xs (n, w))) = accounts w"
proof (induction xs arbitrary: n w)
  case (Cons x xs)
  then show ?case using assms [of x n w] by (cases "f x (n, w)") simp
qed simp

text \<open>Handlers that read, wait and compare-and-swap: what happens in between keeps accounts too.\<close>

definition race_quiet :: "('o world \<Rightarrow> 'o world) \<Rightarrow> bool" where
  "race_quiet f \<longleftrightarrow> (\<forall>w. accounts (f w) = accounts w)"

section \<open>The law\<close>

locale account_frame =
  fixes provider :: "'o wallet_provider"
  assumes exec_accounts: "accounts (wallet_exec provider i c w) = accounts w"
begin

lemma debit_accounts: "wp_debit provider i a t k r w = (x, w') \<Longrightarrow> accounts w' = accounts w"
  using exec_accounts [of i "WDebit a t k r" w] by simp

lemma credit_accounts: "wp_credit provider i a t k r w = (x, w') \<Longrightarrow> accounts w' = accounts w"
  using exec_accounts [of i "WCredit a t k r" w] by simp

lemma rollback_accounts: "wp_rollback provider i k r w = (x, w') \<Longrightarrow> accounts w' = accounts w"
  using exec_accounts [of i "WRollback k r" w] by simp

lemma reverse_accounts: "wp_reverse provider i ps w = (x, w') \<Longrightarrow> accounts w' = accounts w"
  using exec_accounts [of i "WReverse ps" w] by simp

lemma reverse_snd [simp]: "accounts (snd (wp_reverse provider i ps w)) = accounts w"
  using exec_accounts [of i "WReverse ps" w] by simp

lemmas call_accounts = debit_accounts credit_accounts rollback_accounts reverse_accounts accounts_casD

lemma flip_accounts: "place_flip n f i tx w = (b, w') \<Longrightarrow> accounts w' = accounts w"
proof (induction n f i tx w rule: place_flip.induct)
  case (2 left f i tx w)
  then show ?case by (auto dest: accounts_casD split: if_splits prod.splits)
qed simp

lemma reserve_accounts: "place_reserve x rl now a i r wal amt w = (y, w') \<Longrightarrow> accounts w' = accounts w"
  by (auto simp: place_reserve_def split: sum.splits option.splits if_splits)

lemma place_debit_accounts: "place_debit f provider u pn i r wi amt w = (y, w') \<Longrightarrow> accounts w' = accounts w"
  by (auto simp: place_debit_def dest: debit_accounts split: sum.splits prod.splits if_splits)

lemma place_accounts: "accounts (snd (placeBet f (ctx\<lparr>bc_wallet := provider\<rparr>) a i w)) = accounts w"
  by (auto simp: placeBet_def Let_def dest!: flip_accounts reserve_accounts place_debit_accounts
      split: option.splits sum.splits prod.splits bool.splits)

lemma pay_accounts: "pay_claimed (ctx\<lparr>bc_wallet := provider\<rparr>) b m pay c w = (r, w') \<Longrightarrow> accounts w' = accounts w"
  by (auto simp: pay_claimed_def Let_def dest: credit_accounts split: sum.splits prod.splits)

lemma cancel_accounts:
  "race_quiet (bc_race ctx) \<Longrightarrow> accounts (snd (cancelBet (ctx\<lparr>bc_wallet := provider\<rparr>) u pn w)) = accounts w"
  by (auto simp: cancelBet_def race_quiet_def dest!: credit_accounts accounts_casD
      split: option.splits sum.splits prod.splits)

lemma cash_accounts:
  "race_quiet (bc_race ctx) \<Longrightarrow> accounts (snd (cashOut (ctx\<lparr>bc_wallet := provider\<rparr>) u pn m w)) = accounts w"
  by (auto simp: cashOut_def race_quiet_def Let_def dest!: pay_accounts accounts_casD
      split: option.splits prod.splits)

lemma auto_accounts:
  assumes "race_quiet (bc_race ctx)"
  shows "accounts (snd (evaluateAutoCashouts (ctx\<lparr>bc_wallet := provider\<rparr>) m w)) = accounts w"
proof -
  let ?ctx = "ctx\<lparr>bc_wallet := provider\<rparr>"
  have "accounts (snd (auto_step ?ctx b (rs, v))) = accounts v" for b rs v
    using cash_accounts [OF assms, of "b_userId b" "b_panel b" "b_autoCashout b" v]
    by (cases "cashOut ?ctx (b_userId b) (b_panel b) (b_autoCashout b) v") (auto simp: auto_step_def split: sum.splits)
  then show ?thesis using fold_accounts [of "auto_step ?ctx"]
    by (auto simp: evaluateAutoCashouts_def split: option.split)
qed

lemma settle_accounts [simp]: "accounts (snd (settleRound now r w)) = accounts w"
  by (simp add: settleRound_def Let_def)

lemma reversals_accounts: "performVoidReversals provider b w = (x, w') \<Longrightarrow> accounts w' = accounts w"
  by (auto simp: performVoidReversals_def dest!: reverse_accounts split: sum.splits prod.splits if_splits)

lemma finish_accounts: "void_finish i w = (n, w') \<Longrightarrow> accounts w' = accounts w"
  by (simp add: void_finish_def accounts_casD)

lemma void_tail_accounts:
  "accounts (snd (case performVoidReversals provider b v of
       (Inl e, v1) \<Rightarrow> (Inl (Void_exn e), v1) | (Inr _, v1) \<Rightarrow> (Inr y, snd (void_finish i v1)))) = accounts v"
  by (auto simp: void_finish_def dest: reversals_accounts split: sum.splits prod.splits)

lemma void_accounts:
  assumes q: "race_quiet (bc_race ctx)"
  shows "accounts (snd (voidBet (ctx\<lparr>bc_wallet := provider\<rparr>) oid i w)) = accounts w"
proof (cases "find_bet w i")
  case (Some b)
  obtain n w1 where c: "bet_cas (bc_race ctx w) i (b_status b) (b_status_update (\<lambda>_. Voiding)) = (n, w1)" by fastforce
  with q have "accounts w1 = accounts w" by (auto simp: race_quiet_def dest: accounts_casD)
  then show ?thesis using Some c
    by (cases "b_status b") (simp_all add: voidBet_def Let_def void_tail_accounts)
qed (simp add: voidBet_def)

lemma voiding_accounts: "accounts (snd (reconcileVoidingBets provider n w)) = accounts w"
  unfolding reconcileVoidingBets_def
  by (rule fold_accounts)
    (auto simp: void_step_def dest!: reversals_accounts finish_accounts split: sum.splits prod.splits)

lemma payouts_accounts: "accounts (snd (reconcilePendingPayouts provider n w)) = accounts w"
  unfolding reconcilePendingPayouts_def
  by (rule fold_accounts)
    (auto simp: pending_step_def dest!: credit_accounts accounts_casD split: sum.splits prod.splits)

lemma release_accounts: "accounts (snd (release_slot provider now b (n, w))) = accounts w"
  by (auto simp: release_slot_def dest!: credit_accounts rollback_accounts
      split: sum.splits prod.splits option.splits)

lemma reserving_accounts:
  assumes "race_quiet race"
  shows "accounts (snd (recoverReservingBets provider race now ms w)) = accounts w"
  unfolding recoverReservingBets_def
proof (rule fold_accounts)
  fix b :: bet and n v
  obtain k v1 where c: "bet_cas (race v) (b_id b) Reserving (\<lambda>x. x\<lparr>b_status := Cancelling\<rparr>) = (k, v1)" by fastforce
  then have "accounts v1 = accounts v" using assms by (auto simp: race_quiet_def dest: accounts_casD)
  then show "accounts (snd (recover_slot provider race now b (n, v))) = accounts v"
    using c release_accounts by (simp add: recover_slot_def)
qed

lemma stranded_accounts: "accounts (snd (recoverStrandedActiveBets provider now ms w)) = accounts w"
  unfolding recoverStrandedActiveBets_def
  by (rule fold_accounts)
    (auto simp: heal_active_def dest!: reverse_accounts accounts_casD split: sum.splits prod.splits)

lemma close_bet_accounts: "accounts (close_bet provider now b w) = accounts w"
  by (auto simp: close_bet_def dest!: reverse_accounts split: sum.splits prod.splits)

lemma close_fold_accounts: "accounts (fold (close_bet provider now) bs w) = accounts w"
  by (induction bs arbitrary: w) (simp_all add: close_bet_accounts)

lemma close_accounts: "accounts (closeAndRefundRound provider now r w) = accounts w"
  by (simp add: closeAndRefundRound_def close_fold_accounts)

lemma stale_accounts: "accounts (closeStaleExtra provider now r w) = accounts w"
  by (simp add: closeStaleExtra_def close_accounts Let_def)

lemma boot_accounts: "accounts (recoverInterruptedRounds provider id now w) = accounts w"
proof -
  have "accounts (fold (\<lambda>r. closeAndRefundRound provider now (r_id r)) rs v) = accounts v" for rs :: "round list" and v
    by (induction rs arbitrary: v) (simp_all add: close_accounts)
  then show ?thesis
    by (simp add: recoverInterruptedRounds_def Let_def stranded_accounts reserving_accounts race_quiet_def)
qed

lemma reset_accounts: "accounts (demo_reset i t s w) = accounts w"
  using resetTo_accounts by (simp add: demo_reset_def same_accounts_iff)

lemma game_do_accounts:
  assumes "race_quiet (op_race op)"
  shows "accounts (game_do provider op w) = accounts w"
  using assms
  by (cases op) (simp_all add: place_accounts cancel_accounts cash_accounts auto_accounts void_accounts
      voiding_accounts payouts_accounts reserving_accounts stranded_accounts close_accounts stale_accounts
      boot_accounts reset_accounts race_quiet_def)

lemma steps_accounts: "game_steps provider N w v \<Longrightarrow> accounts v = accounts w"
proof (induction rule: game_steps.induct)
  case (step N w v op)
  then show ?case by (simp add: game_do_accounts race_quiet_def)
qed simp

end

section \<open>Every configured provider keeps accounts\<close>

lemma ledger_record_accounts: "accounts (snd (ledger_record id id w i a t k r)) = accounts w"
  by (simp add: ledger_record_seq Let_def split: option.splits)

interpretation la: account_frame ledgerProvider
proof
  show "accounts (wallet_exec ledgerProvider i c w) = accounts w" for i c w
    by (cases c; simp add: ledgerProvider_def ledger_rollback_def ledger_reverse_def ledger_getBalance_def
        ledger_credit_def ledger_debit_def ledger_record_accounts split: direction.splits option.splits)
qed

text \<open>A provider that leaves the ledger and the game tables alone keeps accounts, and a router keeps what both do.\<close>

lemma real_money_accounts:
  assumes "real_money p"
  shows "account_frame p"
proof
  show "accounts (wallet_exec p i c w) = accounts w" for i c w
    using wallet_frame.exec_frame [OF real_money.axioms(1) [OF assms], of w i c]
      real_money.exec_ledger_same [OF assms, of w i c]
    by (simp add: accounts_def game_same_def ledger_same_def)
qed

lemma provider_accounts:
  assumes "walletProvider ty api sf now = Inr p"
  shows "account_frame p"
proof -
  let ?o = "SeamlessOperatorWallet (operatorWallet_cfg api sf now)"
  have o: "account_frame ?o" by (rule real_money_accounts) (rule ow.real_money_axioms)
  have r: "account_frame (WalletRouter ledgerProvider ?o (\<lambda>w i. Inr (isDemoWallet w i)))"
    by unfold_locales (simp add: router.route la.exec_accounts account_frame.exec_accounts [OF o])
  have "p = ledgerProvider \<or> p = WalletRouter ledgerProvider ?o (\<lambda>w i. Inr (isDemoWallet w i))"
    using assms by (auto simp: walletProvider_def wallet_factory_def Let_def split: if_splits)
  then show ?thesis using r la.account_frame_axioms by auto
qed

section \<open>Runs\<close>

lemma accounts_rb [simp]: "accounts (rb_update P f w) = accounts w" "accounts (w\<lparr>operator_state := o'\<rparr>) = accounts w"
  by (simp_all add: accounts_def)

lemma drain_accounts: "accounts (snd (drainPending sf now api n w)) = accounts w"
proof -
  have "accounts (snd (drain_row sf now a r (k, v))) = accounts v" for a :: "'a operator_api" and r k and v :: "'a world"
    by (auto simp: drain_row_def drain_claim_def drain_emit_def acquireLease_def rb_confirm_def Let_def split: bool.splits sum.splits prod.splits)
  then show ?thesis using fold_accounts [of "drain_row sf now (the api)"]
    by (cases api) (simp_all add: drainPending_def)
qed

text \<open>Whatever requests, sweeps and recovery runs are served, in either wallet mode and whatever the
  operator answers, no user, no session and no wallet's owner or currency changes; so a run of the money side
  is one step of the life of the sessions, and their invariant survives it.\<close>

theorem money_keeps_accounts:
  assumes "walletProvider ty api sf now = Inr p" and "game_steps p N (st_db st) v"
  shows "accounts v = accounts (st_db st) \<and> session_step J ops st (st\<lparr>st_db := v\<rparr>) \<and>
    session_inv v = session_inv (st_db st)"
proof -
  have a: "accounts v = accounts (st_db st)" by (rule account_frame.steps_accounts [OF provider_accounts [OF assms(1)] assms(2)])
  moreover have "session_inv v = session_inv (st_db st)"
    using session_inv_same_accounts [of v "st_db st"] session_inv_same_accounts [of "st_db st" v] a
    by (auto simp: same_accounts_iff)
  ultimately show ?thesis by (simp add: session_step.Money same_accounts_iff)
qed

lemma money_keeps_accounts_witness:
  "accounts (game_do ledgerProvider (Demo_reset ''w2'' 500 ''s2'') acc_db) = accounts acc_db \<and>
   map w_balance (db_wallets (game_do ledgerProvider (Demo_reset ''w2'' 500 ''s2'') acc_db)) = [0, 500, 0]"
proof
  have p: "walletProvider None (undefined :: unit operator_api) no_faults 0 = Inr ledgerProvider"
    by (simp add: walletProvider_def wallet_factory_def)
  have "game_steps ledgerProvider {} (st_db acc_site) (game_do ledgerProvider (Demo_reset ''w2'' 500 ''s2'') acc_db)"
    by (rule quiet_step) (simp_all add: acc_site_def game_steps.stop fun_eq_iff)
  from money_keeps_accounts [OF p this]
  show "accounts (game_do ledgerProvider (Demo_reset ''w2'' 500 ''s2'') acc_db) = accounts acc_db"
    by (simp add: acc_site_def)
  show "map w_balance (db_wallets (game_do ledgerProvider (Demo_reset ''w2'' 500 ''s2'') acc_db)) = [0, 500, 0]"
    by code_simp
qed

end
