(* ===== verification/VR_GatewayRun.thy ===== *)
theory VR_GatewayRun
  imports VR_Gateway VR_MoneyFrame
begin

text \<open>
  Runs of the gateway of one node: every handler and timer is one \<open>gw_event\<close>, everything other nodes, the
  HTTP routes and the engine do to the database is \<open>Elsewhere\<close>. Socket ids are fresh at a connection, as
  socket.io draws them. The invariant ties the map of users to the registry of sockets.
\<close>

section \<open>Events\<close>

datatype 'o gw_event =
    Connects conn_env "public_state option" sock "string option"
  | Disconnects sock
  | Subscribes int "public_state option" sock
  | Syncs int sock json
  | Places msg_env "'o bets_ctx" sock json
  | Cancels "'o bets_ctx" sock json
  | Cashes "'o bets_ctx" sock json
  | Acks msg_env int sock
  | Rg_sweeps rg_env int
  | Ticks bool "'o bets_ctx" "public_state option"
  | Settles bool int uid
  | Reconciles bool bool nat
  | Sweeps_reserving bool bool "'o sweep_env" int int
  | Elsewhere "'o world \<Rightarrow> 'o world"

fun gw_do :: "'o wallet_provider \<Rightarrow> 'o gw_event \<Rightarrow> gateway \<times> 'o world \<Rightarrow> gateway \<times> 'o world" where
  "gw_do p (Connects E s c token) (g, w) = (handleConnection E s c token w g, w)"
| "gw_do p (Disconnects c) (g, w) = (handleDisconnect c g, w)"
| "gw_do p (Subscribes now s c) (g, w) = (snd (onSubscribe now s c g), w)"
| "gw_do p (Syncs now c body) (g, w) = (snd (onTimeSync now c body g), w)"
| "gw_do p (Places M ctx c body) (g, w) = snd (onPlaceBet M (ctx\<lparr>bc_wallet := p\<rparr>) c body g w)"
| "gw_do p (Cancels ctx c body) (g, w) = snd (onCancelBet (ctx\<lparr>bc_wallet := p\<rparr>) c body g w)"
| "gw_do p (Cashes ctx c body) (g, w) = snd (onCashOut (ctx\<lparr>bc_wallet := p\<rparr>) c body g w)"
| "gw_do p (Acks M now c) (g, w) = snd (onRealityCheckAck M now c g w)"
| "gw_do p (Rg_sweeps E now) (g, w) = runRgSweep E now g w"
| "gw_do p (Ticks leader ctx s) (g, w) = onTick leader (ctx\<lparr>bc_wallet := p\<rparr>) s g w"
| "gw_do p (Settles leader now r) (g, w) = onSettle_gateway leader now r g w"
| "gw_do p (Reconciles leader busy n) (g, w) = (g, runReconcile leader busy p n w)"
| "gw_do p (Sweeps_reserving leader busy E now ms) (g, w) =
     (g, runReservingSweep leader busy (E\<lparr>we_wallet := p\<rparr>) now ms w)"
| "gw_do p (Elsewhere f) (g, w) = (g, f w)"

section \<open>The registry under the operations\<close>

lemma send_frame [simp]:
  "gw_sockets (send a e g) = gw_sockets g" "gw_users (send a e g) = gw_users g" "gw_rate (send a e g) = gw_rate g"
  by (simp_all add: send_def)

lemma send_state_frame [simp]:
  "gw_sockets (send_state a s g) = gw_sockets g" "gw_users (send_state a s g) = gw_users g"
  by (simp_all add: send_state_def split: option.split)

lemma allow_frame:
  "allow now c g = (ok, g') \<Longrightarrow> gw_sockets g' = gw_sockets g \<and> gw_users g' = gw_users g"
  by (auto simp: allow_def split: prod.splits)

lemma send_bet_frame [simp]:
  "gw_sockets (send_bet c e r g) = gw_sockets g" "gw_users (send_bet c e r g) = gw_users g"
  by (simp_all add: send_bet_def Let_def split: bool.split option.split prod.split)

lemma send_cash_frame [simp]:
  "gw_sockets (send_cash a b r g) = gw_sockets g" "gw_users (send_cash a b r g) = gw_users g"
  by (simp_all add: send_cash_def Let_def split: bool.split option.split prod.split)

text \<open>\<open>same_registry\<close>: the same sockets with the same data, and the same map of users.\<close>

definition same_registry :: "gateway \<Rightarrow> gateway \<Rightarrow> bool" where
  "same_registry g g' \<longleftrightarrow> gw_sockets g' = gw_sockets g \<and> gw_users g' = gw_users g"

lemma same_registry_trans: "same_registry a b \<Longrightarrow> same_registry b c \<Longrightarrow> same_registry a c"
  by (simp add: same_registry_def)

lemma allow_same: "allow now c g = (ok, g') \<Longrightarrow> same_registry g g'"
  by (auto simp: same_registry_def dest: allow_frame)

lemma socket_of_same: "same_registry g g' \<Longrightarrow> socket_of g' = socket_of g"
  by (simp add: same_registry_def socket_of_def)

lemma fold_same:
  assumes "\<And>x g. same_registry g (f x g)"
  shows "same_registry g (fold f xs g)"
proof (induction xs arbitrary: g)
  case Nil
  show ?case by (simp add: same_registry_def)
next
  case (Cons x xs)
  show ?case using same_registry_trans [OF assms Cons.IH] by simp
qed

lemma onSubscribe_same: "same_registry g (snd (onSubscribe now s c g))"
  by (auto simp: onSubscribe_def same_registry_def dest: allow_frame split: prod.split)

lemma onTimeSync_same: "same_registry g (snd (onTimeSync now c b g))"
  by (auto simp: onTimeSync_def same_registry_def dest: allow_frame split: prod.split)

lemma onPlaceBet_same: "same_registry g (fst (snd (onPlaceBet M ctx c body g w)))"
  by (auto simp: onPlaceBet_def same_registry_def Let_def dest: allow_frame split: prod.split option.split)

lemma onCancelBet_same: "same_registry g (fst (snd (onCancelBet ctx c body g w)))"
  by (auto simp: onCancelBet_def same_registry_def Let_def dest: allow_frame split: prod.split option.split sum.split)

lemma onCashOut_same: "same_registry g (fst (snd (onCashOut ctx c body g w)))"
  by (auto simp: onCashOut_def same_registry_def Let_def dest: allow_frame split: prod.split option.split sum.split)

lemma onTick_same: "same_registry g (fst (onTick leader ctx s g w))"
proof -
  have "same_registry g (fold send_auto cs g)" for cs g
    by (rule fold_same) (simp add: send_auto_def same_registry_def)
  from this [of "send a e g" for a e] show ?thesis
    by (simp add: onTick_def same_registry_def Let_def split: option.split prod.split)
qed

lemma onSettle_same: "same_registry g (fst (onSettle_gateway leader now r g w))"
proof -
  have "same_registry g (fold (\<lambda>(u, p). send (To_user u) (Bet_busted p)) bs g)" for bs g
    by (rule fold_same) (simp add: same_registry_def split: prod.split)
  then show ?thesis by (simp add: onSettle_gateway_def same_registry_def split: prod.split)
qed

lemma socket_of_set [simp]: "socket_of (set_socket c d g) = (socket_of g)(c \<mapsto> d)"
  by (simp add: socket_of_def set_socket_def update_conv')

lemma set_socket_users [simp]: "gw_users (set_socket c d g) = gw_users g"
  by (simp add: set_socket_def)

lemma socket_of_disconnect [simp]: "socket_of (handleDisconnect c g) = (socket_of g)(c := None)"
proof (cases "socket_of g c")
  case None
  then show ?thesis by (simp add: handleDisconnect_def fun_upd_idem)
next
  case (Some d)
  then show ?thesis
    by (auto simp: handleDisconnect_def socket_of_def delete_conv' Let_def split: option.split)
qed

lemma user_socket_set [simp]: "user_socket (set_socket c d g) = user_socket g"
  by (simp add: user_socket_def)

lemma user_socket_update: "user_socket (g\<lparr>gw_users := AList.update u c (gw_users g)\<rparr>) = (user_socket g)(u \<mapsto> c)"
  by (simp add: user_socket_def update_conv')

definition owner :: "(sock \<rightharpoonup> socket_data) \<Rightarrow> sock \<Rightarrow> uid option" where
  "owner S c = Option.bind (S c) sd_userId"

lemma users_disconnect:
  "user_socket (handleDisconnect c g) =
     (case owner (socket_of g) c of
        None \<Rightarrow> user_socket g
      | Some u \<Rightarrow> if user_socket g u = Some c then (user_socket g)(u := None) else user_socket g)"
  by (simp add: handleDisconnect_def Let_def delete_conv' user_socket_def owner_def split: option.split)

lemma claimed_user [simp]: "sd_userId (claimed_socket E payload u w) = Some u"
  by (simp add: claimed_socket_eq blank_socket_def Let_def split: option.split prod.split)

lemma authenticate_user: "authenticate E token w = Some (u, d) \<Longrightarrow> sd_userId d = Some u"
  by (auto simp: authenticate_eq split: option.splits if_splits)

section \<open>One socket per user\<close>

definition registry_ok :: "(sock \<rightharpoonup> socket_data) \<Rightarrow> (uid \<rightharpoonup> sock) \<Rightarrow> bool" where
  "registry_ok S U \<longleftrightarrow> (\<forall>u c. U u = Some c \<longleftrightarrow> owner S c = Some u) \<and>
     (\<forall>c d. S c = Some d \<and> sd_userId d = None \<longrightarrow> sd_sessionId d = None)"

definition gw_inv :: "gateway \<Rightarrow> bool" where
  "gw_inv g \<longleftrightarrow> registry_ok (socket_of g) (user_socket g) \<and> distinct (map fst (gw_users g))"

lemma owner_upd [simp]: "owner (S(c \<mapsto> d)) = (owner S)(c := sd_userId d)" "owner (S(c := None)) = (owner S)(c := None)"
  by (auto simp: owner_def)

lemma owner_inj: "registry_ok S U \<Longrightarrow> owner S c = Some u \<Longrightarrow> owner S c' = Some u \<Longrightarrow> c' = c"
  unfolding registry_ok_def by (metis option.inject)

lemma gw_inv_same: "same_registry g g' \<Longrightarrow> gw_inv g \<Longrightarrow> gw_inv g'"
  by (simp only: gw_inv_def same_registry_def socket_of_def user_socket_def)

lemma gw_inv_send [simp]: "gw_inv (send_state a s g) = gw_inv g" "gw_inv (send a e g) = gw_inv g"
  by (simp_all only: gw_inv_def socket_of_def user_socket_def send_state_frame send_frame)

lemma distinct_users_disconnect: "distinct (map fst (gw_users g)) \<Longrightarrow> distinct (map fst (gw_users (handleDisconnect c g)))"
  by (auto simp: handleDisconnect_def Let_def distinct_delete split: option.split)

lemma registry_drop:
  assumes "registry_ok S U"
  shows "registry_ok (S(c := None)) (case owner S c of None \<Rightarrow> U | Some u \<Rightarrow> if U u = Some c then U(u := None) else U)"
  using assms owner_inj [OF assms] by (cases "owner S c") (auto simp: registry_ok_def)

lemma gw_inv_disconnect: "gw_inv g \<Longrightarrow> gw_inv (handleDisconnect c g)"
  using registry_drop distinct_users_disconnect by (simp add: gw_inv_def users_disconnect)

text \<open>Replacing the data of a socket that keeps its user and its session.\<close>

lemma registry_replace:
  assumes "registry_ok S U" "S c = Some d" "sd_userId d' = sd_userId d" "sd_sessionId d' = sd_sessionId d"
  shows "registry_ok (S(c \<mapsto> d')) U"
proof -
  have "owner (S(c \<mapsto> d')) = owner S" using assms(2,3) by (auto simp: owner_def)
  then show ?thesis using assms by (auto simp: registry_ok_def split: if_splits)
qed

lemma gw_inv_set:
  assumes "gw_inv g" "socket_of g c = Some d" "sd_userId d' = sd_userId d" "sd_sessionId d' = sd_sessionId d"
  shows "gw_inv (set_socket c d' g)"
  using assms registry_replace by (simp add: gw_inv_def)

lemma blank_simps [simp]: "sd_userId blank_socket = None" "sd_sessionId blank_socket = None"
  by (simp_all add: blank_socket_def)

lemma gw_inv_blank:
  assumes "gw_inv g" "socket_of g c = None"
  shows "gw_inv (set_socket c blank_socket g)"
proof -
  have "owner (socket_of g) c = None" using assms(2) by (simp add: owner_def)
  then have "owner ((socket_of g)(c \<mapsto> blank_socket)) = owner (socket_of g)" by (simp add: fun_upd_idem)
  then show ?thesis using assms(1) by (auto simp: gw_inv_def registry_ok_def)
qed

text \<open>Signing a blank socket in: the user's previous socket leaves first.\<close>

definition sign_in :: "sock \<Rightarrow> uid \<Rightarrow> socket_data \<Rightarrow> gateway \<Rightarrow> gateway" where
  "sign_in c u d g =
     (let g1 = set_socket c d g;
          g2 = (case user_socket g1 u of
                  None \<Rightarrow> g1 | Some prev \<Rightarrow> if prev \<noteq> c then handleDisconnect prev g1 else g1)
      in g2\<lparr>gw_users := AList.update u c (gw_users g2)\<rparr>)"

lemma set_socket_twice [simp]: "set_socket c d (set_socket c d' g) = set_socket c d g"
proof -
  have "AList.update k v (AList.update k v' xs) = AList.update k v xs" for k :: sock and v v' :: socket_data and xs
    by (induction xs) auto
  then show ?thesis by (simp add: set_socket_def)
qed

lemma handleConnection_sign:
  "handleConnection E s c token w g = send_state (To_socket c) s
     (case authenticate E token w of None \<Rightarrow> set_socket c blank_socket g
      | Some (u, d) \<Rightarrow> sign_in c u d (set_socket c blank_socket g))"
  by (simp add: handleConnection_def connect_join_def connect_open_def authenticate_def claimed_socket_def sign_in_def
      Let_def split: option.split prod.split)

lemma registry_free: "registry_ok S U \<Longrightarrow> S c = Some blank_socket \<Longrightarrow> U u \<noteq> Some c"
  by (simp add: registry_ok_def owner_def)

lemma sign_in_users:
  assumes "gw_inv g" "socket_of g c = Some blank_socket"
  shows "user_socket (sign_in c u d g) = (user_socket g)(u \<mapsto> c)"
proof (cases "user_socket g u")
  case None
  moreover have "gw_users g = gw_users (set_socket c d g)" by simp
  ultimately show ?thesis unfolding sign_in_def by (simp only: Let_def user_socket_set option.case user_socket_update)
next
  case (Some prev)
  moreover have "prev \<noteq> c" "owner (socket_of g) prev = Some u"
    using registry_free [of _ _ c u] assms Some by (auto simp: gw_inv_def registry_ok_def)
  ultimately show ?thesis by (simp add: sign_in_def user_socket_update users_disconnect Let_def del: set_socket_users)
qed

lemma sign_in_sockets:
  assumes "gw_inv g" "socket_of g c = Some blank_socket"
  shows "socket_of (sign_in c u d g) =
    (case user_socket g u of None \<Rightarrow> socket_of g | Some prev \<Rightarrow> (socket_of g)(prev := None))(c \<mapsto> d)"
proof -
  have s: "socket_of (g\<lparr>gw_users := x\<rparr>) = socket_of g" for x g by (simp add: socket_of_def)
  have "user_socket g u \<noteq> Some c" using registry_free [of _ _ c u] assms unfolding gw_inv_def by blast
  then show ?thesis by (auto simp: sign_in_def Let_def s fun_upd_twist split: option.split)
qed

lemma registry_join:
  assumes "registry_ok S U" "S c = Some blank_socket" "sd_userId d = Some u" "U u = None"
  shows "registry_ok (S(c \<mapsto> d)) (U(u \<mapsto> c))"
proof -
  have "U v \<noteq> Some c" for v using registry_free [of S U c v] assms by blast
  moreover have "owner S x \<noteq> Some u" for x using assms(1,4) unfolding registry_ok_def by (metis option.distinct(1))
  ultimately show ?thesis using assms by (auto simp: registry_ok_def split: if_splits)
qed

lemma registry_sign:
  assumes "registry_ok S U" "S c = Some blank_socket" "sd_userId d = Some u"
  shows "registry_ok ((case U u of None \<Rightarrow> S | Some prev \<Rightarrow> S(prev := None))(c \<mapsto> d)) (U(u \<mapsto> c))"
proof (cases "U u")
  case None
  then show ?thesis using registry_join [OF assms] by simp
next
  case (Some prev)
  then have o: "owner S prev = Some u" "prev \<noteq> c" using assms registry_free [of S U c u] by (auto simp: registry_ok_def)
  then have "registry_ok (S(prev := None)) (U(u := None))" using registry_drop [OF assms(1), of prev] Some by simp
  from registry_join [OF this, of c d u] show ?thesis using assms(2,3) o(2) Some by simp
qed

lemma gw_inv_sign_in:
  assumes "gw_inv g" "socket_of g c = Some blank_socket" "sd_userId d = Some u"
  shows "gw_inv (sign_in c u d g)"
proof -
  have "distinct (map fst (gw_users (sign_in c u d g)))"
    using assms(1) by (auto simp: gw_inv_def sign_in_def Let_def distinct_update distinct_users_disconnect split: option.split)
  then show ?thesis
    using registry_sign [of "socket_of g" "user_socket g" c d u] assms sign_in_users [OF assms(1,2)]
      sign_in_sockets [OF assms(1,2), of u d] by (simp add: gw_inv_def)
qed

lemma gw_inv_connect:
  assumes "gw_inv g" "socket_of g c = None"
  shows "gw_inv (handleConnection E s c token w g)"
proof -
  have b: "gw_inv (set_socket c blank_socket g)" by (rule gw_inv_blank [OF assms])
  then show ?thesis
    by (auto simp: handleConnection_sign dest: authenticate_user intro!: gw_inv_sign_in [OF b] split: option.split)
qed

lemma gw_inv_disconnect_all: "gw_inv g \<Longrightarrow> gw_inv (disconnect_all cs g)"
  by (induction cs arbitrary: g) (simp_all add: disconnect_all_def gw_inv_disconnect)

lemma gw_inv_ack: "gw_inv g \<Longrightarrow> gw_inv (fst (snd (onRealityCheckAck M now c g w)))"
  by (auto simp: onRealityCheckAck_def Let_def intro!: gw_inv_set dest: allow_same gw_inv_same
      split: prod.split option.split)

lemma gw_inv_sweep_socket: "gw_inv (fst st) \<Longrightarrow> gw_inv (fst (sweep_socket E now e st))"
  by (auto simp: sweep_socket_def Let_def intro!: gw_inv_set split: prod.split option.split)

lemma gw_inv_sweep_fold: "gw_inv (fst st) \<Longrightarrow> gw_inv (fst (fold (sweep_socket E now) es st))"
  by (induction es arbitrary: st) (simp_all add: gw_inv_sweep_socket)

lemma gw_inv_sweep: "gw_inv g \<Longrightarrow> gw_inv (fst (runRgSweep E now g w))"
  by (simp add: runRgSweep_def disconnectRevokedSockets_def Let_def gw_inv_disconnect_all gw_inv_sweep_fold)

fun fresh_event :: "'o gw_event \<Rightarrow> gateway \<Rightarrow> bool" where
  "fresh_event (Connects E s c token) g = (socket_of g c = None)"
| "fresh_event _ g = True"

lemma gw_inv_do:
  assumes "gw_inv (fst st)" "fresh_event e (fst st)"
  shows "gw_inv (fst (gw_do p e st))"
proof (cases st)
  case (Pair g w)
  then show ?thesis
    using assms gw_inv_same [OF onSubscribe_same] gw_inv_same [OF onTimeSync_same] gw_inv_same [OF onPlaceBet_same]
      gw_inv_same [OF onCancelBet_same] gw_inv_same [OF onCashOut_same] gw_inv_same [OF onTick_same]
      gw_inv_same [OF onSettle_same]
    by (cases e) (simp_all add: gw_inv_connect gw_inv_disconnect gw_inv_ack gw_inv_sweep)
qed

section \<open>Runs\<close>

inductive gw_run ::
  "'o wallet_provider \<Rightarrow> ('o gw_event \<Rightarrow> gateway \<times> 'o world \<Rightarrow> bool) \<Rightarrow> gateway \<times> 'o world \<Rightarrow> gateway \<times> 'o world \<Rightarrow> bool"
  for p ok where
  begun: "gw_run p ok st st"
| event: "gw_run p ok st st' \<Longrightarrow> ok e st' \<Longrightarrow> gw_run p ok st (gw_do p e st')"

lemma gw_run_invariant:
  assumes "gw_run p ok st st'" "I st" "\<And>e st. I st \<Longrightarrow> ok e st \<Longrightarrow> I (gw_do p e st)"
  shows "I st'"
  using assms by (induction rule: gw_run.induct) auto

definition empty_gateway :: gateway where
  "empty_gateway = \<lparr>gw_sockets = [], gw_users = [], gw_rate = [], gw_sent = []\<rparr>"

lemma gw_inv_empty: "gw_inv empty_gateway"
  by (simp add: gw_inv_def registry_ok_def owner_def socket_of_def user_socket_def empty_gateway_def)

text \<open>On one node a player has one game socket: whatever connects, disconnects, is sent or times out, and
  whatever happens to the database, two connected sockets of the same user are one, and it is the one the
  node has on record for that user; a socket that is not signed in carries no session.\<close>

theorem one_socket_per_user:
  assumes "gw_run p (\<lambda>e st. fresh_event e (fst st)) (empty_gateway, w) (g, v)"
    and "socket_of g c = Some d" and "socket_of g c' = Some d'" and "sd_userId d' = sd_userId d"
  shows "case sd_userId d of None \<Rightarrow> sd_sessionId d = None | Some u \<Rightarrow> c' = c \<and> user_socket g u = Some c"
proof -
  have "gw_inv (fst (g, v))"
    by (rule gw_run_invariant [OF assms(1)]) (use gw_inv_do in \<open>auto simp: gw_inv_empty\<close>)
  then have r: "registry_ok (socket_of g) (user_socket g)" by (simp add: gw_inv_def)
  have "owner (socket_of g) c = sd_userId d" "owner (socket_of g) c' = sd_userId d"
    using assms(2-4) by (simp_all add: owner_def)
  then show ?thesis using r owner_inj [OF r] assms(2)
    by (cases "sd_userId d") (auto simp: registry_ok_def)
qed

end
