(* ===== verification/VR_GatewayCut.thy ===== *)
theory VR_GatewayCut
  imports VR_GatewayRun
begin

text \<open>
  Two ends of a session at the gateway. A revoked session: its player's bets, connections and open sockets.
  A session just opened: the operator's limits and controls, from the configuration to every bet.
\<close>

section \<open>Revocation\<close>

lemma socket_of_disconnect_all: "socket_of (disconnect_all cs g) c = (if c \<in> set cs then None else socket_of g c)"
  by (induction cs arbitrary: g) (simp_all add: disconnect_all_def)

lemma sweep_socket_session:
  "map_option sd_sessionId (socket_of (fst (sweep_socket E now e st)) c) = map_option sd_sessionId (socket_of (fst st) c)"
proof -
  have s: "socket_of (send a ev g) = socket_of g" for a ev g by (simp add: socket_of_def)
  show ?thesis by (auto simp: sweep_socket_def s Let_def split: prod.split option.split)
qed

lemma sweep_fold_session:
  "map_option sd_sessionId (socket_of (fst (fold (sweep_socket E now) es st)) c) = map_option sd_sessionId (socket_of (fst st) c)"
  by (induction es arbitrary: st) (simp_all add: sweep_socket_session)

lemma not_live_found: "i \<in> set ids \<Longrightarrow> \<not> isLive i w \<Longrightarrow> i \<in> set (findNotLive ids w)"
  by (auto simp: findNotLive_def isLive_def count_where_def filter_empty_conv)

lemma carried:
  assumes "gw_inv g" "socket_of g c = Some d" "sd_sessionId d = Some i" "i \<noteq> []"
  shows "(c, i) \<in> set (carried_sessions g)"
proof -
  obtain u where u: "sd_userId d = Some u"
    using assms(1-3) by (cases "sd_userId d") (auto simp: gw_inv_def registry_ok_def)
  then have "user_socket g u = Some c" using assms(1,2) by (simp add: gw_inv_def registry_ok_def owner_def)
  then have "(u, c) \<in> set (gw_users g)" by (simp add: user_socket_def map_of_SomeD)
  then show ?thesis using assms(2-4)
    by (force simp: carried_sessions_def List.map_filter_def truthy_def intro: rev_image_eqI)
qed

lemma disconnected_revoked:
  assumes "gw_inv g" "\<not> isLive i w" "i \<noteq> []" "socket_of (disconnectRevokedSockets w g) c = Some d"
  shows "sd_sessionId d \<noteq> Some i"
proof
  assume i: "sd_sessionId d = Some i"
  have "socket_of g c = Some d"
    using assms(4) by (simp add: disconnectRevokedSockets_def Let_def socket_of_disconnect_all split: if_splits)
  then have c: "(c, i) \<in> set (carried_sessions g)" using carried assms(1,3) i by blast
  then have "i \<in> set (remdups (map snd (carried_sessions g)))" by force
  note n = not_live_found [OF this assms(2)]
  have "c \<in> fst ` {x \<in> set (carried_sessions g). case x of (c, sid) \<Rightarrow> sid \<in> set (findNotLive (remdups (map snd (carried_sessions g))) w)}"
    using c n by (intro image_eqI [of _ _ "(c, i)"]) simp_all
  then show False
    using assms(4) by (simp add: disconnectRevokedSockets_def Let_def socket_of_disconnect_all split: if_splits)
qed

text \<open>C31. A revoked session is cut everywhere. A bet on a socket that still carries it is refused before
  anything is written, its token no longer signs a socket in, and after the next responsible-gambling sweep no
  socket of the node carries it.\<close>

theorem revoked_is_cut:
  assumes "gw_run p (\<lambda>e st. fresh_event e (fst st)) (empty_gateway, w0) (g, w)" and "\<not> isLive i w" and "i \<noteq> []"
  shows "(socket_of g c = Some d \<and> sd_sessionId d = Some i \<and> \<not> me_liveFails M \<longrightarrow>
      snd (snd (onPlaceBet M ctx c body g w)) = w \<and>
      (case fst (onPlaceBet M ctx c body g w) of Bet_ack b \<Rightarrow> False | _ \<Rightarrow> True)) \<and>
    (ce_verify E t = Some payload \<and> jget payload ''kind'' = Some (JStr ''operator'') \<and>
      claim_text payload ''sessionId'' = Some i \<longrightarrow> authenticate E (Some t) w = None) \<and>
    (\<not> re_busy R \<and> \<not> re_liveFails R \<and> socket_of (fst (runRgSweep R now g w)) c' = Some d' \<longrightarrow>
      sd_sessionId d' \<noteq> Some i)"
proof (intro conjI impI)
  have inv: "gw_inv g"
    using gw_run_invariant [where I = "\<lambda>st. gw_inv (fst st)", OF assms(1)] gw_inv_do by (auto simp: gw_inv_empty)
  obtain ok g1 where a: "allow (bc_now ctx) c g = (ok, g1)" by fastforce
  assume d: "socket_of g c = Some d \<and> sd_sessionId d = Some i \<and> \<not> me_liveFails M"
  then have s: "socket_of g1 c = Some d" using socket_of_same [OF allow_same [OF a]] by simp
  show "snd (snd (onPlaceBet M ctx c body g w)) = w"
    "case fst (onPlaceBet M ctx c body g w) of Bet_ack b \<Rightarrow> False | _ \<Rightarrow> True"
    using d assms(2,3)
    by (cases "truthy (sd_userId d)"; cases "placeSchema body"; auto simp: onPlaceBet_def a s truthy_def split: prod.split)+
next
  assume "ce_verify E t = Some payload \<and> jget payload ''kind'' = Some (JStr ''operator'') \<and>
      claim_text payload ''sessionId'' = Some i"
  then show "authenticate E (Some t) w = None" using assms(2,3) by (simp add: authenticate_eq truthy_def)
next
  have inv: "gw_inv g"
    using gw_run_invariant [where I = "\<lambda>st. gw_inv (fst st)", OF assms(1)] gw_inv_do by (auto simp: gw_inv_empty)
  assume r: "\<not> re_busy R \<and> \<not> re_liveFails R \<and> socket_of (fst (runRgSweep R now g w)) c' = Some d'"
  define g1 where "g1 = disconnectRevokedSockets w g"
  have "map_option sd_sessionId (socket_of (fst (runRgSweep R now g w)) c') = map_option sd_sessionId (socket_of g1 c')"
    using r sweep_fold_session [of R now "gw_users g1" "(g1, w)" c'] by (simp add: runRgSweep_def g1_def Let_def)
  then obtain e where "socket_of g1 c' = Some e" "sd_sessionId e = sd_sessionId d'"
    using r by (cases "socket_of g1 c'") auto
  then show "sd_sessionId d' \<noteq> Some i" using disconnected_revoked [OF inv assms(2,3)] by (metis g1_def)
qed

section \<open>The operator's controls reach the bet\<close>

lemma jget_play_claims:
  "jget (play_claims v cur x s l r) ''sub'' = Some (JStr (w_userId x))"
  "jget (play_claims v cur x s l r) ''walletId'' = Some (JStr (w_id x))"
  "jget (play_claims v cur x s l r) ''currency'' = Some (JStr cur)"
  "jget (play_claims v cur x s l r) ''operatorId'' = Some (JStr (vl_operatorId v))"
  "jget (play_claims v cur x s l r) ''sessionId'' = Some (JStr (s_id s))"
  "jget (play_claims v cur x s l r) ''kind'' = Some (JStr ''operator'')"
  "jget (play_claims v cur x s l r) ''sessionStartedAt'' = Some (JNum (of_int (s_createdAt s)))"
  "jget (play_claims v cur x s l r) ''limits'' = map_option serializeBetLimits l"
  "jget (play_claims v cur x s l r) ''demo'' = (if vl_demo v then Some (JBool True) else None)"
  "jget (play_claims v cur x s l r) ''rg'' = map_option serializeRg r"
  by (cases l; cases r; simp add: play_claims_def opt_entry_def)+

lemma open_session_result:
  "open_session env ops v cur x w = (Inr r, w') \<Longrightarrow> r = open_result ops v cur x (new_session env v cur x)"
  by (auto simp: open_session_def Let_def split: if_splits sum.splits prod.splits)

lemma opened_result:
  assumes "openFromToken J env ops token w = (Inr r, w1)" "launch_verify J ops token w = Inr v"
  shows "\<exists>x. r = open_result ops v (to_upper (text_or_empty (vl_currency v))) x
    (new_session env v (to_upper (text_or_empty (vl_currency v))) x)"
  using assms by (auto simp: openFromToken_def Let_def dest!: open_session_result split: sum.splits prod.splits)

definition opened_socket :: "operator_row \<Rightarrow> verified_launch \<Rightarrow> launch_result \<Rightarrow> int \<Rightarrow> socket_data \<Rightarrow> bool" where
  "opened_socket op v r started d \<longleftrightarrow>
     sd_walletId d = Some (lr_walletId r) \<and> sd_sessionId d = Some (lr_sessionId r) \<and> sd_demo d = vl_demo v \<and>
     sd_currency d = Some (lr_currency r) \<and> sd_operatorId d = Some (vl_operatorId v) \<and>
     sd_limits d = effectiveLimitsFor (op_betLimits op) (lr_currency r) \<and>
     sd_rg d = (if vl_demo v then None else effectiveRgFor (op_rgConfig op) (lr_currency r)) \<and>
     (sd_rg d = None \<or> sd_startedAt d = Some started)"

lemma deserialize_none [simp]: "deserializeBetLimits prim None = None" "deserializeRg num prim None = None"
  by (simp_all add: deserializeBetLimits_def deserializeRg_def)

lemma claimed_opened:
  assumes r: "r = open_result ops v cur x (new_session env v cur x)" and op: "find_operator ops (vl_operatorId v) = Some op"
    and claims: "\<And>k. k \<noteq> ''iat'' \<Longrightarrow> k \<noteq> ''exp'' \<Longrightarrow> jget payload k = jget (lr_claims r) k" and wal: "lr_walletId r \<noteq> []"
  shows "opened_socket op v r (oe_now env) (claimed_socket E payload (w_userId x) w)"
proof -
  let ?l = "effectiveLimitsFor (op_betLimits op) cur"
  let ?g = "if vl_demo v then None else effectiveRgFor (op_rgConfig op) cur"
  have pc: "lr_claims r = play_claims v cur x (new_session env v cur x) ?l ?g"
    using op by (simp add: r open_result_def Let_def)
  have l: "deserializeBetLimits (ce_prim E) (jget payload ''limits'') = ?l"
    using limits_back [OF effectiveLimits_ok] by (cases ?l) (simp_all add: claims pc jget_play_claims)
  have g: "deserializeRg js_num_text (ce_prim E) (jget payload ''rg'') = ?g"
    using rg_back [OF effectiveRg_ok] by (cases ?g) (auto simp: claims pc jget_play_claims split: if_splits)
  have t: "started_claim (ce_prim E) payload = Some (oe_now env)"
    by (simp add: started_claim_def claims pc jget_play_claims new_session_def)
  have c: "claim_text payload ''walletId'' = Some (lr_walletId r)" "claim_text payload ''sessionId'' = Some (lr_sessionId r)"
    "claim_text payload ''currency'' = Some (lr_currency r)" "claim_text payload ''operatorId'' = Some (vl_operatorId v)"
    "jget payload ''demo'' = Some (JBool True) \<longleftrightarrow> vl_demo v" "lr_currency r = cur"
    by (simp_all add: claim_text_def claims pc jget_play_claims, simp_all add: r open_result_def Let_def new_session_def)
  show ?thesis
    by (cases "deserializeRg js_num_text (ce_prim E) (jget payload ''rg'')")
      (use g in \<open>auto simp: opened_socket_def claimed_socket_eq blank_socket_def l t c wal truthy_def Let_def split: prod.split if_splits\<close>)
qed

text \<open>C29. The operator's limits and responsible-gambling controls are on every bet of a session: whoever
  connects with the play token that opening the session returned, however much later, gets a socket whose bets
  carry the session's wallet, mode and operator, the limits and the controls that the operator's configuration
  gives for the session's currency, and the time the session started.\<close>

theorem controls_reach_bet:
  assumes "openFromToken J env ops token w = (Inr r, w1)" and "launch_verify J ops token w = Inr v"
    and "find_operator ops (vl_operatorId v) = Some op"
    and "ce_verify E t = Some payload" and "t \<noteq> []"
    and "\<And>k. k \<noteq> ''iat'' \<Longrightarrow> k \<noteq> ''exp'' \<Longrightarrow> jget payload k = jget (lr_claims r) k"
    and "isLive (lr_sessionId r) w2" and "\<not> ce_liveFails E" and "lr_walletId r \<noteq> []"
    and "gw_inv g" and "socket_of g c = None"
  shows "\<exists>u d. socket_of (handleConnection E s c (Some t) w2 g) c = Some d \<and> sd_userId d = Some u \<and>
    opened_socket op v r (oe_now env) d \<and>
    socket_args d u pn a auto = \<lparr>pa_userId = u, pa_panel = pn, pa_amount = a, pa_autoCashout = map_option cents_of auto,
      pa_walletId = Some (lr_walletId r), pa_limits = effectiveLimitsFor (op_betLimits op) (lr_currency r),
      pa_demo = vl_demo v, pa_rgCtx = Some \<lparr>rgc_rg = sd_rg d, rgc_pending = sd_pending d, rgc_startedAt = sd_startedAt d\<rparr>,
      pa_operatorId = Some (vl_operatorId v)\<rparr>"
proof -
  obtain x where r: "r = open_result ops v (to_upper (text_or_empty (vl_currency v))) x
      (new_session env v (to_upper (text_or_empty (vl_currency v))) x)"
    using opened_result [OF assms(1,2)] by blast
  let ?d = "claimed_socket E payload (w_userId x) w2"
  have o: "opened_socket op v r (oe_now env) ?d" by (rule claimed_opened [OF r assms(3) assms(6,9)])
  have "jget payload ''kind'' = Some (JStr ''operator'')" "claim_text payload ''sessionId'' = Some (lr_sessionId r)"
    "claim_text payload ''sub'' = Some (w_userId x)"
    by (simp_all add: claim_text_def assms(6), simp_all add: r open_result_def Let_def jget_play_claims)
  then have a: "authenticate E (Some t) w2 = Some (w_userId x, ?d)"
    using assms(4,5,7,8) by (simp add: authenticate_eq truthy_def split: option.split)
  have s: "socket_of (send_state y s g) = socket_of g" for y s g by (simp add: socket_of_def)
  have "socket_of (handleConnection E s c (Some t) w2 g) c = Some ?d"
    using sign_in_sockets [OF gw_inv_blank [OF assms(10,11)], of c "w_userId x" ?d] a
    by (simp add: handleConnection_sign s)
  then show ?thesis using o by (auto simp: socket_args_def opened_socket_def)
qed

end
