(* ===== verification/VR_GatewayPause.thy ===== *)
theory VR_GatewayPause
  imports VR_GatewayRun
begin

text \<open>
  The hard pause of a reality check. \<open>check_store\<close> is what the gateway relies on in the session service:
  a recorded pause is lifted by an acknowledgement of that session alone, and is what a reconnect reads.
\<close>

locale check_store =
  fixes held :: "'w \<Rightarrow> uid \<Rightarrow> bool"
    and mark :: "int \<Rightarrow> uid \<Rightarrow> int option \<Rightarrow> 'w \<Rightarrow> 'w"
    and ack :: "int \<Rightarrow> uid \<Rightarrow> int option \<Rightarrow> 'w \<Rightarrow> 'w"
    and load :: "uid \<Rightarrow> 'w \<Rightarrow> bool \<times> int option"
  assumes mark_keeps: "held w i \<Longrightarrow> held (mark now j due w) i"
    and ack_other: "held w i \<Longrightarrow> j \<noteq> i \<Longrightarrow> held (ack now j due w) i"
    and load_held: "held w i \<Longrightarrow> fst (load i w)"
begin

lemma decision_keeps:
  "held w i \<Longrightarrow> (j = i \<Longrightarrow> pending) \<Longrightarrow> held (if pending then mark now j due w else ack now j due w) i"
  using mark_keeps [of w i] ack_other [of w i j] by (cases "j = i") simp_all

lemma load_pending: "held w i \<Longrightarrow> load i w = (b, due) \<Longrightarrow> b"
  using load_held [of w i] by simp

end

definition held :: "'o world \<Rightarrow> uid \<Rightarrow> bool" where
  "held w i \<longleftrightarrow> (\<exists>s \<in> set (db_sessions w). s_id s = i) \<and>
     (\<forall>s \<in> set (db_sessions w). s_id s = i \<longrightarrow> s_rcPendingAt s \<noteq> None)"

lemma held_update:
  assumes "held w i" "\<And>s. s_id (f s) = s_id s" "\<And>s. P s \<Longrightarrow> s_id s = i \<Longrightarrow> s_rcPendingAt (f s) \<noteq> None"
  shows "held (session_update P f w) i"
proof -
  obtain s where s: "s \<in> set (db_sessions w)" "s_id s = i" using assms(1) by (auto simp: held_def)
  have "(if P s then f s else s) \<in> set (db_sessions (session_update P f w))" "s_id (if P s then f s else s) = i"
    using s assms(2) by (simp_all add: session_update_def table_simps)
  moreover have "s_rcPendingAt t \<noteq> None" if "t \<in> set (db_sessions (session_update P f w))" "s_id t = i" for t
    using that assms by (auto simp: held_def session_update_def table_simps split: if_splits)
  ultimately show ?thesis unfolding held_def by blast
qed

lemma set_due_simps [simp]:
  "s_id (set_due d s) = s_id s" "s_rcPendingAt (set_due d s) = s_rcPendingAt s"
  by (simp_all add: set_due_def split: option.split)

interpretation cs: check_store held markRealityCheckPending ackRealityCheck loadRealityCheckState
proof
  show "held (markRealityCheckPending now j due w) i" if "held w i" for w :: "'a world" and i now j due
    unfolding markRealityCheckPending_def by (rule held_update [OF that]) simp_all
  show "held (ackRealityCheck now j due w) i" if "held w i" "j \<noteq> i" for w :: "'a world" and i j now due
    unfolding ackRealityCheck_def by (rule held_update [OF that(1)]) (use that(2) in simp_all)
  show "fst (loadRealityCheckState i w)" if "held w i" for w :: "'a world" and i
  proof (cases "find_session w i")
    case None
    then show ?thesis using that by (auto simp: held_def find_session_def find_None_iff)
  next
    case (Some s)
    then have "s \<in> set (db_sessions w)" "s_id s = i" using find_SomeD [of _ "db_sessions w" s] by (auto simp: find_session_def)
    then show ?thesis using that Some by (simp add: held_def loadRealityCheckState_def)
  qed
qed

lemma held_accounts: "accounts v = accounts w \<Longrightarrow> held v i = held w i"
  by (simp add: held_def accounts_def)

section \<open>Paused sockets\<close>

text \<open>A socket whose controls demand the acknowledgement, and that is waiting for it.\<close>

definition enforcing :: "effective_rg option \<Rightarrow> int option \<Rightarrow> bool \<Rightarrow> bool" where
  "enforcing rg started demo \<longleftrightarrow> \<not> demo \<and>
     (case (rg, started) of
        (Some e, Some t) \<Rightarrow> t \<noteq> 0 \<and> rg_enforceRealityCheck e \<and> check_interval e \<noteq> None | _ \<Rightarrow> False)"

definition demands :: "socket_data \<Rightarrow> bool" where
  "demands d \<longleftrightarrow> enforcing (sd_rg d) (sd_startedAt d) (sd_demo d)"

definition waiting_ack :: "socket_data \<Rightarrow> bool" where
  "waiting_ack d \<longleftrightarrow> sd_pending d \<and> demands d"

text \<open>
  Every socket of the session \<open>i\<close> carries its controls; from the record of a check on (\<open>on\<close>), the check is on
  the session's row and the sockets \<open>X\<close> wait for the acknowledgement.
\<close>

definition paused :: "bool \<Rightarrow> sock set \<Rightarrow> uid \<Rightarrow> gateway \<times> 'o world \<Rightarrow> bool" where
  "paused on X i st \<longleftrightarrow> (on \<longrightarrow> held (snd st) i) \<and>
     (\<forall>c d. socket_of (fst st) c = Some d \<and> sd_sessionId d = Some i \<longrightarrow> demands d \<and> (on \<and> c \<in> X \<longrightarrow> sd_pending d))"

text \<open>
  Runs in which a connection takes two steps, with anything in between: a step is one of those of
  \<open>VR_GatewayRun\<close>, or a connection that reaches its await, or one that resumes after it.
\<close>

datatype 'o pc_event =
    Opens conn_env sock "string option"
  | Joins conn_env "public_state option" sock "(uid \<times> json) option"
  | Whole "'o gw_event"

fun pc_do :: "'o wallet_provider \<Rightarrow> 'o pc_event \<Rightarrow> gateway \<times> 'o world \<Rightarrow> gateway \<times> 'o world" where
  "pc_do p (Opens E c token) (g, w) = (connect_open E c (accepted_claims E token w) g, w)"
| "pc_do p (Joins E s c claims) (g, w) = (connect_join E s c claims w g, w)"
| "pc_do p (Whole e) (g, w) = gw_do p e (g, w)"

inductive pc_run ::
  "'o wallet_provider \<Rightarrow> ('o pc_event \<Rightarrow> gateway \<times> 'o world \<Rightarrow> bool) \<Rightarrow> gateway \<times> 'o world \<Rightarrow> gateway \<times> 'o world \<Rightarrow> bool"
  for p ok where
  pc_begun: "pc_run p ok st st"
| pc_event: "pc_run p ok st st' \<Longrightarrow> ok e st' \<Longrightarrow> pc_run p ok st (pc_do p e st')"

lemma pc_run_invariant:
  assumes "pc_run p ok st st'" "I st" "\<And>e st. I st \<Longrightarrow> ok e st \<Longrightarrow> I (pc_do p e st)"
  shows "I st'"
  using assms by (induction rule: pc_run.induct) auto

text \<open>
  What may happen: tokens of the session carry its controls, a connection resumes on the socket it opened;
  once the check is recorded the session's own sockets do not acknowledge and nobody else clears the record,
  and the socket ids \<open>X\<close> are not drawn again. The money handlers may be interleaved with anything of their kind.
\<close>

definition enforced_token :: "(json \<Rightarrow> string) \<Rightarrow> uid \<Rightarrow> json \<Rightarrow> bool" where
  "enforced_token prim i payload \<longleftrightarrow>
     (claim_text payload ''sessionId'' = Some i \<longrightarrow>
        enforcing (deserializeRg js_num_text prim (jget payload ''rg'')) (started_claim prim payload)
          (jget payload ''demo'' = Some (JBool True)))"

fun gw_ok :: "bool \<Rightarrow> uid \<Rightarrow> 'o gw_event \<Rightarrow> gateway \<times> 'o world \<Rightarrow> bool" where
  "gw_ok on i (Connects E s c token) st = (\<forall>payload. ce_verify E (the token) = Some payload \<longrightarrow> enforced_token (ce_prim E) i payload)"
| "gw_ok on i (Acks M now c) st = (on \<longrightarrow> (\<forall>d. socket_of (fst st) c = Some d \<longrightarrow> sd_sessionId d \<noteq> Some i))"
| "gw_ok on i (Cancels ctx c body) st = race_quiet (bc_race ctx)"
| "gw_ok on i (Cashes ctx c body) st = race_quiet (bc_race ctx)"
| "gw_ok on i (Ticks leader ctx s) st = race_quiet (bc_race ctx)"
| "gw_ok on i (Sweeps_reserving leader busy E now ms) st = race_quiet (we_race E)"
| "gw_ok on i (Elsewhere f) st = (on \<longrightarrow> held (snd st) i \<longrightarrow> held (f (snd st)) i)"
| "gw_ok on i _ st = True"

fun pause_ok :: "bool \<Rightarrow> sock set \<Rightarrow> uid \<Rightarrow> 'o pc_event \<Rightarrow> gateway \<times> 'o world \<Rightarrow> bool" where
  "pause_ok on X i (Opens E c token) st = (c \<notin> X \<and>
     (\<forall>payload. ce_verify E (the token) = Some payload \<longrightarrow> enforced_token (ce_prim E) i payload))"
| "pause_ok on X i (Joins E s c claims) st =
     (\<forall>u payload d. claims = Some (u, payload) \<longrightarrow> socket_of (fst st) c = Some d \<longrightarrow> claim_text payload ''sessionId'' = sd_sessionId d)"
| "pause_ok on X i (Whole e) st = gw_ok on i e st"

lemma paused_same:
  assumes "paused on X i (g, w)" "same_registry g g'" "accounts w' = accounts w"
  shows "paused on X i (g', w')"
  using assms socket_of_same [of g g'] held_accounts [of w' w] by (auto simp: paused_def)

lemma paused_sub:
  assumes "paused on X i (g, w)"
    "\<And>c d. socket_of g' c = Some d \<Longrightarrow> sd_sessionId d = Some i \<Longrightarrow>
       demands d \<and> (on \<and> c \<in> X \<longrightarrow> sd_pending d) \<or> socket_of g c = Some d"
  shows "paused on X i (g', w)"
  using assms unfolding paused_def fst_conv snd_conv by blast

lemma sign_in_old: "socket_of (sign_in c u d g) x = Some d' \<Longrightarrow> x = c \<and> d' = d \<or> socket_of g x = Some d'"
proof -
  have s: "socket_of (g\<lparr>gw_users := x\<rparr>) = socket_of g" for x g by (simp add: socket_of_def)
  show "socket_of (sign_in c u d g) x = Some d' \<Longrightarrow> x = c \<and> d' = d \<or> socket_of g x = Some d'"
    by (auto simp: sign_in_def Let_def s split: option.splits if_splits)
qed

text \<open>A reconnect reads the recorded pause, or assumes it.\<close>

lemma restored_held:
  assumes "held w i" "claim_text payload ''sessionId'' = Some i" "i \<noteq> []" "check_interval rg \<noteq> None"
    "restored_check E rg payload w = (b, due)"
  shows b
  using assms cs.load_pending [OF assms(1)]
  by (auto simp: restored_check_def truthy_def split: option.splits if_splits)

lemma restore_keeps [simp]:
  "sd_sessionId (restore_check E payload w d) = sd_sessionId d" "demands (restore_check E payload w d) = demands d"
  "sd_userId (restore_check E payload w d) = sd_userId d"
  by (simp_all add: restore_check_def demands_def split: option.split prod.split)

lemma restore_pending:
  assumes "held w i" "i \<noteq> []" "demands d" "claim_text payload ''sessionId'' = Some i"
  shows "sd_pending (restore_check E payload w d)"
proof -
  obtain rg t where d: "sd_rg d = Some rg" "sd_startedAt d = Some t" "check_interval rg \<noteq> None"
    using assms(3) by (auto simp: demands_def enforcing_def split: option.splits)
  obtain b due where r: "restored_check E rg payload w = (b, due)" by fastforce
  have b by (rule restored_held [OF assms(1,4,2) d(3) r])
  then show ?thesis by (simp add: restore_check_def d r)
qed

lemma claims_session [simp]: "sd_sessionId (claims_socket E payload u) = claim_text payload ''sessionId''"
  by (simp add: claims_socket_def Let_def split: option.split)

lemma claims_demand:
  "enforced_token (ce_prim E) i payload \<Longrightarrow> claim_text payload ''sessionId'' = Some i \<Longrightarrow> demands (claims_socket E payload u)"
  by (auto simp: enforced_token_def enforcing_def demands_def claims_socket_def blank_socket_def Let_def split: option.splits)

lemma accepted_verified: "accepted_claims E token w = Some (u, payload) \<Longrightarrow> ce_verify E (the token) = Some payload"
  by (auto simp: accepted_claims_def truthy_def split: option.splits if_splits)

lemma claimed_waits:
  assumes "enforced_token (ce_prim E) i payload" "i \<noteq> []" "claim_text payload ''sessionId'' = Some i" "on \<longrightarrow> held w i"
  shows "demands (claimed_socket E payload u w) \<and> (on \<longrightarrow> sd_pending (claimed_socket E payload u w))"
  using assms claims_demand [OF assms(1,3)] restore_pending [of w i "claims_socket E payload u" payload E]
  by (simp add: claimed_socket_def)

lemma paused_connect:
  assumes "paused on X i (g, w)" "i \<noteq> []" "gw_ok on i (Connects E s c token) (g, w)"
  shows "paused on X i (handleConnection E s c token w g, w)"
proof (rule paused_sub [OF assms(1)])
  fix x d
  assume x: "socket_of (handleConnection E s c token w g) x = Some d" and i: "sd_sessionId d = Some i"
  have s: "socket_of (send_state a s g) = socket_of g" for a s g by (simp add: socket_of_def)
  show "demands d \<and> (on \<and> x \<in> X \<longrightarrow> sd_pending d) \<or> socket_of g x = Some d"
  proof (cases "accepted_claims E token w")
    case None
    then show ?thesis using x i by (auto simp: handleConnection_sign authenticate_def s split: if_splits)
  next
    case (Some up)
    obtain u payload where up: "up = (u, payload)" by fastforce
    have "x = c \<and> d = claimed_socket E payload u w \<or> socket_of (set_socket c blank_socket g) x = Some d"
      using x Some up by (intro sign_in_old) (simp add: handleConnection_sign authenticate_def s)
    moreover have "enforced_token (ce_prim E) i payload" using accepted_verified [of E token w u payload] Some up assms(3) by auto
    ultimately show ?thesis
      using i assms(1,2) claimed_waits [of E i payload on w u]
      by (auto simp: paused_def claimed_socket_def split: if_splits)
  qed
qed

lemma paused_open:
  assumes "paused on X i (g, w)" "pause_ok on X i (Opens E c token) (g, w)"
  shows "paused on X i (connect_open E c (accepted_claims E token w) g, w)"
proof (rule paused_sub [OF assms(1)])
  fix x d
  assume x: "socket_of (connect_open E c (accepted_claims E token w) g) x = Some d" and i: "sd_sessionId d = Some i"
  show "demands d \<and> (on \<and> x \<in> X \<longrightarrow> sd_pending d) \<or> socket_of g x = Some d"
    using x i assms(2) accepted_verified [of E token w] claims_demand [of E i]
    by (cases "accepted_claims E token w") (auto simp: connect_open_def split: if_splits)
qed

lemma join_old:
  "socket_of (connect_join E s c claims w g) x = Some d \<Longrightarrow>
   socket_of g x = Some d \<or> x = c \<and> (\<exists>u payload d0. claims = Some (u, payload) \<and> socket_of g c = Some d0 \<and> d = restore_check E payload w d0)"
proof -
  have s: "socket_of (g\<lparr>gw_users := x\<rparr>) = socket_of g" "socket_of (send_state a s g) = socket_of g" for x g a s
    by (simp_all add: socket_of_def)
  show "socket_of (connect_join E s c claims w g) x = Some d \<Longrightarrow>
   socket_of g x = Some d \<or> x = c \<and> (\<exists>u payload d0. claims = Some (u, payload) \<and> socket_of g c = Some d0 \<and> d = restore_check E payload w d0)"
    by (auto simp: connect_join_def Let_def s split: option.splits if_splits)
qed

lemma paused_join:
  assumes "paused on X i (g, w)" "i \<noteq> []" "pause_ok on X i (Joins E s c claims) (g, w)"
  shows "paused on X i (connect_join E s c claims w g, w)"
proof (rule paused_sub [OF assms(1)])
  fix x d
  assume x: "socket_of (connect_join E s c claims w g) x = Some d" and i: "sd_sessionId d = Some i"
  show "demands d \<and> (on \<and> x \<in> X \<longrightarrow> sd_pending d) \<or> socket_of g x = Some d"
    using join_old [OF x] i assms restore_pending [of w i] by (auto simp: paused_def)
qed

text \<open>The connection of \<open>c\<close> resumes after the check was recorded: from here \<open>c\<close> waits.\<close>

lemma join_waits:
  assumes "paused True {} i (g, w)" "i \<noteq> []" "pause_ok True {} i (Joins E s c (Some (u, payload))) (g, w)"
  shows "paused True {c} i (connect_join E s c (Some (u, payload)) w g, w)"
proof -
  have p: "paused True {} i (connect_join E s c (Some (u, payload)) w g, w)" by (rule paused_join [OF assms])
  have s: "socket_of (g\<lparr>gw_users := x\<rparr>) = socket_of g" "socket_of (send_state a s g) = socket_of g" for x g a s
    by (simp_all add: socket_of_def)
  have "sd_pending d" if d: "socket_of (connect_join E s c (Some (u, payload)) w g) c = Some d" "sd_sessionId d = Some i" for d
  proof -
    obtain d0 where d0: "socket_of g c = Some d0" "d = restore_check E payload w d0"
      using d(1) by (auto simp: connect_join_def Let_def s split: option.splits if_splits)
    then have "claim_text payload ''sessionId'' = Some i" "demands d0" using assms(1,3) d(2) by (auto simp: paused_def)
    then show ?thesis using restore_pending [of w i d0 payload E] assms(1,2) d0(2) by (simp add: paused_def)
  qed
  then show ?thesis using p by (auto simp: paused_def)
qed

lemma paused_disconnect: "paused on X i (g, w) \<Longrightarrow> paused on X i (handleDisconnect c g, w)"
  by (erule paused_sub) (auto split: if_splits)

lemma paused_disconnect_all: "paused on X i (g, w) \<Longrightarrow> paused on X i (disconnect_all cs g, w)"
  by (induction cs arbitrary: g) (simp_all add: disconnect_all_def paused_disconnect)

lemma paused_set:
  assumes "paused on X i (g, w)" "socket_of g c = Some d" "sd_sessionId d' = sd_sessionId d"
    "sd_sessionId d = Some i \<Longrightarrow> demands d' \<and> (on \<and> c \<in> X \<longrightarrow> sd_pending d')"
  shows "paused on X i (set_socket c d' g, w)"
  by (rule paused_sub [OF assms(1)]) (use assms(3,4) in \<open>auto split: if_splits\<close>)

lemma paused_world: "paused on X i (g, w) \<Longrightarrow> (on \<longrightarrow> held w' i) \<Longrightarrow> paused on X i (g, w')"
  by (auto simp: paused_def)

lemma evaluate_pending: "rs_pending s \<Longrightarrow> rd_nextPending (rgEvaluate s now)"
  by (simp add: rgEvaluate_def Let_def split: option.split)

lemma evaluate_enforced: "rg_enforceRealityCheck (rs_rg s) \<Longrightarrow> rd_emitRealityCheck (rgEvaluate s now) \<Longrightarrow> rd_nextPending (rgEvaluate s now)"
  by (auto simp: rgEvaluate_def Let_def split: option.splits if_splits)

lemma paused_sweep_socket:
  assumes "paused on X i st" "i \<noteq> []"
  shows "paused on X i (sweep_socket E now e st)"
proof -
  obtain u c g w where st: "st = (g, w)" "e = (u, c)" by (metis surj_pair)
  show ?thesis
  proof (cases "\<exists>d rg t. socket_of g c = Some d \<and> sd_rg d = Some rg \<and> sd_startedAt d = Some t")
    case True
    then obtain d rg t where d: "socket_of g c = Some d" "sd_rg d = Some rg" "sd_startedAt d = Some t" by blast
    define k where "k = rgEvaluate (rg_view d rg t) now"
    define d' where "d' = d\<lparr>sd_dueAt := rd_nextDueAt k, sd_pending := rd_nextPending k, sd_notified := rd_nextNotified k\<rparr>"
    have wait: "demands d \<and> (on \<and> c \<in> X \<longrightarrow> sd_pending d)" if "sd_sessionId d = Some i"
      using assms(1) d(1) that st by (simp add: paused_def)
    then have "rg_enforceRealityCheck rg" if "sd_sessionId d = Some i"
      using that d by (simp add: demands_def enforcing_def)
    then have pend: "rd_emitRealityCheck k \<Longrightarrow> rd_nextPending k" if "sd_sessionId d = Some i"
      using that evaluate_enforced [of "rg_view d rg t" now] by (simp add: k_def rg_view_def)
    have p: "paused on X i (set_socket c d' g, w)"
      by (rule paused_set [OF _ d(1)])
        (use assms(1) st wait evaluate_pending [of "rg_view d rg t" now] in \<open>auto simp: d'_def demands_def k_def rg_view_def\<close>)
    have "on \<longrightarrow> held (persist_check E now c d k w) i" if "rd_emitRealityCheck k"
      using assms(1) st pend that cs.decision_keeps [of w i _ "rd_nextPending k"]
      by (auto simp: persist_check_def paused_def truthy_def split: option.splits if_splits)
    then have q: "paused on X i (set_socket c d' g, persist_check E now c d k w)" if "rd_emitRealityCheck k"
      using that paused_world [OF p] by blast
    have s: "paused on X i (send a ev x, v) = paused on X i (x, v)" for a ev x and v :: "'a world"
      by (simp add: paused_def socket_of_def)
    show ?thesis
      using p q s by (simp add: st sweep_socket_def d Let_def k_def [symmetric] d'_def [symmetric])
  next
    case False
    then have "sweep_socket E now e st = st" by (auto simp: st sweep_socket_def split: option.split)
    then show ?thesis using assms(1) by simp
  qed
qed

lemma paused_sweep:
  assumes "paused on X i (g, w)" "i \<noteq> []"
  shows "paused on X i (runRgSweep E now g w)"
proof -
  have f: "paused on X i (fold (sweep_socket E now) es st)" if "paused on X i st" for es st
    using that by (induction es arbitrary: st) (simp_all add: paused_sweep_socket assms(2))
  have "paused on X i (fold (sweep_socket E now) es (disconnect_all cs g, w))" for es cs
    by (rule f) (rule paused_disconnect_all [OF assms(1)])
  then show ?thesis using assms(1) by (simp add: runRgSweep_def disconnectRevokedSockets_def Let_def)
qed

lemma paused_ack:
  assumes "paused on X i (g, w)" "gw_ok on i (Acks M now c) (g, w)"
  shows "paused on X i (snd (onRealityCheckAck M now c g w))"
proof -
  obtain ok g1 where a: "allow now c g = (ok, g1)" by fastforce
  have s: "paused on X i (g1, w)" "socket_of g1 = socket_of g"
    using paused_same [OF assms(1) allow_same [OF a] refl] socket_of_same [OF allow_same [OF a]] by simp_all
  have set: "paused on X i (set_socket c (d\<lparr>sd_pending := False, sd_dueAt := x\<rparr>) g1, w)" if "socket_of g1 c = Some d" for d x
    by (rule paused_set [OF s(1) that]) (use s(1) that assms(2) s(2) in \<open>auto simp: paused_def demands_def\<close>)
  have keep: "on \<longrightarrow> held (if me_ackFails M then w else ackRealityCheck now sid due w) i"
    if "socket_of g1 c = Some d" "truthy (sd_sessionId d) = Some sid" for d sid due
  proof
    assume on: on
    then have "sd_sessionId d \<noteq> Some i" using that(1) assms(2) s(2) by simp
    then have "sid \<noteq> i" using that(2) by (auto simp: truthy_def split: option.splits if_splits)
    then show "held (if me_ackFails M then w else ackRealityCheck now sid due w) i"
      using s(1) on by (simp add: paused_def cs.ack_other)
  qed
  show ?thesis using a s(1) set paused_world [OF set keep]
    by (auto simp: onRealityCheckAck_def Let_def split: option.split)
qed

text \<open>The money handlers and sweeps.\<close>

lemma placeBet_paused:
  assumes "waiting_ack d"
  shows "\<exists>reason. placeBet f ctx (socket_args d u p amount auto) betId w = (bet_reject reason p, w)"
proof -
  obtain rg t where "sd_pending d" "\<not> sd_demo d" "sd_rg d = Some rg" "sd_startedAt d = Some t" "t \<noteq> 0" "rg_enforceRealityCheck rg"
    using assms by (auto simp: waiting_ack_def demands_def enforcing_def split: option.splits)
  then have "rg_precheck (bc_now ctx) (socket_args d u p amount auto) = Some ''reality_check_pending''"
    by (simp add: rg_precheck_def active_rg_def rg_pending_def socket_args_def)
  moreover have "pa_panel (socket_args d u p amount auto) = p" by (simp add: socket_args_def)
  ultimately show ?thesis
    by (cases "in_phase ctx Betting"; cases "checkBetAmount (bc_risk ctx) \<lfloor>amount\<rfloor> (sd_limits d)")
      (auto simp: placeBet_def Let_def socket_args_def)
qed

lemma onPlaceBet_accounts:
  "account_frame p \<Longrightarrow> accounts (snd (snd (onPlaceBet M (ctx\<lparr>bc_wallet := p\<rparr>) c body g w))) = accounts w"
proof -
  assume p: "account_frame p"
  have "placeBet f (ctx\<lparr>bc_wallet := p\<rparr>) a i v = (r, v') \<Longrightarrow> accounts v' = accounts v" for f a i v r v'
    using account_frame.place_accounts [OF p, of f ctx a i v] by simp
  then show ?thesis by (auto simp: onPlaceBet_def Let_def split: prod.split option.split)
qed

lemma onCancelBet_accounts:
  assumes "account_frame p" "race_quiet (bc_race ctx)"
  shows "accounts (snd (snd (onCancelBet (ctx\<lparr>bc_wallet := p\<rparr>) c body g w))) = accounts w"
proof -
  have "cancelBet (ctx\<lparr>bc_wallet := p\<rparr>) u pn v = (r, v') \<Longrightarrow> accounts v' = accounts v" for u pn v r v'
    using account_frame.cancel_accounts [OF assms, of u pn v] by simp
  then show ?thesis by (auto simp: onCancelBet_def Let_def split: prod.split option.split sum.split)
qed

lemma onCashOut_accounts:
  assumes "account_frame p" "race_quiet (bc_race ctx)"
  shows "accounts (snd (snd (onCashOut (ctx\<lparr>bc_wallet := p\<rparr>) c body g w))) = accounts w"
proof -
  have "cashOut (ctx\<lparr>bc_wallet := p\<rparr>) u pn m v = (r, v') \<Longrightarrow> accounts v' = accounts v" for u pn m v r v'
    using account_frame.cash_accounts [OF assms, of u pn m v] by simp
  then show ?thesis by (auto simp: onCashOut_def Let_def split: prod.split option.split sum.split)
qed

lemma onTick_accounts:
  assumes "account_frame p" "race_quiet (bc_race ctx)"
  shows "accounts (snd (onTick leader (ctx\<lparr>bc_wallet := p\<rparr>) s g w)) = accounts w"
proof -
  have "evaluateAutoCashouts (ctx\<lparr>bc_wallet := p\<rparr>) m v = (r, v') \<Longrightarrow> accounts v' = accounts v" for m v r v'
    using account_frame.auto_accounts [OF assms, of m v] by simp
  then show ?thesis by (auto simp: onTick_def Let_def split: prod.split option.split)
qed

lemma onSettle_accounts: "accounts (snd (onSettle_gateway leader now r g w)) = accounts w"
proof -
  have "settleRound now r w = (bs, v) \<Longrightarrow> accounts v = accounts w" for bs v
    by (auto simp: settleRound_def Let_def split: if_splits)
  then show ?thesis by (auto simp: onSettle_gateway_def split: prod.split)
qed

lemma reserving_sweep_accounts:
  assumes "account_frame p" "race_quiet (we_race E)"
  shows "accounts (runReservingSweep leader busy (E\<lparr>we_wallet := p\<rparr>) now ms w) = accounts w"
proof -
  have fold: "accounts (fold (\<lambda>f. f) fs w) = accounts w" if "\<And>f v. f \<in> set fs \<Longrightarrow> accounts (f v) = accounts v" for fs w
    using that by (induction fs arbitrary: w) auto
  show ?thesis
    unfolding runReservingSweep_def
    by (auto intro!: fold dest!: in_set_takeD simp: account_frame.reserving_accounts [OF assms]
        account_frame.stranded_accounts [OF assms(1)] account_frame.voiding_accounts [OF assms(1)] drain_accounts)
qed

lemma reconcile_accounts: "account_frame p \<Longrightarrow> accounts (runReconcile leader busy p n w) = accounts w"
  by (simp add: runReconcile_def account_frame.payouts_accounts)

lemma paused_do:
  assumes p: "account_frame p" and i: "i \<noteq> []" and st: "paused on X i st" and ok: "gw_ok on i e st"
  shows "paused on X i (gw_do p e st)"
proof -
  obtain g w where g: "st = (g, w)" by fastforce
  have step: "paused on X i (g', w')" if "same_registry g g'" "accounts w' = accounts w" for g' w'
    using paused_same st that unfolding g by blast
  have self: "same_registry g g" by (simp add: same_registry_def)
  have three: "paused on X i (snd r)" if "same_registry g (fst (snd r))" "accounts (snd (snd r)) = accounts w" for r :: "ack \<times> gateway \<times> 'a world"
    using step [OF that] by (simp add: prod_eq_iff)
  have two: "paused on X i r" if "same_registry g (fst r)" "accounts (snd r) = accounts w" for r :: "gateway \<times> 'a world"
    using step [OF that] by simp
  show ?thesis
  proof (cases e)
    case (Connects E s c token)
    then show ?thesis using paused_connect [OF _ i] st ok by (simp add: g)
  next
    case (Disconnects c)
    then show ?thesis using paused_disconnect st by (simp add: g)
  next
    case (Subscribes now s c)
    then show ?thesis using step [OF onSubscribe_same refl] by (simp add: g)
  next
    case (Syncs now c body)
    then show ?thesis using step [OF onTimeSync_same refl] by (simp add: g)
  next
    case (Places M ctx c body)
    then show ?thesis using three [OF onPlaceBet_same onPlaceBet_accounts [OF p]] by (simp add: g)
  next
    case (Cancels ctx c body)
    then show ?thesis using three [OF onCancelBet_same onCancelBet_accounts [OF p]] ok by (simp add: g)
  next
    case (Cashes ctx c body)
    then show ?thesis using three [OF onCashOut_same onCashOut_accounts [OF p]] ok by (simp add: g)
  next
    case (Acks M now c)
    then show ?thesis using paused_ack st ok by (simp add: g)
  next
    case (Rg_sweeps E now)
    then show ?thesis using paused_sweep [OF _ i] st by (simp add: g)
  next
    case (Ticks leader ctx s)
    then show ?thesis using two [OF onTick_same onTick_accounts [OF p]] ok by (simp add: g)
  next
    case (Settles leader now r)
    then show ?thesis using two [OF onSettle_same onSettle_accounts] by (simp add: g)
  next
    case (Reconciles leader busy n)
    then show ?thesis using step [OF self reconcile_accounts [OF p]] by (simp add: g)
  next
    case (Sweeps_reserving leader busy E now ms)
    then show ?thesis using step [OF self reserving_sweep_accounts [OF p]] ok by (simp add: g)
  next
    case (Elsewhere f)
    then show ?thesis using st ok by (auto simp: g paused_def)
  qed
qed

lemma pc_run_paused:
  assumes p: "account_frame p" and i: "i \<noteq> []" and run: "pc_run p (pause_ok on X i) st st'" and st: "paused on X i st"
  shows "paused on X i st'"
proof (rule pc_run_invariant [where I = "paused on X i", OF run st])
  fix e :: "'a pc_event" and st
  assume st: "paused on X i st" and ok: "pause_ok on X i e st"
  obtain g w where g: "st = (g, w)" by fastforce
  show "paused on X i (pc_do p e st)"
  proof (cases e)
    case (Opens E c token)
    then show ?thesis using paused_open st ok by (simp add: g)
  next
    case (Joins E s c claims)
    then show ?thesis using paused_join [OF _ i] st ok by (simp add: g)
  next
    case (Whole e')
    then show ?thesis using paused_do [OF p i] st ok by (simp add: g)
  qed
qed

text \<open>A bet from a socket that waits is refused and leaves the database as it was.\<close>

lemma waiting_refused:
  assumes "\<And>d. socket_of g c = Some d \<Longrightarrow> sd_sessionId d = Some i \<Longrightarrow> waiting_ack d"
    and "\<And>d. socket_of g c = Some d \<Longrightarrow> sd_sessionId d = Some i"
  shows "case onPlaceBet M ctx c body g w of (r, g', w') \<Rightarrow> w' = w \<and> (case r of Bet_ack b \<Rightarrow> \<not> br_ok b | _ \<Rightarrow> True)"
proof -
  obtain ok g1 where a: "allow (bc_now ctx) c g = (ok, g1)" by fastforce
  have s: "socket_of g1 = socket_of g" using socket_of_same [OF allow_same [OF a]] .
  show ?thesis
  proof (cases "socket_of g c")
    case None
    then show ?thesis by (simp add: onPlaceBet_def a s)
  next
    case (Some d)
    then have d: "waiting_ack d" using assms by blast
    have r: "w1 = w \<and> \<not> br_ok r" if "placeBet f ctx (socket_args d u pn amount auto) (me_betId M) w = (r, w1)" for f u pn amount auto r w1
      using placeBet_paused [OF d] that by (metis bet_reject_def bet_result.select_convs(1) prod.inject)
    show ?thesis
      by (cases ok; cases "truthy (sd_userId d)"; cases "placeSchema body"; cases "truthy (sd_sessionId d)")
        (auto simp: onPlaceBet_def a s Some dest!: r split: prod.split)
  qed
qed

text \<open>C32. A recorded reality check cannot be dodged by a socket that is connected. Let a node run from its start,
  connections taking their two steps and anything coming between these; let the check of a session be
  recorded on its row, and let the session's player do from then on what he likes short of acknowledging it:
  reconnect, open further sockets, play, wait, while timers and other players go on. Then a socket of the
  session on which the check had fired, or whose connection resumes after the record, is paused from that
  moment to the end: its bets are refused and leave the database as it was.\<close>

theorem pause_survives:
  assumes provider: "walletProvider ty api sf now = Inr p" and i: "i \<noteq> []"
    and before: "pc_run p (pause_ok False {} i) (empty_gateway, w) (g0, w0)"
    and recorded: "held w0 i"
    and between: "pc_run p (pause_ok True {} i) (g0, w0) (g1, w1)"
    and socket: "socket_of g1 c = Some d1" "sd_sessionId d1 = Some i"
    and paused: "g2 = g1 \<and> sd_pending d1 \<or>
      g2 = connect_join E s c (Some (u, payload)) w1 g1 \<and> claim_text payload ''sessionId'' = Some i"
    and after: "pc_run p (pause_ok True {c} i) (g2, w1) (g, w')" "\<And>d. socket_of g c = Some d \<Longrightarrow> sd_sessionId d = Some i"
  shows "case onPlaceBet M ctx c body g w' of
    (r, g', w'') \<Rightarrow> w'' = w' \<and> (case r of Bet_ack b \<Rightarrow> \<not> br_ok b | _ \<Rightarrow> True)"
proof -
  note run = pc_run_paused [OF provider_accounts [OF provider] i]
  have "paused False {} i (empty_gateway, w)" by (simp add: paused_def empty_gateway_def socket_of_def)
  from run [OF before this] have "paused True {} i (g0, w0)" using recorded by (simp add: paused_def)
  from run [OF between this] have p1: "paused True {} i (g1, w1)" .
  have "paused True {c} i (g2, w1)"
    using paused
  proof
    assume "g2 = g1 \<and> sd_pending d1"
    then show ?thesis using p1 socket by (auto simp: paused_def)
  next
    assume "g2 = connect_join E s c (Some (u, payload)) w1 g1 \<and> claim_text payload ''sessionId'' = Some i"
    then show ?thesis using join_waits [OF p1 i, of E s c u payload] socket by simp
  qed
  from run [OF after(1) this] show ?thesis
    by (intro waiting_refused [of g c i, OF _ after(2)]) (simp_all add: paused_def waiting_ack_def)
qed

text \<open>
  Before the connection resumes there is a window: the socket is signed in and its controls are there, but
  the check is not, so that a bet is judged as if none were recorded; once it has resumed, it is.
\<close>

theorem handshake_window:
  assumes "held w i" "i \<noteq> []" "enforced_token (ce_prim E) i payload" "claim_text payload ''sessionId'' = Some i"
    and "accepted_claims E token w = Some (u, payload)"
  shows "\<exists>d. socket_of (connect_open E c (accepted_claims E token w) g) c = Some d \<and> sd_userId d = Some u \<and>
    rg_precheck now (socket_args d u pn amount auto) \<noteq> Some ''reality_check_pending'' \<and>
    rg_precheck now (socket_args (restore_check E payload w d) u pn amount auto) = Some ''reality_check_pending''"
proof -
  let ?d = "claims_socket E payload u"
  have d: "sd_userId ?d = Some u" "\<not> sd_pending ?d"
    by (simp_all add: claims_socket_def blank_socket_def Let_def split: option.split)
  have "demands ?d" by (rule claims_demand [OF assms(3,4)])
  then have r: "sd_pending (restore_check E payload w ?d)" "demands (restore_check E payload w ?d)"
    using restore_pending [OF assms(1,2) _ assms(4)] by simp_all
  obtain rg t where "\<not> sd_demo (restore_check E payload w ?d)" "sd_rg (restore_check E payload w ?d) = Some rg"
      "sd_startedAt (restore_check E payload w ?d) = Some t" "t \<noteq> 0" "rg_enforceRealityCheck rg"
    using r(2) by (auto simp: demands_def enforcing_def split: option.splits)
  then have "rg_precheck now (socket_args (restore_check E payload w ?d) u pn amount auto) = Some ''reality_check_pending''"
    using r(1) by (simp add: rg_precheck_def active_rg_def rg_pending_def socket_args_def)
  moreover have "rg_precheck now (socket_args ?d u pn amount auto) \<noteq> Some ''reality_check_pending''"
    using d(2) by (simp add: rg_precheck_def active_rg_def rg_pending_def socket_args_def split: option.split)
  moreover have "socket_of (connect_open E c (accepted_claims E token w) g) c = Some ?d"
    by (simp add: assms(5) connect_open_def)
  ultimately show ?thesis using d(1) by blast
qed

text \<open>How a check is recorded: it fires on a socket of a live session, and the write succeeds.\<close>

lemma check_recorded:
  assumes "rd_emitRealityCheck k" "rd_nextPending k" "truthy (sd_sessionId d) = Some i" "\<not> re_persistFails E c"
    "isLive i w" "distinct (map s_id (db_sessions w))"
  shows "held (persist_check E now c d k w) i"
proof -
  obtain s where s: "s \<in> set (db_sessions w)" "s_id s = i" "is_live s"
    using assms(5) by (auto simp: isLive_def count_where_def filter_empty_conv)
  have one: "t = s" if "t \<in> set (db_sessions w)" "s_id t = i" for t
    using assms(6) s(1,2) that by (metis distinct_map inj_on_eq_iff)
  define f where "f = (\<lambda>t. set_due (rd_nextDueAt k) (t\<lparr>s_rcPendingAt := Some now\<rparr>))"
  have f: "s_id (f t) = s_id t" "s_rcPendingAt (f t) = Some now" for t by (simp_all add: f_def)
  have e: "db_sessions (persist_check E now c d k w) = update_where (\<lambda>t. s_id t = i \<and> is_live t) f (db_sessions w)"
    using assms(2-4) by (simp add: persist_check_def markRealityCheckPending_def session_update_def f_def)
  have "f s \<in> set (db_sessions (persist_check E now c d k w))"
    unfolding e set_update_where using s by (intro image_eqI [of _ _ s]) simp_all
  moreover have "s_rcPendingAt u \<noteq> None" if u: "u \<in> set (db_sessions (persist_check E now c d k w))" "s_id u = i" for u
  proof -
    obtain t where t: "t \<in> set (db_sessions w)" "u = (if s_id t = i \<and> is_live t then f t else t)"
      using u(1) unfolding e set_update_where by blast
    then have "t = s" using one u(2) f(1) by (metis (full_types))
    then show ?thesis using t(2) s f(2) by simp
  qed
  ultimately show ?thesis using f(1) s(2) unfolding held_def by blast
qed

end
