(* ===== verification/VR_GatewaySweep.thy ===== *)
theory VR_GatewaySweep
  imports VR_GatewayPause
begin

text \<open>The reservation sweep of the gateway against a bet that is still being placed.\<close>

lemma cas_other: "b \<in> set (db_bets w) \<Longrightarrow> b_id b \<noteq> i \<Longrightarrow> bet_cas w i s f = (n, w') \<Longrightarrow> b \<in> set (db_bets w')"
  by (auto simp: bet_cas_def Let_def table_simps image_iff)

lemma cas_keeps: "bet_cas w i s f = (n, w') \<Longrightarrow> \<forall>b \<in> set (db_bets w). b_id b \<noteq> i \<longrightarrow> b \<in> set (db_bets w')"
  using cas_other by blast

lemma set_other: "b \<in> set (db_bets w) \<Longrightarrow> b_id b \<noteq> i \<Longrightarrow> b \<in> set (db_bets (bet_set w i f))"
  by (auto simp: bet_set_def table_simps image_iff)

lemma delete_other: "b \<in> set (db_bets w) \<Longrightarrow> b_id b \<noteq> i \<Longrightarrow> b \<in> set (db_bets (bet_delete w i))"
  by (auto simp: bet_delete_def delete_where_def)

lemma loot_bets: "db_bets (add_loot u n m w) = db_bets w"
  by (simp add: add_loot_def)

definition race_keeps_bet :: "bet \<Rightarrow> ('o world \<Rightarrow> 'o world) \<Rightarrow> bool" where
  "race_keeps_bet b f \<longleftrightarrow> (\<forall>w. b \<in> set (db_bets w) \<longrightarrow> b \<in> set (db_bets (f w)))"

lemma fold_keeps:
  assumes "\<And>x n v. x \<in> set xs \<Longrightarrow> b \<in> set (db_bets v) \<Longrightarrow> b \<in> set (db_bets (snd (f x (n, v))))" "b \<in> set (db_bets w)"
  shows "b \<in> set (db_bets (snd (fold f xs (n, w))))"
  using assms
proof (induction xs arbitrary: n w)
  case (Cons x xs)
  obtain m v where e: "f x (n, w) = (m, v)" by fastforce
  have "b \<in> set (db_bets (snd (fold f xs (m, v))))"
    using Cons.IH [of v m] Cons.prems(1) [of x w n] Cons.prems e by simp
  then show ?case using e by simp
qed simp

text \<open>\<open>b\<close> is the only row with its id, and it is there.\<close>

definition placed :: "bet \<Rightarrow> 'o world \<Rightarrow> bool" where
  "placed b w \<longleftrightarrow> bets_distinct w \<and> b \<in> set (db_bets w)"

lemma placed_other: "placed b w \<Longrightarrow> c \<in> set (db_bets w) \<Longrightarrow> c \<noteq> b \<Longrightarrow> b_id b \<noteq> b_id c"
  unfolding placed_def using bets_distinct_eq by metis

context wallet_frame
begin

lemma exec_bets:
  "wp_debit provider i a t k r w = (x, w') \<Longrightarrow> db_bets w' = db_bets w"
  "wp_credit provider i a t k r w = (x, w') \<Longrightarrow> db_bets w' = db_bets w"
  "wp_rollback provider i k r w = (y, w') \<Longrightarrow> db_bets w' = db_bets w"
  "wp_reverse provider i ps w = (y, w') \<Longrightarrow> db_bets w' = db_bets w"
  using debit_frame credit_frame rollback_frame reverse_frame by (auto simp: game_same_def)

lemma release_keeps:
  assumes "b \<in> set (db_bets w)" "b_id b \<noteq> b_id c"
  shows "b \<in> set (db_bets (snd (release_slot provider now c (n, w))))"
  using assms by (auto simp: release_slot_def dest!: exec_bets intro!: delete_other set_other
      split: sum.splits prod.splits option.splits)

lemma recover_slot_keeps:
  assumes "b \<in> set (db_bets w)" "b_id b \<noteq> b_id c" "race_keeps_bet b race"
  shows "b \<in> set (db_bets (snd (recover_slot provider race now c (n, w))))"
proof -
  obtain k v where c: "bet_cas (race w) (b_id c) Reserving (\<lambda>x. x\<lparr>b_status := Cancelling\<rparr>) = (k, v)" by fastforce
  then have "b \<in> set (db_bets v)" using cas_other [OF _ assms(2) c] assms(1,3) by (simp add: race_keeps_bet_def)
  then show ?thesis using c release_keeps assms(1,2) by (simp add: recover_slot_def)
qed

lemma heal_keeps:
  "b \<in> set (db_bets w) \<Longrightarrow> b_id b \<noteq> b_id c \<Longrightarrow> b \<in> set (db_bets (snd (heal_active provider now c (n, w))))"
  by (auto simp: heal_active_def dest!: exec_bets cas_keeps split: sum.splits prod.splits)

lemma reversals_bets: "performVoidReversals provider c w = (x, w') \<Longrightarrow> db_bets w' = db_bets w"
  by (auto simp: performVoidReversals_def dest!: exec_bets split: sum.splits prod.splits if_splits)

lemma void_step_keeps:
  "b \<in> set (db_bets w) \<Longrightarrow> b_id b \<noteq> b_id c \<Longrightarrow> b \<in> set (db_bets (snd (void_step provider c (n, w))))"
  by (auto simp: void_step_def void_finish_def dest!: reversals_bets cas_keeps split: sum.splits prod.splits)

lemma reserving_placed:
  assumes "placed b w" "b \<notin> set (stale_slots now ms w)" "race_keeps_bet b race" "race_evolves {} race"
  shows "placed b (snd (recoverReservingBets provider race now ms w))"
proof -
  have "b_id b \<noteq> b_id c" if "c \<in> set (stale_slots now ms w)" for c
  proof -
    have "c \<in> set (db_bets w)" "c \<noteq> b" using that assms(2) by (auto simp: stale_slots_def)
    then show ?thesis by (rule placed_other [OF assms(1)])
  qed
  then have "b \<in> set (db_bets (snd (recoverReservingBets provider race now ms w)))"
    unfolding recoverReservingBets_def
    by (intro fold_keeps recover_slot_keeps) (use assms(1,3) in \<open>auto simp: placed_def\<close>)
  then show ?thesis
    using assms(1) evolves_distinct [OF recover_reserving_evolves [OF _ assms(4)]] by (simp add: placed_def)
qed

lemma stranded_placed:
  assumes "placed b w" "b_status b \<noteq> Active"
  shows "placed b (snd (recoverStrandedActiveBets provider now ms w))"
proof -
  have "b_id b \<noteq> b_id c" if "c \<in> set (stranded_active (now - ms) w)" for c
  proof -
    have "c \<in> set (db_bets w)" "c \<noteq> b" using that assms(2) by (auto simp: stranded_active_def dest!: in_set_takeD)
    then show ?thesis by (rule placed_other [OF assms(1)])
  qed
  then have "b \<in> set (db_bets (snd (recoverStrandedActiveBets provider now ms w)))"
    unfolding recoverStrandedActiveBets_def
    by (intro fold_keeps heal_keeps) (use assms(1) in \<open>auto simp: placed_def\<close>)
  moreover have "bets_distinct (snd (recoverStrandedActiveBets provider now ms w))"
    unfolding recoverStrandedActiveBets_def
    by (rule evolves_distinct [OF fold_evolves [OF heal_evolves]]) (use assms(1) in \<open>auto simp: placed_def\<close>)
  ultimately show ?thesis by (simp add: placed_def)
qed

lemma voiding_placed:
  assumes "placed b w" "b_status b \<noteq> Voiding"
  shows "placed b (snd (reconcileVoidingBets provider n w))"
proof -
  have "b_id b \<noteq> b_id c" if "c \<in> set (take n (filter (\<lambda>b. b_status b = Voiding) (db_bets w)))" for c
  proof -
    have "c \<in> set (db_bets w)" "c \<noteq> b" using that assms(2) by (auto dest!: in_set_takeD)
    then show ?thesis by (rule placed_other [OF assms(1)])
  qed
  then have "b \<in> set (db_bets (snd (reconcileVoidingBets provider n w)))"
    unfolding reconcileVoidingBets_def
    by (intro fold_keeps void_step_keeps) (use assms(1) in \<open>auto simp: placed_def\<close>)
  moreover have "bets_distinct (snd (reconcileVoidingBets provider n w))"
    unfolding reconcileVoidingBets_def
    by (rule evolves_distinct [OF fold_evolves [OF void_step_evolves]]) (use assms(1) in \<open>auto simp: placed_def\<close>)
  ultimately show ?thesis by (simp add: placed_def)
qed

end

lemma drain_bets: "db_bets (snd (drainPending sf now api n w)) = db_bets w"
proof -
  have r: "db_bets (snd (drain_row sf now a r (k, v))) = db_bets v" for a :: "'a operator_api" and r k and v :: "'a world"
    by (auto simp: drain_row_def drain_claim_def drain_emit_def acquireLease_def rb_confirm_def rb_update_def Let_def split: bool.splits sum.splits prod.splits)
  have "db_bets (snd (fold (drain_row sf now a) rs (k, v))) = db_bets v" for a :: "'a operator_api" and rs k and v :: "'a world"
  proof (induction rs arbitrary: k v)
    case (Cons x rs)
    then show ?case using r [of a x k v] by (cases "drain_row sf now a x (k, v)") simp
  qed simp
  then show ?thesis by (cases api) (simp_all add: drainPending_def)
qed

text \<open>C33. A reservation younger than thirty seconds is out of reach of the periodic sweep, whatever
  RESERVING_STALE_SEC is set to, garbage included: the row of a bet that is being placed is still there, and
  the same, after a pass of the sweep in either wallet mode.\<close>

theorem sweep_spares_recent:
  assumes "walletProvider ty api sf t = Inr p" and "race_keeps_bet b (we_race E)" and "race_evolves {} (we_race E)"
    and "bets_distinct w" and "b \<in> set (db_bets w)" and "b_status b = Reserving" and "now - 30000 \<le> b_createdAt b"
  shows "b \<in> set (db_bets (runReservingSweep leader busy (E\<lparr>we_wallet := p\<rparr>) now (armed_stale_ms raw) w))"
proof -
  have frame: "wallet_frame p" by (rule provider_frame [OF assms(1)])
  have "30000 \<le> armed_stale_ms raw"
    using reserving_gate [of raw] unfolding armed_stale_ms_def by (simp add: le_ceiling_iff)
  then have s: "b \<notin> set (stale_slots now (armed_stale_ms raw) v)" for v :: "'a world"
    using assms(7) by (simp add: stale_slots_def)
  have pl: "placed b w" using assms(4,5) by (simp add: placed_def)
  have d: "placed b (snd (drainPending sf' now api' n v))" if "placed b v" for sf' api' n and v :: "'a world"
    using that drain_bets [of sf' now api' n v] by (simp add: placed_def bets_distinct_def)
  have fold: "placed b (fold (\<lambda>f. f) fs v)" if "\<And>f v. f \<in> set fs \<Longrightarrow> placed b v \<Longrightarrow> placed b (f v)" "placed b v"
    for fs and v :: "'a world"
    using that by (induction fs arbitrary: v) auto
  have "placed b (runReservingSweep leader busy (E\<lparr>we_wallet := p\<rparr>) now (armed_stale_ms raw) w)"
    unfolding runReservingSweep_def
    using wallet_frame.reserving_placed [OF frame _ s assms(2,3)] wallet_frame.stranded_placed [OF frame, of b]
      wallet_frame.voiding_placed [OF frame, of b] d assms(6) pl
    by (auto intro!: fold dest!: in_set_takeD)
  then show ?thesis by (simp add: placed_def)
qed

end
