(* ===== verification/VR_GatewayDemo.thy ===== *)
theory VR_GatewayDemo
  imports VR_GatewayCut VR_GatewaySweep
begin

text \<open>Concrete runs of the gateway, for the witnesses: Bob's live session of \<open>VR_SessionDemo\<close>.\<close>

definition bob_rg :: effective_rg where
  "bob_rg = \<lparr>rg_realityCheckIntervalSec = Some 60, rg_maxSessionSec = None, rg_enforceRealityCheck = True,
     rg_maxSessionLoss = None, rg_maxSessionWager = None\<rparr>"

definition bob_token :: json where
  "bob_token = JObj [(''sub'', JStr ''u3''), (''walletId'', JStr ''w3''), (''sessionId'', JStr ''s3''),
     (''kind'', JStr ''operator''), (''sessionStartedAt'', JNum (of_int 1000)), (''rg'', serializeRg bob_rg)]"

definition bob_conn :: conn_env where
  "bob_conn = \<lparr>ce_verify = (\<lambda>t. if t = ''bob'' then Some bob_token else None), ce_prim = (\<lambda>_. []),
     ce_liveFails = False, ce_reloadFails = False\<rparr>"

lemma bob_claims:
  "jget bob_token ''sub'' = Some (JStr ''u3'')" "jget bob_token ''walletId'' = Some (JStr ''w3'')"
  "jget bob_token ''sessionId'' = Some (JStr ''s3'')" "jget bob_token ''kind'' = Some (JStr ''operator'')"
  "jget bob_token ''sessionStartedAt'' = Some (JNum (of_int 1000))" "jget bob_token ''rg'' = Some (serializeRg bob_rg)"
  "jget bob_token ''demo'' = None"
  by (simp_all add: bob_token_def)

lemma bob_rg_back: "deserializeRg num prim (Some (serializeRg bob_rg)) = Some bob_rg"
  by (rule rg_back) (simp add: bob_rg_def rg_ok_def active_control_def MAX_REALITY_CHECK_INTERVAL_SEC_def)

lemma claimed_session: "sd_sessionId (claimed_socket E payload u w) = claim_text payload ''sessionId''"
  by (simp add: claimed_socket_eq blank_socket_def Let_def split: option.split prod.split)

lemma bob_authenticates:
  "isLive ''s3'' w \<Longrightarrow> authenticate bob_conn (Some ''bob'') w = Some (''u3'', claimed_socket bob_conn bob_token ''u3'' w)"
  by (simp add: authenticate_eq bob_conn_def truthy_def claim_text_def bob_claims)

definition bob_online :: "unit world \<Rightarrow> gateway" where
  "bob_online w = handleConnection bob_conn None ''c1'' (Some ''bob'') w empty_gateway"

lemma bob_socket:
  assumes "isLive ''s3'' w"
  shows "\<exists>d. socket_of (bob_online w) ''c1'' = Some d \<and> sd_sessionId d = Some ''s3''"
proof -
  have e: "gw_inv empty_gateway" "socket_of empty_gateway ''c1'' = None"
    by (simp_all add: gw_inv_empty) (simp add: socket_of_def empty_gateway_def)
  have "socket_of (bob_online w) ''c1'' = Some (claimed_socket bob_conn bob_token ''u3'' w)"
    using sign_in_sockets [OF gw_inv_blank [OF e], of "''c1''"] bob_authenticates [OF assms]
    by (simp add: bob_online_def handleConnection_sign send_state_def)
  then show ?thesis by (simp add: claimed_session claim_text_def bob_claims)
qed

lemma bob_connects: "gw_run p ok (empty_gateway, w) (bob_online w, w)"
  if "ok (Connects bob_conn None ''c1'' (Some ''bob'')) (empty_gateway, w)"
  using gw_run.event [where p = p and ok = ok, OF gw_run.begun [of p ok "(empty_gateway, w)"], OF that]
  by (simp add: bob_online_def)

lemma fresh_c1: "fresh_event (Connects bob_conn None ''c1'' (Some ''bob'')) empty_gateway"
  by (simp add: socket_of_def empty_gateway_def)

section \<open>A paused session\<close>

definition paused_db :: "unit world" where
  "paused_db = markRealityCheckPending 61000 ''s3'' (Some 121000) acc_db"

lemma paused_held: "held paused_db ''s3''" "isLive ''s3'' paused_db"
  by code_simp+

definition bob_opening :: gateway where
  "bob_opening = connect_open bob_conn ''c1'' (accepted_claims bob_conn (Some ''bob'') paused_db) empty_gateway"

definition bob_joined :: gateway where
  "bob_joined = connect_join bob_conn None ''c1'' (Some (''u3'', bob_token)) paused_db bob_opening"

lemma bob_enforced: "enforced_token (ce_prim bob_conn) ''s3'' bob_token"
proof -
  have "started_claim prim bob_token = Some 1000" for prim
    unfolding started_claim_def bob_claims option.case js_number_of_int by simp
  then show ?thesis
    by (simp add: enforced_token_def enforcing_def bob_claims bob_rg_back check_interval_def) (simp add: bob_rg_def)
qed

lemma bob_accepted: "accepted_claims bob_conn (Some ''bob'') paused_db = Some (''u3'', bob_token)"
  using paused_held(2) by (simp add: accepted_claims_def truthy_def bob_conn_def claim_text_def bob_claims)

lemma bob_opening: "socket_of bob_opening ''c1'' = Some (claims_socket bob_conn bob_token ''u3'')"
  by (simp add: bob_opening_def bob_accepted connect_open_def)

theorem pause_survives_witness:
  "\<forall>M ctx body. case onPlaceBet M ctx ''c1'' body bob_joined paused_db of
     (r, g', w') \<Rightarrow> w' = paused_db \<and> (case r of Bet_ack b \<Rightarrow> \<not> br_ok b | _ \<Rightarrow> True)"
proof (intro allI)
  fix M ctx body
  have p: "walletProvider None (undefined :: unit operator_api) no_faults 0 = Inr ledgerProvider"
    by (simp add: walletProvider_def wallet_factory_def)
  have ok: "pause_ok True {} ''s3'' (Opens bob_conn ''c1'' (Some ''bob'')) (empty_gateway, paused_db)"
    using bob_enforced by (simp add: bob_conn_def)
  have run: "pc_run ledgerProvider (pause_ok True {} ''s3'') (empty_gateway, paused_db) (bob_opening, paused_db)"
    using pc_event [where p = ledgerProvider and ok = "pause_ok True {} ''s3''", OF pc_begun [of _ _ "(empty_gateway, paused_db)"] ok]
    by (simp add: bob_opening_def)
  have sid: "claim_text bob_token ''sessionId'' = Some ''s3''" by (simp add: claim_text_def bob_claims)
  have s: "sd_sessionId (claims_socket bob_conn bob_token ''u3'') = Some ''s3''" using sid by simp
  have joined: "sd_sessionId d = Some ''s3''" if "socket_of bob_joined ''c1'' = Some d" for d
    using join_old [OF that [unfolded bob_joined_def]] bob_opening s by auto
  have "bob_joined = bob_opening \<and> sd_pending (claims_socket bob_conn bob_token ''u3'') \<or>
      bob_joined = connect_join bob_conn None ''c1'' (Some (''u3'', bob_token)) paused_db bob_opening \<and>
      claim_text bob_token ''sessionId'' = Some ''s3''"
    using sid by (simp add: bob_joined_def)
  from pause_survives [OF p _ pc_begun paused_held(1) run bob_opening s this pc_begun joined]
  show "case onPlaceBet M ctx ''c1'' body bob_joined paused_db of
     (r, g', w') \<Rightarrow> w' = paused_db \<and> (case r of Bet_ack b \<Rightarrow> \<not> br_ok b | _ \<Rightarrow> True)" by simp
qed

section \<open>A revoked session\<close>

definition revoked_db :: "unit world" where
  "revoked_db = st_db (snd (revokeForWallet acc_log 5000 ''w3'' acc_site))"

definition calm :: rg_env where
  "calm = \<lparr>re_busy = False, re_liveFails = False, re_accFails = (\<lambda>_. False), re_persistFails = (\<lambda>_. False)\<rparr>"

theorem revoked_is_cut_witness:
  "authenticate bob_conn (Some ''bob'') revoked_db = None \<and>
   (\<forall>M ctx body. if me_liveFails M then True else snd (snd (onPlaceBet M ctx ''c1'' body (bob_online acc_db) revoked_db)) = revoked_db) \<and>
   map_option sd_sessionId (socket_of (fst (runRgSweep calm 6000 (bob_online acc_db) revoked_db)) ''c1'') \<noteq> Some (Some ''s3'')"
proof -
  have "isLive ''s3'' acc_db" by code_simp
  then obtain d where d: "socket_of (bob_online acc_db) ''c1'' = Some d" "sd_sessionId d = Some ''s3''" using bob_socket by blast
  have "gw_run ledgerProvider (\<lambda>e st. fresh_event e (fst st)) (empty_gateway, acc_db) (bob_online acc_db, acc_db)"
    by (rule bob_connects) (simp add: socket_of_def empty_gateway_def)
  from gw_run.event [OF this, of "Elsewhere (\<lambda>_. revoked_db)"]
  have run: "gw_run ledgerProvider (\<lambda>e st. fresh_event e (fst st)) (empty_gateway, acc_db) (bob_online acc_db, revoked_db)"
    by simp
  have dead: "\<not> isLive ''s3'' revoked_db"
    by (simp add: revoked_db_def st_db_revoke acc_site_def isLive_def session_update_def acc_db_def acc_session_def
        is_live_def count_where_def)
  note cut = revoked_is_cut [OF run dead, of "''c1''" d _ _ _ bob_conn "''bob''" bob_token calm 6000 "''c1''"]
  have "authenticate bob_conn (Some ''bob'') revoked_db = None"
    using cut by (simp add: bob_claims claim_text_def) (simp add: bob_conn_def)
  moreover have "if me_liveFails M then True else snd (snd (onPlaceBet M ctx ''c1'' body (bob_online acc_db) revoked_db)) = revoked_db" for M ctx body
    using cut [of M ctx body] d by simp
  moreover have "map_option sd_sessionId (socket_of (fst (runRgSweep calm 6000 (bob_online acc_db) revoked_db)) ''c1'') \<noteq> Some (Some ''s3'')"
  proof (cases "socket_of (fst (runRgSweep calm 6000 (bob_online acc_db) revoked_db)) ''c1''")
    case (Some e)
    then show ?thesis using cut [where d' = e] by (simp add: calm_def)
  qed simp
  ultimately show ?thesis by blast
qed

section \<open>One socket\<close>

theorem one_socket_per_user_witness:
  "user_socket (handleConnection bob_conn None ''c2'' (Some ''bob'') acc_db (bob_online acc_db)) ''u3'' = Some ''c2''"
proof -
  let ?g = "handleConnection bob_conn None ''c2'' (Some ''bob'') acc_db (bob_online acc_db)"
  have live: "isLive ''s3'' acc_db" by code_simp
  have e: "gw_inv empty_gateway" "socket_of empty_gateway x = None" for x
    by (simp_all add: gw_inv_empty) (simp add: socket_of_def empty_gateway_def)
  have inv: "gw_inv (bob_online acc_db)" unfolding bob_online_def by (rule gw_inv_connect [OF e])
  have n: "socket_of (bob_online acc_db) ''c2'' = None"
    using sign_in_old [of "''c1''" "''u3''" _ "set_socket ''c1'' blank_socket empty_gateway" "''c2''"] bob_authenticates [OF live] e(2)
    by (cases "socket_of (bob_online acc_db) ''c2''") (auto simp: bob_online_def handleConnection_sign send_state_def)
  have s: "socket_of ?g ''c2'' = Some (claimed_socket bob_conn bob_token ''u3'' acc_db)"
    using sign_in_sockets [OF gw_inv_blank [OF inv n], of "''c2''"] bob_authenticates [OF live]
    by (simp add: handleConnection_sign send_state_def)
  have "gw_run ledgerProvider (\<lambda>e st. fresh_event e (fst st)) (empty_gateway, acc_db) (bob_online acc_db, acc_db)"
    by (rule bob_connects) (simp add: socket_of_def empty_gateway_def)
  from gw_run.event [OF this, of "Connects bob_conn None ''c2'' (Some ''bob'')"] n
  have run: "gw_run ledgerProvider (\<lambda>e st. fresh_event e (fst st)) (empty_gateway, acc_db) (?g, acc_db)" by simp
  from one_socket_per_user [OF run s s refl] show ?thesis by simp
qed

section \<open>An operator's limits\<close>

definition limited_operator :: operator_row where
  "limited_operator = keyed_operator\<lparr>op_betLimits := Some demo_limits, op_rgConfig := Some demo_rg\<rparr>"

definition bob_result :: launch_result where
  "bob_result = open_result [limited_operator] (acc_launch uuid_a ''bob'') ''EUR'' (acc_wallet ''w3'' ''u3'') bob_session"

lemma bob_limited:
  "launch_verify (acc_jwt uuid_a ''bob'') [limited_operator] ''ticket'' acc_db = Inr (acc_launch uuid_a ''bob'')"
  "find_operator [limited_operator] uuid_a = Some limited_operator"
  by code_simp+

lemma bob_opened:
  "openFromToken (acc_jwt uuid_a ''bob'') acc_open [limited_operator] ''ticket'' acc_db = (Inr bob_result, bob_launched)"
  using bob_limited bob_wallet
  by (simp add: openFromToken_def Let_def acc_launch_def text_or_empty_def open_wallet_def open_session_def
      acc_open_def bob_launched_def bob_session_def bob_result_def)

definition played_conn :: conn_env where
  "played_conn = \<lparr>ce_verify = (\<lambda>t. if t = ''play'' then Some (lr_claims bob_result) else None), ce_prim = (\<lambda>_. []),
     ce_liveFails = False, ce_reloadFails = False\<rparr>"

theorem controls_reach_bet_witness:
  "\<exists>u d. socket_of (handleConnection played_conn None ''c1'' (Some ''play'') bob_launched empty_gateway) ''c1'' = Some d \<and>
     pa_limits (socket_args d u PanelA 100 None) = effectiveLimitsFor (Some demo_limits) ''EUR'' \<and>
     effectiveLimitsFor (Some demo_limits) ''EUR'' \<noteq> None \<and> sd_rg d = effectiveRgFor (Some demo_rg) ''EUR''"
proof -
  have c: "ce_verify played_conn ''play'' = Some (lr_claims bob_result)" "\<not> ce_liveFails played_conn"
    by (simp_all add: played_conn_def)
  have r: "lr_sessionId bob_result = ''s9''" "lr_walletId bob_result = ''w3''" "lr_currency bob_result = ''EUR''"
    by (simp_all add: bob_result_def open_result_def Let_def bob_session_def new_session_def acc_open_def acc_wallet_def)
  have live: "isLive (lr_sessionId bob_result) bob_launched" unfolding r(1) by code_simp
  have v: "vl_operatorId (acc_launch uuid_a ''bob'') = uuid_a" "\<not> vl_demo (acc_launch uuid_a ''bob'')"
    by (simp_all add: acc_launch_def)
  have lim: "effectiveLimitsFor (Some demo_limits) ''EUR'' \<noteq> None" by code_simp
  have e: "gw_inv empty_gateway" "socket_of empty_gateway ''c1'' = None"
    by (simp_all add: gw_inv_empty) (simp add: socket_of_def empty_gateway_def)
  have f: "find_operator [limited_operator] (vl_operatorId (acc_launch uuid_a ''bob'')) = Some limited_operator"
    using bob_limited(2) v(1) by simp
  have o: "op_betLimits limited_operator = Some demo_limits" "op_rgConfig limited_operator = Some demo_rg"
    by (simp_all add: limited_operator_def)
  from controls_reach_bet [OF bob_opened bob_limited(1) f c(1) _ refl live c(2) _ e, where pn = PanelA and a = 100 and auto = None]
  obtain u d where "socket_of (handleConnection played_conn None ''c1'' (Some ''play'') bob_launched empty_gateway) ''c1'' = Some d"
    "opened_socket limited_operator (acc_launch uuid_a ''bob'') bob_result (oe_now acc_open) d"
    unfolding r(2) by (metis list.distinct(1))
  then show ?thesis using lim v(2) r(3) o by (auto simp: opened_socket_def socket_args_def)
qed

section \<open>A bet being placed\<close>

definition placing_bet :: "uid \<Rightarrow> int \<Rightarrow> bet" where
  "placing_bet i t =
     \<lparr>b_id = i, b_roundId = ''r1'', b_userId = ''u3'', b_walletId = ''w3'', b_panel = PanelA, b_amount = 100,
      b_autoCashout = None, b_status = Reserving, b_cashoutMult = None, b_payout = 0, b_demo = False, b_operatorId = None,
      b_currency = ''EUR'', b_maxWinPerBet = None, b_debitTxId = None, b_payoutTxId = None, b_createdAt = t,
      b_settledAt = None\<rparr>"

definition placing_db :: "unit world" where
  "placing_db = acc_db\<lparr>db_bets := [placing_bet ''b1'' 90000, placing_bet ''b2'' 1000]\<rparr>"

definition full_sweep :: "unit sweep_env" where
  "full_sweep = \<lparr>we_wallet = ledgerProvider, we_operator = None, we_faults = no_faults, we_race = id, we_activeMs = 60000,
     we_voidLimit = 100, we_drainLimit = 100, we_stages = 4\<rparr>"

theorem sweep_spares_recent_witness:
  "placing_bet ''b1'' 90000 \<in>
     set (db_bets (runReservingSweep True False (full_sweep\<lparr>we_wallet := ledgerProvider\<rparr>) 100000 (armed_stale_ms (Some ''junk'')) placing_db))"
proof -
  have p: "walletProvider None (undefined :: unit operator_api) no_faults 0 = Inr ledgerProvider"
    by (simp add: walletProvider_def wallet_factory_def)
  let ?b = "placing_bet ''b1'' 90000"
  have "race_keeps_bet ?b (we_race full_sweep)" "race_evolves {} (we_race full_sweep)" "bets_distinct placing_db" "?b \<in> set (db_bets placing_db)"
    by (simp_all add: race_keeps_bet_def full_sweep_def bets_distinct_def placing_db_def placing_bet_def)
  from sweep_spares_recent [OF p this] show ?thesis by (simp add: placing_bet_def)
qed

end
