(* ===== verification/VR_Queries.thy ===== *)
theory VR_Queries
  imports VR_Sessions VR_Reporting
begin

text \<open>
  The query strings of the operator's read routes (\<open>src/operator/reporting-query.ts\<close>), the audit listing
  (\<open>reporting.service.ts\<close>, \<open>auditEvents\<close>) and the routes of \<open>reporting.controller.ts\<close> and
  \<open>audit-events.controller.ts\<close> behind the operator guard.

  A raw query is what Express parses, a JSON value; a parameter given twice or as an object is not a text
  and reads as missing. \<open>Date.parse\<close> is the parameter \<open>D\<close>, \<open>None\<close> for an invalid date: the code hands it
  whatever text it got. A row of the audit table is an event with the id and the time the database adds.
\<close>

section \<open>Parameters\<close>

definition asString :: "json \<Rightarrow> string \<Rightarrow> string option" where
  "asString q k = (case jget q k of Some (JStr s) \<Rightarrow> Some s | _ \<Rightarrow> None)"

definition trimmed :: "json \<Rightarrow> string \<Rightarrow> string option" where
  "trimmed q k = truthy (map_option js_trim (asString q k))"

definition DEFAULT_LIMIT :: nat where "DEFAULT_LIMIT = 50"

definition MAX_LIMIT :: nat where "MAX_LIMIT = 200"

definition MAX_DAILY_RANGE_DAYS :: int where "MAX_DAILY_RANGE_DAYS = 366"

definition date_only :: "string \<Rightarrow> bool" where
  "date_only s \<longleftrightarrow> length s = 10 \<and> s ! 4 = CHR ''-'' \<and> s ! 7 = CHR ''-'' \<and>
     list_all (\<lambda>i. is_digit (s ! i)) [0, 1, 2, 3, 5, 6, 8, 9]"

datatype which = From | To

definition iso_of :: "string \<Rightarrow> which \<Rightarrow> string" where
  "iso_of s which =
     (if date_only s then s @ ''T'' @ (if which = To then ''23:59:59.999'' else ''00:00:00.000'') @ ''Z'' else s)"

definition parseInstant :: "(string \<Rightarrow> int option) \<Rightarrow> string option \<Rightarrow> which \<Rightarrow> http_error + int" where
  "parseInstant D raw which =
     (let name = (if which = From then ''from'' else ''to'')
      in case truthy (map_option js_trim raw) of
           None \<Rightarrow> Inl (Bad_request (''missing '' @ name @ '' date''))
         | Some s \<Rightarrow> (case D (iso_of s which) of
               None \<Rightarrow> Inl (Bad_request (''invalid '' @ name @ '' date'')) | Some t \<Rightarrow> Inr t))"

definition CURRENCY_CODE_RE :: "string \<Rightarrow> bool" where
  "CURRENCY_CODE_RE c \<longleftrightarrow> 1 \<le> length c \<and> length c \<le> 16 \<and> list_all (\<lambda>x. is_alnum x \<and> upper_char x = x) c"

definition parseCurrency :: "string option \<Rightarrow> http_error + string option" where
  "parseCurrency raw =
     (case raw of
        None \<Rightarrow> Inr None
      | Some s \<Rightarrow> let c = to_upper (js_trim s)
                  in if CURRENCY_CODE_RE c then Inr (Some c) else Inl (Bad_request ''invalid currency''))"

definition parseBool :: "string option \<Rightarrow> bool \<Rightarrow> http_error + bool" where
  "parseBool raw dflt =
     (case raw of
        None \<Rightarrow> Inr dflt
      | Some s \<Rightarrow> if s = ''true'' then Inr True else if s = ''false'' then Inr False
                  else Inl (Bad_request ''includeDemo must be true|false''))"

definition parse_limit :: "string option \<Rightarrow> http_error + nat" where
  "parse_limit raw =
     (case raw of
        None \<Rightarrow> Inr DEFAULT_LIMIT
      | Some s \<Rightarrow> (case js_Number s of
            Fin n \<Rightarrow> if \<not> isInteger n \<or> n < 1 then Inl (Bad_request ''invalid limit'') else Inr (min (nat \<lfloor>n\<rfloor>) MAX_LIMIT)
          | _ \<Rightarrow> Inl (Bad_request ''invalid limit'')))"

section \<open>The queries\<close>

text \<open>\<open>base\<close> throws in the order the code evaluates its parts.\<close>

definition base_query :: "(string \<Rightarrow> int option) \<Rightarrow> json \<Rightarrow> http_error + report_query" where
  "base_query D q =
     (case parseInstant D (asString q ''from'') From of
        Inl e \<Rightarrow> Inl e
      | Inr f \<Rightarrow> (case parseInstant D (asString q ''to'') To of
          Inl e \<Rightarrow> Inl e
        | Inr t \<Rightarrow>
            if f > t then Inl (Bad_request ''from must be <= to'')
            else (case parseCurrency (asString q ''currency'') of
              Inl e \<Rightarrow> Inl e
            | Inr c \<Rightarrow> (case parseBool (asString q ''includeDemo'') False of
                Inl e \<Rightarrow> Inl e
              | Inr b \<Rightarrow> Inr \<lparr>q_from = f, q_to = t, q_currency = c, q_includeDemo = b\<rparr>))))"

definition parseReportQuery :: "(string \<Rightarrow> int option) \<Rightarrow> json \<Rightarrow> http_error + report_query" where
  "parseReportQuery D query = base_query D query"

definition parseDailyQuery :: "(string \<Rightarrow> int option) \<Rightarrow> json \<Rightarrow> http_error + report_query" where
  "parseDailyQuery D query =
     (case base_query D query of
        Inl e \<Rightarrow> Inl e
      | Inr q \<Rightarrow> if q_to q - q_from q > MAX_DAILY_RANGE_DAYS * 86400000
                 then Inl (Bad_request ''daily range too large (max 366 days)'') else Inr q)"

definition parseBetsQuery :: "(string \<Rightarrow> int option) \<Rightarrow> json \<Rightarrow> http_error + bets_query" where
  "parseBetsQuery D query =
     (case base_query D query of
        Inl e \<Rightarrow> Inl e
      | Inr b \<Rightarrow>
          let cursor = trimmed query ''cursor''
          in if (case cursor of None \<Rightarrow> False | Some c \<Rightarrow> \<not> is_uuid c) then Inl (Bad_request ''invalid cursor'')
             else (case parse_limit (asString query ''limit'') of
                     Inl e \<Rightarrow> Inl e
                   | Inr n \<Rightarrow> Inr \<lparr>q_from = q_from b, q_to = q_to b, q_currency = q_currency b,
                                   q_includeDemo = q_includeDemo b, q_cursor = cursor, q_limit = n\<rparr>))"

record audit_query =
  aq_action :: "string option"
  aq_from :: "int option"
  aq_to :: "int option"
  aq_limit :: nat

definition ACTION_RE :: "string \<Rightarrow> bool" where
  "ACTION_RE s \<longleftrightarrow> 1 \<le> length s \<and> length s \<le> 64 \<and>
     list_all (\<lambda>x. is_digit x \<or> is_letter x \<and> lower_char x = x \<or> x = CHR ''_'' \<or> x = CHR ''.'') s"

definition optional_instant ::
  "(string \<Rightarrow> int option) \<Rightarrow> string option \<Rightarrow> which \<Rightarrow> http_error + int option" where
  "optional_instant D v which =
     (case v of None \<Rightarrow> Inr None | Some s \<Rightarrow> map_sum id Some (parseInstant D (Some s) which))"

definition parseAuditQuery :: "(string \<Rightarrow> int option) \<Rightarrow> json \<Rightarrow> http_error + audit_query" where
  "parseAuditQuery D query =
     (let action = trimmed query ''action''
      in if (case action of None \<Rightarrow> False | Some a \<Rightarrow> \<not> ACTION_RE a) then Inl (Bad_request ''invalid action'')
         else (case optional_instant D (trimmed query ''from'') From of
           Inl e \<Rightarrow> Inl e
         | Inr f \<Rightarrow> (case optional_instant D (trimmed query ''to'') To of
             Inl e \<Rightarrow> Inl e
           | Inr t \<Rightarrow>
               if (case (f, t) of (Some x, Some y) \<Rightarrow> x > y | _ \<Rightarrow> False) then Inl (Bad_request ''from must be <= to'')
               else (case parse_limit (asString query ''limit'') of
                   Inl e \<Rightarrow> Inl e
                 | Inr n \<Rightarrow> Inr \<lparr>aq_action = action, aq_from = f, aq_to = t, aq_limit = n\<rparr>))))"

section \<open>The audit listing\<close>

record stored_event = audit_event +
  ae_id :: uid
  ae_createdAt :: int

definition audit_scope :: "uid \<Rightarrow> audit_query \<Rightarrow> stored_event \<Rightarrow> bool" where
  "audit_scope operatorId q e \<longleftrightarrow> ae_operatorId e = Some operatorId \<and>
     (case aq_action q of None \<Rightarrow> True | Some a \<Rightarrow> ae_action e = a) \<and>
     (case aq_from q of None \<Rightarrow> True | Some t \<Rightarrow> t \<le> ae_createdAt e) \<and>
     (case aq_to q of None \<Rightarrow> True | Some t \<Rightarrow> ae_createdAt e \<le> t)"

definition auditEvents :: "uid \<Rightarrow> audit_query \<Rightarrow> stored_event list \<Rightarrow> stored_event list" where
  "auditEvents operatorId q rows =
     take (aq_limit q) (rev (sort_key ae_createdAt (filter (audit_scope operatorId q) rows)))"

section \<open>The routes\<close>

text \<open>Behind the guard, which answers with the operator of the key; the rate limit is \<open>OperatorThrottlerGuard\<close>.\<close>

definition behind_guard :: "bool \<times> (string + uid) \<Rightarrow> (uid \<Rightarrow> http_error + 'r) \<Rightarrow> http_error + 'r" where
  "behind_guard g handler =
     (case snd g of Inl e \<Rightarrow> Inl (Unauthorized e)
      | Inr i \<Rightarrow> (case CurrentOperatorId (Some i) of Inl e \<Rightarrow> Inl (Unauthorized e) | Inr oid \<Rightarrow> handler oid))"

definition summary_route ::
  "(string \<Rightarrow> int option) \<Rightarrow> bool \<times> (string + uid) \<Rightarrow> json \<Rightarrow> 'o world \<Rightarrow> http_error + currency_stat list" where
  "summary_route D g query w = behind_guard g (\<lambda>oid. map_sum id (\<lambda>q. summary oid q w) (parseReportQuery D query))"

definition daily_route ::
  "(string \<Rightarrow> int option) \<Rightarrow> bool \<times> (string + uid) \<Rightarrow> json \<Rightarrow> 'o world \<Rightarrow> http_error + (int \<times> currency_stat) list" where
  "daily_route D g query w = behind_guard g (\<lambda>oid. map_sum id (\<lambda>q. daily oid q w) (parseDailyQuery D query))"

definition bets_route ::
  "(string \<Rightarrow> int option) \<Rightarrow> bool \<times> (string + uid) \<Rightarrow> json \<Rightarrow> 'o world \<Rightarrow> http_error + bets_page" where
  "bets_route D g query w =
     behind_guard g (\<lambda>oid. case parseBetsQuery D query of
        Inl e \<Rightarrow> Inl e | Inr q \<Rightarrow> map_sum Bad_request id (list_bets oid q w))"

definition audit_route ::
  "(string \<Rightarrow> int option) \<Rightarrow> bool \<times> (string + uid) \<Rightarrow> json \<Rightarrow> stored_event list \<Rightarrow> http_error + stored_event list" where
  "audit_route D g query rows =
     behind_guard g (\<lambda>oid. map_sum id (\<lambda>q. auditEvents oid q rows) (parseAuditQuery D query))"

section \<open>What a parsed query guarantees\<close>

lemma parse_limit_bounds:
  assumes "parse_limit raw = Inr n"
  shows "1 \<le> n \<and> n \<le> 200"
proof (cases raw)
  case None
  then show ?thesis using assms by (simp add: parse_limit_def DEFAULT_LIMIT_def)
next
  case (Some s)
  with assms obtain r where f: "js_Number s = Fin r" by (cases "js_Number s") (auto simp: parse_limit_def)
  then have r: "\<not> r < 1" "n = min (nat \<lfloor>r\<rfloor>) MAX_LIMIT" using assms Some by (auto simp: parse_limit_def split: if_splits)
  then have "1 \<le> \<lfloor>r\<rfloor>" by (simp add: le_floor_iff)
  then have "1 \<le> nat \<lfloor>r\<rfloor>" by linarith
  then show ?thesis using r(2) by (simp add: MAX_LIMIT_def del: One_nat_def)
qed

definition base_wellformed :: "(string \<Rightarrow> int option) \<Rightarrow> json \<Rightarrow> 'a report_query_scheme \<Rightarrow> bool" where
  "base_wellformed D q r \<longleftrightarrow>
     parseInstant D (asString q ''from'') From = Inr (q_from r) \<and> parseInstant D (asString q ''to'') To = Inr (q_to r) \<and>
     q_from r \<le> q_to r \<and> pred_option CURRENCY_CODE_RE (q_currency r)"

lemma base_query_wellformed: "base_query D q = Inr r \<Longrightarrow> base_wellformed D q r"
  by (auto simp: base_query_def base_wellformed_def parseCurrency_def Let_def split: sum.splits if_splits option.splits)

lemma parseBetsQuery_parts:
  assumes "parseBetsQuery D q = Inr b"
  obtains r where "base_query D q = Inr r" "q_from b = q_from r" "q_to b = q_to r" "q_currency b = q_currency r"
    "parse_limit (asString q ''limit'') = Inr (q_limit b)" "pred_option is_uuid (q_cursor b)"
  using assms by (auto simp: parseBetsQuery_def Let_def split: sum.splits if_splits option.splits)

lemma optional_instant_None: "optional_instant D v w = Inr x \<Longrightarrow> (x = None) = (v = None)"
  by (cases v; cases "parseInstant D v w") (auto simp: optional_instant_def)

lemma parseAuditQuery_parts:
  assumes "parseAuditQuery D q = Inr a"
  shows "parse_limit (asString q ''limit'') = Inr (aq_limit a)" "pred_option ACTION_RE (aq_action a)"
    "aq_from a = None \<longleftrightarrow> trimmed q ''from'' = None" "aq_to a = None \<longleftrightarrow> trimmed q ''to'' = None"
    "aq_from a = Some f \<Longrightarrow> aq_to a = Some t \<Longrightarrow> f \<le> t"
  using assms by (auto simp: parseAuditQuery_def Let_def dest!: optional_instant_None split: sum.splits if_splits option.splits)

text \<open>C39. Whatever a client sends as a query, what each parser hands to the database layer is well formed, one
  parser at a time: a report, a daily series and a page of bets have both ends of their interval, read from
  the query's own dates, in order, and a currency code in the canonical form; a daily series spans at most
  366 days; a page has one to two hundred rows and its cursor is an id; an audit listing, whose dates may be
  left out, has one to two hundred rows, an action of the vocabulary, exactly the dates that were given, and
  these in order when both are.\<close>

theorem queries_wellformed:
  "(\<forall>r. parseReportQuery D q = Inr r \<longrightarrow> base_wellformed D q r) \<and>
   (\<forall>r. parseDailyQuery D q = Inr r \<longrightarrow> base_wellformed D q r \<and> q_to r - q_from r \<le> 366 * 86400000) \<and>
   (\<forall>r. parseBetsQuery D q = Inr r \<longrightarrow>
      base_wellformed D q r \<and> 1 \<le> q_limit r \<and> q_limit r \<le> 200 \<and> pred_option is_uuid (q_cursor r)) \<and>
   (\<forall>a. parseAuditQuery D q = Inr a \<longrightarrow>
      1 \<le> aq_limit a \<and> aq_limit a \<le> 200 \<and> pred_option ACTION_RE (aq_action a) \<and>
      (aq_from a = None \<longleftrightarrow> trimmed q ''from'' = None) \<and> (aq_to a = None \<longleftrightarrow> trimmed q ''to'' = None) \<and>
      (\<forall>f t. aq_from a = Some f \<longrightarrow> aq_to a = Some t \<longrightarrow> f \<le> t))"
proof (intro conjI allI impI)
  show "base_wellformed D q r" if "parseReportQuery D q = Inr r" for r
    using that base_query_wellformed by (simp add: parseReportQuery_def)
  show "base_wellformed D q r" "q_to r - q_from r \<le> 366 * 86400000" if "parseDailyQuery D q = Inr r" for r
    using that base_query_wellformed by (auto simp: parseDailyQuery_def MAX_DAILY_RANGE_DAYS_def split: sum.splits if_splits)
  show "base_wellformed D q r" "1 \<le> q_limit r" "q_limit r \<le> 200" "pred_option is_uuid (q_cursor r)"
    if bets: "parseBetsQuery D q = Inr r" for r
  proof -
    obtain b where b: "base_query D q = Inr b" "q_from r = q_from b" "q_to r = q_to b" "q_currency r = q_currency b"
      "parse_limit (asString q ''limit'') = Inr (q_limit r)" "pred_option is_uuid (q_cursor r)"
      using parseBetsQuery_parts [OF bets] .
    show "base_wellformed D q r" using base_query_wellformed [OF b(1)] b(2-4) by (simp add: base_wellformed_def)
    show "1 \<le> q_limit r" "q_limit r \<le> 200" "pred_option is_uuid (q_cursor r)"
      using parse_limit_bounds [OF b(5)] b(6) by simp_all
  qed
qed (use parseAuditQuery_parts parse_limit_bounds in blast)+

definition small_dates :: "string \<Rightarrow> int option" where
  "small_dates s = (if s = ''2026-06-01T00:00:00.000Z'' then Some 1780272000000
     else if s = ''2026-06-04T23:59:59.999Z'' then Some 1780617599999 else None)"

definition small_query :: json where
  "small_query = JObj [(''from'', JStr ''2026-06-01''), (''to'', JStr '' 2026-06-04 ''), (''currency'', JStr ''eur''),
     (''limit'', JStr ''1000''), (''action'', JStr ''session.revoke'')]"

lemma small_parts:
  "asString small_query ''from'' = Some ''2026-06-01''" "asString small_query ''to'' = Some '' 2026-06-04 ''"
  "asString small_query ''currency'' = Some ''eur''" "asString small_query ''limit'' = Some ''1000''"
  "asString small_query ''includeDemo'' = None" "asString small_query ''cursor'' = None"
  "asString small_query ''action'' = Some ''session.revoke''"
  "parseInstant small_dates (Some ''2026-06-01'') From = Inr 1780272000000"
  "parseInstant small_dates (Some '' 2026-06-04 '') To = Inr 1780617599999"
  "parseInstant small_dates (Some ''2026-06-04'') To = Inr 1780617599999"
  "js_trim ''2026-06-01'' = ''2026-06-01''" "js_trim '' 2026-06-04 '' = ''2026-06-04''"
  "js_trim ''session.revoke'' = ''session.revoke''" "ACTION_RE ''session.revoke''"
  "parseCurrency (Some ''eur'') = Inr (Some ''EUR'')" "parseBool None False = Inr False"
  by code_simp+

lemma small_limit: "parse_limit (Some ''1000'') = Inr 200"
proof -
  have "js_Number ''1000'' = Fin 1000" by code_simp
  then show ?thesis by (simp add: parse_limit_def isInteger_def MAX_LIMIT_def)
qed

lemma small_parses:
  "parseBetsQuery small_dates small_query =
     Inr \<lparr>q_from = 1780272000000, q_to = 1780617599999, q_currency = Some ''EUR'', q_includeDemo = False, q_cursor = None,
          q_limit = 200\<rparr>"
  "parseDailyQuery small_dates small_query =
     Inr \<lparr>q_from = 1780272000000, q_to = 1780617599999, q_currency = Some ''EUR'', q_includeDemo = False\<rparr>"
  "parseAuditQuery small_dates small_query =
     Inr \<lparr>aq_action = Some ''session.revoke'', aq_from = Some 1780272000000, aq_to = Some 1780617599999, aq_limit = 200\<rparr>"
  "parseReportQuery small_dates small_query =
     Inr \<lparr>q_from = 1780272000000, q_to = 1780617599999, q_currency = Some ''EUR'', q_includeDemo = False\<rparr>"
  by (simp_all add: parseBetsQuery_def parseDailyQuery_def parseAuditQuery_def parseReportQuery_def base_query_def small_parts
      small_limit trimmed_def truthy_def optional_instant_def MAX_DAILY_RANGE_DAYS_def)

text \<open>The empty query: the audit listing takes it, the others do not.\<close>

lemma empty_parses:
  "parseAuditQuery D (JObj []) = Inr \<lparr>aq_action = None, aq_from = None, aq_to = None, aq_limit = 50\<rparr>"
  "parseReportQuery D (JObj []) = Inl (Bad_request ''missing from date'')"
  by (simp_all add: parseAuditQuery_def parseReportQuery_def base_query_def parseInstant_def trimmed_def asString_def
      truthy_def optional_instant_def parse_limit_def DEFAULT_LIMIT_def)

theorem queries_wellformed_witness:
  "(1780617599999 - 1780272000000 :: int) \<le> 366 * 86400000 \<and> CURRENCY_CODE_RE ''EUR'' \<and> ACTION_RE ''session.revoke'' \<and>
   trimmed (JObj []) ''from'' = None"
  using queries_wellformed [of small_dates small_query] queries_wellformed [of small_dates "JObj []"]
  by (simp add: small_parses empty_parses base_wellformed_def)

section \<open>One operator's view\<close>

lemma guard_route: "behind_guard g h = Inr r \<Longrightarrow> \<exists>oid. snd g = Inr oid \<and> h oid = Inr r \<and> CurrentOperatorId (Some oid) = Inr oid"
  by (auto simp: behind_guard_def CurrentOperatorId_def truthy_def split: sum.splits option.splits if_splits)

lemma guard_cases_route: "behind_guard g h = Inr r \<Longrightarrow> \<exists>oid. snd g = Inr oid \<and> h oid = Inr r"
  by (auto simp: behind_guard_def CurrentOperatorId_def truthy_def split: sum.splits option.splits if_splits)

lemma listed_rows: "b \<in> set (from_cursor c (newest_first (scope oid q w))) \<Longrightarrow> b \<in> set (db_bets w) \<and> in_scope oid q b"
  by (auto simp: from_cursor_def newest_first_def scope_def dest!: in_set_dropD set_dropWhileD split: option.splits)

lemma list_bets_rows:
  assumes "list_bets oid q w = Inr p" "r \<in> set (page_bets p)"
  shows "\<exists>b \<in> set (db_bets w). in_scope oid q b \<and> r = to_row w b"
proof -
  define c where "c = (case q_cursor q of None \<Rightarrow> None | Some i \<Rightarrow> if i = [] then None else Some (find_bet w i))"
  define rows where "rows = from_cursor (case c of Some (Some b) \<Rightarrow> Some b | _ \<Rightarrow> None) (newest_first (scope oid q w))"
  obtain n m where "page_bets p = map (to_row w) (take n (take m rows))"
  proof -
    have "page_bets p = map (to_row w) (take (if q_limit q < length (take (Suc (q_limit q)) rows) then q_limit q
        else length (take (Suc (q_limit q)) rows)) (take (Suc (q_limit q)) rows))"
      using assms(1) unfolding list_bets_def c_def [symmetric] Let_def rows_def [symmetric]
      by (auto split: if_splits)
    then show ?thesis by (rule that)
  qed
  then obtain b where "b \<in> set rows" "r = to_row w b" using assms(2) by (auto dest!: in_set_takeD)
  then show ?thesis using listed_rows unfolding rows_def by blast
qed

lemma list_bets_length: "list_bets oid q w = Inr p \<Longrightarrow> length (page_bets p) \<le> q_limit q"
  by (auto simp: list_bets_def Let_def split: if_splits)

text \<open>The rows of one operator.\<close>

definition own_bets :: "uid \<Rightarrow> 'o world \<Rightarrow> 'o world" where
  "own_bets oid w = w\<lparr>db_bets := filter (\<lambda>b. b_operatorId b = Some oid) (db_bets w)\<rparr>"

lemma scope_own: "scope oid q (own_bets oid w) = scope oid q w"
  by (simp add: scope_def own_bets_def in_scope_def conj_commute cong: filter_cong)

lemma totals_own: "summary oid q (own_bets oid w) = summary oid q w" "daily oid q (own_bets oid w) = daily oid q w"
  by (simp_all add: summary_def daily_def scope_own)

lemma bets_route_cases:
  assumes "bets_route D g query w = Inr p"
  obtains oid q where "snd g = Inr oid" "parseBetsQuery D query = Inr q" "list_bets oid q w = Inr p"
proof -
  obtain oid where h: "snd g = Inr oid"
      "(case parseBetsQuery D query of Inl e \<Rightarrow> Inl e | Inr q \<Rightarrow> map_sum Bad_request id (list_bets oid q w)) = Inr p"
    using guard_cases_route [OF assms [unfolded bets_route_def]] by blast
  then show ?thesis
    by (cases "parseBetsQuery D query"; cases "list_bets oid (projr (parseBetsQuery D query)) w") (auto intro: that)
qed

lemma audit_route_cases:
  assumes "audit_route D g query rows = Inr es"
  obtains oid a where "snd g = Inr oid" "parseAuditQuery D query = Inr a" "es = auditEvents oid a rows"
  using guard_cases_route [OF assms [unfolded audit_route_def]] by (cases "parseAuditQuery D query") (auto intro: that)

lemma auditEvents_rows:
  "e \<in> set (auditEvents oid a rows) \<Longrightarrow> e \<in> set rows \<and> audit_scope oid a e"
  "length (auditEvents oid a rows) \<le> aq_limit a"
  "length (auditEvents oid a rows) < aq_limit a \<Longrightarrow> set (auditEvents oid a rows) = {e \<in> set rows. audit_scope oid a e}"
  by (auto simp: auditEvents_def dest!: in_set_takeD)

text \<open>C37. Whatever it asks for, each read route shows an operator its own rows only, and only to a bearer whose key
  resolves to that operator. The totals and the daily series are those of a database that holds no other
  operator's bet; a page of bets, cursor or not, has at most two hundred rows and each is a bet made under
  that operator inside the interval asked for; an audit listing, with or without dates, has at most two
  hundred events, each of that operator, and when it has fewer than the limit none that matches is missing.
  Each part speaks of its own route alone.\<close>

theorem operator_reads_own:
  "(\<forall>ss. summary_route D g query w = Inr ss \<longrightarrow>
      (\<exists>oid. snd g = Inr oid \<and> summary_route D g query (own_bets oid w) = Inr ss)) \<and>
   (\<forall>ds. daily_route D g query w = Inr ds \<longrightarrow>
      (\<exists>oid. snd g = Inr oid \<and> daily_route D g query (own_bets oid w) = Inr ds)) \<and>
   (\<forall>p. bets_route D g query w = Inr p \<longrightarrow>
      (\<exists>oid q. snd g = Inr oid \<and> parseBetsQuery D query = Inr q \<and> length (page_bets p) \<le> 200 \<and>
         (\<forall>r \<in> set (page_bets p). \<exists>b \<in> set (db_bets w). b_operatorId b = Some oid \<and> in_scope oid q b \<and> r = to_row w b))) \<and>
   (\<forall>es. audit_route D g query rows = Inr es \<longrightarrow>
      (\<exists>oid q. snd g = Inr oid \<and> parseAuditQuery D query = Inr q \<and> length es \<le> 200 \<and>
         (\<forall>e \<in> set es. e \<in> set rows \<and> ae_operatorId e = Some oid) \<and>
         (length es < aq_limit q \<longrightarrow> set es = {e \<in> set rows. audit_scope oid q e})))"
proof (intro conjI allI impI)
  show "\<exists>oid. snd g = Inr oid \<and> summary_route D g query (own_bets oid w) = Inr ss" if that_summary: "summary_route D g query w = Inr ss" for ss
  proof -
    obtain oid where g: "snd g = Inr oid" "map_sum id (\<lambda>q. summary oid q w) (parseReportQuery D query) = Inr ss"
        "CurrentOperatorId (Some oid) = Inr oid"
      using guard_route [OF that_summary [unfolded summary_route_def]] by blast
    have "summary_route D g query (own_bets oid w) = Inr ss"
      using g by (simp add: summary_route_def behind_guard_def totals_own)
    then show ?thesis using g(1) by blast
  qed
  show "\<exists>oid. snd g = Inr oid \<and> daily_route D g query (own_bets oid w) = Inr ds" if that_daily: "daily_route D g query w = Inr ds" for ds
  proof -
    obtain oid where g: "snd g = Inr oid" "map_sum id (\<lambda>q. daily oid q w) (parseDailyQuery D query) = Inr ds"
        "CurrentOperatorId (Some oid) = Inr oid"
      using guard_route [OF that_daily [unfolded daily_route_def]] by blast
    have "daily_route D g query (own_bets oid w) = Inr ds"
      using g by (simp add: daily_route_def behind_guard_def totals_own)
    then show ?thesis using g(1) by blast
  qed
  show "\<exists>oid q. snd g = Inr oid \<and> parseBetsQuery D query = Inr q \<and> length (page_bets p) \<le> 200 \<and>
      (\<forall>r \<in> set (page_bets p). \<exists>b \<in> set (db_bets w). b_operatorId b = Some oid \<and> in_scope oid q b \<and> r = to_row w b)"
    if route: "bets_route D g query w = Inr p" for p
  proof -
    obtain oid q where o: "snd g = Inr oid" "parseBetsQuery D query = Inr q" "list_bets oid q w = Inr p"
      using bets_route_cases [OF route] .
    have "q_limit q \<le> 200" using parseBetsQuery_parts [OF o(2)] parse_limit_bounds by metis
    then have "length (page_bets p) \<le> 200" using list_bets_length [OF o(3)] by linarith
    moreover have "\<exists>b \<in> set (db_bets w). b_operatorId b = Some oid \<and> in_scope oid q b \<and> r = to_row w b"
      if "r \<in> set (page_bets p)" for r
      using list_bets_rows [OF o(3) that] by (auto simp: in_scope_def)
    ultimately show ?thesis using o(1,2) by blast
  qed
  show "\<exists>oid q. snd g = Inr oid \<and> parseAuditQuery D query = Inr q \<and> length es \<le> 200 \<and>
      (\<forall>e \<in> set es. e \<in> set rows \<and> ae_operatorId e = Some oid) \<and>
      (length es < aq_limit q \<longrightarrow> set es = {e \<in> set rows. audit_scope oid q e})"
    if route: "audit_route D g query rows = Inr es" for es
  proof -
    obtain oid a where o: "snd g = Inr oid" "parseAuditQuery D query = Inr a" "es = auditEvents oid a rows"
      using audit_route_cases [OF route] .
    have "aq_limit a \<le> 200" using parseAuditQuery_parts(1) [OF o(2)] parse_limit_bounds by blast
    then have "length es \<le> 200" using auditEvents_rows(2) [of oid a rows] by (simp add: o(3))
    moreover have "\<forall>e \<in> set es. e \<in> set rows \<and> ae_operatorId e = Some oid"
      using auditEvents_rows(1) by (auto simp: o(3) audit_scope_def)
    ultimately show ?thesis using o auditEvents_rows(3) by blast
  qed
qed

definition own_db :: "unit world" where
  "own_db = \<lparr>db_wallets = [], db_ledger = [],
     db_bets = [\<lparr>b_id = ''b1'', b_roundId = ''r1'', b_userId = ''u1'', b_walletId = ''w1'', b_panel = PanelA, b_amount = 100,
       b_autoCashout = None, b_status = Busted, b_cashoutMult = None, b_payout = 0, b_demo = False, b_operatorId = Some uuid_a,
       b_currency = ''EUR'', b_maxWinPerBet = None, b_debitTxId = None, b_payoutTxId = None, b_createdAt = 1780300000000,
       b_settledAt = None\<rparr>],
     db_rounds = [], db_users = [], db_profiles = [], db_sessions = [], db_rollbacks = [], operator_state = ()\<rparr>"

definition own_event :: stored_event where
  "own_event = \<lparr>ae_actor = ''system'', ae_action = ''session.revoke'', ae_targetType = None, ae_targetId = None,
     ae_operatorId = Some uuid_a, ae_ip = None, ae_before = None, ae_after = None, ae_meta = None, ae_id = ''e1'',
     ae_createdAt = 1780300000000\<rparr>"

lemma own_audit_listing:
  "audit_route D (False, Inr uuid_a) (JObj []) [own_event, own_event\<lparr>ae_operatorId := None\<rparr>] = Inr [own_event]"
proof -
  have u: "truthy (Some uuid_a) = Some uuid_a" by code_simp
  show ?thesis
    by (simp add: audit_route_def behind_guard_def CurrentOperatorId_def u empty_parses auditEvents_def audit_scope_def own_event_def)
qed

lemma own_bets_listing: "\<exists>p. bets_route small_dates (False, Inr uuid_a) small_query own_db = Inr p \<and> length (page_bets p) = 1"
proof -
  have u: "truthy (Some uuid_a) = Some uuid_a" by code_simp
  let ?q = "\<lparr>q_from = 1780272000000, q_to = 1780617599999, q_currency = Some ''EUR'', q_includeDemo = False, q_cursor = None, q_limit = 200\<rparr>"
  have "\<exists>p. list_bets uuid_a ?q own_db = Inr p \<and> length (page_bets p) = 1"
    by (simp add: list_bets_def Let_def own_db_def scope_def in_scope_def newest_first_def from_cursor_def)
  then obtain p where p: "list_bets uuid_a ?q own_db = Inr p" "length (page_bets p) = 1" by blast
  then have "bets_route small_dates (False, Inr uuid_a) small_query own_db = Inr p"
    by (simp add: bets_route_def behind_guard_def CurrentOperatorId_def u small_parses)
  then show ?thesis using p(2) by blast
qed

theorem operator_reads_own_witness:
  "(\<exists>p r b. bets_route small_dates (False, Inr uuid_a) small_query own_db = Inr p \<and> page_bets p = [r] \<and>
     r = to_row own_db b \<and> b_operatorId b = Some uuid_a) \<and>
   (\<exists>q. parseAuditQuery small_dates (JObj []) = Inr q \<and>
     set [own_event] = {e \<in> set [own_event, own_event\<lparr>ae_operatorId := None\<rparr>]. audit_scope uuid_a q e})"
proof -
  obtain p where p: "bets_route small_dates (False, Inr uuid_a) small_query own_db = Inr p" "length (page_bets p) = 1"
    using own_bets_listing by blast
  then obtain r where r: "page_bets p = [r]" by (cases "page_bets p") auto
  have 1: "\<exists>b. b_operatorId b = Some uuid_a \<and> r = to_row own_db b"
    using operator_reads_own [of small_dates "(False, Inr uuid_a)" small_query own_db "[]"] p(1) r by fastforce
  have 2: "\<exists>q. parseAuditQuery small_dates (JObj []) = Inr q \<and> (length [own_event] < aq_limit q \<longrightarrow>
      set [own_event] = {e \<in> set [own_event, own_event\<lparr>ae_operatorId := None\<rparr>]. audit_scope uuid_a q e})"
    using operator_reads_own [of small_dates "(False, Inr uuid_a)" "JObj []" own_db "[own_event, own_event\<lparr>ae_operatorId := None\<rparr>]"]
      own_audit_listing [of small_dates] by fastforce
  show ?thesis using p(1) r 1 2 empty_parses(1) [of small_dates] by auto
qed

end
