(* ===== verification/VR_Routes.thy ===== *)
theory VR_Routes
  imports VR_Gateway VR_Voids VR_Queries
begin

text \<open>
  The routes of players and of the public (\<open>wallet.controller.ts\<close>, \<open>bets.controller.ts\<close>,
  \<open>rounds.controller.ts\<close>, \<open>leaderboard.controller.ts\<close>, \<open>auth.controller.ts\<close>), the operator's void route
  (\<open>operator-bets.controller.ts\<close>), the player guard (\<open>jwt-auth.guard.ts\<close>), the metrics guard and the probes
  (\<open>metrics-auth.guard.ts\<close>, \<open>health.controller.ts\<close>) and the exception filter.

  Verifying a play token is a parameter. A claim that is missing is \<open>undefined\<close> in the query, which the
  database layer reads as no filter at all; a claim of the wrong type makes the query throw. The amounts of
  an answer are the stored integers: they are exact as long as they are below \<open>2 ^ 53\<close>. Rows without a
  creation time are kept in the order they were inserted.
\<close>

section \<open>The player guard\<close>

datatype route_error =
    Http http_error
  | Forbidden string
  | Unavailable

record player_request =
  pq_userId :: "json option"
  pq_walletId :: "json option"

definition JwtAuthGuard :: "(string \<Rightarrow> json option) \<Rightarrow> string option \<Rightarrow> route_error + player_request" where
  "JwtAuthGuard verify authorization =
     (case authorization of
        None \<Rightarrow> Inl (Http (Unauthorized ''missing_token''))
      | Some h \<Rightarrow>
          if \<not> starts_with h ''Bearer '' then Inl (Http (Unauthorized ''missing_token''))
          else (case verify (drop 7 h) of
                  None \<Rightarrow> Inl (Http (Unauthorized ''invalid_token''))
                | Some payload \<Rightarrow> Inr \<lparr>pq_userId = jget payload ''sub'', pq_walletId = jget payload ''walletId''\<rparr>))"

text \<open>A value in a condition on a UUID column: no condition, one id, or an exception.\<close>

definition uuid_condition :: "json option \<Rightarrow> route_error + uid option" where
  "uuid_condition v =
     (case v of
        None \<Rightarrow> Inr None
      | Some (JStr s) \<Rightarrow> if is_uuid s then Inr (Some (to_lower s)) else Inl (Http Server_error)
      | Some _ \<Rightarrow> Inl (Http Server_error))"

definition meets :: "uid option \<Rightarrow> uid \<Rightarrow> bool" where
  "meets c i \<longleftrightarrow> c = None \<or> c = Some i"

section \<open>The wallet routes\<close>

definition resolveWallet :: "player_request \<Rightarrow> 'o world \<Rightarrow> route_error + wallet" where
  "resolveWallet q w =
     (if json_truthy (pq_walletId q)
      then (case uuid_condition (pq_walletId q) of
              Inr (Some i) \<Rightarrow>
                (case find_wallet w i of
                   None \<Rightarrow> Inl (Http Server_error)
                 | Some x \<Rightarrow> if pq_userId q \<noteq> Some (JStr (w_userId x)) then Inl (Forbidden ''wallet_mismatch'') else Inr x)
            | _ \<Rightarrow> Inl (Http Server_error))
      else (case uuid_condition (pq_userId q) of
              Inl e \<Rightarrow> Inl e
            | Inr u \<Rightarrow> (case find (\<lambda>x. meets u (w_userId x)) (db_wallets w) of
                  None \<Rightarrow> Inl (Http Server_error) | Some x \<Rightarrow> Inr x)))"

definition balance_route ::
  "'o wallet_provider \<Rightarrow> player_request \<Rightarrow> 'o world \<Rightarrow> (route_error + string \<times> int) \<times> 'o world" where
  "balance_route provider q w =
     (case resolveWallet q w of
        Inl e \<Rightarrow> (Inl e, w)
      | Inr x \<Rightarrow>
          (case wp_getBalance provider (w_id x) w of
             (Inl e, w') \<Rightarrow> (Inl (Http Server_error), w')
           | (Inr b, w') \<Rightarrow> (Inr (w_currency x, b), w')))"

definition transactions_route :: "player_request \<Rightarrow> 'o world \<Rightarrow> route_error + ledger_row list" where
  "transactions_route q w =
     map_sum id (\<lambda>x. take 50 (rev (filter (\<lambda>l. lt_wallet l = w_id x) (db_ledger w)))) (resolveWallet q w)"

section \<open>The bet routes\<close>

record bet_view =
  bv_id :: uid
  bv_roundId :: uid
  bv_panel :: panel
  bv_amount :: int
  bv_autoCashout :: "rat option"
  bv_status :: bet_status
  bv_cashoutMult :: "rat option"
  bv_payout :: int
  bv_createdAt :: int

definition serialize_bet :: "bet \<Rightarrow> bet_view" where
  "serialize_bet b =
     \<lparr>bv_id = b_id b, bv_roundId = b_roundId b, bv_panel = b_panel b, bv_amount = b_amount b,
      bv_autoCashout = map_option mult_of (b_autoCashout b), bv_status = b_status b,
      bv_cashoutMult = map_option mult_of (b_cashoutMult b), bv_payout = b_payout b, bv_createdAt = b_createdAt b\<rparr>"

definition latest_first :: "bet list \<Rightarrow> bet list" where
  "latest_first bs = sort_key (\<lambda>b. - b_createdAt b) bs"

definition active_route :: "player_request \<Rightarrow> 'o world \<Rightarrow> route_error + bet_view list" where
  "active_route q w =
     map_sum id (\<lambda>u. map serialize_bet (latest_first
         (filter (\<lambda>b. meets u (b_userId b) \<and> b_status b \<in> {Active, Payout_pending}) (db_bets w))))
       (uuid_condition (pq_userId q))"

definition history_route :: "player_request \<Rightarrow> 'o world \<Rightarrow> route_error + bet_view list" where
  "history_route q w =
     map_sum id (\<lambda>u. map serialize_bet (take 50 (latest_first
         (filter (\<lambda>b. meets u (b_userId b) \<and> b_status b \<notin> {Reserving, Cancelling}) (db_bets w)))))
       (uuid_condition (pq_userId q))"

section \<open>Rounds, leaderboard and guests\<close>

definition current_round :: "int \<Rightarrow> 'o engine \<Rightarrow> (phase \<times> int) + public_state" where
  "current_round now e = (case getPublicState now e of None \<Rightarrow> Inl (Waiting, 100) | Some s \<Rightarrow> Inr s)"

definition FINISHED :: "phase list" where
  "FINISHED = [Crashed, Settling, Completed]"

definition rounds_history :: "'o world \<Rightarrow> (uid \<times> rat) list" where
  "rounds_history w =
     map (\<lambda>r. (r_id r, mult_of (r_crashPoint r))) (take 30 (rev (filter (\<lambda>r. r_status r \<in> set FINISHED) (db_rounds w))))"

text \<open>A number of rows that is not a whole number makes the query throw.\<close>

definition leaderboard_take :: "string option \<Rightarrow> rat" where
  "leaderboard_take limit =
     (case map_option js_Number limit of
        Some (Fin n) \<Rightarrow> min (max (if n = 0 then 25 else n) 1) 100
      | Some (Infinite pos) \<Rightarrow> if pos then 100 else 1
      | _ \<Rightarrow> 25)"

definition ranks_before :: "profile \<Rightarrow> profile \<Rightarrow> bool" where
  "ranks_before p q \<longleftrightarrow> p_biggestMultiplier q < p_biggestMultiplier p \<or>
     p_biggestMultiplier p = p_biggestMultiplier q \<and> p_totalLoot q \<le> p_totalLoot p"

fun insert_profile :: "profile \<Rightarrow> profile list \<Rightarrow> profile list" where
  "insert_profile p [] = [p]"
| "insert_profile p (q # qs) = (if ranks_before p q then p # q # qs else q # insert_profile p qs)"

definition leaderboard_route :: "string option \<Rightarrow> 'o world \<Rightarrow> route_error + (uid \<times> string \<times> rat \<times> int) list" where
  "leaderboard_route limit w =
     (let n = leaderboard_take limit
      in if \<not> isInteger n then Inl (Http Server_error)
         else Inr (map (\<lambda>p. (p_userId p, p_displayName p, mult_of (p_biggestMultiplier p), p_totalLoot p))
                (take (nat \<lfloor>n\<rfloor>) (foldr insert_profile (db_profiles w) []))))"

record guest_throttle =
  gt_ttl :: int
  gt_limit :: int

definition guest_limits :: "(string \<Rightarrow> string option) \<Rightarrow> guest_throttle" where
  "guest_limits env =
     \<lparr>gt_ttl = throttle_env (env ''GUEST_THROTTLE_TTL_MS'') 60000, gt_limit = throttle_env (env ''GUEST_THROTTLE_LIMIT'') 5\<rparr>"

definition ip_tracker :: "ip_request \<Rightarrow> string" where
  "ip_tracker net = extractClientIp net"

section \<open>The void route\<close>

fun collapse_spaces :: "bool \<Rightarrow> string \<Rightarrow> string" where
  "collapse_spaces after_space [] = []"
| "collapse_spaces after_space (c # cs) =
     (if js_space c then (if after_space then [] else [CHR '' '']) @ collapse_spaces True cs
      else c # collapse_spaces False cs)"

definition readReason :: "json option \<Rightarrow> string option" where
  "readReason body =
     (case Option.bind body (\<lambda>b. jget b ''reason'') of
        Some (JStr r) \<Rightarrow>
          let cleaned = js_trim (collapse_spaces False
                (map (\<lambda>c. if (of_char c :: nat) < 32 \<or> of_char c = (127 :: nat) then CHR '' '' else c) r))
          in if cleaned \<noteq> [] then Some (take 500 cleaned) else None
      | _ \<Rightarrow> None)"

datatype void_answer = Refused string | Bad_bet_id | Voided_answer "void_error + void_result" "string option"

definition void_route ::
  "hashes \<Rightarrow> string option \<Rightarrow> operator_row list \<Rightarrow> auth_request \<Rightarrow> 'o bets_ctx \<Rightarrow> string \<Rightarrow> json option \<Rightarrow> 'o world \<Rightarrow>
   void_answer \<times> 'o world" where
  "void_route h pepper ops req ctx betId body w =
     (case snd (OperatorAuthGuard h pepper ops True req) of
        Inl e \<Rightarrow> (Refused e, w)
      | Inr operatorId \<Rightarrow>
          if \<not> is_uuid betId then (Bad_bet_id, w)
          else (case voidBet ctx operatorId (to_lower betId) w of (r, w') \<Rightarrow> (Voided_answer r (readReason body), w')))"

section \<open>Probes\<close>

definition MetricsAuthGuard :: "string option \<Rightarrow> string option \<Rightarrow> bool" where
  "MetricsAuthGuard expected authorization =
     (case truthy expected of None \<Rightarrow> True | Some e \<Rightarrow> safeTokenEqual (bearerToken authorization) (Some e))"

datatype dependency = Answers int | Fails int "string option" | Hangs

record ping_result =
  pg_up :: bool
  pg_latencyMs :: int
  pg_error :: "string option"

definition ping_timeout :: int where "ping_timeout = 800"

definition ping :: "dependency \<Rightarrow> ping_result" where
  "ping d =
     (let late = \<lparr>pg_up = False, pg_latencyMs = ping_timeout, pg_error = Some ''timeout after 800ms''\<rparr>
      in case d of
           Answers t \<Rightarrow> if t < ping_timeout then \<lparr>pg_up = True, pg_latencyMs = t, pg_error = None\<rparr> else late
         | Fails t e \<Rightarrow> if t < ping_timeout
                        then \<lparr>pg_up = False, pg_latencyMs = t, pg_error = Some (case e of None \<Rightarrow> ''error'' | Some x \<Rightarrow> x)\<rparr> else late
         | Hangs \<Rightarrow> late)"

record health_detail =
  hd_uptimeMs :: int
  hd_db :: ping_result
  hd_redis :: ping_result
  hd_running :: bool
  hd_phase :: "phase option"

definition health_route ::
  "string option \<Rightarrow> string option \<Rightarrow> int \<Rightarrow> dependency \<Rightarrow> dependency \<Rightarrow> public_state option \<Rightarrow> nat \<times> string \<times> health_detail option" where
  "health_route token authorization uptime db redis state =
     (let d = ping db; r = ping redis;
          detail = (if MetricsAuthGuard token authorization
                    then Some \<lparr>hd_uptimeMs = uptime, hd_db = d, hd_redis = r, hd_running = state \<noteq> None, hd_phase = map_option ps_phase state\<rparr>
                    else None)
      in if pg_up d \<and> pg_up r then (200, ''ok'', detail) else (503, ''degraded'', detail))"

definition live_route :: "string option \<Rightarrow> int \<Rightarrow> 'o engine \<Rightarrow> nat \<times> string \<times> bool \<times> int" where
  "live_route stall_env now e =
     (let since = msSinceLastRound now e;
          late = (case (case stall_env of None \<Rightarrow> Fin 120000 | Some s \<Rightarrow> js_Number s) of
                    Fin n \<Rightarrow> n < of_int since | Infinite pos \<Rightarrow> \<not> pos | NaN \<Rightarrow> False)
      in if eg_leader e \<and> late then (503, ''stalled'', eg_leader e, since) else (200, ''ok'', eg_leader e, since))"

section \<open>The exception filter\<close>

datatype thrown = Http_exception nat "string + json" | Thrown "string option"

definition catch_exception :: "thrown \<Rightarrow> nat \<times> json \<times> bool" where
  "catch_exception ex =
     (let status = (case ex of Http_exception s _ \<Rightarrow> s | Thrown _ \<Rightarrow> 500);
          body = (\<lambda>m. JObj [(''statusCode'', JNum (of_nat status)), (''message'', JStr m)])
      in (status,
          (case ex of Http_exception _ (Inl m) \<Rightarrow> body m | Http_exception _ (Inr j) \<Rightarrow> j | Thrown _ \<Rightarrow> body ''Internal server error''),
          (case ex of Http_exception s _ \<Rightarrow> 500 \<le> s | Thrown _ \<Rightarrow> True)))"

section \<open>A player sees the own rows\<close>

lemma set_latest_first [simp]: "set (latest_first bs) = set bs"
  by (simp add: latest_first_def)

lemma guard_player:
  "JwtAuthGuard verify (Some (''Bearer '' @ t)) = Inr q \<longleftrightarrow>
     (\<exists>payload. verify t = Some payload \<and> q = \<lparr>pq_userId = jget payload ''sub'', pq_walletId = jget payload ''walletId''\<rparr>)"
  by (auto simp: JwtAuthGuard_def starts_with_def split: option.split)

lemma resolved_is_own:
  assumes "resolveWallet q w = Inr x" "pq_userId q = Some (JStr u)" "to_lower u = u"
  shows "x \<in> set (db_wallets w) \<and> w_userId x = u"
proof (cases "json_truthy (pq_walletId q)")
  case True
  then show ?thesis
    using assms by (auto simp: resolveWallet_def dest: find_wallet_SomeD split: sum.splits option.splits if_splits)
next
  case False
  then have "is_uuid u" "find (\<lambda>x. meets (Some u) (w_userId x)) (db_wallets w) = Some x"
    using assms by (auto simp: resolveWallet_def uuid_condition_def split: if_splits option.splits)
  then show ?thesis by (auto simp: meets_def dest: find_SomeD)
qed

text \<open>
  A player sees exactly the own rows. With a verified token of a user, the open-bets route lists
  all the user's live bets, those with an unpaid win included, and nothing else; the history holds only the
  user's placed bets, the newest fifty; and the balance and the transactions are those of a wallet of
  the user, whatever wallet id the token carries.
\<close>

theorem player_reads_own:
  assumes q: "JwtAuthGuard verify (Some (''Bearer '' @ t)) = Inr q" and v: "verify t = Some payload"
    and u: "jget payload ''sub'' = Some (JStr u)" "is_uuid u" "to_lower u = u"
  shows "(\<exists>rows. active_route q w = Inr rows \<and>
      set rows = serialize_bet ` {b \<in> set (db_bets w). b_userId b = u \<and> (b_status b = Active \<or> b_status b = Payout_pending)}) \<and>
    (\<exists>rows. history_route q w = Inr rows \<and> length rows \<le> 50 \<and>
      set rows \<subseteq> serialize_bet ` {b \<in> set (db_bets w). b_userId b = u \<and> b_status b \<noteq> Reserving \<and> b_status b \<noteq> Cancelling}) \<and>
    (\<forall>x. resolveWallet q w = Inr x \<longrightarrow> x \<in> set (db_wallets w) \<and> w_userId x = u)"
proof -
  have sub: "pq_userId q = Some (JStr u)" using q [unfolded guard_player] v u(1) by auto
  then have own: "uuid_condition (pq_userId q) = Inr (Some u)" using u by (simp add: uuid_condition_def)
  show ?thesis
    using resolved_is_own [OF _ sub u(3)]
    by (auto simp: active_route_def history_route_def own meets_def dest: in_set_takeD)
qed

section \<open>Voids over HTTP\<close>

definition player_db :: "unit world" where
  "player_db = own_db\<lparr>db_wallets := [\<lparr>w_id = ''w1'', w_userId = uuid_a, w_currency = ''EUR'', w_balance = 70\<rparr>],
     db_bets := map (\<lambda>b. b\<lparr>b_userId := uuid_a, b_status := Payout_pending, b_payout := 150\<rparr>) (db_bets own_db) @ db_bets own_db\<rparr>"

theorem player_reads_own_witness:
  "\<exists>q rows. JwtAuthGuard (\<lambda>t. Some (JObj [(''sub'', JStr uuid_a)])) (Some ''Bearer t'') = Inr q \<and>
     active_route q player_db = Inr rows \<and> map bv_payout rows = [150] \<and> resolveWallet q player_db \<noteq> Inl (Http Server_error)"
proof -
  let ?v = "\<lambda>t :: string. Some (JObj [(''sub'', JStr uuid_a)])" and ?q = "\<lparr>pq_userId = Some (JStr uuid_a), pq_walletId = None\<rparr>"
  have q: "JwtAuthGuard ?v (Some (''Bearer '' @ ''t'')) = Inr ?q" unfolding guard_player by simp
  obtain rows where rows: "active_route ?q player_db = Inr rows"
    using player_reads_own [OF q refl, of uuid_a player_db] toy_keys_ok by auto
  have "map bv_payout (projr (active_route ?q player_db)) = [150]" by code_simp
  moreover have "resolveWallet ?q player_db \<noteq> Inl (Http Server_error)" by code_simp
  ultimately show ?thesis using q rows by auto
qed

text \<open>
  C38. Only the operator that owns a bet can have it voided, and only with its write key. Whenever the
  route leaves anything changed, the request carried a key whose secret verifies against the stored write key
  of an enabled operator, from an allowed address, and the bet is one of that operator's.
\<close>

theorem void_needs_own_write_key:
  assumes "void_route h pepper ops req ctx betId body w = (r, w')" "w' \<noteq> w"
  shows "\<exists>i secret x b. parseReportingToken (bearerToken (ar_authorization req)) = Some (i, secret) \<and>
    find_operator ops i = Some x \<and> op_enabled x \<and> verifyReportingSecret h pepper secret (op_writeApiKeyHash x) \<and>
    (op_ipWhitelist x = [] \<or> extractClientIp (ar_net req) \<in> set (op_ipWhitelist x)) \<and>
    find_bet w (to_lower betId) = Some b \<and> b_operatorId b = Some (op_id x)"
proof -
  obtain oid where g: "snd (OperatorAuthGuard h pepper ops True req) = Inr oid" and "is_uuid betId"
    and v: "snd (voidBet ctx oid (to_lower betId) w) \<noteq> w"
    using assms by (auto simp: void_route_def split: sum.splits if_splits prod.splits)
  obtain b where "find_bet w (to_lower betId) = Some b" "b_operatorId b = Some oid"
    using v by (auto simp: voidBet_def split: option.splits if_splits)
  then show ?thesis using guard_grants [OF g] by (fastforce simp: scope_hash_def)
qed

definition void_ctx :: "unit bets_ctx" where
  "void_ctx = \<lparr>bc_wallet = ledgerProvider, bc_risk = \<lparr>rl_minBet = 10, rl_maxBet = 1000, rl_maxWinPerBet = 100000,
     rl_maxMultiplier = 1000000, rl_maxRoundExposure = 1000000\<rparr>, bc_state = None, bc_mult = 100, bc_now = 1, bc_race = id\<rparr>"

definition void_db :: "unit world" where
  "void_db = player_db\<lparr>db_bets := map (\<lambda>b. b\<lparr>b_id := uuid_a\<rparr>) (db_bets own_db)\<rparr>"

definition void_request :: auth_request where
  "void_request = \<lparr>ar_authorization = Some (key_header ''vrw_'' uuid_a secret_w), ar_net = no_net\<rparr>"

theorem void_needs_own_write_key_witness:
  "map b_status (db_bets (snd (void_route toy_hashes None [keyed_operator] void_request void_ctx uuid_a None void_db))) = [Voided] \<and>
   (\<exists>x b. find_operator [keyed_operator] uuid_a = Some x \<and> find_bet void_db uuid_a = Some b \<and> b_operatorId b = Some (op_id x))"
proof -
  let ?w = "snd (void_route toy_hashes None [keyed_operator] void_request void_ctx uuid_a None void_db)"
  have s: "map b_status (db_bets ?w) = [Voided]" by code_simp
  moreover have "map b_status (db_bets void_db) = [Busted]" by code_simp
  ultimately have "?w \<noteq> void_db" by fastforce
  then show ?thesis
    using void_needs_own_write_key [of toy_hashes None "[keyed_operator]" void_request void_ctx uuid_a None void_db
        "fst (void_route toy_hashes None [keyed_operator] void_request void_ctx uuid_a None void_db)" ?w]
      parse_bearer [OF toy_keys_ok(1,3), of "''vrw_''"] toy_keys_ok s
    by (auto simp: void_request_def)
qed

section \<open>What the probes tell\<close>

text \<open>A caller without the token learns one bit, and a follower never fails the liveness probe.\<close>

lemma health_hides_detail:
  assumes "truthy token \<noteq> None" "bearerToken authorization \<noteq> token"
  shows "health_route token authorization uptime db redis state =
    (if pg_up (ping db) \<and> pg_up (ping redis) then (200, ''ok'', None) else (503, ''degraded'', None))"
proof -
  have "\<not> MetricsAuthGuard token authorization"
    using assms by (auto simp: MetricsAuthGuard_def safeTokenEqual_def truthy_def split: option.splits if_splits)
  then show ?thesis by (simp add: health_route_def Let_def)
qed

lemma live_exact:
  assumes "stall_env = None"
  shows "fst (live_route stall_env now e) = (if eg_leader e \<and> 120000 < now - eg_lastRoundAt e then 503 else 200)"
  using assms by (simp add: live_route_def msSinceLastRound_def Let_def)

lemma live_probe_switched_off: "js_Number v = NaN \<Longrightarrow> fst (live_route (Some v) now e) = 200"
  by (simp add: live_route_def Let_def)

section \<open>The leaderboard\<close>

lemma insert_profile_sorted: "sorted_wrt ranks_before qs \<Longrightarrow> sorted_wrt ranks_before (insert_profile p qs)"
proof (induction qs)
  case (Cons q qs)
  have "set (insert_profile p qs) = insert p (set qs)" for p qs by (induction qs) auto
  with Cons show ?case by (auto simp: ranks_before_def)
qed simp

lemma leaderboard_bounds: "1 \<le> leaderboard_take limit \<and> leaderboard_take limit \<le> 100"
  by (auto simp: leaderboard_take_def split: option.split js_num.split)

lemma leaderboard_length:
  assumes "leaderboard_route limit w = Inr rows"
  shows "length rows \<le> 100"
proof -
  have "nat \<lfloor>leaderboard_take limit\<rfloor> \<le> 100" using leaderboard_bounds [of limit] by linarith
  then show ?thesis using assms by (auto simp: leaderboard_route_def Let_def split: if_splits)
qed

end
