(* ===== verification/VR_FairRoutes.thy ===== *)
theory VR_FairRoutes
  imports VR_Engine VR_FairRun VR_Sessions
begin

text \<open>
  The public fairness routes (\<open>src/fairness/fairness.controller.ts\<close>): the commitment, the reveal of a
  round, the epochs, the seed dump and the recomputation.

  A result is the body of the answer or an error with its status. The crash point of a round is stored in
  hundredths; the recomputed one is the number the service computes. An epoch column holds 32 bits, so a
  larger number fails in the query.
\<close>

section \<open>The routes\<close>

definition current_route :: "fair_env \<Rightarrow> fair_db \<Rightarrow> current_commit option \<times> fair_db" where
  "current_route env db = (let (_, db1) = ensureChain env db in (getCurrentCommit env db1, db1))"

record reveal_data =
  rv_epoch :: int
  rv_commitHash :: string
  rv_saltSource :: string
  rv_targetChain :: "string option"
  rv_targetBlock :: "int option"
  rv_seed :: string
  rv_salt :: string
  rv_seedHash :: string
  rv_chainIndex :: nat
  rv_prevSeed :: "string option"
  rv_crashPoint :: rat
  rv_recomputedCrash :: rat
  rv_matches :: bool
  rv_linkVerified :: "bool option"

datatype round_reveal = Unrevealed | Reveal reveal_data

definition prev_seed :: "fairness_seed \<Rightarrow> fair_db \<Rightarrow> fairness_seed option" where
  "prev_seed s db =
     (if 1 \<le> fs_index s then find (\<lambda>t. fs_chainId t = fs_chainId s \<and> fs_index t = fs_index s - 1) (fd_seeds db)
      else None)"

definition reveal_of ::
  "(string \<Rightarrow> string) \<Rightarrow> (string \<Rightarrow> string \<Rightarrow> string) \<Rightarrow> round \<Rightarrow> fairness_seed \<Rightarrow> fairness_chain \<Rightarrow> fair_db \<Rightarrow>
   http_error + reveal_data" where
  "reveal_of sha hmac r s c db =
     (case (fs_seed s, fc_salt c) of
        (Some seed, Some salt) \<Rightarrow>
          (let prev = prev_seed s db; prevSeed = Option.bind prev fs_seed
           in case verify_round sha hmac seed salt prevSeed of
                (None, _) \<Rightarrow> Inl Server_error
              | (Some crash, linkVerified) \<Rightarrow> Inr
                  \<lparr>rv_epoch = fc_epoch c, rv_commitHash = fc_commitHash c, rv_saltSource = fc_saltSource c,
                   rv_targetChain = fc_targetChain c, rv_targetBlock = fc_targetBlock c, rv_seed = seed,
                   rv_salt = salt, rv_seedHash = fs_seedHash s, rv_chainIndex = fs_index s, rv_prevSeed = prevSeed,
                   rv_crashPoint = mult_of (r_crashPoint r), rv_recomputedCrash = crash,
                   rv_matches = (mult_of (r_crashPoint r) = crash), rv_linkVerified = linkVerified\<rparr>)
      | _ \<Rightarrow> Inl Server_error)"

definition round_route ::
  "(string \<Rightarrow> string) \<Rightarrow> (string \<Rightarrow> string \<Rightarrow> string) \<Rightarrow> uid \<Rightarrow> round list \<Rightarrow> fair_db \<Rightarrow>
   http_error + uid \<times> phase \<times> round_reveal" where
  "round_route sha hmac i rounds db =
     (if \<not> is_uuid i then Inl Server_error
      else case find (\<lambda>r. r_id r = to_lower i) rounds of
        None \<Rightarrow> Inl (Not_found ''round_not_found'')
      | Some r \<Rightarrow>
          (case find (\<lambda>s. fs_id s = r_seedId r) (fd_seeds db) of
             None \<Rightarrow> Inl Server_error
           | Some s \<Rightarrow>
               if fs_revealedAt s = None then Inr (r_id r, r_status r, Unrevealed)
               else (case find (\<lambda>c. fc_id c = fs_chainId s) (fd_chains db) of
                       None \<Rightarrow> Inl Server_error
                     | Some c \<Rightarrow> map_sum id (\<lambda>v. (r_id r, r_status r, Reveal v)) (reveal_of sha hmac r s c db))))"

definition epochs_route :: "fair_env \<Rightarrow> fair_db \<Rightarrow> epoch_view list" where
  "epochs_route env db = listEpochs env db"

definition epoch_seeds_route :: "string \<Rightarrow> fair_db \<Rightarrow> http_error + seeds_dump" where
  "epoch_seeds_route epoch db =
     (case js_Number epoch of
        Fin n \<Rightarrow>
          if \<not> isInteger n \<or> n < 0 then Inl (Bad_request ''invalid_epoch'')
          else if 2147483647 < n then Inl Server_error
          else (case epochSeeds \<lfloor>n\<rfloor> db of None \<Rightarrow> Inl (Not_found ''epoch_not_found'') | Some out \<Rightarrow> Inr out)
      | _ \<Rightarrow> Inl (Bad_request ''invalid_epoch''))"

definition hex_field :: "json option \<Rightarrow> string option" where
  "hex_field v =
     (case v of Some (JStr s) \<Rightarrow> if s \<noteq> [] \<and> list_all (\<lambda>c. hex_digit c \<noteq> None) s then Some s else None | _ \<Rightarrow> None)"

definition verify_route ::
  "(string \<Rightarrow> string) \<Rightarrow> (string \<Rightarrow> string \<Rightarrow> string) \<Rightarrow> json \<Rightarrow> http_error + rat \<times> bool option" where
  "verify_route sha hmac body =
     (case (hex_field (jget body ''seed''), jget body ''salt'') of
        (Some seed, Some (JStr salt)) \<Rightarrow>
          if salt = [] \<or> jget body ''prevSeed'' \<noteq> None \<and> hex_field (jget body ''prevSeed'') = None
          then Inl (Bad_request ''invalid_body'')
          else (case verify_round sha hmac seed salt (hex_field (jget body ''prevSeed'')) of
                  (None, _) \<Rightarrow> Inl Server_error | (Some crash, link) \<Rightarrow> Inr (crash, link))
      | _ \<Rightarrow> Inl (Bad_request ''invalid_body''))"

section \<open>What a later run keeps of an allocated seed\<close>

text \<open>
  Later steps of the service: as the runs of \<open>VR_FairRun\<close>, with the pending epochs of an upkeep read in
  the state it writes to.
\<close>

inductive fair_later :: "fair_ids \<Rightarrow> fair_db \<Rightarrow> fair_db \<Rightarrow> bool" for k where
  later_now: "fair_later k db db"
| later_ensure: "fair_later k db0 db \<Longrightarrow> env_of k env \<Longrightarrow> fair_later k db0 (snd (ensureChain env db))"
| later_allocate: "fair_later k db0 db \<Longrightarrow> env_of k env \<Longrightarrow> fair_later k db0 (snd (allocateSeed env rounds db))"
| later_maintain: "fair_later k db0 db \<Longrightarrow> env_of k env \<Longrightarrow>
    set pendings \<subseteq> {p \<in> set (fd_chains db). fc_status p = Ep_pending} \<Longrightarrow> fair_later k db0 (maintain env pendings db)"
| later_reveal: "fair_later k db0 db \<Longrightarrow> revealSeed now seedId db = Inr db' \<Longrightarrow> fair_later k db0 db'"

lemma fair_later_run: "fair_later k db0 db \<Longrightarrow> fair_run k db0 \<Longrightarrow> fair_run k db"
  by (induction rule: fair_later.induct) (auto intro: run_ensure run_allocate run_maintain run_reveal)

definition served_epoch :: "fairness_chain \<Rightarrow> bool" where
  "served_epoch c \<longleftrightarrow> fc_status c = Ep_active \<or> fc_status c = Ep_exhausted"

definition epoch_core :: "fairness_chain \<Rightarrow> uid \<times> int \<times> string \<times> string \<times> string option" where
  "epoch_core c = (fc_id c, fc_epoch c, fc_commitHash c, fc_saltSource c, fc_salt c)"

definition keeps_epochs :: "fair_db \<Rightarrow> fair_db \<Rightarrow> bool" where
  "keeps_epochs db db' \<longleftrightarrow>
     (\<forall>c \<in> set (fd_chains db). served_epoch c \<longrightarrow> (\<exists>d \<in> set (fd_chains db'). served_epoch d \<and> epoch_core d = epoch_core c)) \<and>
     (\<forall>s \<in> set (fd_seeds db). \<exists>t \<in> set (fd_seeds db'). fs_chainId t = fs_chainId s \<and> seed_core t = seed_core s)"

lemma keeps_epochs_refl [simp]: "keeps_epochs db db"
  by (auto simp: keeps_epochs_def)

lemma keeps_epochs_trans [trans]: "keeps_epochs a b \<Longrightarrow> keeps_epochs b c \<Longrightarrow> keeps_epochs a c"
  unfolding keeps_epochs_def by metis

lemma keeps_set:
  assumes "\<And>c. c \<in> set (fd_chains db) \<Longrightarrow> fc_id c = i \<Longrightarrow> served_epoch c \<Longrightarrow> served_epoch (f c) \<and> epoch_core (f c) = epoch_core c"
  shows "keeps_epochs db (chain_set i f db)"
  unfolding keeps_epochs_def chain_set_sel update_where_def set_map
  using assms by (auto split: if_splits)

lemma keeps_retire: "keeps_epochs db (retireChain i db)"
  unfolding retireChain_def by (rule keeps_set) (simp add: served_epoch_def epoch_core_def)

lemma keeps_promote: "keeps_epochs db (snd (promote c db))"
  unfolding promote_def snd_conv by (rule keeps_set) (simp add: served_epoch_def epoch_core_def)

lemma keeps_create: "keeps_epochs db (snd (createEpoch env act db))"
  by (auto simp: createEpoch_def keeps_epochs_def Let_def split: option.splits sum.splits prod.splits)

text \<open>The identifiers of the epochs are distinct, so a pending row is not one that has been served.\<close>

definition epochs_distinct :: "fair_db \<Rightarrow> bool" where
  "epochs_distinct db \<longleftrightarrow> distinct (map fc_id (fd_chains db))"

lemma epochs_distinct_inv: "rows_inv k db \<Longrightarrow> ids_inj k \<Longrightarrow> epochs_distinct db"
proof -
  assume inv: "rows_inv k db" and ids: "ids_inj k"
  have "map fc_id (fd_chains db) = map (id_chain k) (map fc_epoch (fd_chains db))"
    using inv by (auto simp: rows_inv_def row_ok_def)
  then show ?thesis
    using inv ids by (simp add: epochs_distinct_def rows_inv_def ids_inj_def distinct_map [of "id_chain k"] inj_on_def inj_def
        del: map_map)
qed

lemma epochs_distinct_set:
  assumes "keeps_identity f" "epochs_distinct db"
  shows "epochs_distinct (chain_set i f db)"
proof -
  have "map fc_id (fd_chains (chain_set i f db)) = map fc_id (fd_chains db)"
    using assms(1) by (auto simp: keeps_identity_def update_where_def)
  then show ?thesis using assms(2) by (simp only: epochs_distinct_def)
qed

lemma epochs_distinct_retire [simp]: "epochs_distinct db \<Longrightarrow> epochs_distinct (retireChain i db)"
  unfolding retireChain_def by (rule epochs_distinct_set) (simp_all add: keeps_identity_def)

lemma keeps_salt:
  assumes "epochs_distinct db" "p \<in> set (fd_chains db)" "fc_status p = Ep_pending"
  shows "keeps_epochs db (chain_set (fc_id p) f db)"
proof (rule keeps_set)
  fix c
  assume "c \<in> set (fd_chains db)" "fc_id c = fc_id p" "served_epoch c"
  moreover from this have "c = p" using assms(1,2) unfolding epochs_distinct_def by (blast intro: distinct_key_eq)
  ultimately show "served_epoch (f c) \<and> epoch_core (f c) = epoch_core c" using assms(3) by (simp add: served_epoch_def)
qed

lemma keeps_activate_pending:
  assumes "epochs_distinct db"
  shows "keeps_epochs db (snd (activate_pending env db))"
proof (cases "first_epoch (\<lambda>c. fc_status c = Ep_pending) (fd_chains db)")
  case (Some p)
  then have p: "p \<in> set (fd_chains db)" "fc_status p = Ep_pending" by (auto dest: first_epoch_Some)
  show ?thesis
    using keeps_epochs_trans [OF keeps_salt [OF assms p] keeps_promote]
    by (auto simp: activate_pending_def Some keeps_create Let_def)
qed (simp add: activate_pending_def keeps_create)

lemma keeps_activate_armed:
  assumes "epochs_distinct db"
  shows "keeps_epochs db (snd (activate_armed env db))"
  using keeps_activate_pending [OF assms] keeps_promote
    keeps_epochs_trans [OF keeps_retire keeps_activate_pending [OF epochs_distinct_retire [OF assms]]]
  by (auto simp: activate_armed_def split: option.split)

lemma keeps_ensure:
  assumes "epochs_distinct db"
  shows "keeps_epochs db (snd (ensureActiveChain env db))"
  using keeps_activate_armed [OF assms]
    keeps_epochs_trans [OF keeps_retire keeps_activate_armed [OF epochs_distinct_retire [OF assms]]]
  by (auto simp: ensureActiveChain_def split: option.split)

lemma keeps_allocate:
  assumes inv: "fair_inv k db" and ids: "ids_inj k" and env: "env_of k env"
  shows "keeps_epochs db (snd (allocateSeed env rounds db))"
proof -
  have d: "epochs_distinct db" using inv ids by (auto simp: fair_inv_def intro: epochs_distinct_inv)
  have e: "epochs_distinct (snd (ensureActiveChain env db))"
    using ensureActiveChain_inv [OF env ids inv] ids by (auto simp: fair_inv_def intro: epochs_distinct_inv)
  have r: "keeps_epochs db (snd (ensureActiveChain env (retireChain i (snd (ensureActiveChain env db)))))" for i
    using keeps_epochs_trans [OF keeps_ensure [OF d] keeps_epochs_trans [OF keeps_retire keeps_ensure [OF epochs_distinct_retire [OF e]]]] .
  show ?thesis
    using keeps_ensure [OF d, of env] r by (auto simp: allocateSeed_def split: prod.splits option.splits) (metis snd_conv)+
qed

definition unserved :: "fairness_chain list \<Rightarrow> fair_db \<Rightarrow> bool" where
  "unserved ps db \<longleftrightarrow> (\<forall>p \<in> set ps. \<forall>c \<in> set (fd_chains db). fc_id c = fc_id p \<longrightarrow> \<not> served_epoch c)"

lemma keeps_audit [simp]: "keeps_epochs db (db'\<lparr>fd_audit := a\<rparr>) = keeps_epochs db db'"
  by (simp add: keeps_epochs_def)

lemma keeps_arm:
  assumes "unserved (p # ps) db"
  shows "keeps_epochs db (arm_step env p db) \<and> unserved ps (arm_step env p db)"
proof (cases "tryResolve env p")
  case (Some salt)
  have "keeps_epochs db (chain_set (fc_id p) f db)" for f
    by (rule keeps_set) (use assms in \<open>auto simp: unserved_def\<close>)
  moreover have "unserved ps (chain_set (fc_id p) (\<lambda>x. x\<lparr>fc_salt := Some salt, fc_status := Ep_armed, fc_armedAt := a\<rparr>) db)" for a
    using assms by (auto simp: unserved_def served_epoch_def update_where_def)
  ultimately show ?thesis using assms Some by (auto simp: arm_step_def unserved_def)
qed (use assms in \<open>auto simp: arm_step_def unserved_def\<close>)

lemma keeps_arm_fold: "unserved ps db \<Longrightarrow> keeps_epochs db (fold (arm_step env) ps db)"
  by (induction ps arbitrary: db) (auto dest: keeps_arm intro: keeps_epochs_trans)

lemma keeps_maintain:
  assumes "epochs_distinct db" "set pendings \<subseteq> {p \<in> set (fd_chains db). fc_status p = Ep_pending}"
  shows "keeps_epochs db (maintain env pendings db)"
proof -
  have "\<not> served_epoch c" if "c \<in> set (fd_chains db)" "p \<in> set pendings" "fc_id c = fc_id p" for c p
  proof -
    have "p \<in> set (fd_chains db)" "fc_status p = Ep_pending" using that(2) assms(2) by auto
    moreover from this have "c = p" using that assms(1) unfolding epochs_distinct_def by (blast intro: distinct_key_eq)
    ultimately show ?thesis by (simp add: served_epoch_def)
  qed
  then have "unserved pendings db" by (auto simp: unserved_def)
  then show ?thesis
    using keeps_arm_fold [of pendings db env] keeps_epochs_trans [OF _ keeps_create]
    by (auto simp: maintain_def Let_def)
qed

lemma keeps_reveal:
  assumes "revealSeed now i db = Inr db'"
  shows "keeps_epochs db db'"
proof -
  have db': "db' = db\<lparr>fd_seeds := update_where (\<lambda>s. fs_id s = i) (\<lambda>s. s\<lparr>fs_revealedAt := Some now\<rparr>) (fd_seeds db)\<rparr>"
    using assms by (simp add: revealSeed_def split: if_splits)
  have "(if fs_id s = i then s\<lparr>fs_revealedAt := Some now\<rparr> else s) \<in> set (fd_seeds db')" if "s \<in> set (fd_seeds db)" for s
    using that by (auto simp: db' update_where_def)
  moreover have "fs_chainId (if b then s\<lparr>fs_revealedAt := Some now\<rparr> else s) = fs_chainId s \<and>
      seed_core (if b then s\<lparr>fs_revealedAt := Some now\<rparr> else s) = seed_core s" for b s
    by (simp add: seed_core_def)
  ultimately have "\<exists>t \<in> set (fd_seeds db'). fs_chainId t = fs_chainId s \<and> seed_core t = seed_core s"
    if "s \<in> set (fd_seeds db)" for s using that by blast
  moreover have "fd_chains db' = fd_chains db" by (simp add: db')
  ultimately show ?thesis by (auto simp: keeps_epochs_def)
qed

lemma later_distinct: "fair_later k db0 db \<Longrightarrow> fair_run k db0 \<Longrightarrow> ids_inj k \<Longrightarrow> epochs_distinct db"
  using fair_run_inv [OF fair_later_run] epochs_distinct_inv unfolding fair_inv_def by blast

lemma fair_later_keeps:
  "fair_later k db0 db \<Longrightarrow> fair_run k db0 \<Longrightarrow> ids_inj k \<Longrightarrow> keeps_epochs db0 db"
proof (induction rule: fair_later.induct)
  case (later_ensure db0 db env)
  then have "epochs_distinct db" by (blast intro: later_distinct)
  then show ?case
    using later_ensure keeps_ensure [of db env] by (auto simp: ensureChain_def Let_def intro: keeps_epochs_trans)
next
  case (later_allocate db0 db env rounds)
  then show ?case
    using keeps_allocate [OF fair_run_inv [OF fair_later_run]] by (blast intro: keeps_epochs_trans)
next
  case (later_maintain db0 db env pendings)
  then have "epochs_distinct db" by (blast intro: later_distinct)
  then show ?case using later_maintain keeps_maintain by (blast intro: keeps_epochs_trans)
next
  case (later_reveal db0 db now seedId db')
  then show ?case by (blast intro: keeps_epochs_trans keeps_reveal)
qed simp

section \<open>The rows of a committed epoch\<close>

lemma chain_seed_row:
  assumes "rows_inv k db" "ids_inj k" "c \<in> set (fd_chains db)" "committed k db c xs" "s \<in> set (fd_seeds db)"
    and "fs_id s = id_seed k (fc_epoch c) n"
  shows "fs_chainId s = fc_id c \<and> fs_index s = n \<and> n < length xs \<and> fs_seed s = Some (xs ! n) \<and> fs_seedHash s = id_sha k (xs ! n)"
proof -
  obtain d where d: "d \<in> set (fd_chains db)" "fs_chainId s = fc_id d" using assms(1,5) by (auto simp: rows_inv_def)
  then obtain ys where "committed k db d ys" using assms(1) by (auto simp: rows_inv_def row_ok_def)
  then have s: "fs_id s = id_seed k (fc_epoch d) (fs_index s)" using seed_row assms(5) d(2) by blast
  moreover have "inj (\<lambda>(e, i). id_seed k e i)" using assms(2) by (simp add: ids_inj_def)
  ultimately have "fc_epoch d = fc_epoch c" "fs_index s = n"
    using assms(6) by (auto dest!: injD [where x = "(fc_epoch d, fs_index s)" and y = "(fc_epoch c, n)"])
  moreover have "d = c" using assms(1,3) d(1) calculation(1) unfolding rows_inv_def by (blast intro: distinct_key_eq)
  ultimately show ?thesis using seed_row [OF assms(4,5)] d(2) by auto
qed

lemma chain_has_row:
  assumes "committed k db c xs" "n < length xs"
  shows "\<exists>s \<in> set (fd_seeds db). fs_chainId s = fc_id c \<and> fs_index s = n"
proof -
  have "(n, xs ! n) \<in> set (enumerate 0 xs)" using assms(2) by (simp add: in_set_enumerate_eq)
  then have "(id_seed k (fc_epoch c) n, n, Some (xs ! n), id_sha k (xs ! n)) \<in> set (chain_rows k (fc_epoch c) xs)"
    by (force simp: chain_rows_def)
  then have "(id_seed k (fc_epoch c) n, n, Some (xs ! n), id_sha k (xs ! n)) \<in> set (map seed_core (seeds_of (fc_id c) db))"
    using assms(1) unfolding committed_def by metis
  then show ?thesis by (auto simp: seed_core_def seeds_of_def)
qed

lemma prev_seed_row:
  assumes "committed k db d xs" "t \<in> set (fd_seeds db)" "fs_chainId t = fc_id d" "fs_index t = Suc n" "Suc n < length xs"
  shows "\<exists>u. prev_seed t db = Some u \<and> fs_seed u = Some (xs ! n)"
proof -
  let ?P = "\<lambda>u. fs_chainId u = fc_id d \<and> fs_index u = n"
  obtain u where u: "find ?P (fd_seeds db) = Some u"
    using chain_has_row [OF assms(1), of n] assms(5) by (cases "find ?P (fd_seeds db)") (auto simp: find_None_iff)
  from find_SomeD [OF u] have "u \<in> set (fd_seeds db)" "fs_chainId u = fc_id d" "fs_index u = n" by simp_all
  then have "fs_seed u = Some (xs ! n)" using seed_row [OF assms(1), of u] by simp
  then show ?thesis using u assms(3,4) by (simp add: prev_seed_def)
qed

lemma cents_of_mult_of [simp]: "mult_of (cents_of (mult_of m)) = mult_of m"
  by (simp add: cents_of_def mult_of_def)

lemma computeCrash_cents: "computeCrash hmac seed salt = Some m \<Longrightarrow> mult_of (cents_of m) = m"
  by (auto simp: computeCrash_def crashFromHmacHex_def Let_def split: if_splits)

text \<open>The seed of an allocation in any later state: its row, its epoch and its predecessor.\<close>

lemma later_seed:
  assumes run: "fair_run k db1" "ids_inj k" and later: "fair_later k db1 db"
    and c: "c \<in> set (fd_chains db1)" "served_epoch c"
    and s: "s \<in> set (fd_seeds db1)" "fs_chainId s = fc_id c" "fs_index s = Suc n"
  obtains d xs where "d \<in> set (fd_chains db)" "epoch_core d = epoch_core c" "committed k db d xs" "Suc n < length xs"
    "fs_seed s = Some (xs ! Suc n)" "fs_id s = id_seed k (fc_epoch d) (Suc n)"
    "\<exists>t \<in> set (fd_seeds db). fs_id t = fs_id s"
proof -
  have inv1: "rows_inv k db1" and inv: "rows_inv k db"
    using fair_run_inv [OF run] fair_run_inv [OF fair_later_run [OF later run(1)] run(2)] by (simp_all add: fair_inv_def)
  have keep: "keeps_epochs db1 db" by (rule fair_later_keeps [OF later run])
  then obtain d where d: "d \<in> set (fd_chains db)" "epoch_core d = epoch_core c" using c by (auto simp: keeps_epochs_def)
  obtain xs1 where xs1: "committed k db1 c xs1" using inv1 c(1) by (auto simp: rows_inv_def row_ok_def)
  obtain xs where xs: "committed k db d xs" using inv d(1) by (auto simp: rows_inv_def row_ok_def)
  have sid: "fs_id s = id_seed k (fc_epoch d) (Suc n)" using seed_row [OF xs1 s(1,2)] s(3) d(2) by (simp add: epoch_core_def)
  obtain t where t: "t \<in> set (fd_seeds db)" "seed_core t = seed_core s" using keep s(1) by (auto simp: keeps_epochs_def)
  show thesis
    using that [OF d xs] chain_seed_row [OF inv run(2) d(1) xs t(1)] t sid by (auto simp: seed_core_def)
qed

text \<open>
  C4. The game is provably fair end to end. Take a seed as the service allocates it, the round that is
  opened with its crash point, and whatever the service does from then on. Once the seed is revealed, the
  public route answers for that round with the commitment that was published before the round was
  opened, a seed that hashes back to it, a crash point that recomputes to the stored one, and a verified
  link to the previous seed.
\<close>

theorem reveal_verifies:
  assumes run: "fair_run k db0" "ids_inj k" "env_of k env" and sha: "\<And>x. id_sha k x \<noteq> []"
    and alloc: "allocateSeed env rounds0 db0 = (Allocated s c, db1)" "crashForSeed hmac s c = Some crash"
    and later: "fair_later k db1 db"
    and r: "find (\<lambda>r. r_id r = i) rounds = Some r" "r_seedId r = fs_id s" "r_crashPoint r = cents_of crash"
    and i: "is_uuid i" "to_lower i = i"
    and rev: "\<And>t. t \<in> set (fd_seeds db) \<Longrightarrow> fs_id t = fs_id s \<Longrightarrow> fs_revealedAt t \<noteq> None"
  shows "\<exists>v. round_route (id_sha k) hmac i rounds db = Inr (i, r_status r, Reveal v) \<and>
    rv_commitHash v = fc_commitHash c \<and> (id_sha k ^^ rv_chainIndex v) (rv_seed v) = fc_commitHash c \<and>
    rv_recomputedCrash v = crash \<and> rv_matches v \<and> rv_linkVerified v = Some True"
proof -
  have inv0: "fair_inv k db0" using run(1,2) by (rule fair_run_inv)
  have run1: "fair_run k db1" using run_allocate [OF run(1,3), of rounds0] alloc(1) by simp
  have inv: "rows_inv k db" using fair_run_inv [OF fair_later_run [OF later run1] run(2)] by (simp add: fair_inv_def)
  note row = allocateSeed_row [OF run(3,2) inv0 alloc(1)]
  have s: "s \<in> set (fd_seeds db1)" "fs_chainId s = fc_id c" "1 \<le> fs_index s"
    using nextUnusedSeed_Some [of rounds0 "fc_id c" db1 s] row by (auto simp: unused_seed_def)
  obtain n where n: "fs_index s = Suc n" using s(3) by (cases "fs_index s") auto
  have served: "c \<in> set (fd_chains db1)" "served_epoch c" using row by (simp_all add: served_epoch_def)
  obtain d xs where d: "d \<in> set (fd_chains db)" "epoch_core d = epoch_core c" "committed k db d xs" "Suc n < length xs"
    "fs_seed s = Some (xs ! Suc n)" "fs_id s = id_seed k (fc_epoch d) (Suc n)" and t0: "\<exists>t \<in> set (fd_seeds db). fs_id t = fs_id s"
    using later_seed [OF run1 run(2) later served s(1,2) n] by blast
  obtain t where t: "find (\<lambda>t. fs_id t = r_seedId r) (fd_seeds db) = Some t"
    using t0 r(2) by (cases "find (\<lambda>t. fs_id t = r_seedId r) (fd_seeds db)") (auto simp: find_None_iff)
  have t_in: "t \<in> set (fd_seeds db)" "fs_id t = fs_id s" using find_SomeD [OF t] r(2) by simp_all
  have tr: "fs_chainId t = fc_id d" "fs_index t = Suc n" "fs_seed t = Some (xs ! Suc n)"
    using chain_seed_row [OF inv run(2) d(1,3) t_in(1)] t_in(2) d(6) by simp_all
  have ch: "find (\<lambda>c. fc_id c = fs_chainId t) (fd_chains db) = Some d"
    using find_distinct [OF _ d(1), of fc_id] epochs_distinct_inv [OF inv run(2)] tr(1) by (simp add: epochs_distinct_def)
  obtain u where u: "prev_seed t db = Some u" "fs_seed u = Some (xs ! n)"
    using prev_seed_row [OF d(3) t_in(1) tr(1,2)] d(4) by auto
  have link: "verifyChainLink (id_sha k) (xs ! Suc n) (xs ! n)" using d(3,4) by (simp add: committed_def)
  then have "xs ! n \<noteq> []" using sha by (auto simp: verifyChainLink_def)
  moreover obtain salt where salt: "fc_salt c = Some salt" "computeCrash hmac (xs ! Suc n) salt = Some crash"
    using alloc(2) d(5) by (auto simp: crashForSeed_def split: option.splits)
  moreover have "(id_sha k ^^ Suc n) (xs ! Suc n) = fc_commitHash c"
    using hash_back [of xs "id_sha k" "Suc n"] d by (auto simp: committed_def epoch_core_def)
  moreover have "find (\<lambda>r. r_id r = to_lower i) rounds = Some r" using r(1) i(2) by simp
  moreover have "r_id r = i" using find_SomeD [OF r(1)] by simp
  ultimately show ?thesis
    using i(1) r(3) t ch u tr d(2) link rev [OF t_in] computeCrash_cents [OF salt(2)]
    by (simp add: round_route_def reveal_of_def verify_round_def epoch_core_def)
qed

definition demo_hmac :: "string \<Rightarrow> string \<Rightarrow> string" where
  "demo_hmac s t = ''8''"

definition shown_round :: "uid \<Rightarrow> int \<Rightarrow> round" where
  "shown_round i crash = \<lparr>r_id = uuid_a, r_seedId = i, r_crashPoint = crash, r_status = Completed, r_phaseEndsAt = None,
     r_startedAt = None, r_crashedAt = None, r_settledAt = None\<rparr>"

theorem reveal_verifies_witness:
  "\<exists>s c crash db v. fst (allocateSeed demo_env [] no_epochs) = Allocated s c \<and>
     revealSeed 5 (fs_id s) (snd (allocateSeed demo_env [] no_epochs)) = Inr db \<and>
     round_route (id_sha demo_ids) demo_hmac uuid_a [shown_round (fs_id s) (cents_of crash)] db =
       Inr (uuid_a, Completed, Reveal v) \<and> rv_matches v"
proof -
  obtain s c db1 where a: "allocateSeed demo_env [] no_epochs = (Allocated s c, db1)" by (rule demo_alloc)
  have "(case fst (allocateSeed demo_env [] no_epochs) of Allocated s c \<Rightarrow> fs_seed s \<noteq> None \<and> fc_salt c \<noteq> None | _ \<Rightarrow> False)"
    by code_simp
  moreover have "hex_value 0 ''8'' \<noteq> None" by code_simp
  then have "crashFromHmacHex (demo_hmac x y) \<noteq> None" for x y
    by (simp add: crashFromHmacHex_def demo_hmac_def)
  ultimately obtain crash where crash: "crashForSeed demo_hmac s c = Some crash"
    by (fastforce simp: a crashForSeed_def computeCrash_def)
  have run1: "fair_run demo_ids db1" using run_allocate [OF demo_run demo_env_of, of "[]"] by (simp add: a)
  have "s \<in> set (fd_seeds db1)"
    using allocateSeed_row [OF demo_env_of demo_ids_inj fair_run_inv [OF demo_run demo_ids_inj] a]
      nextUnusedSeed_Some [of "[]" "fc_id c" db1 s] by (simp add: unused_seed_def)
  then have "\<exists>db. revealSeed 5 (fs_id s) db1 = Inr db" unfolding revealSeed_def by auto
  then obtain db where r: "revealSeed 5 (fs_id s) db1 = Inr db" ..
  have "\<And>t. t \<in> set (fd_seeds db) \<Longrightarrow> fs_id t = fs_id s \<Longrightarrow> fs_revealedAt t \<noteq> None"
    using r by (auto simp: revealSeed_def update_where_def split: if_splits)
  moreover have "id_sha demo_ids x \<noteq> []" for x by (simp add: demo_ids_def)
  moreover have "find (\<lambda>r. r_id r = uuid_a) [shown_round (fs_id s) (cents_of crash)] = Some (shown_round (fs_id s) (cents_of crash))"
    by (simp add: shown_round_def)
  ultimately show ?thesis
    using reveal_verifies [OF demo_run demo_ids_inj demo_env_of _ a crash later_reveal [OF later_now r],
        of uuid_a "[shown_round (fs_id s) (cents_of crash)]" "shown_round (fs_id s) (cents_of crash)"] toy_keys_ok a r
    by (auto simp: shown_round_def)
qed

end
