(* ===== verification/VR_Provision.thy ===== *)
theory VR_Provision
  imports VR_Erasure
begin

text \<open>
  Onboarding of an operator (\<open>scripts/operator-provision.ts\<close>): the checked configuration, the upsert, the
  key rotation, the audit rows the script writes itself and its command line.

  A database write is atomic and the script is the only writer while it runs. The fresh secrets and the id
  a new row gets are arguments, and so are the URL parser (the protocol of a text, or \<open>None\<close>), the
  JSON parser and the file system. An audit insert may fail, per action, and is then ignored.
\<close>

section \<open>The checked input\<close>

record provision_row = operator_row +
  op_name :: string
  op_walletApiUrl :: "string option"
  op_walletApiKey :: "string option"

record provision_input =
  pi_code :: string
  pi_name :: "string option"
  pi_currencies :: "string list option"
  pi_walletApiUrl :: "string option"
  pi_walletApiKey :: "string option"
  pi_betLimits :: "json option"
  pi_rgConfig :: "json option"
  pi_ipWhitelist :: "string list option"
  pi_callbackUrl :: "string option"
  pi_enabled :: "bool option"
  pi_demoEnabled :: "bool option"
  pi_rotateSecret :: bool
  pi_rotateReportingKey :: bool
  pi_rotateWriteKey :: bool
  pi_strictCurrencies :: bool

datatype provision_error =
    Invalid_config
  | Key_collision string
  | Not_a_url string
  | Not_http string
  | Unknown_currencies "string list"
  | Usage
  | Unreadable

fun upperKeys :: "(string \<times> 'a) list \<Rightarrow> (string \<times> 'a) list \<Rightarrow> provision_error + (string \<times> 'a) list" where
  "upperKeys [] out = Inr out"
| "upperKeys ((k, v) # es) out =
     (let K = to_upper k
      in if K \<in> set (map fst out) then Inl (Key_collision K) else upperKeys es (out @ [(K, v)]))"

definition upperKeysRgLimits :: "rg_config \<Rightarrow> provision_error + rg_config" where
  "upperKeysRgLimits cfg =
     (case rk_limits cfg of
        None \<Rightarrow> Inr cfg
      | Some ls \<Rightarrow> map_sum id (\<lambda>us. cfg\<lparr>rk_limits := Some us\<rparr>) (upperKeys ls []))"

definition validateCallbackUrl :: "(string \<Rightarrow> string option) \<Rightarrow> string \<Rightarrow> provision_error option" where
  "validateCallbackUrl protocol u =
     (case protocol u of
        None \<Rightarrow> Some (Not_a_url u)
      | Some p \<Rightarrow> if p \<noteq> ''http:'' \<and> p \<noteq> ''https:'' then Some (Not_http u) else None)"

text \<open>What the schemas leave of a configuration is what is stored.\<close>

definition json_int :: "int \<Rightarrow> json" where
  "json_int n = JNum (of_int n)"

definition limits_json :: "per_bet_limits \<Rightarrow> json" where
  "limits_json l =
     JObj [(''minBet'', json_int (pb_minBet l)), (''maxBet'', json_int (pb_maxBet l)), (''maxWinPerBet'', json_int (pb_maxWinPerBet l))]"

definition bet_limits_json :: "(string \<times> per_bet_limits) list \<Rightarrow> json" where
  "bet_limits_json ls = JObj (map (map_prod id limits_json) ls)"

definition rg_money_json :: "rg_money \<Rightarrow> json" where
  "rg_money_json m =
     JObj (opt_entry ''maxSessionLoss'' json_int (rm_maxSessionLoss m) @ opt_entry ''maxSessionWager'' json_int (rm_maxSessionWager m))"

definition rg_config_json :: "rg_config \<Rightarrow> json" where
  "rg_config_json c =
     JObj (opt_entry ''realityCheckIntervalSec'' json_int (rk_realityCheckIntervalSec c) @
           opt_entry ''maxSessionSec'' json_int (rk_maxSessionSec c) @
           opt_entry ''enforceRealityCheck'' JBool (rk_enforceRealityCheck c) @
           opt_entry ''limits'' (\<lambda>ls. JObj (map (map_prod id rg_money_json) ls)) (rk_limits c))"

definition checked_limits :: "json option \<Rightarrow> provision_error + json option" where
  "checked_limits j =
     (case j of
        None \<Rightarrow> Inr None
      | Some j' \<Rightarrow> (case record_schema PerCurrencyLimitSchema j' of
            None \<Rightarrow> Inl Invalid_config
          | Some ls \<Rightarrow> map_sum id (\<lambda>us. Some (bet_limits_json us)) (upperKeys ls [])))"

definition checked_rg :: "json option \<Rightarrow> provision_error + json option" where
  "checked_rg j =
     (case j of
        None \<Rightarrow> Inr None
      | Some j' \<Rightarrow> (case RgConfigSchema j' of
            None \<Rightarrow> Inl Invalid_config
          | Some c \<Rightarrow> map_sum id (\<lambda>c'. Some (rg_config_json c')) (upperKeysRgLimits c)))"

definition isKnownCurrency :: "string option \<Rightarrow> bool" where
  "isKnownCurrency code \<longleftrightarrow> to_upper (text_or_empty code) \<in> set (map fst CURRENCIES)"

record checked =
  ck_betLimits :: "json option"
  ck_rgConfig :: "json option"
  ck_currencies :: "string list option"
  ck_unknown :: "string list"

definition checked_input :: "(string \<Rightarrow> string option) \<Rightarrow> provision_input \<Rightarrow> provision_error + checked" where
  "checked_input protocol x =
     (case checked_limits (pi_betLimits x) of
        Inl e \<Rightarrow> Inl e
      | Inr betLimits \<Rightarrow>
          (case checked_rg (pi_rgConfig x) of
             Inl e \<Rightarrow> Inl e
           | Inr rgConfig \<Rightarrow>
               (case Option.bind (pi_callbackUrl x) (validateCallbackUrl protocol) of
                  Some e \<Rightarrow> Inl e
                | None \<Rightarrow>
                    let currencies = map_option (map to_upper) (pi_currencies x);
                        unknown = filter (\<lambda>c. \<not> isKnownCurrency (Some c)) (case currencies of None \<Rightarrow> [] | Some cs \<Rightarrow> cs)
                    in if pi_strictCurrencies x \<and> unknown \<noteq> [] then Inl (Unknown_currencies unknown)
                       else Inr \<lparr>ck_betLimits = betLimits, ck_rgConfig = rgConfig, ck_currencies = currencies,
                                 ck_unknown = unknown\<rparr>)))"

section \<open>The rows\<close>

record provision_env =
  pe_hashes :: hashes
  pe_pepper :: "string option"
  pe_protocol :: "string \<Rightarrow> string option"
  pe_newId :: uid
  pe_newSecret :: string
  pe_readSecret :: string
  pe_writeSecret :: string
  pe_audit_fails :: "string \<Rightarrow> bool"

record provision_db =
  pd_operators :: "provision_row list"
  pd_audit :: "audit_event list"

definition keep_or :: "'a option \<Rightarrow> 'a \<Rightarrow> 'a" where
  "keep_or new old = (case new of Some v \<Rightarrow> v | None \<Rightarrow> old)"

definition created_row :: "provision_env \<Rightarrow> provision_input \<Rightarrow> checked \<Rightarrow> provision_row" where
  "created_row env x ck =
     \<lparr>op_id = pe_newId env, op_code = pi_code x, op_enabled = keep_or (pi_enabled x) True,
      op_demoEnabled = keep_or (pi_demoEnabled x) False, op_launchSecret = pe_newSecret env,
      op_currencies = keep_or (ck_currencies ck) [], op_callbackUrl = pi_callbackUrl x,
      op_ipWhitelist = keep_or (pi_ipWhitelist x) [], op_betLimits = ck_betLimits ck, op_rgConfig = ck_rgConfig ck,
      op_reportingApiKeyHash = None, op_writeApiKeyHash = None, op_name = keep_or (pi_name x) (pi_code x),
      op_walletApiUrl = pi_walletApiUrl x, op_walletApiKey = pi_walletApiKey x\<rparr>"

definition patched_row :: "provision_env \<Rightarrow> provision_input \<Rightarrow> checked \<Rightarrow> provision_row \<Rightarrow> provision_row" where
  "patched_row env x ck r = r
     \<lparr>op_name := keep_or (pi_name x) (op_name r), op_currencies := keep_or (ck_currencies ck) (op_currencies r),
      op_walletApiUrl := keep_or (map_option Some (pi_walletApiUrl x)) (op_walletApiUrl r),
      op_walletApiKey := keep_or (map_option Some (pi_walletApiKey x)) (op_walletApiKey r),
      op_callbackUrl := keep_or (map_option Some (pi_callbackUrl x)) (op_callbackUrl r),
      op_ipWhitelist := keep_or (pi_ipWhitelist x) (op_ipWhitelist r),
      op_betLimits := keep_or (map_option Some (ck_betLimits ck)) (op_betLimits r),
      op_rgConfig := keep_or (map_option Some (ck_rgConfig ck)) (op_rgConfig r),
      op_enabled := keep_or (pi_enabled x) (op_enabled r),
      op_demoEnabled := keep_or (pi_demoEnabled x) (op_demoEnabled r),
      op_launchSecret := (if pi_rotateSecret x then pe_newSecret env else op_launchSecret r)\<rparr>"

text \<open>The script's own audit writer, which neither scrubs nor throws.\<close>

definition recordAudit ::
  "provision_env \<Rightarrow> string \<Rightarrow> uid \<Rightarrow> json option \<Rightarrow> json option \<Rightarrow> provision_db \<Rightarrow> provision_db" where
  "recordAudit env action targetId after meta db =
     (if pe_audit_fails env action then db
      else db\<lparr>pd_audit := pd_audit db @
        [\<lparr>ae_actor = ''provision-cli'', ae_action = action, ae_targetType = Some ''operator'', ae_targetId = Some targetId,
          ae_operatorId = Some targetId, ae_ip = None, ae_before = None, ae_after = after, ae_meta = meta\<rparr>]\<rparr>)"

definition texts :: "string list \<Rightarrow> json" where
  "texts ss = JArr (map JStr ss)"

definition created_audit :: "provision_row \<Rightarrow> json" where
  "created_audit r =
     JObj [(''code'', JStr (op_code r)), (''name'', JStr (op_name r)), (''enabled'', JBool (op_enabled r)),
           (''demoEnabled'', JBool (op_demoEnabled r)), (''currencies'', texts (op_currencies r)),
           (''walletApiSet'', JBool (truthy (op_walletApiKey r) \<noteq> None))]"

definition sanitizedPatch :: "provision_input \<Rightarrow> checked \<Rightarrow> json" where
  "sanitizedPatch x ck =
     JObj (opt_entry ''name'' JStr (pi_name x) @ opt_entry ''currencies'' texts (ck_currencies ck) @
           opt_entry ''walletApiUrl'' JStr (pi_walletApiUrl x) @
           opt_entry ''walletApiKey'' (\<lambda>k. JStr (if k \<noteq> [] then ''(set)'' else ''(cleared)'')) (pi_walletApiKey x) @
           opt_entry ''callbackUrl'' JStr (pi_callbackUrl x) @ opt_entry ''ipWhitelist'' texts (pi_ipWhitelist x) @
           opt_entry ''betLimits'' id (ck_betLimits ck) @ opt_entry ''rgConfig'' id (ck_rgConfig ck) @
           opt_entry ''enabled'' JBool (pi_enabled x) @ opt_entry ''demoEnabled'' JBool (pi_demoEnabled x) @
           (if pi_rotateSecret x then [(''launchSecretRotated'', JBool True)] else []))"

definition hash_prefix :: "string \<Rightarrow> string" where
  "hash_prefix h = (case index_of CHR '':'' h of None \<Rightarrow> ''(unknown)'' | Some n \<Rightarrow> take n h @ '':'')"

definition rotate_key ::
  "provision_env \<Rightarrow> string \<Rightarrow> (string option \<Rightarrow> provision_row \<Rightarrow> provision_row) \<Rightarrow> string \<times> string \<Rightarrow> provision_row \<Rightarrow>
   provision_db \<Rightarrow> provision_db" where
  "rotate_key env action put key r db =
     recordAudit env action (op_id r)
       None (Some (JObj [(''code'', JStr (op_code r)), (''hashPrefix'', JStr (hash_prefix (snd key)))]))
       (db\<lparr>pd_operators := update_where (\<lambda>o'. op_id o' = op_id r) (put (Some (snd key))) (pd_operators db)\<rparr>)"

record provisioned =
  pv_operator :: provision_row
  pv_created :: bool
  pv_launchSecret :: "string option"
  pv_reportingApiKey :: "string option"
  pv_writeApiKey :: "string option"
  pv_unknownCurrencies :: "string list"

definition upsert_operator :: "provision_env \<Rightarrow> provision_input \<Rightarrow> checked \<Rightarrow> provision_db \<Rightarrow> provision_row \<times> bool \<times> provision_db" where
  "upsert_operator env x ck db =
     (case find (\<lambda>r. op_code r = pi_code x) (pd_operators db) of
        None \<Rightarrow> (let r = created_row env x ck in (r, True, db\<lparr>pd_operators := pd_operators db @ [r]\<rparr>))
      | Some r \<Rightarrow>
          (patched_row env x ck r, False,
           db\<lparr>pd_operators := update_where (\<lambda>o'. op_code o' = pi_code x) (patched_row env x ck) (pd_operators db)\<rparr>))"

definition provisionOperator ::
  "provision_env \<Rightarrow> provision_input \<Rightarrow> provision_db \<Rightarrow> (provision_error + provisioned) \<times> provision_db" where
  "provisionOperator env x db =
     (case checked_input (pe_protocol env) x of
        Inl e \<Rightarrow> (Inl e, db)
      | Inr ck \<Rightarrow>
          let (r, created, db1) = upsert_operator env x ck db;
              db2 = recordAudit env (if created then ''operator.provision'' else ''operator.config_update'') (op_id r)
                      (Some (if created then created_audit r else sanitizedPatch x ck))
                      (Some (JObj [(''code'', JStr (op_code r)), (''unknownCurrencies'', texts (ck_unknown ck))])) db1;
              readKey = generateReportingKey (pe_hashes env) (pe_pepper env) (pe_readSecret env) (op_id r);
              db3 = (if pi_rotateReportingKey x
                     then rotate_key env ''reporting_key.rotate'' (\<lambda>h o'. o'\<lparr>op_reportingApiKeyHash := h\<rparr>) readKey r db2 else db2);
              writeKey = generateWriteKey (pe_hashes env) (pe_pepper env) (pe_writeSecret env) (op_id r);
              db4 = (if pi_rotateWriteKey x
                     then rotate_key env ''write_key.rotate'' (\<lambda>h o'. o'\<lparr>op_writeApiKeyHash := h\<rparr>) writeKey r db3 else db3)
          in (Inr \<lparr>pv_operator = r, pv_created = created,
                   pv_launchSecret = (if created \<or> pi_rotateSecret x then Some (op_launchSecret r) else None),
                   pv_reportingApiKey = (if pi_rotateReportingKey x then Some (fst readKey) else None),
                   pv_writeApiKey = (if pi_rotateWriteKey x then Some (fst writeKey) else None),
                   pv_unknownCurrencies = ck_unknown ck\<rparr>, db4))"

section \<open>The command line\<close>

definition arg_list :: "(string \<times> cli_value) list \<Rightarrow> string \<Rightarrow> string list option" where
  "arg_list args k = map_option (\<lambda>v. filter (\<lambda>s. s \<noteq> []) (map js_trim (split_on CHR '','' v))) (arg_text args k)"

definition arg_flag :: "(string \<times> cli_value) list \<Rightarrow> string \<Rightarrow> bool" where
  "arg_flag args k \<longleftrightarrow> map_of (rev args) k = Some Flag"

record cli_env =
  ce_read :: "string \<Rightarrow> string option"
  ce_parse :: "string \<Rightarrow> json option"

definition arg_json :: "cli_env \<Rightarrow> (string \<times> cli_value) list \<Rightarrow> string \<Rightarrow> provision_error + json option" where
  "arg_json ce args k =
     (case truthy (arg_text args k) of
        None \<Rightarrow> Inr None
      | Some v \<Rightarrow>
          (case Option.bind (if starts_with v ''@'' then ce_read ce (drop 1 v) else Some v) (ce_parse ce) of
             None \<Rightarrow> Inl Unreadable | Some j \<Rightarrow> Inr (Some j)))"

definition cli_input :: "cli_env \<Rightarrow> string list \<Rightarrow> provision_error + provision_input" where
  "cli_input ce argv =
     (let args = parseArgs argv
      in case truthy (arg_text args ''code'') of
           None \<Rightarrow> Inl Usage
         | Some code \<Rightarrow>
             (case arg_json ce args ''bet-limits'' of
                Inl e \<Rightarrow> Inl e
              | Inr betLimits \<Rightarrow>
                  (case arg_json ce args ''rg-config'' of
                     Inl e \<Rightarrow> Inl e
                   | Inr rgConfig \<Rightarrow> Inr
                       \<lparr>pi_code = code, pi_name = arg_text args ''name'', pi_currencies = arg_list args ''currencies'',
                        pi_walletApiUrl = arg_text args ''wallet-url'', pi_walletApiKey = arg_text args ''wallet-key'',
                        pi_betLimits = betLimits, pi_rgConfig = rgConfig, pi_ipWhitelist = arg_list args ''ip-whitelist'',
                        pi_callbackUrl = arg_text args ''callback-url'',
                        pi_enabled = (case map_of (rev args) ''disabled'' of
                                        None \<Rightarrow> None | Some (Value []) \<Rightarrow> None | Some _ \<Rightarrow> Some False),
                        pi_demoEnabled = (if arg_flag args ''demo-enabled'' then Some True
                                          else if arg_flag args ''demo-disabled'' then Some False else None),
                        pi_rotateSecret = arg_flag args ''rotate-secret'',
                        pi_rotateReportingKey = arg_flag args ''rotate-reporting-key'',
                        pi_rotateWriteKey = arg_flag args ''rotate-write-key'',
                        pi_strictCurrencies = arg_flag args ''strict-currencies''\<rparr>)))"

definition operator_provision ::
  "cli_env \<Rightarrow> provision_env \<Rightarrow> string list \<Rightarrow> provision_db \<Rightarrow> (provision_error + provisioned) \<times> provision_db" where
  "operator_provision ce env argv db =
     (case cli_input ce argv of Inl e \<Rightarrow> (Inl e, db) | Inr x \<Rightarrow> provisionOperator env x db)"

section \<open>What is written and what resolves\<close>

lemma map_sum_Inr: "map_sum id f x = Inr y \<longleftrightarrow> (\<exists>z. x = Inr z \<and> y = f z)"
  by (cases x) auto

lemma upperKeys_out:
  assumes "upperKeys ls out = Inr us"
  shows "us = out @ map (map_prod to_upper id) ls \<and> (distinct (map fst out) \<longrightarrow> distinct (map fst us))"
  using assms
proof (induction ls out arbitrary: us rule: upperKeys.induct)
  case (2 k v es out)
  then show ?case by (auto simp: Let_def split: if_splits)
qed simp

lemma upperKeys_Inr:
  assumes "upperKeys ls [] = Inr us"
  shows "us = map (map_prod to_upper id) ls" "distinct (map fst us)"
  using upperKeys_out [OF assms, THEN conjunct1] upperKeys_out [OF assms, THEN conjunct2] by simp_all

lemma opt_entry_field: "map_of (opt_entry k f v @ fs) x = (if x = k \<and> v \<noteq> None then map_option f v else map_of fs x)"
  by (cases v) (auto simp: opt_entry_def)

lemma opt_entry_last: "map_of (opt_entry k f v) x = (if x = k then map_option f v else None)"
  by (cases v) (simp_all add: opt_entry_def)

lemmas opt_entries = opt_entry_field opt_entry_last

lemma lookup_upper [simp]: "lookup_currency (map (map_prod to_upper id) ls) c = lookup_currency ls c"
  by (induction ls) auto

lemma lookup_first:
  assumes "distinct (map fst (map (map_prod to_upper id) ls))" "(k, v) \<in> set ls"
  shows "lookup_currency ls (to_upper k) = Some v"
  using assms
proof (induction ls)
  case (Cons e ls)
  then show ?case by (cases e) (auto intro: rev_image_eqI)
qed simp

lemma limits_json_back:
  assumes "PerCurrencyLimitSchema j = Some l"
  shows "PerCurrencyLimitSchema (limits_json l) = Some l"
proof -
  have "0 \<le> pb_minBet l" "0 < pb_maxBet l" "0 < pb_maxWinPerBet l" "pb_minBet l \<le> pb_maxBet l" "pb_maxBet l \<le> pb_maxWinPerBet l"
    using assms by (auto simp: PerCurrencyLimitSchema_def dest: int_fieldD split: option.splits if_splits)
  then show ?thesis by (simp add: PerCurrencyLimitSchema_def limits_json_def int_field_def json_int_def)
qed

lemma opt_int_back:
  assumes "opt_int_field j k ok = Inr v" "map_of fs k = map_option json_int v"
  shows "opt_int_field (JObj fs) k ok = Inr v"
proof (cases v)
  case (Some n)
  then have "ok n" using assms(1) by (simp add: opt_int_fieldD)
  then show ?thesis using assms(2) Some by (simp add: opt_int_field_def int_field_def json_int_def)
qed (use assms(2) in \<open>simp add: opt_int_field_def\<close>)

lemma rg_money_back:
  assumes "PerCurrencyRgLimitSchema j = Some m"
  shows "PerCurrencyRgLimitSchema (rg_money_json m) = Some m"
proof -
  obtain a b where ab: "opt_int_field j ''maxSessionLoss'' (\<lambda>n. 0 < n) = Inr a"
    "opt_int_field j ''maxSessionWager'' (\<lambda>n. 0 < n) = Inr b" "m = \<lparr>rm_maxSessionLoss = a, rm_maxSessionWager = b\<rparr>"
    using assms by (auto simp: PerCurrencyRgLimitSchema_def split: json.splits sum.splits)
  have "opt_int_field (rg_money_json m) ''maxSessionLoss'' (\<lambda>n. 0 < n) = Inr a"
    "opt_int_field (rg_money_json m) ''maxSessionWager'' (\<lambda>n. 0 < n) = Inr b"
    unfolding rg_money_json_def
    by (rule opt_int_back [OF ab(1)] opt_int_back [OF ab(2)]; simp add: ab(3) opt_entries del: map_of_append map_of_opt_entry)+
  then show ?thesis by (simp add: PerCurrencyRgLimitSchema_def ab(3) rg_money_json_def)
qed

lemma record_back:
  assumes "record_entries f fs = Some ls" "\<And>j x. f j = Some x \<Longrightarrow> f (w x) = Some x"
  shows "record_entries f (map (map_prod to_upper w) ls) = Some (map (map_prod to_upper id) ls)"
  using assms(1)
proof (induction fs arbitrary: ls)
  case (Cons e fs)
  then show ?case using assms(2) by (cases e) (auto simp: to_upper_def split: if_splits option.splits)
qed simp

lemma record_entries_member: "record_entries f fs = Some ls \<Longrightarrow> (k, j) \<in> set fs \<Longrightarrow> \<exists>x. f j = Some x \<and> (k, x) \<in> set ls"
  by (induction fs arbitrary: ls) (auto split: if_splits option.splits)

lemma record_schema_back:
  assumes "record_schema f j = Some ls" "upperKeys ls [] = Inr us" "\<And>j x. f j = Some x \<Longrightarrow> f (w x) = Some x"
  shows "record_schema f (JObj (map (map_prod id w) us)) = Some us"
proof (cases j)
  case (JObj fs)
  then have "record_entries f (map (map_prod to_upper w) ls) = Some (map (map_prod to_upper id) ls)"
    using assms(1) by (intro record_back [OF _ assms(3)]) simp_all
  then show ?thesis by (simp add: upperKeys_Inr(1) [OF assms(2)] map_prod.comp)
qed (use assms(1) in simp_all)

lemma checked_limits_resolve:
  assumes "checked_limits (Some j) = Inr stored"
  shows "effectiveLimitsFor stored c = effectiveLimitsFor (Some j) c"
proof -
  obtain ls us where ls: "record_schema PerCurrencyLimitSchema j = Some ls" "upperKeys ls [] = Inr us"
    "stored = Some (bet_limits_json us)"
    using assms by (auto simp: checked_limits_def map_sum_Inr split: option.splits)
  have "record_schema PerCurrencyLimitSchema (bet_limits_json us) = Some us"
    unfolding bet_limits_json_def by (rule record_schema_back [OF ls(1,2) limits_json_back])
  then show ?thesis
    using ls upperKeys_Inr(1) [OF ls(2)]
    by (cases j) (simp_all add: effectiveLimitsFor_def parseBetLimits_def bet_limits_json_def)
qed

text \<open>The keys of a responsible-gambling configuration come out in the order of the schema.\<close>

lemma rg_config_fields:
  "map_of (opt_entry ''realityCheckIntervalSec'' f a @ opt_entry ''maxSessionSec'' f b @
     opt_entry ''enforceRealityCheck'' g c @ opt_entry ''limits'' h d) k =
   (if k = ''realityCheckIntervalSec'' then map_option f a else if k = ''maxSessionSec'' then map_option f b
    else if k = ''enforceRealityCheck'' then map_option g c else if k = ''limits'' then map_option h d else None)"
  by (simp add: opt_entries del: map_of_append map_of_opt_entry)

lemma rg_config_back:
  assumes "RgConfigSchema j = Some c" "upperKeysRgLimits c = Inr c'"
  shows "RgConfigSchema (rg_config_json c') = Some c'"
proof -
  obtain fs where j: "j = JObj fs" using assms(1) by (cases j) (simp_all add: RgConfigSchema_def)
  define ls where "ls = (case jget j ''limits'' of None \<Rightarrow> Some None
     | Some l \<Rightarrow> map_option Some (record_schema PerCurrencyRgLimitSchema l))"
  have f: "opt_int_field j ''realityCheckIntervalSec'' (\<lambda>n. MIN_TIME_SEC \<le> n \<and> n \<le> MAX_REALITY_CHECK_INTERVAL_SEC) =
      Inr (rk_realityCheckIntervalSec c)"
    "opt_int_field j ''maxSessionSec'' (\<lambda>n. MIN_TIME_SEC \<le> n \<and> n \<le> MAX_SESSION_SEC) = Inr (rk_maxSessionSec c)"
    "ls = Some (rk_limits c)"
    using assms(1) unfolding RgConfigSchema_def j ls_def
    by (auto split: if_splits sum.splits option.splits)
  have same: "rk_realityCheckIntervalSec c' = rk_realityCheckIntervalSec c" "rk_maxSessionSec c' = rk_maxSessionSec c"
    using assms(2) by (auto simp: upperKeysRgLimits_def map_sum_Inr split: option.splits)
  have l: "record_schema PerCurrencyRgLimitSchema (JObj (map (map_prod id rg_money_json) us)) = Some us"
    if us: "rk_limits c' = Some us" for us
  proof -
    obtain ms where ms: "rk_limits c = Some ms" "upperKeys ms [] = Inr us"
      using assms(2) us by (auto simp: upperKeysRgLimits_def map_sum_Inr split: option.splits)
    then obtain l where "record_schema PerCurrencyRgLimitSchema l = Some ms"
      using f(3) by (auto simp: ls_def split: option.splits)
    then show ?thesis by (rule record_schema_back [OF _ ms(2) rg_money_back])
  qed
  have "opt_int_field (rg_config_json c') ''realityCheckIntervalSec'' (\<lambda>n. MIN_TIME_SEC \<le> n \<and> n \<le> MAX_REALITY_CHECK_INTERVAL_SEC) =
      Inr (rk_realityCheckIntervalSec c')"
    "opt_int_field (rg_config_json c') ''maxSessionSec'' (\<lambda>n. MIN_TIME_SEC \<le> n \<and> n \<le> MAX_SESSION_SEC) = Inr (rk_maxSessionSec c')"
    unfolding rg_config_json_def same
    by (rule opt_int_back [OF f(1)] opt_int_back [OF f(2)]; simp add: rg_config_fields same del: map_of_append map_of_opt_entry)+
  moreover obtain F where F: "rg_config_json c' = JObj F" by (simp add: rg_config_json_def)
  moreover have "list_all (\<lambda>f. fst f \<in> set RG_KEYS) F"
    using F by (auto simp: rg_config_json_def opt_entry_def RG_KEYS_def split: option.split)
  moreover have "(case jget (rg_config_json c') ''enforceRealityCheck'' of None \<Rightarrow> Some None
      | Some (JBool b) \<Rightarrow> Some (Some b) | _ \<Rightarrow> None) = Some (rk_enforceRealityCheck c')"
    by (cases "rk_enforceRealityCheck c'") (simp_all add: rg_config_json_def rg_config_fields del: map_of_append map_of_opt_entry)
  moreover have "(case jget (rg_config_json c') ''limits'' of None \<Rightarrow> Some None
      | Some l \<Rightarrow> map_option Some (record_schema PerCurrencyRgLimitSchema l)) = Some (rk_limits c')"
    by (cases "rk_limits c'") (simp_all add: rg_config_json_def rg_config_fields l del: map_of_append map_of_opt_entry record_schema.simps)
  ultimately show ?thesis unfolding RgConfigSchema_def F json.case by simp
qed

lemma checked_rg_resolve:
  assumes "checked_rg (Some j) = Inr stored"
  shows "effectiveRgFor stored c = effectiveRgFor (Some j) c"
proof -
  obtain a b where a: "RgConfigSchema j = Some a" "upperKeysRgLimits a = Inr b" "stored = Some (rg_config_json b)"
    using assms by (auto simp: checked_rg_def map_sum_Inr split: option.splits)
  have j: "parseRgConfig (Some j) = Some a" "parseRgConfig stored = Some b"
    using a rg_config_back [OF a(1,2)] by (cases j; simp add: parseRgConfig_def rg_config_json_def RgConfigSchema_def)+
  have "rk_limits b = map_option (map (map_prod to_upper id)) (rk_limits a) \<and> b = a\<lparr>rk_limits := rk_limits b\<rparr>"
    using a(2) by (auto simp: upperKeysRgLimits_def map_sum_Inr dest: upperKeys_Inr(1) split: option.splits)
  then show ?thesis
    unfolding effectiveRgFor_def j option.case
    by (cases "rk_limits a"; cases a; cases b) (simp_all add: Let_def)
qed

section \<open>The stored row\<close>

lemma find_update_where:
  assumes "\<And>o'. P (f o') = P o'"
  shows "find P (update_where Q f xs) = map_option (\<lambda>o'. if Q o' then f o' else o') (find P xs)"
  using assms by (induction xs) (auto simp: update_where_def)

lemma recordAudit_operators [simp]: "pd_operators (recordAudit env action i after meta db) = pd_operators db"
  by (simp add: recordAudit_def)

definition hashes_put :: "provision_env \<Rightarrow> provision_input \<Rightarrow> uid \<Rightarrow> provision_row \<Rightarrow> provision_row" where
  "hashes_put env x i r =
     (if op_id r \<noteq> i then r
      else r\<lparr>op_reportingApiKeyHash := if pi_rotateReportingKey x then Some (hashSecret (pe_hashes env) (pe_pepper env) (pe_readSecret env))
                                     else op_reportingApiKeyHash r,
             op_writeApiKeyHash := if pi_rotateWriteKey x then Some (hashSecret (pe_hashes env) (pe_pepper env) (pe_writeSecret env))
                                   else op_writeApiKeyHash r\<rparr>)"

lemma hashes_put_frame [simp]:
  "op_id (hashes_put env x i r) = op_id r" "op_code (hashes_put env x i r) = op_code r"
  "op_enabled (hashes_put env x i r) = op_enabled r" "op_ipWhitelist (hashes_put env x i r) = op_ipWhitelist r"
  "op_betLimits (hashes_put env x i r) = op_betLimits r" "op_rgConfig (hashes_put env x i r) = op_rgConfig r"
  by (simp_all add: hashes_put_def)

lemma hashes_put_none: "\<not> pi_rotateReportingKey x \<Longrightarrow> \<not> pi_rotateWriteKey x \<Longrightarrow> hashes_put env x i = (\<lambda>r. r)"
  by (rule ext) (simp add: hashes_put_def)

lemma provision_Inr:
  assumes "provisionOperator env x db = (Inr v, db')"
  obtains ck db1 where "checked_input (pe_protocol env) x = Inr ck" "upsert_operator env x ck db = (pv_operator v, pv_created v, db1)"
    "pd_operators db' = map (hashes_put env x (op_id (pv_operator v))) (pd_operators db1)"
proof -
  obtain ck where ck: "checked_input (pe_protocol env) x = Inr ck"
    using assms by (auto simp: provisionOperator_def split: sum.splits)
  obtain r created db1 where up: "upsert_operator env x ck db = (r, created, db1)" by (cases "upsert_operator env x ck db")
  have v: "pv_operator v = r" "pv_created v = created"
    using assms by (auto simp: provisionOperator_def ck up Let_def)
  have db': "db' = snd (provisionOperator env x db)" using assms by simp
  have ops: "pd_operators db' = map (hashes_put env x (op_id r)) (pd_operators db1)"
    unfolding db' provisionOperator_def ck
    by (cases "pi_rotateReportingKey x"; cases "pi_rotateWriteKey x")
      (simp_all add: up hashes_put_none hashes_put_def Let_def rotate_key_def update_where_def generateReportingKey_def generateWriteKey_def)
  show thesis using that ck up ops v by blast
qed

lemma upsert_row:
  assumes "upsert_operator env x ck db = (r, created, db1)"
  shows "find (\<lambda>o'. op_code o' = pi_code x) (pd_operators db1) = Some r"
proof (cases "find (\<lambda>o'. op_code o' = pi_code x) (pd_operators db)")
  case None
  then show ?thesis
    using assms by (auto simp: upsert_operator_def Let_def find_append created_row_def)
next
  case (Some o')
  then have "op_code o' = pi_code x" by (auto dest: find_SomeD)
  then show ?thesis
    using assms Some by (auto simp: upsert_operator_def find_update_where patched_row_def)
qed

lemma provisioned_row:
  assumes "provisionOperator env x db = (Inr v, db')"
  shows "find (\<lambda>o'. op_code o' = pi_code x) (pd_operators db') = Some (hashes_put env x (op_id (pv_operator v)) (pv_operator v))"
proof -
  obtain ck db1 where c: "upsert_operator env x ck db = (pv_operator v, pv_created v, db1)"
    "pd_operators db' = map (hashes_put env x (op_id (pv_operator v))) (pd_operators db1)"
    using provision_Inr [OF assms] by blast
  then show ?thesis
    using find_update_where [of "\<lambda>o'. op_code o' = pi_code x" "hashes_put env x (op_id (pv_operator v))" "\<lambda>_. True" "pd_operators db1"]
      upsert_row [OF c(1)]
    by (simp add: update_where_def)
qed

lemma checked_input_Inr:
  assumes "checked_input protocol x = Inr ck"
  shows "checked_limits (pi_betLimits x) = Inr (ck_betLimits ck)" "checked_rg (pi_rgConfig x) = Inr (ck_rgConfig ck)"
proof -
  obtain b g where bg: "checked_limits (pi_betLimits x) = Inr b" "checked_rg (pi_rgConfig x) = Inr g"
    using assms by (cases "checked_limits (pi_betLimits x)"; cases "checked_rg (pi_rgConfig x)") (simp_all add: checked_input_def)
  moreover have "ck_betLimits ck = b \<and> ck_rgConfig ck = g"
    using assms unfolding checked_input_def bg
    by (cases "Option.bind (pi_callbackUrl x) (validateCallbackUrl protocol)") (auto simp: Let_def split: if_splits)
  ultimately show "checked_limits (pi_betLimits x) = Inr (ck_betLimits ck)" "checked_rg (pi_rgConfig x) = Inr (ck_rgConfig ck)"
    by simp_all
qed

lemma checked_given:
  "checked_limits (Some j) = Inr s \<Longrightarrow> s \<noteq> None" "checked_rg (Some j) = Inr s \<Longrightarrow> s \<noteq> None"
  by (auto simp: checked_limits_def checked_rg_def map_sum_Inr split: option.splits)

lemma upsert_config:
  assumes "upsert_operator env x ck db = (r, created, db1)"
  shows "ck_betLimits ck \<noteq> None \<Longrightarrow> op_betLimits r = ck_betLimits ck" "ck_rgConfig ck \<noteq> None \<Longrightarrow> op_rgConfig r = ck_rgConfig ck"
proof -
  have "r = created_row env x ck \<or> (\<exists>o'. r = patched_row env x ck o')"
    using assms by (auto simp: upsert_operator_def Let_def split: option.splits)
  then show "ck_betLimits ck \<noteq> None \<Longrightarrow> op_betLimits r = ck_betLimits ck" "ck_rgConfig ck \<noteq> None \<Longrightarrow> op_rgConfig r = ck_rgConfig ck"
    by (auto simp: created_row_def patched_row_def keep_or_def)
qed

text \<open>
  C30. What provisioning stores is what players get. When it accepts a configuration, every currency of the
  file is valid and its limits are exactly those the game later resolves for that currency, however its
  code is written, since no second spelling of the code can shadow them; the responsible-gambling controls
  the game resolves are those the file as written stands for.
\<close>

theorem provisioned_limits_apply:
  assumes prov: "provisionOperator env x db = (Inr v, db')"
    and limits: "pi_betLimits x = Some (JObj fs)" "(k, j) \<in> set fs" "to_upper c = to_upper k" and rg: "pi_rgConfig x = Some g"
  shows "\<exists>r l. find (\<lambda>o'. op_code o' = pi_code x) (pd_operators db') = Some r \<and>
    PerCurrencyLimitSchema j = Some l \<and> effectiveLimitsFor (op_betLimits r) c = Some l \<and>
    effectiveRgFor (op_rgConfig r) c = effectiveRgFor (Some g) c"
proof -
  obtain ck db1 where ck: "checked_input (pe_protocol env) x = Inr ck" "upsert_operator env x ck db = (pv_operator v, pv_created v, db1)"
    using provision_Inr [OF prov] by blast
  note stored = checked_input_Inr [OF ck(1)]
  let ?r = "hashes_put env x (op_id (pv_operator v)) (pv_operator v)"
  have r: "op_betLimits ?r = ck_betLimits ck" "op_rgConfig ?r = ck_rgConfig ck"
    using upsert_config [OF ck(2)] checked_given stored limits(1) rg by simp_all
  obtain ls us where ls: "record_entries PerCurrencyLimitSchema fs = Some ls" "upperKeys ls [] = Inr us"
    using stored(1) limits(1) by (auto simp: checked_limits_def map_sum_Inr split: option.splits)
  obtain l where l: "PerCurrencyLimitSchema j = Some l" "(k, l) \<in> set ls"
    using record_entries_member [OF ls(1) limits(2)] by blast
  have "effectiveLimitsFor (op_betLimits ?r) c = effectiveLimitsFor (Some (JObj fs)) c"
    using checked_limits_resolve stored(1) limits(1) unfolding r by simp
  also have "\<dots> = Some l"
    using lookup_first [OF _ l(2)] upperKeys_Inr [OF ls(2)] limits(3) by (simp add: effectiveLimitsFor_def parseBetLimits_def ls(1))
  finally show ?thesis
    using provisioned_row [OF prov] l(1) checked_rg_resolve [of g "op_rgConfig ?r"] stored(2) rg r(2)
    by (simp del: hashes_put_frame)
qed

section \<open>Keys and secrets\<close>

definition own_ids :: "provision_env \<Rightarrow> provision_db \<Rightarrow> bool" where
  "own_ids env db \<longleftrightarrow> distinct (map op_id (pd_operators db)) \<and> pe_newId env \<notin> set (map op_id (pd_operators db)) \<and>
     list_all (\<lambda>i. is_uuid i \<and> to_lower i = i) (pe_newId env # map op_id (pd_operators db))"

definition guard_rows :: "provision_db \<Rightarrow> operator_row list" where
  "guard_rows db = map operator_row.truncate (pd_operators db)"

lemma truncate_fields [simp]:
  "op_id (operator_row.truncate r) = op_id r" "op_enabled (operator_row.truncate r) = op_enabled r"
  "op_ipWhitelist (operator_row.truncate r) = op_ipWhitelist r"
  "op_reportingApiKeyHash (operator_row.truncate r) = op_reportingApiKeyHash r"
  "op_writeApiKeyHash (operator_row.truncate r) = op_writeApiKeyHash r"
  by (simp_all add: operator_row.truncate_def)

lemma upsert_ids:
  assumes "own_ids env db" "upsert_operator env x ck db = (r, created, db1)"
  shows "distinct (map op_id (pd_operators db1)) \<and> r \<in> set (pd_operators db1) \<and> is_uuid (op_id r) \<and> to_lower (op_id r) = op_id r"
proof (cases "find (\<lambda>o'. op_code o' = pi_code x) (pd_operators db)")
  case None
  then have "pd_operators db1 = pd_operators db @ [r]" "op_id r = pe_newId env"
    using assms(2) by (auto simp: upsert_operator_def Let_def created_row_def)
  then show ?thesis using assms(1) by (simp add: own_ids_def)
next
  case (Some o')
  then have o': "o' \<in> set (pd_operators db)" "op_code o' = pi_code x" by (auto dest: find_SomeD)
  have up: "r = patched_row env x ck o'"
    "pd_operators db1 = update_where (\<lambda>o'. op_code o' = pi_code x) (patched_row env x ck) (pd_operators db)"
    using assms(2) Some by (auto simp: upsert_operator_def)
  have "map op_id (pd_operators db1) = map op_id (pd_operators db)"
    unfolding up update_where_def by (simp add: patched_row_def)
  moreover have "r \<in> set (pd_operators db1)" unfolding up using o' by (auto simp: update_where_def)
  moreover have "op_id r = op_id o'" unfolding up by (simp add: patched_row_def)
  ultimately show ?thesis using assms(1) o'(1) by (auto simp: own_ids_def list_all_iff)
qed

text \<open>The keys it prints are the keys the guards accept, for the operator it was run for.\<close>

theorem provisioned_keys_work:
  assumes prov: "provisionOperator env x db = (Inr v, db')" and ids: "own_ids env db"
    and h: "hex_digests (pe_hashes env)" "length (pe_readSecret env) = 64" "length (pe_writeSecret env) = 64"
    and key: "(if W then pv_writeApiKey v else pv_reportingApiKey v) = Some t"
  shows "snd (OperatorAuthGuard (pe_hashes env) (pe_pepper env) (guard_rows db') W
      \<lparr>ar_authorization = Some (''Bearer '' @ t), ar_net = net\<rparr>) =
    (if \<not> op_enabled (pv_operator v) then Inl ''operator_disabled''
     else if op_ipWhitelist (pv_operator v) \<noteq> [] \<and> extractClientIp net \<notin> set (op_ipWhitelist (pv_operator v))
     then Inl ''ip_not_allowed'' else Inr (op_id (pv_operator v)))"
proof -
  let ?r = "pv_operator v" and ?s = "if W then pe_writeSecret env else pe_readSecret env"
  let ?o = "hashes_put env x (op_id ?r) ?r"
  obtain ck db1 where up: "upsert_operator env x ck db = (?r, pv_created v, db1)"
    "pd_operators db' = map (hashes_put env x (op_id ?r)) (pd_operators db1)"
    using provision_Inr [OF prov] by blast
  note r = upsert_ids [OF ids up(1)]
  have rot: "if W then pi_rotateWriteKey x else pi_rotateReportingKey x"
    and t: "t = (if W then ''vrw_'' else ''vrk_'') @ op_id ?r @ ''.'' @ ?s"
    using prov key by (auto simp: provisionOperator_def Let_def generateReportingKey_def generateWriteKey_def
        split: sum.splits prod.splits if_splits)
  have "distinct (map op_id (guard_rows db'))"
    using r by (simp add: guard_rows_def up(2) comp_def)
  moreover have "operator_row.truncate ?o \<in> set (guard_rows db')"
    using r by (auto simp: guard_rows_def up(2))
  ultimately have found: "find_operator (guard_rows db') (op_id ?r) = Some (operator_row.truncate ?o)"
    using r find_distinct [of op_id "guard_rows db'" "operator_row.truncate ?o"] by (simp add: find_operator_def)
  have "scope_hash W (Some (operator_row.truncate ?o)) = Some (hashSecret (pe_hashes env) (pe_pepper env) ?s)"
    using rot by (simp add: scope_hash_def hashes_put_def)
  then have "verifyReportingSecret (pe_hashes env) (pe_pepper env) ?s (scope_hash W (Some (operator_row.truncate ?o)))"
    using verify_same_pepper [OF h(1)] by simp
  moreover have "parseReportingToken (bearerToken (Some (''Bearer '' @ t))) = Some (op_id ?r, ?s)"
    using parse_bearer [of "op_id ?r" ?s "if W then ''vrw_'' else ''vrk_''"] r h(2,3) unfolding t key_header_def by simp
  ultimately show ?thesis
    by (simp add: guard_cases found)
qed

definition audit_rows :: "provision_env \<Rightarrow> string \<Rightarrow> uid \<Rightarrow> json option \<Rightarrow> json option \<Rightarrow> audit_event list" where
  "audit_rows env action i after meta =
     (if pe_audit_fails env action then []
      else [\<lparr>ae_actor = ''provision-cli'', ae_action = action, ae_targetType = Some ''operator'', ae_targetId = Some i,
             ae_operatorId = Some i, ae_ip = None, ae_before = None, ae_after = after, ae_meta = meta\<rparr>])"

lemma recordAudit_audit [simp]: "pd_audit (recordAudit env action i after meta db) = pd_audit db @ audit_rows env action i after meta"
  by (simp add: recordAudit_def audit_rows_def)

lemma rotate_audit [simp]:
  "pd_audit (rotate_key env action put key r db) = pd_audit db @
     audit_rows env action (op_id r) None (Some (JObj [(''code'', JStr (op_code r)), (''hashPrefix'', JStr (hash_prefix (snd key)))]))"
  by (simp add: rotate_key_def)

lemma key_prefix [simp]:
  "hash_prefix (snd (generateReportingKey h p s i)) = (if truthy p = None then ''sha256:'' else ''hmac-sha256:'')"
  "hash_prefix (snd (generateWriteKey h p s i)) = (if truthy p = None then ''sha256:'' else ''hmac-sha256:'')"
  by (simp_all add: generateReportingKey_def generateWriteKey_def hashSecret_def hash_prefix_def split: option.split)

definition secrets_only ::
  "provision_env \<Rightarrow> provision_env \<Rightarrow> provision_input \<Rightarrow> provision_input \<Rightarrow> bool" where
  "secrets_only env env' x x' \<longleftrightarrow>
     (\<exists>a b c. env' = env\<lparr>pe_newSecret := a, pe_readSecret := b, pe_writeSecret := c\<rparr>) \<and>
     (\<exists>k. x' = x\<lparr>pi_walletApiKey := k\<rparr> \<and> (k = None \<longleftrightarrow> pi_walletApiKey x = None) \<and> (k = Some [] \<longleftrightarrow> pi_walletApiKey x = Some []))"

lemma checked_input_key [simp]: "checked_input p (x\<lparr>pi_walletApiKey := k\<rparr>) = checked_input p x"
  by (simp add: checked_input_def cong: sum.case_cong option.case_cong)

lemma patch_shows:
  assumes "secrets_only env env' x x'"
  shows "sanitizedPatch x' ck = sanitizedPatch x ck"
  using assms by (cases "pi_walletApiKey x") (auto simp: secrets_only_def sanitizedPatch_def opt_entry_def)

lemma upsert_shows:
  assumes "secrets_only env env' x x'" "upsert_operator env x ck db = (r, created, db1)"
    "upsert_operator env' x' ck db = (r', created', db1')"
  shows "created' = created \<and> op_id r' = op_id r \<and> op_code r' = op_code r \<and> pd_audit db1' = pd_audit db1 \<and>
    (created \<longrightarrow> created_audit r' = created_audit r)"
proof -
  obtain a b c where e: "env' = env\<lparr>pe_newSecret := a, pe_readSecret := b, pe_writeSecret := c\<rparr>"
    using assms(1) unfolding secrets_only_def by (elim conjE exE) (rule that)
  obtain k where x: "x' = x\<lparr>pi_walletApiKey := k\<rparr>" and k: "k = None \<longleftrightarrow> pi_walletApiKey x = None" "k = Some [] \<longleftrightarrow> pi_walletApiKey x = Some []"
    using assms(1) unfolding secrets_only_def by (elim conjE exE) (rule that)
  have k: "truthy k = None \<longleftrightarrow> truthy (pi_walletApiKey x) = None" using k by (simp add: truthy_def)
  show ?thesis
    using assms(2,3) k unfolding e x
    by (cases "find (\<lambda>o'. op_code o' = pi_code x) (pd_operators db)")
      (auto simp: upsert_operator_def Let_def created_row_def patched_row_def created_audit_def)
qed

text \<open>
  The audit rows an onboarding leaves hold no secret. Whatever launch secret and keys are drawn, and
  whatever the wallet key is beyond being set or not, the same rows are written.
\<close>

theorem provision_hides_secrets:
  assumes "secrets_only env env' x x'"
  shows "pd_audit (snd (provisionOperator env' x' db)) = pd_audit (snd (provisionOperator env x db))"
proof -
  have ck: "checked_input (pe_protocol env') x' = checked_input (pe_protocol env) x"
    and same: "pe_pepper env' = pe_pepper env" "pi_rotateReportingKey x' = pi_rotateReportingKey x"
      "pi_rotateWriteKey x' = pi_rotateWriteKey x" "audit_rows env' = audit_rows env"
    using assms by (auto simp: secrets_only_def audit_rows_def fun_eq_iff)
  show ?thesis
  proof (cases "checked_input (pe_protocol env) x")
    case (Inl e)
    then show ?thesis by (simp add: provisionOperator_def ck)
  next
    case (Inr c)
    obtain r created db1 where up: "upsert_operator env x c db = (r, created, db1)" by (cases "upsert_operator env x c db")
    obtain r' created' db1' where up': "upsert_operator env' x' c db = (r', created', db1')" by (cases "upsert_operator env' x' c db")
    show ?thesis
      using upsert_shows [OF assms up up'] patch_shows [OF assms, of c]
      by (simp add: provisionOperator_def ck Inr up up' same Let_def)
  qed
qed

text \<open>No command line enables an operator: the option can only disable one.\<close>

lemma cli_never_enables: "cli_input ce argv = Inr x \<Longrightarrow> pi_enabled x \<noteq> Some True"
  by (auto simp: cli_input_def Let_def split: option.splits sum.splits cli_value.splits list.splits)

section \<open>An onboarding\<close>

definition demo_provision :: provision_env where
  "demo_provision = \<lparr>pe_hashes = toy_hashes, pe_pepper = None, pe_protocol = (\<lambda>u. Some ''https:''), pe_newId = uuid_a,
     pe_newSecret = ''launch'', pe_readSecret = secret_r, pe_writeSecret = secret_w, pe_audit_fails = (\<lambda>a. False)\<rparr>"

definition demo_input :: provision_input where
  "demo_input = \<lparr>pi_code = ''demo'', pi_name = None, pi_currencies = Some [''eur''], pi_walletApiUrl = None,
     pi_walletApiKey = Some ''k1'',
     pi_betLimits = Some (JObj [(''eur'', JObj [(''minBet'', JNum 10), (''maxBet'', JNum 1000), (''maxWinPerBet'', JNum 5000)])]),
     pi_rgConfig = Some demo_rg, pi_ipWhitelist = None, pi_callbackUrl = Some ''https://casino.example'', pi_enabled = None,
     pi_demoEnabled = None, pi_rotateSecret = False, pi_rotateReportingKey = True, pi_rotateWriteKey = False,
     pi_strictCurrencies = True\<rparr>"

definition demo_rows :: provision_db where
  "demo_rows = \<lparr>pd_operators = [], pd_audit = []\<rparr>"

lemma demo_accepted: "\<exists>v db'. provisionOperator demo_provision demo_input demo_rows = (Inr v, db')"
proof -
  have "\<not> isl (fst (provisionOperator demo_provision demo_input demo_rows))" by code_simp
  then show ?thesis by (cases "provisionOperator demo_provision demo_input demo_rows"; cases "fst (provisionOperator demo_provision demo_input demo_rows)") auto
qed

theorem provisioned_limits_apply_witness:
  "\<exists>r. find (\<lambda>o'. op_code o' = ''demo'') (pd_operators (snd (provisionOperator demo_provision demo_input demo_rows))) = Some r \<and>
     effectiveLimitsFor (op_betLimits r) ''EUR'' = Some \<lparr>pb_minBet = 10, pb_maxBet = 1000, pb_maxWinPerBet = 5000\<rparr>"
proof -
  let ?j = "JObj [(''minBet'', JNum 10), (''maxBet'', JNum 1000), (''maxWinPerBet'', JNum 5000)]"
  obtain v db' where p: "provisionOperator demo_provision demo_input demo_rows = (Inr v, db')" using demo_accepted by blast
  have "PerCurrencyLimitSchema ?j = Some \<lparr>pb_minBet = 10, pb_maxBet = 1000, pb_maxWinPerBet = 5000\<rparr>" by code_simp
  moreover have "pi_betLimits demo_input = Some (JObj [(''eur'', ?j)])" "pi_rgConfig demo_input = Some demo_rg" "pi_code demo_input = ''demo''"
    by (simp_all add: demo_input_def)
  moreover have "to_upper ''EUR'' = to_upper ''eur''" by code_simp
  ultimately show ?thesis
    using provisioned_limits_apply [OF p, of "[(''eur'', ?j)]" "''eur''" ?j "''EUR''" demo_rg] by (auto simp: p)
qed

theorem provision_hides_secrets_witness:
  "pd_audit (snd (provisionOperator (demo_provision\<lparr>pe_newSecret := ''other'', pe_readSecret := secret_w, pe_writeSecret := secret_r\<rparr>)
     (demo_input\<lparr>pi_walletApiKey := Some ''k2''\<rparr>) demo_rows)) =
   pd_audit (snd (provisionOperator demo_provision demo_input demo_rows))"
  by (rule provision_hides_secrets) (auto simp: secrets_only_def demo_input_def)

theorem provisioned_keys_work_witness:
  "\<exists>t. snd (OperatorAuthGuard toy_hashes None (guard_rows (snd (provisionOperator demo_provision demo_input demo_rows))) False
      \<lparr>ar_authorization = Some (''Bearer '' @ t), ar_net = no_net\<rparr>) = Inr uuid_a"
proof -
  obtain v db' where p: "provisionOperator demo_provision demo_input demo_rows = (Inr v, db')" using demo_accepted by blast
  have "(case fst (provisionOperator demo_provision demo_input demo_rows) of Inl _ \<Rightarrow> False | Inr v \<Rightarrow>
      op_enabled (pv_operator v) \<and> op_ipWhitelist (pv_operator v) = [] \<and> op_id (pv_operator v) = uuid_a \<and> pv_reportingApiKey v \<noteq> None)"
    by code_simp
  then obtain t where v: "op_enabled (pv_operator v)" "op_ipWhitelist (pv_operator v) = []" "op_id (pv_operator v) = uuid_a"
    "pv_reportingApiKey v = Some t" by (auto simp: p)
  have "own_ids demo_provision demo_rows" by code_simp
  moreover have "hex_digests (pe_hashes demo_provision)" "length (pe_readSecret demo_provision) = 64"
    "length (pe_writeSecret demo_provision) = 64" "pe_hashes demo_provision = toy_hashes" "pe_pepper demo_provision = None"
    using toy_hashes_ok toy_keys_ok by (simp_all add: demo_provision_def)
  ultimately show ?thesis
    using provisioned_keys_work [OF p, of False t no_net] v by (auto simp: p)
qed

end
