(* ===== verification/VR_OperatorBook.thy ===== *)
theory VR_OperatorBook
  imports VR_Http
begin

text \<open>
  The operator-book gate (\<open>scripts/operator-recon-check.ts\<close>): the bets of one operator against the book its
  reference server kept (\<open>GET /debug/book\<close> of \<open>load/operator-wallet-stub.ts\<close>).

  The server prints its totals as decimal texts and the script parses them back, so a book is a map from
  bet ids to the integers themselves. The exit code is 2 when the book or the operator cannot be read.
\<close>

section \<open>The checks\<close>

type_synonym operator_book = "string \<Rightarrow> book_entry option"

definition op_bets :: "uid \<Rightarrow> 'o world \<Rightarrow> bet list" where
  "op_bets oid w = filter (\<lambda>b. b_operatorId b = Some oid) (db_bets w)"

definition in_status :: "bet_status list \<Rightarrow> bet list \<Rightarrow> bet list" where
  "in_status ss bets = filter (\<lambda>b. b_status b \<in> set ss) bets"

definition o1_win_linkage :: "operator_book \<Rightarrow> bet list \<Rightarrow> bool" where
  "o1_win_linkage book bets =
     list_all (\<lambda>b. case book (b_id b) of None \<Rightarrow> False | Some e \<Rightarrow> 0 < be_win e \<and> be_win e = b_payout b)
       (in_status [Cashed_out] bets)"

definition o2_busted_purity :: "operator_book \<Rightarrow> bet list \<Rightarrow> bool" where
  "o2_busted_purity book bets =
     list_all (\<lambda>b. case book (b_id b) of None \<Rightarrow> True | Some e \<Rightarrow> \<not> 0 < be_win e) (in_status [Busted] bets)"

definition o3_stake_linkage :: "operator_book \<Rightarrow> bet list \<Rightarrow> bool" where
  "o3_stake_linkage book bets =
     list_all (\<lambda>b. case book (b_id b) of
         None \<Rightarrow> False
       | Some e \<Rightarrow> let net = be_bet e - be_rollback e in 0 < net \<and> net = b_amount b)
       (in_status WAGERED_STATUSES bets)"

definition o4_drained :: "bet list \<Rightarrow> bool" where
  "o4_drained bets \<longleftrightarrow> in_status [Reserving, Cancelling, Payout_pending, Voiding] bets = []"

definition net_of :: "book_entry option \<Rightarrow> int" where
  "net_of e = (case e of None \<Rightarrow> 0 | Some e \<Rightarrow> be_bet e - be_win e - be_rollback e)"

definition netDrop :: "operator_book \<Rightarrow> bet list \<Rightarrow> int" where
  "netDrop book bets = (\<Sum>b\<leftarrow>bets. net_of (book (b_id b)))"

definition expectedDrop :: "bet list \<Rightarrow> int" where
  "expectedDrop bets =
     (\<Sum>b\<leftarrow>in_status WAGERED_STATUSES bets. b_amount b) - (\<Sum>b\<leftarrow>in_status [Cashed_out] bets. b_payout b)"

definition o5_conservation :: "operator_book \<Rightarrow> bet list \<Rightarrow> bool" where
  "o5_conservation book bets \<longleftrightarrow> netDrop book bets = expectedDrop bets"

definition operator_recon :: "operator_book option \<Rightarrow> uid option \<Rightarrow> 'o world \<Rightarrow> nat" where
  "operator_recon book operator w =
     (case (book, operator) of
        (Some bk, Some oid) \<Rightarrow>
          let bets = op_bets oid w
          in if o1_win_linkage bk bets \<and> o2_busted_purity bk bets \<and> o3_stake_linkage bk bets \<and> o4_drained bets \<and>
                o5_conservation bk bets then 0 else 1
      | _ \<Rightarrow> 2)"

section \<open>The book of the reference server\<close>

text \<open>\<open>GET /debug/book\<close>, behind the same key as the rest.\<close>

definition debug_book :: "stub_config \<Rightarrow> string option \<Rightarrow> stub_state \<Rightarrow> operator_book option" where
  "debug_book c auth s = (if auth = Some (''Bearer '' @ sc_key c) then Some (sb_book s) else None)"

definition stub_boot :: stub_state where
  "stub_boot = \<lparr>sb_balances = Map.empty, sb_applied = Map.empty, sb_book = Map.empty, sb_seq = 0\<rparr>"

text \<open>What a request moves on the players' balances without booking it: a move that names no bet, and a
  rollback whose transaction is applied but whose bet has no entry (the bet of a second attempt that repeated
  the transaction of a first one, for instance).\<close>

definition move_slip :: "stub_config \<Rightarrow> move_kind \<Rightarrow> op_request \<Rightarrow> stub_state \<Rightarrow> int" where
  "move_slip c kind req s =
     (case string_to_bigint (rq_amount req) of
        None \<Rightarrow> 0
      | Some amount \<Rightarrow>
          let delta = (case kind of MBet \<Rightarrow> - amount | MWin \<Rightarrow> amount)
          in if rq_betId req = [] \<and> sb_applied s (rq_transactionId req) = None \<and>
                0 \<le> stub_balance c s (stub_key (rq_playerId req) (rq_currency req)) + delta
             then - delta else 0)"

definition rollback_slip :: "op_rollback_request \<Rightarrow> stub_state \<Rightarrow> int" where
  "rollback_slip rr s =
     (case sb_applied s (rr_transactionId rr) of
        None \<Rightarrow> 0
      | Some (_, delta) \<Rightarrow> if rr_betId rr = [] \<or> sb_book s (rr_betId rr) = None then delta else 0)"

definition slip :: "stub_config \<Rightarrow> string \<Rightarrow> string option \<Rightarrow> wire_body \<Rightarrow> stub_state \<Rightarrow> int" where
  "slip c path auth body s =
     (if auth \<noteq> Some (''Bearer '' @ sc_key c) then 0
      else case body of
        WireBalance _ _ \<Rightarrow> 0
      | WireMove req \<Rightarrow> if path = ''bet'' then move_slip c MBet req s else if path = ''win'' then move_slip c MWin req s else 0
      | WireRollback rr \<Rightarrow> if path = ''rollback'' then rollback_slip rr s else 0)"

text \<open>Any traffic whatever, with the sum of what it left unbooked.\<close>

inductive stub_run :: "stub_config \<Rightarrow> int \<Rightarrow> stub_state \<Rightarrow> bool" for c where
  booted: "stub_run c 0 stub_boot"
| served: "stub_run c u s \<Longrightarrow> stub_run c (u + slip c path auth body s) (snd (stub_fetch c path auth body s))"

text \<open>A sum over the entries of a finite map.\<close>

definition map_sum_of :: "('b \<Rightarrow> int) \<Rightarrow> ('a \<Rightarrow> 'b option) \<Rightarrow> int" where
  "map_sum_of g m = (\<Sum>k \<in> dom m. g (the (m k)))"

lemma map_sum_of_upd:
  assumes "finite (dom m)"
  shows "map_sum_of g (m(k \<mapsto> v)) = map_sum_of g m - (case m k of None \<Rightarrow> 0 | Some u \<Rightarrow> g u) + g v"
proof -
  have "(\<Sum>x \<in> dom m - {k}. g (the ((m(k \<mapsto> v)) x))) = (\<Sum>x \<in> dom m - {k}. g (the (m x)))"
    by (rule sum.cong) auto
  then have "map_sum_of g (m(k \<mapsto> v)) = g v + (\<Sum>x \<in> dom m - {k}. g (the (m x)))"
    using assms by (simp add: map_sum_of_def sum.insert_remove)
  moreover have "map_sum_of g m = (case m k of None \<Rightarrow> 0 | Some u \<Rightarrow> g u) + (\<Sum>x \<in> dom m - {k}. g (the (m x)))"
    using assms sum.remove [of "dom m" k "\<lambda>x. g (the (m x))"]
    by (cases "m k") (simp_all add: map_sum_of_def domIff)
  ultimately show ?thesis by simp
qed

definition players_drop :: "stub_config \<Rightarrow> stub_state \<Rightarrow> int" where
  "players_drop c s = map_sum_of (\<lambda>b. sc_start c - b) (sb_balances s)"

definition book_net :: "stub_state \<Rightarrow> int" where
  "book_net s = map_sum_of (\<lambda>e. net_of (Some e)) (sb_book s)"

definition book_inv :: "stub_config \<Rightarrow> int \<Rightarrow> stub_state \<Rightarrow> bool" where
  "book_inv c u s \<longleftrightarrow> finite (dom (sb_balances s)) \<and> finite (dom (sb_book s)) \<and> players_drop c s = book_net s + u"

lemma book_inv_boot: "book_inv c 0 stub_boot"
  by (simp add: book_inv_def stub_boot_def players_drop_def book_net_def map_sum_of_def)

lemma stub_balance_drop:
  assumes "finite (dom (sb_balances s))"
  shows "map_sum_of (\<lambda>b. sc_start c - b) ((sb_balances s)(k \<mapsto> stub_balance c s k + d)) = players_drop c s - d"
  using map_sum_of_upd [OF assms, of "\<lambda>b. sc_start c - b" k "stub_balance c s k + d"]
  by (simp add: players_drop_def stub_balance_def split: option.splits)

lemma stub_move_inv:
  assumes "book_inv c u s"
  shows "book_inv c (u + move_slip c kind req s) (snd (stub_move c kind req s))"
proof (cases "string_to_bigint (rq_amount req)")
  case None
  then show ?thesis using assms by (simp add: stub_move_def move_slip_def)
next
  case (Some a)
  let ?d = "case kind of MBet \<Rightarrow> - a | MWin \<Rightarrow> a" and ?k = "stub_key (rq_playerId req) (rq_currency req)"
  show ?thesis
  proof (cases "sb_applied s (rq_transactionId req) = None \<and> 0 \<le> stub_balance c s ?k + ?d")
    case False
    then show ?thesis using assms Some by (auto simp: stub_move_def move_slip_def stub_apply_def Let_def split: option.splits)
  next
    case True
    let ?s1 = "s\<lparr>sb_balances := (sb_balances s)(?k \<mapsto> stub_balance c s ?k + ?d), sb_seq := sb_seq s + 1,
      sb_applied := (sb_applied s)(rq_transactionId req \<mapsto>
        (\<lparr>rs_operatorTxId = stub_opTx (sb_seq s + 1), rs_balance = bigint_to_string (stub_balance c s ?k + ?d)\<rparr>, ?d))\<rparr>"
    let ?e = "stub_bookEntry s (rq_betId req) (rq_playerId req) (rq_currency req)"
    let ?e' = "case kind of MBet \<Rightarrow> ?e\<lparr>be_bet := be_bet ?e + a\<rparr> | MWin \<Rightarrow> ?e\<lparr>be_win := be_win ?e + a\<rparr>"
    have drop: "map_sum_of (\<lambda>b. sc_start c - b) ((sb_balances s)(?k \<mapsto> stub_balance c s ?k + ?d)) = players_drop c s - ?d"
      using assms by (intro stub_balance_drop) (simp add: book_inv_def)
    have run: "snd (stub_move c kind req s) =
        (if rq_betId req = [] then ?s1 else ?s1\<lparr>sb_book := (sb_book s)(rq_betId req \<mapsto> ?e')\<rparr>)"
      using True Some by (cases kind) (simp_all add: stub_move_def stub_apply_def Let_def stub_bookEntry_def not_less)
    have slip: "move_slip c kind req s = (if rq_betId req = [] then - ?d else 0)" using True Some by (simp add: move_slip_def Let_def)
    have net: "net_of (Some ?e') = net_of (sb_book s (rq_betId req)) - ?d"
      by (cases kind; cases "sb_book s (rq_betId req)") (simp_all add: net_of_def stub_bookEntry_def)
    have "map_sum_of (\<lambda>e. net_of (Some e)) ((sb_book s)(rq_betId req \<mapsto> ?e')) = book_net s - ?d"
      using assms map_sum_of_upd [of "sb_book s" "\<lambda>e. net_of (Some e)" "rq_betId req" ?e'] net
      by (auto simp: book_inv_def book_net_def net_of_def split: option.splits)
    then show ?thesis using assms drop by (auto simp: run slip book_inv_def players_drop_def book_net_def)
  qed
qed

lemma stub_rollback_inv:
  assumes "book_inv c u s"
  shows "book_inv c (u + rollback_slip rr s) (snd (stub_rollback c rr s))"
proof (cases "sb_applied s (rr_transactionId rr)")
  case None
  then show ?thesis using assms by (simp add: stub_rollback_def rollback_slip_def Let_def book_inv_def players_drop_def book_net_def)
next
  case (Some x)
  obtain q d where x: "x = (q, d)" by (cases x)
  let ?k = "stub_key (rr_playerId rr) (rr_currency rr)"
  have drop: "map_sum_of (\<lambda>b. sc_start c - b) ((sb_balances s)(?k \<mapsto> stub_balance c s ?k - d)) = players_drop c s + d"
    using assms stub_balance_drop [of s c ?k "- d"] by (simp add: book_inv_def)
  have bal: "sb_balances (snd (stub_rollback c rr s)) = (sb_balances s)(?k \<mapsto> stub_balance c s ?k - d)"
    using Some x by (simp add: stub_rollback_def Let_def split: option.split)
  show ?thesis
  proof (cases "rr_betId rr = [] \<or> sb_book s (rr_betId rr) = None")
    case True
    then have "sb_book (snd (stub_rollback c rr s)) = sb_book s" "rollback_slip rr s = d"
      using Some x by (auto simp: stub_rollback_def rollback_slip_def Let_def split: option.split)
    then show ?thesis using assms drop bal by (simp add: book_inv_def players_drop_def book_net_def)
  next
    case False
    then obtain e where e: "sb_book s (rr_betId rr) = Some e" "rr_betId rr \<noteq> []" by auto
    then have "sb_book (snd (stub_rollback c rr s)) = (sb_book s)(rr_betId rr \<mapsto> e\<lparr>be_rollback := be_rollback e - d\<rparr>)"
        "rollback_slip rr s = 0"
      using Some x by (simp_all add: stub_rollback_def rollback_slip_def Let_def)
    moreover have "map_sum_of (\<lambda>e. net_of (Some e)) ((sb_book s)(rr_betId rr \<mapsto> e\<lparr>be_rollback := be_rollback e - d\<rparr>)) = book_net s + d"
      using assms e map_sum_of_upd [of "sb_book s" "\<lambda>e. net_of (Some e)" "rr_betId rr" "e\<lparr>be_rollback := be_rollback e - d\<rparr>"]
      by (simp add: book_inv_def book_net_def net_of_def)
    ultimately show ?thesis using assms drop bal by (simp add: book_inv_def players_drop_def book_net_def)
  qed
qed

lemma stub_run_inv: "stub_run c u s \<Longrightarrow> book_inv c u s"
proof (induction rule: stub_run.induct)
  case (served u s path auth body)
  then show ?case
    by (cases body) (auto simp: stub_fetch_def slip_def intro: stub_move_inv stub_rollback_inv)
qed (rule book_inv_boot)

section \<open>What a green gate means\<close>

text \<open>The net figure of the entries that the bet table does not know.\<close>

definition unknown_net :: "operator_book \<Rightarrow> bet list \<Rightarrow> int" where
  "unknown_net book bets = (\<Sum>i \<in> dom book - b_id ` set bets. net_of (book i))"

lemma netDrop_known:
  assumes "distinct (map b_id bets)" "finite (dom (sb_book s))"
  shows "netDrop (sb_book s) bets + unknown_net (sb_book s) bets = book_net s"
proof -
  have "netDrop (sb_book s) bets = (\<Sum>i\<leftarrow>map b_id bets. net_of (sb_book s i))"
    by (simp add: netDrop_def comp_def)
  also have "\<dots> = (\<Sum>i \<in> b_id ` set bets. net_of (sb_book s i))"
    using assms(1) by (simp add: sum_list_distinct_conv_sum_set del: map_map)
  also have "\<dots> = (\<Sum>i \<in> dom (sb_book s) \<inter> b_id ` set bets. net_of (sb_book s i))"
    by (intro sum.mono_neutral_right) (auto simp: net_of_def domIff split: option.splits)
  finally have "netDrop (sb_book s) bets + unknown_net (sb_book s) bets = (\<Sum>i \<in> dom (sb_book s). net_of (sb_book s i))"
    using sum.Int_Diff [OF assms(2), of "\<lambda>i. net_of (sb_book s i)" "b_id ` set bets"] by (simp add: unknown_net_def)
  also have "\<dots> = book_net s"
    unfolding book_net_def map_sum_of_def by (rule sum.cong) (auto simp: domIff)
  finally show ?thesis .
qed

text \<open>
  C11. What a green operator gate proves. After any traffic with the reference server, whatever was repeated,
  timed out, refused or rolled back, when the gate passes over the operator's bets, the loss of all its
  players together is exactly the stakes of the wagered bets less the payouts of the cashed ones, plus two
  figures that the gate does not look at: the net of the book's entries for bets the table does not know (a
  debit that was applied after a time-out and whose reservation was deleted), and what was moved without
  being booked (a rollback that names another bet than its transaction did). Every wagered bet's stake, net
  of rollbacks, and every cashed bet's win are on the book.
\<close>

theorem green_gate_is_true:
  assumes run: "stub_run c u s" and book: "debug_book c auth s = Some book"
    and green: "operator_recon (Some book) (Some oid) w = 0"
    and key: "distinct (map b_id (db_bets w))"
  shows "players_drop c s = expectedDrop (op_bets oid w) + unknown_net book (op_bets oid w) + u \<and>
    (\<forall>b \<in> set (op_bets oid w). b_status b = Cashed_out \<longrightarrow> map_option be_win (book (b_id b)) = Some (b_payout b)) \<and>
    (\<forall>b \<in> set (op_bets oid w). b_status b \<in> set WAGERED_STATUSES \<longrightarrow>
       map_option (\<lambda>e. be_bet e - be_rollback e) (book (b_id b)) = Some (b_amount b))"
proof -
  have b: "book = sb_book s" using book by (simp add: debug_book_def split: if_splits)
  have checks: "o1_win_linkage book (op_bets oid w)" "o3_stake_linkage book (op_bets oid w)" "o5_conservation book (op_bets oid w)"
    using green by (auto simp: operator_recon_def Let_def split: if_splits)
  have "distinct (map b_id (op_bets oid w))" using key by (simp add: op_bets_def distinct_map_filter)
  then have "players_drop c s = expectedDrop (op_bets oid w) + unknown_net book (op_bets oid w) + u"
    using stub_run_inv [OF run] netDrop_known [of "op_bets oid w" s] checks(3)
    by (simp add: book_inv_def o5_conservation_def b)
  moreover have "\<forall>x \<in> set (op_bets oid w). b_status x = Cashed_out \<longrightarrow> map_option be_win (book (b_id x)) = Some (b_payout x)"
    using checks(1) by (fastforce simp: o1_win_linkage_def in_status_def list_all_iff split: option.splits)
  moreover have "\<forall>x \<in> set (op_bets oid w). b_status x \<in> set WAGERED_STATUSES \<longrightarrow>
      map_option (\<lambda>e. be_bet e - be_rollback e) (book (b_id x)) = Some (b_amount x)"
    using checks(2) by (fastforce simp: o3_stake_linkage_def in_status_def list_all_iff Let_def split: option.splits)
  ultimately show ?thesis by blast
qed

text \<open>
  What the fifth check adds to the first four: a win on the book of a bet that is still open, and a book
  that does not come out even on cancelled and voided bets, or on bets the table does not know.
\<close>

lemma conservation_split:
  assumes "o1_win_linkage book bets" "o3_stake_linkage book bets" "o4_drained bets"
  shows "o5_conservation book bets \<longleftrightarrow>
    (\<Sum>b\<leftarrow>bets. if b_status b = Active \<or> b_status b = Busted then (case book (b_id b) of None \<Rightarrow> 0 | Some e \<Rightarrow> be_win e) else 0) =
    (\<Sum>b\<leftarrow>bets. if b_status b = Cancelled \<or> b_status b = Voided then net_of (book (b_id b)) else 0)"
proof -
  let ?w = "\<lambda>b. if b_status b = Active \<or> b_status b = Busted then (case book (b_id b) of None \<Rightarrow> 0 | Some e \<Rightarrow> be_win e) else 0"
  let ?v = "\<lambda>b. if b_status b = Cancelled \<or> b_status b = Voided then net_of (book (b_id b)) else 0"
  have "netDrop book bets = expectedDrop bets - (\<Sum>b\<leftarrow>bets. ?w b) + (\<Sum>b\<leftarrow>bets. ?v b)"
    using assms
  proof (induction bets)
    case Nil
    show ?case by (simp add: netDrop_def expectedDrop_def in_status_def)
  next
    case (Cons b bets)
    then have IH: "netDrop book bets = expectedDrop bets - (\<Sum>b\<leftarrow>bets. ?w b) + (\<Sum>b\<leftarrow>bets. ?v b)"
      by (simp add: o1_win_linkage_def o3_stake_linkage_def o4_drained_def in_status_def split: if_splits)
    have "net_of (book (b_id b)) = (if b_status b \<in> set WAGERED_STATUSES then b_amount b else 0)
        - (if b_status b = Cashed_out then b_payout b else 0) - ?w b + ?v b"
      using Cons.prems
      by (cases "b_status b"; cases "book (b_id b)")
        (simp_all add: o1_win_linkage_def o3_stake_linkage_def o4_drained_def in_status_def WAGERED_STATUSES_def net_of_def Let_def)
    moreover have "netDrop book (b # bets) = net_of (book (b_id b)) + netDrop book bets" by (simp add: netDrop_def)
    moreover have "expectedDrop (b # bets) = expectedDrop bets + (if b_status b \<in> set WAGERED_STATUSES then b_amount b else 0)
        - (if b_status b = Cashed_out then b_payout b else 0)"
      by (simp add: expectedDrop_def in_status_def)
    ultimately show ?case using IH unfolding list.map sum_list.Cons by linarith
  qed
  then show ?thesis by (auto simp: o5_conservation_def)
qed

section \<open>A green gate\<close>

definition gate_stub :: stub_config where
  "gate_stub = \<lparr>sc_origin = ''http://op'', sc_key = ''k'', sc_start = 1000\<rparr>"

definition gate_move :: "string \<Rightarrow> string \<Rightarrow> string \<Rightarrow> wire_body" where
  "gate_move tx amount bet = WireMove \<lparr>rq_playerId = ''p'', rq_currency = ''EUR'', rq_amount = amount, rq_transactionId = tx,
     rq_roundId = ''r1'', rq_betId = bet\<rparr>"

definition gate_state :: stub_state where
  "gate_state =
     snd (stub_fetch gate_stub ''win'' (Some ''Bearer k'') (gate_move ''t2'' ''250'' ''b1'')
       (snd (stub_fetch gate_stub ''bet'' (Some ''Bearer k'') (gate_move ''t1'' ''100'' ''b1'') stub_boot)))"

text \<open>A debit of 70 that was applied for a bet whose reservation is gone.\<close>

definition late_state :: stub_state where
  "late_state = snd (stub_fetch gate_stub ''bet'' (Some ''Bearer k'') (gate_move ''t3'' ''70'' ''b9'') gate_state)"

definition gate_world :: "unit world" where
  "gate_world = \<lparr>db_wallets = [], db_ledger = [],
     db_bets = [\<lparr>b_id = ''b1'', b_roundId = ''r1'', b_userId = ''u1'', b_walletId = ''w1'', b_panel = PanelA, b_amount = 100,
       b_autoCashout = None, b_status = Cashed_out, b_cashoutMult = Some 250, b_payout = 250, b_demo = False,
       b_operatorId = Some ''o1'', b_currency = ''EUR'', b_maxWinPerBet = None, b_debitTxId = None, b_payoutTxId = None,
       b_createdAt = 1, b_settledAt = None\<rparr>],
     db_rounds = [], db_users = [], db_profiles = [], db_sessions = [], db_rollbacks = [], operator_state = ()\<rparr>"

lemma gate_run: "stub_run gate_stub 0 late_state"
proof -
  let ?key = "Some ''Bearer k''" and ?m1 = "gate_move ''t1'' ''100'' ''b1''" and ?m2 = "gate_move ''t2'' ''250'' ''b1''"
    and ?m3 = "gate_move ''t3'' ''70'' ''b9''"
  let ?s1 = "snd (stub_fetch gate_stub ''bet'' ?key ?m1 stub_boot)"
  have 1: "stub_run gate_stub (0 + slip gate_stub ''bet'' ?key ?m1 stub_boot) ?s1" by (intro served booted)
  have 2: "stub_run gate_stub (0 + slip gate_stub ''bet'' ?key ?m1 stub_boot + slip gate_stub ''win'' ?key ?m2 ?s1) gate_state"
    unfolding gate_state_def by (rule served [OF 1])
  have "stub_run gate_stub (0 + slip gate_stub ''bet'' ?key ?m1 stub_boot + slip gate_stub ''win'' ?key ?m2 ?s1 +
      slip gate_stub ''bet'' ?key ?m3 gate_state) late_state"
    unfolding late_state_def by (rule served [OF 2])
  moreover have "slip gate_stub p a (gate_move t n (x # xs)) v = 0" for p a t n x xs v
    by (auto simp: slip_def move_slip_def gate_move_def Let_def split: option.split)
  ultimately show ?thesis by simp
qed

lemma gate_book:
  "sb_book late_state = Map.empty(''b1'' \<mapsto> the (sb_book gate_state ''b1''), ''b9'' \<mapsto> the (sb_book late_state ''b9''))"
proof -
  have move: "sb_book (snd (stub_fetch c path auth (gate_move t n i) v)) j = sb_book v j" if "j \<noteq> i" for c path auth t n i v j
    using that by (auto simp: gate_move_def stub_fetch_def stub_move_def stub_apply_def Let_def split: option.splits)
  have "sb_book late_state j = None" if "j \<noteq> ''b1''" "j \<noteq> ''b9''" for j
    using that by (simp add: late_state_def gate_state_def move stub_boot_def)
  moreover have "sb_book late_state ''b1'' = sb_book gate_state ''b1''" unfolding late_state_def by (rule move) simp
  moreover have "sb_book gate_state ''b1'' \<noteq> None" "sb_book late_state ''b9'' \<noteq> None" by code_simp+
  ultimately show ?thesis by (intro ext) auto
qed

text \<open>The gate is green, and the players have lost 70 more than the bets say.\<close>

theorem green_gate_is_true_witness:
  "operator_recon (debug_book gate_stub (Some ''Bearer k'') late_state) (Some ''o1'') gate_world = 0 \<and>
   expectedDrop (op_bets ''o1'' gate_world) = - 150 \<and> players_drop gate_stub late_state = - 80"
proof -
  have b: "debug_book gate_stub (Some ''Bearer k'') late_state = Some (sb_book late_state)"
    by (simp add: debug_book_def gate_stub_def)
  have g: "operator_recon (Some (sb_book late_state)) (Some ''o1'') gate_world = 0" by code_simp
  have key: "distinct (map b_id (db_bets gate_world))" by (simp add: gate_world_def)
  have e: "expectedDrop (op_bets ''o1'' gate_world) = - 150" by code_simp
  have "dom (sb_book late_state) = {''b1'', ''b9''}" by (subst gate_book) auto
  then have "dom (sb_book late_state) - b_id ` set (op_bets ''o1'' gate_world) = {''b9''}"
    by (auto simp: op_bets_def gate_world_def)
  moreover have "net_of (sb_book late_state ''b9'') = 70" by code_simp
  ultimately have "unknown_net (sb_book late_state) (op_bets ''o1'' gate_world) = 70" by (simp add: unknown_net_def)
  then show ?thesis using green_gate_is_true [OF gate_run b g key] b g e by simp
qed

end
