(* ===== verification/VR_Rebet.thy ===== *)
theory VR_Rebet
  imports VR_LifeOps
begin

text \<open>
  A second bet on a slot whose first attempt left an owed rollback. The key of a debit names the round, the
  player and the panel (\<open>placeBet\<close>, \<open>src/game/bets.service.ts\<close>) and not the bet, so the second bet's debit
  repeats the first one's transaction at the operator, and the rollback that the drain still owes
  (\<open>src/wallet/wallet-rollback.service.ts\<close>) undoes it.
\<close>

section \<open>What a successful bet leaves\<close>

lemma move_loop_rollbacks: "move_loop k cfg MBet s q ref v = (Inr y, v') \<Longrightarrow> db_rollbacks v' = db_rollbacks v"
  by (induction k arbitrary: v)
    (auto simp: call_operator_def split: prod.splits sum.splits if_splits op_error.splits move_kind.splits)

lemma debit_rollbacks:
  assumes "walletProvider ty api sf now = Inr p" "wp_debit p i amt t k ref w = (Inr tx, w')"
  shows "db_rollbacks w' = db_rollbacks w \<and> db_bets w' = db_bets w"
proof -
  have seam: "db_rollbacks v' = db_rollbacks v"
    if "seam_debit (operatorWallet_cfg api sf now) i amt t k ref v = (Inr tx, v')" for v v'
    using that move_loop_rollbacks by (auto simp: seam_debit_def seam_move_def split: sum.splits if_splits)
  have ledg: "db_rollbacks v' = db_rollbacks v" if "wp_debit ledgerProvider i amt t k ref v = (x, v')" for x and v v' :: "'a world"
    using lp.exec_operator_same [of v i "WDebit amt t k ref"] that by (simp add: operator_same_def)
  have "db_rollbacks w' = db_rollbacks w"
    using assms seam ledg
    by (auto simp: walletProvider_def wallet_factory_def WalletRouter_def pick_def SeamlessOperatorWallet_def Let_def
        split: if_splits)
  moreover have "game_same w w'" using wallet_frame.debit_frame [OF provider_frame [OF assms(1)] assms(2)] .
  ultimately show ?thesis by (simp add: game_same_def)
qed

lemma place_ok_result:
  assumes p: "walletProvider ty api sf now = Inr (bc_wallet ctx)" and ph: "in_phase ctx Betting = Some rid"
    and fresh: "i \<notin> bet_ids w"
    and run: "placeBet no_place_faults ctx a i w = (res, w')" "br_ok res"
  shows "db_rollbacks w' = db_rollbacks w \<and>
    (\<exists>b \<in> set (db_bets w'). b_id b = i \<and> b_status b = Active \<and> b_roundId b = rid \<and> b_userId b = pa_userId a \<and>
       b_panel b = pa_panel a \<and> b_amount b = \<lfloor>pa_amount a\<rfloor>)"
proof -
  let ?amt = "\<lfloor>pa_amount a\<rfloor>"
  obtain wal w1 tx w2 where
      res: "place_reserve False (bc_risk ctx) (bc_now ctx) a i rid wal ?amt w = (Inr (), w1)"
    and deb: "place_debit no_place_faults (bc_wallet ctx) (pa_userId a) (pa_panel a) i rid (w_id wal) ?amt w1 = (Inr tx, w2)"
    and flip: "place_flip 3 no_place_faults i tx w2 = (True, w')"
    using run ph unfolding placeBet_def Let_def
    by (auto simp: bet_reject_def no_place_faults_def split: sum.splits option.splits if_splits prod.splits bool.splits)
  let ?b = "new_bet (bc_now ctx) a i rid wal ?amt"
  let ?f = "\<lambda>b. b\<lparr>b_status := Active, b_debitTxId := Some (tx_id tx)\<rparr>"
  have w1: "w1 = w\<lparr>db_bets := db_bets w @ [?b]\<rparr>"
    using res by (auto simp: place_reserve_def split: sum.splits option.splits if_splits)
  have "wp_debit (bc_wallet ctx) (w_id wal) ?amt Bet_debit (debitKey rid (pa_userId a) (pa_panel a)) (Some (bet_ref i)) w1
      = (Inr tx, w2)"
    using deb by (auto simp: place_debit_def split: sum.splits prod.splits)
  from debit_rollbacks [OF p this] have w2: "db_rollbacks w2 = db_rollbacks w" "db_bets w2 = db_bets w @ [?b]"
    by (simp_all add: w1)
  have "place_flip 3 no_place_faults i tx w2 = (fst (bet_cas w2 i Reserving ?f) \<noteq> 0, snd (bet_cas w2 i Reserving ?f))"
    unfolding numeral_3_eq_3 place_flip.simps by (simp add: no_place_faults_def split: prod.split)
  then have "w' = snd (bet_cas w2 i Reserving ?f)" using flip by simp
  then have "db_rollbacks w' = db_rollbacks w" "?f ?b \<in> set (db_bets w')"
    by (auto simp: bet_cas_def Let_def w2 new_bet_def update_where_def)
  then show ?thesis by (intro conjI bexI [of _ "?f ?b"]) (simp_all add: new_bet_def)
qed

text \<open>A row that was pending before a drain and is confirmed after it was acknowledged in between.\<close>

lemma confirmed_by_drain:
  assumes api: "operator_contract api applied" and wf: "outbox_wf w"
    and r: "r \<in> set (db_rollbacks w)" "rb_status r = RPending"
    and dr: "drainPending no_faults later (Some api) limit w = (n, w')"
    and conf: "r' \<in> set (db_rollbacks w')" "rb_key r' = rb_key r" "rb_status r' = RConfirmed"
  shows "applied (operator_state w') (rb_operatorId r) (rb_transactionId r) = None"
proof -
  obtain ok sc where ok: "ok \<subseteq> sc" "db_rollbacks w' = map (after_drain ok sc) (db_rollbacks w)"
    "\<forall>r \<in> ok. applied (operator_state w') (rb_operatorId r) (rb_transactionId r) = None"
    using drain_result [OF wf dr, where applied = applied] api by metis
  from conf ok(2) obtain x where x: "x \<in> set (db_rollbacks w)" "r' = after_drain ok sc x" by auto
  then have "x = r"
    using conf(2) wf r(1) distinct_key_eq [of rb_key "db_rollbacks w" x r] by (simp add: outbox_wf_def)
  with x conf(3) r(2) have "r \<in> ok" by (auto simp: after_drain_def failed_row_def split: if_splits)
  with ok(3) show ?thesis by blast
qed

text \<open>
  C9. A re-bet over an owed rollback is free. Let the outbox still owe a rollback of the debit of a slot: an
  earlier bet on it was rejected after an ambiguous debit, and its reservation was deleted. A second bet of
  the same player on the same round and panel goes through, because its debit names the same transaction.
  If the drain then gets the owed rollback acknowledged, the second bet is still in play with its full
  stake, and that transaction, its own debit, has no effect left at the operator.
\<close>

theorem rebet_over_owed_rollback_is_free:
  assumes api: "operator_contract api applied" and p: "walletProvider ty api sf now = Inr (bc_wallet ctx)"
    and slot: "in_phase ctx Betting = Some rid" "i \<notin> bet_ids w" and wf: "outbox_wf w"
    and owed: "r \<in> set (db_rollbacks w)" "rb_status r = RPending"
      "rb_transactionId r = debitKey rid (pa_userId a) (pa_panel a)"
    and place: "placeBet no_place_faults ctx a i w = (res, w1)" "br_ok res"
    and dr: "drainPending no_faults later (Some api) limit w1 = (n, w2)"
    and conf: "r' \<in> set (db_rollbacks w2)" "rb_key r' = rb_key r" "rb_status r' = RConfirmed"
  shows "\<exists>b \<in> set (db_bets w2). b_id b = i \<and> b_status b = Active \<and> b_amount b = \<lfloor>pa_amount a\<rfloor> \<and>
    bet_debitKey b = rb_transactionId r \<and> applied (operator_state w2) (rb_operatorId r) (bet_debitKey b) = None"
proof -
  obtain b where b: "b \<in> set (db_bets w1)" "b_id b = i" "b_status b = Active" "b_roundId b = rid"
      "b_userId b = pa_userId a" "b_panel b = pa_panel a" "b_amount b = \<lfloor>pa_amount a\<rfloor>"
    and rb: "db_rollbacks w1 = db_rollbacks w"
    using place_ok_result [OF p slot place] by blast
  have "drain_row no_faults later api r (k, v) = (k', v') \<Longrightarrow> db_bets v' = db_bets v" for r k v k' v'
    by (auto simp: drain_row_def drain_claim_def drain_emit_def acquireLease_def rb_confirm_def rb_update_def Let_def
        split: bool.splits sum.splits prod.splits)
  then have "fold (drain_row no_faults later api) rs (k, v) = (k', v') \<Longrightarrow> db_bets v' = db_bets v" for rs k v k' v'
    by (induction rs arbitrary: k v) (simp, metis fold_simps(2) surj_pair)
  then have "db_bets w2 = db_bets w1" using dr by (simp add: drainPending_def)
  moreover have "applied (operator_state w2) (rb_operatorId r) (rb_transactionId r) = None"
    using confirmed_by_drain [OF api _ _ owed(2) dr conf] wf owed(1) by (simp add: rb outbox_wf_def)
  ultimately show ?thesis using b owed(3) by (auto simp: bet_debitKey_def)
qed

section \<open>Such a run\<close>

definition slot_world :: "net_event list \<Rightarrow> net_state world" where
  "slot_world evs = (net_world evs)
     \<lparr>db_wallets := [\<lparr>w_id = ''w1'', w_userId = ''u1'', w_currency = ''EUR'', w_balance = 0\<rparr>],
      db_rounds := [\<lparr>r_id = ''r1'', r_seedId = ''s1'', r_crashPoint = 250, r_status = Betting,
        r_phaseEndsAt = Some 5000, r_startedAt = None, r_crashedAt = None, r_settledAt = None\<rparr>]\<rparr>"

abbreviation net_wallet :: "net_state wallet_provider" where
  "net_wallet \<equiv> WalletRouter ledgerProvider (SeamlessOperatorWallet net_cfg) (\<lambda>w i. Inr (isDemoWallet w i))"

definition slot_ctx :: "net_state bets_ctx" where
  "slot_ctx =
     \<lparr>bc_wallet = net_wallet, bc_risk = \<lparr>rl_minBet = 10, rl_maxBet = 1000, rl_maxWinPerBet = 100000,
        rl_maxMultiplier = 1000000, rl_maxRoundExposure = 1000000\<rparr>,
      bc_state = Some \<lparr>ev_roundId = ''r1'', ev_phase = Betting\<rparr>, bc_mult = 100, bc_now = 1, bc_race = id\<rparr>"

definition slot_args :: place_args where
  "slot_args = \<lparr>pa_userId = ''u1'', pa_panel = PanelA, pa_amount = 100, pa_autoCashout = None,
     pa_walletId = Some ''w1'', pa_limits = None, pa_demo = False, pa_rgCtx = None, pa_operatorId = Some ''o''\<rparr>"

text \<open>The first attempt: the stake is taken, the answer and the rollback are lost, the bet is rejected.\<close>

definition slot_first :: "bet_result \<times> net_state world" where
  "slot_first = placeBet no_place_faults slot_ctx slot_args ''b1'' (slot_world [NetLostResponse, NetRefused])"

definition slot_second :: "bet_result \<times> net_state world" where
  "slot_second = placeBet no_place_faults slot_ctx slot_args ''b2'' (snd slot_first)"

definition slot_row :: rollback_row where
  "slot_row = hd (db_rollbacks (snd slot_first))"

lemma slot_first_result:
  "\<not> br_ok (fst slot_first)" "db_bets (snd slot_first) = []" "length (db_rollbacks (snd slot_first)) = 1"
  "rb_status slot_row = RPending" "rb_transactionId slot_row = debitKey ''r1'' ''u1'' PanelA" "rb_operatorId slot_row = ''o''"
  by code_simp+

lemma slot_second_result: "br_ok (fst slot_second)"
  by code_simp

theorem rebet_over_owed_rollback_is_free_witness:
  "\<not> br_ok (fst slot_first) \<and> br_ok (fst slot_second) \<and>
   (\<exists>n w2. drainPending no_faults 1 (Some net_api) 50 (snd slot_second) = (n, w2) \<and>
     (\<exists>b \<in> set (db_bets w2). b_id b = ''b2'' \<and> b_status b = Active \<and> b_amount b = 100 \<and>
        stub_applied (operator_state w2) ''o'' (bet_debitKey b) = None))"
proof -
  obtain res w1 where s: "slot_second = (res, w1)" by fastforce
  obtain n w2 where d: "drainPending no_faults 1 (Some net_api) 50 w1 = (n, w2)" by fastforce
  have rows: "db_rollbacks (snd slot_first) = [slot_row]"
    using slot_first_result(3) by (cases "db_rollbacks (snd slot_first)") (auto simp: slot_row_def)
  have "(case db_rollbacks (snd (drainPending no_faults 1 (Some net_api) 50 (snd slot_second))) of
      [x] \<Rightarrow> rb_key x = rb_key slot_row \<and> rb_status x = RConfirmed | _ \<Rightarrow> False)" by code_simp
  then obtain x where x: "x \<in> set (db_rollbacks w2)" "rb_key x = rb_key slot_row" "rb_status x = RConfirmed"
    by (auto simp: s d split: list.splits)
  have "\<exists>b \<in> set (db_bets w2). b_id b = ''b2'' \<and> b_status b = Active \<and> b_amount b = \<lfloor>pa_amount slot_args\<rfloor> \<and>
      bet_debitKey b = rb_transactionId slot_row \<and> stub_applied (operator_state w2) (rb_operatorId slot_row) (bet_debitKey b) = None"
  proof (rule rebet_over_owed_rollback_is_free [OF net_api_contract _ _ _ _ _ slot_first_result(4) _ _ _ d x])
    show "walletProvider (Some ''operator'') net_api no_faults 0 = Inr (bc_wallet slot_ctx)"
      by (simp add: walletProvider_def wallet_factory_def slot_ctx_def)
    show "in_phase slot_ctx Betting = Some ''r1''" by (simp add: in_phase_def slot_ctx_def)
    show "''b2'' \<notin> bet_ids (snd slot_first)" by (simp add: bet_ids_def slot_first_result)
    show "outbox_wf (snd slot_first)" "slot_row \<in> set (db_rollbacks (snd slot_first))"
      by (simp_all add: outbox_wf_def rows)
    show "rb_transactionId slot_row = debitKey ''r1'' (pa_userId slot_args) (pa_panel slot_args)"
      using slot_first_result by (simp add: slot_args_def)
    show "placeBet no_place_faults slot_ctx slot_args ''b2'' (snd slot_first) = (res, w1)" "br_ok res"
      using s slot_second_result by (simp_all add: slot_second_def)
  qed
  then show ?thesis
    using slot_first_result(1,6) slot_second_result d by (auto simp: s slot_args_def)
qed

end
