(* ===== verification/Spec2Isabelle.thy ===== *)
theory Spec2Isabelle
  imports VR_Reconcile VR_EngineDemo VR_LedgerSpec VR_RiskBoot VR_ReportingPages VR_ReportingTotals VR_Transactions
    VR_Audit VR_Retention VR_GatewayDemo VR_Routes VR_FairRoutes VR_Provision VR_OperatorBook VR_Rebet
begin

text \<open>
  A verification library for the vault-runner game server: a multiplayer crash game in which a
  multiplier grows until a provably fair crash point and players cash out before it. One node of a
  cluster, the leader, drives the rounds; every node serves bets; money is either play money on an internal
  ledger or real money on the wallet of the operator that launched the session.

  \<^bold>\<open>State.\<close> \<open>VR_World\<close> has the tables of \<open>prisma/schema.prisma\<close> that the money and the rounds live in as one
  record \<open>world\<close>; the operator's own wallet is the type parameter \<open>'o\<close>, reached only through the operator
  API. A service method is a function from the world (and what it was called with) to a result and a new
  world; an exception is the left of a sum and returns the world the failing call leaves behind, which is the
  unchanged one where the source runs in a transaction. \<open>updateMany\<close> with a status in its \<open>where\<close> is
  \<open>bet_cas\<close>. What other requests do between a read and a write is an argument: the environments of the
  ledger's transactions, \<open>bc_race\<close> of the bet service, and the step relations of the runs.

  \<^bold>\<open>Numbers.\<close> Money is \<open>int\<close> in minor units, as the source's BigInt. Multipliers and crash points are
  hundredths; the two places where the source computes in doubles are modelled by the exact functions
  (\<open>mult_of\<close> and rational rounding in \<open>VR_Money\<close>, the real exponential and logarithm in \<open>VR_Engine\<close>).
  Times are epoch milliseconds.

  \<^bold>\<open>Theories.\<close>
  \<^item> \<open>VR_Prelude\<close>: table operations, BigInt arithmetic and text, splitting; shared lemmas.
  \<^item> \<open>VR_Money\<close>: \<open>common/money.ts\<close>, \<open>common/bet-status.ts\<close>, the risk checks of \<open>game/risk.service.ts\<close>.
    \<open>VR_RiskBoot\<close>: its boot guard and what it reads from the environment.
  \<^item> \<open>VR_Fairness\<close>: \<open>fairness/crash.ts\<close>, \<open>fairness/seed-chain.ts\<close>. \<open>VR_EthOracle\<close>: the salt of an epoch
    (\<open>eth-block.ts\<close>, \<open>salt.provider.ts\<close>, the boot check of \<open>fairness.module.ts\<close>). \<open>VR_FairService\<close>,
    \<open>VR_FairInv\<close>, \<open>VR_FairRun\<close>: \<open>fairness.service.ts\<close>, the invariant of its tables, and runs of boot,
    allocation, upkeep and reveal. Hash functions are parameters.
  \<^item> \<open>VR_Ledger\<close>: \<open>wallet/ledger.service.ts\<close>, with the interleaving points of its transaction;
    \<open>VR_LedgerSpec\<close>: the abstract account it refines.
  \<^item> \<open>VR_Wallet\<close>: the provider interface, the router between play and real money, and the locales
    \<open>wallet_frame\<close>, \<open>play_money\<close>, \<open>real_money\<close> and \<open>money_router\<close>, the contracts the providers keep.
    \<open>VR_Rollback\<close>: the rollback outbox. \<open>VR_Operator\<close>: the seamless operator wallet with its retries, against
    the locale \<open>operator_contract\<close> of what an operator's API promises. \<open>VR_Http\<close>: the HTTP client and the
    reference operator wallet of \<open>load/operator-wallet-stub.ts\<close> behind a faulty network, which interprets that
    contract. \<open>VR_Seamless\<close>: the wiring of \<open>wallet.module.ts\<close> and its interpretations. \<open>VR_Drain\<close>: what the
    outbox guarantees.
  \<^item> \<open>VR_Bets\<close>, \<open>VR_Voids\<close>: \<open>game/bets.service.ts\<close>. \<open>VR_Recovery\<close>: the money recovery of
    \<open>game/game-engine.service.ts\<close>. \<open>VR_Game\<close>: one run relation over all of them.
  \<^item> \<open>VR_Books\<close>, \<open>VR_BookOps\<close>, \<open>VR_BookSweeps\<close>, \<open>VR_BookRecovery\<close>, \<open>VR_BookRun\<close>: the books of the internal
    mode and that every operation keeps them. \<open>VR_Reconcile\<close>: the acceptance gate
    \<open>scripts/reconcile-check.ts\<close>, which then passes. \<open>VR_Lifecycle\<close>, \<open>VR_LifeOps\<close>: the status graph of a
    bet, in both wallet modes.
  \<^item> \<open>VR_Election\<close>: \<open>ha/election.service.ts\<close> over \<open>ha/pg-advisory-lock.ts\<close> as a cluster of nodes and database
    sessions. \<open>VR_Engine\<close>, \<open>VR_EngineResume\<close>: the round loop, its recovery and the followers' cache
    (\<open>game/public-round-cache.ts\<close>). \<open>VR_EngineLoop\<close>: the loop goes on and keeps its secret.
    \<open>VR_EngineFailover\<close>: resuming. \<open>VR_EngineGate\<close>: the loop and the bets. \<open>VR_EngineStall\<close>: one node's
    engine with its election. \<open>VR_EngineDemo\<close>: a concrete table.
  \<^item> \<open>VR_Limits\<close>: \<open>operator/bet-limits.ts\<close>, \<open>operator/rg-config.ts\<close> on JSON values. \<open>VR_Reporting\<close>,
    \<open>VR_ReportingPages\<close>, \<open>VR_ReportingTotals\<close>, \<open>VR_Transactions\<close>: the operator's reports
    (\<open>operator/reporting.service.ts\<close>); \<open>VR_Queries\<close>: their query strings (\<open>reporting-query.ts\<close>) and routes.
  \<^item> \<open>VR_Keys\<close>: the operator table, operator keys, the operator guard and its throttler
    (\<open>operator/reporting-key.ts\<close>, \<open>operator-auth.guard.ts\<close>, \<open>operator-throttler.guard.ts\<close>). \<open>VR_Audit\<close>:
    \<open>audit/audit-event.service.ts\<close>. \<open>VR_Provision\<close>: \<open>scripts/operator-provision.ts\<close>, from the command line to the
    rows.
  \<^item> \<open>VR_Sessions\<close>, \<open>VR_SessionOps\<close>: launch tickets, sessions, their revocation and the reality-check state
    (\<open>operator/launch-token.service.ts\<close>, \<open>operator/game-session.service.ts\<close>). \<open>VR_SessionInv\<close>,
    \<open>VR_SessionRun\<close>: the invariant of the account tables and runs of launches, revocations and erasures.
    \<open>VR_SessionSpec\<close>: revocation by player against its specification. \<open>VR_Erasure\<close>, \<open>VR_Retention\<close>:
    \<open>privacy/data-erasure.service.ts\<close> and its scripts. \<open>VR_SessionDemo\<close>: concrete accounts.
  \<^item> \<open>VR_RgTimer\<close>, \<open>VR_Gateway\<close>: the socket gateway \<open>game/game.gateway.ts\<close>, every message and timer, with
    its message schemas. \<open>VR_GatewayRun\<close>: runs of a node's gateway. \<open>VR_MoneyFrame\<close>: what money operations
    leave alone. \<open>VR_GatewayCut\<close>, \<open>VR_GatewayPause\<close>, \<open>VR_GatewaySweep\<close>: revocation, reality checks and
    sweeps over such runs. \<open>VR_GatewayDemo\<close>: concrete sockets.
  \<^item> \<open>VR_Routes\<close>: the routes of players and of the public, the void route, the probes and the exception
    filter. \<open>VR_FairRoutes\<close>: \<open>fairness/fairness.controller.ts\<close>. \<open>VR_OperatorBook\<close>: the operator-book gate
    \<open>scripts/operator-recon-check.ts\<close> over the book of the reference wallet.

  \<^bold>\<open>What is shown.\<close> Money moves once per idempotency key under any interleaving, the ledger refines a keyed
  account, and any run in internal mode reconciles; when the operator-book gate is green, the reference
  operator's players lost exactly what the bets say. A failed operator debit leaves the player uncharged or an
  owed rollback in the outbox, which has one owner at a time, loses nothing and drains; credits pay at most
  once; play and real money never meet. A bet moves along its status graph in either mode. Seeds are committed
  before they are used and what the public routes reveal of a round verifies end to end, dumps verify, nothing
  secret is published, the oracle is a strict majority. At most one node passes the fence check; the loop
  always has its next transition armed; a survivor restores the dead leader's state and leaves one round open;
  a cash-out is accepted exactly before the crash. The reports are plain sums, paging is complete.
  A ticket opens one session; the limits an operator is provisioned with are those every bet of its
  sessions meets, through the token; a revoked session is cut from play, a reality check holds until it is
  acknowledged, the sweep spares fresh reservations. Revocation and erasure hit exactly the player they name,
  and erasure moves no money. An operator reads its own rows only, voids its own bets only, with the key of the
  right scope, and the audit log holds no secret.

  Some theorems show where the code does not keep what its comments say: a re-bet over an owed rollback is
  free, a failed fence read stalls the leader, a late crash transition settles the successor, a failed write
  strands a round, an automatic cash-out near the crash depends on a failover, the boot guard admits demo
  ceilings, a salt can be known at commit, a launch that races an erasure keeps the player's id, a dormant
  player who never logged out is never erased, a malformed variable switches the liveness probe off.

  \<^bold>\<open>Bounds.\<close> The retry loop of the operator wallet counts its attempts down, as the source's does. The client
  that follows the cursors of the bet list is given one page more than there are bets, which is shown to be
  enough for any page size. Every other function is total by structural recursion.

  \<^bold>\<open>Parameters.\<close> Hash functions, the JWT library, JSON and URL parsing, the conversion of a text to a date, the
  JSON-RPC endpoints, the operator's API and the network are arguments of the definitions; what is used of
  them are named hypotheses or locales.

  \<^bold>\<open>Not modelled.\<close> Logging, metrics, error reporting and build labels, which nothing in the game reads back;
  the counting of the throttlers, the socket library and the Redis fan-out; process start, connection
  settings and dependency injection; Prisma, Redis and PostgreSQL beyond the documented behaviour the models
  use (\<open>startsWith\<close> is a literal prefix); the load drivers, smoke and statistics scripts, which drive a
  server from outside; the Redis lease mirror of the election, which nothing reads back.
\<close>

end
